(* ===== verification/Prelude.thy ===== *)
theory Prelude
  imports Main "HOL-Library.List_Lexorder" "HOL-Library.Char_ord" "HOL-Library.Product_Lexorder"
begin

text \<open>
  Shared vocabulary of the development: the error values that stand for the exceptions of the
  source, decimal numerals and string splitting as Python computes them, the ``latest row in a
  total order'' query that the SQL of the repository uses everywhere
  (\<^verbatim>\<open>ORDER BY ... DESC LIMIT 1\<close>), and the two interfaces that every stateful component
  implements: operations that preserve an invariant, and operations that only move forward.
\<close>

section \<open>Theorem collections\<close>

named_theorems frame_simps \<open>which table or field an operation leaves alone\<close>
named_theorems inv_intros \<open>preservation of a component's invariant\<close>
named_theorems py_simps \<open>evaluation of the Python helpers on concrete strings\<close>

section \<open>Errors\<close>

text \<open>The exceptions the modelled code raises, one constructor per exception class.\<close>

datatype py_error =
    ValueError string
  | RuntimeError string
  | TypeError string
  | KeyError string
  | AttributeError string
  | IntegrityError string
  | DataError string
  | AuthorityRefused string
  | WireVerificationError string
  | ArchiveVerificationError string

type_synonym 'a result = "py_error + 'a"

definition bind_result :: "'a result \<Rightarrow> ('a \<Rightarrow> 'b result) \<Rightarrow> 'b result" where
  "bind_result r f = (case r of Inl e \<Rightarrow> Inl e | Inr x \<Rightarrow> f x)"

lemma bind_result_simps [simp]:
  "bind_result (Inl e) f = Inl e"
  "bind_result (Inr x) f = f x"
  by (simp_all add: bind_result_def)

lemma bind_result_Inr [simp]:
  "bind_result r f = Inr y \<longleftrightarrow> (\<exists>x. r = Inr x \<and> f x = Inr y)"
  by (cases r) auto

section \<open>Python strings\<close>

definition startswith :: "string \<Rightarrow> string \<Rightarrow> bool" where
  "startswith s p \<longleftrightarrow> take (length p) s = p"

lemma startswith_append [simp]: "startswith (p @ s) p"
  by (simp add: startswith_def)

fun join :: "string \<Rightarrow> string list \<Rightarrow> string" where
  "join sep [] = []"
| "join sep [x] = x"
| "join sep (x # y # zs) = x @ sep @ join sep (y # zs)"

text \<open>\<open>str(n)\<close> and \<open>int(s)\<close> on ASCII decimals.\<close>

definition digit_char :: "nat \<Rightarrow> char" where
  "digit_char n = char_of (48 + n)"

definition is_digit :: "char \<Rightarrow> bool" where
  "is_digit c \<longleftrightarrow> 48 \<le> (of_char c :: nat) \<and> (of_char c :: nat) \<le> 57"

fun nat_str :: "nat \<Rightarrow> string" where
  "nat_str n = (if n < 10 then [digit_char n] else nat_str (n div 10) @ [digit_char (n mod 10)])"

declare nat_str.simps [simp del]

definition int_str :: "int \<Rightarrow> string" where
  "int_str i = (if i < 0 then CHR ''-'' # nat_str (nat (- i)) else nat_str (nat i))"

definition dec_val :: "string \<Rightarrow> nat" where
  "dec_val s = foldl (\<lambda>a c. 10 * a + (of_char c - 48)) 0 s"

lemma of_char_digit_char [simp]: "n < 10 \<Longrightarrow> of_char (digit_char n) = 48 + n"
  by (simp add: digit_char_def)

lemma is_digit_digit_char [simp]: "n < 10 \<Longrightarrow> is_digit (digit_char n)"
  by (simp add: is_digit_def)

lemma nat_str_nonempty [simp]: "nat_str n \<noteq> []"
  by (subst nat_str.simps) simp

lemma nat_str_digits: "list_all is_digit (nat_str n)"
proof (induction n rule: nat_str.induct)
  case (1 n)
  then show ?case by (cases "n < 10") (auto simp: nat_str.simps [of n])
qed

lemma dec_val_nat_str [simp]: "dec_val (nat_str n) = n"
proof (induction n rule: nat_str.induct)
  case (1 n)
  show ?case
  proof (cases "n < 10")
    case True
    then show ?thesis by (simp add: nat_str.simps [of n] dec_val_def)
  next
    case False
    with 1 have "dec_val (nat_str (n div 10)) = n div 10" by simp
    with False show ?thesis by (simp add: nat_str.simps [of n] dec_val_def)
  qed
qed

lemma nat_str_inj [simp]: "nat_str m = nat_str n \<longleftrightarrow> m = n"
  by (metis dec_val_nat_str)

lemma nat_str_no_dash: "CHR ''-'' \<notin> set (nat_str n)"
  using nat_str_digits [of n] by (auto simp: list_all_iff is_digit_def)

lemma int_str_inj [simp]: "int_str i = int_str j \<longleftrightarrow> i = j"
proof
  assume eq: "int_str i = int_str j"
  have "hd (nat_str n) \<noteq> CHR ''-''" for n
    using nat_str_no_dash [of n] hd_in_set [OF nat_str_nonempty, of n] by metis
  then have "(i < 0) = (j < 0)" using eq
    by (auto simp: int_str_def split: if_splits) (metis list.sel(1))+
  with eq show "i = j" by (auto simp: int_str_def split: if_splits)
qed simp

text \<open>
  \<open>s.split(".", k)\<close>: at most \<open>k\<close> cuts, the rest of the string is the last part.
\<close>

fun split_dot :: "nat \<Rightarrow> string \<Rightarrow> string list" where
  "split_dot k [] = [[]]"
| "split_dot 0 (c # s) = [c # s]"
| "split_dot (Suc k) (c # s) =
     (if c = CHR ''.'' then [] # split_dot k s
      else (case split_dot (Suc k) s of p # ps \<Rightarrow> (c # p) # ps | [] \<Rightarrow> [[c]]))"

lemma split_dot_0 [simp]: "split_dot 0 s = [s]"
  by (cases s) simp_all

lemma split_dot_piece:
  assumes "CHR ''.'' \<notin> set p"
  shows "split_dot (Suc k) (p @ CHR ''.'' # s) = p # split_dot k s"
  using assms by (induction p) auto

section \<open>The latest row in a total order\<close>

text \<open>
  \<^verbatim>\<open>SELECT ... ORDER BY key DESC LIMIT 1\<close>.  When the key separates the rows, the answer depends
  on the set of rows only; that is what makes the projections independent of arrival order.
\<close>

fun latest_by :: "('a \<Rightarrow> 'k::linorder) \<Rightarrow> 'a list \<Rightarrow> 'a option" where
  "latest_by k [] = None"
| "latest_by k (x # xs) =
     (case latest_by k xs of None \<Rightarrow> Some x | Some y \<Rightarrow> if k y \<le> k x then Some x else Some y)"

lemma latest_by_None [simp]: "latest_by k xs = None \<longleftrightarrow> xs = []"
  by (cases xs) (auto split: option.splits)

lemma latest_by_Some:
  "latest_by k xs = Some x \<Longrightarrow> x \<in> set xs \<and> (\<forall>y \<in> set xs. k y \<le> k x)"
proof (induction xs arbitrary: x)
  case (Cons a xs)
  then show ?case
    by (fastforce split: option.splits if_splits)
qed simp

lemma latest_by_mem: "latest_by k xs = Some x \<Longrightarrow> x \<in> set xs"
  using latest_by_Some by fast

lemma latest_by_max: "latest_by k xs = Some x \<Longrightarrow> y \<in> set xs \<Longrightarrow> k y \<le> k x"
  using latest_by_Some by fast

lemma latest_by_iff:
  assumes "inj_on k (set xs)"
  shows "latest_by k xs = Some x \<longleftrightarrow> x \<in> set xs \<and> (\<forall>y \<in> set xs. k y \<le> k x)"
proof
  assume r: "x \<in> set xs \<and> (\<forall>y \<in> set xs. k y \<le> k x)"
  then have "xs \<noteq> []" by auto
  then obtain z where z: "latest_by k xs = Some z"
    by (cases "latest_by k xs") auto
  with r have "k z = k x" using latest_by_Some [OF z] by (auto intro: antisym)
  with assms r z show "latest_by k xs = Some x"
    using latest_by_Some [OF z] by (metis inj_onD)
qed (rule latest_by_Some)

lemma latest_by_set_cong:
  assumes "set xs = set ys" "inj_on k (set xs)"
  shows "latest_by k xs = latest_by k ys"
proof (cases "latest_by k xs")
  case None
  with assms show ?thesis by (cases ys) auto
next
  case (Some x)
  with assms have "latest_by k ys = Some x"
    using latest_by_iff [of k xs] latest_by_iff [of k ys] by auto
  with Some show ?thesis by simp
qed

text \<open>
  \<^verbatim>\<open>SELECT DISTINCT ON (g) ... ORDER BY g, key DESC\<close>: of the rows with one value of \<open>g\<close> the
  latest.
\<close>

definition distinct_on :: "('a \<Rightarrow> 'g) \<Rightarrow> ('a \<Rightarrow> 'k::linorder) \<Rightarrow> 'a list \<Rightarrow> 'a list" where
  "distinct_on g k xs =
     List.map_filter (\<lambda>v. latest_by k (filter (\<lambda>x. g x = v) xs)) (remdups (map g xs))"

lemma in_map_filter: "x \<in> set (List.map_filter f xs) \<longleftrightarrow> (\<exists>y\<in>set xs. f y = Some x)"
  by (induction xs) (auto simp: map_filter_simps split: option.splits)

lemma in_distinct_on:
  "x \<in> set (distinct_on g k xs) \<longleftrightarrow> latest_by k (filter (\<lambda>y. g y = g x) xs) = Some x"
proof
  assume "x \<in> set (distinct_on g k xs)"
  then obtain v where v: "latest_by k (filter (\<lambda>y. g y = v) xs) = Some x"
    by (auto simp: distinct_on_def in_map_filter)
  from latest_by_mem [OF v] have "v = g x" by simp
  with v show "latest_by k (filter (\<lambda>y. g y = g x) xs) = Some x" by simp
next
  assume x: "latest_by k (filter (\<lambda>y. g y = g x) xs) = Some x"
  from latest_by_mem [OF x] have "x \<in> set xs" by simp
  with x show "x \<in> set (distinct_on g k xs)" by (auto simp: distinct_on_def in_map_filter)
qed

lemma distinct_on_subset: "x \<in> set (distinct_on g k xs) \<Longrightarrow> x \<in> set xs"
  unfolding in_distinct_on by (drule latest_by_mem) simp

lemma distinct_on_inj: "inj_on g (set (distinct_on g k xs))"
  by (rule inj_onI) (simp add: in_distinct_on)

lemma distinct_on_latest:
  "x \<in> set (distinct_on g k xs) \<Longrightarrow> y \<in> set xs \<Longrightarrow> g y = g x \<Longrightarrow> k y \<le> k x"
  unfolding in_distinct_on by (drule latest_by_max) simp_all

lemma distinct_on_some:
  assumes "y \<in> set xs"
  shows "\<exists>x\<in>set (distinct_on g k xs). g x = g y"
proof (cases "latest_by k (filter (\<lambda>x. g x = g y) xs)")
  case None
  with assms show ?thesis by (auto simp: filter_empty_conv)
next
  case (Some x)
  from latest_by_mem [OF Some] have "g x = g y" by simp
  with Some show ?thesis by (intro bexI [of _ x]) (simp_all add: in_distinct_on)
qed

lemma distinct_map_filter:
  assumes "distinct xs" and "\<And>v x. f v = Some x \<Longrightarrow> g x = v"
  shows "distinct (map g (List.map_filter f xs))"
  using assms(1)
proof (induction xs)
  case (Cons v xs)
  then show ?case
    using assms(2) by (auto simp: map_filter_simps in_map_filter split: option.splits)
qed (simp add: map_filter_simps)

lemma distinct_on_distinct: "distinct (map g (distinct_on g k xs))"
  unfolding distinct_on_def
  by (rule distinct_map_filter) (auto dest!: latest_by_mem)

section \<open>Contracts shared by the stateful components\<close>

text \<open>
  A history of calls: a call that raises leaves the state as it was (every modelled operation
  raises before it mutates, or its transaction rolls back), the others install the new state.
\<close>

fun exec_ops :: "('o \<Rightarrow> 's \<Rightarrow> 'e + 's) \<Rightarrow> 'o list \<Rightarrow> 's \<Rightarrow> 's" where
  "exec_ops step [] s = s"
| "exec_ops step (c # cs) s =
     exec_ops step cs (case step c s of Inl _ \<Rightarrow> s | Inr s' \<Rightarrow> s')"

text \<open>Operations that preserve an invariant.\<close>

locale guarded_ops =
  fixes step :: "'o \<Rightarrow> 's \<Rightarrow> 'e + 's"
    and inv :: "'s \<Rightarrow> bool"
  assumes step_inv: "inv s \<Longrightarrow> step c s = Inr s' \<Longrightarrow> inv s'"
begin

lemma exec_inv: "inv s \<Longrightarrow> inv (exec_ops step cs s)"
  by (induction cs arbitrary: s) (auto split: sum.splits dest: step_inv)

end

text \<open>Operations that, on invariant states, only move forward in a preorder.\<close>

locale forward_ops = guarded_ops step inv
  for step :: "'o \<Rightarrow> 's \<Rightarrow> 'e + 's" and inv :: "'s \<Rightarrow> bool" +
  fixes below :: "'s \<Rightarrow> 's \<Rightarrow> bool"
  assumes below_refl: "below s s"
    and below_trans: "below s t \<Longrightarrow> below t u \<Longrightarrow> below s u"
    and step_below: "inv s \<Longrightarrow> step c s = Inr s' \<Longrightarrow> below s s'"
begin

lemma exec_below: "inv s \<Longrightarrow> below s (exec_ops step cs s)"
proof (induction cs arbitrary: s)
  case Nil
  then show ?case by (simp add: below_refl)
next
  case (Cons c cs)
  show ?case
  proof (cases "step c s")
    case (Inl e)
    with Cons show ?thesis by simp
  next
    case (Inr s')
    with Cons.prems have "below s s'" "inv s'"
      by (auto intro: step_below step_inv)
    with Inr Cons.IH show ?thesis by (auto intro: below_trans)
  qed
qed

end

end
