(* ===== verification/Canonical_Json.thy ===== *)
theory Canonical_Json
  imports Prelude
begin

text \<open>
  \<^verbatim>\<open>kawa/domain/ids.py\<close>: \<open>canonical_json\<close> and \<open>digest\<close>, the content-addressing
  primitive every identity of the system is built from.  A JSON value is a tree; a float is
  carried as the text of its \<open>repr\<close> (which determines it); an object lists its members in
  insertion order, as a Python dict does.  The printer is the one of \<open>json.dumps\<close> with
  \<open>sort_keys=True\<close>, compact separators and \<open>ensure_ascii=False\<close>.

  Main result: the printer is injective on well-formed values up to the order of members, so
  two objects with the same canonical text are the same object.  With a hash that does not
  collide on the texts at hand this makes a digest a name for the object.
\<close>

section \<open>Values\<close>

datatype json =
    JNull
  | JBool bool
  | JInt int
  | JFloat string
  | JStr string
  | JList "json list"
  | JObj "(string \<times> json) list"

fun jopt :: "('a \<Rightarrow> json) \<Rightarrow> 'a option \<Rightarrow> json" where
  "jopt f None = JNull"
| "jopt f (Some x) = f x"

lemma jopt_JStr_inj [simp]: "jopt JStr a = jopt JStr b \<longleftrightarrow> a = b"
  by (cases a; cases b) auto

section \<open>Printing\<close>

definition hex_char :: "nat \<Rightarrow> char" where
  "hex_char n = (if n < 10 then char_of (48 + n) else char_of (87 + n))"

text \<open>The escapes of \<open>json.encoder\<close> when \<open>ensure_ascii\<close> is off.\<close>

definition esc_char :: "char \<Rightarrow> string" where
  "esc_char c =
     (if c = CHR 0x22 then [CHR 0x5C, CHR 0x22]
      else if c = CHR 0x5C then [CHR 0x5C, CHR 0x5C]
      else if c = CHR 0x0A then [CHR 0x5C, CHR ''n'']
      else if c = CHR 0x0D then [CHR 0x5C, CHR ''r'']
      else if c = CHR 0x09 then [CHR 0x5C, CHR ''t'']
      else if c = CHR 0x08 then [CHR 0x5C, CHR ''b'']
      else if c = CHR 0x0C then [CHR 0x5C, CHR ''f'']
      else if (of_char c :: nat) < 32 then
        [CHR 0x5C, CHR ''u'', CHR ''0'', CHR ''0'',
         hex_char (of_char c div 16), hex_char (of_char c mod 16)]
      else [c])"

fun esc_string :: "string \<Rightarrow> string" where
  "esc_string [] = []"
| "esc_string (c # s) = esc_char c @ esc_string s"

definition quote :: "string \<Rightarrow> string" where
  "quote s = CHR 0x22 # esc_string s @ [CHR 0x22]"

text \<open>The text of a float: its \<open>repr\<close>, and the names that \<open>json.encoder\<close> gives the three others.\<close>

definition print_float :: "string \<Rightarrow> string" where
  "print_float t = (if t = ''nan'' then ''NaN'' else if t = ''inf'' then ''Infinity''
     else if t = ''-inf'' then ''-Infinity'' else t)"

fun print_json :: "json \<Rightarrow> string"
  and print_elems :: "json list \<Rightarrow> string"
  and print_members :: "(string \<times> json) list \<Rightarrow> string" where
  "print_json JNull = ''null''"
| "print_json (JBool b) = (if b then ''true'' else ''false'')"
| "print_json (JInt i) = int_str i"
| "print_json (JFloat t) = print_float t"
| "print_json (JStr s) = quote s"
| "print_json (JList js) = ''['' @ print_elems js @ '']''"
| "print_json (JObj kvs) = ''{'' @ print_members kvs @ ''}''"
| "print_elems [] = []"
| "print_elems [j] = print_json j"
| "print_elems (j # j' # js) = print_json j @ '','' @ print_elems (j' # js)"
| "print_members [] = []"
| "print_members [(k, j)] = quote k @ '':'' @ print_json j"
| "print_members ((k, j) # m # ms) = quote k @ '':'' @ print_json j @ '','' @ print_members (m # ms)"

text \<open>\<open>sort_keys=True\<close>: the members of every object in the order of their keys.\<close>

fun sort_keys :: "json \<Rightarrow> json"
  and sort_elems :: "json list \<Rightarrow> json list"
  and sort_members :: "(string \<times> json) list \<Rightarrow> (string \<times> json) list" where
  "sort_keys (JList js) = JList (sort_elems js)"
| "sort_keys (JObj kvs) = JObj (sort_key fst (sort_members kvs))"
| "sort_keys j = j"
| "sort_elems [] = []"
| "sort_elems (j # js) = sort_keys j # sort_elems js"
| "sort_members [] = []"
| "sort_members ((k, j) # ms) = (k, sort_keys j) # sort_members ms"

definition canonical_json :: "json \<Rightarrow> string" where
  "canonical_json j = print_json (sort_keys j)"

text \<open>
  The hash function is a parameter: \<open>sha\<close> maps a text to the hexadecimal SHA-256 of its UTF-8
  bytes.
\<close>

definition digest :: "(string \<Rightarrow> string) \<Rightarrow> json \<Rightarrow> string" where
  "digest sha j = ''sha256:'' @ sha (canonical_json j)"

section \<open>Well-formed values\<close>

text \<open>
  The \<open>repr\<close> of a finite float: characters of a decimal literal, at least one of them
  \<open>.\<close> or \<open>e\<close> (an integer's text has neither).
\<close>

definition num_char :: "char \<Rightarrow> bool" where
  "num_char c \<longleftrightarrow> is_digit c \<or> c \<in> {CHR ''-'', CHR ''+'', CHR ''.'', CHR ''e''}"

definition float_text :: "string \<Rightarrow> bool" where
  "float_text t \<longleftrightarrow> list_all num_char t \<and> (CHR ''.'' \<in> set t \<or> CHR ''e'' \<in> set t)
     \<and> (t \<noteq> [] \<and> (is_digit (hd t) \<or> hd t = CHR ''-''))"

lemma print_float_finite [simp]: "float_text t \<Longrightarrow> print_float t = t"
  by (auto simp: print_float_def float_text_def num_char_def is_digit_def)

fun wf_json :: "json \<Rightarrow> bool"
  and wf_elems :: "json list \<Rightarrow> bool"
  and wf_members :: "(string \<times> json) list \<Rightarrow> bool" where
  "wf_json (JFloat t) = float_text t"
| "wf_json (JList js) = wf_elems js"
| "wf_json (JObj kvs) = wf_members kvs"
| "wf_json j = True"
| "wf_elems [] = True"
| "wf_elems (j # js) = (wf_json j \<and> wf_elems js)"
| "wf_members [] = True"
| "wf_members ((k, j) # ms) = (wf_json j \<and> wf_members ms)"

lemma wf_members_iff: "wf_members ms \<longleftrightarrow> (\<forall>(k, j) \<in> set ms. wf_json j)"
  by (induction ms) auto

lemma wf_jopt_JStr [simp]: "wf_json (jopt JStr x)"
  by (cases x) auto

lemma wf_members_sort_key: "wf_members (sort_key f ms) = wf_members ms"
  by (simp add: wf_members_iff)

lemma wf_sort_keys:
  "wf_json j \<Longrightarrow> wf_json (sort_keys j)"
  "wf_elems js \<Longrightarrow> wf_elems (sort_elems js)"
  "wf_members ms \<Longrightarrow> wf_members (sort_members ms)"
proof (induction j and js and ms rule: sort_keys_sort_elems_sort_members.induct)
qed (auto simp: wf_members_sort_key)

section \<open>The printer is injective\<close>

lemma of_char_hex_char: "k < 16 \<Longrightarrow> of_char (hex_char k) = (if k < 10 then 48 + k else 87 + k)"
  by (simp add: hex_char_def)

text \<open>A decoder for one escape shows that the escapes form a prefix code.\<close>

definition hex_val :: "char \<Rightarrow> nat" where
  "hex_val c = (if (of_char c :: nat) < 58 then of_char c - 48 else of_char c - 87)"

lemma hex_val_hex_char: "k < 16 \<Longrightarrow> hex_val (hex_char k) = k"
  by (auto simp: hex_val_def of_char_hex_char)

fun unesc_char :: "string \<Rightarrow> char \<times> string" where
  "unesc_char (x # xs) =
     (if x \<noteq> CHR 0x5C then (x, xs)
      else (case xs of
          y # ys \<Rightarrow>
            if y = CHR ''n'' then (CHR 0x0A, ys)
            else if y = CHR ''r'' then (CHR 0x0D, ys)
            else if y = CHR ''t'' then (CHR 0x09, ys)
            else if y = CHR ''b'' then (CHR 0x08, ys)
            else if y = CHR ''f'' then (CHR 0x0C, ys)
            else if y = CHR ''u'' then
              (char_of (16 * hex_val (ys ! 2) + hex_val (ys ! 3)), drop 4 ys)
            else (y, ys)
        | [] \<Rightarrow> (x, [])))"
| "unesc_char [] = (CHR 0x00, [])"

lemma unesc_esc_char: "unesc_char (esc_char c @ r) = (c, r)"
proof (cases "c \<in> {CHR 0x22, CHR 0x5C, CHR 0x0A, CHR 0x0D, CHR 0x09, CHR 0x08, CHR 0x0C}")
  case True
  then show ?thesis by (elim insertE) (simp_all add: esc_char_def)
next
  case False
  show ?thesis
  proof (cases "(of_char c :: nat) < 32")
    case True
    then have "(of_char c div 16 :: nat) < 16" "(of_char c mod 16 :: nat) < 16" by auto
    then have "16 * hex_val (hex_char (of_char c div 16)) + hex_val (hex_char (of_char c mod 16))
        = (of_char c :: nat)"
      by (simp add: hex_val_hex_char)
    with False True show ?thesis by (simp add: esc_char_def)
  qed (use False in \<open>simp add: esc_char_def\<close>)
qed

lemma esc_char_nonempty [simp]: "esc_char c \<noteq> []"
  by (simp add: esc_char_def)

lemma esc_char_not_quote: "esc_char c @ r \<noteq> CHR 0x22 # r'"
  by (simp add: esc_char_def)

lemma esc_string_unique:
  assumes "esc_string s @ CHR 0x22 # r = esc_string t @ CHR 0x22 # r'"
  shows "s = t \<and> r = r'"
  using assms
proof (induction s arbitrary: t)
  case Nil
  show ?case
  proof (cases t)
    case Nil
    with \<open>esc_string [] @ CHR 0x22 # r = esc_string t @ CHR 0x22 # r'\<close> show ?thesis by simp
  next
    case t: (Cons d t')
    with \<open>esc_string [] @ CHR 0x22 # r = esc_string t @ CHR 0x22 # r'\<close>
    have "esc_char d @ (esc_string t' @ CHR 0x22 # r') = CHR 0x22 # r" by simp
    then show ?thesis by (simp add: esc_char_not_quote)
  qed
next
  case (Cons c s)
  show ?case
  proof (cases t)
    case Nil
    with Cons.prems show ?thesis by (simp add: esc_char_not_quote)
  next
    case t: (Cons d t')
    have "esc_char c @ (esc_string s @ CHR 0x22 # r) = esc_char d @ (esc_string t' @ CHR 0x22 # r')"
      using Cons.prems t by simp
    then have "(c, esc_string s @ CHR 0x22 # r) = (d, esc_string t' @ CHR 0x22 # r')"
      by (metis unesc_esc_char)
    with Cons.IH t show ?thesis by simp
  qed
qed

lemma quote_unique: "quote s @ r = quote t @ r' \<longleftrightarrow> s = t \<and> r = r'"
  by (auto simp: quote_def dest: esc_string_unique)

text \<open>What may follow a value: nothing, or a character no number contains.\<close>

definition delim :: "string \<Rightarrow> bool" where
  "delim r \<longleftrightarrow> (r = [] \<or> \<not> num_char (hd r))"

lemma delim_simps [simp]:
  "delim []" "delim (CHR '','' # r)" "delim (CHR '']'' # r)" "delim (CHR ''}'' # r)"
  by (simp_all add: delim_def num_char_def is_digit_def)

lemma list_all_num_int_str: "list_all num_char (int_str i)"
proof -
  have "list_all num_char (nat_str n)" for n
    using nat_str_digits [of n] by (auto simp: list_all_iff num_char_def)
  then show ?thesis by (simp add: int_str_def num_char_def)
qed

lemma num_text_unique:
  assumes "list_all num_char s" "list_all num_char t" "delim r" "delim r'" "s @ r = t @ r'"
  shows "s = t \<and> r = r'"
proof -
  have tw: "takeWhile num_char (u @ v) = u" if "list_all num_char u" "delim v" for u v
    using that by (cases v) (auto simp: takeWhile_append list_all_iff delim_def)
  from assms have "s = t" by (metis tw)
  with assms show ?thesis by simp
qed

lemma int_str_no_point: "CHR ''.'' \<notin> set (int_str i)" "CHR ''e'' \<notin> set (int_str i)"
proof -
  have "CHR ''.'' \<notin> set (nat_str n) \<and> CHR ''e'' \<notin> set (nat_str n)" for n
    using nat_str_digits [of n] by (auto simp: list_all_iff is_digit_def)
  then show "CHR ''.'' \<notin> set (int_str i)" "CHR ''e'' \<notin> set (int_str i)"
    by (simp_all add: int_str_def)
qed

lemma int_str_not_float: "\<not> float_text (int_str i)"
  using int_str_no_point by (simp add: float_text_def)

text \<open>The first character tells the constructors apart.\<close>

fun head_class :: "json \<Rightarrow> nat" where
  "head_class JNull = 0"
| "head_class (JBool b) = (if b then 1 else 2)"
| "head_class (JInt i) = 3"
| "head_class (JFloat t) = 3"
| "head_class (JStr s) = 4"
| "head_class (JList js) = 5"
| "head_class (JObj kvs) = 6"

definition char_class :: "char \<Rightarrow> nat" where
  "char_class c =
     (if c = CHR ''n'' then 0 else if c = CHR ''t'' then 1 else if c = CHR ''f'' then 2
      else if is_digit c \<or> c = CHR ''-'' then 3 else if c = CHR 0x22 then 4
      else if c = CHR ''['' then 5 else if c = CHR ''{'' then 6 else 7)"

lemma nat_str_hd: "\<exists>c s. nat_str n = c # s \<and> is_digit c"
  using nat_str_digits [of n] nat_str_nonempty [of n] by (cases "nat_str n") auto

lemma char_class_digit: "is_digit c \<Longrightarrow> char_class c = 3"
  by (auto simp: char_class_def is_digit_def)

lemma print_json_head: "wf_json j \<Longrightarrow> \<exists>c s. print_json j = c # s \<and> char_class c = head_class j"
proof (cases j)
  case (JInt i)
  have "\<exists>c s. int_str i = c # s \<and> char_class c = 3"
  proof (cases "i < 0")
    case True
    then show ?thesis by (simp add: int_str_def char_class_def is_digit_def)
  next
    case False
    with nat_str_hd [of "nat i"] show ?thesis by (auto simp: int_str_def char_class_digit)
  qed
  with JInt show ?thesis by simp
next
  case (JFloat t)
  moreover assume "wf_json j"
  ultimately have "t \<noteq> []" "is_digit (hd t) \<or> hd t = CHR ''-''" "print_float t = t"
    by (simp_all add: print_float_finite) (simp_all add: float_text_def)
  moreover from this have "char_class (hd t) = 3"
    by (auto simp: char_class_digit) (simp add: char_class_def is_digit_def)
  ultimately show ?thesis using JFloat by (cases t) auto
qed (auto simp: quote_def char_class_def is_digit_def)

lemma print_json_not_close: "wf_json j \<Longrightarrow> print_json j @ r \<noteq> CHR '']'' # r'"
  using print_json_head [of j]
  by (cases j) (auto simp: char_class_def is_digit_def)

lemma head_class_eq:
  "wf_json a \<Longrightarrow> wf_json b \<Longrightarrow> print_json a @ r = print_json b @ r' \<Longrightarrow> head_class a = head_class b"
  using print_json_head [of a] print_json_head [of b] by auto

lemma print_elems_Cons:
  "print_elems (j # js) = print_json j @ (if js = [] then [] else CHR '','' # print_elems js)"
  by (cases js) auto

lemma print_members_Cons:
  "print_members ((k, j) # ms) =
     quote k @ CHR '':'' # print_json j @ (if ms = [] then [] else CHR '','' # print_members ms)"
  by (cases ms) auto

text \<open>Unique reading: a printed value followed by a delimiter determines the value and the rest.\<close>

lemma print_json_unique_simple:
  assumes "wf_json a" "wf_json b" "delim r" "delim r'" "print_json a @ r = print_json b @ r'"
    and "head_class a < 5"
  shows "a = b \<and> r = r'"
proof -
  have cls: "head_class a = head_class b" using assms by (intro head_class_eq)
  show ?thesis
  proof (cases "head_class a = 3")
    case True
    have num: "list_all num_char (print_json j)" if "wf_json j" "head_class j = 3" for j
      using that list_all_num_int_str by (cases j) (auto simp: float_text_def split: if_splits)
    from True cls assms num have eq: "print_json a = print_json b" "r = r'"
      using num_text_unique [of "print_json a" "print_json b" r r'] by auto
    have "float_text t \<Longrightarrow> int_str i \<noteq> t" for t i using int_str_not_float by auto
    with eq True cls assms show ?thesis
      by (cases a; cases b) (auto split: if_splits)
  next
    case False
    with cls assms show ?thesis
      by (cases a; cases b) (auto simp: quote_unique split: if_splits)
  qed
qed

lemma print_json_unique:
  "wf_json a \<Longrightarrow> (\<And>b r r'. wf_json b \<Longrightarrow> delim r \<Longrightarrow> delim r' \<Longrightarrow>
     print_json a @ r = print_json b @ r' \<Longrightarrow> a = b \<and> r = r')"
  "wf_elems js \<Longrightarrow> (\<And>ks r r'. wf_elems ks \<Longrightarrow>
     print_elems js @ CHR '']'' # r = print_elems ks @ CHR '']'' # r' \<Longrightarrow> js = ks \<and> r = r')"
  "wf_members ms \<Longrightarrow> (\<And>ns r r'. wf_members ns \<Longrightarrow>
     print_members ms @ CHR ''}'' # r = print_members ns @ CHR ''}'' # r' \<Longrightarrow> ms = ns \<and> r = r')"
proof (induction a and js and ms rule: sort_keys_sort_elems_sort_members.induct)
  case (1 js)
  have "head_class b = 5" using head_class_eq [of "JList js" b r r'] "1.prems" by simp
  then obtain ks where b: "b = JList ks" by (cases b) (auto split: if_splits)
  with "1.prems" have "js = ks \<and> r = r'" by (intro "1.IH") simp_all
  with b show ?case by simp
next
  case (2 kvs)
  have "head_class b = 6" using head_class_eq [of "JObj kvs" b r r'] "2.prems" by simp
  then obtain ks where b: "b = JObj ks" by (cases b) (auto split: if_splits)
  with "2.prems" have "kvs = ks \<and> r = r'" by (intro "2.IH") simp_all
  with b show ?case by simp
next
  case 4
  show ?case
  proof (cases ks)
    case (Cons k ks')
    define tl2 where "tl2 = (if ks' = [] then [] else CHR '','' # print_elems ks') @ CHR '']'' # r'"
    have "print_json k @ tl2 = CHR '']'' # r" "wf_json k"
      using "4.prems" Cons by (simp_all add: print_elems_Cons tl2_def)
    then show ?thesis using print_json_not_close by blast
  qed (use "4.prems" in simp)
next
  case (5 j js)
  show ?case
  proof (cases ks)
    case Nil
    define tl1 where "tl1 = (if js = [] then [] else CHR '','' # print_elems js) @ CHR '']'' # r"
    have "print_json j @ tl1 = CHR '']'' # r'" "wf_json j"
      using "5.prems" Nil by (simp_all add: print_elems_Cons tl1_def)
    then show ?thesis using print_json_not_close by blast
  next
    case (Cons k ks')
    define tl1 where "tl1 = (if js = [] then [] else CHR '','' # print_elems js) @ CHR '']'' # r"
    define tl2 where "tl2 = (if ks' = [] then [] else CHR '','' # print_elems ks') @ CHR '']'' # r'"
    have "print_json j @ tl1 = print_json k @ tl2" "delim tl1" "delim tl2"
      using "5.prems" Cons by (simp_all add: print_elems_Cons tl1_def tl2_def)
    with "5.prems" Cons have jk: "j = k \<and> tl1 = tl2" by (intro "5.IH"(1)) simp_all
    have "js = ks' \<and> r = r'"
    proof (cases "js = [] \<or> ks' = []")
      case True
      with jk show ?thesis by (auto simp: tl1_def tl2_def split: if_splits)
    next
      case False
      with jk "5.prems" Cons show ?thesis
        by (intro "5.IH"(2)) (simp_all add: tl1_def tl2_def)
    qed
    with jk Cons show ?thesis by simp
  qed
next
  case 6
  then show ?case by (cases ns) (auto simp: print_members_Cons quote_def split: prod.splits)
next
  case (7 k j ms)
  show ?case
  proof (cases ns)
    case Nil
    with "7.prems" show ?thesis by (simp add: print_members_Cons quote_def)
  next
    case (Cons n ns')
    obtain k' j' where n: "n = (k', j')" by (cases n)
    define tl1 where "tl1 = (if ms = [] then [] else CHR '','' # print_members ms) @ CHR ''}'' # r"
    define tl2 where "tl2 = (if ns' = [] then [] else CHR '','' # print_members ns') @ CHR ''}'' # r'"
    have "quote k @ (CHR '':'' # print_json j @ tl1) = quote k' @ (CHR '':'' # print_json j' @ tl2)"
      using "7.prems" Cons n by (simp add: print_members_Cons tl1_def tl2_def)
    then have kk: "k = k'" and eq: "print_json j @ tl1 = print_json j' @ tl2"
      by (simp_all add: quote_unique)
    have "delim tl1" "delim tl2" by (simp_all add: tl1_def tl2_def)
    with "7.prems" Cons n eq have jj: "j = j' \<and> tl1 = tl2" by (intro "7.IH"(1)) simp_all
    have "ms = ns' \<and> r = r'"
    proof (cases "ms = [] \<or> ns' = []")
      case True
      with jj show ?thesis by (auto simp: tl1_def tl2_def split: if_splits)
    next
      case False
      with jj "7.prems" Cons n show ?thesis
        by (intro "7.IH"(2)) (simp_all add: tl1_def tl2_def)
    qed
    with jj kk Cons n show ?thesis by simp
  qed
qed (rule print_json_unique_simple; (assumption | simp))+

theorem canonical_json_inj:
  assumes "wf_json a" "wf_json b" "canonical_json a = canonical_json b"
  shows "sort_keys a = sort_keys b"
  using print_json_unique(1) [of "sort_keys a" "sort_keys b" "[]" "[]"] assms
  by (simp add: canonical_json_def wf_sort_keys)

section \<open>Digests name their objects\<close>

lemma sort_members_map: "sort_members ms = map (\<lambda>(k, j). (k, sort_keys j)) ms"
  by (induction ms) auto

lemma sort_elems_map: "sort_elems js = map sort_keys js"
  by (induction js) auto

lemma sort_keys_scalar [simp]:
  "sort_keys (jopt JStr x) = jopt JStr x"
  by (cases x) auto

lemma sort_keys_obj_members:
  assumes "sort_keys (JObj ms) = sort_keys (JObj ns)"
  shows "set (sort_members ms) = set (sort_members ns)"
proof -
  have "set (sort_key fst (sort_members ms)) = set (sort_key fst (sort_members ns))"
    using assms by simp
  then show ?thesis by simp
qed

text \<open>Equal canonical objects agree member by member.\<close>

lemma sort_keys_obj_field:
  assumes "sort_keys (JObj ms) = sort_keys (JObj ns)"
    and "distinct (map fst ns)" "(k, v) \<in> set ms" "(k, w) \<in> set ns"
  shows "sort_keys v = sort_keys w"
proof -
  have "set (sort_members ms) = set (sort_members ns)"
    using assms by (intro sort_keys_obj_members)
  moreover have "(k, sort_keys v) \<in> set (sort_members ms)"
    using assms(3) by (auto simp: sort_members_map intro: rev_image_eqI)
  ultimately have "(k, sort_keys v) \<in> set (sort_members ns)" by simp
  then obtain w' where "(k, w') \<in> set ns" "sort_keys v = sort_keys w'"
    by (auto simp: sort_members_map)
  with assms(2,4) show ?thesis by (metis eq_key_imp_eq_value)
qed

lemma sort_keys_obj_keys:
  assumes "sort_keys (JObj ms) = sort_keys (JObj ns)"
  shows "fst ` set ms = fst ` set ns"
proof -
  have "set (sort_members ms) = set (sort_members ns)"
    using assms by (intro sort_keys_obj_members)
  then have "fst ` set (sort_members ms) = fst ` set (sort_members ns)" by simp
  moreover have "fst ` set (sort_members xs) = fst ` set xs" for xs
    by (simp add: sort_members_map image_image split_beta)
  ultimately show ?thesis by simp
qed

text \<open>
  The hypothesis on the hash function: it does not collide on the two texts at hand.
\<close>

definition no_collision :: "(string \<Rightarrow> string) \<Rightarrow> json \<Rightarrow> json \<Rightarrow> bool" where
  "no_collision sha a b \<longleftrightarrow>
     (sha (canonical_json a) = sha (canonical_json b) \<longrightarrow> canonical_json a = canonical_json b)"

lemma digest_inj:
  assumes "no_collision sha a b" "wf_json a" "wf_json b" "digest sha a = digest sha b"
  shows "sort_keys a = sort_keys b"
  using assms by (intro canonical_json_inj) (simp_all add: digest_def no_collision_def)

end
