(* ===== verification/Json_Loads.thy ===== *)
theory Json_Loads
  imports Canonical_Json "HOL-Library.AList"
begin

text \<open>
  \<open>json.loads\<close>, the standard-library decoder through which proofs, wire payloads, manifests and
  durable member lists are read back.  Texts are UTF-8 bytes, as everywhere in the development.
  A float is normalised to its \<open>repr\<close>; that normalisation (IEEE rounding and shortest printing)
  is the parameter \<open>fr\<close>.  Main result: the decoder undoes the printer of
  \<^verbatim>\<open>Canonical_Json\<close>.
\<close>

section \<open>The decoder\<close>

definition is_ws :: "char \<Rightarrow> bool" where
  "is_ws c \<longleftrightarrow> c = CHR '' '' \<or> c = CHR 0x09 \<or> c = CHR 0x0A \<or> c = CHR 0x0D"

definition skip_ws :: "string \<Rightarrow> string" where
  "skip_ws s = dropWhile is_ws s"

definition hex_digit :: "char \<Rightarrow> nat option" where
  "hex_digit c =
     (let n = of_char c :: nat
      in if 48 \<le> n \<and> n \<le> 57 then Some (n - 48)
         else if 97 \<le> n \<and> n \<le> 102 then Some (n - 87)
         else if 65 \<le> n \<and> n \<le> 70 then Some (n - 55) else None)"

definition hex4 :: "char \<Rightarrow> char \<Rightarrow> char \<Rightarrow> char \<Rightarrow> nat option" where
  "hex4 a b c d =
     (case (hex_digit a, hex_digit b, hex_digit c, hex_digit d) of
        (Some p, Some q, Some r, Some s) \<Rightarrow> Some (p * 4096 + q * 256 + r * 16 + s)
      | _ \<Rightarrow> None)"

definition utf8 :: "nat \<Rightarrow> string" where
  "utf8 n =
     (if n < 128 then [char_of n]
      else if n < 2048 then [char_of (192 + n div 64), char_of (128 + n mod 64)]
      else if n < 65536 then
        [char_of (224 + n div 4096), char_of (128 + n div 64 mod 64), char_of (128 + n mod 64)]
      else
        [char_of (240 + n div 262144), char_of (128 + n div 4096 mod 64),
         char_of (128 + n div 64 mod 64), char_of (128 + n mod 64)])"

definition simple_escape :: "char \<Rightarrow> char option" where
  "simple_escape e =
     (if e = CHR 0x22 \<or> e = CHR 0x5C \<or> e = CHR ''/'' then Some e
      else if e = CHR ''b'' then Some (CHR 0x08)
      else if e = CHR ''f'' then Some (CHR 0x0C)
      else if e = CHR ''n'' then Some (CHR 0x0A)
      else if e = CHR ''r'' then Some (CHR 0x0D)
      else if e = CHR ''t'' then Some (CHR 0x09)
      else None)"

text \<open>
  One \<open>\u\<close> escape, with the following low surrogate when there is one: the bytes and the rest.
\<close>

definition unicode_escape :: "string \<Rightarrow> (string \<times> string) option" where
  "unicode_escape s =
     (case s of
        a # b # c # d # r \<Rightarrow>
          (case hex4 a b c d of
             None \<Rightarrow> None
           | Some hi \<Rightarrow>
               if 0xD800 \<le> hi \<and> hi \<le> 0xDBFF then
                 (case r of
                    x # y # e # f # g # h # r' \<Rightarrow>
                      (case (x = CHR 0x5C \<and> y = CHR ''u'', hex4 e f g h) of
                         (True, Some lo) \<Rightarrow>
                           if 0xDC00 \<le> lo \<and> lo \<le> 0xDFFF
                           then Some (utf8 (0x10000 + (hi - 0xD800) * 1024 + (lo - 0xDC00)), r')
                           else Some (utf8 hi, r)
                       | _ \<Rightarrow> Some (utf8 hi, r))
                  | _ \<Rightarrow> Some (utf8 hi, r))
               else Some (utf8 hi, r))
      | _ \<Rightarrow> None)"

lemma unicode_escape_length: "unicode_escape s = Some (u, r) \<Longrightarrow> length r < length s"
  by (auto simp: unicode_escape_def split: list.splits option.splits if_splits bool.splits)

text \<open>The body of a string, after its opening quote.\<close>

function load_str :: "string \<Rightarrow> (string \<times> string) option" where
  "load_str [] = None"
| "load_str (c # s) =
     (if c = CHR 0x22 then Some ([], s)
      else if c = CHR 0x5C then
        (case s of
           [] \<Rightarrow> None
         | e # r \<Rightarrow>
             if e = CHR ''u'' then
               (case unicode_escape r of
                  None \<Rightarrow> None
                | Some (u, r') \<Rightarrow>
                    (case load_str r' of None \<Rightarrow> None | Some (t, q) \<Rightarrow> Some (u @ t, q)))
             else
               (case simple_escape e of
                  None \<Rightarrow> None
                | Some x \<Rightarrow> (case load_str r of None \<Rightarrow> None | Some (t, q) \<Rightarrow> Some (x # t, q))))
      else if (of_char c :: nat) < 32 then None
      else (case load_str s of None \<Rightarrow> None | Some (t, q) \<Rightarrow> Some (c # t, q)))"
  by pat_completeness auto
termination
  by (relation "measure length") (auto dest: unicode_escape_length)

text \<open>
  A number: \<open>-?(0|[1-9][0-9]*)(.[0-9]+)?([eE][+-]?[0-9]+)?\<close>, as integer part, the text of the
  fraction and exponent, and the rest.
\<close>

definition scan_frac :: "string \<Rightarrow> string \<times> string" where
  "scan_frac s =
     (case s of
        p # d # r \<Rightarrow>
          if p = CHR ''.'' \<and> is_digit d
          then (p # takeWhile is_digit (d # r), dropWhile is_digit (d # r)) else ([], s)
      | _ \<Rightarrow> ([], s))"

definition scan_exp :: "string \<Rightarrow> string \<times> string" where
  "scan_exp s =
     (case s of
        x # y # r \<Rightarrow>
          if x \<noteq> CHR ''e'' \<and> x \<noteq> CHR ''E'' then ([], s)
          else if is_digit y then (x # takeWhile is_digit (y # r), dropWhile is_digit (y # r))
          else if (y = CHR ''+'' \<or> y = CHR ''-'') \<and> takeWhile is_digit r \<noteq> []
          then (x # y # takeWhile is_digit r, dropWhile is_digit r)
          else ([], s)
      | _ \<Rightarrow> ([], s))"

definition scan_nat :: "string \<Rightarrow> (string \<times> string) option" where
  "scan_nat s =
     (case s of
        [] \<Rightarrow> None
      | d # r \<Rightarrow>
          if d = CHR ''0'' then Some ([d], r)
          else if is_digit d then Some (takeWhile is_digit s, dropWhile is_digit s)
          else None)"

definition load_num :: "(string \<Rightarrow> string) \<Rightarrow> string \<Rightarrow> (json \<times> string) option" where
  "load_num fr s =
     (let (neg, s1) = (case s of c # r \<Rightarrow> if c = CHR ''-'' then (True, r) else (False, s)
                               | [] \<Rightarrow> (False, s))
      in (case scan_nat s1 of
            None \<Rightarrow> None
          | Some (ip, s2) \<Rightarrow>
              (let (fp, s3) = scan_frac s2; (ep, s4) = scan_exp s3
               in Some (if fp = [] \<and> ep = []
                        then JInt (if neg then - int (dec_val ip) else int (dec_val ip))
                        else JFloat (fr ((if neg then [CHR ''-''] else []) @ ip @ fp @ ep)), s4))))"

definition load_const :: "string \<Rightarrow> (json \<times> string) option" where
  "load_const s =
     (if startswith s ''null'' then Some (JNull, drop 4 s)
      else if startswith s ''true'' then Some (JBool True, drop 4 s)
      else if startswith s ''false'' then Some (JBool False, drop 5 s)
      else if startswith s ''NaN'' then Some (JFloat ''nan'', drop 3 s)
      else if startswith s ''Infinity'' then Some (JFloat ''inf'', drop 8 s)
      else if startswith s ''-Infinity'' then Some (JFloat ''-inf'', drop 9 s)
      else None)"

text \<open>A repeated key keeps its first place and its last value, as a \<open>dict\<close> does.\<close>

definition dict_of :: "(string \<times> json) list \<Rightarrow> (string \<times> json) list" where
  "dict_of ms = foldl (\<lambda>d (k, j). AList.update k j d) [] ms"

fun load_val :: "(string \<Rightarrow> string) \<Rightarrow> nat \<Rightarrow> string \<Rightarrow> (json \<times> string) option"
  and load_elems :: "(string \<Rightarrow> string) \<Rightarrow> nat \<Rightarrow> string \<Rightarrow> (json list \<times> string) option"
  and load_members ::
    "(string \<Rightarrow> string) \<Rightarrow> nat \<Rightarrow> string \<Rightarrow> ((string \<times> json) list \<times> string) option" where
  "load_val fr 0 s = None"
| "load_val fr (Suc n) s =
     (case s of
        [] \<Rightarrow> None
      | c # r \<Rightarrow>
          if c = CHR 0x22 then
            (case load_str r of None \<Rightarrow> None | Some (t, q) \<Rightarrow> Some (JStr t, q))
          else if c = CHR ''['' then
            (case skip_ws r of
               [] \<Rightarrow> None
             | d # q \<Rightarrow>
                 if d = CHR '']'' then Some (JList [], q)
                 else (case load_elems fr n (d # q) of
                         None \<Rightarrow> None | Some (js, q') \<Rightarrow> Some (JList js, q')))
          else if c = CHR ''{'' then
            (case skip_ws r of
               [] \<Rightarrow> None
             | d # q \<Rightarrow>
                 if d = CHR ''}'' then Some (JObj [], q)
                 else (case load_members fr n (d # q) of
                         None \<Rightarrow> None | Some (ms, q') \<Rightarrow> Some (JObj (dict_of ms), q')))
          else
            (case load_const s of
               Some jr \<Rightarrow> Some jr
             | None \<Rightarrow> load_num fr s))"
| "load_elems fr 0 s = None"
| "load_elems fr (Suc n) s =
     (case load_val fr n s of
        None \<Rightarrow> None
      | Some (j, r) \<Rightarrow>
          (case skip_ws r of
             [] \<Rightarrow> None
           | d # q \<Rightarrow>
               if d = CHR '']'' then Some ([j], q)
               else if d = CHR '','' then
                 (case load_elems fr n (skip_ws q) of
                    None \<Rightarrow> None | Some (js, q') \<Rightarrow> Some (j # js, q'))
               else None))"
| "load_members fr 0 s = None"
| "load_members fr (Suc n) s =
     (case s of
        [] \<Rightarrow> None
      | c # r \<Rightarrow>
          if c \<noteq> CHR 0x22 then None
          else
            (case load_str r of
               None \<Rightarrow> None
             | Some (k, q) \<Rightarrow>
                 (case skip_ws q of
                    [] \<Rightarrow> None
                  | x # q1 \<Rightarrow>
                      if x \<noteq> CHR '':'' then None
                      else
                        (case load_val fr n (skip_ws q1) of
                           None \<Rightarrow> None
                         | Some (j, q2) \<Rightarrow>
                             (case skip_ws q2 of
                                [] \<Rightarrow> None
                              | d # q3 \<Rightarrow>
                                  if d = CHR ''}'' then Some ([(k, j)], q3)
                                  else if d = CHR '','' then
                                    (case load_members fr n (skip_ws q3) of
                                       None \<Rightarrow> None
                                     | Some (ms, q4) \<Rightarrow> Some ((k, j) # ms, q4))
                                  else None)))))"

text \<open>
  \<open>None\<close> is \<open>ValueError\<close>.  The fuel is twice the length of the text plus two: every second step of the decoder
  consumes a character.
\<close>

definition loads :: "(string \<Rightarrow> string) \<Rightarrow> string \<Rightarrow> json option" where
  "loads fr s =
     (case load_val fr (2 * length s + 2) (skip_ws s) of
        None \<Rightarrow> None
      | Some (j, r) \<Rightarrow> if skip_ws r = [] then Some j else None)"

section \<open>Numbers\<close>

definition stop :: "string \<Rightarrow> bool" where
  "stop r \<longleftrightarrow> (r = [] \<or> \<not> is_digit (hd r) \<and> hd r \<notin> {CHR ''.'', CHR ''e'', CHR ''E''})"

lemma stop_simps [simp]:
  "stop []" "stop (CHR '','' # r)" "stop (CHR '']'' # r)" "stop (CHR ''}'' # r)"
  by (simp_all add: stop_def is_digit_def)

lemma digits_app:
  assumes "stop r"
  shows "takeWhile is_digit (xs @ r) = takeWhile is_digit xs"
    and "dropWhile is_digit (xs @ r) = dropWhile is_digit xs @ r"
  using assms by (induction xs) (cases r; auto simp: stop_def)+

lemma scan_exp_app:
  assumes "scan_exp s = (e, [])" "stop r"
  shows "scan_exp (s @ r) = (e, r)"
proof (cases s)
  case Nil
  with assms show ?thesis
    by (cases r; cases "tl r") (auto simp: scan_exp_def stop_def)
next
  case (Cons x t)
  show ?thesis
  proof (cases t)
    case Nil
    with Cons assms show ?thesis by (simp add: scan_exp_def)
  next
    case [simp]: (Cons y q)
    show ?thesis using \<open>s = x # t\<close> assms
      by (auto simp: scan_exp_def digits_app digits_app [where xs = "y # q", simplified]
            split: if_splits)
  qed
qed

lemma scan_frac_app:
  assumes "scan_frac s = (f, s')" "scan_exp s' = (e, [])" "stop r"
  shows "scan_frac (s @ r) = (f, s' @ r)"
proof (cases s)
  case Nil
  with assms show ?thesis
    by (cases r; cases "tl r") (auto simp: scan_frac_def stop_def)
next
  case (Cons x t)
  show ?thesis
  proof (cases t)
    case Nil
    with Cons assms show ?thesis by (auto simp: scan_frac_def scan_exp_def)
  next
    case [simp]: (Cons y q)
    show ?thesis using \<open>s = x # t\<close> assms
      by (auto simp: scan_frac_def digits_app split: if_splits)
  qed
qed

lemma scan_nat_app:
  assumes "scan_nat s = Some (i, s')" "stop r"
  shows "scan_nat (s @ r) = Some (i, s' @ r)"
  using assms by (cases s) (auto simp: scan_nat_def digits_app split: if_splits)

lemma load_num_app:
  assumes "load_num fr t = Some (j, [])" "stop r"
  shows "load_num fr (t @ r) = Some (j, r)"
proof -
  obtain neg s1 where s1: "(case t of c # q \<Rightarrow> if c = CHR ''-'' then (True, q) else (False, t)
      | [] \<Rightarrow> (False, t)) = (neg, s1)" by force
  with assms obtain ip s2 where ip: "scan_nat s1 = Some (ip, s2)"
    by (auto simp: load_num_def split: option.splits)
  obtain fp s3 where fp: "scan_frac s2 = (fp, s3)" by force
  obtain ep s4 where ep: "scan_exp s3 = (ep, s4)" by force
  have s4: "s4 = []" using assms(1) s1 ip fp ep by (simp add: load_num_def)
  have ne: "t \<noteq> []" using s1 ip by (auto simp: scan_nat_def)
  then have "(case t @ r of c # q \<Rightarrow> if c = CHR ''-'' then (True, q) else (False, t @ r)
      | [] \<Rightarrow> (False, t @ r)) = (neg, s1 @ r)"
    using s1 by (cases t) (auto split: if_splits)
  with ip fp ep s4 show ?thesis
    using assms s1 scan_nat_app [OF ip assms(2)] scan_frac_app [OF fp ep [unfolded s4] assms(2)]
      scan_exp_app [OF ep [unfolded s4] assms(2)]
    by (simp add: load_num_def)
qed

lemma load_const_num:
  assumes "load_num fr t = Some x"
  shows "load_const (t @ r) = None"
proof -
  have d: "is_digit c \<or> c = CHR ''0'' \<Longrightarrow>
      c \<notin> {CHR ''n'', CHR ''t'', CHR ''f'', CHR ''N'', CHR ''I'', CHR ''-''}" for c
    by (auto simp: is_digit_def)
  obtain c q where t: "t = c # q"
    using assms by (cases t) (auto simp: load_num_def scan_nat_def)
  show ?thesis
  proof (cases "c = CHR ''-''")
    case True
    with t assms obtain y z where "q = y # z" "is_digit y \<or> y = CHR ''0''"
      by (cases q) (auto simp: load_num_def scan_nat_def split: if_splits option.splits)
    with t True d [of y] show ?thesis by (simp add: load_const_def startswith_def)
  next
    case False
    with t assms have "is_digit c \<or> c = CHR ''0''"
      by (auto simp: load_num_def scan_nat_def split: if_splits option.splits)
    with t d [of c] show ?thesis by (simp add: load_const_def startswith_def)
  qed
qed

lemma digit_char_0: "n < 10 \<Longrightarrow> digit_char n = CHR ''0'' \<longleftrightarrow> n = 0"
proof -
  assume "n < 10"
  then have "of_char (digit_char n) = (of_char (CHR ''0'') :: nat) \<longleftrightarrow> n = 0" by simp
  then show ?thesis by (simp only: of_char_eq_iff)
qed

lemma hd_nat_str: "hd (nat_str n) = CHR ''0'' \<longleftrightarrow> n = 0"
proof (induction n rule: nat_str.induct)
  case (1 n)
  show ?case
  proof (cases "n < 10")
    case True
    then show ?thesis by (simp add: nat_str.simps [of n] digit_char_0)
  next
    case False
    with 1 have "hd (nat_str (n div 10)) = CHR ''0'' \<longleftrightarrow> n div 10 = 0" by simp
    with False show ?thesis by (simp add: nat_str.simps [of n])
  qed
qed

lemma scan_nat_str: "scan_nat (nat_str n) = Some (nat_str n, [])"
proof (cases "n = 0")
  case True
  then show ?thesis by (simp add: nat_str.simps [of 0] scan_nat_def digit_char_0)
next
  case False
  obtain c s where cs: "nat_str n = c # s" "is_digit c" using nat_str_hd [of n] by auto
  with False hd_nat_str [of n] have "c \<noteq> CHR ''0''" by simp
  with cs nat_str_digits [of n] show ?thesis
    by (simp add: scan_nat_def takeWhile_eq_all_conv dropWhile_eq_Nil_conv list_all_iff)
qed

lemma load_num_int_str: "load_num fr (int_str i) = Some (JInt i, [])"
proof -
  have e: "scan_frac [] = ([], [])" "scan_exp [] = ([], [])" by (simp_all add: scan_frac_def scan_exp_def)
  show ?thesis
  proof (cases "i < 0")
    case True
    then show ?thesis
      by (simp add: load_num_def int_str_def scan_nat_str e)
  next
    case False
    obtain c s where cs: "nat_str (nat i) = c # s" "is_digit c" using nat_str_hd by metis
    then have "c \<noteq> CHR ''-''" by (auto simp: is_digit_def)
    with False cs scan_nat_str [of "nat i"] show ?thesis
      by (simp add: load_num_def int_str_def e) (metis dec_val_nat_str int_nat_eq not_less)
  qed
qed

section \<open>Strings\<close>

lemma hex_digit_hex_char: "k < 16 \<Longrightarrow> hex_digit (hex_char k) = Some k"
  by (auto simp: hex_digit_def of_char_hex_char)

lemma load_str_esc_char:
  "load_str (esc_char c @ s) = (case load_str s of None \<Rightarrow> None | Some (t, q) \<Rightarrow> Some (c # t, q))"
proof (cases "c \<in> {CHR 0x22, CHR 0x5C, CHR 0x0A, CHR 0x0D, CHR 0x09, CHR 0x08, CHR 0x0C}")
  case True
  then show ?thesis
    by (elim insertE) (simp_all add: esc_char_def simple_escape_def split: option.splits)
next
  case False
  show ?thesis
  proof (cases "(of_char c :: nat) < 32")
    case True
    let ?n = "of_char c :: nat"
    have b: "hex_digit (hex_char (?n div 16)) = Some (?n div 16)"
      "hex_digit (hex_char (?n mod 16)) = Some (?n mod 16)" "hex_digit (CHR ''0'') = Some 0"
      using True by (simp_all add: hex_digit_hex_char) (simp add: hex_digit_def)
    have "?n div 16 * 16 + ?n mod 16 = ?n" by simp
    then have "unicode_escape (CHR ''0'' # CHR ''0'' # hex_char (?n div 16) # hex_char (?n mod 16) # s)
        = Some ([c], s)"
      using True by (simp add: unicode_escape_def hex4_def b utf8_def)
    with True False show ?thesis
      by (simp add: esc_char_def split: option.splits)
  next
    case f: False
    with False show ?thesis by (simp add: esc_char_def)
  qed
qed

lemma load_esc_string: "load_str (esc_string s @ CHR 0x22 # r) = Some (s, r)"
  by (induction s) (simp_all add: load_str_esc_char)

section \<open>The decoder undoes the printer\<close>

text \<open>
  What a Python program can hold: objects without repeated keys, floats in their \<open>repr\<close>.
\<close>

fun loadable :: "(string \<Rightarrow> string) \<Rightarrow> json \<Rightarrow> bool"
  and loadable_elems :: "(string \<Rightarrow> string) \<Rightarrow> json list \<Rightarrow> bool"
  and loadable_members :: "(string \<Rightarrow> string) \<Rightarrow> (string \<times> json) list \<Rightarrow> bool" where
  "loadable fr (JFloat t) = (float_text t \<and> load_num fr t = Some (JFloat t, []))"
| "loadable fr (JList js) = loadable_elems fr js"
| "loadable fr (JObj ms) = (distinct (map fst ms) \<and> loadable_members fr ms)"
| "loadable fr j = True"
| "loadable_elems fr [] = True"
| "loadable_elems fr (j # js) = (loadable fr j \<and> loadable_elems fr js)"
| "loadable_members fr [] = True"
| "loadable_members fr ((k, j) # ms) = (loadable fr j \<and> loadable_members fr ms)"

lemma loadable_wf:
  "loadable fr j \<Longrightarrow> wf_json j"
  "loadable_elems fr js \<Longrightarrow> wf_elems js"
  "loadable_members fr ms \<Longrightarrow> wf_members ms"
  by (induction fr j and fr js and fr ms rule: loadable_loadable_elems_loadable_members.induct) auto

lemma dict_of_distinct: "distinct (map fst ms) \<Longrightarrow> dict_of ms = ms"
proof -
  have "distinct (map fst (d @ ms)) \<Longrightarrow> foldl (\<lambda>d (k, j). AList.update k j d) d ms = d @ ms" for d
  proof (induction ms arbitrary: d)
    case (Cons m ms)
    obtain k j where m: "m = (k, j)" by force
    have "k \<notin> fst ` set d \<Longrightarrow> AList.update k j d = d @ [(k, j)]"
      by (induction d) auto
    with Cons.prems m Cons.IH [of "d @ [(k, j)]"] show ?case by auto
  qed simp
  from this [of "[]"] show "distinct (map fst ms) \<Longrightarrow> dict_of ms = ms" by (simp add: dict_of_def)
qed

lemma print_json_first:
  assumes "wf_json j"
  obtains c s where "print_json j = c # s" "\<not> is_ws c" "c \<noteq> CHR '']''"
proof -
  obtain c s where cs: "print_json j = c # s" "char_class c = head_class j"
    using print_json_head [OF assms] by auto
  moreover have "head_class j \<noteq> 7" by (cases j) auto
  ultimately have "char_class c \<noteq> 7" by simp
  then have "\<not> is_ws c" "c \<noteq> CHR '']''"
    by (auto simp: is_ws_def char_class_def is_digit_def)
  with cs that show thesis by blast
qed

lemma skip_ws_print: "wf_json j \<Longrightarrow> skip_ws (print_json j @ r) = print_json j @ r"
  by (erule print_json_first) (simp add: skip_ws_def)

lemma skip_ws_delims [simp]:
  "skip_ws [] = []"
  "skip_ws (CHR '','' # r) = CHR '','' # r" "skip_ws (CHR '']'' # r) = CHR '']'' # r"
  "skip_ws (CHR ''}'' # r) = CHR ''}'' # r" "skip_ws (CHR '':'' # r) = CHR '':'' # r"
  "skip_ws (CHR 0x22 # r) = CHR 0x22 # r"
  by (simp_all add: skip_ws_def is_ws_def)

lemma skip_ws_members: "skip_ws (print_members (m # ms) @ r) = print_members (m # ms) @ r"
  by (cases m) (simp add: print_members_Cons quote_def)

lemma skip_ws_elems:
  "wf_json j \<Longrightarrow> skip_ws (print_elems (j # js) @ r) = print_elems (j # js) @ r"
  by (simp add: print_elems_Cons skip_ws_print)

lemma load_val_num:
  assumes "load_num fr t = Some (j, [])" "stop r" "t = c # s" "char_class c = 3"
  shows "load_val fr (Suc n) (t @ r) = Some (j, r)"
proof -
  have "c \<noteq> CHR 0x22" "c \<noteq> CHR ''[''" "c \<noteq> CHR ''{''"
    using assms(4) by (auto simp: char_class_def is_digit_def)
  with assms load_const_num [OF assms(1), of r] load_num_app [OF assms(1,2)]
  show ?thesis by simp
qed

lemma load_print:
  "loadable fr j \<Longrightarrow> 2 * length (print_json j) \<le> n \<Longrightarrow> stop r \<Longrightarrow>
     load_val fr n (print_json j @ r) = Some (j, r)"
  "js \<noteq> [] \<Longrightarrow> loadable_elems fr js \<Longrightarrow> 2 * length (print_elems js) + 1 \<le> n \<Longrightarrow>
     load_elems fr n (print_elems js @ CHR '']'' # r) = Some (js, r)"
  "ms \<noteq> [] \<Longrightarrow> loadable_members fr ms \<Longrightarrow> 2 * length (print_members ms) + 1 \<le> n \<Longrightarrow>
     load_members fr n (print_members ms @ CHR ''}'' # r) = Some (ms, r)"
proof (induction j and js and ms arbitrary: n r and n r and n r
    rule: print_json_print_elems_print_members.induct)
  case 1
  then show ?case by (cases n) (simp_all add: load_const_def startswith_def)
next
  case (2 b)
  then show ?case by (cases n; cases b) (auto simp add: load_const_def startswith_def)
next
  case (3 i)
  moreover obtain c s where "int_str i = c # s" "char_class c = 3"
    using print_json_head [of "JInt i"] by auto
  ultimately show ?case
    using load_val_num [OF load_num_int_str, of r i c s fr "n - 1"] by (cases n) auto
next
  case (4 t)
  moreover obtain c s where "t = c # s" "char_class c = 3"
    using print_json_head [of "JFloat t"] 4 by auto
  ultimately show ?case
    using load_val_num [of fr t "JFloat t" r c s "n - 1"] by (cases n) auto
next
  case (5 s)
  then show ?case by (cases n) (simp_all add: quote_def load_esc_string)
next
  case (6 js)
  then obtain m where n: "n = Suc m" by (cases n) auto
  show ?case
  proof (cases js)
    case Nil
    with n show ?thesis by simp
  next
    case (Cons j ks)
    with 6 have wf: "wf_json j" by (auto dest: loadable_wf)
    obtain c s where c: "print_json j = c # s" "c \<noteq> CHR '']''"
      using wf by (rule print_json_first)
    have "load_elems fr m (print_elems js @ CHR '']'' # r) = Some (js, r)"
      using 6 Cons n by (intro "6.IH") auto
    with n Cons c skip_ws_elems [OF wf, of ks "CHR '']'' # r"] show ?thesis
      by (simp add: print_elems_Cons)
  qed
next
  case (7 ms)
  then obtain m where n: "n = Suc m" by (cases n) auto
  show ?case
  proof (cases ms)
    case Nil
    with n show ?thesis by simp
  next
    case (Cons k ks)
    obtain key v where k: "k = (key, v)" by force
    have "load_members fr m (print_members ms @ CHR ''}'' # r) = Some (ms, r)"
      using 7 Cons n by (intro "7.IH") auto
    with n Cons k 7 skip_ws_members [of k ks "CHR ''}'' # r"] show ?thesis
      by (simp add: print_members_Cons quote_def dict_of_distinct)
  qed
next
  case 8
  then show ?case by simp
next
  case (9 j)
  then obtain m where n: "n = Suc m" by (cases n) auto
  have "load_val fr m (print_json j @ CHR '']'' # r) = Some (j, CHR '']'' # r)"
    using 9 n by (intro "9.IH") auto
  with n show ?case by simp
next
  case (10 j k js)
  then obtain m where n: "n = Suc m" by (cases n) auto
  have "load_val fr m (print_json j @ CHR '','' # print_elems (k # js) @ CHR '']'' # r)
      = Some (j, CHR '','' # print_elems (k # js) @ CHR '']'' # r)"
    using 10 n by (intro "10.IH") auto
  moreover have "load_elems fr m (print_elems (k # js) @ CHR '']'' # r) = Some (k # js, r)"
    using 10 n by (intro "10.IH") auto
  moreover have "wf_json k" using 10 by (auto dest: loadable_wf)
  ultimately show ?case
    using n by (simp add: print_elems_Cons skip_ws_print)
next
  case 11
  then show ?case by simp
next
  case (12 k j)
  then obtain m where n: "n = Suc m" by (cases n) auto
  have "load_val fr m (print_json j @ CHR ''}'' # r) = Some (j, CHR ''}'' # r)"
    using 12 n by (intro "12.IH") auto
  moreover have "wf_json j" using 12 by (auto dest: loadable_wf)
  ultimately show ?case using n by (simp add: quote_def load_esc_string skip_ws_print)
next
  case (13 k j m' ms)
  then obtain m where n: "n = Suc m" by (cases n) auto
  have "load_val fr m (print_json j @ CHR '','' # print_members (m' # ms) @ CHR ''}'' # r)
      = Some (j, CHR '','' # print_members (m' # ms) @ CHR ''}'' # r)"
    using 13 n by (intro "13.IH") auto
  moreover have "load_members fr m (print_members (m' # ms) @ CHR ''}'' # r) = Some (m' # ms, r)"
    using 13 n by (intro "13.IH") auto
  moreover have "wf_json j" using 13 by (auto dest: loadable_wf)
  ultimately show ?case
    using n by (simp add: quote_def load_esc_string skip_ws_print skip_ws_members)
qed

lemma loads_print:
  assumes "loadable fr j"
  shows "loads fr (print_json j) = Some j"
proof -
  have "load_val fr (2 * length (print_json j) + 2) (print_json j @ []) = Some (j, [])"
    using assms by (intro load_print) auto
  with skip_ws_print [OF loadable_wf(1) [OF assms], of "[]"] show ?thesis
    by (simp add: loads_def)
qed

lemma loadable_members_iff: "loadable_members fr ms \<longleftrightarrow> (\<forall>(k, j) \<in> set ms. loadable fr j)"
  by (induction ms) auto

lemma loadable_sort_keys:
  "loadable fr j \<Longrightarrow> loadable fr (sort_keys j)"
  "loadable_elems fr js \<Longrightarrow> loadable_elems fr (sort_elems js)"
  "loadable_members fr ms \<Longrightarrow> loadable_members fr (sort_members ms)
     \<and> map fst (sort_members ms) = map fst ms"
proof (induction j and js and ms rule: sort_keys_sort_elems_sort_members.induct)
  case (2 kvs)
  then have "loadable_members fr (sort_members kvs)" "distinct (map fst (sort_members kvs))" by auto
  moreover have "distinct (map fst (sort_key fst xs)) = distinct (map fst xs)" for xs :: "(string \<times> json) list"
    by (simp add: distinct_map)
  ultimately show ?case by (simp add: loadable_members_iff)
qed auto

lemma loads_canonical:
  assumes "loadable fr j"
  shows "loads fr (canonical_json j) = Some (sort_keys j)"
  unfolding canonical_json_def by (rule loads_print) (simp add: loadable_sort_keys assms)

end
