(* ===== verification/Credential.thy ===== *)
theory Credential
  imports Json_Loads
begin

text \<open>
  \<^verbatim>\<open>kawa/domain/credential.py\<close>, \<^verbatim>\<open>identity.py\<close> and
  \<^verbatim>\<open>occurrence.py\<close>: cryptographic provenance, the public-key registry, the write-path
  identity and the content address of one work attempt.  The cryptographic package is not part of
  the repository: the record \<open>crypto\<close> carries its two functions (reading a PEM public key, checking
  an Ed25519 signature), SHA-256 as a hexadecimal text, and the float normalisation of the JSON
  decoder.
\<close>

section \<open>The cryptographic package\<close>

datatype public_key = Ed25519Key string | OtherKey

record crypto =
  sha256 :: "string \<Rightarrow> string"
  load_pem :: "string \<Rightarrow> public_key option"
  ed25519_verify :: "string \<Rightarrow> string \<Rightarrow> string \<Rightarrow> bool"
  float_repr :: "string \<Rightarrow> string"

section \<open>Hexadecimal text\<close>

text \<open>\<open>bytes.fromhex\<close>: pairs of digits, ASCII white space skipped between pairs.\<close>

definition is_space :: "char \<Rightarrow> bool" where
  "is_space c \<longleftrightarrow> c = CHR '' '' \<or> (9 \<le> (of_char c :: nat) \<and> (of_char c :: nat) \<le> 13)"

fun fromhex :: "string \<Rightarrow> string option" where
  "fromhex [] = Some []"
| "fromhex [c] = (if is_space c then Some [] else None)"
| "fromhex (c # d # s) =
     (if is_space c then fromhex (d # s)
      else (case (hex_digit c, hex_digit d, fromhex s) of
              (Some h, Some l, Some r) \<Rightarrow> Some (char_of (16 * h + l) # r)
            | _ \<Rightarrow> None))"

section \<open>Provenance\<close>

definition verify_provenance :: "crypto \<Rightarrow> string \<Rightarrow> string \<Rightarrow> string \<Rightarrow> string \<Rightarrow> bool" where
  "verify_provenance cr content_hash signature_hex public_pem scheme =
     (if scheme \<noteq> ''ed25519'' then False
      else (case load_pem cr public_pem of
              Some (Ed25519Key pub) \<Rightarrow>
                (case fromhex signature_hex of
                   Some sig \<Rightarrow> ed25519_verify cr pub sig content_hash
                 | None \<Rightarrow> False)
            | _ \<Rightarrow> False))"

type_synonym key_registry = "string \<Rightarrow> string option"

definition register :: "string \<Rightarrow> string \<Rightarrow> key_registry \<Rightarrow> key_registry" where
  "register key_ref pem m = (if m key_ref = Some pem then m else m(key_ref \<mapsto> pem))"

definition public_pem :: "key_registry \<Rightarrow> string \<Rightarrow> string option" where
  "public_pem m key_ref = m key_ref"

definition resolve_and_verify_provenance ::
    "crypto \<Rightarrow> string \<Rightarrow> string \<Rightarrow> string \<Rightarrow> string \<Rightarrow> key_registry \<Rightarrow> bool" where
  "resolve_and_verify_provenance cr content_hash signature_hex key_ref scheme registry =
     (case public_pem registry key_ref of
        None \<Rightarrow> False
      | Some pem \<Rightarrow> verify_provenance cr content_hash signature_hex pem scheme)"

text \<open>A verified signature is under the one supported scheme and a registered Ed25519 key.\<close>

lemma provenance_key:
  assumes "resolve_and_verify_provenance cr h sig k scheme registry"
  shows "scheme = ''ed25519'' \<and> (\<exists>pem pub bs. registry k = Some pem
    \<and> load_pem cr pem = Some (Ed25519Key pub) \<and> fromhex sig = Some bs \<and> ed25519_verify cr pub bs h)"
  using assms
  by (auto simp: resolve_and_verify_provenance_def verify_provenance_def public_pem_def
      split: option.splits public_key.splits if_splits)

text \<open>Registering another key never changes what an old signature resolves to.\<close>

lemma register_other [frame_simps]:
  "k \<noteq> key_ref \<Longrightarrow> resolve_and_verify_provenance cr h sig k scheme (register key_ref pem m)
     = resolve_and_verify_provenance cr h sig k scheme m"
  by (simp add: resolve_and_verify_provenance_def public_pem_def register_def)

lemma register_same [simp]: "register key_ref pem m key_ref = Some pem"
  by (simp add: register_def)

section \<open>A signing credential\<close>

record node_credential =
  nc_node_ref :: string
  nc_key_ref :: string
  nc_scheme :: string
  nc_sign :: "string \<Rightarrow> string"

text \<open>
  A credential is registered when the registry holds the public half of the key it signs with: what
  it signs verifies (the law of a signature scheme).
\<close>

definition credential_registered :: "crypto \<Rightarrow> key_registry \<Rightarrow> node_credential \<Rightarrow> string \<Rightarrow> bool" where
  "credential_registered cr registry c h \<longleftrightarrow>
     resolve_and_verify_provenance cr h (nc_sign c h) (nc_key_ref c) (nc_scheme c) registry"

section \<open>Identity at the write path\<close>

datatype assurance = Unattested | Software_key | Tpm

record identity_context =
  ic_node_ref :: string
  ic_actor_ref :: string
  ic_assurance :: assurance
  ic_credential :: "node_credential option"

definition identity_context_init ::
    "string \<Rightarrow> string \<Rightarrow> assurance \<Rightarrow> node_credential option \<Rightarrow> identity_context result" where
  "identity_context_init node_ref actor_ref a cred =
     (if node_ref = [] \<or> actor_ref = []
      then Inl (ValueError ''IdentityContext requires a non-empty node_ref and actor_ref'')
      else Inr \<lparr>ic_node_ref = node_ref, ic_actor_ref = actor_ref, ic_assurance = a,
                ic_credential = cred\<rparr>)"

definition from_local_runtime :: "string \<Rightarrow> string \<Rightarrow> assurance \<Rightarrow> identity_context result" where
  "from_local_runtime node_ref actor_ref a = identity_context_init node_ref actor_ref a None"

definition from_local_node :: "node_credential \<Rightarrow> string \<Rightarrow> identity_context result" where
  "from_local_node c actor_ref =
     identity_context_init (nc_node_ref c) actor_ref Software_key (Some c)"

section \<open>Occurrence keys\<close>

definition h_ok :: "(string \<Rightarrow> string) \<Rightarrow> string \<Rightarrow> json list \<Rightarrow> string" where
  "h_ok sha minter_tag coordinate =
     digest sha (JObj [(''minter'', JStr minter_tag), (''coordinate'', JList coordinate)])"

definition work_occurrence_key ::
    "(string \<Rightarrow> string) \<Rightarrow> string \<Rightarrow> string \<Rightarrow> string option \<Rightarrow> string" where
  "work_occurrence_key sha plan_ref work_ref prior =
     h_ok sha ''plan'' [JStr plan_ref, JStr work_ref, jopt JStr prior]"

definition occurrence_coordinate :: "string \<Rightarrow> string \<Rightarrow> string option \<Rightarrow> json" where
  "occurrence_coordinate plan_ref work_ref prior =
     JObj [(''minter'', JStr ''plan''),
           (''coordinate'', JList [JStr plan_ref, JStr work_ref, jopt JStr prior])]"

text \<open>The key names the attempt: plan, work and the Result it retries.\<close>

lemma work_occurrence_key_inj:
  assumes "work_occurrence_key sha p w c = work_occurrence_key sha p' w' c'"
    and "no_collision sha (occurrence_coordinate p w c) (occurrence_coordinate p' w' c')"
  shows "p = p' \<and> w = w' \<and> c = c'"
proof -
  have "sort_keys (occurrence_coordinate p w c) = sort_keys (occurrence_coordinate p' w' c')"
    using assms by (intro digest_inj [of sha])
      (simp_all add: work_occurrence_key_def h_ok_def occurrence_coordinate_def)
  from sort_keys_obj_field [OF this [unfolded occurrence_coordinate_def], of "''coordinate''"
      "JList [JStr p, JStr w, jopt JStr c]" "JList [JStr p', JStr w', jopt JStr c']"]
  show ?thesis
    by (cases c; cases c') simp_all
qed

end
