(* ===== verification/Ids.thy ===== *)
theory Ids
  imports Canonical_Json "HOL-Library.Option_ord"
begin

text \<open>
  The rest of \<^verbatim>\<open>kawa/domain/ids.py\<close>: UUIDv7 subject identities, the versioned event-hash
  preimages, the scope commitment, the hybrid logical clock with its parser, and the one causal
  ordering every projection and window uses.
\<close>

unbundle bit_operations_syntax

section \<open>UUIDv7\<close>

text \<open>
  \<open>rand2\<close> and \<open>rand8\<close> are the integers read from \<open>os.urandom(2)\<close> and
  \<open>os.urandom(8)\<close>; \<open>now_ms\<close> is the injected clock reading.
\<close>

definition uuid7 :: "int \<Rightarrow> int \<Rightarrow> int \<Rightarrow> int" where
  "uuid7 now_ms rand2 rand8 =
     (let ts = now_ms AND (2 ^ 48 - 1);
          rand_a = rand2 AND 0x0FFF;
          rand_b = rand8 AND (2 ^ 62 - 1)
      in push_bit 80 ts OR push_bit 76 7 OR push_bit 64 rand_a OR push_bit 62 2 OR rand_b)"

lemma push_or_add:
  "0 \<le> b \<Longrightarrow> b < 2 ^ n \<Longrightarrow> push_bit n a OR b = a * 2 ^ n + (b :: int)"
proof -
  assume "0 \<le> b" "b < 2 ^ n"
  then have "take_bit n b = b" by (simp add: take_bit_int_eq_self)
  then have "push_bit n a OR b = concat_bit n b a"
    by (simp add: concat_bit_def or.commute)
  with \<open>take_bit n b = b\<close> show ?thesis
    by (simp add: concat_bit_eq push_bit_eq_mult)
qed

lemma uuid7_sum:
  "uuid7 now_ms rand2 rand8 =
     (now_ms mod 2 ^ 48) * 2 ^ 80 + 7 * 2 ^ 76 + (rand2 mod 2 ^ 12) * 2 ^ 64 + 2 * 2 ^ 62
       + rand8 mod 2 ^ 62"
proof -
  have m: "x AND (2 ^ n - 1) = x mod 2 ^ n" for x :: int and n :: nat
    by (simp add: mask_eq_exp_minus_1 [symmetric] take_bit_eq_mask [symmetric] take_bit_eq_mod)
  have a: "rand2 AND 0x0FFF = rand2 mod 2 ^ 12"
    using m [of rand2 12] by simp
  let ?rb = "rand8 mod 2 ^ 62" and ?ra = "rand2 mod 2 ^ 12" and ?ts = "now_ms mod 2 ^ 48"
  have rb: "0 \<le> ?rb" "?rb < 2 ^ 62" by simp_all
  have ra: "0 \<le> ?ra" "?ra < 2 ^ 12" by simp_all
  have s1: "push_bit 62 2 OR ?rb = 2 * 2 ^ 62 + ?rb"
    using rb by (rule push_or_add)
  have s2: "push_bit 64 ?ra OR (2 * 2 ^ 62 + ?rb) = ?ra * 2 ^ 64 + (2 * 2 ^ 62 + ?rb)"
    using rb by (intro push_or_add) auto
  have s3: "push_bit 76 7 OR (?ra * 2 ^ 64 + (2 * 2 ^ 62 + ?rb))
      = 7 * 2 ^ 76 + (?ra * 2 ^ 64 + (2 * 2 ^ 62 + ?rb))"
    using rb ra by (intro push_or_add) auto
  have s4: "push_bit 80 ?ts OR (7 * 2 ^ 76 + (?ra * 2 ^ 64 + (2 * 2 ^ 62 + ?rb)))
      = ?ts * 2 ^ 80 + (7 * 2 ^ 76 + (?ra * 2 ^ 64 + (2 * 2 ^ 62 + ?rb)))"
    using rb ra by (intro push_or_add) auto
  show ?thesis
    by (simp only: uuid7_def Let_def m a or.assoc s1 s2 s3 s4 add.assoc)
qed

text \<open>The layout of RFC 9562: timestamp, version, variant, and a 128-bit value.\<close>

lemma div_block: "0 \<le> r \<Longrightarrow> r < k \<Longrightarrow> (q * k + r) div k = (q :: int)"
  by (simp add: div_pos_pos_trivial)

lemma uuid7_layout_bounds:
  "0 \<le> uuid7 n r2 r8" "uuid7 n r2 r8 < 2 ^ 128"
  "uuid7 n r2 r8 div 2 ^ 80 = n mod 2 ^ 48"
  "uuid7 n r2 r8 div 2 ^ 76 mod 16 = 7"
  "uuid7 n r2 r8 div 2 ^ 62 mod 4 = 2"
proof -
  define ts ra rb where "ts = n mod 2 ^ 48" and "ra = r2 mod 2 ^ 12" and "rb = r8 mod 2 ^ 62"
  have b: "0 \<le> ts" "ts < 2 ^ 48" "0 \<le> ra" "ra < 2 ^ 12" "0 \<le> rb" "rb < 2 ^ 62"
    by (simp_all add: ts_def ra_def rb_def)
  have u: "uuid7 n r2 r8 = ts * 2 ^ 80 + 7 * 2 ^ 76 + ra * 2 ^ 64 + 2 * 2 ^ 62 + rb"
    by (simp only: uuid7_sum ts_def ra_def rb_def)
  have "uuid7 n r2 r8 = ts * 2 ^ 80 + (7 * 2 ^ 76 + ra * 2 ^ 64 + 2 * 2 ^ 62 + rb)"
    using u by simp
  moreover have "(ts * 2 ^ 80 + (7 * 2 ^ 76 + ra * 2 ^ 64 + 2 * 2 ^ 62 + rb)) div 2 ^ 80 = ts"
    using b by (intro div_block) auto
  ultimately show "uuid7 n r2 r8 div 2 ^ 80 = n mod 2 ^ 48" by (simp only: ts_def)
  have "uuid7 n r2 r8 = (ts * 16 + 7) * 2 ^ 76 + (ra * 2 ^ 64 + 2 * 2 ^ 62 + rb)"
    using u by simp
  moreover have "((ts * 16 + 7) * 2 ^ 76 + (ra * 2 ^ 64 + 2 * 2 ^ 62 + rb)) div 2 ^ 76 = ts * 16 + 7"
    using b by (intro div_block) auto
  moreover have "(ts * 16 + 7) mod 16 = 7" by presburger
  ultimately show "uuid7 n r2 r8 div 2 ^ 76 mod 16 = 7" by (simp only:)
  have "uuid7 n r2 r8 = (ts * 2 ^ 18 + 7 * 2 ^ 14 + ra * 4 + 2) * 2 ^ 62 + rb"
    using u by simp
  moreover have "((ts * 2 ^ 18 + 7 * 2 ^ 14 + ra * 4 + 2) * 2 ^ 62 + rb) div 2 ^ 62
      = ts * 2 ^ 18 + 7 * 2 ^ 14 + ra * 4 + 2"
    using b by (intro div_block) auto
  moreover have "(4 * x + 2) mod 4 = 2" for x :: int by presburger
  moreover have "ts * 2 ^ 18 + 7 * 2 ^ 14 + ra * 4 + 2 = 4 * (ts * 2 ^ 16 + 7 * 2 ^ 12 + ra) + 2"
    by simp
  ultimately show "uuid7 n r2 r8 div 2 ^ 62 mod 4 = 2" by (simp only:)
  show "0 \<le> uuid7 n r2 r8" "uuid7 n r2 r8 < 2 ^ 128" using u b by auto
qed

section \<open>Event hashes\<close>

text \<open>
  The keyword arguments of \<open>event_hash\<close>.  The kind is the text of the enumeration value.
\<close>

record hash_input =
  hi_origin_node :: string
  hi_origin_seq :: int
  hi_hlc :: string
  hi_kind :: string
  hi_subject_ref :: "string option"
  hi_actor_ref :: string
  hi_policy_digest :: "string option"
  hi_payload_digest :: string
  hi_prev_hash :: "string option"
  hi_envelope_version :: int
  hi_scope_digest :: "string option"

definition preimage_v1 :: "hash_input \<Rightarrow> (string \<times> json) list" where
  "preimage_v1 i =
    [(''origin_node'', JStr (hi_origin_node i)),
     (''origin_seq'', JInt (hi_origin_seq i)),
     (''hlc'', JStr (hi_hlc i)),
     (''kind'', JStr (hi_kind i)),
     (''subject_ref'', jopt JStr (hi_subject_ref i)),
     (''actor_ref'', JStr (hi_actor_ref i)),
     (''policy_digest'', jopt JStr (hi_policy_digest i)),
     (''payload_digest'', JStr (hi_payload_digest i)),
     (''prev_hash'', jopt JStr (hi_prev_hash i))]"

definition event_preimage :: "hash_input \<Rightarrow> json option" where
  "event_preimage i =
     (if hi_envelope_version i = 1 then Some (JObj (preimage_v1 i))
      else if hi_envelope_version i = 2 then
        Some (JObj (preimage_v1 i @ [(''envelope_version'', JInt 2),
                                     (''scope_digest'', jopt JStr (hi_scope_digest i))]))
      else None)"

definition event_hash :: "(string \<Rightarrow> string) \<Rightarrow> hash_input \<Rightarrow> string result" where
  "event_hash sha i =
     (case event_preimage i of
        Some pre \<Rightarrow> Inr (digest sha pre)
      | None \<Rightarrow> Inl (ValueError ''unknown envelope_version''))"

lemma event_hash_ok: "(\<exists>h. event_hash sha i = Inr h) \<longleftrightarrow> hi_envelope_version i \<in> {1, 2}"
  by (simp add: event_hash_def event_preimage_def)

lemma wf_event_preimage: "event_preimage i = Some pre \<Longrightarrow> wf_json pre"
  by (auto simp: event_preimage_def preimage_v1_def split: if_splits)

text \<open>The scope commitment and the reserved namespace.\<close>

definition RESERVED_SCOPE_PREFIX :: string where
  "RESERVED_SCOPE_PREFIX = ''$''"

definition PUBLIC_SCOPE :: string where
  "PUBLIC_SCOPE = RESERVED_SCOPE_PREFIX @ ''public''"

definition scope_digest_of :: "(string \<Rightarrow> string) \<Rightarrow> string \<Rightarrow> string" where
  "scope_digest_of sha scope_ref = ''sha256:'' @ sha scope_ref"

text \<open>
  The fields a preimage of each version commits to: a version-1 hash says nothing of the scope
  digest.
\<close>

definition committed :: "hash_input \<Rightarrow> hash_input" where
  "committed i = (if hi_envelope_version i = 1 then i\<lparr>hi_scope_digest := None\<rparr> else i)"

lemma preimage_v1_inj:
  assumes "sort_keys (JObj (preimage_v1 i @ xs)) = sort_keys (JObj (preimage_v1 j @ ys))"
    and "distinct (map fst (preimage_v1 j @ ys))"
  shows "i\<lparr>hi_envelope_version := 0, hi_scope_digest := None\<rparr>
    = j\<lparr>hi_envelope_version := 0, hi_scope_digest := None\<rparr>"
proof -
  note field = sort_keys_obj_field [OF assms]
  have "hi_origin_node i = hi_origin_node j"
    using field [of "''origin_node''" "JStr (hi_origin_node i)" "JStr (hi_origin_node j)"]
    by (simp add: preimage_v1_def)
  moreover have "hi_origin_seq i = hi_origin_seq j"
    using field [of "''origin_seq''" "JInt (hi_origin_seq i)" "JInt (hi_origin_seq j)"]
    by (simp add: preimage_v1_def)
  moreover have "hi_hlc i = hi_hlc j"
    using field [of "''hlc''" "JStr (hi_hlc i)" "JStr (hi_hlc j)"] by (simp add: preimage_v1_def)
  moreover have "hi_kind i = hi_kind j"
    using field [of "''kind''" "JStr (hi_kind i)" "JStr (hi_kind j)"] by (simp add: preimage_v1_def)
  moreover have "hi_subject_ref i = hi_subject_ref j"
    using field [of "''subject_ref''" "jopt JStr (hi_subject_ref i)" "jopt JStr (hi_subject_ref j)"]
    by (simp add: preimage_v1_def)
  moreover have "hi_actor_ref i = hi_actor_ref j"
    using field [of "''actor_ref''" "JStr (hi_actor_ref i)" "JStr (hi_actor_ref j)"]
    by (simp add: preimage_v1_def)
  moreover have "hi_policy_digest i = hi_policy_digest j"
    using field [of "''policy_digest''" "jopt JStr (hi_policy_digest i)"
        "jopt JStr (hi_policy_digest j)"]
    by (simp add: preimage_v1_def)
  moreover have "hi_payload_digest i = hi_payload_digest j"
    using field [of "''payload_digest''" "JStr (hi_payload_digest i)" "JStr (hi_payload_digest j)"]
    by (simp add: preimage_v1_def)
  moreover have "hi_prev_hash i = hi_prev_hash j"
    using field [of "''prev_hash''" "jopt JStr (hi_prev_hash i)" "jopt JStr (hi_prev_hash j)"]
    by (simp add: preimage_v1_def)
  ultimately show ?thesis by simp
qed

lemma event_preimage_version:
  assumes "event_preimage i = Some p"
  shows "\<exists>ms. p = JObj ms \<and> hi_envelope_version i \<in> {1, 2} \<and>
    (''envelope_version'' \<in> fst ` set ms \<longleftrightarrow> hi_envelope_version i = 2)"
  using assms by (auto simp: event_preimage_def preimage_v1_def split: if_splits)

lemma event_preimage_inj:
  assumes pre: "event_preimage i = Some p" "event_preimage j = Some q" and eq: "sort_keys p = sort_keys q"
  shows "committed i = committed j"
proof -
  obtain ms ns where "p = JObj ms" "q = JObj ns"
    and mi: "hi_envelope_version i \<in> {1, 2}"
      "''envelope_version'' \<in> fst ` set ms \<longleftrightarrow> hi_envelope_version i = 2"
    and nj: "hi_envelope_version j \<in> {1, 2}"
      "''envelope_version'' \<in> fst ` set ns \<longleftrightarrow> hi_envelope_version j = 2"
    using event_preimage_version [OF pre(1)] event_preimage_version [OF pre(2)] by auto
  with eq have "fst ` set ms = fst ` set ns" by (intro sort_keys_obj_keys) simp
  with mi nj have ver: "hi_envelope_version i = hi_envelope_version j" by auto
  show ?thesis
  proof (cases "hi_envelope_version i = 1")
    case True
    with pre ver eq have "sort_keys (JObj (preimage_v1 i @ [])) = sort_keys (JObj (preimage_v1 j @ []))"
      by (simp add: event_preimage_def)
    from preimage_v1_inj [OF this] have
      "i\<lparr>hi_envelope_version := 0, hi_scope_digest := None\<rparr>
        = j\<lparr>hi_envelope_version := 0, hi_scope_digest := None\<rparr>"
      by (simp add: preimage_v1_def)
    with ver True show ?thesis by (cases i; cases j) (simp add: committed_def)
  next
    case False
    with pre ver have v: "hi_envelope_version i = 2" "hi_envelope_version j = 2"
      by (auto simp: event_preimage_def split: if_splits)
    let ?tl = "\<lambda>k. [(''envelope_version'', JInt 2), (''scope_digest'', jopt JStr (hi_scope_digest k))]"
    have so: "sort_keys (JObj (preimage_v1 i @ ?tl i)) = sort_keys (JObj (preimage_v1 j @ ?tl j))"
      using pre v eq by (simp add: event_preimage_def)
    have d: "distinct (map fst (preimage_v1 j @ ?tl j))" by (simp add: preimage_v1_def)
    have "hi_scope_digest i = hi_scope_digest j"
      using sort_keys_obj_field [OF so d, of "''scope_digest''" "jopt JStr (hi_scope_digest i)"
          "jopt JStr (hi_scope_digest j)"] by simp
    with preimage_v1_inj [OF so d] v show ?thesis by (cases i; cases j) (simp add: committed_def)
  qed
qed

text \<open>One hash, one envelope: with no collision on the two preimages, equal hashes commit to equal fields.\<close>

lemma event_hash_commits:
  assumes "event_hash sha i = Inr h" "event_hash sha j = Inr h"
    and "\<And>p q. event_preimage i = Some p \<Longrightarrow> event_preimage j = Some q \<Longrightarrow> no_collision sha p q"
  shows "committed i = committed j"
proof -
  obtain p q where p: "event_preimage i = Some p" and q: "event_preimage j = Some q"
    and "digest sha p = digest sha q"
    using assms by (auto simp: event_hash_def split: option.splits)
  with assms(3) have "sort_keys p = sort_keys q"
    by (intro digest_inj wf_event_preimage) auto
  with p q show ?thesis by (rule event_preimage_inj)
qed

section \<open>The hybrid logical clock\<close>

definition MAX_BIGINT :: int where
  "MAX_BIGINT = 2 ^ 63 - 1"

definition ascii_digits :: "string \<Rightarrow> bool" where
  "ascii_digits s \<longleftrightarrow> s \<noteq> [] \<and> list_all is_digit s"

text \<open>
  \<open>int(...)\<close> refuses a text of more than 4300 digits with a \<open>ValueError\<close>.  \<open>parse_hlc\<close> does not catch
  it: on such a stamp, \<open>hlc_raises\<close>, it raises, and where the model reads \<open>None\<close> for it the caller raises
  a \<open>ValueError\<close> of its own on \<open>None\<close>; the one caller that does not is the temporal gate of admission,
  which asks \<open>hlc_raises\<close> first.
\<close>

definition MAX_INT_DIGITS :: nat where
  "MAX_INT_DIGITS = 4300"

definition hlc_raises :: "string \<Rightarrow> bool" where
  "hlc_raises h =
     (case split_dot 2 h of
        [p, l, node] \<Rightarrow> node \<noteq> [] \<and> ascii_digits p \<and> ascii_digits l
          \<and> (MAX_INT_DIGITS < length p \<or> MAX_INT_DIGITS < length l)
      | _ \<Rightarrow> False)"

definition parse_hlc :: "string \<Rightarrow> (int \<times> int \<times> string) option" where
  "parse_hlc h =
     (case split_dot 2 h of
        [p, l, node] \<Rightarrow>
          if node = [] then None
          else if \<not> (ascii_digits p \<and> ascii_digits l) then None
          else if MAX_INT_DIGITS < length p \<or> MAX_INT_DIGITS < length l then None
          else (let phys = int (dec_val p); logical = int (dec_val l)
                in if phys > MAX_BIGINT \<or> logical > MAX_BIGINT then None
                   else Some (phys, logical, node))
      | _ \<Rightarrow> None)"

record hlc_clock =
  clock_node :: string
  physical_ms :: int
  logical :: int

definition stamp :: "hlc_clock \<Rightarrow> string" where
  "stamp c = int_str (physical_ms c) @ ''.'' @ int_str (logical c) @ ''.'' @ clock_node c"

definition tick :: "int \<Rightarrow> hlc_clock \<Rightarrow> hlc_clock \<times> string" where
  "tick now c =
     (let c' = (if now > physical_ms c then c\<lparr>physical_ms := now, logical := 0\<rparr>
                else c\<lparr>logical := logical c + 1\<rparr>)
      in (c', stamp c'))"

text \<open>
  \<open>update\<close> unpacks three parts and converts two of them with \<open>int(...)\<close>; either can raise.
\<close>

definition py_int :: "string \<Rightarrow> int result" where
  "py_int s = (if ascii_digits s \<and> length s \<le> MAX_INT_DIGITS then Inr (int (dec_val s)) else Inl (ValueError ''int''))"

definition hlc_update :: "string \<Rightarrow> int \<Rightarrow> hlc_clock \<Rightarrow> (hlc_clock \<times> string) result" where
  "hlc_update other now c =
     (case split_dot 2 other of
        [p, l, _] \<Rightarrow>
          bind_result (py_int p) (\<lambda>o_phys. bind_result (py_int l) (\<lambda>o_log.
            let peak = max now (max (physical_ms c) o_phys);
                lg = (if peak = physical_ms c \<and> physical_ms c = o_phys then max (logical c) o_log + 1
                      else if peak = physical_ms c then logical c + 1
                      else if peak = o_phys then o_log + 1
                      else 0);
                c' = c\<lparr>physical_ms := peak, logical := lg\<rparr>
            in Inr (c', stamp c')))
      | _ \<Rightarrow> Inl (ValueError ''not enough values to unpack''))"

lemma dec_val_zero [simp]: "dec_val [] = 0"
  by (simp add: dec_val_def)

lemma int_str_nonneg: "0 \<le> i \<Longrightarrow> int_str i = nat_str (nat i)"
  by (simp add: int_str_def)

lemma ascii_digits_nat_str [simp]: "ascii_digits (nat_str n)"
  by (simp add: ascii_digits_def nat_str_digits)

lemma hlc_raises_None: "hlc_raises h \<Longrightarrow> parse_hlc h = None"
  by (auto simp: hlc_raises_def parse_hlc_def split: list.splits)

lemma length_nat_str: "n < 10 ^ Suc k \<Longrightarrow> length (nat_str n) \<le> Suc k"
proof (induction k arbitrary: n)
  case (Suc k)
  then have "n div 10 < 10 ^ Suc k" by simp
  with Suc.IH [of "n div 10"] show ?case by (subst nat_str.simps) simp
qed (simp add: nat_str.simps)

lemma bigint_digits:
  assumes "i \<le> MAX_BIGINT"
  shows "length (nat_str (nat i)) \<le> MAX_INT_DIGITS"
proof -
  have "nat i < 10 ^ Suc 18" using assms by (simp add: MAX_BIGINT_def)
  from length_nat_str [OF this] show ?thesis by (simp add: MAX_INT_DIGITS_def)
qed

lemma nat_str_no_point: "CHR ''.'' \<notin> set (nat_str n)"
  using nat_str_digits [of n] by (auto simp: list_all_iff is_digit_def)

definition clock_ok :: "hlc_clock \<Rightarrow> bool" where
  "clock_ok c \<longleftrightarrow> clock_node c \<noteq> [] \<and> 0 \<le> physical_ms c \<and> 0 \<le> logical c"

lemma split_dot_stamp:
  assumes "clock_ok c"
  shows "split_dot 2 (stamp c) =
    [nat_str (nat (physical_ms c)), nat_str (nat (logical c)), clock_node c]"
proof -
  have "stamp c = nat_str (nat (physical_ms c)) @ CHR ''.'' #
      (nat_str (nat (logical c)) @ CHR ''.'' # clock_node c)"
    using assms by (simp add: stamp_def int_str_nonneg clock_ok_def)
  then show ?thesis
    by (simp add: numeral_2_eq_2 split_dot_piece nat_str_no_point)
qed

lemma parse_stamp:
  assumes "clock_ok c" "physical_ms c \<le> MAX_BIGINT" "logical c \<le> MAX_BIGINT"
  shows "parse_hlc (stamp c) = Some (physical_ms c, logical c, clock_node c)"
  using assms split_dot_stamp [OF assms(1)] bigint_digits [OF assms(2)] bigint_digits [OF assms(3)]
  by (simp add: parse_hlc_def clock_ok_def Let_def)

lemma parse_hlc_bounds:
  assumes "parse_hlc h = Some (p, l, n)"
  shows "0 \<le> p \<and> p \<le> MAX_BIGINT \<and> 0 \<le> l \<and> l \<le> MAX_BIGINT \<and> n \<noteq> []"
  using assms by (auto simp: parse_hlc_def Let_def split: list.splits if_splits)

text \<open>
  A parseable stamp never makes \<open>update\<close> raise, and the two agree on the numbers.
\<close>

lemma hlc_update_parsed:
  assumes "parse_hlc h = Some (p, l, n)"
  shows "\<exists>c' s. hlc_update h now c = Inr (c', s) \<and> s = stamp c' \<and> clock_node c' = clock_node c
    \<and> physical_ms c' = max now (max (physical_ms c) p)
    \<and> logical c' = (if physical_ms c' = physical_ms c \<and> physical_ms c = p then max (logical c) l + 1
        else if physical_ms c' = physical_ms c then logical c + 1
        else if physical_ms c' = p then l + 1 else 0)"
proof -
  obtain a b where "split_dot 2 h = [a, b, n]" "ascii_digits a" "ascii_digits b"
    "length a \<le> MAX_INT_DIGITS" "length b \<le> MAX_INT_DIGITS"
    "p = int (dec_val a)" "l = int (dec_val b)"
    using assms by (auto simp: parse_hlc_def Let_def split: list.splits if_splits)
  then show ?thesis
    by (simp add: hlc_update_def py_int_def Let_def)
qed

section \<open>The one causal ordering\<close>

text \<open>
  The sort key of \<open>hlc_parts_sort_key\<close>: presence flag, physical, logical, tiebreak, and the
  row-unique component (a string is the one-element list, a tuple the list of its strings).
  Slicing it off (\<open>key[:4]\<close>) leaves \<open>None\<close>, which Python's tuple order puts before every
  longer tuple with the same prefix.
\<close>

datatype hlc_key =
  HlcKey (key_present: int) (key_phys: int) (key_logical: int) (key_tiebreak: string)
    (key_unique: "string list option")

definition key_tuple :: "hlc_key \<Rightarrow> int \<times> int \<times> int \<times> string \<times> string list option" where
  "key_tuple k = (key_present k, key_phys k, key_logical k, key_tiebreak k, key_unique k)"

lemma key_tuple_inj [simp]: "key_tuple a = key_tuple b \<longleftrightarrow> a = b"
  by (cases a; cases b) (auto simp: key_tuple_def)

instantiation hlc_key :: linorder
begin

definition less_eq_hlc_key :: "hlc_key \<Rightarrow> hlc_key \<Rightarrow> bool" where
  "less_eq_hlc_key a b \<longleftrightarrow> key_tuple a \<le> key_tuple b"

definition less_hlc_key :: "hlc_key \<Rightarrow> hlc_key \<Rightarrow> bool" where
  "less_hlc_key a b \<longleftrightarrow> key_tuple a < key_tuple b"

instance
proof
  fix a b c :: hlc_key
  show "(a < b) = (a \<le> b \<and> \<not> b \<le> a)"
    by (simp add: less_eq_hlc_key_def less_hlc_key_def less_le_not_le)
  show "a \<le> a" by (simp add: less_eq_hlc_key_def)
  show "a \<le> b \<Longrightarrow> b \<le> c \<Longrightarrow> a \<le> c" by (simp add: less_eq_hlc_key_def)
  show "a \<le> b \<Longrightarrow> b \<le> a \<Longrightarrow> a = b" by (simp add: less_eq_hlc_key_def)
  show "a \<le> b \<or> b \<le> a" by (simp add: less_eq_hlc_key_def linear)
qed

end

text \<open>
  A row carries either both parsed components or neither (sql/0031), so the two nullable columns
  are one optional pair.
\<close>

definition hlc_parts_sort_key :: "(int \<times> int) option \<Rightarrow> string \<Rightarrow> string list \<Rightarrow> hlc_key" where
  "hlc_parts_sort_key parts tiebreak unique =
     (case parts of
        None \<Rightarrow> HlcKey 0 0 0 [] (Some unique)
      | Some (phys, lg) \<Rightarrow> HlcKey 1 phys lg tiebreak (Some unique))"

definition hlc_sort_key :: "string \<Rightarrow> string \<Rightarrow> string option \<Rightarrow> hlc_key result" where
  "hlc_sort_key h tiebreak unique =
     (case parse_hlc h of
        None \<Rightarrow> Inl (ValueError ''cannot order by a malformed HLC'')
      | Some (phys, lg, _) \<Rightarrow>
          let key = hlc_parts_sort_key (Some (phys, lg)) tiebreak
                      [case unique of None \<Rightarrow> [] | Some u \<Rightarrow> u]
          in Inr (if unique = None
                  then HlcKey (key_present key) (key_phys key) (key_logical key) (key_tiebreak key) None
                  else key))"

text \<open>The canonical \<open>ORDER BY\<close> list, as text.\<close>

definition hlc_order_sql :: "string list option \<Rightarrow> string \<Rightarrow> string \<Rightarrow> bool \<Rightarrow> string" where
  "hlc_order_sql unique h tiebreak desc =
     (let d = (if desc then '' DESC'' else []);
          coll = '' COLLATE '' @ [CHR 0x22] @ ''C'' @ [CHR 0x22];
          q = CHR 0x27;
          part = (\<lambda>n. ''split_part('' @ h @ '','' @ [q] @ ''.'' @ [q] @ '','' @ n @ '')::bigint'' @ d)
      in join '', ''
           ([part ''1'', part ''2'', tiebreak @ coll @ d]
            @ (case unique of None \<Rightarrow> [] | Some cols \<Rightarrow> map (\<lambda>column. column @ coll @ d) cols)))"

lemma hlc_key_less:
  "HlcKey a b c d e < HlcKey a' b' c' d' e' \<longleftrightarrow>
    (a, b, c, d, e) < (a', b', c', d', e')"
  by (simp add: less_hlc_key_def key_tuple_def)

lemma hlc_key_le:
  "HlcKey a b c d e \<le> HlcKey a' b' c' d' e' \<longleftrightarrow>
    (a, b, c, d, e) \<le> (a', b', c', d', e')"
  by (simp add: less_eq_hlc_key_def key_tuple_def)

text \<open>Held rows sort above rows whose endpoint is not held; unique components separate rows.\<close>

lemma hlc_parts_absent_below: "hlc_parts_sort_key None t u < hlc_parts_sort_key (Some pl) t' u'"
  by (cases pl) (simp add: hlc_parts_sort_key_def hlc_key_less)

lemma hlc_parts_unique:
  "hlc_parts_sort_key p t u = hlc_parts_sort_key p' t' u' \<Longrightarrow> u = u'"
  by (auto simp: hlc_parts_sort_key_def split: option.splits)

section \<open>Causality of the clock\<close>

text \<open>A clock's own reading as the pair that orders it.\<close>

definition reading :: "hlc_clock \<Rightarrow> int \<times> int" where
  "reading c = (physical_ms c, logical c)"

lemma tick_forward:
  "tick now c = (c', s) \<Longrightarrow> reading c < reading c' \<and> s = stamp c' \<and> clock_node c' = clock_node c"
  by (auto simp: tick_def reading_def Let_def split: if_splits)

lemma tick_ok: "clock_ok c \<Longrightarrow> tick now c = (c', s) \<Longrightarrow> clock_ok c'"
  by (auto simp: tick_def clock_ok_def Let_def split: if_splits)

lemma update_forward:
  assumes "parse_hlc h = Some (p, l, n)" "hlc_update h now c = Inr (c', s)"
  shows "reading c < reading c' \<and> (p, l) < reading c' \<and> s = stamp c' \<and> clock_node c' = clock_node c"
proof -
  from hlc_update_parsed [OF assms(1), of now c] assms(2) have
    n: "s = stamp c'" "clock_node c' = clock_node c"
    and P: "physical_ms c' = max now (max (physical_ms c) p)"
    and L: "logical c' = (if physical_ms c' = physical_ms c \<and> physical_ms c = p then max (logical c) l + 1
        else if physical_ms c' = physical_ms c then logical c + 1
        else if physical_ms c' = p then l + 1 else 0)"
    by auto
  from P have ge: "physical_ms c \<le> physical_ms c'" "p \<le> physical_ms c'" by simp_all
  have "physical_ms c < physical_ms c' \<or> logical c < logical c'"
    using ge(1) unfolding L by (cases "physical_ms c' = physical_ms c") auto
  moreover have "p < physical_ms c' \<or> l < logical c'"
    using ge(2) unfolding L by (cases "physical_ms c' = p") auto
  ultimately show ?thesis using n ge by (auto simp: reading_def)
qed

lemma update_ok:
  assumes "clock_ok c" "parse_hlc h = Some (p, l, n)" "hlc_update h now c = Inr (c', s)"
  shows "clock_ok c'"
  using hlc_update_parsed [OF assms(2), of now c] assms(1,3) parse_hlc_bounds [OF assms(2)]
  by (auto simp: clock_ok_def max_def)

end
