(* ===== verification/Events.thy ===== *)
theory Events
  imports Ids
begin

text \<open>
  \<^verbatim>\<open>kawa/domain/events.py\<close>: the typed event vocabulary.  One record per payload class, with the
  validators of the class, the dump that is hashed (including the set-only keys added after
  events already existed), the envelope, and \<open>Event.verify\<close>.
\<close>

section \<open>Vocabularies\<close>

datatype event_kind =
    PLAN_CREATED | PLAN_LIFECYCLE_CHANGED | WORK_DERIVED | WORK_DEPENDENCY_DECLARED
  | RESULT_RECORDED | LINK_ASSERTED | OBSERVATION_RECORDED | CLAIM_RECORDED | WORK_RETIRED
  | AUTHORITY_CONFIGURATION | AUTHORITY_RECEIPT

fun kind_value :: "event_kind \<Rightarrow> string" where
  "kind_value PLAN_CREATED = ''plan.created''"
| "kind_value PLAN_LIFECYCLE_CHANGED = ''plan.lifecycle_changed''"
| "kind_value WORK_DERIVED = ''work.derived''"
| "kind_value WORK_DEPENDENCY_DECLARED = ''work.dependency_declared''"
| "kind_value RESULT_RECORDED = ''result.recorded''"
| "kind_value LINK_ASSERTED = ''link.asserted''"
| "kind_value OBSERVATION_RECORDED = ''observation.recorded''"
| "kind_value CLAIM_RECORDED = ''claim.recorded''"
| "kind_value WORK_RETIRED = ''work.retired''"
| "kind_value AUTHORITY_CONFIGURATION = ''authority.configuration''"
| "kind_value AUTHORITY_RECEIPT = ''authority.receipt''"

lemma kind_value_inj [simp]: "kind_value a = kind_value b \<longleftrightarrow> a = b"
  by (cases a; cases b; simp)

datatype relation =
    Supports | Contradicts | Based_on | Reason_for | Addresses | Reviews | Corrects
  | Resolves | Supersedes | Caused_by | Satisfies

fun relation_text :: "relation \<Rightarrow> string" where
  "relation_text Supports = ''supports''"
| "relation_text Contradicts = ''contradicts''"
| "relation_text Based_on = ''based_on''"
| "relation_text Reason_for = ''reason_for''"
| "relation_text Addresses = ''addresses''"
| "relation_text Reviews = ''reviews''"
| "relation_text Corrects = ''corrects''"
| "relation_text Resolves = ''resolves''"
| "relation_text Supersedes = ''supersedes''"
| "relation_text Caused_by = ''caused_by''"
| "relation_text Satisfies = ''satisfies''"

datatype observation_method =
  Command_exit | Http_probe | File_digest | Api_fetch | Metric_read | Manual_human

fun method_text :: "observation_method \<Rightarrow> string" where
  "method_text Command_exit = ''command_exit''"
| "method_text Http_probe = ''http_probe''"
| "method_text File_digest = ''file_digest''"
| "method_text Api_fetch = ''api_fetch''"
| "method_text Metric_read = ''metric_read''"
| "method_text Manual_human = ''manual_human''"

datatype lifecycle = Draft | Reviewing | Ready | Running | Blocked | Ended

fun lifecycle_text :: "lifecycle \<Rightarrow> string" where
  "lifecycle_text Draft = ''draft''"
| "lifecycle_text Reviewing = ''reviewing''"
| "lifecycle_text Ready = ''ready''"
| "lifecycle_text Running = ''running''"
| "lifecycle_text Blocked = ''blocked''"
| "lifecycle_text Ended = ''ended''"

datatype end_reason = Completed | Cancelled | Failed | Superseded

fun end_reason_text :: "end_reason \<Rightarrow> string" where
  "end_reason_text Completed = ''completed''"
| "end_reason_text Cancelled = ''cancelled''"
| "end_reason_text Failed = ''failed''"
| "end_reason_text Superseded = ''superseded''"

datatype retire_reason = RetiredSuperseded | RetiredCancelled | RetiredObsolete

fun retire_reason_text :: "retire_reason \<Rightarrow> string" where
  "retire_reason_text RetiredSuperseded = ''superseded''"
| "retire_reason_text RetiredCancelled = ''cancelled''"
| "retire_reason_text RetiredObsolete = ''obsolete''"

datatype policy = PolicyALL | PolicyANY

fun policy_text :: "policy \<Rightarrow> string" where
  "policy_text PolicyALL = ''ALL''"
| "policy_text PolicyANY = ''ANY''"

datatype outcome = Success | Failure | Conflicted | ExecutionUnknown

fun outcome_text :: "outcome \<Rightarrow> string" where
  "outcome_text Success = ''success''"
| "outcome_text Failure = ''failure''"
| "outcome_text Conflicted = ''conflicted''"
| "outcome_text ExecutionUnknown = ''execution_unknown''"

section \<open>Payload classes\<close>

record plan_created =
  pc_plan_ref :: string
  pc_project_ref :: string
  pc_objective :: string
  pc_rationale :: "string option"
  pc_lifecycle :: lifecycle
  pc_scope :: "string option"
  pc_constraints :: "string list option"
  pc_expected_observations :: "string list option"
  pc_domain :: "string option"

record plan_lifecycle_changed =
  pl_plan_ref :: string
  pl_lifecycle :: lifecycle
  pl_end_reason :: "end_reason option"

record work_derived =
  wd_work_ref :: string
  wd_plan_ref :: string
  wd_work_kind :: string
  wd_role_requirement :: "string option"
  wd_subject_ref :: "string option"
  wd_objective :: "string option"
  wd_constraints :: "string list option"
  wd_expected_observations :: "string list option"
  wd_domain :: "string option"

record work_retired =
  wr_work_ref :: string
  wr_reason :: retire_reason
  wr_note :: "string option"

record work_dependency_declared =
  dd_work_ref :: string
  dd_dependency_work_ref :: string
  dd_satisfaction_policy :: policy

record result_recorded =
  rr_work_ref :: string
  rr_outcome :: outcome
  rr_result_ref :: string
  rr_summary :: "string option"
  rr_occurrence_key :: "string option"

record link_asserted =
  la_source_ref :: string
  la_relation :: relation
  la_target_ref :: string

text \<open>A float is its \<open>repr\<close>; see \<^verbatim>\<open>Canonical_Json\<close>.\<close>

record observation_recorded =
  ob_predicate :: string
  ob_value_text :: "string option"
  ob_value_number :: "string option"
  ob_value_bool :: "bool option"
  ob_value_time :: "string option"
  ob_method :: observation_method
  ob_occurred_at :: "string option"
  ob_source_ref :: "string option"
  ob_source_revision :: "string option"
  ob_content_digest :: "string option"
  ob_fetched_at :: "string option"

record claim_recorded =
  cl_proposition :: string
  cl_basis_note :: "string option"

record authority_configuration =
  cfg_authority_key :: string
  cfg_configuration_digest :: string
  cfg_authority_epoch :: int
  cfg_members :: "string list"
  cfg_quorum :: int
  cfg_prior_configuration_digest :: "string option"
  cfg_succession_proof :: "string option"

record authority_receipt =
  rc_authority_key :: string
  rc_operation_digest :: string
  rc_configuration_digest :: string
  rc_authority_epoch :: int
  rc_prior_authority_receipt_digest :: "string option"
  rc_policy_digest :: "string option"
  rc_quorum_proof :: string

datatype payload =
    PlanCreated plan_created
  | PlanLifecycleChanged plan_lifecycle_changed
  | WorkDerived work_derived
  | WorkDependencyDeclared work_dependency_declared
  | ResultRecorded result_recorded
  | LinkAsserted link_asserted
  | ObservationRecorded observation_recorded
  | ClaimRecorded claim_recorded
  | WorkRetired work_retired
  | AuthorityConfiguration authority_configuration
  | AuthorityReceipt authority_receipt

fun payload_kind :: "payload \<Rightarrow> event_kind" where
  "payload_kind (PlanCreated _) = PLAN_CREATED"
| "payload_kind (PlanLifecycleChanged _) = PLAN_LIFECYCLE_CHANGED"
| "payload_kind (WorkDerived _) = WORK_DERIVED"
| "payload_kind (WorkDependencyDeclared _) = WORK_DEPENDENCY_DECLARED"
| "payload_kind (ResultRecorded _) = RESULT_RECORDED"
| "payload_kind (LinkAsserted _) = LINK_ASSERTED"
| "payload_kind (ObservationRecorded _) = OBSERVATION_RECORDED"
| "payload_kind (ClaimRecorded _) = CLAIM_RECORDED"
| "payload_kind (WorkRetired _) = WORK_RETIRED"
| "payload_kind (AuthorityConfiguration _) = AUTHORITY_CONFIGURATION"
| "payload_kind (AuthorityReceipt _) = AUTHORITY_RECEIPT"

subsection \<open>Validators\<close>

definition no_self_link :: "link_asserted \<Rightarrow> bool" where
  "no_self_link p \<longleftrightarrow> la_source_ref p \<noteq> la_target_ref p"

definition isfinite :: "string \<Rightarrow> bool" where
  "isfinite t \<longleftrightarrow> t \<notin> {''nan'', ''inf'', ''-inf''}"

text \<open>\<open>ObservationRecorded._gates\<close>: exactly one value, finite, and a coherent source tuple.\<close>

definition observation_gates :: "observation_recorded \<Rightarrow> bool" where
  "observation_gates p \<longleftrightarrow>
     (let n = (if ob_value_text p \<noteq> None then 1 else 0) + (if ob_value_number p \<noteq> None then 1 else 0)
            + (if ob_value_bool p \<noteq> None then 1 else 0) + (if ob_value_time p \<noteq> None then (1::nat) else 0)
      in n = 1)
     \<and> (case ob_value_number p of None \<Rightarrow> True | Some t \<Rightarrow> isfinite t)
     \<and> (if ob_source_ref p \<noteq> None \<or> ob_source_revision p \<noteq> None
            \<or> ob_content_digest p \<noteq> None \<or> ob_fetched_at p \<noteq> None
        then ob_source_ref p \<noteq> None \<and> ob_content_digest p \<noteq> None \<and> ob_fetched_at p \<noteq> None
        else True)"

definition unique_members :: "authority_configuration \<Rightarrow> bool" where
  "unique_members p \<longleftrightarrow> card (set (cfg_members p)) = length (cfg_members p)"

fun payload_valid :: "payload \<Rightarrow> bool" where
  "payload_valid (LinkAsserted p) = no_self_link p"
| "payload_valid (ObservationRecorded p) = observation_gates p"
| "payload_valid (AuthorityConfiguration p) = unique_members p"
| "payload_valid _ = True"

lemma unique_members_distinct: "unique_members p \<longleftrightarrow> distinct (cfg_members p)"
  by (metis unique_members_def card_distinct distinct_card)

subsection \<open>The dump that is hashed\<close>

definition jstrs :: "string list \<Rightarrow> json" where
  "jstrs xs = JList (map JStr xs)"

text \<open>\<open>_drop_unset_step4_keys\<close>: a later key appears only when it is set.\<close>

definition drop_unset :: "string list \<Rightarrow> (string \<times> json) list \<Rightarrow> (string \<times> json) list" where
  "drop_unset keys d = filter (\<lambda>(k, v). \<not> (k \<in> set keys \<and> v = JNull)) d"

definition dump_plan_created :: "plan_created \<Rightarrow> json" where
  "dump_plan_created p = JObj (drop_unset
     [''scope'', ''constraints'', ''expected_observations'', ''domain'']
     [(''kind'', JStr (kind_value PLAN_CREATED)),
      (''plan_ref'', JStr (pc_plan_ref p)),
      (''project_ref'', JStr (pc_project_ref p)),
      (''objective'', JStr (pc_objective p)),
      (''rationale'', jopt JStr (pc_rationale p)),
      (''lifecycle'', JStr (lifecycle_text (pc_lifecycle p))),
      (''scope'', jopt JStr (pc_scope p)),
      (''constraints'', jopt jstrs (pc_constraints p)),
      (''expected_observations'', jopt jstrs (pc_expected_observations p)),
      (''domain'', jopt JStr (pc_domain p))])"

definition dump_plan_lifecycle_changed :: "plan_lifecycle_changed \<Rightarrow> json" where
  "dump_plan_lifecycle_changed p = JObj
     [(''kind'', JStr (kind_value PLAN_LIFECYCLE_CHANGED)),
      (''plan_ref'', JStr (pl_plan_ref p)),
      (''lifecycle'', JStr (lifecycle_text (pl_lifecycle p))),
      (''end_reason'', jopt (JStr \<circ> end_reason_text) (pl_end_reason p))]"

definition dump_work_derived :: "work_derived \<Rightarrow> json" where
  "dump_work_derived p = JObj (drop_unset
     [''objective'', ''constraints'', ''expected_observations'', ''domain'']
     [(''kind'', JStr (kind_value WORK_DERIVED)),
      (''work_ref'', JStr (wd_work_ref p)),
      (''plan_ref'', JStr (wd_plan_ref p)),
      (''work_kind'', JStr (wd_work_kind p)),
      (''role_requirement'', jopt JStr (wd_role_requirement p)),
      (''subject_ref'', jopt JStr (wd_subject_ref p)),
      (''objective'', jopt JStr (wd_objective p)),
      (''constraints'', jopt jstrs (wd_constraints p)),
      (''expected_observations'', jopt jstrs (wd_expected_observations p)),
      (''domain'', jopt JStr (wd_domain p))])"

definition dump_work_retired :: "work_retired \<Rightarrow> json" where
  "dump_work_retired p = JObj
     [(''kind'', JStr (kind_value WORK_RETIRED)),
      (''work_ref'', JStr (wr_work_ref p)),
      (''reason'', JStr (retire_reason_text (wr_reason p))),
      (''note'', jopt JStr (wr_note p))]"

definition dump_work_dependency_declared :: "work_dependency_declared \<Rightarrow> json" where
  "dump_work_dependency_declared p = JObj
     [(''kind'', JStr (kind_value WORK_DEPENDENCY_DECLARED)),
      (''work_ref'', JStr (dd_work_ref p)),
      (''dependency_work_ref'', JStr (dd_dependency_work_ref p)),
      (''satisfaction_policy'', JStr (policy_text (dd_satisfaction_policy p)))]"

definition dump_result_recorded :: "result_recorded \<Rightarrow> json" where
  "dump_result_recorded p = JObj (drop_unset [''occurrence_key'']
     [(''kind'', JStr (kind_value RESULT_RECORDED)),
      (''work_ref'', JStr (rr_work_ref p)),
      (''outcome'', JStr (outcome_text (rr_outcome p))),
      (''result_ref'', JStr (rr_result_ref p)),
      (''summary'', jopt JStr (rr_summary p)),
      (''occurrence_key'', jopt JStr (rr_occurrence_key p))])"

definition dump_link_asserted :: "link_asserted \<Rightarrow> json" where
  "dump_link_asserted p = JObj
     [(''kind'', JStr (kind_value LINK_ASSERTED)),
      (''source_ref'', JStr (la_source_ref p)),
      (''relation'', JStr (relation_text (la_relation p))),
      (''target_ref'', JStr (la_target_ref p))]"

definition dump_observation_recorded :: "observation_recorded \<Rightarrow> json" where
  "dump_observation_recorded p = JObj
     [(''kind'', JStr (kind_value OBSERVATION_RECORDED)),
      (''predicate'', JStr (ob_predicate p)),
      (''value_text'', jopt JStr (ob_value_text p)),
      (''value_number'', jopt JFloat (ob_value_number p)),
      (''value_bool'', jopt JBool (ob_value_bool p)),
      (''value_time'', jopt JStr (ob_value_time p)),
      (''observation_method_class'', JStr (method_text (ob_method p))),
      (''occurred_at'', jopt JStr (ob_occurred_at p)),
      (''source_ref'', jopt JStr (ob_source_ref p)),
      (''source_revision'', jopt JStr (ob_source_revision p)),
      (''content_digest'', jopt JStr (ob_content_digest p)),
      (''fetched_at'', jopt JStr (ob_fetched_at p))]"

definition dump_claim_recorded :: "claim_recorded \<Rightarrow> json" where
  "dump_claim_recorded p = JObj
     [(''kind'', JStr (kind_value CLAIM_RECORDED)),
      (''proposition'', JStr (cl_proposition p)),
      (''basis_note'', jopt JStr (cl_basis_note p))]"

definition dump_authority_configuration :: "authority_configuration \<Rightarrow> json" where
  "dump_authority_configuration p = JObj
     [(''kind'', JStr (kind_value AUTHORITY_CONFIGURATION)),
      (''authority_key'', JStr (cfg_authority_key p)),
      (''configuration_digest'', JStr (cfg_configuration_digest p)),
      (''authority_epoch'', JInt (cfg_authority_epoch p)),
      (''members'', jstrs (cfg_members p)),
      (''quorum'', JInt (cfg_quorum p)),
      (''prior_configuration_digest'', jopt JStr (cfg_prior_configuration_digest p)),
      (''succession_proof'', jopt JStr (cfg_succession_proof p))]"

definition dump_authority_receipt :: "authority_receipt \<Rightarrow> json" where
  "dump_authority_receipt p = JObj
     [(''kind'', JStr (kind_value AUTHORITY_RECEIPT)),
      (''authority_key'', JStr (rc_authority_key p)),
      (''operation_digest'', JStr (rc_operation_digest p)),
      (''configuration_digest'', JStr (rc_configuration_digest p)),
      (''authority_epoch'', JInt (rc_authority_epoch p)),
      (''prior_authority_receipt_digest'', jopt JStr (rc_prior_authority_receipt_digest p)),
      (''policy_digest'', jopt JStr (rc_policy_digest p)),
      (''quorum_proof'', JStr (rc_quorum_proof p))]"

fun model_dump :: "payload \<Rightarrow> json" where
  "model_dump (PlanCreated p) = dump_plan_created p"
| "model_dump (PlanLifecycleChanged p) = dump_plan_lifecycle_changed p"
| "model_dump (WorkDerived p) = dump_work_derived p"
| "model_dump (WorkDependencyDeclared p) = dump_work_dependency_declared p"
| "model_dump (ResultRecorded p) = dump_result_recorded p"
| "model_dump (LinkAsserted p) = dump_link_asserted p"
| "model_dump (ObservationRecorded p) = dump_observation_recorded p"
| "model_dump (ClaimRecorded p) = dump_claim_recorded p"
| "model_dump (WorkRetired p) = dump_work_retired p"
| "model_dump (AuthorityConfiguration p) = dump_authority_configuration p"
| "model_dump (AuthorityReceipt p) = dump_authority_receipt p"

section \<open>The envelope\<close>

record envelope =
  event_id :: string
  origin_node :: string
  origin_seq :: int
  hlc :: string
  kind :: event_kind
  subject_ref :: "string option"
  actor_ref :: string
  policy_digest :: "string option"
  payload_digest :: string
  prev_hash :: "string option"
  self_hash :: string
  envelope_version :: int
  scope_ref :: "string option"
  scope_digest :: "string option"
  signature :: "string option"
  signing_key_ref :: "string option"
  signature_scheme :: "string option"

record event = envelope +
  payload :: "payload option"

definition is_stub :: "event \<Rightarrow> bool" where
  "is_stub e \<longleftrightarrow> payload e = None"

definition hash_input_of :: "'a envelope_scheme \<Rightarrow> string \<Rightarrow> hash_input" where
  "hash_input_of e pd =
     \<lparr>hi_origin_node = origin_node e, hi_origin_seq = origin_seq e, hi_hlc = hlc e,
      hi_kind = kind_value (kind e), hi_subject_ref = subject_ref e, hi_actor_ref = actor_ref e,
      hi_policy_digest = policy_digest e, hi_payload_digest = pd, hi_prev_hash = prev_hash e,
      hi_envelope_version = envelope_version e, hi_scope_digest = scope_digest e\<rparr>"

definition event_verify :: "(string \<Rightarrow> string) \<Rightarrow> event \<Rightarrow> bool" where
  "event_verify sha e =
     (if envelope_version e \<notin> {1, 2} then False
      else if envelope_version e = 1 \<and> (scope_ref e \<noteq> None \<or> scope_digest e \<noteq> None) then False
      else if (case scope_ref e of
                 None \<Rightarrow> False
               | Some s \<Rightarrow> startswith s RESERVED_SCOPE_PREFIX
                   \<or> scope_digest e \<noteq> Some (scope_digest_of sha s)) then False
      else (let pd = (case payload e of
                        Some p \<Rightarrow> digest sha (model_dump p)
                      | None \<Rightarrow> payload_digest e)
            in (case event_hash sha (hash_input_of e pd) of
                  Inl _ \<Rightarrow> False
                | Inr sh \<Rightarrow> pd = payload_digest e \<and> sh = self_hash e \<and> self_hash e = event_id e)))"

section \<open>A digest names its payload\<close>

text \<open>Reading a member of an object, with an absent member read as \<open>null\<close>.\<close>

definition jget :: "string \<Rightarrow> (string \<times> json) list \<Rightarrow> json" where
  "jget k ms = (case map_of ms k of None \<Rightarrow> JNull | Some v \<Rightarrow> v)"

lemma jget_Nil [simp]: "jget k [] = JNull"
  by (simp add: jget_def)

lemma jget_Cons [simp]: "jget k ((k', v) # ms) = (if k = k' then v else jget k ms)"
  by (simp add: jget_def)

lemma jget_mem: "distinct (map fst ms) \<Longrightarrow> (k, v) \<in> set ms \<Longrightarrow> jget k ms = v"
  by (simp add: jget_def)

lemma jget_absent: "k \<notin> fst ` set ms \<Longrightarrow> jget k ms = JNull"
  by (simp add: jget_def map_of_eq_None_iff [symmetric])

lemma jget_drop_unset: "distinct (map fst ms) \<Longrightarrow> jget k (drop_unset ks ms) = jget k ms"
proof (induction ms)
  case (Cons m ms)
  obtain k' v where m: "m = (k', v)" by (cases m)
  have "fst ` set (drop_unset ks ms) \<subseteq> fst ` set ms" by (auto simp: drop_unset_def)
  with Cons.prems m have "jget k' (drop_unset ks ms) = JNull"
    by (intro jget_absent) auto
  with Cons m show ?case by (auto simp: drop_unset_def)
qed (simp add: drop_unset_def)

lemma distinct_drop_unset: "distinct (map fst ms) \<Longrightarrow> distinct (map fst (drop_unset ks ms))"
  by (induction ms) (auto simp: drop_unset_def)

lemma jget_sorted:
  assumes "sort_keys (JObj ms) = sort_keys (JObj ns)"
    and "distinct (map fst ms)" "distinct (map fst ns)"
  shows "sort_keys (jget k ms) = sort_keys (jget k ns)"
proof (cases "k \<in> fst ` set ms")
  case True
  then obtain v where v: "(k, v) \<in> set ms" by auto
  from True sort_keys_obj_keys [OF assms(1)] obtain w where w: "(k, w) \<in> set ns" by auto
  show ?thesis
    using sort_keys_obj_field [OF assms(1,3) v w] assms(2,3) v w by (simp add: jget_mem)
next
  case False
  with sort_keys_obj_keys [OF assms(1)] show ?thesis by (simp add: jget_absent)
qed

lemma sort_keys_jstrs [simp]: "sort_keys (jstrs xs) = jstrs xs"
  by (simp add: jstrs_def sort_elems_map)

lemma sort_keys_jopt_jstrs [simp]: "sort_keys (jopt jstrs x) = jopt jstrs x"
  by (cases x) simp_all

lemma sort_keys_jopt_scalar [simp]:
  "sort_keys (jopt JFloat t) = jopt JFloat t"
  "sort_keys (jopt JBool b) = jopt JBool b"
  "sort_keys (jopt (JStr \<circ> f) y) = jopt (JStr \<circ> f) y"
proof -
  show "sort_keys (jopt JFloat t) = jopt JFloat t" by (cases t) simp_all
  show "sort_keys (jopt JBool b) = jopt JBool b" by (cases b) simp_all
  show "sort_keys (jopt (JStr \<circ> f) y) = jopt (JStr \<circ> f) y" by (cases y) simp_all
qed

lemma jstrs_inj [simp]: "jstrs xs = jstrs ys \<longleftrightarrow> xs = ys"
  by (auto simp: jstrs_def dest: map_injective intro: injI)

lemma jopt_inj:
  "jopt jstrs a = jopt jstrs b \<longleftrightarrow> a = b"
  "jopt JFloat s = jopt JFloat t \<longleftrightarrow> s = t"
  "jopt JBool c = jopt JBool d \<longleftrightarrow> c = d"
proof -
  have "jstrs xs \<noteq> JNull" for xs by (simp add: jstrs_def)
  then show "jopt jstrs a = jopt jstrs b \<longleftrightarrow> a = b"
    by (cases a; cases b) (auto dest: sym)
  show "jopt JFloat s = jopt JFloat t \<longleftrightarrow> s = t" by (cases s; cases t) auto
  show "jopt JBool c = jopt JBool d \<longleftrightarrow> c = d" by (cases c; cases d) auto
qed

lemma text_inj [simp]:
  "lifecycle_text a = lifecycle_text b \<longleftrightarrow> a = b"
  "retire_reason_text c = retire_reason_text d \<longleftrightarrow> c = d"
  "policy_text e = policy_text f \<longleftrightarrow> e = f"
  "outcome_text g = outcome_text h \<longleftrightarrow> g = h"
  "relation_text i = relation_text j \<longleftrightarrow> i = j"
  "method_text k = method_text l \<longleftrightarrow> k = l"
  "end_reason_text m = end_reason_text n \<longleftrightarrow> m = n"
proof -
  show "lifecycle_text a = lifecycle_text b \<longleftrightarrow> a = b" by (cases a; cases b; simp)
  show "retire_reason_text c = retire_reason_text d \<longleftrightarrow> c = d" by (cases c; cases d; simp)
  show "policy_text e = policy_text f \<longleftrightarrow> e = f" by (cases e; cases f; simp)
  show "outcome_text g = outcome_text h \<longleftrightarrow> g = h" by (cases g; cases h; simp)
  show "relation_text i = relation_text j \<longleftrightarrow> i = j" by (cases i; cases j; simp)
  show "method_text k = method_text l \<longleftrightarrow> k = l" by (cases k; cases l; simp)
  show "end_reason_text m = end_reason_text n \<longleftrightarrow> m = n" by (cases m; cases n; simp)
qed

lemma jopt_end_reason_inj [simp]:
  "jopt (JStr \<circ> end_reason_text) a = jopt (JStr \<circ> end_reason_text) b \<longleftrightarrow> a = b"
  by (cases a; cases b; simp)

text \<open>Every dump is an object with distinct keys; its members.\<close>

fun dump_members :: "json \<Rightarrow> (string \<times> json) list" where
  "dump_members (JObj ms) = ms"
| "dump_members _ = []"

lemmas dump_defs = dump_plan_created_def dump_plan_lifecycle_changed_def dump_work_derived_def
  dump_work_retired_def dump_work_dependency_declared_def dump_result_recorded_def
  dump_link_asserted_def dump_observation_recorded_def dump_claim_recorded_def
  dump_authority_configuration_def dump_authority_receipt_def

lemma model_dump_obj: "\<exists>ms. model_dump p = JObj ms \<and> distinct (map fst ms)"
  by (cases p) (simp_all add: dump_defs distinct_drop_unset)

lemma model_dump_get:
  assumes "sort_keys (model_dump p) = sort_keys (model_dump q)"
  shows "sort_keys (jget k (dump_members (model_dump p))) = sort_keys (jget k (dump_members (model_dump q)))"
proof -
  obtain ms ns where "model_dump p = JObj ms" "distinct (map fst ms)"
      "model_dump q = JObj ns" "distinct (map fst ns)"
    using model_dump_obj by metis
  with assms show ?thesis by (simp only: dump_members.simps, intro jget_sorted) auto
qed

lemma dump_members_kind:
  "jget ''kind'' (dump_members (model_dump p)) = JStr (kind_value (payload_kind p))"
  by (cases p) (simp_all add: dump_defs jget_drop_unset)


lemma model_dump_inj_same_kind:
  assumes eq: "sort_keys (model_dump p) = sort_keys (model_dump q)"
    and kinds: "payload_kind p = payload_kind q"
  shows "p = q"
proof -
  note f = model_dump_get [OF eq]
  note s = dump_defs jget_drop_unset jopt_inj
  show ?thesis
  proof (cases p)
    case p: (PlanCreated a)
    with kinds obtain b where q: "q = PlanCreated b" by (cases q) auto
    show ?thesis
      using f [of "''plan_ref''"] f [of "''project_ref''"] f [of "''objective''"] f [of "''rationale''"]
        f [of "''lifecycle''"] f [of "''scope''"] f [of "''constraints''"]
        f [of "''expected_observations''"] f [of "''domain''"]
      by (cases a; cases b) (simp add: p q s)
  next
    case p: (PlanLifecycleChanged a)
    with kinds obtain b where q: "q = PlanLifecycleChanged b" by (cases q) auto
    show ?thesis
      using f [of "''plan_ref''"] f [of "''lifecycle''"] f [of "''end_reason''"]
      by (cases a; cases b) (simp add: p q s)
  next
    case p: (WorkDerived a)
    with kinds obtain b where q: "q = WorkDerived b" by (cases q) auto
    show ?thesis
      using f [of "''work_ref''"] f [of "''plan_ref''"] f [of "''work_kind''"]
        f [of "''role_requirement''"] f [of "''subject_ref''"] f [of "''objective''"]
        f [of "''constraints''"] f [of "''expected_observations''"] f [of "''domain''"]
      by (cases a; cases b) (simp add: p q s)
  next
    case p: (WorkDependencyDeclared a)
    with kinds obtain b where q: "q = WorkDependencyDeclared b" by (cases q) auto
    show ?thesis
      using f [of "''work_ref''"] f [of "''dependency_work_ref''"] f [of "''satisfaction_policy''"]
      by (cases a; cases b) (simp add: p q s)
  next
    case p: (ResultRecorded a)
    with kinds obtain b where q: "q = ResultRecorded b" by (cases q) auto
    show ?thesis
      using f [of "''work_ref''"] f [of "''outcome''"] f [of "''result_ref''"] f [of "''summary''"]
        f [of "''occurrence_key''"]
      by (cases a; cases b) (simp add: p q s)
  next
    case p: (LinkAsserted a)
    with kinds obtain b where q: "q = LinkAsserted b" by (cases q) auto
    show ?thesis
      using f [of "''source_ref''"] f [of "''relation''"] f [of "''target_ref''"]
      by (cases a; cases b) (simp add: p q s)
  next
    case p: (ObservationRecorded a)
    with kinds obtain b where q: "q = ObservationRecorded b" by (cases q) auto
    show ?thesis
      using f [of "''predicate''"] f [of "''value_text''"] f [of "''value_number''"]
        f [of "''value_bool''"] f [of "''value_time''"] f [of "''observation_method_class''"]
        f [of "''occurred_at''"] f [of "''source_ref''"] f [of "''source_revision''"]
        f [of "''content_digest''"] f [of "''fetched_at''"]
      by (cases a; cases b) (simp add: p q s)
  next
    case p: (ClaimRecorded a)
    with kinds obtain b where q: "q = ClaimRecorded b" by (cases q) auto
    show ?thesis
      using f [of "''proposition''"] f [of "''basis_note''"]
      by (cases a; cases b) (simp add: p q s)
  next
    case p: (WorkRetired a)
    with kinds obtain b where q: "q = WorkRetired b" by (cases q) auto
    show ?thesis
      using f [of "''work_ref''"] f [of "''reason''"] f [of "''note''"]
      by (cases a; cases b) (simp add: p q s)
  next
    case p: (AuthorityConfiguration a)
    with kinds obtain b where q: "q = AuthorityConfiguration b" by (cases q) auto
    show ?thesis
      using f [of "''authority_key''"] f [of "''configuration_digest''"] f [of "''authority_epoch''"]
        f [of "''members''"] f [of "''quorum''"] f [of "''prior_configuration_digest''"]
        f [of "''succession_proof''"]
      by (cases a; cases b) (simp add: p q s)
  next
    case p: (AuthorityReceipt a)
    with kinds obtain b where q: "q = AuthorityReceipt b" by (cases q) auto
    show ?thesis
      using f [of "''authority_key''"] f [of "''operation_digest''"] f [of "''configuration_digest''"]
        f [of "''authority_epoch''"] f [of "''prior_authority_receipt_digest''"]
        f [of "''policy_digest''"] f [of "''quorum_proof''"]
      by (cases a; cases b) (simp add: p q s)
  qed
qed

lemma model_dump_inj:
  assumes "sort_keys (model_dump p) = sort_keys (model_dump q)"
  shows "p = q"
proof (rule model_dump_inj_same_kind [OF assms])
  show "payload_kind p = payload_kind q"
    using model_dump_get [OF assms, of "''kind''"] by (simp add: dump_members_kind)
qed

text \<open>A payload whose number, if any, is the text of a finite float.\<close>

fun payload_wf :: "payload \<Rightarrow> bool" where
  "payload_wf (ObservationRecorded p) =
     (case ob_value_number p of None \<Rightarrow> True | Some t \<Rightarrow> float_text t)"
| "payload_wf _ = True"

lemma wf_members_drop_unset: "wf_members ms \<Longrightarrow> wf_members (drop_unset ks ms)"
  by (auto simp: wf_members_iff drop_unset_def)

lemma wf_jstrs [simp]: "wf_json (jstrs xs)"
  by (induction xs) (simp_all add: jstrs_def)

lemma wf_jopt_jstrs [simp]: "wf_json (jopt jstrs x)" "wf_json (jopt JBool b)"
  "wf_json (jopt (JStr \<circ> f) y)"
proof -
  show "wf_json (jopt jstrs x)" by (cases x) simp_all
  show "wf_json (jopt JBool b)" by (cases b) simp_all
  show "wf_json (jopt (JStr \<circ> f) y)" by (cases y) simp_all
qed

lemma wf_model_dump: "payload_wf p \<Longrightarrow> wf_json (model_dump p)"
proof (cases p)
  case (ObservationRecorded ob)
  moreover assume "payload_wf p"
  ultimately show ?thesis
    by (cases "ob_value_number ob") (simp_all add: dump_defs)
qed (simp_all add: dump_defs wf_members_drop_unset)

lemma payload_digest_names:
  assumes "digest sha (model_dump p) = digest sha (model_dump q)"
    and "no_collision sha (model_dump p) (model_dump q)" "payload_wf p" "payload_wf q"
  shows "p = q"
  using assms by (intro model_dump_inj digest_inj [of sha]) (simp_all add: wf_model_dump)

end
