(* ===== verification/Store.thy ===== *)
theory Store
  imports Credential Events
begin

text \<open>
  The durable tables (\<^verbatim>\<open>sql/\<close>), the payload writer of \<^verbatim>\<open>kawa/storage/emit.py\<close> and
  the payload loader of \<^verbatim>\<open>kawa/projections/reducers.py\<close>.  A table is the list of its rows in
  insertion order (the \<open>recorded_at\<close> order of \<open>events\<close>); a primary key or check constraint that
  a statement would violate is an \<open>IntegrityError\<close>.  PostgreSQL's input function for \<open>uuid\<close> is the
  parameter \<open>uc\<close>: the canonical text, or nothing when the cast fails.
\<close>

section \<open>Rows\<close>

record event_row = envelope +
  materialized :: bool

text \<open>\<open>event_plan\<close> holds both plan payloads, so most columns are nullable.\<close>

record plan_fact =
  ep_plan_ref :: string
  ep_project_ref :: string
  ep_objective :: "string option"
  ep_rationale :: "string option"
  ep_lifecycle :: "lifecycle option"
  ep_end_reason :: "end_reason option"
  ep_scope :: "string option"
  ep_constraints :: "string list option"
  ep_expected_observations :: "string list option"
  ep_domain :: "string option"

text \<open>\<open>members\<close> is stored as canonical JSON text.\<close>

record configuration_fact =
  ac_configuration :: authority_configuration
  ac_members_text :: string

text \<open>The projections.\<close>

datatype execution =
    Ex_ready | Ex_blocked | Ex_finished | Ex_retryable | Ex_result_recorded | Ex_unknown | Ex_retired

datatype dependency_state = Dep_pending | Dep_satisfied | Dep_failed | Dep_conflicted | Dep_retired

datatype claim_standing =
    Grounded_supported | Contradicted | Contested | Superseded_claim | Unevaluated

record plan_row =
  cp_project_ref :: string
  cp_objective :: "string option"
  cp_rationale :: "string option"
  cp_lifecycle :: lifecycle
  cp_end_reason :: "end_reason option"
  cp_latest_event_id :: string

record work_row =
  cw_plan_ref :: string
  cw_work_kind :: string
  cw_subject_ref :: "string option"
  cw_role_requirement :: "string option"
  cw_dependency_total :: nat
  cw_dependency_satisfied :: nat
  cw_dependency_conflicted :: nat
  cw_execution :: execution
  cw_ready_at :: "int option"
  cw_latest_event_id :: string

record dependency_row =
  cd_work_ref :: string
  cd_dependency_work_ref :: string
  cd_satisfaction_policy :: policy
  cd_state :: dependency_state
  cd_result_ref :: "string option"

record link_row =
  lr_source_ref :: string
  lr_relation :: relation
  lr_target_ref :: string
  lr_resolved :: bool
  lr_asserted_by :: string
  lr_asserter_scope :: string
  lr_target_scope :: "string option"
  lr_target_hlc :: "(int \<times> int) option"
  lr_target_origin :: "string option"
  lr_source_scope :: "string option"
  lr_source_hlc :: "(int \<times> int) option"
  lr_source_origin :: "string option"

record quarantine_row =
  qr_event_id :: string
  qr_work_ref :: string
  qr_occurrence_key :: string
  qr_first_event_id :: string

text \<open>The trust-plane tables that replication and the authority gates write.\<close>

datatype fork_class = Equivocation | Restore_fork

record fork_evidence =
  fe_origin_node :: string
  fe_origin_seq :: int
  fe_held_event_id :: string
  fe_held_hash :: string
  fe_rival_event_id :: string
  fe_rival_hash :: string
  fe_held_key_ref :: "string option"
  fe_rival_key_ref :: "string option"
  fe_held_incarnation :: "string option"
  fe_rival_incarnation :: "string option"
  fe_classification :: fork_class
  fe_frozen :: bool
  fe_resolved_by :: "string option"
  fe_chosen_head :: "string option"
  fe_reason :: "string option"

record policy_row =
  py_policy_digest :: string
  py_canonical_bundle :: string
  py_established_receipt :: string
  py_prior :: "string option"
  py_superseded_by :: "string option"

record db =
  events :: "event_row list"
  event_plan :: "(string \<times> plan_fact) list"
  event_work :: "(string \<times> work_derived) list"
  event_work_retired :: "(string \<times> work_retired) list"
  event_work_dependency :: "(string \<times> work_dependency_declared) list"
  event_result :: "(string \<times> result_recorded) list"
  event_link :: "(string \<times> link_asserted) list"
  event_observation :: "(string \<times> observation_recorded) list"
  event_claim :: "(string \<times> claim_recorded) list"
  event_authority_configuration :: "(string \<times> configuration_fact) list"
  event_authority_receipt :: "(string \<times> authority_receipt) list"
  current_plans :: "string \<Rightarrow> plan_row option"
  current_work :: "string \<Rightarrow> work_row option"
  current_work_dependency :: "dependency_row list"
  event_links :: "link_row list"
  current_claim_standing :: "string \<Rightarrow> (claim_standing \<times> string) option"
  quarantine :: "quarantine_row list"
  fork_rows :: "fork_evidence list"
  authority_conflicts :: "(string \<times> string \<times> string) list"
  policy_lineage :: "policy_row list"

definition empty_db :: db where
  "empty_db =
     \<lparr>events = [], event_plan = [], event_work = [], event_work_retired = [],
      event_work_dependency = [], event_result = [], event_link = [], event_observation = [],
      event_claim = [], event_authority_configuration = [], event_authority_receipt = [],
      current_plans = Map.empty, current_work = Map.empty, current_work_dependency = [],
      event_links = [], current_claim_standing = Map.empty, quarantine = [],
      fork_rows = [], authority_conflicts = [], policy_lineage = []\<rparr>"

section \<open>Writing\<close>

type_synonym uuid_cast = "string \<Rightarrow> string option"

text \<open>A nullable uuid column.\<close>

definition cast_uuid :: "uuid_cast \<Rightarrow> string option \<Rightarrow> string option result" where
  "cast_uuid uc s =
     (case s of
        None \<Rightarrow> Inr None
      | Some t \<Rightarrow> (case uc t of Some u \<Rightarrow> Inr (Some u)
                            | None \<Rightarrow> Inl (DataError ''invalid input syntax for type uuid'')))"

definition add_row :: "string \<Rightarrow> 'a \<Rightarrow> (string \<times> 'a) list \<Rightarrow> (string \<times> 'a) list result" where
  "add_row eid x t =
     (if eid \<in> fst ` set t then Inl (IntegrityError ''duplicate key'') else Inr (t @ [(eid, x)]))"

definition find_event :: "db \<Rightarrow> string \<Rightarrow> event_row option" where
  "find_event d eid = List.find (\<lambda>r. event_id r = eid) (events d)"

definition row_of_event :: "event \<Rightarrow> bool \<Rightarrow> string option \<Rightarrow> event_row" where
  "row_of_event e mat subj =
     \<lparr>event_id = event_id e, origin_node = origin_node e, origin_seq = origin_seq e, hlc = hlc e,
      kind = kind e, subject_ref = subj, actor_ref = actor_ref e, policy_digest = policy_digest e,
      payload_digest = payload_digest e, prev_hash = prev_hash e, self_hash = self_hash e,
      envelope_version = envelope_version e, scope_ref = scope_ref e, scope_digest = scope_digest e,
      signature = signature e, signing_key_ref = signing_key_ref e,
      signature_scheme = signature_scheme e, materialized = mat\<rparr>"

text \<open>
  \<open>INSERT INTO events\<close>: primary key, the unique position of an origin, and the check that a
  version-1 envelope carries no scope.
\<close>

definition insert_event :: "uuid_cast \<Rightarrow> event \<Rightarrow> db \<Rightarrow> db result" where
  "insert_event uc e d =
     bind_result (cast_uuid uc (subject_ref e)) (\<lambda>subj.
       if list_ex (\<lambda>r. event_id r = event_id e
            \<or> origin_node r = origin_node e \<and> origin_seq r = origin_seq e) (events d)
       then Inl (IntegrityError ''events'')
       else if \<not> envelope_version e > 1 \<and> (scope_digest e \<noteq> None \<or> scope_ref e \<noteq> None)
       then Inl (IntegrityError ''events_v1_scopeless'')
       else Inr (d\<lparr>events := events d @ [row_of_event e (\<not> is_stub e) subj]\<rparr>))"

fun insert_payload :: "uuid_cast \<Rightarrow> event \<Rightarrow> db \<Rightarrow> db result" where
  "insert_payload uc e d =
     (case payload e of
        None \<Rightarrow> Inl (RuntimeError ''no payload writer'')
      | Some (PlanCreated p) \<Rightarrow>
          bind_result (add_row (event_id e)
            \<lparr>ep_plan_ref = pc_plan_ref p, ep_project_ref = pc_project_ref p,
             ep_objective = Some (pc_objective p), ep_rationale = pc_rationale p,
             ep_lifecycle = Some (pc_lifecycle p), ep_end_reason = None, ep_scope = pc_scope p,
             ep_constraints = pc_constraints p,
             ep_expected_observations = pc_expected_observations p, ep_domain = pc_domain p\<rparr>
            (event_plan d)) (\<lambda>t. Inr (d\<lparr>event_plan := t\<rparr>))
      | Some (PlanLifecycleChanged p) \<Rightarrow>
          bind_result (add_row (event_id e)
            \<lparr>ep_plan_ref = pl_plan_ref p, ep_project_ref = [], ep_objective = None,
             ep_rationale = None, ep_lifecycle = Some (pl_lifecycle p),
             ep_end_reason = pl_end_reason p, ep_scope = None, ep_constraints = None,
             ep_expected_observations = None, ep_domain = None\<rparr>
            (event_plan d)) (\<lambda>t. Inr (d\<lparr>event_plan := t\<rparr>))
      | Some (WorkDerived p) \<Rightarrow>
          bind_result (cast_uuid uc (wd_subject_ref p)) (\<lambda>subj.
            bind_result (add_row (event_id e) (p\<lparr>wd_subject_ref := subj\<rparr>) (event_work d))
              (\<lambda>t. Inr (d\<lparr>event_work := t\<rparr>)))
      | Some (WorkRetired p) \<Rightarrow>
          bind_result (add_row (event_id e) p (event_work_retired d))
            (\<lambda>t. Inr (d\<lparr>event_work_retired := t\<rparr>))
      | Some (WorkDependencyDeclared p) \<Rightarrow>
          bind_result (add_row (event_id e) p (event_work_dependency d))
            (\<lambda>t. Inr (d\<lparr>event_work_dependency := t\<rparr>))
      | Some (ResultRecorded p) \<Rightarrow>
          bind_result (add_row (event_id e) p (event_result d))
            (\<lambda>t. Inr (d\<lparr>event_result := t\<rparr>))
      | Some (LinkAsserted p) \<Rightarrow>
          if la_source_ref p = la_target_ref p then Inl (IntegrityError ''event_link'')
          else bind_result (add_row (event_id e) p (event_link d))
            (\<lambda>t. Inr (d\<lparr>event_link := t\<rparr>))
      | Some (ObservationRecorded p) \<Rightarrow>
          bind_result (add_row (event_id e) p (event_observation d))
            (\<lambda>t. Inr (d\<lparr>event_observation := t\<rparr>))
      | Some (ClaimRecorded p) \<Rightarrow>
          bind_result (add_row (event_id e) p (event_claim d))
            (\<lambda>t. Inr (d\<lparr>event_claim := t\<rparr>))
      | Some (AuthorityConfiguration p) \<Rightarrow>
          bind_result (add_row (event_id e)
            \<lparr>ac_configuration = p, ac_members_text = canonical_json (jstrs (cfg_members p))\<rparr>
            (event_authority_configuration d))
            (\<lambda>t. Inr (d\<lparr>event_authority_configuration := t\<rparr>))
      | Some (AuthorityReceipt p) \<Rightarrow>
          bind_result (add_row (event_id e) p (event_authority_receipt d))
            (\<lambda>t. Inr (d\<lparr>event_authority_receipt := t\<rparr>)))"

declare insert_payload.simps [simp del]

section \<open>Reading back\<close>

definition fetchone :: "(string \<times> 'a) list \<Rightarrow> string \<Rightarrow> 'a result" where
  "fetchone t eid =
     (case map_of t eid of Some x \<Rightarrow> Inr x | None \<Rightarrow> Inl (TypeError ''cannot unpack NoneType''))"

fun text_list :: "json \<Rightarrow> string list option" where
  "text_list (JList js) =
     (if list_all (\<lambda>j. case j of JStr _ \<Rightarrow> True | _ \<Rightarrow> False) js
      then Some (map (\<lambda>j. case j of JStr s \<Rightarrow> s | _ \<Rightarrow> []) js) else None)"
| "text_list _ = None"

text \<open>A constructor call validates.\<close>

definition validated :: "payload \<Rightarrow> payload result" where
  "validated p = (if payload_valid p then Inr p else Inl (ValueError ''validation error''))"

fun load_payload :: "crypto \<Rightarrow> db \<Rightarrow> string \<Rightarrow> event_kind \<Rightarrow> payload result" where
  "load_payload cr d eid PLAN_CREATED =
     bind_result (fetchone (event_plan d) eid) (\<lambda>r.
       case (ep_objective r, ep_lifecycle r) of
         (Some obj, Some lc) \<Rightarrow> validated (PlanCreated
           \<lparr>pc_plan_ref = ep_plan_ref r, pc_project_ref = ep_project_ref r, pc_objective = obj,
            pc_rationale = ep_rationale r, pc_lifecycle = lc, pc_scope = ep_scope r,
            pc_constraints = ep_constraints r,
            pc_expected_observations = ep_expected_observations r, pc_domain = None\<rparr>)
       | _ \<Rightarrow> Inl (ValueError ''validation error''))"
| "load_payload cr d eid PLAN_LIFECYCLE_CHANGED =
     bind_result (fetchone (event_plan d) eid) (\<lambda>r.
       case ep_lifecycle r of
         Some lc \<Rightarrow> validated (PlanLifecycleChanged
           \<lparr>pl_plan_ref = ep_plan_ref r, pl_lifecycle = lc, pl_end_reason = ep_end_reason r\<rparr>)
       | None \<Rightarrow> Inl (ValueError ''validation error''))"
| "load_payload cr d eid WORK_DERIVED =
     bind_result (fetchone (event_work d) eid) (\<lambda>r. validated (WorkDerived (r\<lparr>wd_domain := None\<rparr>)))"
| "load_payload cr d eid WORK_DEPENDENCY_DECLARED =
     bind_result (fetchone (event_work_dependency d) eid) (\<lambda>r. validated (WorkDependencyDeclared r))"
| "load_payload cr d eid RESULT_RECORDED =
     bind_result (fetchone (event_result d) eid) (\<lambda>r. validated (ResultRecorded r))"
| "load_payload cr d eid AUTHORITY_CONFIGURATION =
     bind_result (fetchone (event_authority_configuration d) eid) (\<lambda>r.
       case loads (float_repr cr) (ac_members_text r) of
         None \<Rightarrow> Inl (ValueError ''json'')
       | Some j \<Rightarrow>
           (case text_list j of
              None \<Rightarrow> Inl (ValueError ''validation error'')
            | Some ms \<Rightarrow> validated (AuthorityConfiguration ((ac_configuration r)\<lparr>cfg_members := ms\<rparr>))))"
| "load_payload cr d eid AUTHORITY_RECEIPT =
     bind_result (fetchone (event_authority_receipt d) eid) (\<lambda>r. validated (AuthorityReceipt r))"
| "load_payload cr d eid LINK_ASSERTED =
     bind_result (fetchone (event_link d) eid) (\<lambda>r. validated (LinkAsserted r))"
| "load_payload cr d eid OBSERVATION_RECORDED =
     bind_result (fetchone (event_observation d) eid) (\<lambda>r. validated (ObservationRecorded r))"
| "load_payload cr d eid CLAIM_RECORDED =
     bind_result (fetchone (event_claim d) eid) (\<lambda>r. validated (ClaimRecorded r))"
| "load_payload cr d eid WORK_RETIRED =
     bind_result (fetchone (event_work_retired d) eid) (\<lambda>r. validated (WorkRetired r))"

text \<open>
  One stored row as an event: the signature columns are read by replication and left out by
  \<open>load_events\<close>.
\<close>

definition event_of_row :: "bool \<Rightarrow> event_row \<Rightarrow> payload option \<Rightarrow> event" where
  "event_of_row with_sig r p =
     \<lparr>event_id = event_id r, origin_node = origin_node r, origin_seq = origin_seq r, hlc = hlc r,
      kind = kind r, subject_ref = subject_ref r, actor_ref = actor_ref r,
      policy_digest = policy_digest r, payload_digest = payload_digest r, prev_hash = prev_hash r,
      self_hash = self_hash r, envelope_version = envelope_version r, scope_ref = scope_ref r,
      scope_digest = scope_digest r,
      signature = (if with_sig then signature r else None),
      signing_key_ref = (if with_sig then signing_key_ref r else None),
      signature_scheme = (if with_sig then signature_scheme r else None), payload = p\<rparr>"

definition load_event :: "crypto \<Rightarrow> db \<Rightarrow> bool \<Rightarrow> event_row \<Rightarrow> event result" where
  "load_event cr d with_sig r =
     (if materialized r
      then bind_result (load_payload cr d (event_id r) (kind r)) (\<lambda>p. Inr (event_of_row with_sig r (Some p)))
      else Inr (event_of_row with_sig r None))"

fun load_rows :: "crypto \<Rightarrow> db \<Rightarrow> bool \<Rightarrow> event_row list \<Rightarrow> event list result" where
  "load_rows cr d with_sig [] = Inr []"
| "load_rows cr d with_sig (r # rs) =
     bind_result (load_event cr d with_sig r) (\<lambda>e.
       bind_result (load_rows cr d with_sig rs) (\<lambda>es. Inr (e # es)))"

definition load_events :: "crypto \<Rightarrow> db \<Rightarrow> event list result" where
  "load_events cr d = load_rows cr d False (events d)"

section \<open>What survives the store\<close>

text \<open>The tables of the payload writer, and what a table keeps.\<close>

lemma add_row_Inr [simp]: "add_row eid x t = Inr t' \<longleftrightarrow> eid \<notin> fst ` set t \<and> t' = t @ [(eid, x)]"
  by (auto simp: add_row_def)

lemma fetchone_Inr [simp]: "fetchone t eid = Inr x \<longleftrightarrow> map_of t eid = Some x"
  by (auto simp: fetchone_def split: option.splits)

lemma map_of_add_row [simp]: "k \<notin> fst ` set t \<Longrightarrow> ([k \<mapsto> x] ++ map_of t) k = Some x"
  by (simp add: map_add_def map_of_eq_None_iff [THEN iffD2])

lemma fetchone_add [simp]: "k \<notin> fst ` set t \<Longrightarrow> fetchone (t @ [(k, x)]) k = Inr x"
  by simp

text \<open>What the loader gives back: the domain token of a plan or a work is not selected.\<close>

fun without_domain :: "payload \<Rightarrow> payload" where
  "without_domain (PlanCreated p) = PlanCreated (p\<lparr>pc_domain := None\<rparr>)"
| "without_domain (WorkDerived p) = WorkDerived (p\<lparr>wd_domain := None\<rparr>)"
| "without_domain p = p"

fun domain_of :: "payload \<Rightarrow> string option" where
  "domain_of (PlanCreated p) = pc_domain p"
| "domain_of (WorkDerived p) = wd_domain p"
| "domain_of p = None"

lemma without_domain_same: "without_domain p = p \<longleftrightarrow> domain_of p = None"
proof (cases p)
  case (PlanCreated x)
  then show ?thesis by (cases x) auto
next
  case (WorkDerived x)
  then show ?thesis by (cases x) auto
qed simp_all

text \<open>The uuid columns of the payload are in PostgreSQL's canonical form.\<close>

fun uuid_fixed :: "uuid_cast \<Rightarrow> string option \<Rightarrow> bool" where
  "uuid_fixed uc None = True"
| "uuid_fixed uc (Some s) = (uc s = Some s)"

fun payload_uuids_fixed :: "uuid_cast \<Rightarrow> payload \<Rightarrow> bool" where
  "payload_uuids_fixed uc (WorkDerived p) = uuid_fixed uc (wd_subject_ref p)"
| "payload_uuids_fixed uc _ = True"

lemma cast_uuid_fixed: "uuid_fixed uc s \<Longrightarrow> cast_uuid uc s = Inr s"
  by (cases s) (simp_all add: cast_uuid_def)

lemma text_list_jstrs [simp]: "text_list (jstrs ms) = Some ms"
  by (induction ms) (auto simp: jstrs_def list_all_iff)

lemma loads_members: "loads fr (canonical_json (jstrs ms)) = Some (jstrs ms)"
proof -
  have "loadable fr (jstrs ms)"
    by (induction ms) (simp_all add: jstrs_def)
  from loads_canonical [OF this] show ?thesis by simp
qed

lemma load_after_insert:
  assumes ins: "insert_payload uc e d = Inr d'" and p: "payload e = Some p"
    and valid: "payload_valid p" and uuid: "payload_uuids_fixed uc p"
  shows "load_payload cr d' (event_id e) (payload_kind p) = Inr (without_domain p)"
proof (cases p)
  case (PlanCreated x)
  with ins p show ?thesis by (cases x) (auto simp: insert_payload.simps validated_def)
next
  case (PlanLifecycleChanged x)
  with ins p show ?thesis by (cases x) (auto simp: insert_payload.simps validated_def)
next
  case (WorkDerived x)
  with ins p uuid show ?thesis
    by (cases x) (auto simp: insert_payload.simps validated_def cast_uuid_fixed)
next
  case (WorkRetired x)
  with ins p show ?thesis by (auto simp: insert_payload.simps validated_def)
next
  case (WorkDependencyDeclared x)
  with ins p show ?thesis by (auto simp: insert_payload.simps validated_def)
next
  case (ResultRecorded x)
  with ins p show ?thesis by (auto simp: insert_payload.simps validated_def)
next
  case (LinkAsserted x)
  with ins p valid show ?thesis by (auto simp: insert_payload.simps validated_def split: if_splits)
next
  case (ObservationRecorded x)
  with ins p valid show ?thesis by (auto simp: insert_payload.simps validated_def)
next
  case (ClaimRecorded x)
  with ins p show ?thesis by (auto simp: insert_payload.simps validated_def)
next
  case (AuthorityConfiguration x)
  with ins p valid show ?thesis
    by (auto simp: insert_payload.simps validated_def loads_members)
next
  case (AuthorityReceipt x)
  with ins p show ?thesis by (auto simp: insert_payload.simps validated_def)
qed

text \<open>The digest of what is read back differs as soon as a domain was set.\<close>

lemma domain_loses_digest:
  assumes "domain_of p \<noteq> None"
    and "no_collision sha (model_dump p) (model_dump (without_domain p))"
    and "payload_wf p"
  shows "digest sha (model_dump (without_domain p)) \<noteq> digest sha (model_dump p)"
proof
  assume "digest sha (model_dump (without_domain p)) = digest sha (model_dump p)"
  moreover have "payload_wf (without_domain p)" using assms(3) by (cases p) simp_all
  ultimately have "p = without_domain p"
    using assms by (intro payload_digest_names [of sha]) simp_all
  with assms(1) show False using without_domain_same [of p] by simp
qed

end
