(* ===== verification/Emit.thy ===== *)
theory Emit
  imports Store
begin

text \<open>
  \<^verbatim>\<open>kawa/storage/emit.py\<close>: the single durable write path.  \<open>emit\<close> returns the emitter with its
  advanced clock (it moves even when the call raises) and either the error or the event with the
  new tables.  \<open>dsn\<close> says whether \<open>KAWA_DSN\<close> is set, \<open>now\<close> is the clock reading.

  Also here: the invariant of the event log that every writer keeps, and the lemma that appending
  at the head of an origin keeps it.
\<close>

record emitter =
  em_identity :: identity_context
  em_origin_node :: string
  em_actor_ref :: string
  em_hlc :: hlc_clock

definition emitter_init :: "identity_context \<Rightarrow> emitter" where
  "emitter_init i =
     \<lparr>em_identity = i, em_origin_node = ic_node_ref i, em_actor_ref = ic_actor_ref i,
      em_hlc = \<lparr>clock_node = ic_node_ref i, physical_ms = 0, logical = 0\<rparr>\<rparr>"

text \<open>The last row of an origin.\<close>

definition origin_head :: "db \<Rightarrow> string \<Rightarrow> event_row option" where
  "origin_head d node = latest_by origin_seq (filter (\<lambda>r. origin_node r = node) (events d))"

definition emit_event ::
    "crypto \<Rightarrow> bool \<Rightarrow> string \<Rightarrow> payload \<Rightarrow> string option \<Rightarrow> string option \<Rightarrow> string option \<Rightarrow> int option
      \<Rightarrow> emitter \<Rightarrow> event_row option \<Rightarrow> event result" where
  "emit_event cr dsn stamp_text p subj pol scope version em head =
     (let seq = (case head of Some r \<Rightarrow> origin_seq r + 1 | None \<Rightarrow> 1);
          prev = map_option self_hash head;
          pd = digest (sha256 cr) (model_dump p);
          ver = (case version of Some v \<Rightarrow> v | None \<Rightarrow> if scope \<noteq> None then 2 else 1)
      in if ver = 1 \<and> scope \<noteq> None then Inl (ValueError ''a v1 envelope never carries a scope'')
         else (let sdig = map_option (scope_digest_of (sha256 cr)) scope;
                   inp = \<lparr>hi_origin_node = em_origin_node em, hi_origin_seq = seq,
                          hi_hlc = stamp_text, hi_kind = kind_value (payload_kind p),
                          hi_subject_ref = subj, hi_actor_ref = em_actor_ref em,
                          hi_policy_digest = pol, hi_payload_digest = pd, hi_prev_hash = prev,
                          hi_envelope_version = ver, hi_scope_digest = sdig\<rparr>;
                   cred = ic_credential (em_identity em)
               in bind_result (event_hash (sha256 cr) inp) (\<lambda>h.
                    if cred = None \<and> dsn
                    then Inl (RuntimeError ''unattested emit against a live target'')
                    else (let e = \<lparr>event_id = h, origin_node = em_origin_node em, origin_seq = seq,
                                   hlc = stamp_text, kind = payload_kind p, subject_ref = subj,
                                   actor_ref = em_actor_ref em, policy_digest = pol,
                                   payload_digest = pd, prev_hash = prev, self_hash = h,
                                   envelope_version = ver, scope_ref = scope, scope_digest = sdig,
                                   signature = map_option (\<lambda>c. nc_sign c h) cred,
                                   signing_key_ref = map_option nc_key_ref cred,
                                   signature_scheme = map_option nc_scheme cred,
                                   payload = Some p\<rparr>
                          in if \<not> event_verify (sha256 cr) e
                             then Inl (RuntimeError ''emit VERIFY failed'')
                             else Inr e))))"

definition emit ::
    "crypto \<Rightarrow> uuid_cast \<Rightarrow> bool \<Rightarrow> int \<Rightarrow> payload \<Rightarrow> string option \<Rightarrow> string option \<Rightarrow> string option
      \<Rightarrow> int option \<Rightarrow> emitter \<Rightarrow> db \<Rightarrow> emitter \<times> (event \<times> db) result" where
  "emit cr uc dsn now p subj pol scope version em d =
     (let (clock, stamp_text) = tick now (em_hlc em);
          em' = em\<lparr>em_hlc := clock\<rparr>
      in (em', bind_result
                 (emit_event cr dsn stamp_text p subj pol scope version em
                    (origin_head d (em_origin_node em)))
                 (\<lambda>e. bind_result (insert_event uc e d) (\<lambda>d1.
                        bind_result (insert_payload uc e d1) (\<lambda>d2. Inr (e, d2))))))"

section \<open>The event log\<close>

text \<open>
  Per origin the positions are \<open>1, 2, ..., n\<close> without a gap, each event names the hash of the one
  before it, and an identity or a position occurs once.
\<close>

definition log_ok :: "event_row list \<Rightarrow> bool" where
  "log_ok rs \<longleftrightarrow>
     distinct (map event_id rs)
     \<and> distinct (map (\<lambda>r. (origin_node r, origin_seq r)) rs)
     \<and> (\<forall>r \<in> set rs. 1 \<le> origin_seq r \<and> self_hash r = event_id r
          \<and> (origin_seq r = 1 \<longrightarrow> prev_hash r = None)
          \<and> (origin_seq r \<noteq> 1 \<longrightarrow>
               (\<exists>q \<in> set rs. origin_node q = origin_node r \<and> origin_seq q = origin_seq r - 1
                  \<and> prev_hash r = Some (self_hash q))))"

definition head_of :: "event_row list \<Rightarrow> string \<Rightarrow> event_row option" where
  "head_of rs node = latest_by origin_seq (filter (\<lambda>r. origin_node r = node) rs)"

lemma origin_head_eq: "origin_head d node = head_of (events d) node"
  by (simp add: origin_head_def head_of_def)

text \<open>What follows a head: the next position, naming its hash.\<close>

definition follows :: "event_row list \<Rightarrow> event_row \<Rightarrow> bool" where
  "follows rs r \<longleftrightarrow>
     (case head_of rs (origin_node r) of
        None \<Rightarrow> origin_seq r = 1 \<and> prev_hash r = None
      | Some h \<Rightarrow> origin_seq r = origin_seq h + 1 \<and> prev_hash r = Some (self_hash h))"

lemma head_of_None: "head_of rs node = None \<longleftrightarrow> (\<forall>r \<in> set rs. origin_node r \<noteq> node)"
  by (auto simp: head_of_def filter_empty_conv)

lemma head_of_Some:
  "head_of rs node = Some h \<Longrightarrow> h \<in> set rs \<and> origin_node h = node
     \<and> (\<forall>r \<in> set rs. origin_node r = node \<longrightarrow> origin_seq r \<le> origin_seq h)"
  by (auto simp: head_of_def dest!: latest_by_Some)

lemma log_ok_append:
  assumes ok: "log_ok rs" and f: "follows rs r" and id: "event_id r \<notin> event_id ` set rs"
    and h: "self_hash r = event_id r"
  shows "log_ok (rs @ [r])"
proof -
  have new: "(origin_node r, origin_seq r) \<notin> (\<lambda>r. (origin_node r, origin_seq r)) ` set rs"
    and pos: "1 \<le> origin_seq r" and first: "origin_seq r = 1 \<longrightarrow> prev_hash r = None"
    and link: "origin_seq r \<noteq> 1 \<longrightarrow> (\<exists>q \<in> set rs. origin_node q = origin_node r
       \<and> origin_seq q = origin_seq r - 1 \<and> prev_hash r = Some (self_hash q))"
  proof -
    have "(origin_node r, origin_seq r) \<notin> (\<lambda>r. (origin_node r, origin_seq r)) ` set rs
      \<and> 1 \<le> origin_seq r \<and> (origin_seq r = 1 \<longrightarrow> prev_hash r = None)
      \<and> (origin_seq r \<noteq> 1 \<longrightarrow> (\<exists>q \<in> set rs. origin_node q = origin_node r
           \<and> origin_seq q = origin_seq r - 1 \<and> prev_hash r = Some (self_hash q)))"
    proof (cases "head_of rs (origin_node r)")
      case None
      then have "\<forall>x \<in> set rs. origin_node x \<noteq> origin_node r" by (simp add: head_of_None)
      then have "(origin_node r, origin_seq r) \<notin> (\<lambda>r. (origin_node r, origin_seq r)) ` set rs"
        by auto
      with f None show ?thesis by (auto simp: follows_def)
    next
      case (Some q)
      note q = head_of_Some [OF Some]
      from f Some have r: "origin_seq r = origin_seq q + 1" "prev_hash r = Some (self_hash q)"
        by (auto simp: follows_def)
      moreover have "1 \<le> origin_seq q" using ok q by (auto simp: log_ok_def)
      moreover have "origin_seq x \<noteq> origin_seq r" if "x \<in> set rs" "origin_node x = origin_node r" for x
        using q that r by fastforce
      ultimately show ?thesis using q by force
    qed
    then show "(origin_node r, origin_seq r) \<notin> (\<lambda>r. (origin_node r, origin_seq r)) ` set rs"
      "1 \<le> origin_seq r" "origin_seq r = 1 \<longrightarrow> prev_hash r = None"
      "origin_seq r \<noteq> 1 \<longrightarrow> (\<exists>q \<in> set rs. origin_node q = origin_node r
       \<and> origin_seq q = origin_seq r - 1 \<and> prev_hash r = Some (self_hash q))" by blast+
  qed
  have kept: "\<exists>q \<in> set (rs @ [r]). origin_node q = origin_node x \<and> origin_seq q = origin_seq x - 1
      \<and> prev_hash x = Some (self_hash q)" if "x \<in> set rs" "origin_seq x \<noteq> 1" for x
  proof -
    from ok that obtain q where "q \<in> set rs" "origin_node q = origin_node x"
      "origin_seq q = origin_seq x - 1" "prev_hash x = Some (self_hash q)"
      unfolding log_ok_def by blast
    then show ?thesis by (intro bexI [of _ q]) simp_all
  qed
  have "distinct (map event_id (rs @ [r]))" using ok id by (auto simp: log_ok_def)
  moreover have "distinct (map (\<lambda>r. (origin_node r, origin_seq r)) (rs @ [r]))"
    using ok new by (auto simp: log_ok_def)
  moreover have "\<forall>x \<in> set (rs @ [r]). 1 \<le> origin_seq x \<and> self_hash x = event_id x
      \<and> (origin_seq x = 1 \<longrightarrow> prev_hash x = None)
      \<and> (origin_seq x \<noteq> 1 \<longrightarrow> (\<exists>q \<in> set (rs @ [r]). origin_node q = origin_node x
           \<and> origin_seq q = origin_seq x - 1 \<and> prev_hash x = Some (self_hash q)))"
  proof
    fix x
    assume "x \<in> set (rs @ [r])"
    then consider (old) "x \<in> set rs" | (new) "x = r" by auto
    then show "1 \<le> origin_seq x \<and> self_hash x = event_id x
      \<and> (origin_seq x = 1 \<longrightarrow> prev_hash x = None)
      \<and> (origin_seq x \<noteq> 1 \<longrightarrow> (\<exists>q \<in> set (rs @ [r]). origin_node q = origin_node x
           \<and> origin_seq q = origin_seq x - 1 \<and> prev_hash x = Some (self_hash q)))"
    proof cases
      case old
      then show ?thesis using ok kept [OF old] by (auto simp: log_ok_def)
    next
      case new
      then show ?thesis using pos first link h by auto
    qed
  qed
  ultimately show ?thesis by (simp only: log_ok_def)
qed

text \<open>Gap-freeness: every position up to the head is held.\<close>

lemma log_ok_contiguous:
  assumes "log_ok rs" "r \<in> set rs" "1 \<le> k" "k \<le> origin_seq r"
  shows "\<exists>q \<in> set rs. origin_node q = origin_node r \<and> origin_seq q = k"
proof -
  have "\<exists>q \<in> set rs. origin_node q = origin_node r \<and> origin_seq q = origin_seq r - int n"
    if "1 \<le> origin_seq r - int n" for n
    using that
  proof (induction n)
    case 0
    with assms(2) show ?case by auto
  next
    case (Suc n)
    then obtain q where q: "q \<in> set rs" "origin_node q = origin_node r"
      "origin_seq q = origin_seq r - int n" by auto
    with Suc.prems have "origin_seq q \<noteq> 1" by auto
    with assms(1) q(1) obtain x where "x \<in> set rs" "origin_node x = origin_node q"
      "origin_seq x = origin_seq q - 1" by (auto simp: log_ok_def)
    with q show ?case by (intro bexI [of _ x]) auto
  qed
  from this [of "nat (origin_seq r - k)"] assms(3,4) show ?thesis by auto
qed

section \<open>What the writers do to the log\<close>

lemma insert_payload_events [frame_simps]:
  assumes "insert_payload uc e d = Inr d'"
  shows "events d' = events d"
  using assms
  by (auto simp: insert_payload.simps split: option.splits payload.splits if_splits)

lemma insert_event_Inr:
  assumes "insert_event uc e d = Inr d'"
  obtains subj where "cast_uuid uc (subject_ref e) = Inr subj"
    "d' = d\<lparr>events := events d @ [row_of_event e (\<not> is_stub e) subj]\<rparr>"
    "event_id e \<notin> event_id ` set (events d)"
    "envelope_version e > 1 \<or> scope_digest e = None \<and> scope_ref e = None"
  using assms by (fastforce simp: insert_event_def list_ex_iff split: if_splits)

lemma row_of_event_simps [simp]:
  "event_id (row_of_event e m s) = event_id e" "origin_node (row_of_event e m s) = origin_node e"
  "origin_seq (row_of_event e m s) = origin_seq e" "prev_hash (row_of_event e m s) = prev_hash e"
  "self_hash (row_of_event e m s) = self_hash e" "hlc (row_of_event e m s) = hlc e"
  "kind (row_of_event e m s) = kind e" "materialized (row_of_event e m s) = m"
  "scope_ref (row_of_event e m s) = scope_ref e" "scope_digest (row_of_event e m s) = scope_digest e"
  "subject_ref (row_of_event e m s) = s" "signing_key_ref (row_of_event e m s) = signing_key_ref e"
  "envelope_version (row_of_event e m s) = envelope_version e"
  by (simp_all add: row_of_event_def)

lemma emit_event_Inr:
  assumes "emit_event cr dsn st p subj pol scope version em head = Inr e"
  shows "event_verify (sha256 cr) e" "payload e = Some p" "kind e = payload_kind p"
    "origin_node e = em_origin_node em" "actor_ref e = em_actor_ref em" "hlc e = st"
    "origin_seq e = (case head of Some r \<Rightarrow> origin_seq r + 1 | None \<Rightarrow> 1)"
    "prev_hash e = map_option self_hash head" "self_hash e = event_id e" "scope_ref e = scope"
    "signature e = map_option (\<lambda>c. nc_sign c (self_hash e)) (ic_credential (em_identity em))"
    "signing_key_ref e = map_option nc_key_ref (ic_credential (em_identity em))"
    "signature_scheme e = map_option nc_scheme (ic_credential (em_identity em))"
    "dsn \<Longrightarrow> ic_credential (em_identity em) \<noteq> None"
    "subject_ref e = subj" "policy_digest e = pol"
  using assms unfolding emit_event_def Let_def
  by (auto split: if_splits)

lemma emit_Inr:
  assumes "emit cr uc dsn now p subj pol scope version em d = (em', Inr (e, d'))"
  obtains d1 where
    "emit_event cr dsn (snd (tick now (em_hlc em))) p subj pol scope version em
       (origin_head d (em_origin_node em)) = Inr e"
    "insert_event uc e d = Inr d1" "insert_payload uc e d1 = Inr d'"
    "em' = em\<lparr>em_hlc := fst (tick now (em_hlc em))\<rparr>"
  using assms by (auto simp: emit_def Let_def split: prod.splits)

lemma emit_log_ok:
  assumes "log_ok (events d)" "emit cr uc dsn now p subj pol scope version em d = (em', Inr (e, d'))"
  shows "log_ok (events d')" "\<exists>s. events d' = events d @ [row_of_event e True s]"
proof -
  obtain d1 where ev: "emit_event cr dsn (snd (tick now (em_hlc em))) p subj pol scope version em
       (origin_head d (em_origin_node em)) = Inr e"
    and ie: "insert_event uc e d = Inr d1" and ip: "insert_payload uc e d1 = Inr d'"
    using emit_Inr [OF assms(2)] by blast
  note e = emit_event_Inr [OF ev]
  obtain s where s: "d1 = d\<lparr>events := events d @ [row_of_event e (\<not> is_stub e) s]\<rparr>"
    "event_id e \<notin> event_id ` set (events d)"
    using insert_event_Inr [OF ie] by metis
  have "follows (events d) (row_of_event e (\<not> is_stub e) s)"
    using e by (auto simp: follows_def origin_head_eq split: option.splits)
  with assms(1) s(2) e(9) have "log_ok (events d @ [row_of_event e (\<not> is_stub e) s])"
    by (intro log_ok_append) auto
  moreover have "events d' = events d @ [row_of_event e (\<not> is_stub e) s]"
    using insert_payload_events [OF ip] s by simp
  moreover have "\<not> is_stub e" using e by (simp add: is_stub_def)
  ultimately show "log_ok (events d')" "\<exists>s. events d' = events d @ [row_of_event e True s]" by auto
qed

text \<open>When a call succeeds: no scope on version 1, a known version, no reserved scope, attested when it must be.\<close>

lemma emit_event_iff:
  "(\<exists>e. emit_event cr dsn st p subj pol scope version em head = Inr e) \<longleftrightarrow>
     (let ver = (case version of Some v \<Rightarrow> v | None \<Rightarrow> if scope \<noteq> None then 2 else 1)
      in (ver = 1 \<and> scope = None \<or> ver = 2)
         \<and> (\<forall>s. scope = Some s \<longrightarrow> \<not> startswith s RESERVED_SCOPE_PREFIX)
         \<and> (dsn \<longrightarrow> ic_credential (em_identity em) \<noteq> None))"
  unfolding emit_event_def Let_def
  by (cases scope)
    (auto simp: event_verify_def hash_input_of_def event_hash_def event_preimage_def preimage_v1_def
      split: option.splits)

end
