(* ===== verification/Reducers.thy ===== *)
theory Reducers
  imports Emit
begin

text \<open>
  \<^verbatim>\<open>kawa/projections/reducers.py\<close>: the projections, written only by \<open>reduce\<close> and rebuilt by
  replaying the log.  Every SQL statement is a function on the tables of \<^verbatim>\<open>Store\<close>;
  \<open>ORDER BY hlc_order_sql ... LIMIT 1\<close> is \<open>latest_by\<close> under the canonical key.  The clock of the
  database (\<open>clock_timestamp()\<close>) is the argument \<open>now\<close>, read once per reduction; the
  \<open>updated_at\<close> columns, which only the console reads, are left out; the refresh of the console at
  the end of \<open>rebuild\<close> is \<open>rebuild_commit\<close> in \<^verbatim>\<open>Console_Rollup\<close>.
\<close>

section \<open>The canonical order on rows\<close>

definition row_parts :: "event_row \<Rightarrow> (int \<times> int) option" where
  "row_parts r = (case parse_hlc (hlc r) of Some (phys, lg, _) \<Rightarrow> Some (phys, lg) | None \<Rightarrow> None)"

definition order_key :: "event_row \<Rightarrow> hlc_key" where
  "order_key r = hlc_parts_sort_key (row_parts r) (origin_node r) [event_id r]"

text \<open>\<open>JOIN events e ON e.event_id = t.event_id WHERE ...\<close>.\<close>

definition joined :: "db \<Rightarrow> (string \<times> 'a) list \<Rightarrow> (event_row \<Rightarrow> 'a \<Rightarrow> bool) \<Rightarrow> (event_row \<times> 'a) list" where
  "joined d t cond = List.map_filter
     (\<lambda>(eid, x). case find_event d eid of
        Some r \<Rightarrow> if cond r x then Some (r, x) else None | None \<Rightarrow> None) t"

definition latest :: "db \<Rightarrow> (string \<times> 'a) list \<Rightarrow> (event_row \<Rightarrow> 'a \<Rightarrow> bool) \<Rightarrow> (event_row \<times> 'a) option" where
  "latest d t cond = latest_by (order_key \<circ> fst) (joined d t cond)"

section \<open>The queries\<close>

fun dep_state_of_outcome :: "outcome \<Rightarrow> dependency_state" where
  "dep_state_of_outcome Success = Dep_satisfied"
| "dep_state_of_outcome Failure = Dep_failed"
| "dep_state_of_outcome Conflicted = Dep_conflicted"
| "dep_state_of_outcome ExecutionUnknown = Dep_pending"

fun own_exec :: "outcome \<Rightarrow> execution" where
  "own_exec Success = Ex_finished"
| "own_exec Failure = Ex_retryable"
| "own_exec Conflicted = Ex_result_recorded"
| "own_exec ExecutionUnknown = Ex_unknown"

definition quarantined :: "db \<Rightarrow> string \<Rightarrow> bool" where
  "quarantined d eid = list_ex (\<lambda>q. qr_event_id q = eid) (quarantine d)"

definition latest_result :: "db \<Rightarrow> string \<Rightarrow> result_recorded option" where
  "latest_result d w = map_option snd
     (latest d (event_result d) (\<lambda>r x. rr_work_ref x = w \<and> \<not> quarantined d (event_id r)))"

definition consumers :: "db \<Rightarrow> string \<Rightarrow> string \<Rightarrow> string list" where
  "consumers d w k = map (event_id \<circ> fst) (sort_key (order_key \<circ> fst)
     (joined d (event_result d) (\<lambda>r x. rr_work_ref x = w \<and> rr_occurrence_key x = Some k)))"

definition latest_derive :: "db \<Rightarrow> string \<Rightarrow> work_derived option" where
  "latest_derive d w = map_option snd (latest d (event_work d) (\<lambda>r x. wd_work_ref x = w))"

definition latest_plan_created :: "db \<Rightarrow> string \<Rightarrow> plan_fact option" where
  "latest_plan_created d p = map_option snd
     (latest d (event_plan d) (\<lambda>r x. ep_plan_ref x = p \<and> kind r = PLAN_CREATED))"

definition latest_lifecycle :: "db \<Rightarrow> string \<Rightarrow> plan_fact option" where
  "latest_lifecycle d p = map_option snd
     (latest d (event_plan d) (\<lambda>r x. ep_plan_ref x = p \<and> ep_lifecycle x \<noteq> None))"

definition is_retired :: "db \<Rightarrow> string \<Rightarrow> bool" where
  "is_retired d w = list_ex (\<lambda>(eid, x). wr_work_ref x = w) (event_work_retired d)"

section \<open>Occurrence quarantine\<close>

definition requarantine_occurrence :: "string \<Rightarrow> string \<Rightarrow> db \<Rightarrow> db" where
  "requarantine_occurrence w k d =
     (case consumers d w k of
        [] \<Rightarrow> d
      | winner # losers \<Rightarrow>
          let kept = filter (\<lambda>q. \<not> (qr_work_ref q = w \<and> qr_occurrence_key q = k)) (quarantine d)
          in d\<lparr>quarantine := foldl (\<lambda>t loser.
                 if list_ex (\<lambda>q. qr_event_id q = loser) t then t
                 else t @ [\<lparr>qr_event_id = loser, qr_work_ref = w, qr_occurrence_key = k,
                            qr_first_event_id = winner\<rparr>]) kept losers\<rparr>)"

section \<open>The work row\<close>

definition readiness :: "dependency_row list \<Rightarrow> execution" where
  "readiness rows =
     (let total = length rows;
          resolved = length (filter (\<lambda>r. cd_state r \<in> {Dep_satisfied, Dep_conflicted}) rows);
          has_failed = list_ex (\<lambda>r. cd_state r = Dep_failed) rows;
          has_retired = list_ex (\<lambda>r. cd_state r = Dep_retired) rows;
          policy = (case rows of r # _ \<Rightarrow> cd_satisfaction_policy r | [] \<Rightarrow> PolicyALL)
      in if total = 0 then Ex_ready
         else if policy = PolicyANY then (if resolved \<ge> 1 then Ex_ready else Ex_blocked)
         else if has_retired \<or> has_failed then Ex_blocked
         else if resolved = total then Ex_ready
         else Ex_blocked)"

definition dependency_rows :: "db \<Rightarrow> string \<Rightarrow> dependency_row list" where
  "dependency_rows d w = filter (\<lambda>r. cd_work_ref r = w) (current_work_dependency d)"

definition recompute_readiness :: "int \<Rightarrow> string \<Rightarrow> string \<Rightarrow> db \<Rightarrow> db" where
  "recompute_readiness now w eid d =
     (let rows = dependency_rows d w;
          ex = readiness rows
      in case current_work d w of
           None \<Rightarrow> d
         | Some row \<Rightarrow>
             if cw_execution row = Ex_retired then d
             else d\<lparr>current_work := (current_work d)(w \<mapsto>
               row\<lparr>cw_dependency_total := length rows,
                   cw_dependency_satisfied :=
                     length (filter (\<lambda>r. cd_state r \<in> {Dep_satisfied, Dep_conflicted}) rows),
                   cw_dependency_conflicted := length (filter (\<lambda>r. cd_state r = Dep_conflicted) rows),
                   cw_execution := ex,
                   cw_ready_at := (if ex = Ex_ready then Some now else None),
                   cw_latest_event_id := eid\<rparr>)\<rparr>)"

definition recompute_work_state :: "int \<Rightarrow> string \<Rightarrow> string \<Rightarrow> db \<Rightarrow> db" where
  "recompute_work_state now w eid d =
     (case latest_derive d w of
        None \<Rightarrow> d
      | Some x \<Rightarrow>
          let retired = is_retired d w;
              res = latest_result d w;
              ex = (if retired then Ex_retired
                    else (case res of Some r \<Rightarrow> own_exec (rr_outcome r) | None \<Rightarrow> Ex_ready));
              row = (case current_work d w of
                       None \<Rightarrow> \<lparr>cw_plan_ref = wd_plan_ref x, cw_work_kind = wd_work_kind x,
                                cw_subject_ref = wd_subject_ref x,
                                cw_role_requirement = wd_role_requirement x,
                                cw_dependency_total = 0, cw_dependency_satisfied = 0,
                                cw_dependency_conflicted = 0, cw_execution = ex,
                                cw_ready_at = Some now, cw_latest_event_id = eid\<rparr>
                     | Some old \<Rightarrow> old\<lparr>cw_plan_ref := wd_plan_ref x, cw_work_kind := wd_work_kind x,
                                cw_subject_ref := wd_subject_ref x,
                                cw_role_requirement := wd_role_requirement x,
                                cw_execution := ex, cw_latest_event_id := eid\<rparr>);
              d' = d\<lparr>current_work := (current_work d)(w \<mapsto> row)\<rparr>
          in if \<not> retired \<and> res = None then recompute_readiness now w eid d' else d')"

section \<open>Dependents\<close>

definition apply_latest_result_to_dependents :: "string \<Rightarrow> string option \<Rightarrow> db \<Rightarrow> db" where
  "apply_latest_result_to_dependents w only d =
     (case latest_result d w of
        None \<Rightarrow> d
      | Some r \<Rightarrow>
          d\<lparr>current_work_dependency := map (\<lambda>c.
              if cd_dependency_work_ref c = w \<and> cd_state c \<noteq> Dep_retired
                 \<and> (case only of Some x \<Rightarrow> cd_work_ref c = x | None \<Rightarrow> True)
              then c\<lparr>cd_state := dep_state_of_outcome (rr_outcome r), cd_result_ref := Some (rr_result_ref r)\<rparr>
              else c) (current_work_dependency d)\<rparr>)"

definition retire_edges :: "(dependency_row \<Rightarrow> bool) \<Rightarrow> db \<Rightarrow> db" where
  "retire_edges cond d = d\<lparr>current_work_dependency := map (\<lambda>c.
     if cond c then c\<lparr>cd_state := Dep_retired\<rparr> else c) (current_work_dependency d)\<rparr>"

definition dependents :: "db \<Rightarrow> string \<Rightarrow> string list" where
  "dependents d w = remdups (map cd_work_ref
     (filter (\<lambda>c. cd_dependency_work_ref c = w) (current_work_dependency d)))"

definition propagate_to_dependents :: "int \<Rightarrow> string \<Rightarrow> string \<Rightarrow> db \<Rightarrow> db" where
  "propagate_to_dependents now w eid d =
     (let d' = (if is_retired d w then retire_edges (\<lambda>c. cd_dependency_work_ref c = w) d
                else apply_latest_result_to_dependents w None d)
      in foldl (\<lambda>s x. recompute_work_state now x eid s) d' (dependents d' w))"

section \<open>The plan row\<close>

definition recompute_plan_state :: "string \<Rightarrow> string \<Rightarrow> db \<Rightarrow> db result" where
  "recompute_plan_state p eid d =
     (case latest_plan_created d p of
        None \<Rightarrow> Inr d
      | Some c \<Rightarrow>
          (case latest_lifecycle d p of
             Some l \<Rightarrow>
               (case ep_lifecycle l of
                  Some lc \<Rightarrow> Inr (d\<lparr>current_plans := (current_plans d)(p \<mapsto>
                     \<lparr>cp_project_ref = ep_project_ref c, cp_objective = ep_objective c,
                      cp_rationale = ep_rationale c, cp_lifecycle = lc,
                      cp_end_reason = ep_end_reason l, cp_latest_event_id = eid\<rparr>)\<rparr>)
                | None \<Rightarrow> Inl (IntegrityError ''lifecycle''))
           | None \<Rightarrow> Inl (TypeError ''cannot unpack NoneType'')))"

section \<open>Links\<close>

definition coalesce_scope :: "string option \<Rightarrow> string" where
  "coalesce_scope s = (case s of Some t \<Rightarrow> t | None \<Rightarrow> PUBLIC_SCOPE)"

definition asserter_scope :: "event \<Rightarrow> string" where
  "asserter_scope e = (case scope_ref e of Some s \<Rightarrow> if s = [] then PUBLIC_SCOPE else s | None \<Rightarrow> PUBLIC_SCOPE)"

definition hlc_parts :: "string \<Rightarrow> (int \<times> int) result" where
  "hlc_parts h = (case parse_hlc h of
     Some (p, l, _) \<Rightarrow> Inr (p, l)
   | None \<Rightarrow> Inl (ValueError ''cannot denormalise a malformed HLC''))"

text \<open>The two back-fills at the top of \<open>reduce\<close>: the links that waited for this event.\<close>

definition fill_target :: "event \<Rightarrow> int \<times> int \<Rightarrow> db \<Rightarrow> db \<times> bool" where
  "fill_target e parts d =
     (case find_event d (event_id e) of
        None \<Rightarrow> (d, False)
      | Some r \<Rightarrow>
          let hit = (\<lambda>l. lr_target_ref l = event_id e \<and> \<not> lr_resolved l)
          in (d\<lparr>event_links := map (\<lambda>l. if hit l then
                  l\<lparr>lr_resolved := True, lr_target_scope := Some (coalesce_scope (scope_ref r)),
                    lr_target_hlc := Some parts, lr_target_origin := Some (origin_node r)\<rparr> else l)
                (event_links d)\<rparr>, list_ex hit (event_links d)))"

definition fill_source :: "event \<Rightarrow> int \<times> int \<Rightarrow> db \<Rightarrow> db \<times> bool" where
  "fill_source e parts d =
     (case find_event d (event_id e) of
        None \<Rightarrow> (d, False)
      | Some r \<Rightarrow>
          let hit = (\<lambda>l. lr_source_ref l = event_id e \<and> lr_source_scope l = None)
          in (d\<lparr>event_links := map (\<lambda>l. if hit l then
                  l\<lparr>lr_source_scope := Some (coalesce_scope (scope_ref r)),
                    lr_source_hlc := Some parts, lr_source_origin := Some (origin_node r)\<rparr> else l)
                (event_links d)\<rparr>, list_ex hit (event_links d)))"

definition same_triple :: "link_asserted \<Rightarrow> link_row \<Rightarrow> bool" where
  "same_triple p l \<longleftrightarrow> lr_source_ref l = la_source_ref p \<and> lr_relation l = la_relation p
     \<and> lr_target_ref l = la_target_ref p"

definition insert_link :: "event \<Rightarrow> link_asserted \<Rightarrow> db \<Rightarrow> db" where
  "insert_link e p d =
     (if list_ex (same_triple p) (event_links d) then d
      else (let t = find_event d (la_target_ref p); s = find_event d (la_source_ref p)
            in d\<lparr>event_links := event_links d @
                 [\<lparr>lr_source_ref = la_source_ref p, lr_relation = la_relation p,
                   lr_target_ref = la_target_ref p, lr_resolved = (t \<noteq> None),
                   lr_asserted_by = event_id e, lr_asserter_scope = asserter_scope e,
                   lr_target_scope = Some (coalesce_scope (Option.bind t scope_ref)),
                   lr_target_hlc = Option.bind t row_parts,
                   lr_target_origin = map_option origin_node t,
                   lr_source_scope = map_option (coalesce_scope \<circ> scope_ref) s,
                   lr_source_hlc = Option.bind s row_parts,
                   lr_source_origin = map_option origin_node s\<rparr>]\<rparr>))"

section \<open>Claim standing\<close>

text \<open>
  The depth-first search of \<open>grounded\<close>: \<open>srcs\<close> gives the sources of the supports edges into a
  node, \<open>obs\<close> the observations, \<open>live\<close> the claims that are not superseded.  The inner loop over the
  sources of one node stops the search at an observation (\<open>None\<close>); otherwise it pushes the live
  claims not seen before.
\<close>

fun visit ::
    "(string \<Rightarrow> bool) \<Rightarrow> string list \<Rightarrow> string list \<Rightarrow> string list \<Rightarrow> string list
      \<Rightarrow> (string list \<times> string list) option" where
  "visit obs live [] stack seen = Some (stack, seen)"
| "visit obs live (s # ss) stack seen =
     (if obs s then None
      else if s \<in> set live \<and> s \<notin> set seen then visit obs live ss (s # stack) (s # seen)
      else visit obs live ss stack seen)"

lemma visit_measure:
  "visit obs live ss stack seen = Some (stack', seen') \<Longrightarrow>
     set seen \<subseteq> set seen' \<and> (card (set live - set seen') < card (set live - set seen)
       \<or> stack' = stack \<and> seen' = seen)"
proof (induction obs live ss stack seen rule: visit.induct)
  case (2 obs live s ss stack seen)
  show ?case
  proof (cases "s \<in> set live \<and> s \<notin> set seen")
    case True
    with 2 have "set (s # seen) \<subseteq> set seen' \<and> (card (set live - set seen') < card (set live - set (s # seen))
       \<or> stack' = s # stack \<and> seen' = s # seen)" by (auto split: if_splits)
    moreover have "card (set live - set (s # seen)) < card (set live - set seen)"
      using True by (intro psubset_card_mono) auto
    ultimately show ?thesis by auto
  next
    case False
    with 2 show ?thesis by (auto split: if_splits)
  qed
qed auto

function grounded_loop ::
    "(string \<Rightarrow> string list) \<Rightarrow> (string \<Rightarrow> bool) \<Rightarrow> string list \<Rightarrow> string list \<Rightarrow> string list \<Rightarrow> bool" where
  "grounded_loop srcs obs live [] seen = False"
| "grounded_loop srcs obs live (c # stack) seen =
     (case visit obs live (srcs c) stack seen of
        None \<Rightarrow> True
      | Some (stack', seen') \<Rightarrow> grounded_loop srcs obs live stack' seen')"
  by pat_completeness auto
termination
proof (relation "measures [\<lambda>(srcs, obs, live, stack, seen). card (set live - set seen),
    \<lambda>(srcs, obs, live, stack, seen). length stack]")
  fix srcs :: "string \<Rightarrow> string list" and obs :: "string \<Rightarrow> bool" and live stack seen stack' seen' :: "string list"
    and c :: string and p
  assume "visit obs live (srcs c) stack seen = Some p" "(stack', seen') = p"
  then have "visit obs live (srcs c) stack seen = Some (stack', seen')" by simp
  from visit_measure [OF this]
  show "((srcs, obs, live, stack', seen'), (srcs, obs, live, c # stack, seen))
      \<in> measures [\<lambda>(srcs, obs, live, stack, seen). card (set live - set seen),
          \<lambda>(srcs, obs, live, stack, seen). length stack]" by auto
qed simp

definition claim_ids :: "db \<Rightarrow> string list" where
  "claim_ids d = map fst (event_claim d)"

definition observation_ids :: "db \<Rightarrow> string list" where
  "observation_ids d = map fst (event_observation d)"

definition resolved_links :: "db \<Rightarrow> (string \<times> relation \<times> string) list" where
  "resolved_links d = map (\<lambda>l. (lr_source_ref l, lr_relation l, lr_target_ref l))
     (filter lr_resolved (event_links d))"

definition superseded_claim :: "db \<Rightarrow> string \<Rightarrow> bool" where
  "superseded_claim d c \<longleftrightarrow> c \<in> set (claim_ids d)
     \<and> list_ex (\<lambda>(s, r, t). r = Supersedes \<and> t = c) (resolved_links d)"

definition supports_into :: "db \<Rightarrow> string \<Rightarrow> string list" where
  "supports_into d c = map fst (filter (\<lambda>(s, r, t). r = Supports \<and> t = c) (resolved_links d))"

definition grounded :: "db \<Rightarrow> string \<Rightarrow> bool" where
  "grounded d c = grounded_loop (supports_into d) (\<lambda>s. s \<in> set (observation_ids d))
     (filter (\<lambda>s. \<not> superseded_claim d s) (claim_ids d)) [c] [c]"

definition contradicted :: "db \<Rightarrow> string \<Rightarrow> bool" where
  "contradicted d c \<longleftrightarrow> c \<in> set (claim_ids d)
     \<and> list_ex (\<lambda>(s, r, t). r = Contradicts \<and> t = c
          \<and> (s \<in> set (claim_ids d) \<or> s \<in> set (observation_ids d))
          \<and> \<not> (s \<in> set (claim_ids d) \<and> superseded_claim d s)) (resolved_links d)"

definition standing_of :: "db \<Rightarrow> string \<Rightarrow> claim_standing" where
  "standing_of d c =
     (if superseded_claim d c then Superseded_claim
      else (let g = grounded d c; k = contradicted d c
            in if g \<and> k then Contested else if g then Grounded_supported
               else if k then Contradicted else Unevaluated))"

definition recompute_standing :: "string \<Rightarrow> db \<Rightarrow> db" where
  "recompute_standing eid d =
     (if claim_ids d = [] then d
      else d\<lparr>current_claim_standing := foldl (\<lambda>m c. m(c \<mapsto> (standing_of d c, eid)))
               (current_claim_standing d) (sort (claim_ids d))\<rparr>)"

section \<open>The reducer\<close>

definition declare_dependency_row :: "work_dependency_declared \<Rightarrow> db \<Rightarrow> db" where
  "declare_dependency_row p d =
     (if list_ex (\<lambda>c. cd_work_ref c = dd_work_ref p
           \<and> cd_dependency_work_ref c = dd_dependency_work_ref p) (current_work_dependency d)
      then d
      else d\<lparr>current_work_dependency := current_work_dependency d @
             [\<lparr>cd_work_ref = dd_work_ref p, cd_dependency_work_ref = dd_dependency_work_ref p,
               cd_satisfaction_policy = dd_satisfaction_policy p, cd_state = Dep_pending,
               cd_result_ref = None\<rparr>]\<rparr>)"

text \<open>The branch on the payload: the new tables, and whether links were touched.\<close>

fun reduce_payload :: "int \<Rightarrow> event \<Rightarrow> payload \<Rightarrow> db \<Rightarrow> (db \<times> bool) result" where
  "reduce_payload now e (PlanCreated p) d =
     bind_result (recompute_plan_state (pc_plan_ref p) (event_id e) d) (\<lambda>d. Inr (d, False))"
| "reduce_payload now e (PlanLifecycleChanged p) d =
     bind_result (recompute_plan_state (pl_plan_ref p) (event_id e) d) (\<lambda>d. Inr (d, False))"
| "reduce_payload now e (WorkDerived p) d =
     Inr (recompute_work_state now (wd_work_ref p) (event_id e) d, False)"
| "reduce_payload now e (WorkDependencyDeclared p) d =
     (let d1 = declare_dependency_row p d;
          d2 = (if is_retired d1 (dd_dependency_work_ref p)
                then retire_edges (\<lambda>c. cd_work_ref c = dd_work_ref p
                       \<and> cd_dependency_work_ref c = dd_dependency_work_ref p) d1
                else apply_latest_result_to_dependents (dd_dependency_work_ref p)
                       (Some (dd_work_ref p)) d1)
      in Inr (recompute_work_state now (dd_work_ref p) (event_id e) d2, False))"
| "reduce_payload now e (ResultRecorded p) d =
     (let d1 = (case rr_occurrence_key p of
                  Some k \<Rightarrow> requarantine_occurrence (rr_work_ref p) k d | None \<Rightarrow> d);
          d2 = recompute_work_state now (rr_work_ref p) (event_id e) d1
      in Inr (propagate_to_dependents now (rr_work_ref p) (event_id e) d2, False))"
| "reduce_payload now e (WorkRetired p) d =
     (let d1 = recompute_work_state now (wr_work_ref p) (event_id e) d
      in Inr (propagate_to_dependents now (wr_work_ref p) (event_id e) d1, False))"
| "reduce_payload now e (LinkAsserted p) d = Inr (insert_link e p d, True)"
| "reduce_payload now e (ObservationRecorded p) d = Inr (d, True)"
| "reduce_payload now e (ClaimRecorded p) d =
     Inr (d\<lparr>current_claim_standing :=
        (case current_claim_standing d (event_id e) of
           Some _ \<Rightarrow> current_claim_standing d
         | None \<Rightarrow> (current_claim_standing d)(event_id e \<mapsto> (Unevaluated, event_id e)))\<rparr>, True)"
| "reduce_payload now e (AuthorityConfiguration p) d = Inr (d, False)"
| "reduce_payload now e (AuthorityReceipt p) d = Inr (d, False)"

definition reduce :: "int \<Rightarrow> event \<Rightarrow> db \<Rightarrow> db result" where
  "reduce now e d =
     bind_result (hlc_parts (hlc e)) (\<lambda>parts.
       let (d1, t1) = fill_target e parts d;
           (d2, t2) = fill_source e parts d1
       in case payload e of
            None \<Rightarrow> Inl (RuntimeError ''no reducer'')
          | Some p \<Rightarrow>
              bind_result (reduce_payload now e p d2) (\<lambda>(d3, t3).
                Inr (if t1 \<or> t2 \<or> t3 then recompute_standing (event_id e) d3 else d3)))"

section \<open>Rebuild\<close>

definition truncate_projections :: "db \<Rightarrow> db" where
  "truncate_projections d =
     d\<lparr>current_plans := Map.empty, current_work := Map.empty, current_work_dependency := [],
       event_links := [], current_claim_standing := Map.empty, quarantine := []\<rparr>"

fun replay :: "crypto \<Rightarrow> int \<Rightarrow> event list \<Rightarrow> db \<Rightarrow> db result" where
  "replay cr now [] d = Inr d"
| "replay cr now (e # es) d =
     (if \<not> event_verify (sha256 cr) e then Inl (RuntimeError ''replay integrity'')
      else if is_stub e then replay cr now es d
      else bind_result (reduce now e d) (replay cr now es))"

definition rebuild :: "crypto \<Rightarrow> int \<Rightarrow> db \<Rightarrow> (db \<times> nat) result" where
  "rebuild cr now d =
     (let d0 = truncate_projections d
      in bind_result (load_events cr d0) (\<lambda>es.
           bind_result (replay cr now es d0) (\<lambda>d'. Inr (d', length es))))"

end
