(* ===== verification/Convergence.thy ===== *)
theory Convergence
  imports Reducers
begin

text \<open>
  The projections are a function of the facts.  The facts are the payload tables with the envelope
  rows of their events; a projection is \<^emph>\<open>fresh\<close> when every row it holds agrees with what the
  facts determine, and \<^emph>\<open>complete\<close> when the rows the facts call for are there.  Every reduction
  makes the parts it touches fresh again, whether the other facts are already in the tables (a
  replay) or not (arrival one by one), so a rebuild and any order of arrival end in the same
  projections.
\<close>

section \<open>Joins and latest rows\<close>

lemma find_event_Some: "find_event d eid = Some r \<Longrightarrow> r \<in> set (events d) \<and> event_id r = eid"
  by (auto simp: find_event_def find_Some_iff)

lemma joined_mem:
  "(r, x) \<in> set (joined d t c) \<longleftrightarrow> (event_id r, x) \<in> set t \<and> find_event d (event_id r) = Some r \<and> c r x"
proof -
  have "(r, x) \<in> set (joined d t c) \<longleftrightarrow> (\<exists>eid. (eid, x) \<in> set t \<and> find_event d eid = Some r \<and> c r x)"
    unfolding joined_def List.map_filter_def by (force split: option.splits if_splits)
  then show ?thesis using find_event_Some by metis
qed

lemma order_key_event_id: "order_key r = order_key q \<Longrightarrow> event_id r = event_id q"
  by (auto simp: order_key_def hlc_parts_sort_key_def split: option.splits)

lemma order_key_inj:
  assumes "distinct (map fst t)"
  shows "inj_on (order_key \<circ> fst) (set (joined d t c))"
proof (rule inj_onI)
  fix a b
  assume ab: "a \<in> set (joined d t c)" "b \<in> set (joined d t c)" "(order_key \<circ> fst) a = (order_key \<circ> fst) b"
  obtain r x where a: "a = (r, x)" by force
  obtain q y where b: "b = (q, y)" by force
  from ab a b have "event_id r = event_id q" by (auto dest: order_key_event_id)
  moreover from ab(1,2) have m: "(event_id r, x) \<in> set t" "find_event d (event_id r) = Some r"
    "(event_id q, y) \<in> set t" "find_event d (event_id q) = Some q"
    unfolding a b joined_mem by blast+
  ultimately have "r = q" by (metis option.inject)
  moreover from this m have "x = y" using eq_key_imp_eq_value [OF assms] by metis
  ultimately show "a = b" by (simp add: a b)
qed

lemma latest_mem: "latest d t c = Some (r, x) \<Longrightarrow> (event_id r, x) \<in> set t \<and> c r x"
  by (auto simp: latest_def joined_mem dest!: latest_by_mem)

lemma latest_None: "latest d t c = None \<longleftrightarrow> joined d t c = []"
  by (simp add: latest_def)

lemma latest_Some_if: "(r, x) \<in> set (joined d t c) \<Longrightarrow> latest d t c \<noteq> None"
  unfolding latest_None by auto

lemma joined_cong:
  assumes "\<And>eid r x. (eid, x) \<in> set t \<Longrightarrow> find_event d eid = Some r \<Longrightarrow> c r x = c' r x"
  shows "joined d t c = joined d t c'"
proof -
  have "map (\<lambda>(eid, x). case find_event d eid of Some r \<Rightarrow> if c r x then Some (r, x) else None | None \<Rightarrow> None) t
      = map (\<lambda>(eid, x). case find_event d eid of Some r \<Rightarrow> if c' r x then Some (r, x) else None | None \<Rightarrow> None) t"
    using assms by (intro map_cong) (auto split: option.splits)
  moreover have mf: "List.map_filter f xs = map the (filter (\<lambda>x. x \<noteq> None) (map f xs))"
    for f :: "string \<times> 'a \<Rightarrow> (event_row \<times> 'a) option" and xs
    by (simp add: List.map_filter_def filter_map comp_def)
  ultimately show ?thesis unfolding joined_def mf by argo
qed

lemma joined_tables:
  assumes "events d = events d'"
  shows "joined d t c = joined d' t c"
  using assms by (simp add: joined_def find_event_def)

section \<open>Facts\<close>

definition facts_ok :: "db \<Rightarrow> bool" where
  "facts_ok d \<longleftrightarrow> distinct (map fst (event_work d)) \<and> distinct (map fst (event_result d))
     \<and> distinct (map fst (event_plan d))"

text \<open>The state of an edge, the execution and the identity fields of a work, as the facts determine them.\<close>

definition dep_result_of :: "db \<Rightarrow> string \<Rightarrow> string option" where
  "dep_result_of d w = map_option rr_result_ref (latest_result d w)"

definition dep_state_of :: "db \<Rightarrow> string \<Rightarrow> dependency_state" where
  "dep_state_of d w =
     (if is_retired d w then Dep_retired
      else (case latest_result d w of Some r \<Rightarrow> dep_state_of_outcome (rr_outcome r) | None \<Rightarrow> Dep_pending))"

definition execution_of :: "db \<Rightarrow> string \<Rightarrow> execution" where
  "execution_of d w =
     (if is_retired d w then Ex_retired
      else (case latest_result d w of
              Some r \<Rightarrow> own_exec (rr_outcome r) | None \<Rightarrow> readiness (dependency_rows d w)))"

text \<open>
  The four columns that \<open>recompute_readiness\<close> writes: the three counts, and whether there is a
  \<open>ready_at\<close>.  Only a work that waits, ready or blocked, has them up to date; the row of a work with
  a result or retired keeps what it held when the result came.
\<close>

type_synonym readiness_columns = "nat \<times> nat \<times> nat \<times> bool"

definition count_rows :: "dependency_row list \<Rightarrow> readiness_columns" where
  "count_rows rows = (length rows, length (filter (\<lambda>r. cd_state r \<in> {Dep_satisfied, Dep_conflicted}) rows),
     length (filter (\<lambda>r. cd_state r = Dep_conflicted) rows), readiness rows = Ex_ready)"

definition readiness_columns :: "work_row \<Rightarrow> readiness_columns option" where
  "readiness_columns r = (if cw_execution r \<in> {Ex_ready, Ex_blocked}
     then Some (cw_dependency_total r, cw_dependency_satisfied r, cw_dependency_conflicted r, cw_ready_at r \<noteq> None)
     else None)"

definition columns_of :: "db \<Rightarrow> string \<Rightarrow> readiness_columns option" where
  "columns_of d w = (if is_retired d w \<or> latest_result d w \<noteq> None then None
     else Some (count_rows (dependency_rows d w)))"

type_synonym work_core =
  "string \<times> string \<times> string option \<times> string option \<times> execution \<times> readiness_columns option"

definition work_core :: "work_row \<Rightarrow> work_core" where
  "work_core r = (cw_plan_ref r, cw_work_kind r, cw_subject_ref r, cw_role_requirement r, cw_execution r,
     readiness_columns r)"

definition core_of :: "db \<Rightarrow> string \<Rightarrow> work_core option" where
  "core_of d w = map_option (\<lambda>x. (wd_plan_ref x, wd_work_kind x, wd_subject_ref x,
     wd_role_requirement x, execution_of d w, columns_of d w)) (latest_derive d w)"

lemma readiness_waits: "readiness rows \<in> {Ex_ready, Ex_blocked}"
  by (simp add: readiness_def Let_def)

lemma own_exec_settled [simp]: "own_exec ou \<noteq> Ex_ready" "own_exec ou \<noteq> Ex_blocked"
  by (cases ou; simp)+

section \<open>Frames\<close>

text \<open>What a query reads.\<close>

lemma query_frames [frame_simps]:
  "latest_derive (d\<lparr>current_work := cw\<rparr>) w = latest_derive d w"
  "latest_derive (d\<lparr>current_work_dependency := cd\<rparr>) w = latest_derive d w"
  "latest_derive (d\<lparr>quarantine := q\<rparr>) w = latest_derive d w"
  "latest_result (d\<lparr>current_work := cw\<rparr>) w = latest_result d w"
  "latest_result (d\<lparr>current_work_dependency := cd\<rparr>) w = latest_result d w"
  "is_retired (d\<lparr>current_work := cw\<rparr>) w = is_retired d w"
  "is_retired (d\<lparr>current_work_dependency := cd\<rparr>) w = is_retired d w"
  "is_retired (d\<lparr>quarantine := q\<rparr>) w = is_retired d w"
  "consumers (d\<lparr>current_work := cw\<rparr>) w k = consumers d w k"
  "consumers (d\<lparr>current_work_dependency := cd\<rparr>) w k = consumers d w k"
  "consumers (d\<lparr>quarantine := q\<rparr>) w k = consumers d w k"
  "dependency_rows (d\<lparr>current_work := cw\<rparr>) w = dependency_rows d w"
  "dependency_rows (d\<lparr>quarantine := q\<rparr>) w = dependency_rows d w"
  "quarantined (d\<lparr>current_work := cw\<rparr>) eid = quarantined d eid"
  "quarantined (d\<lparr>current_work_dependency := cd\<rparr>) eid = quarantined d eid"
  by (simp_all add: latest_derive_def latest_result_def latest_def joined_def find_event_def
      is_retired_def consumers_def dependency_rows_def quarantined_def)

lemma core_frames [frame_simps]:
  "core_of (d\<lparr>current_work := cw\<rparr>) w = core_of d w"
  "dep_state_of (d\<lparr>current_work := cw\<rparr>) w = dep_state_of d w"
  "dep_state_of (d\<lparr>current_work_dependency := cd\<rparr>) w = dep_state_of d w"
  "dep_result_of (d\<lparr>current_work := cw\<rparr>) w = dep_result_of d w"
  "dep_result_of (d\<lparr>current_work_dependency := cd\<rparr>) w = dep_result_of d w"
proof -
  have "execution_of (d\<lparr>current_work := cw\<rparr>) w = execution_of d w"
    "columns_of (d\<lparr>current_work := cw\<rparr>) w = columns_of d w"
    unfolding execution_of_def columns_of_def frame_simps by (rule refl)+
  then show "core_of (d\<lparr>current_work := cw\<rparr>) w = core_of d w"
    unfolding core_of_def frame_simps by simp
  show "dep_state_of (d\<lparr>current_work := cw\<rparr>) w = dep_state_of d w"
    "dep_state_of (d\<lparr>current_work_dependency := cd\<rparr>) w = dep_state_of d w"
    unfolding dep_state_of_def frame_simps by (rule refl)+
  show "dep_result_of (d\<lparr>current_work := cw\<rparr>) w = dep_result_of d w"
    "dep_result_of (d\<lparr>current_work_dependency := cd\<rparr>) w = dep_result_of d w"
    unfolding dep_result_of_def frame_simps by (rule refl)+
qed

section \<open>The work row\<close>

definition fresh_works :: "db \<Rightarrow> string set \<Rightarrow> bool" where
  "fresh_works d W \<longleftrightarrow> (\<forall>w row. current_work d w = Some row \<longrightarrow>
     latest_derive d w \<noteq> None \<and> (w \<notin> W \<longrightarrow> core_of d w = Some (work_core row)))"

lemma fresh_worksD:
  assumes "fresh_works d W" "current_work d w = Some row"
  shows "latest_derive d w \<noteq> None" "w \<notin> W \<Longrightarrow> core_of d w = Some (work_core row)"
  using assms unfolding fresh_works_def by blast+

lemma recompute_work_none: "latest_derive d w = None \<Longrightarrow> recompute_work_state now w eid d = d"
  by (simp add: recompute_work_state_def)

lemma recompute_readiness_some:
  assumes "current_work d w = Some row" "cw_execution row \<noteq> Ex_retired"
  shows "\<exists>row'. recompute_readiness now w eid d = d\<lparr>current_work := (current_work d)(w \<mapsto> row')\<rparr>
    \<and> work_core row' = (cw_plan_ref row, cw_work_kind row, cw_subject_ref row,
         cw_role_requirement row, readiness (dependency_rows d w), Some (count_rows (dependency_rows d w)))"
  unfolding recompute_readiness_def Let_def assms(1) option.case if_not_P [OF assms(2)]
  by (rule exI, rule conjI, rule refl)
    (use readiness_waits [of "dependency_rows d w"] in \<open>simp add: work_core_def readiness_columns_def count_rows_def\<close>)

lemma recompute_work_some:
  assumes "latest_derive d w = Some x"
  shows "\<exists>row. recompute_work_state now w eid d = d\<lparr>current_work := (current_work d)(w \<mapsto> row)\<rparr>
    \<and> core_of d w = Some (work_core row)"
proof -
  define ex where "ex = (if is_retired d w then Ex_retired
    else (case latest_result d w of Some r \<Rightarrow> own_exec (rr_outcome r) | None \<Rightarrow> Ex_ready))"
  define waiting where "waiting \<longleftrightarrow> \<not> is_retired d w \<and> latest_result d w = None"
  obtain row where step: "recompute_work_state now w eid d =
      (if waiting then recompute_readiness now w eid (d\<lparr>current_work := (current_work d)(w \<mapsto> row)\<rparr>)
       else d\<lparr>current_work := (current_work d)(w \<mapsto> row)\<rparr>)"
    and row: "cw_plan_ref row = wd_plan_ref x" "cw_work_kind row = wd_work_kind x"
      "cw_subject_ref row = wd_subject_ref x" "cw_role_requirement row = wd_role_requirement x"
      "cw_execution row = ex"
    unfolding recompute_work_state_def Let_def assms option.case waiting_def ex_def
    by (cases "current_work d w") simp_all
  show ?thesis
  proof (cases waiting)
    case False
    then have "core_of d w = Some (work_core row)"
      unfolding core_of_def execution_of_def columns_of_def assms work_core_def readiness_columns_def row
        ex_def waiting_def by (auto split: option.splits)
    with False step show ?thesis by auto
  next
    case True
    let ?d = "d\<lparr>current_work := (current_work d)(w \<mapsto> row)\<rparr>"
    have "current_work ?d w = Some row" "cw_execution row \<noteq> Ex_retired"
      using True by (auto simp: row(5) ex_def waiting_def)
    from recompute_readiness_some [OF this, of now eid] obtain row' where
      r: "recompute_readiness now w eid ?d = ?d\<lparr>current_work := (current_work ?d)(w \<mapsto> row')\<rparr>"
      "work_core row' = (cw_plan_ref row, cw_work_kind row, cw_subject_ref row,
         cw_role_requirement row, readiness (dependency_rows ?d w), Some (count_rows (dependency_rows ?d w)))" by blast
    have "core_of d w = Some (work_core row')"
      using True unfolding core_of_def execution_of_def columns_of_def assms r(2) row(1-4) waiting_def frame_simps
      by simp
    moreover have "recompute_work_state now w eid d = d\<lparr>current_work := (current_work d)(w \<mapsto> row')\<rparr>"
      unfolding step r(1) using True by simp
    ultimately show ?thesis by blast
  qed
qed

lemma recompute_work_frame: "\<exists>cw. recompute_work_state now w eid d = d\<lparr>current_work := cw\<rparr>
    \<and> (\<forall>v. current_work d v \<noteq> None \<longrightarrow> cw v \<noteq> None) \<and> (latest_derive d w \<noteq> None \<longrightarrow> cw w \<noteq> None)"
proof (cases "latest_derive d w")
  case None
  then have "recompute_work_state now w eid d = d\<lparr>current_work := current_work d\<rparr>"
    by (simp add: recompute_work_none)
  with None show ?thesis by blast
next
  case (Some x)
  then obtain row where "recompute_work_state now w eid d = d\<lparr>current_work := (current_work d)(w \<mapsto> row)\<rparr>"
    using recompute_work_some by blast
  then show ?thesis by (intro exI conjI) auto
qed

lemma recompute_work_fresh:
  assumes "fresh_works d W"
  shows "fresh_works (recompute_work_state now w eid d) (W - {w})"
proof (cases "latest_derive d w")
  case None
  then have "current_work d w = None" using fresh_worksD(1) [OF assms] by (cases "current_work d w") auto
  then show ?thesis
    unfolding recompute_work_none [OF None] fresh_works_def
    using fresh_worksD [OF assms] by (metis Diff_iff option.distinct(1) singletonD)
next
  case (Some x)
  then obtain row where r: "recompute_work_state now w eid d = d\<lparr>current_work := (current_work d)(w \<mapsto> row)\<rparr>"
    "core_of d w = Some (work_core row)" using recompute_work_some by blast
  show ?thesis
    unfolding r(1) fresh_works_def
  proof (intro allI impI)
    fix v row'
    assume v: "current_work (d\<lparr>current_work := (current_work d)(w \<mapsto> row)\<rparr>) v = Some row'"
    show "latest_derive (d\<lparr>current_work := (current_work d)(w \<mapsto> row)\<rparr>) v \<noteq> None
      \<and> (v \<notin> W - {w} \<longrightarrow> core_of (d\<lparr>current_work := (current_work d)(w \<mapsto> row)\<rparr>) v = Some (work_core row'))"
    proof (cases "v = w")
      case True
      with v r(2) Some show ?thesis by (simp add: frame_simps)
    next
      case False
      then have "current_work d v = Some row'" using v by simp
      from fresh_worksD [OF assms this] False show ?thesis unfolding frame_simps by blast
    qed
  qed
qed

definition recompute_all :: "int \<Rightarrow> string \<Rightarrow> string list \<Rightarrow> db \<Rightarrow> db" where
  "recompute_all now eid ws d = foldl (\<lambda>s x. recompute_work_state now x eid s) d ws"

lemma recompute_all_frame: "\<exists>cw. recompute_all now eid ws d = d\<lparr>current_work := cw\<rparr>
    \<and> (\<forall>v. current_work d v \<noteq> None \<longrightarrow> cw v \<noteq> None)"
proof (induction ws arbitrary: d)
  case Nil
  have "recompute_all now eid [] d = d\<lparr>current_work := current_work d\<rparr>" by (simp add: recompute_all_def)
  then show ?case by blast
next
  case (Cons w ws)
  obtain cw where cw: "recompute_work_state now w eid d = d\<lparr>current_work := cw\<rparr>"
    "\<forall>v. current_work d v \<noteq> None \<longrightarrow> cw v \<noteq> None" using recompute_work_frame by blast
  obtain cw' where "recompute_all now eid ws (d\<lparr>current_work := cw\<rparr>) = d\<lparr>current_work := cw\<rparr>\<lparr>current_work := cw'\<rparr>"
    "\<forall>v. current_work (d\<lparr>current_work := cw\<rparr>) v \<noteq> None \<longrightarrow> cw' v \<noteq> None" using Cons by blast
  with cw show ?case by (auto simp: recompute_all_def)
qed

lemma recompute_all_fresh:
  "fresh_works d W \<Longrightarrow> fresh_works (recompute_all now eid ws d) (W - set ws)"
proof (induction ws arbitrary: d W)
  case (Cons w ws)
  have "fresh_works (recompute_all now eid ws (recompute_work_state now w eid d)) (W - {w} - set ws)"
    using Cons by (intro Cons.IH recompute_work_fresh)
  then show ?case by (simp add: recompute_all_def Diff_insert2 [symmetric] Diff_insert [symmetric])
qed (simp add: recompute_all_def)

section \<open>The edges\<close>

definition fresh_deps :: "db \<Rightarrow> string set \<Rightarrow> bool" where
  "fresh_deps d X \<longleftrightarrow> (\<forall>c \<in> set (current_work_dependency d).
     (cd_dependency_work_ref c \<notin> X \<longrightarrow> cd_state c = dep_state_of d (cd_dependency_work_ref c)
        \<and> (\<not> is_retired d (cd_dependency_work_ref c) \<longrightarrow> cd_result_ref c = dep_result_of d (cd_dependency_work_ref c)))
     \<and> (cd_state c = Dep_retired \<longrightarrow> is_retired d (cd_dependency_work_ref c)))"

lemma dep_state_not_retired [simp]: "dep_state_of_outcome ou \<noteq> Dep_retired"
  by (cases ou) simp_all

text \<open>The first half of the propagation: the edges into \<open>w\<close>.\<close>

definition settle_edges :: "string \<Rightarrow> db \<Rightarrow> db" where
  "settle_edges w d =
     (if is_retired d w then retire_edges (\<lambda>c. cd_dependency_work_ref c = w) d
      else apply_latest_result_to_dependents w None d)"

lemma propagate_eq:
  "propagate_to_dependents now w eid d = recompute_all now eid (dependents (settle_edges w d) w) (settle_edges w d)"
  by (simp add: propagate_to_dependents_def settle_edges_def recompute_all_def Let_def)

definition settle_row :: "db \<Rightarrow> string \<Rightarrow> dependency_row \<Rightarrow> dependency_row" where
  "settle_row d w c =
     (if cd_dependency_work_ref c \<noteq> w then c
      else if is_retired d w then c\<lparr>cd_state := Dep_retired\<rparr>
      else (case latest_result d w of
              None \<Rightarrow> c
            | Some r \<Rightarrow> if cd_state c = Dep_retired then c
                else c\<lparr>cd_state := dep_state_of_outcome (rr_outcome r), cd_result_ref := Some (rr_result_ref r)\<rparr>))"

lemma settle_edges_eq:
  "settle_edges w d = d\<lparr>current_work_dependency := map (settle_row d w) (current_work_dependency d)\<rparr>"
proof (cases "is_retired d w")
  case True
  have "settle_row d w c = (if cd_dependency_work_ref c = w then c\<lparr>cd_state := Dep_retired\<rparr> else c)" for c
    using True by (simp add: settle_row_def)
  with True show ?thesis unfolding settle_edges_def retire_edges_def by presburger
next
  case False
  show ?thesis
  proof (cases "latest_result d w")
    case None
    have "map (settle_row d w) cs = cs" for cs
      using None False by (intro map_idI) (simp add: settle_row_def)
    with None False show ?thesis by (simp add: settle_edges_def apply_latest_result_to_dependents_def)
  next
    case (Some r)
    have "map (settle_row d w) cs = map (\<lambda>c.
              if cd_dependency_work_ref c = w \<and> cd_state c \<noteq> Dep_retired
              then c\<lparr>cd_state := dep_state_of_outcome (rr_outcome r), cd_result_ref := Some (rr_result_ref r)\<rparr>
              else c) cs" for cs
      using Some False by (intro map_cong refl) (simp add: settle_row_def)
    with Some False show ?thesis by (simp add: settle_edges_def apply_latest_result_to_dependents_def)
  qed
qed

lemma settle_row_keys [simp]:
  "cd_work_ref (settle_row d w c) = cd_work_ref c"
  "cd_dependency_work_ref (settle_row d w c) = cd_dependency_work_ref c"
  "cd_satisfaction_policy (settle_row d w c) = cd_satisfaction_policy c"
  "cd_dependency_work_ref c \<noteq> w \<Longrightarrow> settle_row d w c = c"
  by (simp_all add: settle_row_def split: option.split)

definition fresh_row :: "db \<Rightarrow> string set \<Rightarrow> dependency_row \<Rightarrow> bool" where
  "fresh_row d X c \<longleftrightarrow>
     (cd_dependency_work_ref c \<notin> X \<longrightarrow> cd_state c = dep_state_of d (cd_dependency_work_ref c)
        \<and> (\<not> is_retired d (cd_dependency_work_ref c) \<longrightarrow> cd_result_ref c = dep_result_of d (cd_dependency_work_ref c)))
     \<and> (cd_state c = Dep_retired \<longrightarrow> is_retired d (cd_dependency_work_ref c))"

lemma fresh_deps_rows: "fresh_deps d X \<longleftrightarrow> list_all (fresh_row d X) (current_work_dependency d)"
  by (simp add: fresh_deps_def list_all_iff fresh_row_def)

lemma settle_row_fresh:
  assumes "fresh_row d X c" "is_retired d w \<or> latest_result d w \<noteq> None \<or> w \<notin> X"
  shows "fresh_row d (X - {w}) (settle_row d w c)"
proof (cases "cd_dependency_work_ref c = w")
  case False
  with assms show ?thesis by (simp add: fresh_row_def)
next
  case True
  with assms show ?thesis
    by (cases "is_retired d w"; cases "latest_result d w")
      (auto simp: fresh_row_def settle_row_def dep_state_of_def dep_result_of_def)
qed

lemma fresh_row_frames [frame_simps]:
  "fresh_row (d\<lparr>current_work := cw\<rparr>) X c = fresh_row d X c"
  "fresh_row (d\<lparr>current_work_dependency := cd\<rparr>) X c = fresh_row d X c"
  unfolding fresh_row_def frame_simps by (rule refl)+

lemma settle_edges_fresh:
  assumes "fresh_deps d X" "is_retired d w \<or> latest_result d w \<noteq> None \<or> w \<notin> X"
  shows "fresh_deps (settle_edges w d) (X - {w})"
  using assms(1) settle_row_fresh [OF _ assms(2)]
  unfolding fresh_deps_rows settle_edges_eq frame_simps by (simp add: list_all_iff frame_simps)

lemma settle_edges_works:
  assumes "fresh_works d W"
  shows "fresh_works (settle_edges w d) (W \<union> set (dependents (settle_edges w d) w))"
proof -
  let ?f = "settle_row d w"
  note f = settle_edges_eq [of w d]
  have rows: "dependency_rows (settle_edges w d) x = dependency_rows d x"
    if "x \<notin> set (dependents (settle_edges w d) w)" for x
  proof -
    have "?f c = c" if c: "c \<in> set (current_work_dependency d)" "cd_work_ref c = x" for c
    proof (rule settle_row_keys(4))
      have "?f c \<in> set (current_work_dependency (settle_edges w d))" using c(1) by (simp add: f)
      then have "cd_dependency_work_ref c = w \<Longrightarrow> x \<in> set (dependents (settle_edges w d) w)"
        using c(2) unfolding dependents_def set_remdups set_map set_filter
        by (intro image_eqI [of _ _ "?f c"]) auto
      with \<open>x \<notin> _\<close> show "cd_dependency_work_ref c \<noteq> w" by blast
    qed
    then have "filter (\<lambda>r. cd_work_ref r = x) (map ?f cs) = filter (\<lambda>r. cd_work_ref r = x) cs"
      if "set cs \<subseteq> set (current_work_dependency d)" for cs
      using that by (induction cs) auto
    then show ?thesis by (simp add: f dependency_rows_def)
  qed
  show ?thesis
    unfolding fresh_works_def
  proof (intro allI impI)
    fix x row
    assume "current_work (settle_edges w d) x = Some row"
    then have c: "current_work d x = Some row" by (simp add: f)
    have "core_of (settle_edges w d) x = core_of d x" if "x \<notin> set (dependents (settle_edges w d) w)"
      unfolding core_of_def execution_of_def columns_of_def rows [OF that] unfolding f frame_simps ..
    moreover have "latest_derive (settle_edges w d) x = latest_derive d x" unfolding f frame_simps ..
    ultimately show "latest_derive (settle_edges w d) x \<noteq> None
      \<and> (x \<notin> W \<union> set (dependents (settle_edges w d) w) \<longrightarrow>
          core_of (settle_edges w d) x = Some (work_core row))"
      using fresh_worksD [OF assms c] by auto
  qed
qed

lemma propagate_fresh:
  assumes "fresh_works d W" "fresh_deps d X" "is_retired d w \<or> latest_result d w \<noteq> None \<or> w \<notin> X"
  shows "fresh_works (propagate_to_dependents now w eid d) W"
    "fresh_deps (propagate_to_dependents now w eid d) (X - {w})"
proof -
  let ?s = "settle_edges w d"
  have "fresh_works (recompute_all now eid (dependents ?s w) ?s) (W \<union> set (dependents ?s w) - set (dependents ?s w))"
    by (rule recompute_all_fresh) (rule settle_edges_works [OF assms(1)])
  then show "fresh_works (propagate_to_dependents now w eid d) W"
    unfolding propagate_eq by (auto simp: fresh_works_def)
  obtain cw where "recompute_all now eid (dependents ?s w) ?s = ?s\<lparr>current_work := cw\<rparr>"
    using recompute_all_frame by blast
  with settle_edges_fresh [OF assms(2,3)] show "fresh_deps (propagate_to_dependents now w eid d) (X - {w})"
    unfolding propagate_eq fresh_deps_rows by (simp add: list_all_iff frame_simps)
qed

section \<open>Occurrence quarantine\<close>

definition quarantined_ids :: "db \<Rightarrow> string set" where
  "quarantined_ids d = qr_event_id ` set (quarantine d)"

lemma quarantined_iff: "quarantined d eid \<longleftrightarrow> eid \<in> quarantined_ids d"
  by (auto simp: quarantined_def quarantined_ids_def list_ex_iff)

definition keep_others :: "string \<Rightarrow> string \<Rightarrow> db \<Rightarrow> quarantine_row list" where
  "keep_others w k d = filter (\<lambda>q. \<not> (qr_work_ref q = w \<and> qr_occurrence_key q = k)) (quarantine d)"

definition add_losers :: "string \<Rightarrow> string \<Rightarrow> string \<Rightarrow> string list \<Rightarrow> quarantine_row list \<Rightarrow> quarantine_row list" where
  "add_losers w k winner losers t = foldl (\<lambda>t loser.
     if list_ex (\<lambda>q. qr_event_id q = loser) t then t
     else t @ [\<lparr>qr_event_id = loser, qr_work_ref = w, qr_occurrence_key = k, qr_first_event_id = winner\<rparr>]) t losers"

lemma requarantine_eq:
  "requarantine_occurrence w k d =
     (case consumers d w k of [] \<Rightarrow> d
      | winner # losers \<Rightarrow> d\<lparr>quarantine := add_losers w k winner losers (keep_others w k d)\<rparr>)"
  unfolding requarantine_occurrence_def add_losers_def keep_others_def Let_def ..

lemma add_losers_rows:
  "q \<in> set (add_losers w k winner losers t) \<Longrightarrow>
     q \<in> set t \<or> qr_event_id q \<in> set losers \<and> qr_work_ref q = w \<and> qr_occurrence_key q = k"
proof (induction losers arbitrary: t)
  case (Cons l ls)
  let ?t = "if list_ex (\<lambda>q. qr_event_id q = l) t then t else t @ [\<lparr>qr_event_id = l, qr_work_ref = w,
    qr_occurrence_key = k, qr_first_event_id = winner\<rparr>]"
  from Cons.prems have "q \<in> set (add_losers w k winner ls ?t)" by (simp add: add_losers_def)
  from Cons.IH [OF this] show ?case by (auto split: if_splits)
qed (simp add: add_losers_def)

lemma add_losers_ids:
  "qr_event_id ` set (add_losers w k winner losers t) = qr_event_id ` set t \<union> set losers"
proof (induction losers arbitrary: t)
  case (Cons l ls)
  let ?t = "if list_ex (\<lambda>q. qr_event_id q = l) t then t else t @ [\<lparr>qr_event_id = l, qr_work_ref = w,
    qr_occurrence_key = k, qr_first_event_id = winner\<rparr>]"
  have "add_losers w k winner (l # ls) t = add_losers w k winner ls ?t" by (simp add: add_losers_def)
  moreover have "qr_event_id ` set ?t = insert l (qr_event_id ` set t)" by (auto simp: list_ex_iff)
  ultimately show ?case using Cons.IH by simp
qed (simp add: add_losers_def)

lemma consumers_mem:
  "eid \<in> set (consumers d w k) \<longleftrightarrow> (\<exists>r x. (eid, x) \<in> set (event_result d) \<and> find_event d eid = Some r
     \<and> rr_work_ref x = w \<and> rr_occurrence_key x = Some k)"
proof
  assume "eid \<in> set (consumers d w k)"
  then obtain r x where "(r, x) \<in> set (joined d (event_result d) (\<lambda>r x. rr_work_ref x = w \<and> rr_occurrence_key x = Some k))"
    "eid = event_id r" by (auto simp: consumers_def)
  then show "\<exists>r x. (eid, x) \<in> set (event_result d) \<and> find_event d eid = Some r
     \<and> rr_work_ref x = w \<and> rr_occurrence_key x = Some k" by (auto simp: joined_mem)
next
  assume "\<exists>r x. (eid, x) \<in> set (event_result d) \<and> find_event d eid = Some r
     \<and> rr_work_ref x = w \<and> rr_occurrence_key x = Some k"
  then obtain r x where r: "(eid, x) \<in> set (event_result d)" "find_event d eid = Some r"
    "rr_work_ref x = w" "rr_occurrence_key x = Some k" by blast
  moreover have "event_id r = eid" using find_event_Some [OF r(2)] by simp
  ultimately have "(r, x) \<in> set (joined d (event_result d) (\<lambda>r x. rr_work_ref x = w \<and> rr_occurrence_key x = Some k))"
    by (simp add: joined_mem)
  with \<open>event_id r = eid\<close> show "eid \<in> set (consumers d w k)"
    unfolding consumers_def by (force simp: image_iff)
qed

lemma result_key_unique:
  assumes "facts_ok d" "(eid, x) \<in> set (event_result d)" "(eid, y) \<in> set (event_result d)"
  shows "x = y"
  using assms eq_key_imp_eq_value unfolding facts_ok_def by metis

lemma consumers_disjoint:
  assumes "facts_ok d" "eid \<in> set (consumers d w k)" "eid \<in> set (consumers d v m)"
  shows "v = w \<and> m = k"
proof -
  from assms(2,3) obtain x y where "(eid, x) \<in> set (event_result d)" "(eid, y) \<in> set (event_result d)"
    and xy: "rr_work_ref x = w" "rr_occurrence_key x = Some k" "rr_work_ref y = v" "rr_occurrence_key y = Some m"
    unfolding consumers_mem by blast
  then have "x = y" using result_key_unique [OF assms(1)] by blast
  with xy show ?thesis by auto
qed

text \<open>Every quarantined event is a consumer of the occurrence its row names.\<close>

definition quarantine_ok :: "db \<Rightarrow> bool" where
  "quarantine_ok d \<longleftrightarrow>
     (\<forall>q \<in> set (quarantine d). qr_event_id q \<in> set (consumers d (qr_work_ref q) (qr_occurrence_key q)))"

text \<open>The quarantine of one occurrence after it is settled: everything but the first consumer.\<close>

definition settled_occurrence :: "db \<Rightarrow> string \<Rightarrow> string \<Rightarrow> bool" where
  "settled_occurrence d w k \<longleftrightarrow>
     quarantined_ids d \<inter> set (consumers d w k) = set (tl (consumers d w k))"

lemma keep_others_ids:
  assumes "facts_ok d" "quarantine_ok d"
  shows "qr_event_id ` set (keep_others w k d) = quarantined_ids d - set (consumers d w k)"
proof
  show "qr_event_id ` set (keep_others w k d) \<subseteq> quarantined_ids d - set (consumers d w k)"
  proof
    fix eid
    assume "eid \<in> qr_event_id ` set (keep_others w k d)"
    then obtain q where q: "q \<in> set (quarantine d)" "\<not> (qr_work_ref q = w \<and> qr_occurrence_key q = k)"
      "eid = qr_event_id q" by (auto simp: keep_others_def)
    with assms(2) have "eid \<in> set (consumers d (qr_work_ref q) (qr_occurrence_key q))"
      by (simp add: quarantine_ok_def)
    with q(2) consumers_disjoint [OF assms(1)] have "eid \<notin> set (consumers d w k)" by blast
    with q(1,3) show "eid \<in> quarantined_ids d - set (consumers d w k)" by (simp add: quarantined_ids_def)
  qed
  show "quarantined_ids d - set (consumers d w k) \<subseteq> qr_event_id ` set (keep_others w k d)"
  proof
    fix eid
    assume a: "eid \<in> quarantined_ids d - set (consumers d w k)"
    then obtain q where q: "q \<in> set (quarantine d)" "eid = qr_event_id q" by (auto simp: quarantined_ids_def)
    with a assms(2) have "\<not> (qr_work_ref q = w \<and> qr_occurrence_key q = k)" by (auto simp: quarantine_ok_def)
    with q show "eid \<in> qr_event_id ` set (keep_others w k d)" by (auto simp: keep_others_def)
  qed
qed

lemma requarantine_ids:
  assumes "facts_ok d" "quarantine_ok d"
  shows "quarantined_ids (requarantine_occurrence w k d) =
    quarantined_ids d - set (consumers d w k) \<union> set (tl (consumers d w k))"
proof (cases "consumers d w k")
  case Nil
  then show ?thesis by (simp add: requarantine_eq)
next
  case (Cons winner losers)
  then have "quarantined_ids (requarantine_occurrence w k d) =
      qr_event_id ` set (keep_others w k d) \<union> set losers"
    by (simp add: requarantine_eq quarantined_ids_def add_losers_ids)
  with Cons keep_others_ids [OF assms] show ?thesis by simp
qed

lemma requarantine_frame: "\<exists>q. requarantine_occurrence w k d = d\<lparr>quarantine := q\<rparr>"
proof (cases "consumers d w k")
  case Nil
  then have "requarantine_occurrence w k d = d\<lparr>quarantine := quarantine d\<rparr>" by (simp add: requarantine_eq)
  then show ?thesis by blast
qed (auto simp: requarantine_eq)

lemma requarantine_consumers [simp]:
  "consumers (requarantine_occurrence w k d) v m = consumers d v m"
  using requarantine_frame [of w k d] by (auto simp: frame_simps)

lemma requarantine_ok:
  assumes "quarantine_ok d"
  shows "quarantine_ok (requarantine_occurrence w k d)"
proof (cases "consumers d w k")
  case Nil
  with assms show ?thesis by (simp add: requarantine_eq)
next
  case (Cons winner losers)
  show ?thesis
    unfolding quarantine_ok_def requarantine_consumers
  proof
    fix q
    assume "q \<in> set (quarantine (requarantine_occurrence w k d))"
    then have "q \<in> set (add_losers w k winner losers (keep_others w k d))" using Cons by (simp add: requarantine_eq)
    from add_losers_rows [OF this] consider "q \<in> set (quarantine d)"
      | "qr_event_id q \<in> set losers" "qr_work_ref q = w" "qr_occurrence_key q = k"
      by (auto simp: keep_others_def)
    then show "qr_event_id q \<in> set (consumers d (qr_work_ref q) (qr_occurrence_key q))"
      using assms Cons by cases (auto simp: quarantine_ok_def)
  qed
qed

lemma consumers_distinct:
  assumes "facts_ok d"
  shows "distinct (consumers d w k)"
proof -
  have "distinct (map fst (joined d t c))" if "distinct (map fst t)" for t :: "(string \<times> result_recorded) list" and c
    using that
  proof (induction t)
    case (Cons a t)
    obtain eid x where a: "a = (eid, x)" by force
    have "joined d (a # t) c = (case find_event d eid of Some r \<Rightarrow> if c r x then [(r, x)] else [] | None \<Rightarrow> [])
        @ joined d t c" by (simp add: joined_def a map_filter_simps split: option.split)
    moreover have "r \<notin> fst ` set (joined d t c)" if "find_event d eid = Some r" for r
    proof
      assume "r \<in> fst ` set (joined d t c)"
      then obtain y where "(r, y) \<in> set (joined d t c)" by auto
      then have "event_id r \<in> fst ` set t" by (force simp: joined_mem)
      with Cons.prems a find_event_Some [OF that] show False by simp
    qed
    ultimately show ?case using Cons by (simp split: option.split)
  qed (simp add: joined_def map_filter_simps)
  note this [of "event_result d"]
  then have "distinct (map fst (joined d (event_result d) c))" for c
    using assms by (simp add: facts_ok_def)
  moreover have "inj_on event_id (fst ` set (joined d (event_result d) c))" for c
  proof (rule inj_onI)
    fix r q
    assume "r \<in> fst ` set (joined d (event_result d) c)" "q \<in> fst ` set (joined d (event_result d) c)"
      "event_id r = event_id q"
    then show "r = q" by (auto simp: joined_mem)
  qed
  ultimately show ?thesis unfolding consumers_def
    by (simp add: distinct_map comp_inj_on image_comp)
qed

lemma requarantine_settles:
  assumes "facts_ok d" "quarantine_ok d"
  shows "settled_occurrence (requarantine_occurrence w k d) w k"
    and "settled_occurrence d v m \<Longrightarrow> settled_occurrence (requarantine_occurrence w k d) v m"
proof -
  have tl: "set (tl xs) \<subseteq> set xs" for xs :: "string list" by (cases xs) auto
  show "settled_occurrence (requarantine_occurrence w k d) w k"
    unfolding settled_occurrence_def requarantine_ids [OF assms] requarantine_consumers
    using tl by blast
  assume s: "settled_occurrence d v m"
  show "settled_occurrence (requarantine_occurrence w k d) v m"
  proof (cases "v = w \<and> m = k")
    case True
    with \<open>settled_occurrence (requarantine_occurrence w k d) w k\<close> show ?thesis by simp
  next
    case False
    then have "set (consumers d w k) \<inter> set (consumers d v m) = {}"
      using consumers_disjoint [OF assms(1)] by blast
    with s tl [of "consumers d w k"] show ?thesis
      unfolding settled_occurrence_def requarantine_ids [OF assms] requarantine_consumers by blast
  qed
qed

text \<open>Settling one occurrence of \<open>w\<close> leaves the latest result of every other work alone.\<close>

lemma requarantine_latest:
  assumes "facts_ok d" "quarantine_ok d" "v \<noteq> w"
  shows "latest_result (requarantine_occurrence w k d) v = latest_result d v"
proof -
  obtain q where q: "requarantine_occurrence w k d = d\<lparr>quarantine := q\<rparr>" using requarantine_frame by blast
  let ?d = "requarantine_occurrence w k d"
  have tl: "set (tl xs) \<subseteq> set xs" for xs :: "string list" by (cases xs) auto
  have "joined ?d (event_result ?d) (\<lambda>r x. rr_work_ref x = v \<and> \<not> quarantined ?d (event_id r))
      = joined d (event_result d) (\<lambda>r x. rr_work_ref x = v \<and> \<not> quarantined ?d (event_id r))"
    unfolding q by (simp add: joined_def find_event_def)
  also have "\<dots> = joined d (event_result d) (\<lambda>r x. rr_work_ref x = v \<and> \<not> quarantined d (event_id r))"
  proof (rule joined_cong)
    fix eid r x
    assume r: "(eid, x) \<in> set (event_result d)" "find_event d eid = Some r"
    have "quarantined ?d (event_id r) = quarantined d (event_id r)" if "rr_work_ref x = v"
    proof -
      have "event_id r = eid" using find_event_Some [OF r(2)] by simp
      moreover have "eid \<notin> set (consumers d w k)"
        using r(1) result_key_unique [OF assms(1)] that assms(3) unfolding consumers_mem by blast
      ultimately show ?thesis
        using tl [of "consumers d w k"] unfolding quarantined_iff requarantine_ids [OF assms(1,2)] by blast
    qed
    then show "(rr_work_ref x = v \<and> \<not> quarantined ?d (event_id r)) = (rr_work_ref x = v \<and> \<not> quarantined d (event_id r))"
      by blast
  qed
  finally show ?thesis by (simp add: latest_result_def latest_def)
qed

text \<open>A work with a result that counts has a latest one.\<close>

lemma latest_result_exists:
  assumes "facts_ok d" "quarantine_ok d" and x: "(eid, x) \<in> set (event_result d)" "find_event d eid = Some r"
    and settled: "\<And>k. rr_occurrence_key x = Some k \<Longrightarrow> settled_occurrence d (rr_work_ref x) k"
  shows "latest_result d (rr_work_ref x) \<noteq> None"
proof -
  have "\<exists>e y. (e, y) \<in> set (event_result d) \<and> find_event d e \<noteq> None \<and> rr_work_ref y = rr_work_ref x
    \<and> e \<notin> quarantined_ids d"
  proof (cases "rr_occurrence_key x")
    case None
    have "eid \<notin> quarantined_ids d"
    proof
      assume "eid \<in> quarantined_ids d"
      then obtain w k where "eid \<in> set (consumers d w k)"
        using assms(2) by (auto simp: quarantine_ok_def quarantined_ids_def)
      then obtain y where "(eid, y) \<in> set (event_result d)" "rr_occurrence_key y = Some k"
        unfolding consumers_mem by blast
      with result_key_unique [OF assms(1) _ x(1)] None show False by fastforce
    qed
    with x show ?thesis by blast
  next
    case (Some k)
    let ?cs = "consumers d (rr_work_ref x) k"
    from x Some have "eid \<in> set ?cs" unfolding consumers_mem by blast
    then obtain c cs where cs: "?cs = c # cs" by (cases ?cs) auto
    then have "c \<notin> set cs" using consumers_distinct [OF assms(1), of "rr_work_ref x" k] by simp
    with settled [OF Some] cs have "c \<notin> quarantined_ids d"
      unfolding settled_occurrence_def by (metis IntI list.sel(3) list.set_intros(1))
    moreover have "c \<in> set ?cs" by (simp add: cs)
    ultimately show ?thesis unfolding consumers_mem by blast
  qed
  then obtain e y q where y: "(e, y) \<in> set (event_result d)" "find_event d e = Some q"
    "rr_work_ref y = rr_work_ref x" "e \<notin> quarantined_ids d" by blast
  moreover have "event_id q = e" using find_event_Some [OF y(2)] by simp
  ultimately have "(q, y) \<in> set (joined d (event_result d)
      (\<lambda>r z. rr_work_ref z = rr_work_ref x \<and> \<not> quarantined d (event_id r)))"
    by (simp add: joined_mem quarantined_iff)
  from latest_Some_if [OF this] show ?thesis by (simp add: latest_result_def)
qed

section \<open>The plan row\<close>

type_synonym plan_core = "string \<times> string option \<times> string option \<times> lifecycle \<times> end_reason option"

definition plan_core :: "plan_row \<Rightarrow> plan_core" where
  "plan_core r = (cp_project_ref r, cp_objective r, cp_rationale r, cp_lifecycle r, cp_end_reason r)"

definition plan_core_of :: "db \<Rightarrow> string \<Rightarrow> plan_core option" where
  "plan_core_of d p =
     Option.bind (latest_plan_created d p) (\<lambda>c. Option.bind (latest_lifecycle d p) (\<lambda>l.
       map_option (\<lambda>lc. (ep_project_ref c, ep_objective c, ep_rationale c, lc, ep_end_reason l))
         (ep_lifecycle l)))"

definition fresh_plans :: "db \<Rightarrow> string set \<Rightarrow> bool" where
  "fresh_plans d P \<longleftrightarrow> (\<forall>p row. current_plans d p = Some row \<longrightarrow>
     latest_plan_created d p \<noteq> None \<and> (p \<notin> P \<longrightarrow> plan_core_of d p = Some (plan_core row)))"

lemma fresh_plansD:
  assumes "fresh_plans d P" "current_plans d p = Some row"
  shows "latest_plan_created d p \<noteq> None" "p \<notin> P \<Longrightarrow> plan_core_of d p = Some (plan_core row)"
  using assms unfolding fresh_plans_def by blast+

lemma plan_frames [frame_simps]:
  "latest_plan_created (d\<lparr>current_plans := cp\<rparr>) p = latest_plan_created d p"
  "latest_lifecycle (d\<lparr>current_plans := cp\<rparr>) p = latest_lifecycle d p"
  "plan_core_of (d\<lparr>current_plans := cp\<rparr>) p = plan_core_of d p"
  by (simp_all add: plan_core_of_def latest_plan_created_def latest_lifecycle_def latest_def joined_def
      find_event_def)

lemma recompute_plan_cases:
  assumes "recompute_plan_state p eid d = Inr d'"
  shows "latest_plan_created d p = None \<and> d' = d
    \<or> (\<exists>row. d' = d\<lparr>current_plans := (current_plans d)(p \<mapsto> row)\<rparr>
         \<and> plan_core_of d p = Some (plan_core row) \<and> latest_plan_created d p \<noteq> None)"
  using assms
  by (cases "latest_plan_created d p"; cases "latest_lifecycle d p")
    (auto simp: recompute_plan_state_def plan_core_of_def plan_core_def split: option.splits)

lemma recompute_plan_fresh:
  assumes "fresh_plans d P" "recompute_plan_state p eid d = Inr d'"
  shows "fresh_plans d' (P - {p})"
proof -
  from recompute_plan_cases [OF assms(2)] consider
    (none) "latest_plan_created d p = None" "d' = d"
    | (some) row where "d' = d\<lparr>current_plans := (current_plans d)(p \<mapsto> row)\<rparr>"
        "plan_core_of d p = Some (plan_core row)" "latest_plan_created d p \<noteq> None" by metis
  then show ?thesis
  proof cases
    case none
    then have "current_plans d p = None" using fresh_plansD(1) [OF assms(1)] by (cases "current_plans d p") auto
    then show ?thesis
      unfolding none(2) fresh_plans_def using fresh_plansD [OF assms(1)]
      by (metis Diff_iff option.distinct(1) singletonD)
  next
    case some
    show ?thesis
      unfolding some(1) fresh_plans_def frame_simps
    proof (intro allI impI)
      fix v row'
      assume v: "current_plans (d\<lparr>current_plans := (current_plans d)(p \<mapsto> row)\<rparr>) v = Some row'"
      show "latest_plan_created d v \<noteq> None \<and> (v \<notin> P - {p} \<longrightarrow> plan_core_of d v = Some (plan_core row'))"
      proof (cases "v = p")
        case True
        with v some show ?thesis by simp
      next
        case False
        then have "current_plans d v = Some row'" using v by simp
        from fresh_plansD [OF assms(1) this] False show ?thesis by blast
      qed
    qed
  qed
qed

section \<open>What the projections depend on\<close>

definition same_facts :: "db \<Rightarrow> db \<Rightarrow> bool" where
  "same_facts d d' \<longleftrightarrow> truncate_projections d = truncate_projections d'"

lemma same_facts_refl [simp]: "same_facts d d"
  by (simp add: same_facts_def)

lemma same_facts_trans: "same_facts a b \<Longrightarrow> same_facts b c \<Longrightarrow> same_facts a c"
  by (simp add: same_facts_def)

lemma truncate_frames [simp]:
  "truncate_projections (d\<lparr>current_plans := cp\<rparr>) = truncate_projections d"
  "truncate_projections (d\<lparr>current_work := cw\<rparr>) = truncate_projections d"
  "truncate_projections (d\<lparr>current_work_dependency := cd\<rparr>) = truncate_projections d"
  "truncate_projections (d\<lparr>event_links := el\<rparr>) = truncate_projections d"
  "truncate_projections (d\<lparr>current_claim_standing := st\<rparr>) = truncate_projections d"
  "truncate_projections (d\<lparr>quarantine := q\<rparr>) = truncate_projections d"
  by (simp_all add: truncate_projections_def)

lemma same_factsD:
  assumes "same_facts d d'"
  shows "events d = events d'" "event_work d = event_work d'" "event_result d = event_result d'"
    "event_plan d = event_plan d'" "event_work_retired d = event_work_retired d'"
    "event_work_dependency d = event_work_dependency d'" "event_claim d = event_claim d'"
    "event_observation d = event_observation d'" "event_link d = event_link d'"
proof -
  have "events (truncate_projections d) = events (truncate_projections d')"
    "event_work (truncate_projections d) = event_work (truncate_projections d')"
    "event_result (truncate_projections d) = event_result (truncate_projections d')"
    "event_plan (truncate_projections d) = event_plan (truncate_projections d')"
    "event_work_retired (truncate_projections d) = event_work_retired (truncate_projections d')"
    "event_work_dependency (truncate_projections d) = event_work_dependency (truncate_projections d')"
    "event_claim (truncate_projections d) = event_claim (truncate_projections d')"
    "event_observation (truncate_projections d) = event_observation (truncate_projections d')"
    "event_link (truncate_projections d) = event_link (truncate_projections d')"
    using assms unfolding same_facts_def by presburger+
  then show "events d = events d'" "event_work d = event_work d'" "event_result d = event_result d'"
    "event_plan d = event_plan d'" "event_work_retired d = event_work_retired d'"
    "event_work_dependency d = event_work_dependency d'" "event_claim d = event_claim d'"
    "event_observation d = event_observation d'" "event_link d = event_link d'"
    by (simp_all add: truncate_projections_def)
qed

lemma query_facts:
  assumes "same_facts d d'"
  shows "find_event d eid = find_event d' eid" "latest_derive d w = latest_derive d' w"
    "consumers d w k = consumers d' w k" "latest_plan_created d p = latest_plan_created d' p"
    "latest_lifecycle d p = latest_lifecycle d' p" "plan_core_of d p = plan_core_of d' p"
    "is_retired d w = is_retired d' w" "facts_ok d = facts_ok d'"
  unfolding find_event_def latest_derive_def consumers_def latest_plan_created_def latest_lifecycle_def
    plan_core_of_def is_retired_def facts_ok_def latest_def joined_def same_factsD [OF assms]
  by (rule refl)+

lemma quarantine_facts:
  assumes "same_facts d d'" "quarantine d = quarantine d'"
  shows "latest_result d w = latest_result d' w" "quarantine_ok d = quarantine_ok d'"
    "settled_occurrence d w k = settled_occurrence d' w k" "dep_state_of d w = dep_state_of d' w"
    "fresh_row d X c = fresh_row d' X c"
proof -
  show r: "latest_result d w = latest_result d' w" for w
    unfolding latest_result_def latest_def joined_def find_event_def quarantined_def
      same_factsD [OF assms(1)] assms(2) ..
  show "quarantine_ok d = quarantine_ok d'" "settled_occurrence d w k = settled_occurrence d' w k"
    unfolding quarantine_ok_def settled_occurrence_def quarantined_ids_def query_facts [OF assms(1)] assms(2)
    by (rule refl)+
  show ds: "dep_state_of d w = dep_state_of d' w" for w
    unfolding dep_state_of_def r query_facts [OF assms(1)] ..
  show "fresh_row d X c = fresh_row d' X c"
    unfolding fresh_row_def dep_result_of_def r ds query_facts [OF assms(1)] ..
qed

lemma core_facts:
  assumes "same_facts d d'" "quarantine d = quarantine d'" "dependency_rows d w = dependency_rows d' w"
  shows "core_of d w = core_of d' w"
  unfolding core_of_def execution_of_def columns_of_def query_facts [OF assms(1)] quarantine_facts [OF assms(1,2)]
    assms(3) ..

section \<open>The invariant\<close>

text \<open>
  \<open>fresh d W X P\<close>: the rows agree with the facts, except those of the works in \<open>W\<close>, the edges
  into the works in \<open>X\<close> and the plans in \<open>P\<close>.  \<open>complete d W D P K\<close>: the rows the facts call for
  are there and the occurrences are settled, except for the works in \<open>W\<close>, the edges in \<open>D\<close>, the
  plans in \<open>P\<close> and the occurrences in \<open>K\<close>.
\<close>

definition fresh :: "db \<Rightarrow> string set \<Rightarrow> string set \<Rightarrow> string set \<Rightarrow> bool" where
  "fresh d W X P \<longleftrightarrow> facts_ok d \<and> quarantine_ok d \<and> fresh_works d W \<and> fresh_deps d X \<and> fresh_plans d P"

definition has_edge :: "db \<Rightarrow> string \<Rightarrow> string \<Rightarrow> bool" where
  "has_edge d w v \<longleftrightarrow> (\<exists>c \<in> set (current_work_dependency d). cd_work_ref c = w \<and> cd_dependency_work_ref c = v)"

definition complete ::
    "db \<Rightarrow> string set \<Rightarrow> (string \<times> string) set \<Rightarrow> string set \<Rightarrow> (string \<times> string) set \<Rightarrow> bool" where
  "complete d W D P K \<longleftrightarrow>
     (\<forall>w. w \<notin> W \<longrightarrow> latest_derive d w \<noteq> None \<longrightarrow> current_work d w \<noteq> None)
     \<and> (\<forall>(eid, x) \<in> set (event_work_dependency d).
          (dd_work_ref x, dd_dependency_work_ref x) \<notin> D \<longrightarrow> has_edge d (dd_work_ref x) (dd_dependency_work_ref x))
     \<and> (\<forall>c \<in> set (current_work_dependency d). \<exists>(eid, x) \<in> set (event_work_dependency d).
          dd_work_ref x = cd_work_ref c \<and> dd_dependency_work_ref x = cd_dependency_work_ref c
          \<and> dd_satisfaction_policy x = cd_satisfaction_policy c)
     \<and> distinct (map (\<lambda>c. (cd_work_ref c, cd_dependency_work_ref c)) (current_work_dependency d))
     \<and> (\<forall>p. p \<notin> P \<longrightarrow> latest_plan_created d p \<noteq> None \<longrightarrow> current_plans d p \<noteq> None)
     \<and> (\<forall>w k. (w, k) \<notin> K \<longrightarrow> settled_occurrence d w k)"

text \<open>Tables that neither reads.\<close>

lemma fresh_cong:
  assumes "same_facts d d'" "quarantine d = quarantine d'" "current_work d = current_work d'"
    "current_work_dependency d = current_work_dependency d'" "current_plans d = current_plans d'"
  shows "fresh d W X P = fresh d' W X P" "complete d W D P K = complete d' W D P K"
proof -
  have "dependency_rows d w = dependency_rows d' w" for w by (simp add: dependency_rows_def assms(4))
  note core = core_facts [OF assms(1,2) this]
  show "fresh d W X P = fresh d' W X P"
    unfolding fresh_def fresh_works_def fresh_deps_rows fresh_plans_def core query_facts [OF assms(1)]
      quarantine_facts(2) [OF assms(1,2)] assms(3-5) list_all_iff quarantine_facts(5) [OF assms(1,2)] ..
  show "complete d W D P K = complete d' W D P K"
    unfolding complete_def has_edge_def query_facts [OF assms(1)] quarantine_facts [OF assms(1,2)] assms(3-5)
      same_factsD [OF assms(1)] ..
qed

section \<open>A dependency is declared\<close>

definition declare_edges :: "work_dependency_declared \<Rightarrow> db \<Rightarrow> db" where
  "declare_edges p d =
     (let d1 = declare_dependency_row p d
      in if is_retired d1 (dd_dependency_work_ref p)
         then retire_edges (\<lambda>c. cd_work_ref c = dd_work_ref p
                \<and> cd_dependency_work_ref c = dd_dependency_work_ref p) d1
         else apply_latest_result_to_dependents (dd_dependency_work_ref p) (Some (dd_work_ref p)) d1)"

definition declared_row :: "work_dependency_declared \<Rightarrow> dependency_row" where
  "declared_row p = \<lparr>cd_work_ref = dd_work_ref p, cd_dependency_work_ref = dd_dependency_work_ref p,
     cd_satisfaction_policy = dd_satisfaction_policy p, cd_state = Dep_pending, cd_result_ref = None\<rparr>"

definition declared_rows :: "work_dependency_declared \<Rightarrow> db \<Rightarrow> dependency_row list" where
  "declared_rows p d = (if has_edge d (dd_work_ref p) (dd_dependency_work_ref p)
     then current_work_dependency d else current_work_dependency d @ [declared_row p])"

lemma declare_dependency_row_eq:
  "declare_dependency_row p d = d\<lparr>current_work_dependency := declared_rows p d\<rparr>"
proof (cases "has_edge d (dd_work_ref p) (dd_dependency_work_ref p)")
  case True
  then have "list_ex (\<lambda>c. cd_work_ref c = dd_work_ref p
     \<and> cd_dependency_work_ref c = dd_dependency_work_ref p) (current_work_dependency d)"
    by (auto simp: has_edge_def list_ex_iff)
  with True show ?thesis by (simp add: declare_dependency_row_def declared_rows_def)
next
  case False
  then have "\<not> list_ex (\<lambda>c. cd_work_ref c = dd_work_ref p
     \<and> cd_dependency_work_ref c = dd_dependency_work_ref p) (current_work_dependency d)"
    by (auto simp: has_edge_def list_ex_iff)
  with False show ?thesis
    unfolding declare_dependency_row_def declared_rows_def declared_row_def by simp
qed

definition settle_own :: "db \<Rightarrow> work_dependency_declared \<Rightarrow> dependency_row \<Rightarrow> dependency_row" where
  "settle_own d p c = (if cd_work_ref c = dd_work_ref p then settle_row d (dd_dependency_work_ref p) c else c)"

lemma declare_edges_eq:
  "declare_edges p d = d\<lparr>current_work_dependency := map (settle_own d p) (declared_rows p d)\<rparr>"
proof (cases "is_retired d (dd_dependency_work_ref p)")
  case True
  have "map (settle_own d p) cs = map (\<lambda>c. if cd_work_ref c = dd_work_ref p
      \<and> cd_dependency_work_ref c = dd_dependency_work_ref p then c\<lparr>cd_state := Dep_retired\<rparr> else c) cs" for cs
    using True by (intro map_cong refl) (simp add: settle_own_def settle_row_def)
  with True show ?thesis
    unfolding declare_edges_def Let_def declare_dependency_row_eq retire_edges_def
    by (simp add: frame_simps del: map_map list.map_comp)
next
  case False
  show ?thesis
  proof (cases "latest_result d (dd_dependency_work_ref p)")
    case None
    have "map (settle_own d p) cs = cs" for cs
      using None False by (intro map_idI) (simp add: settle_own_def settle_row_def)
    with None False show ?thesis
      unfolding declare_edges_def Let_def declare_dependency_row_eq apply_latest_result_to_dependents_def
      by (simp add: frame_simps)
  next
    case (Some r)
    have "map (settle_own d p) cs = map (\<lambda>c.
              if cd_dependency_work_ref c = dd_dependency_work_ref p \<and> cd_state c \<noteq> Dep_retired
                 \<and> cd_work_ref c = dd_work_ref p
              then c\<lparr>cd_state := dep_state_of_outcome (rr_outcome r), cd_result_ref := Some (rr_result_ref r)\<rparr>
              else c) cs" for cs
      using Some False by (intro map_cong refl) (simp add: settle_own_def settle_row_def)
    with Some False show ?thesis
      unfolding declare_edges_def Let_def declare_dependency_row_eq apply_latest_result_to_dependents_def
      by (simp add: frame_simps)
  qed
qed

lemma settle_own_keys [simp]:
  "cd_work_ref (settle_own d p c) = cd_work_ref c"
  "cd_dependency_work_ref (settle_own d p c) = cd_dependency_work_ref c"
  "cd_satisfaction_policy (settle_own d p c) = cd_satisfaction_policy c"
  by (simp_all add: settle_own_def)

lemma settle_row_keeps_fresh:
  assumes "fresh_row d X c"
  shows "fresh_row d X (settle_row d w c)"
proof (cases "cd_dependency_work_ref c = w")
  case False
  with assms show ?thesis by simp
next
  case w: True
  show ?thesis
  proof (cases "\<not> is_retired d w \<and> latest_result d w = None")
    case True
    then have "settle_row d w c = c" by (simp add: settle_row_def)
    with assms show ?thesis by simp
  next
    case False
    from assms have "fresh_row d (X \<union> {w}) c" by (simp add: fresh_row_def)
    then have "fresh_row d (X \<union> {w} - {w}) (settle_row d w c)"
      using False by (intro settle_row_fresh) auto
    then show ?thesis by (simp add: fresh_row_def)
  qed
qed

lemma settle_declared_fresh: "fresh_row d X (settle_own d p (declared_row p))"
  by (cases "is_retired d (dd_dependency_work_ref p)"; cases "latest_result d (dd_dependency_work_ref p)")
    (auto simp: fresh_row_def settle_own_def settle_row_def dep_state_of_def dep_result_of_def declared_row_def)

lemma declare_edges_fresh:
  assumes "fresh_deps d X"
  shows "fresh_deps (declare_edges p d) X"
proof -
  have "fresh_row d X (settle_own d p c)" if "c \<in> set (declared_rows p d)" for c
  proof (cases "c = declared_row p")
    case True
    then show ?thesis by (simp add: settle_declared_fresh)
  next
    case False
    with that assms have "fresh_row d X c"
      by (auto simp: declared_rows_def fresh_deps_rows list_all_iff split: if_splits)
    then show ?thesis by (simp add: settle_own_def settle_row_keeps_fresh)
  qed
  then show ?thesis by (simp add: fresh_deps_rows declare_edges_eq list_all_iff frame_simps)
qed

lemma declare_edges_works:
  assumes "fresh_works d W"
  shows "fresh_works (declare_edges p d) (insert (dd_work_ref p) W)"
  unfolding fresh_works_def
proof (intro allI impI)
  fix x row
  assume "current_work (declare_edges p d) x = Some row"
  then have c: "current_work d x = Some row" by (simp add: declare_edges_eq)
  have s: "same_facts d (declare_edges p d)" "quarantine d = quarantine (declare_edges p d)"
    by (simp_all add: declare_edges_eq same_facts_def)
  have "dependency_rows d x = dependency_rows (declare_edges p d) x" if x: "x \<noteq> dd_work_ref p"
  proof -
    have "filter (\<lambda>r. cd_work_ref r = x) (map (settle_own d p) cs) = filter (\<lambda>r. cd_work_ref r = x) cs" for cs
      using x by (induction cs) (auto simp: settle_own_def)
    moreover have "filter (\<lambda>r. cd_work_ref r = x) (declared_rows p d)
        = filter (\<lambda>r. cd_work_ref r = x) (current_work_dependency d)"
      using x by (simp add: declared_rows_def declared_row_def)
    ultimately show ?thesis by (simp add: dependency_rows_def declare_edges_eq)
  qed
  then have "core_of d x = core_of (declare_edges p d) x" if "x \<noteq> dd_work_ref p"
    using core_facts [OF s] that by blast
  then show "latest_derive (declare_edges p d) x \<noteq> None
      \<and> (x \<notin> insert (dd_work_ref p) W \<longrightarrow> core_of (declare_edges p d) x = Some (work_core row))"
    using fresh_worksD [OF assms c] query_facts(2) [OF s(1), of x] by (metis insert_iff)
qed

section \<open>What one event touches\<close>

fun touched_works :: "payload \<Rightarrow> string set" where
  "touched_works (WorkDerived p) = {wd_work_ref p}"
| "touched_works (ResultRecorded p) = {rr_work_ref p}"
| "touched_works (WorkRetired p) = {wr_work_ref p}"
| "touched_works _ = {}"

fun touched_sources :: "payload \<Rightarrow> string set" where
  "touched_sources (ResultRecorded p) = {rr_work_ref p}"
| "touched_sources (WorkRetired p) = {wr_work_ref p}"
| "touched_sources _ = {}"

fun touched_plans :: "payload \<Rightarrow> string set" where
  "touched_plans (PlanCreated p) = {pc_plan_ref p}"
| "touched_plans (PlanLifecycleChanged p) = {pl_plan_ref p}"
| "touched_plans _ = {}"

fun touched_edges :: "payload \<Rightarrow> (string \<times> string) set" where
  "touched_edges (WorkDependencyDeclared p) = {(dd_work_ref p, dd_dependency_work_ref p)}"
| "touched_edges _ = {}"

fun touched_occurrences :: "payload \<Rightarrow> (string \<times> string) set" where
  "touched_occurrences (ResultRecorded p) =
     (case rr_occurrence_key p of Some k \<Rightarrow> {(rr_work_ref p, k)} | None \<Rightarrow> {})"
| "touched_occurrences _ = {}"

text \<open>The fact of the event is in the tables.\<close>

fun held :: "db \<Rightarrow> string \<Rightarrow> payload \<Rightarrow> bool" where
  "held d eid (WorkDependencyDeclared p) \<longleftrightarrow> (eid, p) \<in> set (event_work_dependency d)"
| "held d eid (ResultRecorded p) \<longleftrightarrow> (eid, p) \<in> set (event_result d) \<and> find_event d eid \<noteq> None"
| "held d eid (WorkRetired p) \<longleftrightarrow> (eid, p) \<in> set (event_work_retired d)"
| "held d eid _ \<longleftrightarrow> True"

section \<open>One reduction\<close>

text \<open>A result: first the occurrence is settled.\<close>

definition settle_result :: "result_recorded \<Rightarrow> db \<Rightarrow> db" where
  "settle_result p d = (case rr_occurrence_key p of
     Some k \<Rightarrow> requarantine_occurrence (rr_work_ref p) k d | None \<Rightarrow> d)"

lemma settle_result_frame: "\<exists>q. settle_result p d = d\<lparr>quarantine := q\<rparr>"
proof (cases "rr_occurrence_key p")
  case None
  then have "settle_result p d = d\<lparr>quarantine := quarantine d\<rparr>" by (simp add: settle_result_def)
  then show ?thesis by blast
qed (simp add: settle_result_def requarantine_frame)

lemma settle_result_facts: "same_facts d (settle_result p d)"
  using settle_result_frame [of p d] by (auto simp: same_facts_def)

lemma settle_result_latest:
  assumes "facts_ok d" "quarantine_ok d" "v \<noteq> rr_work_ref p"
  shows "latest_result (settle_result p d) v = latest_result d v"
  using requarantine_latest [OF assms] by (simp add: settle_result_def split: option.split)

lemma settle_result_fresh:
  assumes "fresh d W X P"
  shows "fresh (settle_result p d) (insert (rr_work_ref p) W) (insert (rr_work_ref p) X) P"
proof -
  let ?d = "settle_result p d" and ?w = "rr_work_ref p"
  note f = assms [unfolded fresh_def]
  obtain q where q: "?d = d\<lparr>quarantine := q\<rparr>" using settle_result_frame by blast
  note facts = query_facts [OF settle_result_facts [of d p]]
  have rows: "dependency_rows ?d v = dependency_rows d v" for v by (simp add: q frame_simps)
  have latest: "latest_result ?d v = latest_result d v" if "v \<noteq> ?w" for v
    using settle_result_latest [OF _ _ that] f by blast
  have core: "core_of ?d v = core_of d v" if "v \<noteq> ?w" for v
    unfolding core_of_def execution_of_def columns_of_def rows latest [OF that] facts ..
  have state: "dep_state_of ?d v = dep_state_of d v" if "v \<noteq> ?w" for v
    unfolding dep_state_of_def latest [OF that] facts ..
  have res: "dep_result_of ?d v = dep_result_of d v" if "v \<noteq> ?w" for v
    unfolding dep_result_of_def latest [OF that] ..
  have "fresh_works ?d (insert ?w W)"
    unfolding fresh_works_def
  proof (intro allI impI)
    fix v row
    assume "current_work ?d v = Some row"
    then have c: "current_work d v = Some row" by (simp add: q)
    show "latest_derive ?d v \<noteq> None \<and> (v \<notin> insert ?w W \<longrightarrow> core_of ?d v = Some (work_core row))"
      using fresh_worksD [of d W, OF _ c] core [of v] facts(2) [of v] f by (metis insert_iff)
  qed
  moreover have "fresh_deps ?d (insert ?w X)"
  proof -
    have "fresh_row ?d (insert ?w X) c" if "fresh_row d X c" for c
      using that state [of "cd_dependency_work_ref c"] res [of "cd_dependency_work_ref c"]
        facts(7) [of "cd_dependency_work_ref c"]
      unfolding fresh_row_def by (metis insert_iff)
    with f show ?thesis unfolding fresh_deps_rows by (simp add: q list_all_iff)
  qed
  moreover have "quarantine_ok ?d"
    using f requarantine_ok by (simp add: settle_result_def split: option.split)
  moreover have "fresh_plans ?d P"
    using f unfolding fresh_plans_def facts(4) [symmetric] facts(6) [symmetric] by (simp add: q)
  ultimately show ?thesis using f facts(8) by (simp add: fresh_def)
qed

lemma settle_result_settles:
  assumes "facts_ok d" "quarantine_ok d"
  shows "settled_occurrence d w k \<Longrightarrow> settled_occurrence (settle_result p d) w k"
    and "(w, k) \<in> touched_occurrences (ResultRecorded p) \<Longrightarrow> settled_occurrence (settle_result p d) w k"
  using requarantine_settles [OF assms] by (auto simp: settle_result_def split: option.splits)

lemma settle_result_complete:
  assumes "complete d W D P K" "fresh d V X Q"
  shows "complete (settle_result p d) W D P (K - touched_occurrences (ResultRecorded p))"
proof -
  let ?d = "settle_result p d"
  obtain q where q: "?d = d\<lparr>quarantine := q\<rparr>" using settle_result_frame by blast
  note facts = query_facts [OF settle_result_facts [of d p]] same_factsD [OF settle_result_facts [of d p]]
  have tables: "current_work ?d = current_work d" "current_plans ?d = current_plans d"
    "current_work_dependency ?d = current_work_dependency d" by (simp_all add: q)
  have "settled_occurrence ?d w k" if "(w, k) \<notin> K - touched_occurrences (ResultRecorded p)" for w k
    using that settle_result_settles [of d] assms unfolding complete_def fresh_def by blast
  with assms(1) show ?thesis
    unfolding complete_def has_edge_def tables facts(2,4,14) [symmetric] by blast
qed

text \<open>The work row and the propagation.\<close>

lemma recompute_work_facts:
  "same_facts d (recompute_work_state now w eid d)" "quarantine (recompute_work_state now w eid d) = quarantine d"
  "current_work_dependency (recompute_work_state now w eid d) = current_work_dependency d"
  "current_plans (recompute_work_state now w eid d) = current_plans d"
  using recompute_work_frame [of now w eid d] by (auto simp: same_facts_def)

lemma recompute_work_keeps:
  assumes "fresh d W X P"
  shows "fresh (recompute_work_state now w eid d) (W - {w}) X P"
proof -
  let ?d = "recompute_work_state now w eid d"
  note s = recompute_work_facts [where d = d and now = now and w = w and eid = eid]
  note f = assms [unfolded fresh_def]
  have "quarantine d = quarantine ?d" using s(2) by simp
  note q = quarantine_facts [OF s(1) this] query_facts [OF s(1)]
  have "fresh_works ?d (W - {w})" using f by (intro recompute_work_fresh) simp
  with f show ?thesis
    unfolding fresh_def fresh_deps_rows fresh_plans_def s(3,4) q(2,9,11,13) [symmetric] list_all_iff
    using q(5) by blast
qed

lemma recompute_work_complete:
  assumes "complete d W D P K"
  shows "complete (recompute_work_state now w eid d) (W - {w}) D P K"
proof -
  let ?d = "recompute_work_state now w eid d"
  note s = recompute_work_facts [where d = d and now = now and w = w and eid = eid]
  have "quarantine d = quarantine ?d" using s(2) by simp
  note q = quarantine_facts [OF s(1) this] query_facts [OF s(1)]
  obtain cw where cw: "?d = d\<lparr>current_work := cw\<rparr>" "\<forall>v. current_work d v \<noteq> None \<longrightarrow> cw v \<noteq> None"
    "latest_derive d w \<noteq> None \<longrightarrow> cw w \<noteq> None" using recompute_work_frame by blast
  have "current_work ?d v \<noteq> None" if "v \<notin> W - {w}" "latest_derive d v \<noteq> None" for v
    using assms that cw unfolding complete_def by (cases "v = w") auto
  with assms show ?thesis
    unfolding complete_def has_edge_def s(3,4) q(3,7,9) [symmetric] same_factsD [OF s(1), symmetric] by blast
qed

lemma recompute_all_keeps:
  assumes "fresh d W X P" "complete d V D P' K"
  shows "fresh (recompute_all now eid ws d) (W - set ws) X P" "complete (recompute_all now eid ws d) V D P' K"
    "same_facts d (recompute_all now eid ws d)" "quarantine (recompute_all now eid ws d) = quarantine d"
proof -
  have "fresh (recompute_all now eid ws d) (W - set ws) X P \<and> complete (recompute_all now eid ws d) V D P' K
    \<and> same_facts d (recompute_all now eid ws d) \<and> quarantine (recompute_all now eid ws d) = quarantine d"
    using assms
  proof (induction ws arbitrary: d W)
    case (Cons w ws)
    let ?d = "recompute_work_state now w eid d"
    note s = recompute_work_facts [where d = d and now = now and w = w and eid = eid]
    have "complete ?d V D P' K"
      using recompute_work_complete [OF Cons.prems(2)] unfolding complete_def by blast
    from Cons.IH [OF recompute_work_keeps [OF Cons.prems(1)] this] s(1,2)
    show ?case
      by (auto simp: recompute_all_def Diff_insert2 [symmetric] Diff_insert [symmetric] dest: same_facts_trans)
  qed (simp add: recompute_all_def)
  then show "fresh (recompute_all now eid ws d) (W - set ws) X P" "complete (recompute_all now eid ws d) V D P' K"
    "same_facts d (recompute_all now eid ws d)" "quarantine (recompute_all now eid ws d) = quarantine d" by blast+
qed

lemma settle_edges_facts:
  "same_facts d (settle_edges w d)" "quarantine (settle_edges w d) = quarantine d"
  "current_work (settle_edges w d) = current_work d" "current_plans (settle_edges w d) = current_plans d"
  by (simp_all add: settle_edges_eq same_facts_def)

lemma complete_edges:
  assumes "complete d W D P K" "same_facts d d'" "quarantine d' = quarantine d"
    "current_work d' = current_work d" "current_plans d' = current_plans d"
    "map (\<lambda>c. (cd_work_ref c, cd_dependency_work_ref c, cd_satisfaction_policy c)) (current_work_dependency d')
      = map (\<lambda>c. (cd_work_ref c, cd_dependency_work_ref c, cd_satisfaction_policy c)) (current_work_dependency d)"
  shows "complete d' W D P K"
proof -
  let ?key = "\<lambda>c. (cd_work_ref c, cd_dependency_work_ref c, cd_satisfaction_policy c)"
  note q = query_facts [OF assms(2)] quarantine_facts [OF assms(2) assms(3) [symmetric]]
  have img: "?key ` set (current_work_dependency d') = ?key ` set (current_work_dependency d)"
    using arg_cong [OF assms(6), of set] by simp
  have edge: "has_edge d' w v = has_edge d w v" for w v
  proof -
    have "has_edge e w v \<longleftrightarrow> (\<exists>p. (w, v, p) \<in> ?key ` set (current_work_dependency e))" for e
      by (auto simp: has_edge_def image_iff)
    then show ?thesis by (simp only: img)
  qed
  have keys: "map (\<lambda>c. (cd_work_ref c, cd_dependency_work_ref c)) (current_work_dependency d')
      = map (\<lambda>c. (cd_work_ref c, cd_dependency_work_ref c)) (current_work_dependency d)"
    using arg_cong [OF assms(6), of "map (\<lambda>(w, v, p). (w, v))"] by (simp add: comp_def)
  have src: "\<exists>(eid, x) \<in> set (event_work_dependency d). dd_work_ref x = cd_work_ref c
      \<and> dd_dependency_work_ref x = cd_dependency_work_ref c \<and> dd_satisfaction_policy x = cd_satisfaction_policy c"
    if "c \<in> set (current_work_dependency d')" for c
  proof -
    from that have "?key c \<in> ?key ` set (current_work_dependency d')" by (rule imageI)
    then obtain b where "b \<in> set (current_work_dependency d)" "?key b = ?key c"
      unfolding img by (auto simp: image_iff)
    moreover from this(1) assms(1) have "\<exists>(eid, x) \<in> set (event_work_dependency d). dd_work_ref x = cd_work_ref b
      \<and> dd_dependency_work_ref x = cd_dependency_work_ref b \<and> dd_satisfaction_policy x = cd_satisfaction_policy b"
      unfolding complete_def by blast
    ultimately show ?thesis by simp
  qed
  from assms(1) show ?thesis
    unfolding complete_def edge keys assms(4,5) q(2,4) [symmetric] q(11) [symmetric]
      same_factsD [OF assms(2), symmetric] using src by blast
qed

lemma settle_edges_complete: "complete d W D P K \<Longrightarrow> complete (settle_edges w d) W D P K"
  by (rule complete_edges [OF _ settle_edges_facts]) (simp_all add: settle_edges_eq)

lemma settle_edges_keeps:
  assumes "fresh d W X P" "is_retired d w \<or> latest_result d w \<noteq> None \<or> w \<notin> X"
  shows "fresh (settle_edges w d) (W \<union> set (dependents (settle_edges w d) w)) (X - {w}) P"
proof -
  note s = settle_edges_facts [where d = d and w = w]
  note q = query_facts [OF s(1)] quarantine_facts [OF s(1) s(2) [symmetric]]
  show ?thesis
    using assms settle_edges_works [of d W w] settle_edges_fresh [of d X w]
    unfolding fresh_def fresh_plans_def q(4,6,8,10) [symmetric] s(4) by blast
qed

lemma propagate_keeps:
  assumes "fresh d W X P" "complete d V D Q K" "is_retired d w \<or> latest_result d w \<noteq> None \<or> w \<notin> X"
  shows "fresh (propagate_to_dependents now w eid d) W (X - {w}) P"
    "complete (propagate_to_dependents now w eid d) V D Q K"
    "same_facts d (propagate_to_dependents now w eid d)"
proof -
  let ?s = "settle_edges w d"
  note r = recompute_all_keeps [OF settle_edges_keeps [OF assms(1,3)] settle_edges_complete [OF assms(2), of w],
      of now eid "dependents ?s w"]
  show "fresh (propagate_to_dependents now w eid d) W (X - {w}) P"
    using r(1) unfolding propagate_eq fresh_def fresh_works_def by blast
  show "complete (propagate_to_dependents now w eid d) V D Q K"
    using r(2) unfolding propagate_eq .
  show "same_facts d (propagate_to_dependents now w eid d)"
    using same_facts_trans [OF settle_edges_facts(1) r(3)] unfolding propagate_eq .
qed

text \<open>A declared edge, and the plan row.\<close>

lemma declare_edges_keeps:
  assumes "fresh d W X P" "complete d V D Q K" "held d eid (WorkDependencyDeclared p)"
  shows "fresh (declare_edges p d) (insert (dd_work_ref p) W) X P"
    "complete (declare_edges p d) V (D - {(dd_work_ref p, dd_dependency_work_ref p)}) Q K"
    "same_facts d (declare_edges p d)"
proof -
  let ?d = "declare_edges p d"
  have s: "same_facts d ?d" "quarantine ?d = quarantine d" "current_work ?d = current_work d"
    "current_plans ?d = current_plans d" by (simp_all add: declare_edges_eq same_facts_def)
  note q = query_facts [OF s(1)] quarantine_facts [OF s(1) s(2) [symmetric]]
  show "same_facts d ?d" by (rule s(1))
  show "fresh ?d (insert (dd_work_ref p) W) X P"
    using assms(1) declare_edges_works [of d W p] declare_edges_fresh [of d X p]
    unfolding fresh_def fresh_plans_def q(4,6,8,10) [symmetric] s(4) by blast
  let ?e = "d\<lparr>current_work_dependency := declared_rows p d\<rparr>"
  have edges: "has_edge ?e w v \<longleftrightarrow> has_edge d w v \<or> (w, v) = (dd_work_ref p, dd_dependency_work_ref p)" for w v
    by (auto simp: has_edge_def declared_rows_def declared_row_def)
  have "complete ?e V (D - {(dd_work_ref p, dd_dependency_work_ref p)}) Q K"
  proof -
    have s': "same_facts d ?e" "quarantine d = quarantine ?e" by (simp_all add: same_facts_def)
    note q' = query_facts [OF s'(1)] quarantine_facts [OF s']
    have "\<exists>(eid, x) \<in> set (event_work_dependency d). dd_work_ref x = cd_work_ref c
      \<and> dd_dependency_work_ref x = cd_dependency_work_ref c \<and> dd_satisfaction_policy x = cd_satisfaction_policy c"
      if "c \<in> set (current_work_dependency ?e)" for c
    proof (cases "c \<in> set (current_work_dependency d)")
      case True
      with assms(2) show ?thesis unfolding complete_def by blast
    next
      case False
      with that have "c = declared_row p" by (simp add: declared_rows_def split: if_splits)
      with assms(3) show ?thesis by (force simp: declared_row_def)
    qed
    moreover have "distinct (map (\<lambda>c. (cd_work_ref c, cd_dependency_work_ref c)) (current_work_dependency ?e))"
      using assms(2) by (auto simp: complete_def declared_rows_def declared_row_def has_edge_def)
    moreover have "current_work ?e = current_work d" "current_plans ?e = current_plans d" by simp_all
    ultimately show ?thesis
      using assms(2) unfolding complete_def edges q'(2,4,11) [symmetric] same_factsD [OF s'(1), symmetric]
      by fastforce
  qed
  then show "complete ?d V (D - {(dd_work_ref p, dd_dependency_work_ref p)}) Q K"
    by (rule complete_edges) (simp_all add: declare_edges_eq same_facts_def)
qed

lemma recompute_plan_keeps:
  assumes "fresh d W X P" "complete d V D Q K" "recompute_plan_state p eid d = Inr d'"
  shows "fresh d' W X (P - {p})" "complete d' V D (Q - {p}) K" "same_facts d d'"
proof -
  have s: "same_facts d d'" "quarantine d = quarantine d'" "current_work d' = current_work d"
    "current_work_dependency d' = current_work_dependency d"
    using recompute_plan_cases [OF assms(3)] by (auto simp: same_facts_def)
  note q = query_facts [OF s(1)] quarantine_facts [OF s(1,2)]
  have rows: "dependency_rows d' w = dependency_rows d w" for w by (simp add: dependency_rows_def s(4))
  show "same_facts d d'" by (rule s(1))
  have "fresh_plans d' (P - {p})" using recompute_plan_fresh [OF _ assms(3)] assms(1) by (simp add: fresh_def)
  with assms(1) show "fresh d' W X (P - {p})"
    unfolding fresh_def fresh_works_def fresh_deps_rows list_all_iff s(3,4) q(2,8,10,13) [symmetric]
      core_facts [OF s(1,2) rows [symmetric], symmetric] by blast
  have "current_plans d' v \<noteq> None" if "v \<notin> Q - {p}" "latest_plan_created d v \<noteq> None" for v
    using recompute_plan_cases [OF assms(3)]
  proof
    assume "latest_plan_created d p = None \<and> d' = d"
    with assms(2) that show ?thesis unfolding complete_def by (cases "v = p") auto
  next
    assume "\<exists>row. d' = d\<lparr>current_plans := (current_plans d)(p \<mapsto> row)\<rparr>
         \<and> plan_core_of d p = Some (plan_core row) \<and> latest_plan_created d p \<noteq> None"
    with assms(2) that show ?thesis unfolding complete_def by (cases "v = p") auto
  qed
  with assms(2) show "complete d' V D (Q - {p}) K"
    unfolding complete_def has_edge_def s(3,4) q(2,4,11) [symmetric] same_factsD [OF s(1), symmetric] by blast
qed

text \<open>The reducer on one payload removes from the exceptions what the payload touches.\<close>

lemma fresh_mono: "fresh d W X P \<Longrightarrow> W \<subseteq> W' \<Longrightarrow> X \<subseteq> X' \<Longrightarrow> P \<subseteq> P' \<Longrightarrow> fresh d W' X' P'"
  unfolding fresh_def fresh_works_def fresh_deps_def fresh_plans_def by blast

lemma complete_mono:
  "complete d W D P K \<Longrightarrow> W \<subseteq> W' \<Longrightarrow> D \<subseteq> D' \<Longrightarrow> P \<subseteq> P' \<Longrightarrow> K \<subseteq> K' \<Longrightarrow> complete d W' D' P' K'"
  unfolding complete_def by blast

lemma reduce_result_keeps:
  assumes "fresh d W X P" "complete d V D Q K" "held d eid (ResultRecorded p)"
    and "reduce_payload now e (ResultRecorded p) d = Inr (d', t)"
  shows "fresh d' (W - {rr_work_ref p}) (X - {rr_work_ref p}) P"
    "complete d' (V - {rr_work_ref p}) D Q (K - touched_occurrences (ResultRecorded p))" "same_facts d d'"
proof -
  let ?w = "rr_work_ref p"
  define d1 where "d1 = settle_result p d"
  define d2 where "d2 = recompute_work_state now ?w (event_id e) d1"
  have d': "d' = propagate_to_dependents now ?w (event_id e) d2"
    using assms(4) by (simp add: d2_def d1_def settle_result_def Let_def)
  have f1: "fresh d1 (insert ?w W) (insert ?w X) P" unfolding d1_def by (rule settle_result_fresh [OF assms(1)])
  have c1: "complete d1 V D Q (K - touched_occurrences (ResultRecorded p))"
    unfolding d1_def by (rule settle_result_complete [OF assms(2,1)])
  have f2: "fresh d2 (insert ?w W - {?w}) (insert ?w X) P" unfolding d2_def by (rule recompute_work_keeps [OF f1])
  have c2: "complete d2 (V - {?w}) D Q (K - touched_occurrences (ResultRecorded p))"
    unfolding d2_def by (rule recompute_work_complete [OF c1])
  have s1: "same_facts d d1" unfolding d1_def by (rule settle_result_facts)
  have s2: "same_facts d1 d2" "quarantine d1 = quarantine d2"
    unfolding d2_def using recompute_work_facts [where d = d1] by simp_all
  have "latest_result d1 ?w \<noteq> None"
  proof -
    obtain r where r: "find_event d eid = Some r" using assms(3) by auto
    have "(eid, p) \<in> set (event_result d1)" "find_event d1 eid = Some r"
      using assms(3) r by (simp_all add: same_factsD(3) [OF s1, symmetric] query_facts(1) [OF s1, symmetric])
    moreover have "settled_occurrence d1 ?w k" if "rr_occurrence_key p = Some k" for k
      unfolding d1_def using that assms(1) settle_result_settles(2) [of d] by (simp add: fresh_def)
    ultimately show ?thesis using latest_result_exists [of d1] f1 unfolding fresh_def by blast
  qed
  then have "latest_result d2 ?w \<noteq> None" by (simp add: quarantine_facts(1) [OF s2])
  then have "is_retired d2 ?w \<or> latest_result d2 ?w \<noteq> None \<or> ?w \<notin> insert ?w X" by blast
  note r = propagate_keeps [OF f2 c2 this, of now "event_id e"]
  show "fresh d' (W - {?w}) (X - {?w}) P" using r(1) unfolding d' by simp
  show "complete d' (V - {?w}) D Q (K - touched_occurrences (ResultRecorded p))" using r(2) unfolding d' .
  show "same_facts d d'" using same_facts_trans [OF same_facts_trans [OF s1 s2(1)] r(3)] unfolding d' .
qed

lemma reduce_retired_keeps:
  assumes "fresh d W X P" "complete d V D Q K" "held d eid (WorkRetired p)"
    and "reduce_payload now e (WorkRetired p) d = Inr (d', t)"
  shows "fresh d' (W - {wr_work_ref p}) (X - {wr_work_ref p}) P" "complete d' (V - {wr_work_ref p}) D Q K"
    "same_facts d d'"
proof -
  let ?w = "wr_work_ref p"
  define d2 where "d2 = recompute_work_state now ?w (event_id e) d"
  have d': "d' = propagate_to_dependents now ?w (event_id e) d2"
    using assms(4) by (simp add: d2_def Let_def)
  have f2: "fresh d2 (W - {?w}) X P" unfolding d2_def by (rule recompute_work_keeps [OF assms(1)])
  have c2: "complete d2 (V - {?w}) D Q K" unfolding d2_def by (rule recompute_work_complete [OF assms(2)])
  have s2: "same_facts d d2" unfolding d2_def by (rule recompute_work_facts)
  have "is_retired d ?w" using assms(3) by (auto simp: is_retired_def list_ex_iff)
  then have "is_retired d2 ?w" by (simp add: query_facts(7) [OF s2])
  then have "is_retired d2 ?w \<or> latest_result d2 ?w \<noteq> None \<or> ?w \<notin> X" by blast
  note r = propagate_keeps [OF f2 c2 this, of now "event_id e"]
  show "fresh d' (W - {?w}) (X - {?w}) P" "complete d' (V - {?w}) D Q K" using r(1,2) unfolding d' .
  show "same_facts d d'" using same_facts_trans [OF s2 r(3)] unfolding d' .
qed

lemma reduce_dependency_keeps:
  assumes "fresh d W X P" "complete d V D Q K" "held d eid (WorkDependencyDeclared p)"
    and "reduce_payload now e (WorkDependencyDeclared p) d = Inr (d', t)"
  shows "fresh d' W X P" "complete d' V (D - {(dd_work_ref p, dd_dependency_work_ref p)}) Q K" "same_facts d d'"
proof -
  let ?w = "dd_work_ref p"
  have d': "d' = recompute_work_state now ?w (event_id e) (declare_edges p d)"
    using assms(4) by (simp add: declare_edges_def Let_def)
  note k = declare_edges_keeps [OF assms(1-3)]
  show "fresh d' W X P"
    unfolding d' by (rule fresh_mono [OF recompute_work_keeps [OF k(1)]]) auto
  show "complete d' V (D - {(dd_work_ref p, dd_dependency_work_ref p)}) Q K"
    unfolding d' by (rule complete_mono [OF recompute_work_complete [OF k(2)]]) auto
  show "same_facts d d'" unfolding d' by (rule same_facts_trans [OF k(3) recompute_work_facts(1)])
qed

lemma untouched_keeps:
  assumes "fresh d W X P" "complete d V D Q K"
    "same_facts d d'" "quarantine d = quarantine d'" "current_work d = current_work d'"
    "current_work_dependency d = current_work_dependency d'" "current_plans d = current_plans d'"
  shows "fresh d' W X P" "complete d' V D Q K"
  using fresh_cong [OF assms(3-7)] assms(1,2) by blast+

lemma insert_link_frame:
  "same_facts d (insert_link e p d)" "quarantine (insert_link e p d) = quarantine d"
  "current_work (insert_link e p d) = current_work d"
  "current_work_dependency (insert_link e p d) = current_work_dependency d"
  "current_plans (insert_link e p d) = current_plans d"
  by (simp_all add: insert_link_def Let_def same_facts_def)

lemma reduce_payload_keeps:
  assumes "fresh d W X P" "complete d V D Q K" "held d eid p" "reduce_payload now e p d = Inr (d', t)"
  shows "fresh d' (W - touched_works p) (X - touched_sources p) (P - touched_plans p)
    \<and> complete d' (V - touched_works p) (D - touched_edges p) (Q - touched_plans p) (K - touched_occurrences p)
    \<and> same_facts d d'"
proof (cases p)
  case (PlanCreated x)
  with assms(4) have "recompute_plan_state (pc_plan_ref x) (event_id e) d = Inr d'" by auto
  from recompute_plan_keeps [OF assms(1,2) this] PlanCreated show ?thesis by simp
next
  case (PlanLifecycleChanged x)
  with assms(4) have "recompute_plan_state (pl_plan_ref x) (event_id e) d = Inr d'" by auto
  from recompute_plan_keeps [OF assms(1,2) this] PlanLifecycleChanged show ?thesis by simp
next
  case (WorkDerived x)
  with assms(4) have "d' = recompute_work_state now (wd_work_ref x) (event_id e) d" by simp
  with WorkDerived recompute_work_keeps [OF assms(1)] recompute_work_complete [OF assms(2)]
    recompute_work_facts(1) [where d = d] show ?thesis by simp
next
  case (WorkRetired x)
  from reduce_retired_keeps [OF assms(1,2) assms(3,4) [unfolded WorkRetired]] WorkRetired show ?thesis by simp
next
  case (WorkDependencyDeclared x)
  from reduce_dependency_keeps [OF assms(1,2) assms(3,4) [unfolded WorkDependencyDeclared]] WorkDependencyDeclared
  show ?thesis by simp
next
  case (ResultRecorded x)
  from reduce_result_keeps [OF assms(1,2) assms(3,4) [unfolded ResultRecorded]] ResultRecorded
  show ?thesis by simp
next
  case (LinkAsserted x)
  with assms(4) have "d' = insert_link e x d" by simp
  with LinkAsserted untouched_keeps [OF assms(1,2) insert_link_frame(1) insert_link_frame(2-5) [symmetric]]
  show ?thesis by (simp add: insert_link_frame)
next
  case (ClaimRecorded x)
  with assms(4) have d': "d' = d\<lparr>current_claim_standing := current_claim_standing d'\<rparr>" by auto
  have "same_facts d d'" "quarantine d = quarantine d'" "current_work d = current_work d'"
    "current_work_dependency d = current_work_dependency d'" "current_plans d = current_plans d'"
    by (subst d', simp add: same_facts_def)+
  with ClaimRecorded untouched_keeps [OF assms(1,2) this] show ?thesis by simp
qed (use assms in auto)

lemma fill_frame:
  assumes "fill_target e pts d = (d', t) \<or> fill_source e pts d = (d', t)"
  shows "same_facts d d'" "quarantine d = quarantine d'" "current_work d = current_work d'"
    "current_work_dependency d = current_work_dependency d'" "current_plans d = current_plans d'"
proof -
  have "\<exists>el. d' = d\<lparr>event_links := el\<rparr>"
  proof (cases "find_event d (event_id e)")
    case None
    with assms have "d' = d\<lparr>event_links := event_links d\<rparr>" by (auto simp: fill_target_def fill_source_def)
    then show ?thesis by blast
  next
    case (Some r)
    with assms show ?thesis by (auto simp: fill_target_def fill_source_def Let_def)
  qed
  then show "same_facts d d'" "quarantine d = quarantine d'" "current_work d = current_work d'"
    "current_work_dependency d = current_work_dependency d'" "current_plans d = current_plans d'"
    by (auto simp: same_facts_def)
qed

lemma standing_frame:
  "same_facts d (recompute_standing eid d)" "quarantine (recompute_standing eid d) = quarantine d"
  "current_work (recompute_standing eid d) = current_work d"
  "current_work_dependency (recompute_standing eid d) = current_work_dependency d"
  "current_plans (recompute_standing eid d) = current_plans d" "event_links (recompute_standing eid d) = event_links d"
  by (simp_all add: recompute_standing_def same_facts_def)

lemma held_facts: "same_facts d d' \<Longrightarrow> held d eid p = held d' eid p"
  by (cases p) (simp_all add: query_facts(1) same_factsD)

lemma reduce_Inr:
  assumes "reduce now e d = Inr d'"
  obtains pts d1 t1 d2 t2 p d3 t3 where "fill_target e pts d = (d1, t1)" "fill_source e pts d1 = (d2, t2)"
    "payload e = Some p" "reduce_payload now e p d2 = Inr (d3, t3)"
    "d' = (if t1 \<or> t2 \<or> t3 then recompute_standing (event_id e) d3 else d3)"
proof -
  from assms obtain pts where pts: "hlc_parts (hlc e) = Inr pts" by (auto simp: reduce_def)
  obtain d1 t1 where 1: "fill_target e pts d = (d1, t1)" by force
  obtain d2 t2 where 2: "fill_source e pts d1 = (d2, t2)" by force
  from assms pts 1 2 obtain p d3 t3 where "payload e = Some p" "reduce_payload now e p d2 = Inr (d3, t3)"
    "d' = (if t1 \<or> t2 \<or> t3 then recompute_standing (event_id e) d3 else d3)"
    by (cases "payload e") (auto simp: reduce_def)
  with 1 2 that show thesis by blast
qed

lemma reduce_keeps:
  assumes "fresh d W X P" "complete d V D Q K" "payload e = Some p" "held d (event_id e) p"
    and "reduce now e d = Inr d'"
  shows "fresh d' (W - touched_works p) (X - touched_sources p) (P - touched_plans p)
    \<and> complete d' (V - touched_works p) (D - touched_edges p) (Q - touched_plans p) (K - touched_occurrences p)
    \<and> same_facts d d'"
proof -
  from reduce_Inr [OF assms(5)] obtain pts d1 t1 d2 t2 d3 t3 where
    1: "fill_target e pts d = (d1, t1)" and 2: "fill_source e pts d1 = (d2, t2)"
    and 3: "reduce_payload now e p d2 = Inr (d3, t3)"
    and 4: "d' = (if t1 \<or> t2 \<or> t3 then recompute_standing (event_id e) d3 else d3)"
    using assms(3) by (metis option.inject)
  note f1 = fill_frame [OF disjI1 [OF 1]] and f2 = fill_frame [OF disjI2 [OF 2]]
  note k1 = untouched_keeps [OF assms(1,2) f1]
  note k2 = untouched_keeps [OF k1 f2]
  have "held d2 (event_id e) p" using assms(4) held_facts f1(1) f2(1) by blast
  note k3 = reduce_payload_keeps [OF k2 this 3]
  have "same_facts d d3" using k3 f1(1) f2(1) same_facts_trans by blast
  moreover note standing = untouched_keeps [OF conjunct1 [OF k3] conjunct1 [OF conjunct2 [OF k3]]
    standing_frame(1) standing_frame(2-5) [symmetric]]
  ultimately show ?thesis
    using k3 4 standing_frame(1) same_facts_trans by (cases "t1 \<or> t2 \<or> t3") auto
qed

end
