(* ===== verification/Rebuild.thy ===== *)
theory Rebuild
  imports Convergence
begin

text \<open>
  The two ways the projections come about: event by event as the facts arrive, and by the replay
  of the log that \<open>rebuild\<close> runs over truncated projections.  Both end in a projected database,
  and a projected database is determined by the set of its facts.
\<close>

section \<open>The fact tables\<close>

text \<open>Every fact row belongs to a held event of its kind.\<close>

definition has_row :: "db \<Rightarrow> string \<Rightarrow> event_kind set \<Rightarrow> bool" where
  "has_row d eid K \<longleftrightarrow> (\<exists>r. find_event d eid = Some r \<and> materialized r \<and> kind r \<in> K)"

definition facts_held :: "db \<Rightarrow> bool" where
  "facts_held d \<longleftrightarrow> distinct (map event_id (events d))
     \<and> (\<forall>(eid, x) \<in> set (event_work d). has_row d eid {WORK_DERIVED})
     \<and> (\<forall>(eid, x) \<in> set (event_result d). has_row d eid {RESULT_RECORDED})
     \<and> (\<forall>(eid, x) \<in> set (event_plan d). has_row d eid {PLAN_CREATED, PLAN_LIFECYCLE_CHANGED})
     \<and> distinct (map fst (event_work_dependency d))
     \<and> (\<forall>(eid, x) \<in> set (event_work_dependency d). has_row d eid {WORK_DEPENDENCY_DECLARED})"

definition projected :: "db \<Rightarrow> bool" where
  "projected d \<longleftrightarrow> facts_held d \<and> fresh d {} {} {} \<and> complete d {} {} {} {}"

lemma projected_empty: "projected empty_db"
  by (simp add: projected_def facts_held_def empty_db_def fresh_def facts_ok_def quarantine_ok_def
      fresh_works_def fresh_deps_def fresh_plans_def complete_def settled_occurrence_def quarantined_ids_def
      consumers_def latest_derive_def latest_plan_created_def latest_def joined_def map_filter_simps)

section \<open>A fact arrives\<close>

text \<open>
  The rows that one payload adds; only the columns that the projections read are named.
\<close>

fun adds_rows :: "string \<Rightarrow> payload \<Rightarrow> db \<Rightarrow> db \<Rightarrow> bool" where
  "adds_rows eid (WorkDerived p) d d' \<longleftrightarrow>
     (\<exists>x. d' = d\<lparr>event_work := event_work d @ [(eid, x)]\<rparr> \<and> wd_work_ref x = wd_work_ref p
        \<and> eid \<notin> fst ` set (event_work d))"
| "adds_rows eid (ResultRecorded p) d d' \<longleftrightarrow>
     d' = d\<lparr>event_result := event_result d @ [(eid, p)]\<rparr> \<and> eid \<notin> fst ` set (event_result d)"
| "adds_rows eid (WorkRetired p) d d' \<longleftrightarrow>
     d' = d\<lparr>event_work_retired := event_work_retired d @ [(eid, p)]\<rparr>"
| "adds_rows eid (WorkDependencyDeclared p) d d' \<longleftrightarrow>
     d' = d\<lparr>event_work_dependency := event_work_dependency d @ [(eid, p)]\<rparr>
     \<and> eid \<notin> fst ` set (event_work_dependency d)"
| "adds_rows eid (PlanCreated p) d d' \<longleftrightarrow>
     (\<exists>x. d' = d\<lparr>event_plan := event_plan d @ [(eid, x)]\<rparr> \<and> ep_plan_ref x = pc_plan_ref p
        \<and> eid \<notin> fst ` set (event_plan d))"
| "adds_rows eid (PlanLifecycleChanged p) d d' \<longleftrightarrow>
     (\<exists>x. d' = d\<lparr>event_plan := event_plan d @ [(eid, x)]\<rparr> \<and> ep_plan_ref x = pl_plan_ref p
        \<and> eid \<notin> fst ` set (event_plan d))"
| "adds_rows eid _ d d' \<longleftrightarrow>
     event_work d' = event_work d \<and> event_result d' = event_result d \<and> event_plan d' = event_plan d
     \<and> event_work_retired d' = event_work_retired d \<and> event_work_dependency d' = event_work_dependency d
     \<and> quarantine d' = quarantine d \<and> current_work d' = current_work d \<and> current_plans d' = current_plans d
     \<and> current_work_dependency d' = current_work_dependency d"

lemma insert_payload_adds:
  assumes "insert_payload uc e d = Inr d'" "payload e = Some p"
  shows "adds_rows (event_id e) p d d'"
  using assms by (cases p) (auto simp: insert_payload.simps split: if_splits)

text \<open>The database after a fact has arrived, before the reducer runs.\<close>

definition lookup_plus :: "event_row \<Rightarrow> db \<Rightarrow> db \<Rightarrow> bool" where
  "lookup_plus row d d' \<longleftrightarrow>
     (\<forall>eid. find_event d' eid = (if eid = event_id row then Some row else find_event d eid))"

definition not_materialized :: "db \<Rightarrow> string \<Rightarrow> bool" where
  "not_materialized d eid \<longleftrightarrow> (\<forall>r. find_event d eid = Some r \<longrightarrow> \<not> materialized r)"

definition arrives :: "event_row \<Rightarrow> payload \<Rightarrow> db \<Rightarrow> db \<Rightarrow> bool" where
  "arrives row p d d' \<longleftrightarrow> not_materialized d (event_id row) \<and> materialized row \<and> kind row = payload_kind p
     \<and> distinct (map event_id (events d')) \<and> lookup_plus row d d'
     \<and> adds_rows (event_id row) p (d\<lparr>events := events d'\<rparr>) d'"

lemma find_event_append:
  assumes "event_id row \<notin> event_id ` set (events d)" "events d' = events d @ [row]"
  shows "find_event d' eid = (if eid = event_id row then Some row else find_event d eid)"
proof -
  have "List.find (\<lambda>r. event_id r = eid) (rs @ [row])
      = (if eid = event_id row then Some row else List.find (\<lambda>r. event_id r = eid) rs)"
    if "event_id row \<notin> event_id ` set rs" for rs
    using that by (induction rs) auto
  with assms show ?thesis by (simp add: find_event_def)
qed

lemma find_event_new: "event_id row \<notin> event_id ` set (events d) \<Longrightarrow> find_event d (event_id row) = None"
  by (force simp: find_event_def find_None_iff)

lemma joined_append:
  assumes "lookup_plus row d d'"
    and "\<forall>(i, x) \<in> set t. i = event_id row" "event_id row \<notin> fst ` set t0"
  shows "joined d' (t0 @ t) c = joined d t0 c @ map (\<lambda>(i, x). (row, x)) (filter (\<lambda>(i, x). c row x) t)"
proof -
  have f: "find_event d' eid = (if eid = event_id row then Some row else find_event d eid)" for eid
    using assms(1) by (simp add: lookup_plus_def)
  have "joined d' t0 c = joined d t0 c"
    using assms(3) by (induction t0) (auto simp: joined_def map_filter_simps f split: option.split)
  moreover have "joined d' t c = map (\<lambda>(i, x). (row, x)) (filter (\<lambda>(i, x). c row x) t)"
    using assms(2) by (induction t) (auto simp: joined_def map_filter_simps f)
  moreover have "joined d' (t0 @ t) c = joined d' t0 c @ joined d' t c"
    by (simp add: joined_def List.map_filter_def)
  ultimately show ?thesis by simp
qed

text \<open>What the tables of an arrival look like.\<close>

lemma adds_rows_tables:
  assumes "adds_rows eid p d d'"
  obtains tw tr tp td tz where
    "event_work d' = event_work d @ tw" "\<forall>(i, x) \<in> set tw. i = eid \<and> wd_work_ref x \<in> touched_works p"
    "event_result d' = event_result d @ tr"
    "\<forall>(i, x) \<in> set tr. i = eid \<and> p = ResultRecorded x"
    "event_plan d' = event_plan d @ tp" "\<forall>(i, x) \<in> set tp. i = eid \<and> ep_plan_ref x \<in> touched_plans p"
    "event_work_dependency d' = event_work_dependency d @ td"
    "\<forall>(i, x) \<in> set td. i = eid \<and> p = WorkDependencyDeclared x"
    "event_work_retired d' = event_work_retired d @ tz"
    "\<forall>(i, x) \<in> set tz. wr_work_ref x \<in> touched_works p \<inter> touched_sources p"
    "length tw \<le> 1" "length tr \<le> 1" "length tp \<le> 1" "length td \<le> 1"
    "tw \<noteq> [] \<longrightarrow> payload_kind p = WORK_DERIVED"
    "tp \<noteq> [] \<longrightarrow> payload_kind p \<in> {PLAN_CREATED, PLAN_LIFECYCLE_CHANGED}"
    "tw \<noteq> [] \<longrightarrow> eid \<notin> fst ` set (event_work d)" "tr \<noteq> [] \<longrightarrow> eid \<notin> fst ` set (event_result d)"
    "tp \<noteq> [] \<longrightarrow> eid \<notin> fst ` set (event_plan d)"
    "td \<noteq> [] \<longrightarrow> eid \<notin> fst ` set (event_work_dependency d)"
    "quarantine d' = quarantine d" "current_work d' = current_work d" "current_plans d' = current_plans d"
    "current_work_dependency d' = current_work_dependency d"
proof (cases p)
  case (PlanCreated x)
  with assms obtain y where "d' = d\<lparr>event_plan := event_plan d @ [(eid, y)]\<rparr>" "ep_plan_ref y = pc_plan_ref x"
    "eid \<notin> fst ` set (event_plan d)" by auto
  with PlanCreated show thesis by (intro that [of "[]" "[]" "[(eid, y)]" "[]" "[]"]) auto
next
  case (PlanLifecycleChanged x)
  with assms obtain y where "d' = d\<lparr>event_plan := event_plan d @ [(eid, y)]\<rparr>" "ep_plan_ref y = pl_plan_ref x"
    "eid \<notin> fst ` set (event_plan d)" by auto
  with PlanLifecycleChanged show thesis by (intro that [of "[]" "[]" "[(eid, y)]" "[]" "[]"]) auto
next
  case (WorkDerived x)
  with assms obtain y where "d' = d\<lparr>event_work := event_work d @ [(eid, y)]\<rparr>" "wd_work_ref y = wd_work_ref x"
    "eid \<notin> fst ` set (event_work d)" by auto
  with WorkDerived show thesis by (intro that [of "[(eid, y)]" "[]" "[]" "[]" "[]"]) auto
next
  case (WorkRetired x)
  with assms show thesis by (intro that [of "[]" "[]" "[]" "[]" "[(eid, x)]"]) auto
next
  case (WorkDependencyDeclared x)
  with assms show thesis by (intro that [of "[]" "[]" "[]" "[(eid, x)]" "[]"]) auto
next
  case (ResultRecorded x)
  with assms show thesis by (intro that [of "[]" "[(eid, x)]" "[]" "[]" "[]"]) auto
next
  case (LinkAsserted x)
  with assms show thesis by (intro that [of "[]" "[]" "[]" "[]" "[]"]) simp_all
next
  case (ObservationRecorded x)
  with assms show thesis by (intro that [of "[]" "[]" "[]" "[]" "[]"]) simp_all
next
  case (ClaimRecorded x)
  with assms show thesis by (intro that [of "[]" "[]" "[]" "[]" "[]"]) simp_all
next
  case (AuthorityConfiguration x)
  with assms show thesis by (intro that [of "[]" "[]" "[]" "[]" "[]"]) simp_all
next
  case (AuthorityReceipt x)
  with assms show thesis by (intro that [of "[]" "[]" "[]" "[]" "[]"]) simp_all
qed

lemma held_not_new:
  assumes "\<forall>(eid, x) \<in> set t. has_row d eid K" "not_materialized d i"
  shows "i \<notin> fst ` set t"
proof
  assume "i \<in> fst ` set t"
  with assms(1) have "has_row d i K" by auto
  with assms(2) show False by (auto simp: has_row_def not_materialized_def)
qed

lemma joined_append_none:
  assumes "lookup_plus row d d'"
    and "\<forall>(i, x) \<in> set t. i = event_id row \<and> \<not> c row x" "event_id row \<notin> fst ` set t0"
  shows "joined d' (t0 @ t) c = joined d t0 c"
proof -
  have "filter (\<lambda>(i, x). c row x) t = []" using assms(2) by (auto simp: filter_empty_conv)
  moreover have "\<forall>(i, x) \<in> set t. i = event_id row" using assms(2) by auto
  ultimately show ?thesis using joined_append [OF assms(1) _ assms(3), of t c] by simp
qed

lemma joined_append_grows:
  assumes "lookup_plus row d d'"
    and "\<forall>(i, x) \<in> set t. i = event_id row" "event_id row \<notin> fst ` set t0"
  shows "set (joined d t0 c) \<subseteq> set (joined d' (t0 @ t) c)"
  using joined_append [OF assms, of c] by simp

text \<open>The queries after an arrival: only what the payload touches can change.\<close>

lemma arrives_queries:
  assumes held: "facts_held d" and arr: "arrives row p d d'"
  shows "w \<notin> touched_works p \<Longrightarrow> latest_derive d' w = latest_derive d w"
    "latest_derive d w \<noteq> None \<Longrightarrow> latest_derive d' w \<noteq> None"
    "w \<notin> touched_sources p \<Longrightarrow> latest_result d' w = latest_result d w"
    "w \<notin> touched_sources p \<Longrightarrow> is_retired d' w = is_retired d w"
    "is_retired d w \<Longrightarrow> is_retired d' w"
    "(w, k) \<notin> touched_occurrences p \<Longrightarrow> consumers d' w k = consumers d w k"
    "set (consumers d w k) \<subseteq> set (consumers d' w k)"
    "q \<notin> touched_plans p \<Longrightarrow> latest_plan_created d' q = latest_plan_created d q"
    "q \<notin> touched_plans p \<Longrightarrow> latest_lifecycle d' q = latest_lifecycle d q"
    "latest_plan_created d q \<noteq> None \<Longrightarrow> latest_plan_created d' q \<noteq> None"
proof -
  let ?d = "d\<lparr>events := events d'\<rparr>"
  have new: "not_materialized d (event_id row)" and add: "adds_rows (event_id row) p ?d d'"
    and ev: "lookup_plus row d d'"
    using arr by (auto simp: arrives_def)
  obtain tw tr tp td tz where
    tw: "event_work d' = event_work d @ tw" "\<forall>(i, x) \<in> set tw. i = event_id row \<and> wd_work_ref x \<in> touched_works p"
    and tr: "event_result d' = event_result d @ tr" "\<forall>(i, x) \<in> set tr. i = event_id row \<and> p = ResultRecorded x"
    and tp: "event_plan d' = event_plan d @ tp" "\<forall>(i, x) \<in> set tp. i = event_id row \<and> ep_plan_ref x \<in> touched_plans p"
    and tz: "event_work_retired d' = event_work_retired d @ tz"
      "\<forall>(i, x) \<in> set tz. wr_work_ref x \<in> touched_works p \<inter> touched_sources p"
    and q: "quarantine d' = quarantine d"
    by (rule adds_rows_tables [OF add]) (simp del: split_paired_All)
  have old: "event_id row \<notin> fst ` set (event_work d)" "event_id row \<notin> fst ` set (event_result d)"
    "event_id row \<notin> fst ` set (event_plan d)"
    using held held_not_new [OF _ new] unfolding facts_held_def by blast+
  show "w \<notin> touched_works p \<Longrightarrow> latest_derive d' w = latest_derive d w"
  proof -
    assume w: "w \<notin> touched_works p"
    then have "\<forall>(i, x) \<in> set tw. i = event_id row \<and> \<not> wd_work_ref x = w" using tw(2) by auto
    from joined_append_none [where c = "\<lambda>r x. wd_work_ref x = w", OF ev this old(1)]
    show ?thesis by (simp add: latest_derive_def latest_def tw(1))
  qed
  show "latest_derive d w \<noteq> None \<Longrightarrow> latest_derive d' w \<noteq> None"
  proof -
    have "\<forall>(i, x) \<in> set tw. i = event_id row" using tw(2) by auto
    from joined_append_grows [OF ev this old(1), of "\<lambda>r x. wd_work_ref x = w"]
    show "latest_derive d w \<noteq> None \<Longrightarrow> ?thesis" by (auto simp: latest_derive_def latest_def tw(1))
  qed
  show "w \<notin> touched_sources p \<Longrightarrow> latest_result d' w = latest_result d w"
  proof -
    assume w: "w \<notin> touched_sources p"
    have "\<forall>(i, x) \<in> set tr. i = event_id row \<and> \<not> (rr_work_ref x = w \<and> \<not> quarantined d (event_id row))"
      using tr(2) w by auto
    from joined_append_none [where c = "\<lambda>r x. rr_work_ref x = w \<and> \<not> quarantined d (event_id r)", OF ev this old(2)]
    show ?thesis by (simp add: latest_result_def latest_def tr(1) quarantined_def q)
  qed
  show "w \<notin> touched_sources p \<Longrightarrow> is_retired d' w = is_retired d w"
    using tz(2) by (auto simp: is_retired_def tz(1) list_ex_iff)
  show "is_retired d w \<Longrightarrow> is_retired d' w"
    by (auto simp: is_retired_def tz(1) list_ex_iff)
  show "(w, k) \<notin> touched_occurrences p \<Longrightarrow> consumers d' w k = consumers d w k"
  proof -
    assume w: "(w, k) \<notin> touched_occurrences p"
    have "\<forall>(i, x) \<in> set tr. i = event_id row \<and> \<not> (rr_work_ref x = w \<and> rr_occurrence_key x = Some k)"
      using tr(2) w by auto
    from joined_append_none [where c = "\<lambda>r x. rr_work_ref x = w \<and> rr_occurrence_key x = Some k", OF ev this old(2)]
    show ?thesis by (simp add: consumers_def tr(1))
  qed
  show "set (consumers d w k) \<subseteq> set (consumers d' w k)"
  proof -
    have "\<forall>(i, x) \<in> set tr. i = event_id row" using tr(2) by auto
    from joined_append_grows [OF ev this old(2), of "\<lambda>r x. rr_work_ref x = w \<and> rr_occurrence_key x = Some k"]
    show ?thesis unfolding consumers_def tr(1) by (simp add: image_mono)
  qed
  have plans: "\<forall>(i, x) \<in> set tp. i = event_id row" using tp(2) by auto
  show "q \<notin> touched_plans p \<Longrightarrow> latest_plan_created d' q = latest_plan_created d q" for q
  proof -
    assume w: "q \<notin> touched_plans p"
    then have "\<forall>(i, x) \<in> set tp. i = event_id row \<and> \<not> (ep_plan_ref x = q \<and> kind row = PLAN_CREATED)"
      using tp(2) by auto
    from joined_append_none [where c = "\<lambda>r x. ep_plan_ref x = q \<and> kind r = PLAN_CREATED", OF ev this old(3)]
    show ?thesis by (simp add: latest_plan_created_def latest_def tp(1))
  qed
  show "q \<notin> touched_plans p \<Longrightarrow> latest_lifecycle d' q = latest_lifecycle d q" for q
  proof -
    assume w: "q \<notin> touched_plans p"
    then have "\<forall>(i, x) \<in> set tp. i = event_id row \<and> \<not> (ep_plan_ref x = q \<and> ep_lifecycle x \<noteq> None)"
      using tp(2) by auto
    from joined_append_none [where c = "\<lambda>r x. ep_plan_ref x = q \<and> ep_lifecycle x \<noteq> None", OF ev this old(3)]
    show ?thesis by (simp add: latest_lifecycle_def latest_def tp(1))
  qed
  show "latest_plan_created d q \<noteq> None \<Longrightarrow> latest_plan_created d' q \<noteq> None" for q
    using joined_append_grows [OF ev plans old(3), of "\<lambda>r x. ep_plan_ref x = q \<and> kind r = PLAN_CREATED"]
    by (auto simp: latest_plan_created_def latest_def tp(1))
qed

lemma adds_rows_held: "adds_rows eid p d d' \<Longrightarrow> find_event d' eid \<noteq> None \<Longrightarrow> held d' eid p"
  by (cases p) auto

lemma arrives_tables:
  assumes "facts_held d" "facts_ok d" "arrives row p d d'"
  shows "facts_held d'" "facts_ok d'" "held d' (event_id row) p"
    "set (event_work_dependency d) \<subseteq> set (event_work_dependency d')"
    "\<forall>(i, x) \<in> set (event_work_dependency d') - set (event_work_dependency d).
       (dd_work_ref x, dd_dependency_work_ref x) \<in> touched_edges p"
    "quarantine d' = quarantine d" "current_work d' = current_work d" "current_plans d' = current_plans d"
    "current_work_dependency d' = current_work_dependency d"
proof -
  let ?d = "d\<lparr>events := events d'\<rparr>"
  have new: "not_materialized d (event_id row)" and add: "adds_rows (event_id row) p ?d d'"
    and row: "materialized row" "kind row = payload_kind p" and distinct: "distinct (map event_id (events d'))"
    and f: "\<And>eid. find_event d' eid = (if eid = event_id row then Some row else find_event d eid)"
    using assms(3) by (auto simp: arrives_def lookup_plus_def)
  obtain tw tr tp td tz where
    tw: "event_work d' = event_work d @ tw" "\<forall>(i, x) \<in> set tw. i = event_id row \<and> wd_work_ref x \<in> touched_works p"
    and tr: "event_result d' = event_result d @ tr" "\<forall>(i, x) \<in> set tr. i = event_id row \<and> p = ResultRecorded x"
    and tp: "event_plan d' = event_plan d @ tp" "\<forall>(i, x) \<in> set tp. i = event_id row \<and> ep_plan_ref x \<in> touched_plans p"
    and td: "event_work_dependency d' = event_work_dependency d @ td"
      "\<forall>(i, x) \<in> set td. i = event_id row \<and> p = WorkDependencyDeclared x"
    and len: "length tw \<le> 1" "length tr \<le> 1" "length tp \<le> 1" "length td \<le> 1"
    and kinds: "tw \<noteq> [] \<longrightarrow> payload_kind p = WORK_DERIVED"
      "tp \<noteq> [] \<longrightarrow> payload_kind p \<in> {PLAN_CREATED, PLAN_LIFECYCLE_CHANGED}"
    and fr: "quarantine d' = quarantine d" "current_work d' = current_work d" "current_plans d' = current_plans d"
      "current_work_dependency d' = current_work_dependency d"
    by (rule adds_rows_tables [OF add]) (simp del: split_paired_All)
  show "quarantine d' = quarantine d" "current_work d' = current_work d" "current_plans d' = current_plans d"
    "current_work_dependency d' = current_work_dependency d" by (rule fr)+
  have old: "event_id row \<notin> fst ` set (event_work d)" "event_id row \<notin> fst ` set (event_result d)"
    "event_id row \<notin> fst ` set (event_plan d)" "event_id row \<notin> fst ` set (event_work_dependency d)"
    using assms(1) held_not_new [OF _ new] unfolding facts_held_def by blast+
  have dist: "distinct (map fst (t0 @ t))"
    if "distinct (map fst t0)" "\<forall>(i, x) \<in> set t. i = event_id row" "length t \<le> 1" "event_id row \<notin> fst ` set t0"
    for t0 t :: "(string \<times> 'b) list"
    using that by (cases t) (force simp: image_iff)+
  have "\<forall>(i, x) \<in> set tw. i = event_id row" "\<forall>(i, x) \<in> set tr. i = event_id row"
    "\<forall>(i, x) \<in> set tp. i = event_id row" "\<forall>(i, x) \<in> set td. i = event_id row"
    using tw(2) tr(2) tp(2) td(2) by auto
  note all = this
  show "facts_ok d'"
    unfolding facts_ok_def tw(1) tr(1) tp(1) using assms(2) old
    by (intro conjI; intro dist [OF _ all(1) len(1)] dist [OF _ all(2) len(2)] dist [OF _ all(3) len(3)];
      simp add: facts_ok_def)
  have kept: "has_row d' i K" if "has_row d i K" for i K
  proof -
    have "i \<noteq> event_id row" using that new by (auto simp: has_row_def not_materialized_def)
    with that show ?thesis by (simp add: has_row_def f)
  qed
  have fresh_row: "has_row d' (event_id row) K" if "payload_kind p \<in> K" for K
    using that row by (simp add: has_row_def f)
  have tables: "\<forall>(i, x) \<in> set (t0 @ t). has_row d' i K"
    if "\<forall>(i, x) \<in> set t0. has_row d i K" "\<forall>(i, x) \<in> set t. i = event_id row" "t \<noteq> [] \<Longrightarrow> payload_kind p \<in> K"
    for t0 t :: "(string \<times> 'c) list" and K
    using that kept fresh_row by (cases "t = []") fastforce+
  have "tr \<noteq> [] \<Longrightarrow> payload_kind p \<in> {RESULT_RECORDED}" using tr(2) by (cases tr) auto
  moreover have "td \<noteq> [] \<Longrightarrow> payload_kind p \<in> {WORK_DEPENDENCY_DECLARED}" using td(2) by (cases td) auto
  moreover note distinct
  moreover have "distinct (map fst (event_work_dependency d'))"
    unfolding td(1) using assms(1) old by (intro dist [OF _ all(4) len(4)]) (auto simp: facts_held_def)
  ultimately show "facts_held d'"
    using assms(1) kinds unfolding facts_held_def tw(1) tr(1) tp(1) td(1)
    by (intro conjI tables all) simp_all
  show "held d' (event_id row) p"
    using adds_rows_held [OF add] f by simp
  show "set (event_work_dependency d) \<subseteq> set (event_work_dependency d')" by (simp add: td(1))
  show "\<forall>(i, x) \<in> set (event_work_dependency d') - set (event_work_dependency d).
       (dd_work_ref x, dd_dependency_work_ref x) \<in> touched_edges p"
    using td(2) unfolding td(1) by auto
qed

lemma arrives_keeps:
  assumes "projected d" "arrives row p d d'"
  shows "facts_held d'" "held d' (event_id row) p"
    "fresh d' (touched_works p) (touched_sources p) (touched_plans p)"
    "complete d' (touched_works p) (touched_edges p) (touched_plans p) (touched_occurrences p)"
proof -
  have held: "facts_held d" and f: "fresh d {} {} {}" and c: "complete d {} {} {} {}"
    using assms(1) by (auto simp: projected_def)
  have ok: "facts_ok d" using f by (simp add: fresh_def)
  note t = arrives_tables [OF held ok assms(2)]
  note q = arrives_queries [OF held assms(2)]
  show "facts_held d'" "held d' (event_id row) p" by (rule t)+
  have rows: "dependency_rows d' w = dependency_rows d w" for w by (simp add: dependency_rows_def t(9))
  have mono: "touched_sources p \<subseteq> touched_works p" by (cases p) auto
  have core: "core_of d' w = core_of d w" if "w \<notin> touched_works p" for w
  proof -
    have w: "w \<notin> touched_sources p" using that mono by blast
    show ?thesis
      unfolding core_of_def execution_of_def columns_of_def rows q(1) [OF that] q(3) [OF w] q(4) [OF w] ..
  qed
  have state: "dep_state_of d' w = dep_state_of d w" if "w \<notin> touched_sources p" for w
    unfolding dep_state_of_def q(3) [OF that] q(4) [OF that] ..
  have res: "dep_result_of d' w = dep_result_of d w" if "w \<notin> touched_sources p" for w
    unfolding dep_result_of_def q(3) [OF that] ..
  have plan: "plan_core_of d' v = plan_core_of d v" if "v \<notin> touched_plans p" for v
    unfolding plan_core_of_def q(8) [OF that] q(9) [OF that] ..
  have "quarantine_ok d'"
    using f q(7) unfolding fresh_def quarantine_ok_def t(6) by blast
  moreover have "fresh_works d' (touched_works p)"
    using f core q(2) unfolding fresh_def fresh_works_def t(7) by (metis empty_iff)
  moreover have "fresh_deps d' (touched_sources p)"
  proof -
    have "fresh_row d' (touched_sources p) b" if "fresh_row d {} b" for b
      using that state [of "cd_dependency_work_ref b"] res [of "cd_dependency_work_ref b"]
        q(4) [of "cd_dependency_work_ref b"] q(5) [of "cd_dependency_work_ref b"]
      unfolding fresh_row_def by (metis empty_iff)
    with f show ?thesis unfolding fresh_def fresh_deps_rows t(9) list_all_iff by blast
  qed
  moreover have "fresh_plans d' (touched_plans p)"
    using f plan q(10) unfolding fresh_def fresh_plans_def t(8) by (metis empty_iff)
  ultimately show "fresh d' (touched_works p) (touched_sources p) (touched_plans p)"
    using t(2) by (simp add: fresh_def)
  have "current_work d' w \<noteq> None" if "w \<notin> touched_works p" "latest_derive d' w \<noteq> None" for w
    using c that q(1) unfolding complete_def t(7) by (metis empty_iff)
  moreover have "current_plans d' v \<noteq> None" if "v \<notin> touched_plans p" "latest_plan_created d' v \<noteq> None" for v
    using c that q(8) unfolding complete_def t(8) by (metis empty_iff)
  moreover have "settled_occurrence d' w k" if "(w, k) \<notin> touched_occurrences p" for w k
    using c q(6) [OF that] unfolding complete_def settled_occurrence_def quarantined_ids_def t(6) by auto
  moreover have "has_edge d' (dd_work_ref x) (dd_dependency_work_ref x)"
    if x: "(eid, x) \<in> set (event_work_dependency d')"
      "(dd_work_ref x, dd_dependency_work_ref x) \<notin> touched_edges p" for eid x
  proof -
    have "(eid, x) \<in> set (event_work_dependency d)" using t(5) x by blast
    then show ?thesis using c unfolding complete_def has_edge_def t(9) by blast
  qed
  moreover have "\<exists>(eid, x) \<in> set (event_work_dependency d').
          dd_work_ref x = cd_work_ref b \<and> dd_dependency_work_ref x = cd_dependency_work_ref b
          \<and> dd_satisfaction_policy x = cd_satisfaction_policy b" if "b \<in> set (current_work_dependency d')" for b
    using c that t(4) unfolding complete_def t(9) by blast
  moreover have "distinct (map (\<lambda>c. (cd_work_ref c, cd_dependency_work_ref c)) (current_work_dependency d'))"
    using c unfolding complete_def t(9) by blast
  ultimately show "complete d' (touched_works p) (touched_edges p) (touched_plans p) (touched_occurrences p)"
    unfolding complete_def by blast
qed

section \<open>The live path\<close>

text \<open>An event is written with its payload and reduced: the emit path and the pull path alike.\<close>

definition record_event :: "uuid_cast \<Rightarrow> int \<Rightarrow> event \<Rightarrow> db \<Rightarrow> db result" where
  "record_event uc now e d =
     bind_result (insert_event uc e d) (\<lambda>d1. bind_result (insert_payload uc e d1) (reduce now e))"

fun record_events :: "uuid_cast \<Rightarrow> (int \<times> event) list \<Rightarrow> db \<Rightarrow> db result" where
  "record_events uc [] d = Inr d"
| "record_events uc ((now, e) # es) d = bind_result (record_event uc now e d) (record_events uc es)"

text \<open>The kind of the envelope is the kind of the payload, as \<open>emit\<close> writes it.\<close>

definition well_kinded :: "event \<Rightarrow> bool" where
  "well_kinded e \<longleftrightarrow> (\<forall>p. payload e = Some p \<longrightarrow> kind e = payload_kind p)"

lemma insert_arrives:
  assumes "insert_event uc e d = Inr d1" "insert_payload uc e d1 = Inr d2" "well_kinded e" "payload e = Some p"
    and "distinct (map event_id (events d))"
  obtains row where "arrives row p d d2" "event_id row = event_id e"
proof -
  obtain s where s: "d1 = d\<lparr>events := events d @ [row_of_event e (\<not> is_stub e) s]\<rparr>"
    "event_id e \<notin> event_id ` set (events d)"
    using insert_event_Inr [OF assms(1)] by metis
  have m: "\<not> is_stub e" using assms(4) by (simp add: is_stub_def)
  let ?row = "row_of_event e True s"
  have ev: "events d2 = events d @ [?row]"
    using insert_payload_events [OF assms(2)] s m by simp
  have new: "event_id ?row \<notin> event_id ` set (events d)" using s(2) by simp
  have "lookup_plus ?row d d2"
    unfolding lookup_plus_def using find_event_append [OF new ev] by blast
  moreover have "not_materialized d (event_id ?row)"
    using find_event_new [OF new] by (simp add: not_materialized_def)
  moreover have "adds_rows (event_id ?row) p (d\<lparr>events := events d2\<rparr>) d2"
    using insert_payload_adds [OF assms(2,4)] s m ev by simp
  moreover have "distinct (map event_id (events d2))" using assms(5) new by (simp add: ev)
  ultimately have "arrives ?row p d d2"
    using assms(3,4) by (simp add: arrives_def well_kinded_def)
  then show thesis using that by (metis row_of_event_simps(1))
qed

lemma reduce_payload_set: "reduce now e d = Inr d' \<Longrightarrow> \<exists>p. payload e = Some p"
  by (erule reduce_Inr) blast

lemma facts_held_facts: "same_facts d d' \<Longrightarrow> facts_held d = facts_held d'"
  by (simp add: facts_held_def has_row_def query_facts(1) same_factsD)

lemma record_event_projected:
  assumes "projected d" "well_kinded e" "record_event uc now e d = Inr d'"
  shows "projected d'"
proof -
  obtain d1 d2 where i: "insert_event uc e d = Inr d1" "insert_payload uc e d1 = Inr d2" "reduce now e d2 = Inr d'"
    using assms(3) by (auto simp: record_event_def)
  obtain p where p: "payload e = Some p" using reduce_payload_set [OF i(3)] by blast
  have "distinct (map event_id (events d))" using assms(1) by (simp add: projected_def facts_held_def)
  then obtain row where row: "arrives row p d d2" "event_id row = event_id e"
    using insert_arrives [OF i(1,2) assms(2) p] by blast
  note k = arrives_keeps [OF assms(1) row(1)]
  have "held d2 (event_id e) p" using k(2) row(2) by simp
  from reduce_keeps [OF k(3,4) p this i(3)] facts_held_facts [of d2 d'] k(1)
  show ?thesis by (simp add: projected_def)
qed

lemma record_events_projected:
  "projected d \<Longrightarrow> \<forall>(now, e) \<in> set es. well_kinded e \<Longrightarrow> record_events uc es d = Inr d' \<Longrightarrow> projected d'"
  by (induction uc es d rule: record_events.induct) (auto intro: record_event_projected)

section \<open>The replay\<close>

lemma load_rows_Inr:
  "load_rows cr d sig rs = Inr es \<Longrightarrow>
     (\<forall>e \<in> set es. \<exists>r \<in> set rs. load_event cr d sig r = Inr e)
     \<and> (\<forall>r \<in> set rs. \<exists>e \<in> set es. load_event cr d sig r = Inr e)"
proof (induction rs arbitrary: es)
  case (Cons r rs)
  then obtain e es' where e: "load_event cr d sig r = Inr e" "load_rows cr d sig rs = Inr es'" "es = e # es'" by auto
  from Cons.IH [OF e(2)] e(1) show ?case unfolding e(3) by (metis list.set_intros set_ConsD)
qed simp

lemma load_event_Inr:
  assumes "load_event cr d sig r = Inr e"
  shows "event_id e = event_id r"
    "if materialized r then \<exists>p. load_payload cr d (event_id r) (kind r) = Inr p \<and> payload e = Some p
     else payload e = None"
  using assms by (auto simp: load_event_def event_of_row_def split: if_splits)

lemma load_payload_held:
  assumes "load_payload cr d eid k = Inr p" "find_event d eid \<noteq> None"
  shows "held d eid p"
proof (cases k)
  case PLAN_CREATED
  with assms(1) obtain r where r: "map_of (event_plan d) eid = Some r" by auto
  with PLAN_CREATED assms(1) show ?thesis
    by (cases "ep_objective r"; cases "ep_lifecycle r") (auto simp: validated_def)
next
  case PLAN_LIFECYCLE_CHANGED
  with assms(1) show ?thesis by (auto simp: validated_def split: option.splits if_splits)
next
  case AUTHORITY_CONFIGURATION
  with assms(1) obtain r where r: "map_of (event_authority_configuration d) eid = Some r" by auto
  with AUTHORITY_CONFIGURATION assms(1) obtain j where "loads (float_repr cr) (ac_members_text r) = Some j"
    by (cases "loads (float_repr cr) (ac_members_text r)") auto
  with r AUTHORITY_CONFIGURATION assms(1) show ?thesis
    by (cases "text_list j") (auto simp: validated_def split: if_splits)
qed (use assms in \<open>auto simp: validated_def dest: map_of_SomeD split: if_splits\<close>)

lemma load_payload_touches:
  assumes "facts_ok d" "facts_held d"
  shows "(eid, x) \<in> set (event_work d) \<Longrightarrow> load_payload cr d eid WORK_DERIVED = Inr p \<Longrightarrow>
      touched_works p = {wd_work_ref x}"
    "(eid, y) \<in> set (event_result d) \<Longrightarrow> load_payload cr d eid RESULT_RECORDED = Inr p \<Longrightarrow> p = ResultRecorded y"
    "(eid, z) \<in> set (event_plan d) \<Longrightarrow> k \<in> {PLAN_CREATED, PLAN_LIFECYCLE_CHANGED} \<Longrightarrow>
      load_payload cr d eid k = Inr p \<Longrightarrow> touched_plans p = {ep_plan_ref z}"
    "(eid, q) \<in> set (event_work_dependency d) \<Longrightarrow> load_payload cr d eid WORK_DEPENDENCY_DECLARED = Inr p \<Longrightarrow>
      p = WorkDependencyDeclared q"
proof -
  have m: "distinct (map fst (event_work d))" "distinct (map fst (event_result d))"
    "distinct (map fst (event_plan d))" "distinct (map fst (event_work_dependency d))"
    using assms by (auto simp: facts_ok_def facts_held_def)
  note m = m [THEN map_of_eq_Some_iff]
  show "(eid, x) \<in> set (event_work d) \<Longrightarrow> load_payload cr d eid WORK_DERIVED = Inr p \<Longrightarrow>
      touched_works p = {wd_work_ref x}"
    by (auto simp: validated_def m(1) [THEN iffD2] split: if_splits)
  show "(eid, y) \<in> set (event_result d) \<Longrightarrow> load_payload cr d eid RESULT_RECORDED = Inr p \<Longrightarrow> p = ResultRecorded y"
    by (auto simp: validated_def m(2) [THEN iffD2] split: if_splits)
  show "(eid, z) \<in> set (event_plan d) \<Longrightarrow> k \<in> {PLAN_CREATED, PLAN_LIFECYCLE_CHANGED} \<Longrightarrow>
      load_payload cr d eid k = Inr p \<Longrightarrow> touched_plans p = {ep_plan_ref z}"
    by (auto simp: validated_def m(3) [THEN iffD2] split: if_splits option.splits)
  show "(eid, q) \<in> set (event_work_dependency d) \<Longrightarrow> load_payload cr d eid WORK_DEPENDENCY_DECLARED = Inr p \<Longrightarrow>
      p = WorkDependencyDeclared q"
    by (auto simp: validated_def m(4) [THEN iffD2] split: if_splits)
qed

definition payloads_of :: "event list \<Rightarrow> payload set" where
  "payloads_of es = {p. \<exists>e \<in> set es. payload e = Some p}"

lemma payloads_of_Cons:
  "payloads_of (e # es) = (case payload e of Some p \<Rightarrow> insert p (payloads_of es) | None \<Rightarrow> payloads_of es)"
  by (auto simp: payloads_of_def split: option.split)

lemma replay_keeps:
  assumes "replay cr now es d = Inr d'" "fresh d {} {} {}" "complete d W D P K"
    and "\<forall>e \<in> set es. \<forall>p. payload e = Some p \<longrightarrow> held d (event_id e) p"
  shows "fresh d' {} {} {} \<and> same_facts d d'
    \<and> complete d' (W - \<Union> (touched_works ` payloads_of es)) (D - \<Union> (touched_edges ` payloads_of es))
        (P - \<Union> (touched_plans ` payloads_of es)) (K - \<Union> (touched_occurrences ` payloads_of es))"
  using assms
proof (induction es arbitrary: d W D P K)
  case Nil
  then show ?case by (simp add: payloads_of_def)
next
  case (Cons e es)
  show ?case
  proof (cases "payload e")
    case None
    with Cons.prems have "replay cr now es d = Inr d'" by (auto simp: is_stub_def split: if_splits)
    from Cons.IH [OF this Cons.prems(2,3)] Cons.prems(4) None show ?thesis by (simp add: payloads_of_Cons)
  next
    case (Some p)
    then obtain d1 where d1: "reduce now e d = Inr d1" "replay cr now es d1 = Inr d'"
      using Cons.prems(1) by (auto simp: is_stub_def split: if_splits)
    have "held d (event_id e) p" using Cons.prems(4) Some by simp
    note k = reduce_keeps [OF Cons.prems(2,3) Some this d1(1)]
    have "\<forall>e \<in> set es. \<forall>p. payload e = Some p \<longrightarrow> held d1 (event_id e) p"
      using Cons.prems(4) held_facts k by auto
    note IH = Cons.IH [OF d1(2) _ conjunct1 [OF conjunct2 [OF k]] this]
    have "fresh d1 {} {} {}" using k by simp
    from IH [OF this] k same_facts_trans show ?thesis
      by (auto simp: payloads_of_Cons Some Diff_Un Diff_Int2 [symmetric] Diff_eq Int_assoc)
  qed
qed

lemma truncate_start:
  assumes "facts_ok d"
  shows "fresh (truncate_projections d) {} {} {}" "complete (truncate_projections d) UNIV UNIV UNIV UNIV"
    "same_facts d (truncate_projections d)"
  using assms
  by (auto simp: fresh_def facts_ok_def quarantine_ok_def fresh_works_def fresh_deps_def fresh_plans_def
      complete_def truncate_projections_def same_facts_def)

lemma complete_finish:
  assumes "complete d (UNIV - W) (UNIV - E) (UNIV - P) (UNIV - K)"
    and "\<And>w. latest_derive d w \<noteq> None \<Longrightarrow> w \<in> W"
    and "\<And>eid x. (eid, x) \<in> set (event_work_dependency d) \<Longrightarrow> (dd_work_ref x, dd_dependency_work_ref x) \<in> E"
    and "\<And>v. latest_plan_created d v \<noteq> None \<Longrightarrow> v \<in> P"
    and "\<And>w k. settled_occurrence d w k"
  shows "complete d {} {} {} {}"
proof -
  have "\<forall>w. w \<notin> {} \<longrightarrow> latest_derive d w \<noteq> None \<longrightarrow> current_work d w \<noteq> None"
    using assms(1,2) unfolding complete_def by (metis Diff_iff)
  moreover have "\<forall>(eid, x) \<in> set (event_work_dependency d).
      (dd_work_ref x, dd_dependency_work_ref x) \<notin> {} \<longrightarrow> has_edge d (dd_work_ref x) (dd_dependency_work_ref x)"
    using assms(1,3) unfolding complete_def by fast
  moreover have "\<forall>v. v \<notin> {} \<longrightarrow> latest_plan_created d v \<noteq> None \<longrightarrow> current_plans d v \<noteq> None"
    using assms(1,4) unfolding complete_def by (metis Diff_iff)
  ultimately show ?thesis
    using assms(1,5) unfolding complete_def by (intro conjI) (assumption | blast)+
qed

lemma rebuild_projected:
  assumes "facts_ok d" "facts_held d" "rebuild cr now d = Inr (d', n)"
  shows "projected d'" "same_facts d d'"
proof -
  let ?d0 = "truncate_projections d"
  obtain es where es: "load_rows cr ?d0 False (events ?d0) = Inr es" "replay cr now es ?d0 = Inr d'"
    using assms(3) by (auto simp: rebuild_def load_events_def Let_def)
  note t = truncate_start [OF assms(1)]
  have ok: "facts_ok ?d0" "facts_held ?d0"
    using assms(1,2) facts_held_facts [OF t(3)] query_facts(8) [OF t(3)] by auto
  have dist: "distinct (map event_id (events ?d0))" using ok(2) by (simp add: facts_held_def)
  have found: "find_event ?d0 (event_id r) = Some r" if "r \<in> set (events ?d0)" for r
  proof -
    have "List.find (\<lambda>q. event_id q = event_id r) rs = Some r" if "r \<in> set rs" "distinct (map event_id rs)" for rs
      using that by (induction rs) (auto simp: image_iff)
    with that dist show ?thesis by (simp add: find_event_def)
  qed
  have loaded: "held ?d0 (event_id e) p" if "e \<in> set es" "payload e = Some p" for e p
  proof -
    from that(1) load_rows_Inr [OF es(1)] obtain r where r: "r \<in> set (events ?d0)" "load_event cr ?d0 False r = Inr e"
      by blast
    from load_event_Inr [OF r(2)] that(2) have "load_payload cr ?d0 (event_id r) (kind r) = Inr p"
      "event_id e = event_id r" by (auto split: if_splits)
    with load_payload_held found [OF r(1)] show ?thesis by simp
  qed
  have replayed: "\<exists>p \<in> payloads_of es. load_payload cr ?d0 eid (kind r) = Inr p"
    if "find_event ?d0 eid = Some r" "materialized r" for eid r
  proof -
    have "r \<in> set (events ?d0)" "event_id r = eid" using find_event_Some [OF that(1)] by auto
    then obtain e where "e \<in> set es" "load_event cr ?d0 False r = Inr e" using load_rows_Inr [OF es(1)] by blast
    with load_event_Inr(2) [OF this(2)] that(2) \<open>event_id r = eid\<close> show ?thesis by (auto simp: payloads_of_def)
  qed
  let ?W = "\<Union> (touched_works ` payloads_of es)" and ?E = "\<Union> (touched_edges ` payloads_of es)"
  let ?P = "\<Union> (touched_plans ` payloads_of es)" and ?K = "\<Union> (touched_occurrences ` payloads_of es)"
  have k: "fresh d' {} {} {}" "same_facts ?d0 d'" "complete d' (UNIV - ?W) (UNIV - ?E) (UNIV - ?P) (UNIV - ?K)"
    using replay_keeps [OF es(2) t(1,2)] loaded by blast+
  show "same_facts d d'" using same_facts_trans [OF t(3) k(2)] .
  note qd = query_facts [OF k(2)]
  have works: "w \<in> ?W" if w: "latest_derive d' w \<noteq> None" for w
  proof -
    have "latest_derive ?d0 w \<noteq> None" using w qd(2) by simp
    then have "joined ?d0 (event_work ?d0) (\<lambda>r x. wd_work_ref x = w) \<noteq> []"
      unfolding latest_derive_def by (simp add: latest_None)
    then obtain r x where "(r, x) \<in> set (joined ?d0 (event_work ?d0) (\<lambda>r x. wd_work_ref x = w))"
      by (metis ex_in_conv list.set_sel(1) surj_pair)
    then have x: "(event_id r, x) \<in> set (event_work ?d0)" "wd_work_ref x = w" by (auto simp: joined_mem)
    then obtain r' where r': "find_event ?d0 (event_id r) = Some r'" "materialized r'" "kind r' = WORK_DERIVED"
      using ok(2) by (fastforce simp: facts_held_def has_row_def)
    obtain p where "p \<in> payloads_of es" "load_payload cr ?d0 (event_id r) WORK_DERIVED = Inr p"
      using replayed [OF r'(1,2)] r'(3) by auto
    with load_payload_touches(1) [OF ok x(1)] x(2) show ?thesis by blast
  qed
  have edges: "(dd_work_ref x, dd_dependency_work_ref x) \<in> ?E" if x: "(eid, x) \<in> set (event_work_dependency d')" for eid x
  proof -
    have x0: "(eid, x) \<in> set (event_work_dependency ?d0)" using x same_factsD(6) [OF k(2)] by simp
    then obtain r' where r': "find_event ?d0 eid = Some r'" "materialized r'" "kind r' = WORK_DEPENDENCY_DECLARED"
      using ok(2) by (fastforce simp: facts_held_def has_row_def)
    obtain p where "p \<in> payloads_of es" "load_payload cr ?d0 eid WORK_DEPENDENCY_DECLARED = Inr p"
      using replayed [OF r'(1,2)] r'(3) by auto
    with load_payload_touches(4) [OF ok x0] show ?thesis by force
  qed
  have plans: "v \<in> ?P" if v: "latest_plan_created d' v \<noteq> None" for v
  proof -
    have "latest_plan_created ?d0 v \<noteq> None" using v qd(4) by simp
    then have "joined ?d0 (event_plan ?d0) (\<lambda>r x. ep_plan_ref x = v \<and> kind r = PLAN_CREATED) \<noteq> []"
      unfolding latest_plan_created_def by (simp add: latest_None)
    then obtain r x where "(r, x) \<in> set (joined ?d0 (event_plan ?d0) (\<lambda>r x. ep_plan_ref x = v \<and> kind r = PLAN_CREATED))"
      by (metis ex_in_conv list.set_sel(1) surj_pair)
    then have x: "(event_id r, x) \<in> set (event_plan ?d0)" "ep_plan_ref x = v" by (auto simp: joined_mem)
    then obtain r' where r': "find_event ?d0 (event_id r) = Some r'" "materialized r'"
      "kind r' \<in> {PLAN_CREATED, PLAN_LIFECYCLE_CHANGED}"
      using ok(2) by (fastforce simp: facts_held_def has_row_def)
    obtain p where "p \<in> payloads_of es" "load_payload cr ?d0 (event_id r) (kind r') = Inr p"
      using replayed [OF r'(1,2)] by auto
    with load_payload_touches(3) [OF ok x(1) r'(3)] x(2) show ?thesis by blast
  qed
  have occ: "settled_occurrence d' w k" for w k
  proof (cases "consumers d' w k = []")
    case True
    then show ?thesis by (simp add: settled_occurrence_def)
  next
    case False
    then have "consumers ?d0 w k \<noteq> []" using qd(3) by simp
    then obtain eid where "eid \<in> set (consumers ?d0 w k)" by (cases "consumers ?d0 w k") auto
    then obtain x where x: "(eid, x) \<in> set (event_result ?d0)" "rr_work_ref x = w" "rr_occurrence_key x = Some k"
      unfolding consumers_mem by blast
    then obtain r' where r': "find_event ?d0 eid = Some r'" "materialized r'" "kind r' = RESULT_RECORDED"
      using ok(2) by (fastforce simp: facts_held_def has_row_def)
    obtain p where "p \<in> payloads_of es" "load_payload cr ?d0 eid RESULT_RECORDED = Inr p"
      using replayed [OF r'(1,2)] r'(3) by auto
    with load_payload_touches(2) [OF ok x(1)] x(2,3) have "(w, k) \<in> ?K" by force
    with k(3) show ?thesis unfolding complete_def by blast
  qed
  have "complete d' {} {} {} {}"
    using works edges plans occ by (intro complete_finish [OF k(3)])
  then show "projected d'" unfolding projected_def using k(1) facts_held_facts [OF k(2)] ok(2) by blast
qed

section \<open>A projected database is determined by its facts\<close>

definition same_fact_sets :: "db \<Rightarrow> db \<Rightarrow> bool" where
  "same_fact_sets d d' \<longleftrightarrow> set (events d) = set (events d') \<and> set (event_work d) = set (event_work d')
     \<and> set (event_result d) = set (event_result d') \<and> set (event_plan d) = set (event_plan d')
     \<and> set (event_work_retired d) = set (event_work_retired d')
     \<and> set (event_work_dependency d) = set (event_work_dependency d')"

text \<open>
  What the projections say, without the bookkeeping columns (\<open>latest_event_id\<close> and the value of
  \<open>ready_at\<close>, which is the wall clock of the last recomputation).  The line of an edge is its whole
  row; only an edge into a retired work keeps its \<open>result_ref\<close> to itself, which is whatever result
  came before the retirement.
\<close>

definition work_view :: "db \<Rightarrow> string \<Rightarrow> work_core option" where
  "work_view d w = map_option work_core (current_work d w)"

definition plan_view :: "db \<Rightarrow> string \<Rightarrow> plan_core option" where
  "plan_view d p = map_option plan_core (current_plans d p)"

type_synonym edge_line = "string \<times> string \<times> policy \<times> dependency_state \<times> string option"

definition edge_line :: "dependency_row \<Rightarrow> edge_line" where
  "edge_line c = (cd_work_ref c, cd_dependency_work_ref c, cd_satisfaction_policy c, cd_state c,
     if cd_state c = Dep_retired then None else cd_result_ref c)"

definition edge_view :: "db \<Rightarrow> edge_line set" where
  "edge_view d = edge_line ` set (current_work_dependency d)"

definition same_view :: "db \<Rightarrow> db \<Rightarrow> bool" where
  "same_view d d' \<longleftrightarrow> work_view d = work_view d' \<and> plan_view d = plan_view d'
     \<and> edge_view d = edge_view d' \<and> quarantined_ids d = quarantined_ids d'"

text \<open>One work does not mix satisfaction policies.\<close>

definition uniform_policies :: "db \<Rightarrow> bool" where
  "uniform_policies d \<longleftrightarrow> (\<forall>(i, x) \<in> set (event_work_dependency d). \<forall>(j, y) \<in> set (event_work_dependency d).
     dd_work_ref x = dd_work_ref y \<longrightarrow> dd_satisfaction_policy x = dd_satisfaction_policy y)"

lemma find_event_set:
  assumes "distinct (map event_id (events d))"
  shows "find_event d eid = Some r \<longleftrightarrow> r \<in> set (events d) \<and> event_id r = eid"
proof -
  have "List.find (\<lambda>q. event_id q = eid) rs = Some r \<longleftrightarrow> r \<in> set rs \<and> event_id r = eid"
    if "distinct (map event_id rs)" for rs
    using that by (induction rs) (auto simp: image_iff)
  with assms show ?thesis by (simp add: find_event_def)
qed

lemma joined_sets:
  assumes "distinct (map event_id (events d))" "distinct (map event_id (events d'))"
    and "set (events d) = set (events d')" "set t = set t'"
  shows "set (joined d t c) = set (joined d' t' c)"
proof -
  have "find_event d eid = find_event d' eid" for eid
    using find_event_set [OF assms(1)] find_event_set [OF assms(2)] assms(3) by (metis option.exhaust)
  then have "p \<in> set (joined d t c) \<longleftrightarrow> p \<in> set (joined d' t' c)" for p
    by (cases p) (simp add: joined_mem assms(4))
  then show ?thesis by blast
qed

lemma sort_key_unique:
  assumes "set xs = set ys" "distinct xs" "distinct ys" "inj_on k (set xs)"
  shows "sort_key k xs = sort_key k ys"
proof -
  have "map k (sort_key k xs) = map k (sort_key k ys)"
    using assms by (intro sorted_distinct_set_unique) (auto simp: distinct_map)
  then show ?thesis using assms(1,4) by (auto simp: map_inj_on inj_on_def intro: map_inj_on)
qed

lemma consumers_joined_distinct:
  assumes "facts_ok d"
  shows "distinct (joined d (event_result d) (\<lambda>r x. rr_work_ref x = w \<and> rr_occurrence_key x = Some k))"
  using consumers_distinct [OF assms, of w k] by (simp add: consumers_def distinct_map)

lemma same_fact_queries:
  assumes "projected d" "projected d'" "same_fact_sets d d'"
  shows "latest_derive d w = latest_derive d' w" "consumers d w k = consumers d' w k"
    "latest_plan_created d p = latest_plan_created d' p" "latest_lifecycle d p = latest_lifecycle d' p"
    "is_retired d w = is_retired d' w"
proof -
  have dist: "distinct (map event_id (events d))" "distinct (map event_id (events d'))"
    using assms(1,2) by (auto simp: projected_def facts_held_def)
  have ok: "facts_ok d" "facts_ok d'" using assms(1,2) by (auto simp: projected_def fresh_def)
  note s = assms(3) [unfolded same_fact_sets_def]
  note j = joined_sets [OF dist conjunct1 [OF s]]
  have "latest d t c = latest d' t' c" if "set t = set t'" "distinct (map fst t)"
    for t t' :: "(string \<times> 'b) list" and c
    unfolding latest_def using j [OF that(1), of c] order_key_inj [OF that(2), of d c]
    by (intro latest_by_set_cong) simp_all
  note l = this
  show "latest_derive d w = latest_derive d' w"
    unfolding latest_derive_def using s ok(1) by (simp add: facts_ok_def l)
  have lp: "latest d (event_plan d) c = latest d' (event_plan d') c" for c
  proof -
    have "latest d t c = latest d' t' c" if "set t = set t'" "distinct (map fst t)" for t t'
      unfolding latest_def using joined_sets [OF dist conjunct1 [OF s] that(1), of c] order_key_inj [OF that(2), of d c]
      by (intro latest_by_set_cong) simp_all
    then show ?thesis using s ok(1) by (simp add: facts_ok_def)
  qed
  show "latest_plan_created d p = latest_plan_created d' p" "latest_lifecycle d p = latest_lifecycle d' p"
    unfolding latest_plan_created_def latest_lifecycle_def lp by (rule refl)+
  show "is_retired d w = is_retired d' w"
    using s by (auto simp: is_retired_def list_ex_iff)
  have "sort_key (order_key \<circ> fst) (joined d (event_result d) (\<lambda>r x. rr_work_ref x = w \<and> rr_occurrence_key x = Some k))
      = sort_key (order_key \<circ> fst) (joined d' (event_result d') (\<lambda>r x. rr_work_ref x = w \<and> rr_occurrence_key x = Some k))"
    using s ok joined_sets [OF dist conjunct1 [OF s], of "event_result d" "event_result d'"]
    by (intro sort_key_unique consumers_joined_distinct order_key_inj) (simp_all add: facts_ok_def)
  then show "consumers d w k = consumers d' w k" by (simp add: consumers_def)
qed

lemma projected_quarantine:
  assumes "projected d"
  shows "quarantined_ids d = (\<Union>(w, k). set (tl (consumers d w k)))"
proof
  have q: "quarantine_ok d" and s: "settled_occurrence d w k" for w k
    using assms by (auto simp: projected_def fresh_def complete_def)
  show "quarantined_ids d \<subseteq> (\<Union>(w, k). set (tl (consumers d w k)))"
  proof
    fix eid
    assume e: "eid \<in> quarantined_ids d"
    then obtain w k where "eid \<in> set (consumers d w k)"
      using q by (auto simp: quarantine_ok_def quarantined_ids_def)
    with e s [of w k] show "eid \<in> (\<Union>(w, k). set (tl (consumers d w k)))"
      unfolding settled_occurrence_def by auto
  qed
  show "(\<Union>(w, k). set (tl (consumers d w k))) \<subseteq> quarantined_ids d"
    using s unfolding settled_occurrence_def by auto
qed

lemma uniformD:
  "uniform_policies d \<Longrightarrow> (i, x) \<in> set (event_work_dependency d) \<Longrightarrow> (j, y) \<in> set (event_work_dependency d)
    \<Longrightarrow> dd_work_ref x = dd_work_ref y \<Longrightarrow> dd_satisfaction_policy x = dd_satisfaction_policy y"
  unfolding uniform_policies_def by fast

text \<open>The line that a declaration calls for.\<close>

definition declared_line :: "db \<Rightarrow> work_dependency_declared \<Rightarrow> edge_line" where
  "declared_line d x = (dd_work_ref x, dd_dependency_work_ref x, dd_satisfaction_policy x,
     dep_state_of d (dd_dependency_work_ref x),
     if is_retired d (dd_dependency_work_ref x) then None else dep_result_of d (dd_dependency_work_ref x))"

lemma dep_state_of_retired: "dep_state_of d w = Dep_retired \<longleftrightarrow> is_retired d w"
  by (auto simp: dep_state_of_def split: option.split)

lemma projected_line:
  assumes "projected d" "c \<in> set (current_work_dependency d)" "cd_work_ref c = dd_work_ref x"
    "cd_dependency_work_ref c = dd_dependency_work_ref x" "cd_satisfaction_policy c = dd_satisfaction_policy x"
  shows "edge_line c = declared_line d x"
proof -
  have f: "cd_state c = dep_state_of d (cd_dependency_work_ref c)"
    "\<not> is_retired d (cd_dependency_work_ref c) \<longrightarrow> cd_result_ref c = dep_result_of d (cd_dependency_work_ref c)"
    using assms(1,2) unfolding projected_def fresh_def fresh_deps_def by blast+
  then show ?thesis using assms(3-5) by (simp add: edge_line_def declared_line_def dep_state_of_retired)
qed

lemma projected_edges:
  assumes "projected d" "uniform_policies d"
  shows "edge_view d = declared_line d ` snd ` set (event_work_dependency d)"
proof
  show "edge_view d \<subseteq> declared_line d ` snd ` set (event_work_dependency d)"
  proof
    fix l
    assume "l \<in> edge_view d"
    then obtain c where c: "c \<in> set (current_work_dependency d)" "l = edge_line c" by (auto simp: edge_view_def)
    then obtain i x where x: "(i, x) \<in> set (event_work_dependency d)" "dd_work_ref x = cd_work_ref c"
      "dd_dependency_work_ref x = cd_dependency_work_ref c" "dd_satisfaction_policy x = cd_satisfaction_policy c"
      using assms(1) unfolding projected_def complete_def by fast
    with projected_line [OF assms(1) c(1)] c(2) have "l = declared_line d x" by simp
    with x(1) show "l \<in> declared_line d ` snd ` set (event_work_dependency d)" by force
  qed
  show "declared_line d ` snd ` set (event_work_dependency d) \<subseteq> edge_view d"
  proof
    fix l
    assume "l \<in> declared_line d ` snd ` set (event_work_dependency d)"
    then obtain i x where x: "(i, x) \<in> set (event_work_dependency d)" "l = declared_line d x" by auto
    then have "has_edge d (dd_work_ref x) (dd_dependency_work_ref x)"
      using assms(1) unfolding projected_def complete_def by fast
    then obtain c where c: "c \<in> set (current_work_dependency d)" "cd_work_ref c = dd_work_ref x"
      "cd_dependency_work_ref c = dd_dependency_work_ref x" by (auto simp: has_edge_def)
    then obtain j y where y: "(j, y) \<in> set (event_work_dependency d)" "dd_work_ref y = cd_work_ref c"
      "dd_satisfaction_policy y = cd_satisfaction_policy c"
      using assms(1) unfolding projected_def complete_def by fast
    with uniformD [OF assms(2) y(1) x(1)] c(2) have "cd_satisfaction_policy c = dd_satisfaction_policy x" by simp
    then have "l = edge_line c" using projected_line [OF assms(1) c] x(2) by simp
    with c(1) show "l \<in> edge_view d" by (simp add: edge_view_def)
  qed
qed

text \<open>Readiness reads the set of states and the one policy of the work.\<close>

lemma readiness_cong:
  assumes "cd_state ` set rs = cd_state ` set rs'"
    and "\<forall>r \<in> set rs. cd_satisfaction_policy r = p" "\<forall>r \<in> set rs'. cd_satisfaction_policy r = p"
  shows "readiness rs = readiness rs'"
proof -
  have ex: "list_ex (\<lambda>r. P (cd_state r)) rs = list_ex (\<lambda>r. P (cd_state r)) rs'" for P
  proof -
    have l: "list_ex (\<lambda>r. P (cd_state r)) ts \<longleftrightarrow> (\<exists>s \<in> cd_state ` set ts. P s)" for ts
      by (auto simp: list_ex_iff)
    show ?thesis unfolding l assms(1) ..
  qed
  have one: "(length (filter (\<lambda>r. P (cd_state r)) ts) \<ge> 1) = list_ex (\<lambda>r. P (cd_state r)) ts" for P ts
    by (induction ts) auto
  have all: "(length (filter (\<lambda>r. P (cd_state r)) ts) = length ts) = (\<not> list_ex (\<lambda>r. \<not> P (cd_state r)) ts)" for P ts
  proof (cases "\<exists>r \<in> set ts. \<not> P (cd_state r)")
    case True
    then obtain r where "r \<in> set ts" "\<not> P (cd_state r)" by blast
    from length_filter_less [of _ _ "\<lambda>r. P (cd_state r)", OF this] have "length (filter (\<lambda>r. P (cd_state r)) ts) < length ts" .
    moreover have "list_ex (\<lambda>r. \<not> P (cd_state r)) ts" using True by (simp add: list_ex_iff)
    ultimately show ?thesis by simp
  next
    case False
    then have "filter (\<lambda>r. P (cd_state r)) ts = ts" by (intro filter_True) blast
    moreover have "\<not> list_ex (\<lambda>r. \<not> P (cd_state r)) ts" using False by (simp add: list_ex_iff)
    ultimately show ?thesis by simp
  qed
  have empty: "rs = [] \<longleftrightarrow> rs' = []" using assms(1) by auto
  have policy: "(case ts of r # _ \<Rightarrow> cd_satisfaction_policy r | [] \<Rightarrow> PolicyALL) = (if ts = [] then PolicyALL else p)"
    if "\<forall>r \<in> set ts. cd_satisfaction_policy r = p" for ts
    using that by (cases ts) auto
  show ?thesis
    unfolding readiness_def Let_def policy [OF assms(2)] policy [OF assms(3)]
      one [of "\<lambda>s. s \<in> {Dep_satisfied, Dep_conflicted}"] all [of "\<lambda>s. s \<in> {Dep_satisfied, Dep_conflicted}"]
      ex [of "\<lambda>s. s \<in> {Dep_satisfied, Dep_conflicted}"] ex [of "\<lambda>s. s = Dep_failed"]
      ex [of "\<lambda>s. s = Dep_retired"] ex [of "\<lambda>s. \<not> s \<in> {Dep_satisfied, Dep_conflicted}"]
    using empty by simp
qed

lemma same_fact_states:
  assumes "projected d" "projected d'" "same_fact_sets d d'"
  shows "quarantined_ids d = quarantined_ids d'" "latest_result d w = latest_result d' w"
    "dep_state_of d w = dep_state_of d' w" "dep_result_of d w = dep_result_of d' w"
proof -
  note q = same_fact_queries [OF assms]
  show ids: "quarantined_ids d = quarantined_ids d'"
    unfolding projected_quarantine [OF assms(1)] projected_quarantine [OF assms(2)] q(2) ..
  have dist: "distinct (map event_id (events d))" "distinct (map event_id (events d'))"
    and ok: "facts_ok d"
    using assms(1,2) by (auto simp: projected_def facts_held_def fresh_def)
  have quar: "quarantined d = quarantined d'" unfolding quarantined_iff [abs_def] ids ..
  show res: "latest_result d w = latest_result d' w" for w
    unfolding latest_result_def latest_def quar
    using assms(3) ok order_key_inj [of "event_result d" d]
      joined_sets [OF dist, of "event_result d" "event_result d'"]
    by (intro arg_cong [of _ _ "map_option snd"] latest_by_set_cong)
      (simp_all add: same_fact_sets_def facts_ok_def)
  show state: "dep_state_of d w = dep_state_of d' w" for w
    unfolding dep_state_of_def res q(5) ..
  show "dep_result_of d w = dep_result_of d' w"
    unfolding dep_result_of_def res ..
qed

lemma same_fact_edges:
  assumes "projected d" "projected d'" "same_fact_sets d d'" "uniform_policies d"
  shows "edge_view d = edge_view d'"
proof -
  have u: "uniform_policies d'" using assms(3,4) by (simp add: uniform_policies_def same_fact_sets_def)
  have "declared_line d = declared_line d'"
    unfolding declared_line_def [abs_def] same_fact_states(3,4) [OF assms(1-3)] same_fact_queries(5) [OF assms(1-3)] ..
  with assms(3) show ?thesis
    unfolding projected_edges [OF assms(1,4)] projected_edges [OF assms(2) u] by (simp add: same_fact_sets_def)
qed

lemma projected_policies:
  assumes "projected d" "uniform_policies d"
  shows "\<exists>p. \<forall>r \<in> set (dependency_rows d w). cd_satisfaction_policy r = p"
    "c \<in> set (dependency_rows d w) \<Longrightarrow> \<exists>(i, x) \<in> set (event_work_dependency d). dd_work_ref x = w
       \<and> dd_satisfaction_policy x = cd_satisfaction_policy c"
proof -
  have src: "\<exists>(i, x) \<in> set (event_work_dependency d). dd_work_ref x = w
       \<and> dd_satisfaction_policy x = cd_satisfaction_policy c" if "c \<in> set (dependency_rows d w)" for c
  proof -
    from that have "c \<in> set (current_work_dependency d)" "cd_work_ref c = w" by (auto simp: dependency_rows_def)
    then show ?thesis using assms(1) unfolding projected_def complete_def by fast
  qed
  show "c \<in> set (dependency_rows d w) \<Longrightarrow> \<exists>(i, x) \<in> set (event_work_dependency d). dd_work_ref x = w
       \<and> dd_satisfaction_policy x = cd_satisfaction_policy c" by (rule src)
  have "cd_satisfaction_policy b = cd_satisfaction_policy c"
    if bc: "b \<in> set (dependency_rows d w)" "c \<in> set (dependency_rows d w)" for b c
  proof -
    obtain i x where x: "(i, x) \<in> set (event_work_dependency d)" "dd_work_ref x = w"
      "dd_satisfaction_policy x = cd_satisfaction_policy b" using src [OF bc(1)] by blast
    obtain j y where y: "(j, y) \<in> set (event_work_dependency d)" "dd_work_ref y = w"
      "dd_satisfaction_policy y = cd_satisfaction_policy c" using src [OF bc(2)] by blast
    from uniformD [OF assms(2) x(1) y(1)] x y show ?thesis by simp
  qed
  note same = this
  show "\<exists>p. \<forall>r \<in> set (dependency_rows d w). cd_satisfaction_policy r = p"
  proof (cases "set (dependency_rows d w) = {}")
    case False
    then obtain b where "b \<in> set (dependency_rows d w)" by (metis ex_in_conv)
    with same show ?thesis by metis
  qed simp
qed

lemma same_readiness:
  assumes "projected d" "projected d'" "same_fact_sets d d'" "uniform_policies d"
  shows "readiness (dependency_rows d w) = readiness (dependency_rows d' w)"
proof -
  have states: "cd_state ` set (dependency_rows e w) = {s. \<exists>v p r. (w, v, p, s, r) \<in> edge_view e}" for e
  proof (intro set_eqI iffI)
    fix s
    assume "s \<in> cd_state ` set (dependency_rows e w)"
    then obtain c where c: "c \<in> set (current_work_dependency e)" "cd_work_ref c = w" "s = cd_state c"
      by (auto simp: dependency_rows_def)
    then have "edge_line c \<in> edge_view e" by (simp add: edge_view_def)
    with c(2,3) show "s \<in> {s. \<exists>v p r. (w, v, p, s, r) \<in> edge_view e}" unfolding edge_line_def by blast
  qed (auto simp: dependency_rows_def edge_view_def edge_line_def)
  have up: "uniform_policies d'" using assms(3,4) by (simp add: uniform_policies_def same_fact_sets_def)
  obtain p where p: "\<forall>r \<in> set (dependency_rows d w). cd_satisfaction_policy r = p"
    using projected_policies(1) [OF assms(1,4)] by blast
  have "\<exists>p. (\<forall>r \<in> set (dependency_rows d w). cd_satisfaction_policy r = p)
      \<and> (\<forall>r \<in> set (dependency_rows d' w). cd_satisfaction_policy r = p)"
  proof (cases "dependency_rows d w")
    case Nil
    then show ?thesis using projected_policies(1) [OF assms(2) up] by auto
  next
    case (Cons b bs)
    have "cd_satisfaction_policy r = p" if r: "r \<in> set (dependency_rows d' w)" for r
    proof -
      obtain i x where x: "(i, x) \<in> set (event_work_dependency d)" "dd_work_ref x = w"
        "dd_satisfaction_policy x = cd_satisfaction_policy r"
        using projected_policies(2) [OF assms(2) up r] assms(3) unfolding same_fact_sets_def by auto
      have "b \<in> set (dependency_rows d w)" using Cons by simp
      from projected_policies(2) [OF assms(1,4) this] obtain j y where
        "(j, y) \<in> set (event_work_dependency d)" "dd_work_ref y = w" "dd_satisfaction_policy y = cd_satisfaction_policy b"
        by blast
      with x uniformD [OF assms(4) x(1)] have "cd_satisfaction_policy r = cd_satisfaction_policy b" by metis
      with p Cons show ?thesis by simp
    qed
    with p show ?thesis by blast
  qed
  then obtain q where "\<forall>r \<in> set (dependency_rows d w). cd_satisfaction_policy r = q"
    "\<forall>r \<in> set (dependency_rows d' w). cd_satisfaction_policy r = q" by blast
  then show ?thesis
    using same_fact_edges [OF assms] by (intro readiness_cong [of _ _ q]) (simp_all add: states)
qed

text \<open>One row per edge: a count of rows is a count of lines.\<close>

lemma count_lines:
  assumes "projected d"
  shows "length (filter (\<lambda>r. P (cd_state r)) (dependency_rows d w))
    = card {(a, v, p, s, r). (a, v, p, s, r) \<in> edge_view d \<and> a = w \<and> P s}"
proof -
  have "distinct (map (\<lambda>c. (cd_work_ref c, cd_dependency_work_ref c)) (current_work_dependency d))"
    using assms unfolding projected_def complete_def by blast
  then have dist: "distinct (current_work_dependency d)" and inj: "inj_on edge_line (set (current_work_dependency d))"
    by (auto simp: distinct_map inj_on_def edge_line_def)
  let ?rs = "filter (\<lambda>r. P (cd_state r)) (dependency_rows d w)"
  have "distinct ?rs" using dist by (simp add: dependency_rows_def)
  then have "length ?rs = card (set ?rs)" by (rule distinct_card [symmetric])
  also have "\<dots> = card (edge_line ` set ?rs)"
    using inj by (intro card_image [symmetric] inj_on_subset [OF inj]) (auto simp: dependency_rows_def)
  also have "edge_line ` set ?rs = {(a, v, p, s, r). (a, v, p, s, r) \<in> edge_view d \<and> a = w \<and> P s}"
    by (auto simp: dependency_rows_def edge_view_def edge_line_def image_iff)
  finally show ?thesis .
qed

lemma same_counts:
  assumes "projected d" "projected d'" "same_fact_sets d d'" "uniform_policies d"
  shows "count_rows (dependency_rows d w) = count_rows (dependency_rows d' w)"
proof -
  have n: "length (filter (\<lambda>r. P (cd_state r)) (dependency_rows d w))
      = length (filter (\<lambda>r. P (cd_state r)) (dependency_rows d' w))" for P
    unfolding count_lines [OF assms(1)] count_lines [OF assms(2)] same_fact_edges [OF assms] ..
  from n [of "\<lambda>_. True"] n [of "\<lambda>s. s \<in> {Dep_satisfied, Dep_conflicted}"] n [of "\<lambda>s. s = Dep_conflicted"]
  show ?thesis unfolding count_rows_def same_readiness [OF assms] by simp
qed

lemma projected_works:
  assumes "projected d"
  shows "work_view d w = core_of d w" "plan_view d p = plan_core_of d p"
proof -
  have f: "fresh_works d {}" "fresh_plans d {}" and c: "complete d {} {} {} {}"
    using assms by (auto simp: projected_def fresh_def)
  show "work_view d w = core_of d w"
  proof (cases "current_work d w")
    case None
    then have "latest_derive d w = None" using c unfolding complete_def by blast
    with None show ?thesis by (simp add: work_view_def core_of_def)
  next
    case (Some row)
    with fresh_worksD [OF f(1) Some] show ?thesis by (simp add: work_view_def)
  qed
  show "plan_view d p = plan_core_of d p"
  proof (cases "current_plans d p")
    case None
    then have "latest_plan_created d p = None" using c unfolding complete_def by blast
    with None show ?thesis by (simp add: plan_view_def plan_core_of_def)
  next
    case (Some row)
    with fresh_plansD [OF f(2) Some] show ?thesis by (simp add: plan_view_def)
  qed
qed

lemma same_facts_same_view:
  assumes "projected d" "projected d'" "same_fact_sets d d'" "uniform_policies d"
  shows "same_view d d'"
proof -
  note q = same_fact_queries [OF assms(1-3)] and s = same_fact_states [OF assms(1-3)]
  have "core_of d w = core_of d' w" for w
    unfolding core_of_def execution_of_def columns_of_def q(1,5) s(2) same_readiness [OF assms] same_counts [OF assms] ..
  moreover have "plan_core_of d p = plan_core_of d' p" for p
    unfolding plan_core_of_def q(3,4) ..
  ultimately show ?thesis
    unfolding same_view_def using s(1) same_fact_edges [OF assms] projected_works [OF assms(1)] projected_works [OF assms(2)]
    by (simp add: fun_eq_iff)
qed

lemma same_facts_sets: "same_facts d d' \<Longrightarrow> same_fact_sets d d'"
  by (simp add: same_fact_sets_def same_factsD)

text \<open>A rebuild of a projected database gives the same view back.\<close>

lemma rebuild_view:
  assumes "projected d" "uniform_policies d" "rebuild cr now d = Inr (d', n)"
  shows "same_view d d' \<and> projected d'"
proof -
  have "facts_ok d" "facts_held d" using assms(1) by (auto simp: projected_def fresh_def)
  note r = rebuild_projected [OF this assms(3)]
  with same_facts_same_view [OF assms(1) r(1) same_facts_sets [OF r(2)] assms(2)] show ?thesis by simp
qed

section \<open>The order of arrival\<close>

text \<open>The rows of one event on its own.\<close>

definition alone :: "uuid_cast \<Rightarrow> event \<Rightarrow> db" where
  "alone uc e = (case bind_result (insert_event uc e empty_db) (insert_payload uc e) of Inr f \<Rightarrow> f | Inl _ \<Rightarrow> empty_db)"

definition facts_plus :: "db \<Rightarrow> db \<Rightarrow> db \<Rightarrow> bool" where
  "facts_plus d f d' \<longleftrightarrow> set (events d') = set (events d) \<union> set (events f)
     \<and> set (event_work d') = set (event_work d) \<union> set (event_work f)
     \<and> set (event_result d') = set (event_result d) \<union> set (event_result f)
     \<and> set (event_plan d') = set (event_plan d) \<union> set (event_plan f)
     \<and> set (event_work_retired d') = set (event_work_retired d) \<union> set (event_work_retired f)
     \<and> set (event_work_dependency d') = set (event_work_dependency d) \<union> set (event_work_dependency f)"

lemma insert_payload_alone:
  assumes "insert_payload uc e d = Inr d'"
  shows "\<exists>f. insert_payload uc e (empty_db\<lparr>events := rs\<rparr>) = Inr f \<and> events f = rs
    \<and> set (event_work d') = set (event_work d) \<union> set (event_work f)
     \<and> set (event_result d') = set (event_result d) \<union> set (event_result f)
     \<and> set (event_plan d') = set (event_plan d) \<union> set (event_plan f)
     \<and> set (event_work_retired d') = set (event_work_retired d) \<union> set (event_work_retired f)
     \<and> set (event_work_dependency d') = set (event_work_dependency d) \<union> set (event_work_dependency f)"
proof -
  obtain p where p: "payload e = Some p"
    using assms by (cases "payload e") (auto simp: insert_payload.simps)
  show ?thesis
  proof (cases p)
    case (WorkDerived x)
    with p assms obtain s where "cast_uuid uc (wd_subject_ref x) = Inr s" by (auto simp: insert_payload.simps)
    with p assms WorkDerived show ?thesis by (auto simp: insert_payload.simps empty_db_def add_row_def split: if_splits)
  qed (use p assms in \<open>auto simp: insert_payload.simps empty_db_def add_row_def split: if_splits\<close>)
qed

lemma reduce_payload_facts:
  assumes "reduce_payload now e p d = Inr (d', t)"
  shows "same_facts d d'"
proof -
  have spread: "same_facts d (propagate_to_dependents now w eid d)" for now w eid d
  proof -
    obtain cw where "recompute_all now eid (dependents (settle_edges w d) w) (settle_edges w d)
        = settle_edges w d\<lparr>current_work := cw\<rparr>" using recompute_all_frame by blast
    then show ?thesis unfolding propagate_eq by (simp add: same_facts_def settle_edges_eq)
  qed
  note w = recompute_work_facts(1)
  show ?thesis
  proof (cases p)
    case (PlanCreated x)
    with assms have "recompute_plan_state (pc_plan_ref x) (event_id e) d = Inr d'" by auto
    from recompute_plan_cases [OF this] show ?thesis by (auto simp: same_facts_def)
  next
    case (PlanLifecycleChanged x)
    with assms have "recompute_plan_state (pl_plan_ref x) (event_id e) d = Inr d'" by auto
    from recompute_plan_cases [OF this] show ?thesis by (auto simp: same_facts_def)
  next
    case (WorkDerived x)
    with assms have "d' = recompute_work_state now (wd_work_ref x) (event_id e) d" by simp
    with w show ?thesis by simp
  next
    case (WorkRetired x)
    with assms show ?thesis using same_facts_trans [OF w spread] by (auto simp: Let_def)
  next
    case (WorkDependencyDeclared x)
    with assms have "d' = recompute_work_state now (dd_work_ref x) (event_id e) (declare_edges x d)"
      by (simp add: declare_edges_def Let_def)
    moreover have "same_facts d (declare_edges x d)" by (simp add: declare_edges_eq same_facts_def)
    ultimately show ?thesis using same_facts_trans w by simp
  next
    case (ResultRecorded x)
    with assms have "d' = propagate_to_dependents now (rr_work_ref x) (event_id e)
        (recompute_work_state now (rr_work_ref x) (event_id e) (settle_result x d))"
      by (simp add: settle_result_def Let_def)
    then show ?thesis using same_facts_trans [OF settle_result_facts same_facts_trans [OF w spread]] by simp
  next
    case (LinkAsserted x)
    with assms have "d' = insert_link e x d" by simp
    with insert_link_frame(1) show ?thesis by simp
  next
    case (ClaimRecorded x)
    with assms show ?thesis by (auto simp: same_facts_def)
  qed (use assms in auto)
qed

lemma reduce_same_facts:
  assumes "reduce now e d = Inr d'"
  shows "same_facts d d'"
proof -
  from reduce_Inr [OF assms] obtain pts d1 t1 d2 t2 p d3 t3 where
    1: "fill_target e pts d = (d1, t1)" and 2: "fill_source e pts d1 = (d2, t2)"
    and 3: "reduce_payload now e p d2 = Inr (d3, t3)"
    and 4: "d' = (if t1 \<or> t2 \<or> t3 then recompute_standing (event_id e) d3 else d3)" by metis
  have "same_facts d2 d3" using reduce_payload_facts [OF 3] .
  moreover have "same_facts d3 d'" using 4 standing_frame(1) by simp
  ultimately show ?thesis
    using fill_frame(1) [OF disjI1 [OF 1]] fill_frame(1) [OF disjI2 [OF 2]] same_facts_trans by blast
qed

lemma record_event_alone:
  assumes "record_event uc now e d = Inr d'"
  shows "facts_plus d (alone uc e) d'"
proof -
  obtain d1 d2 where i: "insert_event uc e d = Inr d1" "insert_payload uc e d1 = Inr d2" "reduce now e d2 = Inr d'"
    using assms by (auto simp: record_event_def)
  obtain s where s: "cast_uuid uc (subject_ref e) = Inr s"
    "d1 = d\<lparr>events := events d @ [row_of_event e (\<not> is_stub e) s]\<rparr>"
    "envelope_version e > 1 \<or> scope_digest e = None \<and> scope_ref e = None"
    using insert_event_Inr [OF i(1)] by metis
  let ?rs = "[row_of_event e (\<not> is_stub e) s]"
  have "insert_event uc e empty_db = Inr (empty_db\<lparr>events := ?rs\<rparr>)"
    using s(1,3) by (auto simp: insert_event_def empty_db_def)
  moreover obtain f where f: "insert_payload uc e (empty_db\<lparr>events := ?rs\<rparr>) = Inr f" "events f = ?rs"
     "set (event_work d2) = set (event_work d1) \<union> set (event_work f)"
     "set (event_result d2) = set (event_result d1) \<union> set (event_result f)"
     "set (event_plan d2) = set (event_plan d1) \<union> set (event_plan f)"
     "set (event_work_retired d2) = set (event_work_retired d1) \<union> set (event_work_retired f)"
     "set (event_work_dependency d2) = set (event_work_dependency d1) \<union> set (event_work_dependency f)"
    using insert_payload_alone [OF i(2), of ?rs] by blast
  ultimately have "alone uc e = f" by (simp add: alone_def)
  moreover have "events d2 = events d @ ?rs" using insert_payload_events [OF i(2)] s(2) by simp
  moreover have "same_facts d2 d'"
    using reduce_same_facts [OF i(3)] .
  ultimately show ?thesis
    using f s(2) by (simp add: facts_plus_def same_factsD [symmetric])
qed

lemma record_events_alone:
  assumes "record_events uc es d = Inr d'"
  shows "set (events d') = set (events d) \<union> (\<Union>e \<in> snd ` set es. set (events (alone uc e)))
    \<and> set (event_work d') = set (event_work d) \<union> (\<Union>e \<in> snd ` set es. set (event_work (alone uc e)))
    \<and> set (event_result d') = set (event_result d) \<union> (\<Union>e \<in> snd ` set es. set (event_result (alone uc e)))
    \<and> set (event_plan d') = set (event_plan d) \<union> (\<Union>e \<in> snd ` set es. set (event_plan (alone uc e)))
    \<and> set (event_work_retired d') = set (event_work_retired d) \<union> (\<Union>e \<in> snd ` set es. set (event_work_retired (alone uc e)))
    \<and> set (event_work_dependency d') = set (event_work_dependency d)
        \<union> (\<Union>e \<in> snd ` set es. set (event_work_dependency (alone uc e)))"
  using assms
proof (induction es arbitrary: d)
  case (Cons a es)
  obtain now e where a: "a = (now, e)" by force
  with Cons.prems obtain d1 where d1: "record_event uc now e d = Inr d1" "record_events uc es d1 = Inr d'" by auto
  from Cons.IH [OF d1(2)] record_event_alone [OF d1(1)] show ?case
    unfolding facts_plus_def a by (simp add: Un_assoc)
qed simp

lemma arrival_order_view:
  assumes "record_events uc es empty_db = Inr d" "record_events uc es' empty_db = Inr d'"
    and "snd ` set es = snd ` set es'" "\<forall>(now, e) \<in> set es. well_kinded e" "uniform_policies d"
  shows "same_view d d'"
proof (rule same_facts_same_view)
  have "\<forall>(now, e) \<in> set es'. well_kinded e"
  proof clarify
    fix now e
    assume "(now, e) \<in> set es'"
    then have "e \<in> snd ` set es" using assms(3) by force
    with assms(4) show "well_kinded e" by auto
  qed
  then show "projected d" "projected d'"
    using record_events_projected [OF projected_empty] assms(1,2,4) by blast+
  show "same_fact_sets d d'"
    using record_events_alone [OF assms(1)] record_events_alone [OF assms(2)] assms(3)
    by (simp add: same_fact_sets_def)
qed (rule assms(5))

end
