(* ===== verification/Trust.thy ===== *)
theory Trust
  imports Credential
begin

text \<open>
  \<^verbatim>\<open>kawa/domain/trust.py\<close>: the receiver's trust registry.  Three dictionaries: keys (their
  node, incarnation and standing), incarnations (their node and parent) and scope grants.  The
  operations are the methods; one that raises leaves the registry alone.

  Shown: no history of calls ever turns a revoked standing back or moves a key to another node
  (the \<open>forward_ops\<close> contract of the prelude); every bound key is attributed to an incarnation of
  its own node, for histories that name no incarnation in the reserved genesis form.
\<close>

section \<open>State\<close>

datatype standing = Active | Rotated | Revoked | UnknownKey

record trust_entry =
  te_node_ref :: string
  te_standing :: standing
  te_incarnation_ref :: string
  te_revoked_from_seq :: "int option"
  te_prior_standing :: "standing option"

record incarnation_entry =
  ie_node_ref :: string
  ie_parent :: "string option"

record trust_registry =
  tr_m :: "string \<Rightarrow> trust_entry option"
  tr_inc :: "string \<Rightarrow> incarnation_entry option"
  tr_grants :: "string \<Rightarrow> string list option"

definition genesis_incarnation :: "string \<Rightarrow> string" where
  "genesis_incarnation node_ref = ''inc:'' @ node_ref @ '':genesis''"

definition empty_registry :: trust_registry where
  "empty_registry = \<lparr>tr_m = Map.empty, tr_inc = Map.empty, tr_grants = Map.empty\<rparr>"

text \<open>\<open>dict.setdefault\<close>.\<close>

definition setdefault :: "'k \<Rightarrow> 'v \<Rightarrow> ('k \<Rightarrow> 'v option) \<Rightarrow> 'k \<Rightarrow> 'v option" where
  "setdefault k v m = (case m k of Some _ \<Rightarrow> m | None \<Rightarrow> m(k \<mapsto> v))"

lemma setdefault_same [simp]:
  "setdefault k v m k = Some (case m k of Some w \<Rightarrow> w | None \<Rightarrow> v)"
  by (simp add: setdefault_def split: option.splits)

lemma setdefault_other [simp]: "j \<noteq> k \<Longrightarrow> setdefault k v m j = m j"
  by (simp add: setdefault_def split: option.splits)

lemma setdefault_kept: "m j = Some x \<Longrightarrow> setdefault k v m j = Some x"
  by (cases "j = k") simp_all

text \<open>
  Loading: the file's keys in order, an entry written before incarnations existed carries none and
  is attributed to the node's genesis incarnation.
\<close>

record key_entry_on_disk =
  kd_node_ref :: string
  kd_standing :: standing
  kd_incarnation_ref :: "string option"
  kd_revoked_from_seq :: "int option"
  kd_prior_standing :: "standing option"

definition load_entry :: "trust_registry \<Rightarrow> string \<times> key_entry_on_disk \<Rightarrow> trust_registry" where
  "load_entry r = (\<lambda>(key_ref, e).
     let inc = (case kd_incarnation_ref e of Some i \<Rightarrow> i | None \<Rightarrow> genesis_incarnation (kd_node_ref e));
         r' = r\<lparr>tr_m := (tr_m r)(key_ref \<mapsto>
                \<lparr>te_node_ref = kd_node_ref e, te_standing = kd_standing e, te_incarnation_ref = inc,
                 te_revoked_from_seq = kd_revoked_from_seq e, te_prior_standing = kd_prior_standing e\<rparr>)\<rparr>
     in if kd_incarnation_ref e = None
        then r'\<lparr>tr_inc := setdefault inc \<lparr>ie_node_ref = kd_node_ref e, ie_parent = None\<rparr> (tr_inc r')\<rparr>
        else r')"

definition load_registry ::
    "(string \<times> key_entry_on_disk) list \<Rightarrow> (string \<Rightarrow> incarnation_entry option)
      \<Rightarrow> (string \<Rightarrow> string list option) \<Rightarrow> trust_registry" where
  "load_registry keys incs grants =
     foldl load_entry \<lparr>tr_m = Map.empty, tr_inc = incs, tr_grants = grants\<rparr> keys"

section \<open>Queries\<close>

text \<open>\<open>standing(key_ref, at_seq)\<close>.\<close>

definition standing :: "trust_registry \<Rightarrow> string \<Rightarrow> int option \<Rightarrow> standing" where
  "standing r key_ref at_seq =
     (case tr_m r key_ref of
        None \<Rightarrow> UnknownKey
      | Some e \<Rightarrow>
          (case (at_seq, te_revoked_from_seq e) of
             (Some s, Some f) \<Rightarrow>
               if te_standing e = Revoked \<and> s < f
               then (case te_prior_standing e of Some p \<Rightarrow> p | None \<Rightarrow> Revoked)
               else te_standing e
           | _ \<Rightarrow> te_standing e))"

definition incarnation_ref :: "trust_registry \<Rightarrow> string \<Rightarrow> string option" where
  "incarnation_ref r key_ref = map_option te_incarnation_ref (tr_m r key_ref)"

definition incarnation_parent :: "trust_registry \<Rightarrow> string \<Rightarrow> string option" where
  "incarnation_parent r inc = (case tr_inc r inc of Some i \<Rightarrow> ie_parent i | None \<Rightarrow> None)"

definition node_ref :: "trust_registry \<Rightarrow> string \<Rightarrow> string option" where
  "node_ref r key_ref = map_option te_node_ref (tr_m r key_ref)"

definition grants_of :: "trust_registry \<Rightarrow> string \<Rightarrow> string list" where
  "grants_of r node = (case tr_grants r node of Some gs \<Rightarrow> gs | None \<Rightarrow> [])"

definition scope_grants :: "trust_registry \<Rightarrow> string \<Rightarrow> string set" where
  "scope_grants r node = set (grants_of r node)"

section \<open>Operations\<close>

definition require_unbound_or_same :: "string \<Rightarrow> string \<Rightarrow> trust_registry \<Rightarrow> unit result" where
  "require_unbound_or_same node key_ref r =
     (case tr_m r key_ref of
        Some e \<Rightarrow> if te_node_ref e \<noteq> node
                  then Inl (ValueError ''a key binds to exactly one node'') else Inr ()
      | None \<Rightarrow> Inr ())"

definition fresh_entry :: "string \<Rightarrow> string \<Rightarrow> trust_entry" where
  "fresh_entry node inc =
     \<lparr>te_node_ref = node, te_standing = Active, te_incarnation_ref = inc,
      te_revoked_from_seq = None, te_prior_standing = None\<rparr>"

definition add_grant :: "string \<Rightarrow> trust_registry \<Rightarrow> string \<Rightarrow> trust_registry" where
  "add_grant node r scope =
     r\<lparr>tr_grants := (tr_grants r)(node \<mapsto>
        (if scope \<in> set (grants_of r node) then grants_of r node else grants_of r node @ [scope]))\<rparr>"

definition enroll ::
    "string \<Rightarrow> string \<Rightarrow> string option \<Rightarrow> string list \<Rightarrow> trust_registry \<Rightarrow> trust_registry result" where
  "enroll node key_ref inc_arg scopes r =
     (if standing r key_ref None = Revoked then Inl (ValueError ''cannot enroll a revoked key'')
      else bind_result (require_unbound_or_same node key_ref r) (\<lambda>_.
        let inc = (case inc_arg of Some i \<Rightarrow> if i = [] then genesis_incarnation node else i
                                 | None \<Rightarrow> genesis_incarnation node)
        in if (case tr_inc r inc of Some i \<Rightarrow> ie_node_ref i \<noteq> node | None \<Rightarrow> False)
           then Inl (ValueError ''an incarnation binds to exactly one node'')
           else Inr (foldl (add_grant node)
                  (r\<lparr>tr_inc := setdefault inc \<lparr>ie_node_ref = node, ie_parent = None\<rparr> (tr_inc r),
                     tr_m := (tr_m r)(key_ref \<mapsto> fresh_entry node inc)\<rparr>) scopes)))"

definition grant_scope :: "string \<Rightarrow> string \<Rightarrow> trust_registry \<Rightarrow> trust_registry" where
  "grant_scope node scope r = add_grant node r scope"

definition revoke_scope :: "string \<Rightarrow> string \<Rightarrow> trust_registry \<Rightarrow> trust_registry" where
  "revoke_scope node scope r =
     (if scope \<in> set (grants_of r node)
      then r\<lparr>tr_grants := (tr_grants r)(node \<mapsto> remove1 scope (grants_of r node))\<rparr> else r)"

definition succeed_incarnation ::
    "string \<Rightarrow> string \<Rightarrow> string \<Rightarrow> string \<Rightarrow> trust_registry \<Rightarrow> trust_registry result" where
  "succeed_incarnation node parent_inc new_inc new_key r =
     (if tr_m r new_key \<noteq> None then Inl (ValueError ''succession requires a FRESH key'')
      else if standing r new_key None = Revoked then Inl (ValueError ''cannot succeed onto a revoked key'')
      else (case tr_inc r parent_inc of
              None \<Rightarrow> Inl (ValueError ''unknown parent incarnation'')
            | Some p \<Rightarrow>
                if ie_node_ref p \<noteq> node then Inl (ValueError ''succession never crosses nodes'')
                else if tr_inc r new_inc \<noteq> None then Inl (ValueError ''an incarnation is minted once'')
                else Inr (r\<lparr>tr_inc := (tr_inc r)(new_inc \<mapsto>
                              \<lparr>ie_node_ref = node, ie_parent = Some parent_inc\<rparr>),
                            tr_m := (tr_m r)(new_key \<mapsto> fresh_entry node new_inc)\<rparr>)))"

definition revoke :: "string \<Rightarrow> int option \<Rightarrow> trust_registry \<Rightarrow> trust_registry" where
  "revoke key_ref from_seq r =
     (case tr_m r key_ref of
        None \<Rightarrow> r
      | Some e \<Rightarrow>
          let e' = (if te_standing e \<noteq> Revoked then
                      (case from_seq of
                         Some f \<Rightarrow> e\<lparr>te_revoked_from_seq := Some f, te_prior_standing := Some (te_standing e),
                                     te_standing := Revoked\<rparr>
                       | None \<Rightarrow> e\<lparr>te_standing := Revoked\<rparr>)
                    else if from_seq = None then
                      e\<lparr>te_revoked_from_seq := None, te_prior_standing := None\<rparr>
                    else e)
          in r\<lparr>tr_m := (tr_m r)(key_ref \<mapsto> e')\<rparr>)"

definition rotate :: "string \<Rightarrow> string \<Rightarrow> string \<Rightarrow> trust_registry \<Rightarrow> trust_registry result" where
  "rotate node old_key new_key r =
     (if standing r new_key None = Revoked then Inl (ValueError ''cannot rotate to a revoked key'')
      else if standing r old_key None = Revoked then Inl (ValueError ''cannot rotate FROM a revoked key'')
      else bind_result (require_unbound_or_same node old_key r) (\<lambda>_.
           bind_result (require_unbound_or_same node new_key r) (\<lambda>_.
             let m = (case tr_m r old_key of
                        Some e \<Rightarrow> if te_standing e = Active
                                  then (tr_m r)(old_key \<mapsto> e\<lparr>te_standing := Rotated\<rparr>) else tr_m r
                      | None \<Rightarrow> tr_m r);
                 inc = (case tr_m r old_key of Some e \<Rightarrow> te_incarnation_ref e
                                             | None \<Rightarrow> genesis_incarnation node)
             in Inr (r\<lparr>tr_inc := setdefault inc \<lparr>ie_node_ref = node, ie_parent = None\<rparr> (tr_inc r),
                       tr_m := m(new_key \<mapsto> fresh_entry node inc)\<rparr>))))"

text \<open>The two axes of an admission decision.\<close>

record evaluation =
  provenance_valid :: bool
  trust_standing :: standing

definition evaluate ::
    "crypto \<Rightarrow> string \<Rightarrow> string \<Rightarrow> string \<Rightarrow> string \<Rightarrow> key_registry \<Rightarrow> trust_registry \<Rightarrow> int option
      \<Rightarrow> evaluation" where
  "evaluate cr content_hash sig key_ref scheme keys trust at_seq =
     \<lparr>provenance_valid = resolve_and_verify_provenance cr content_hash sig key_ref scheme keys,
      trust_standing = standing trust key_ref at_seq\<rparr>"

definition admit :: "evaluation \<Rightarrow> bool" where
  "admit ev \<longleftrightarrow> provenance_valid ev \<and> trust_standing ev = Active"

text \<open>One call on the registry.\<close>

datatype trust_op =
    Enroll string string "string option" "string list"
  | GrantScope string string
  | RevokeScope string string
  | SucceedIncarnation string string string string
  | Revoke string "int option"
  | Rotate string string string

fun trust_step :: "trust_op \<Rightarrow> trust_registry \<Rightarrow> trust_registry result" where
  "trust_step (Enroll n k i sc) r = enroll n k i sc r"
| "trust_step (GrantScope n sc) r = Inr (grant_scope n sc r)"
| "trust_step (RevokeScope n sc) r = Inr (revoke_scope n sc r)"
| "trust_step (SucceedIncarnation n p i k) r = succeed_incarnation n p i k r"
| "trust_step (Revoke k f) r = Inr (revoke k f r)"
| "trust_step (Rotate n a b) r = rotate n a b r"

section \<open>Frames\<close>

lemma add_grants_frame [frame_simps]:
  "tr_m (foldl (add_grant n) r ss) = tr_m r" "tr_inc (foldl (add_grant n) r ss) = tr_inc r"
  by (induction ss arbitrary: r) (simp_all add: add_grant_def)

lemma grants_frame [frame_simps]:
  "tr_m (grant_scope n s r) = tr_m r" "tr_inc (grant_scope n s r) = tr_inc r"
  "tr_m (revoke_scope n s r) = tr_m r" "tr_inc (revoke_scope n s r) = tr_inc r"
  by (simp_all add: grant_scope_def revoke_scope_def add_grant_def)

lemma revoke_frame [frame_simps]: "tr_inc (revoke k f r) = tr_inc r"
  by (simp add: revoke_def Let_def split: option.splits)

lemma fresh_entry_simps [simp]:
  "te_node_ref (fresh_entry n i) = n" "te_standing (fresh_entry n i) = Active"
  "te_incarnation_ref (fresh_entry n i) = i" "te_revoked_from_seq (fresh_entry n i) = None"
  by (simp_all add: fresh_entry_def)

lemma standing_None: "standing r k None = (case tr_m r k of None \<Rightarrow> UnknownKey | Some e \<Rightarrow> te_standing e)"
  by (simp add: standing_def split: option.splits)

lemma require_ok: "require_unbound_or_same n k r = Inr u \<longleftrightarrow> (\<forall>e. tr_m r k = Some e \<longrightarrow> te_node_ref e = n)"
  by (auto simp: require_unbound_or_same_def split: option.splits)

section \<open>Standing only ever moves forward\<close>

text \<open>A scope of revocation is recorded on revoked keys only.\<close>

definition trust_ok :: "trust_registry \<Rightarrow> bool" where
  "trust_ok r \<longleftrightarrow> (\<forall>k e. tr_m r k = Some e \<longrightarrow> te_standing e \<noteq> UnknownKey
     \<and> (te_standing e \<noteq> Revoked \<longrightarrow> te_revoked_from_seq e = None))"

text \<open>Later registries know every key of the earlier one, under the same node, and no less revoked.\<close>

definition trust_below :: "trust_registry \<Rightarrow> trust_registry \<Rightarrow> bool" where
  "trust_below r t \<longleftrightarrow>
     (\<forall>k n. node_ref r k = Some n \<longrightarrow> node_ref t k = Some n)
     \<and> (\<forall>k s. standing r k s = Revoked \<longrightarrow> standing t k s = Revoked)
     \<and> (\<forall>i e. tr_inc r i = Some e \<longrightarrow> tr_inc t i = Some e)"

lemma revoked_at_revoked: "trust_ok r \<Longrightarrow> standing r k s = Revoked \<Longrightarrow> standing r k None = Revoked"
  by (auto simp: trust_ok_def standing_def split: option.splits if_splits)

text \<open>What a successful call does to the key table, as one case distinction.\<close>

lemma enroll_effect:
  assumes "enroll n k i sc r = Inr r'"
  shows "\<exists>inc. tr_m r' = (tr_m r)(k \<mapsto> fresh_entry n inc)
    \<and> tr_inc r' = setdefault inc \<lparr>ie_node_ref = n, ie_parent = None\<rparr> (tr_inc r)
    \<and> (\<forall>e. tr_inc r inc = Some e \<longrightarrow> ie_node_ref e = n)
    \<and> (inc = genesis_incarnation n \<or> i = Some inc)
    \<and> (\<forall>e. tr_m r k = Some e \<longrightarrow> te_node_ref e = n) \<and> standing r k None \<noteq> Revoked"
proof -
  let ?inc = "case i of Some i \<Rightarrow> if i = [] then genesis_incarnation n else i | None \<Rightarrow> genesis_incarnation n"
  have "standing r k None \<noteq> Revoked" "\<forall>e. tr_m r k = Some e \<longrightarrow> te_node_ref e = n"
    using assms by (auto simp: enroll_def require_ok split: if_splits)
  moreover from this have "\<not> (case tr_inc r ?inc of Some i \<Rightarrow> ie_node_ref i \<noteq> n | None \<Rightarrow> False)"
    "r' = foldl (add_grant n)
          (r\<lparr>tr_inc := setdefault ?inc \<lparr>ie_node_ref = n, ie_parent = None\<rparr> (tr_inc r),
             tr_m := (tr_m r)(k \<mapsto> fresh_entry n ?inc)\<rparr>) sc"
    using assms by (auto simp: enroll_def Let_def require_ok split: if_splits)
  ultimately show ?thesis
    by (intro exI [of _ ?inc]) (auto simp: frame_simps split: option.splits)
qed

lemma succeed_effect:
  assumes "succeed_incarnation n p i k r = Inr r'"
  shows "tr_m r k = None \<and> tr_inc r i = None \<and> (\<exists>q. tr_inc r p = Some q \<and> ie_node_ref q = n)
    \<and> tr_m r' = (tr_m r)(k \<mapsto> fresh_entry n i)
    \<and> tr_inc r' = (tr_inc r)(i \<mapsto> \<lparr>ie_node_ref = n, ie_parent = Some p\<rparr>)"
  using assms by (auto simp: succeed_incarnation_def split: option.splits if_splits)

lemma rotate_effect:
  assumes "rotate n a b r = Inr r'"
  shows "\<exists>inc m. tr_m r' = m(b \<mapsto> fresh_entry n inc)
    \<and> tr_inc r' = setdefault inc \<lparr>ie_node_ref = n, ie_parent = None\<rparr> (tr_inc r)
    \<and> (\<forall>k. k \<noteq> a \<longrightarrow> m k = tr_m r k)
    \<and> (tr_m r a = None \<and> m a = None \<and> inc = genesis_incarnation n
       \<or> (\<exists>e e'. tr_m r a = Some e \<and> m a = Some e' \<and> te_node_ref e = n \<and> te_standing e \<noteq> Revoked
            \<and> te_incarnation_ref e = inc
            \<and> (e' = e \<or> e' = e\<lparr>te_standing := Rotated\<rparr>)))
    \<and> (\<forall>e. tr_m r b = Some e \<longrightarrow> te_node_ref e = n) \<and> standing r b None \<noteq> Revoked"
proof -
  have pre: "standing r b None \<noteq> Revoked" "standing r a None \<noteq> Revoked"
    "\<forall>e. tr_m r a = Some e \<longrightarrow> te_node_ref e = n" "\<forall>e. tr_m r b = Some e \<longrightarrow> te_node_ref e = n"
    using assms by (auto simp: rotate_def require_ok split: if_splits)
  show ?thesis
  proof (cases "tr_m r a")
    case None
    with pre assms show ?thesis
      by (intro exI [of _ "genesis_incarnation n"] exI [of _ "tr_m r"])
        (auto simp: rotate_def require_ok Let_def)
  next
    case (Some e)
    with pre have e: "te_standing e \<noteq> Revoked" "te_node_ref e = n" by (auto simp: standing_None)
    let ?m = "if te_standing e = Active then (tr_m r)(a \<mapsto> e\<lparr>te_standing := Rotated\<rparr>) else tr_m r"
    have "r' = r\<lparr>tr_inc := setdefault (te_incarnation_ref e) \<lparr>ie_node_ref = n, ie_parent = None\<rparr> (tr_inc r),
        tr_m := ?m(b \<mapsto> fresh_entry n (te_incarnation_ref e))\<rparr>"
      using Some pre assms by (simp add: rotate_def require_ok Let_def)
    with Some e pre show ?thesis
      by (intro exI [of _ "te_incarnation_ref e"] exI [of _ ?m]) auto
  qed
qed

lemma revoke_entry:
  assumes "tr_m r k = Some e"
  shows "\<exists>e'. tr_m (revoke k f r) = (tr_m r)(k \<mapsto> e') \<and> te_node_ref e' = te_node_ref e
    \<and> te_incarnation_ref e' = te_incarnation_ref e \<and> te_standing e' = Revoked
    \<and> (te_standing e \<noteq> Revoked \<longrightarrow> te_revoked_from_seq e' =
         (case f of None \<Rightarrow> te_revoked_from_seq e | Some x \<Rightarrow> Some x)
         \<and> (f \<noteq> None \<longrightarrow> te_prior_standing e' = Some (te_standing e)))
    \<and> (te_standing e = Revoked \<longrightarrow> (if f = None then te_revoked_from_seq e' = None else e' = e))"
  using assms by (auto simp: revoke_def Let_def split: option.splits)

lemma revoke_unknown: "tr_m r k = None \<Longrightarrow> revoke k f r = r"
  by (simp add: revoke_def)

lemma trust_ok_step [inv_intros]:
  assumes "trust_ok r" "trust_step c r = Inr r'"
  shows "trust_ok r'"
proof (cases c)
  case (Enroll n k i sc)
  with assms obtain inc where "tr_m r' = (tr_m r)(k \<mapsto> fresh_entry n inc)"
    by (auto dest!: enroll_effect)
  with assms(1) show ?thesis by (auto simp: trust_ok_def)
next
  case (SucceedIncarnation n p i k)
  with assms have "tr_m r' = (tr_m r)(k \<mapsto> fresh_entry n i)" by (auto dest!: succeed_effect)
  with assms(1) show ?thesis by (auto simp: trust_ok_def)
next
  case (Revoke k f)
  show ?thesis
  proof (cases "tr_m r k")
    case None
    with Revoke assms show ?thesis by (simp add: revoke_unknown)
  next
    case (Some e)
    then obtain e' where "tr_m r' = (tr_m r)(k \<mapsto> e')" "te_standing e' = Revoked"
      using revoke_entry [OF Some, of f] Revoke assms(2) by auto
    with assms(1) show ?thesis by (auto simp: trust_ok_def)
  qed
next
  case (Rotate n a b)
  with assms(2) have "rotate n a b r = Inr r'" by simp
  from rotate_effect [OF this] obtain inc m where m: "tr_m r' = m(b \<mapsto> fresh_entry n inc)"
    "\<forall>k. k \<noteq> a \<longrightarrow> m k = tr_m r k"
    and a: "m a = None \<or> (\<exists>e e'. tr_m r a = Some e \<and> m a = Some e' \<and> te_standing e \<noteq> Revoked
      \<and> (e' = e \<or> e' = e\<lparr>te_standing := Rotated\<rparr>))" by blast
  show ?thesis unfolding trust_ok_def
  proof (intro allI impI)
    fix k e
    assume k: "tr_m r' k = Some e"
    show "te_standing e \<noteq> UnknownKey \<and> (te_standing e \<noteq> Revoked \<longrightarrow> te_revoked_from_seq e = None)"
      using assms(1) k m a
      by (cases "k = b"; cases "k = a") (auto simp: trust_ok_def)
  qed
qed (use assms in \<open>auto simp: trust_ok_def frame_simps\<close>)

text \<open>The order on entries that the operations respect.\<close>

definition entry_le :: "trust_entry \<Rightarrow> trust_entry \<Rightarrow> bool" where
  "entry_le e e' \<longleftrightarrow> te_node_ref e' = te_node_ref e
     \<and> (te_standing e = Revoked \<longrightarrow> te_standing e' = Revoked \<and> (te_revoked_from_seq e' = None \<or> e' = e))"

lemma entry_le_refl [simp]: "entry_le e e"
  by (simp add: entry_le_def)

lemma trust_belowI:
  assumes keys: "\<And>k e. tr_m r k = Some e \<Longrightarrow> \<exists>e'. tr_m t k = Some e' \<and> entry_le e e'"
    and inc: "\<And>i e. tr_inc r i = Some e \<Longrightarrow> tr_inc t i = Some e"
  shows "trust_below r t"
  unfolding trust_below_def
proof (intro conjI allI impI)
  fix k n
  assume "node_ref r k = Some n"
  with keys show "node_ref t k = Some n" by (fastforce simp: node_ref_def entry_le_def)
next
  fix k s
  assume rev: "standing r k s = Revoked"
  then obtain e where e: "tr_m r k = Some e" "te_standing e = Revoked"
    by (auto simp: standing_def split: option.splits if_splits)
  with keys obtain e' where e': "tr_m t k = Some e'" "te_standing e' = Revoked"
    "te_revoked_from_seq e' = None \<or> e' = e" by (fastforce simp: entry_le_def)
  from e'(3) show "standing t k s = Revoked"
  proof
    assume "te_revoked_from_seq e' = None"
    with e' show ?thesis by (simp add: standing_def split: option.splits)
  next
    assume "e' = e"
    with e e' rev show ?thesis by (simp add: standing_def)
  qed
qed (rule inc)

lemma trust_below_point:
  assumes "tr_m t = (tr_m r)(k \<mapsto> e')"
    and "\<And>e. tr_m r k = Some e \<Longrightarrow> entry_le e e'"
    and "\<And>i e. tr_inc r i = Some e \<Longrightarrow> tr_inc t i = Some e"
  shows "trust_below r t"
  by (rule trust_belowI) (use assms in \<open>auto split: if_splits\<close>)

lemma trust_below_same:
  "tr_m t = tr_m r \<Longrightarrow> tr_inc t = tr_inc r \<Longrightarrow> trust_below r t"
  by (rule trust_belowI) auto

lemma trust_step_below:
  assumes "trust_step c r = Inr r'"
  shows "trust_below r r'"
proof (cases c)
  case (Enroll n k i sc)
  with assms obtain inc where m: "tr_m r' = (tr_m r)(k \<mapsto> fresh_entry n inc)"
    and i: "tr_inc r' = setdefault inc \<lparr>ie_node_ref = n, ie_parent = None\<rparr> (tr_inc r)"
    and "\<forall>e. tr_m r k = Some e \<longrightarrow> te_node_ref e = n" "standing r k None \<noteq> Revoked"
    by (auto dest!: enroll_effect)
  then have "entry_le e (fresh_entry n inc)" if "tr_m r k = Some e" for e
    using that by (auto simp: entry_le_def standing_None)
  with m i show ?thesis by (intro trust_below_point [OF m]) (auto simp: setdefault_kept)
next
  case (SucceedIncarnation n p i k)
  with assms have "tr_m r' = (tr_m r)(k \<mapsto> fresh_entry n i)"
    "tr_m r k = None" "tr_inc r i = None" "tr_inc r' = (tr_inc r)(i \<mapsto> \<lparr>ie_node_ref = n, ie_parent = Some p\<rparr>)"
    by (auto dest!: succeed_effect)
  then show ?thesis by (intro trust_below_point) auto
next
  case (Revoke k f)
  show ?thesis
  proof (cases "tr_m r k")
    case None
    with Revoke assms show ?thesis by (simp add: revoke_unknown trust_below_same)
  next
    case (Some e)
    then obtain e' where "tr_m r' = (tr_m r)(k \<mapsto> e')" "entry_le e e'"
      using revoke_entry [OF Some, of f] Revoke assms by (auto simp: entry_le_def split: if_splits)
    with Some Revoke assms show ?thesis
      by (intro trust_below_point) (auto simp: frame_simps)
  qed
next
  case (Rotate n a b)
  with assms have "rotate n a b r = Inr r'" by simp
  from rotate_effect [OF this] obtain inc m where m: "tr_m r' = m(b \<mapsto> fresh_entry n inc)"
    "\<forall>k. k \<noteq> a \<longrightarrow> m k = tr_m r k"
    and i: "tr_inc r' = setdefault inc \<lparr>ie_node_ref = n, ie_parent = None\<rparr> (tr_inc r)"
    and a: "tr_m r a = None \<and> m a = None \<or> (\<exists>e e'. tr_m r a = Some e \<and> m a = Some e' \<and> te_standing e \<noteq> Revoked
      \<and> (e' = e \<or> e' = e\<lparr>te_standing := Rotated\<rparr>))"
    and b: "\<forall>e. tr_m r b = Some e \<longrightarrow> te_node_ref e = n" "standing r b None \<noteq> Revoked" by blast
  show ?thesis
  proof (rule trust_belowI)
    fix k e
    assume k: "tr_m r k = Some e"
    show "\<exists>e'. tr_m r' k = Some e' \<and> entry_le e e'"
    proof (cases "k = b")
      case True
      with k b m show ?thesis by (auto simp: entry_le_def standing_None)
    next
      case False
      with k m a show ?thesis by (cases "k = a") (auto simp: entry_le_def)
    qed
  qed (simp add: i setdefault_kept)
qed (use assms in \<open>auto simp: frame_simps intro: trust_below_same\<close>)

lemma trust_below_refl_trans:
  "trust_below r r" "trust_below r s \<Longrightarrow> trust_below s t \<Longrightarrow> trust_below r t"
  by (simp_all add: trust_below_def)

interpretation trust: forward_ops trust_step trust_ok trust_below
proof unfold_locales
  fix c s t u s'
  show "trust_below s s" by (rule trust_below_refl_trans)
  show "trust_below s t \<Longrightarrow> trust_below t u \<Longrightarrow> trust_below s u" by (rule trust_below_refl_trans)
  assume "trust_ok s" and step: "trust_step c s = Inr s'"
  then show "trust_ok s'" by (rule trust_ok_step)
  show "trust_below s s'" using step by (rule trust_step_below)
qed

text \<open>A total revocation withdraws trust at every sequence number, a scoped one from its fork on.\<close>

lemma revoke_total:
  assumes "trust_ok r" "tr_m r k = Some e"
  shows "standing (revoke k None r) k s = Revoked"
proof -
  from revoke_entry [OF assms(2), of None] assms(1) obtain e' where
    "tr_m (revoke k None r) k = Some e'" "te_standing e' = Revoked" "te_revoked_from_seq e' = None"
    using assms(2) by (cases "te_standing e = Revoked") (auto simp: trust_ok_def)
  then show ?thesis by (simp add: standing_def split: option.splits)
qed

lemma revoke_scoped:
  assumes "tr_m r k = Some e" "te_standing e \<noteq> Revoked"
  shows "standing (revoke k (Some f) r) k (Some s) = (if s < f then te_standing e else Revoked)"
  using assms revoke_entry [OF assms(1), of "Some f"] by (auto simp: standing_def)

lemma revoked_forever:
  assumes "trust_ok r" "tr_m r k = Some e"
  shows "standing (exec_ops trust_step cs (revoke k None r)) k s = Revoked"
proof -
  have "trust_ok (revoke k None r)"
    using trust_ok_step [OF assms(1), of "Revoke k None"] by simp
  then have "trust_below (revoke k None r) (exec_ops trust_step cs (revoke k None r))"
    by (rule trust.exec_below)
  with revoke_total [OF assms] show ?thesis by (simp add: trust_below_def)
qed

lemma key_binding_permanent:
  assumes "trust_ok r" "node_ref r k = Some n"
  shows "node_ref (exec_ops trust_step cs r) k = Some n"
  using trust.exec_below [OF assms(1), of cs] assms(2) by (simp add: trust_below_def)

section \<open>Attribution\<close>

text \<open>
  Every key speaks for an incarnation of its own node.  The implicit name of a genesis incarnation
  is not reserved by the code, so this holds for callers that do not claim such a name explicitly.
\<close>

definition genesis_name :: "string \<Rightarrow> bool" where
  "genesis_name i \<longleftrightarrow> startswith i ''inc:'' \<and> startswith (rev i) (rev '':genesis'')"

fun op_names_ok :: "trust_op \<Rightarrow> bool" where
  "op_names_ok (Enroll n k (Some i) sc) = (\<not> genesis_name i)"
| "op_names_ok (SucceedIncarnation n p i k) = (\<not> genesis_name i)"
| "op_names_ok _ = True"

definition lineage_ok :: "trust_registry \<Rightarrow> bool" where
  "lineage_ok r \<longleftrightarrow>
     (\<forall>k e. tr_m r k = Some e \<longrightarrow>
        (\<exists>i. tr_inc r (te_incarnation_ref e) = Some i \<and> ie_node_ref i = te_node_ref e))
     \<and> (\<forall>n i. tr_inc r (genesis_incarnation n) = Some i \<longrightarrow> ie_node_ref i = n)"

lemma genesis_name_genesis [simp]: "genesis_name (genesis_incarnation n)"
  by (simp add: genesis_name_def genesis_incarnation_def startswith_def)

lemma genesis_incarnation_inj [simp]: "genesis_incarnation a = genesis_incarnation b \<longleftrightarrow> a = b"
  by (simp add: genesis_incarnation_def)

text \<open>The guarded step: the same calls, with the naming discipline as an extra refusal.\<close>

definition named_step :: "trust_op \<Rightarrow> trust_registry \<Rightarrow> trust_registry result" where
  "named_step c r = (if op_names_ok c then trust_step c r else Inl (ValueError ''reserved name''))"

lemma setdefault_node:
  "setdefault inc \<lparr>ie_node_ref = n, ie_parent = None\<rparr> m i = Some e \<Longrightarrow>
     m i = Some e \<or> i = inc \<and> ie_node_ref e = n"
  by (cases "i = inc") (auto split: option.splits)

lemma lineage_ok_add:
  assumes ok: "lineage_ok r" and m: "tr_m r' = m(k \<mapsto> fresh_entry n inc)"
    and inc: "tr_inc r' = setdefault inc \<lparr>ie_node_ref = n, ie_parent = None\<rparr> (tr_inc r)"
    and own: "\<And>e. tr_inc r inc = Some e \<Longrightarrow> ie_node_ref e = n"
    and gen: "inc = genesis_incarnation n \<or> \<not> genesis_name inc \<or> tr_inc r inc \<noteq> None"
    and old: "\<And>j e. m j = Some e \<Longrightarrow> \<exists>e0 j0. tr_m r j0 = Some e0
       \<and> te_incarnation_ref e0 = te_incarnation_ref e \<and> te_node_ref e0 = te_node_ref e"
  shows "lineage_ok r'"
  unfolding lineage_ok_def
proof (intro conjI allI impI)
  fix j e
  assume j: "tr_m r' j = Some e"
  show "\<exists>i. tr_inc r' (te_incarnation_ref e) = Some i \<and> ie_node_ref i = te_node_ref e"
  proof (cases "j = k")
    case True
    with j m own inc show ?thesis by (auto split: option.splits)
  next
    case False
    with j m have "m j = Some e" by simp
    from old [OF this] obtain e0 j0 where "tr_m r j0 = Some e0"
      "te_incarnation_ref e0 = te_incarnation_ref e" "te_node_ref e0 = te_node_ref e" by blast
    with ok obtain i where "tr_inc r (te_incarnation_ref e) = Some i" "ie_node_ref i = te_node_ref e"
      by (fastforce simp: lineage_ok_def)
    then show ?thesis unfolding inc by (auto dest: setdefault_kept)
  qed
next
  fix n' i
  assume "tr_inc r' (genesis_incarnation n') = Some i"
  then have "tr_inc r (genesis_incarnation n') = Some i
      \<or> genesis_incarnation n' = inc \<and> ie_node_ref i = n \<and> tr_inc r inc = None"
    unfolding inc by (cases "genesis_incarnation n' = inc") (auto split: option.splits)
  with ok gen show "ie_node_ref i = n'" by (auto simp: lineage_ok_def)
qed

lemma lineage_ok_step:
  assumes "lineage_ok r" "named_step c r = Inr r'"
  shows "lineage_ok r'"
proof -
  have names: "op_names_ok c" and step: "trust_step c r = Inr r'"
    using assms(2) by (auto simp: named_step_def split: if_splits)
  show ?thesis
  proof (cases c)
    case (Enroll n k i sc)
    with step obtain inc where "tr_m r' = (tr_m r)(k \<mapsto> fresh_entry n inc)"
      and "tr_inc r' = setdefault inc \<lparr>ie_node_ref = n, ie_parent = None\<rparr> (tr_inc r)"
      and "\<And>e. tr_inc r inc = Some e \<Longrightarrow> ie_node_ref e = n"
      and "inc = genesis_incarnation n \<or> i = Some inc"
      by (auto dest!: enroll_effect)
    moreover from this(4) names Enroll have "inc = genesis_incarnation n \<or> \<not> genesis_name inc" by auto
    ultimately show ?thesis by (intro lineage_ok_add [OF assms(1)]) auto
  next
    case (SucceedIncarnation n p i k)
    with step names have "tr_m r' = (tr_m r)(k \<mapsto> fresh_entry n i)" "tr_inc r i = None"
      "tr_inc r' = (tr_inc r)(i \<mapsto> \<lparr>ie_node_ref = n, ie_parent = Some p\<rparr>)" "\<not> genesis_name i"
      by (auto dest!: succeed_effect)
    moreover from this(4) have g: "genesis_incarnation n' \<noteq> i" for n' by auto
    moreover have "te_incarnation_ref e \<noteq> i" if "tr_m r ka = Some e" for ka e
      using that assms(1) \<open>tr_inc r i = None\<close> by (fastforce simp: lineage_ok_def)
    ultimately show ?thesis using assms(1) by (simp add: lineage_ok_def)
  next
    case (Revoke k f)
    show ?thesis
    proof (cases "tr_m r k")
      case None
      with Revoke step assms show ?thesis by (simp add: revoke_unknown)
    next
      case (Some e)
      then obtain e' where "tr_m r' = (tr_m r)(k \<mapsto> e')" "te_node_ref e' = te_node_ref e"
        "te_incarnation_ref e' = te_incarnation_ref e"
        using revoke_entry [OF Some, of f] Revoke step by auto
      moreover have "tr_inc r' = tr_inc r" using Revoke step by (auto simp: frame_simps)
      ultimately show ?thesis using assms(1) Some by (auto simp: lineage_ok_def)
    qed
  next
    case (Rotate n a b)
    with step have "rotate n a b r = Inr r'" by simp
    from rotate_effect [OF this] obtain inc m where m: "tr_m r' = m(b \<mapsto> fresh_entry n inc)"
      "\<forall>k. k \<noteq> a \<longrightarrow> m k = tr_m r k"
      and i: "tr_inc r' = setdefault inc \<lparr>ie_node_ref = n, ie_parent = None\<rparr> (tr_inc r)"
      and a: "tr_m r a = None \<and> m a = None \<and> inc = genesis_incarnation n
        \<or> (\<exists>e e'. tr_m r a = Some e \<and> m a = Some e' \<and> te_node_ref e = n \<and> te_incarnation_ref e = inc
          \<and> (e' = e \<or> e' = e\<lparr>te_standing := Rotated\<rparr>))" by blast
    have old: "\<exists>e0 j0. tr_m r j0 = Some e0 \<and> te_incarnation_ref e0 = te_incarnation_ref e
        \<and> te_node_ref e0 = te_node_ref e" if "m j = Some e" for j e
      using that m(2) a by (cases "j = a") auto
    have own: "ie_node_ref e = n" if "tr_inc r inc = Some e" for e
      using that a assms(1) by (fastforce simp: lineage_ok_def)
    have gen: "inc = genesis_incarnation n \<or> \<not> genesis_name inc \<or> tr_inc r inc \<noteq> None"
      using a assms(1) by (fastforce simp: lineage_ok_def)
    show ?thesis by (rule lineage_ok_add [OF assms(1) m(1) i own gen old])
  qed (use step assms(1) in \<open>auto simp: lineage_ok_def frame_simps\<close>)
qed

interpretation lineage: guarded_ops named_step lineage_ok
  by unfold_locales (rule lineage_ok_step)

lemma named_exec: "list_all op_names_ok cs \<Longrightarrow> exec_ops named_step cs r = exec_ops trust_step cs r"
  by (induction cs arbitrary: r) (auto simp: named_step_def)

lemma lineage_ok_exec:
  assumes "list_all op_names_ok cs" "lineage_ok r"
  shows "lineage_ok (exec_ops trust_step cs r)"
  using lineage.exec_inv [OF assms(2), of cs] named_exec [OF assms(1)] by simp

lemma lineage_ok_empty: "lineage_ok empty_registry" "trust_ok empty_registry"
  by (simp_all add: lineage_ok_def trust_ok_def empty_registry_def)

end
