(* ===== verification/Authority.thy ===== *)
theory Authority
  imports Trust Events
begin

text \<open>
  \<^verbatim>\<open>kawa/domain/authority.py\<close>: canonical coordinates, accountable signer sets, the proof store,
  the lineage walk, the current configuration and the three-state receipt verifier.

  The two loops of the source walk a store that may hold fabricated cycles.  They are functions
  whose termination is proved from the visited set they carry: every turn puts one more key of the
  (finite) store into it.
\<close>

section \<open>Canonical coordinates\<close>

datatype proof_standing = VALID | INVALID | INCOMPLETE

definition FORK_RESOLUTION_KEY :: string where
  "FORK_RESOLUTION_KEY = ''authority:fork-resolution''"

definition POLICY_KEY :: string where
  "POLICY_KEY = ''authority:policy''"

definition configuration_coordinate :: "string \<Rightarrow> int \<Rightarrow> string list \<Rightarrow> int \<Rightarrow> string option \<Rightarrow> json" where
  "configuration_coordinate authority_key epoch members quorum prior = JObj
     [(''authority_key'', JStr authority_key), (''authority_epoch'', JInt epoch),
      (''members'', jstrs (sort members)), (''quorum'', JInt quorum),
      (''prior_configuration_digest'', jopt JStr prior)]"

definition configuration_coordinate_digest ::
    "crypto \<Rightarrow> string \<Rightarrow> int \<Rightarrow> string list \<Rightarrow> int \<Rightarrow> string option \<Rightarrow> string result" where
  "configuration_coordinate_digest cr authority_key epoch members quorum prior =
     (if card (set members) \<noteq> length members then Inl (ValueError ''duplicate member refs'')
      else Inr (digest (sha256 cr) (configuration_coordinate authority_key epoch members quorum prior)))"

definition fork_resolution_operation ::
    "string \<Rightarrow> int \<Rightarrow> string \<Rightarrow> string \<Rightarrow> string option \<Rightarrow> json" where
  "fork_resolution_operation origin seq chosen_head cfg_digest pol = JObj
     [(''op'', JStr ''fork.resolve''), (''origin_node'', JStr origin), (''origin_seq'', JInt seq),
      (''chosen_head'', JStr chosen_head), (''configuration_digest'', JStr cfg_digest),
      (''policy_digest'', jopt JStr pol)]"

definition fork_resolution_operation_digest ::
    "crypto \<Rightarrow> string \<Rightarrow> int \<Rightarrow> string \<Rightarrow> string \<Rightarrow> string option \<Rightarrow> string" where
  "fork_resolution_operation_digest cr origin seq chosen_head cfg_digest pol =
     digest (sha256 cr) (fork_resolution_operation origin seq chosen_head cfg_digest pol)"

datatype policy_op = PolicyEstablish | PolicySupersede

fun policy_op_text :: "policy_op \<Rightarrow> string" where
  "policy_op_text PolicyEstablish = ''policy.establish''"
| "policy_op_text PolicySupersede = ''policy.supersede''"

definition policy_operation :: "policy_op \<Rightarrow> string \<Rightarrow> string option \<Rightarrow> string \<Rightarrow> json" where
  "policy_operation op pol prior cfg_digest = JObj
     [(''op'', JStr (policy_op_text op)), (''policy_digest'', JStr pol),
      (''prior_policy_digest'', jopt JStr prior), (''configuration_digest'', JStr cfg_digest)]"

definition policy_operation_digest ::
    "crypto \<Rightarrow> policy_op \<Rightarrow> string \<Rightarrow> string option \<Rightarrow> string \<Rightarrow> string" where
  "policy_operation_digest cr op pol prior cfg_digest =
     digest (sha256 cr) (policy_operation op pol prior cfg_digest)"

section \<open>Accountable signer sets\<close>

definition make_proof :: "string \<Rightarrow> node_credential list \<Rightarrow> string" where
  "make_proof statement credentials = canonical_json (JObj
     [(''signer_set'', JList (map (\<lambda>c. JStr (nc_key_ref c)) credentials)),
      (''signatures'', JList (map (\<lambda>c. JStr (nc_sign c statement)) credentials))])"

definition counts :: "crypto \<Rightarrow> string \<Rightarrow> string list \<Rightarrow> key_registry \<Rightarrow> json \<times> json \<Rightarrow> string option" where
  "counts cr statement allowed keys = (\<lambda>(key_ref, sig).
     case (key_ref, sig) of
       (JStr k, JStr s) \<Rightarrow>
         if k \<in> set allowed \<and> resolve_and_verify_provenance cr statement s k ''ed25519'' keys
         then Some k else None
     | _ \<Rightarrow> None)"

definition valid_signers ::
    "crypto \<Rightarrow> string option \<Rightarrow> string \<Rightarrow> string list \<Rightarrow> key_registry \<Rightarrow> string set option" where
  "valid_signers cr proof_json statement allowed keys =
     (case proof_json of
        None \<Rightarrow> None
      | Some t \<Rightarrow>
          if t = [] then None
          else (case loads (float_repr cr) t of
             Some (JObj ms) \<Rightarrow>
               (case (map_of ms ''signer_set'', map_of ms ''signatures'') of
                  (Some (JList ks), Some (JList ss)) \<Rightarrow>
                    if length ks \<noteq> length ss then None
                    else Some (set (List.map_filter (counts cr statement allowed keys) (zip ks ss)))
                | _ \<Rightarrow> None)
           | _ \<Rightarrow> None))"

section \<open>The proof store\<close>

text \<open>A dictionary keyed by configuration digest, in insertion order.\<close>

type_synonym proof_store = "(string \<times> authority_configuration) list"

definition store_add :: "authority_configuration \<Rightarrow> proof_store \<Rightarrow> proof_store" where
  "store_add c s = AList.update (cfg_configuration_digest c) c s"

definition genesis_of :: "proof_store \<Rightarrow> string \<Rightarrow> authority_configuration list" where
  "genesis_of s authority_key =
     filter (\<lambda>c. cfg_authority_key c = authority_key \<and> cfg_prior_configuration_digest c = None) (map snd s)"

definition successors_of :: "proof_store \<Rightarrow> string \<Rightarrow> authority_configuration list" where
  "successors_of s d = filter (\<lambda>c. cfg_prior_configuration_digest c = Some d) (map snd s)"

definition store_ok :: "proof_store \<Rightarrow> bool" where
  "store_ok s \<longleftrightarrow> distinct (map fst s) \<and> (\<forall>(d, c) \<in> set s. cfg_configuration_digest c = d)"

section \<open>Facial validity\<close>

definition bound :: "crypto \<Rightarrow> authority_configuration \<Rightarrow> string \<Rightarrow> bool" where
  "bound cr c d =
     (if card (set (cfg_members c)) \<noteq> length (cfg_members c) then False
      else configuration_coordinate_digest cr (cfg_authority_key c) (cfg_authority_epoch c)
             (cfg_members c) (cfg_quorum c) (cfg_prior_configuration_digest c) = Inr d
           \<and> 1 \<le> cfg_quorum c \<and> cfg_quorum c \<le> int (length (cfg_members c)))"

definition facially_valid_successor ::
    "crypto \<Rightarrow> authority_configuration \<Rightarrow> authority_configuration \<Rightarrow> key_registry \<Rightarrow> bool" where
  "facially_valid_successor cr c parent keys =
     (if \<not> bound cr c (cfg_configuration_digest c) then False
      else if sort (cfg_members c) \<noteq> sort (cfg_members parent) then False
      else if cfg_authority_epoch c \<noteq> cfg_authority_epoch parent + 1 then False
      else (case valid_signers cr (cfg_succession_proof c) (cfg_configuration_digest c)
                   (cfg_members parent) keys of
              None \<Rightarrow> False
            | Some signers \<Rightarrow> int (card signers) \<ge> cfg_quorum parent))"

definition facially_valid_genesis :: "crypto \<Rightarrow> authority_configuration \<Rightarrow> key_registry \<Rightarrow> bool" where
  "facially_valid_genesis cr c keys =
     (if \<not> bound cr c (cfg_configuration_digest c) \<or> cfg_authority_epoch c \<noteq> 0 then False
      else (case valid_signers cr (cfg_succession_proof c) (cfg_configuration_digest c)
                   (cfg_members c) keys of
              None \<Rightarrow> False
            | Some signers \<Rightarrow> signers = set (cfg_members c)))"

section \<open>Lineage standing of one configuration\<close>

datatype lineage = Cyclic | NotHeld | Lineage "string list"

text \<open>The walk to the root: the path is collected root first.\<close>

function ancestry :: "proof_store \<Rightarrow> string list \<Rightarrow> string \<Rightarrow> lineage" where
  "ancestry s path cursor =
     (if cursor \<in> set path then Cyclic
      else (case map_of s cursor of
              None \<Rightarrow> NotHeld
            | Some c \<Rightarrow>
                (case cfg_prior_configuration_digest c of
                   None \<Rightarrow> Lineage (cursor # path)
                 | Some p \<Rightarrow> ancestry s (cursor # path) p)))"
  by pat_completeness auto
termination
proof (relation "measure (\<lambda>(s, path, cursor). card (fst ` set s - set path))")
  fix s path cursor c p
  assume "cursor \<notin> set path" and "map_of s cursor = Some c"
  then have "cursor \<in> fst ` set s - set path" by (force dest: map_of_SomeD)
  then have "fst ` set s - set (cursor # path) \<subset> fst ` set s - set path" by auto
  then show "((s, cursor # path, p), (s, path, cursor))
      \<in> measure (\<lambda>(s, path, cursor). card (fst ` set s - set path))"
    by (simp add: psubset_card_mono)
qed simp

declare ancestry.simps [simp del]

definition link_sound :: "crypto \<Rightarrow> key_registry \<Rightarrow> proof_store \<Rightarrow> string \<Rightarrow> bool" where
  "link_sound cr keys s d =
     (case map_of s d of
        None \<Rightarrow> False
      | Some c \<Rightarrow>
          (case cfg_prior_configuration_digest c of
             None \<Rightarrow>
               facially_valid_genesis cr c keys
               \<and> \<not> length (filter (\<lambda>g. facially_valid_genesis cr g keys)
                        (genesis_of s (cfg_authority_key c))) > 1
           | Some p \<Rightarrow>
               (case map_of s p of
                  None \<Rightarrow> False
                | Some parent \<Rightarrow>
                    facially_valid_successor cr c parent keys
                    \<and> \<not> length (filter (\<lambda>x. facially_valid_successor cr x parent keys)
                             (successors_of s (cfg_configuration_digest parent))) > 1)))"

definition verify_configuration ::
    "crypto \<Rightarrow> key_registry \<Rightarrow> proof_store \<Rightarrow> string \<Rightarrow> proof_standing" where
  "verify_configuration cr keys s d =
     (case ancestry s [] d of
        Cyclic \<Rightarrow> INVALID
      | NotHeld \<Rightarrow> INCOMPLETE
      | Lineage path \<Rightarrow> if list_all (link_sound cr keys s) path then VALID else INVALID)"

section \<open>The current configuration of a key\<close>

function head_walk ::
    "crypto \<Rightarrow> key_registry \<Rightarrow> proof_store \<Rightarrow> string set \<Rightarrow> authority_configuration
      \<Rightarrow> proof_standing \<times> authority_configuration option" where
  "head_walk cr keys s seen head =
     (case filter (\<lambda>x. facially_valid_successor cr x head keys)
             (successors_of s (cfg_configuration_digest head)) of
        [] \<Rightarrow> (VALID, Some head)
      | x # xs \<Rightarrow>
          if cfg_configuration_digest x \<in> seen then (INVALID, None)
          else if xs \<noteq> [] then (INVALID, None)
          else head_walk cr keys s (insert (cfg_configuration_digest x) seen) x)"
  by pat_completeness auto
termination
proof (relation "measure (\<lambda>(cr, keys, s, seen, head).
    card (cfg_configuration_digest ` snd ` set s - seen))")
  fix cr keys s seen head x xs
  assume f: "filter (\<lambda>x. facially_valid_successor cr x head keys)
      (successors_of s (cfg_configuration_digest head)) = x # xs"
    and fresh: "cfg_configuration_digest x \<notin> seen"
  from f have "x \<in> set (filter (\<lambda>x. facially_valid_successor cr x head keys)
      (successors_of s (cfg_configuration_digest head)))" by simp
  then have "x \<in> snd ` set s" by (auto simp: successors_of_def)
  with fresh have "cfg_configuration_digest ` snd ` set s - insert (cfg_configuration_digest x) seen
      \<subset> cfg_configuration_digest ` snd ` set s - seen" by auto
  then show "((cr, keys, s, insert (cfg_configuration_digest x) seen, x), (cr, keys, s, seen, head))
      \<in> measure (\<lambda>(cr, keys, s, seen, head). card (cfg_configuration_digest ` snd ` set s - seen))"
    by (simp add: psubset_card_mono)
qed simp

declare head_walk.simps [simp del]

definition current_configuration ::
    "crypto \<Rightarrow> key_registry \<Rightarrow> proof_store \<Rightarrow> string
      \<Rightarrow> proof_standing \<times> authority_configuration option" where
  "current_configuration cr keys s authority_key =
     (case filter (\<lambda>g. facially_valid_genesis cr g keys) (genesis_of s authority_key) of
        [] \<Rightarrow> if list_ex (\<lambda>c. cfg_authority_key c = authority_key) (map snd s)
              then (INCOMPLETE, None) else (INVALID, None)
      | g # gs \<Rightarrow>
          if gs \<noteq> [] then (INVALID, None)
          else head_walk cr keys s {cfg_configuration_digest g} g)"

section \<open>Receipt standing\<close>

definition verify_receipt ::
    "crypto \<Rightarrow> key_registry \<Rightarrow> trust_registry option \<Rightarrow> proof_store \<Rightarrow> authority_receipt
      \<Rightarrow> proof_standing" where
  "verify_receipt cr keys trust s r =
     (case map_of s (rc_configuration_digest r) of
        None \<Rightarrow> INCOMPLETE
      | Some c \<Rightarrow>
          if cfg_authority_key c \<noteq> rc_authority_key r then INVALID
          else if cfg_authority_epoch c \<noteq> rc_authority_epoch r then INVALID
          else (case current_configuration cr keys s (rc_authority_key r) of
                  (INCOMPLETE, _) \<Rightarrow> INCOMPLETE
                | (INVALID, _) \<Rightarrow> INVALID
                | (VALID, None) \<Rightarrow> INVALID
                | (VALID, Some current) \<Rightarrow>
                    if cfg_configuration_digest current \<noteq> rc_configuration_digest r then INVALID
                    else (case valid_signers cr (Some (rc_quorum_proof r)) (rc_operation_digest r)
                                 (cfg_members c) keys of
                            None \<Rightarrow> INVALID
                          | Some signers \<Rightarrow>
                              (let signers' = (case trust of
                                     None \<Rightarrow> signers
                                   | Some t \<Rightarrow> Set.filter (\<lambda>k. standing t k None = Active) signers)
                               in if int (card signers') < cfg_quorum c then INVALID else VALID))))"

section \<open>What a coordinate commits to\<close>

lemma wf_coordinate [simp]:
  "wf_json (configuration_coordinate k e m q p)" "wf_json (fork_resolution_operation o' n h c pd)"
  "wf_json (policy_operation op q' pp c)"
  by (simp_all add: configuration_coordinate_def fork_resolution_operation_def policy_operation_def)

lemma configuration_coordinate_inj:
  assumes "digest sha (configuration_coordinate k e m q p) = digest sha (configuration_coordinate k' e' m' q' p')"
    and "no_collision sha (configuration_coordinate k e m q p) (configuration_coordinate k' e' m' q' p')"
  shows "k = k' \<and> e = e' \<and> sort m = sort m' \<and> q = q' \<and> p = p'"
proof -
  have "sort_keys (configuration_coordinate k e m q p) = sort_keys (configuration_coordinate k' e' m' q' p')"
    using assms by (intro digest_inj [of sha]) simp_all
  note f = sort_keys_obj_field [OF this [unfolded configuration_coordinate_def]]
  show ?thesis
    using f [of "''authority_key''" "JStr k" "JStr k'"] f [of "''authority_epoch''" "JInt e" "JInt e'"]
      f [of "''members''" "jstrs (sort m)" "jstrs (sort m')"] f [of "''quorum''" "JInt q" "JInt q'"]
      f [of "''prior_configuration_digest''" "jopt JStr p" "jopt JStr p'"]
    by simp
qed

lemma policy_op_text_inj [simp]: "policy_op_text a = policy_op_text b \<longleftrightarrow> a = b"
  by (cases a; cases b) simp_all

lemma policy_operation_inj:
  assumes "policy_operation_digest cr op pd pp c = policy_operation_digest cr op' pd' pp' c'"
    and "no_collision (sha256 cr) (policy_operation op pd pp c) (policy_operation op' pd' pp' c')"
  shows "op = op' \<and> pd = pd' \<and> pp = pp' \<and> c = c'"
proof -
  have "sort_keys (policy_operation op pd pp c) = sort_keys (policy_operation op' pd' pp' c')"
    using assms by (intro digest_inj [of "sha256 cr"]) (simp_all add: policy_operation_digest_def)
  note f = sort_keys_obj_field [OF this [unfolded policy_operation_def]]
  show ?thesis
    using f [of "''op''" "JStr (policy_op_text op)" "JStr (policy_op_text op')"]
      f [of "''policy_digest''" "JStr pd" "JStr pd'"]
      f [of "''prior_policy_digest''" "jopt JStr pp" "jopt JStr pp'"]
      f [of "''configuration_digest''" "JStr c" "JStr c'"]
    by simp
qed

lemma fork_resolution_operation_inj:
  assumes "fork_resolution_operation_digest cr a n h c pd = fork_resolution_operation_digest cr a' n' h' c' pd'"
    and "no_collision (sha256 cr) (fork_resolution_operation a n h c pd)
           (fork_resolution_operation a' n' h' c' pd')"
  shows "a = a' \<and> n = n' \<and> h = h' \<and> c = c' \<and> pd = pd'"
proof -
  have "sort_keys (fork_resolution_operation a n h c pd) = sort_keys (fork_resolution_operation a' n' h' c' pd')"
    using assms by (intro digest_inj [of "sha256 cr"]) (simp_all add: fork_resolution_operation_digest_def)
  note f = sort_keys_obj_field [OF this [unfolded fork_resolution_operation_def]]
  show ?thesis
    using f [of "''origin_node''" "JStr a" "JStr a'"] f [of "''origin_seq''" "JInt n" "JInt n'"]
      f [of "''chosen_head''" "JStr h" "JStr h'"] f [of "''configuration_digest''" "JStr c" "JStr c'"]
      f [of "''policy_digest''" "jopt JStr pd" "jopt JStr pd'"]
    by simp
qed

text \<open>The operations of the two kinds never share a digest: a receipt is for one purpose.\<close>

lemma operations_separate:
  assumes "no_collision (sha256 cr) (fork_resolution_operation a n h c pd) (policy_operation op q pp c')"
  shows "fork_resolution_operation_digest cr a n h c pd \<noteq> policy_operation_digest cr op q pp c'"
proof
  assume "fork_resolution_operation_digest cr a n h c pd = policy_operation_digest cr op q pp c'"
  with assms have "sort_keys (fork_resolution_operation a n h c pd) = sort_keys (policy_operation op q pp c')"
    by (intro digest_inj [of "sha256 cr"])
      (simp_all add: fork_resolution_operation_digest_def policy_operation_digest_def)
  note keys = sort_keys_obj_keys [OF this [unfolded fork_resolution_operation_def policy_operation_def]]
  have "''origin_node'' \<in> fst ` set [(''op'', JStr ''fork.resolve''), (''origin_node'', JStr a),
      (''origin_seq'', JInt n), (''chosen_head'', JStr h), (''configuration_digest'', JStr c),
      (''policy_digest'', jopt JStr pd)]" by simp
  then show False unfolding keys by simp
qed

section \<open>Signer sets\<close>

lemma valid_signers_sound:
  assumes "valid_signers cr p st allowed keys = Some S" "k \<in> S"
  shows "k \<in> set allowed \<and> (\<exists>sig. resolve_and_verify_provenance cr st sig k ''ed25519'' keys)"
proof -
  from assms(1) obtain ps where "S = set (List.map_filter (counts cr st allowed keys) ps)"
    unfolding valid_signers_def by (auto split: option.splits if_splits json.splits)
  with assms(2) obtain x where x: "counts cr st allowed keys x = Some k"
    by (auto simp: List.map_filter_def)
  obtain a b where ab: "x = (a, b)" by force
  with x obtain k' s' where "a = JStr k'" "b = JStr s'"
    by (cases a; cases b) (simp_all add: counts_def)
  with x ab show ?thesis by (auto simp: counts_def split: if_splits)
qed

lemma valid_signers_finite:
  assumes "valid_signers cr p st allowed keys = Some S"
  shows "finite S"
  using valid_signers_sound [OF assms] by (meson List.finite_set finite_subset subsetI)

text \<open>A proof made by registered credentials is read back as exactly the allowed ones among them.\<close>

lemma loadable_proof:
  "loadable fr (JObj [(''signer_set'', JList (map (\<lambda>c. JStr (f c)) cs)),
                      (''signatures'', JList (map (\<lambda>c. JStr (g c)) cs))])"
proof -
  have "loadable_elems fr (map (\<lambda>c. JStr (f c)) cs)" for f :: "'a \<Rightarrow> string"
    by (induction cs) simp_all
  then show ?thesis by simp
qed

lemma make_proof_valid:
  assumes "\<forall>c \<in> set cs. nc_scheme c = ''ed25519'' \<and> credential_registered cr keys c st"
  shows "valid_signers cr (Some (make_proof st cs)) st allowed keys
    = Some (nc_key_ref ` set cs \<inter> set allowed)"
proof -
  let ?K = "map (\<lambda>c. JStr (nc_key_ref c)) cs" and ?S = "map (\<lambda>c. JStr (nc_sign c st)) cs"
  let ?j = "JObj [(''signer_set'', JList ?K), (''signatures'', JList ?S)]"
  have "loads (float_repr cr) (make_proof st cs) = Some (sort_keys ?j)"
    unfolding make_proof_def by (rule loads_canonical) (rule loadable_proof)
  moreover have "sort_keys ?j = JObj [(''signatures'', JList ?S), (''signer_set'', JList ?K)]"
    by (simp add: sort_elems_map comp_def less_list_code)
  moreover have "make_proof st cs \<noteq> []"
    by (simp add: make_proof_def canonical_json_def \<open>sort_keys ?j = _\<close>)
  moreover have ok: "\<forall>c \<in> set cs. resolve_and_verify_provenance cr st (nc_sign c st) (nc_key_ref c) ''ed25519'' keys"
    using assms by (auto simp: credential_registered_def)
  have "set (List.map_filter (counts cr st allowed keys) (zip ?K ?S))
      = nc_key_ref ` set cs \<inter> set allowed"
    using ok by (induction cs) (auto simp: map_filter_simps counts_def)
  then have "set (List.map_filter (counts cr st allowed keys) (zip ?K ?S))
      = nc_key_ref ` set cs \<inter> set allowed" .
  ultimately show ?thesis by (simp add: valid_signers_def)
qed

section \<open>The forward walk\<close>

text \<open>The one facially valid successor of a configuration.\<close>

definition successors ::
    "crypto \<Rightarrow> key_registry \<Rightarrow> proof_store \<Rightarrow> authority_configuration \<Rightarrow> authority_configuration list" where
  "successors cr keys s c =
     filter (\<lambda>x. facially_valid_successor cr x c keys) (successors_of s (cfg_configuration_digest c))"

definition geneses :: "crypto \<Rightarrow> key_registry \<Rightarrow> proof_store \<Rightarrow> string \<Rightarrow> authority_configuration list" where
  "geneses cr keys s k = filter (\<lambda>g. facially_valid_genesis cr g keys) (genesis_of s k)"

definition succeeds ::
    "crypto \<Rightarrow> key_registry \<Rightarrow> proof_store \<Rightarrow> authority_configuration \<Rightarrow> authority_configuration \<Rightarrow> bool" where
  "succeeds cr keys s c d \<longleftrightarrow> successors cr keys s c = [d]"

lemma head_walk_code:
  "head_walk cr keys s seen head =
     (case successors cr keys s head of
        [] \<Rightarrow> (VALID, Some head)
      | x # xs \<Rightarrow>
          if cfg_configuration_digest x \<in> seen \<or> xs \<noteq> [] then (INVALID, None)
          else head_walk cr keys s (insert (cfg_configuration_digest x) seen) x)"
  by (subst head_walk.simps) (simp add: successors_def split: list.split)

lemma fvs_epoch: "facially_valid_successor cr c p keys \<Longrightarrow> cfg_authority_epoch c = cfg_authority_epoch p + 1"
  by (simp add: facially_valid_successor_def split: if_splits)

lemma fvs_bound: "facially_valid_successor cr c p keys \<Longrightarrow> bound cr c (cfg_configuration_digest c)"
  by (simp add: facially_valid_successor_def split: if_splits)

lemma fvg_bound: "facially_valid_genesis cr c keys \<Longrightarrow> bound cr c (cfg_configuration_digest c)"
  by (simp add: facially_valid_genesis_def split: if_splits)

lemma successors_held:
  "x \<in> set (successors cr keys s c) \<Longrightarrow>
     x \<in> snd ` set s \<and> facially_valid_successor cr x c keys
     \<and> cfg_prior_configuration_digest x = Some (cfg_configuration_digest c)"
  by (auto simp: successors_def successors_of_def)

lemma geneses_held:
  "g \<in> set (geneses cr keys s k) \<Longrightarrow>
     g \<in> snd ` set s \<and> facially_valid_genesis cr g keys
     \<and> cfg_prior_configuration_digest g = None \<and> cfg_authority_key g = k"
  by (auto simp: geneses_def genesis_of_def)

lemma store_held:
  assumes "store_ok s" "c \<in> snd ` set s"
  shows "map_of s (cfg_configuration_digest c) = Some c"
  using assms by (auto simp: store_ok_def intro: map_of_is_SomeI)

lemma store_held_inj:
  assumes "store_ok s" "c \<in> snd ` set s" "d \<in> snd ` set s"
    "cfg_configuration_digest c = cfg_configuration_digest d"
  shows "c = d"
  using store_held [OF assms(1,2)] store_held [OF assms(1,3)] assms(4) by (metis option.inject)

lemma store_lookup:
  assumes "store_ok s" "map_of s d = Some c"
  shows "c \<in> snd ` set s \<and> cfg_configuration_digest c = d"
  using assms by (auto simp: store_ok_def dest!: map_of_SomeD intro: rev_image_eqI)

lemma succeeds_unique: "succeeds cr keys s a b \<Longrightarrow> succeeds cr keys s a c \<Longrightarrow> b = c"
  by (simp add: succeeds_def)

text \<open>
  What the walk has seen lies strictly behind it: epochs grow by one, so on a store keyed by
  digest the cycle check never fires and the walk answers exactly the end of the unique line.
\<close>

definition behind :: "proof_store \<Rightarrow> string set \<Rightarrow> authority_configuration \<Rightarrow> bool" where
  "behind s seen head \<longleftrightarrow> (\<forall>d \<in> seen. \<exists>c \<in> snd ` set s. cfg_configuration_digest c = d
     \<and> cfg_authority_epoch c \<le> cfg_authority_epoch head)"

lemma behind_fresh:
  assumes "store_ok s" "behind s seen head" "x \<in> set (successors cr keys s head)"
  shows "cfg_configuration_digest x \<notin> seen"
    and "behind s (insert (cfg_configuration_digest x) seen) x"
proof -
  have x: "x \<in> snd ` set s" "cfg_authority_epoch x = cfg_authority_epoch head + 1"
    using successors_held [OF assms(3)] by (auto dest: fvs_epoch)
  show "cfg_configuration_digest x \<notin> seen"
  proof
    assume "cfg_configuration_digest x \<in> seen"
    then obtain c where "c \<in> snd ` set s" "cfg_configuration_digest c = cfg_configuration_digest x"
      "cfg_authority_epoch c \<le> cfg_authority_epoch head"
      using assms(2) unfolding behind_def by blast
    with x store_held_inj [OF assms(1) this(1) x(1)] show False by simp
  qed
  show "behind s (insert (cfg_configuration_digest x) seen) x"
    using assms(2) x by (force simp: behind_def)
qed

lemma head_walk_iff:
  "store_ok s \<Longrightarrow> behind s seen head \<Longrightarrow>
    head_walk cr keys s seen head = (VALID, Some c) \<longleftrightarrow>
      (succeeds cr keys s)\<^sup>*\<^sup>* head c \<and> successors cr keys s c = []"
proof (induction cr keys s seen head rule: head_walk.induct)
  case (1 cr keys s seen head)
  note code = head_walk_code [of cr keys s seen head]
  show ?case
  proof (cases "\<exists>x. successors cr keys s head = [x]")
    case True
    then obtain x where x: "successors cr keys s head = [x]" by blast
    then have sx: "succeeds cr keys s head x" by (simp add: succeeds_def)
    have fresh: "cfg_configuration_digest x \<notin> seen"
      "behind s (insert (cfg_configuration_digest x) seen) x"
      using behind_fresh [OF "1.prems", of x cr keys] x by auto
    have "head_walk cr keys s (insert (cfg_configuration_digest x) seen) x = (VALID, Some c) \<longleftrightarrow>
        (succeeds cr keys s)\<^sup>*\<^sup>* x c \<and> successors cr keys s c = []"
      using x "1.prems"(1) fresh by (intro "1.IH") (auto simp: successors_def)
    moreover have "(succeeds cr keys s)\<^sup>*\<^sup>* head c \<and> successors cr keys s c = [] \<longleftrightarrow>
        (succeeds cr keys s)\<^sup>*\<^sup>* x c \<and> successors cr keys s c = []"
    proof -
      have "(succeeds cr keys s)\<^sup>*\<^sup>* x c"
        if "(succeeds cr keys s)\<^sup>*\<^sup>* head c" "successors cr keys s c = []"
        using that(1)
      proof (cases rule: converse_rtranclpE)
        case base
        with that x show ?thesis by simp
      next
        case (step y)
        with succeeds_unique [OF sx step(1)] show ?thesis by simp
      qed
      with sx show ?thesis by (meson converse_rtranclp_into_rtranclp)
    qed
    ultimately show ?thesis using code x fresh by simp
  next
    case False
    then have "\<not> succeeds cr keys s head x" for x by (simp add: succeeds_def)
    then have "(succeeds cr keys s)\<^sup>*\<^sup>* head c \<longleftrightarrow> head = c" by (auto elim: converse_rtranclpE)
    with False code show ?thesis by (cases "successors cr keys s head") auto
  qed
qed

lemma current_configuration_code:
  "current_configuration cr keys s k =
     (case geneses cr keys s k of
        [] \<Rightarrow> if list_ex (\<lambda>c. cfg_authority_key c = k) (map snd s)
              then (INCOMPLETE, None) else (INVALID, None)
      | g # gs \<Rightarrow>
          if gs \<noteq> [] then (INVALID, None)
          else head_walk cr keys s {cfg_configuration_digest g} g)"
  by (simp add: current_configuration_def geneses_def)

lemma behind_genesis: "g \<in> snd ` set s \<Longrightarrow> behind s {cfg_configuration_digest g} g"
  by (auto simp: behind_def)

lemma current_configuration_iff:
  assumes "store_ok s"
  shows "current_configuration cr keys s k = (VALID, Some c) \<longleftrightarrow>
    (\<exists>g. geneses cr keys s k = [g] \<and> (succeeds cr keys s)\<^sup>*\<^sup>* g c \<and> successors cr keys s c = [])"
proof (cases "\<exists>g. geneses cr keys s k = [g]")
  case True
  then obtain g where g: "geneses cr keys s k = [g]" by blast
  then have "g \<in> snd ` set s" using geneses_held [of g cr keys s k] by simp
  with g head_walk_iff [OF assms behind_genesis, of g cr keys c] show ?thesis
    by (simp add: current_configuration_code)
next
  case False
  then show ?thesis
    by (cases "geneses cr keys s k") (auto simp: current_configuration_code split: if_splits)
qed

lemma head_walk_total: "head_walk cr keys s seen head = (st, c) \<Longrightarrow> (st = VALID \<longleftrightarrow> c \<noteq> None) \<and> st \<noteq> INCOMPLETE"
proof (induction cr keys s seen head rule: head_walk.induct)
  case (1 cr keys s seen head)
  then show ?case
    using head_walk_code [of cr keys s seen head]
    by (cases "successors cr keys s head") (auto simp: successors_def split: if_splits)
qed

lemma current_configuration_total:
  "current_configuration cr keys s k = (st, c) \<Longrightarrow> (st = VALID \<longleftrightarrow> c \<noteq> None)"
  using head_walk_total by (fastforce simp: current_configuration_code split: list.splits if_splits)

section \<open>The walk to the root\<close>

text \<open>A lineage as the store holds it: the first digest has no prior, each next names the one before.\<close>

fun linked :: "proof_store \<Rightarrow> string list \<Rightarrow> bool" where
  "linked s [] = True"
| "linked s [d] = (\<exists>c. map_of s d = Some c)"
| "linked s (d # e # ds) =
     ((\<exists>c. map_of s d = Some c)
      \<and> (\<exists>c. map_of s e = Some c \<and> cfg_prior_configuration_digest c = Some d) \<and> linked s (e # ds))"

definition rooted :: "proof_store \<Rightarrow> string list \<Rightarrow> bool" where
  "rooted s ds \<longleftrightarrow> ds \<noteq> [] \<and> linked s ds
     \<and> (\<exists>c. map_of s (hd ds) = Some c \<and> cfg_prior_configuration_digest c = None)"

definition prior_of :: "proof_store \<Rightarrow> string \<Rightarrow> string option" where
  "prior_of s d = (case map_of s d of None \<Rightarrow> None | Some c \<Rightarrow> cfg_prior_configuration_digest c)"

lemma linked_append:
  "linked s (xs @ [d]) \<longleftrightarrow> (xs = [] \<or> linked s xs \<and> prior_of s d = Some (last xs)) \<and> map_of s d \<noteq> None"
proof (induction s xs rule: linked.induct)
  case (2 s x)
  then show ?case by (auto simp: prior_of_def split: option.splits)
next
  case (3 s x y ds)
  then show ?case by auto
qed auto

lemma ancestry_linked:
  "ancestry s path d = Lineage ds \<Longrightarrow> linked s (d # path) \<or> path = [] \<Longrightarrow>
    rooted s ds \<and> (\<exists>xs. ds = xs @ d # path)"
proof (induction s path d rule: ancestry.induct)
  case (1 s path d)
  from "1.prems"(1) obtain c where d: "d \<notin> set path" "map_of s d = Some c"
    by (subst (asm) ancestry.simps) (auto split: if_splits option.splits)
  show ?case
  proof (cases "cfg_prior_configuration_digest c")
    case None
    with d "1.prems" show ?thesis
      by (subst (asm) ancestry.simps) (auto simp: rooted_def)
  next
    case (Some p)
    with d "1.prems"(1) have a: "ancestry s (d # path) p = Lineage ds"
      by (subst (asm) ancestry.simps) simp
    then obtain q where "map_of s p = Some q"
      by (subst (asm) ancestry.simps) (auto split: if_splits option.splits)
    with Some d "1.prems"(2) have "linked s (p # d # path)" by auto
    with "1.IH" [OF d(1) d(2) Some a] show ?thesis by auto
  qed
qed

lemma ancestry_rooted:
  assumes "ancestry s [] d = Lineage ds"
  shows "rooted s ds" "last ds = d"
  using ancestry_linked [OF assms] by auto

lemma ancestry_in: "ancestry s path d = Lineage ds \<Longrightarrow> insert d (set path) \<subseteq> set ds"
proof (induction s path d rule: ancestry.induct)
  case (1 s path d)
  from "1.prems" obtain c where d: "d \<notin> set path" "map_of s d = Some c"
    by (subst (asm) ancestry.simps) (auto split: if_splits option.splits)
  show ?case
  proof (cases "cfg_prior_configuration_digest c")
    case None
    with d "1.prems" show ?thesis by (subst (asm) ancestry.simps) auto
  next
    case (Some p)
    with d "1.prems" have "ancestry s (d # path) p = Lineage ds"
      by (subst (asm) ancestry.simps) simp
    from "1.IH" [OF d Some this] show ?thesis by auto
  qed
qed

text \<open>Walking on with more visited digests gives the same line, as long as it does not meet them.\<close>

lemma ancestry_extend:
  "ancestry s path d = Lineage ds \<Longrightarrow> set ds \<inter> set rest = {} \<Longrightarrow>
     ancestry s (path @ rest) d = Lineage (ds @ rest)"
proof (induction s path d rule: ancestry.induct)
  case (1 s path d)
  from "1.prems"(1) obtain c where d: "d \<notin> set path" "map_of s d = Some c"
    by (subst (asm) ancestry.simps) (auto split: if_splits option.splits)
  show ?case
  proof (cases "cfg_prior_configuration_digest c")
    case None
    with d "1.prems" have "ds = d # path" by (subst (asm) ancestry.simps) simp
    with None d "1.prems"(2) show ?thesis by (subst ancestry.simps) simp
  next
    case (Some p)
    with d "1.prems"(1) have a: "ancestry s (d # path) p = Lineage ds"
      by (subst (asm) ancestry.simps) simp
    with Some d "1.prems"(2) "1.IH" [OF d(1) d(2) Some] have
      "ancestry s ((d # path) @ rest) p = Lineage (ds @ rest)" by simp
    moreover have "d \<in> set ds"
      using ancestry_in [OF a] by auto
    ultimately show ?thesis using d Some "1.prems"(2) by (subst ancestry.simps) auto
  qed
qed

section \<open>No two lines\<close>

definition sound_line :: "crypto \<Rightarrow> key_registry \<Rightarrow> proof_store \<Rightarrow> string list \<Rightarrow> bool" where
  "sound_line cr keys s ds \<longleftrightarrow> rooted s ds \<and> list_all (link_sound cr keys s) ds"

lemma verify_configuration_iff:
  "verify_configuration cr keys s d = VALID \<longleftrightarrow>
     (\<exists>ds. ancestry s [] d = Lineage ds \<and> sound_line cr keys s ds \<and> last ds = d)"
  using ancestry_rooted
  by (auto simp: verify_configuration_def sound_line_def split: lineage.splits)

lemma link_sound_genesis:
  assumes "store_ok s" "link_sound cr keys s d" "map_of s d = Some c"
    "cfg_prior_configuration_digest c = None"
  shows "geneses cr keys s (cfg_authority_key c) = [c]"
proof -
  have f: "facially_valid_genesis cr c keys"
    and l: "\<not> length (geneses cr keys s (cfg_authority_key c)) > 1"
    using assms by (auto simp: link_sound_def geneses_def)
  have "c \<in> set (geneses cr keys s (cfg_authority_key c))"
    using f assms store_lookup [OF assms(1,3)] by (auto simp: geneses_def genesis_of_def)
  with l show ?thesis by (cases "geneses cr keys s (cfg_authority_key c)") auto
qed

lemma link_sound_successor:
  assumes "store_ok s" "link_sound cr keys s d" "map_of s d = Some c"
    "cfg_prior_configuration_digest c = Some p" "map_of s p = Some q"
  shows "succeeds cr keys s q c"
proof -
  have f: "facially_valid_successor cr c q keys"
    and l: "\<not> length (successors cr keys s q) > 1"
    using assms by (auto simp: link_sound_def successors_def)
  have "c \<in> set (successors cr keys s q)"
    using f assms store_lookup [OF assms(1,3)] store_lookup [OF assms(1,5)]
    by (auto simp: successors_def successors_of_def)
  with l show ?thesis by (cases "successors cr keys s q") (auto simp: succeeds_def)
qed

lemma linked_nth:
  "linked s ds \<Longrightarrow> Suc i < length ds \<Longrightarrow>
     \<exists>c q. map_of s (ds ! Suc i) = Some c \<and> cfg_prior_configuration_digest c = Some (ds ! i)
       \<and> map_of s (ds ! i) = Some q"
proof (induction s ds arbitrary: i rule: linked.induct)
  case (3 s d e ds)
  then show ?case
  proof (cases i)
    case 0
    with "3.prems" show ?thesis by auto
  next
    case (Suc j)
    with 3 show ?thesis by auto
  qed
qed auto

lemma sound_lines_agree:
  assumes "store_ok s" and ds: "sound_line cr keys s ds" and es: "sound_line cr keys s es"
    and root: "map_of s (hd ds) = Some a" "map_of s (hd es) = Some b"
      "cfg_authority_key a = cfg_authority_key b"
  shows "i < length ds \<Longrightarrow> i < length es \<Longrightarrow> ds ! i = es ! i"
proof (induction i)
  case 0
  have ne: "ds \<noteq> []" "es \<noteq> []" using ds es by (auto simp: sound_line_def rooted_def)
  then have "link_sound cr keys s (hd ds)" "link_sound cr keys s (hd es)"
    using ds es by (auto simp: sound_line_def list_all_iff)
  moreover have "cfg_prior_configuration_digest a = None" "cfg_prior_configuration_digest b = None"
    using ds es root by (auto simp: sound_line_def rooted_def)
  ultimately have "geneses cr keys s (cfg_authority_key a) = [a]"
    "geneses cr keys s (cfg_authority_key b) = [b]"
    using link_sound_genesis [OF assms(1) _ root(1)] link_sound_genesis [OF assms(1) _ root(2)]
    by blast+
  with root(3) have "[a] = [b]" by metis
  then have "a = b" by simp
  with store_lookup [OF assms(1) root(1)] store_lookup [OF assms(1) root(2)]
  have "hd ds = hd es" by metis
  with ne show ?case by (simp add: hd_conv_nth)
next
  case (Suc i)
  then have eq: "ds ! i = es ! i" by simp
  obtain c q where c: "map_of s (ds ! Suc i) = Some c" "cfg_prior_configuration_digest c = Some (ds ! i)"
    "map_of s (ds ! i) = Some q"
    using linked_nth [of s ds i] ds Suc by (auto simp: sound_line_def rooted_def)
  obtain c' q' where c': "map_of s (es ! Suc i) = Some c'" "cfg_prior_configuration_digest c' = Some (es ! i)"
    "map_of s (es ! i) = Some q'"
    using linked_nth [of s es i] es Suc by (auto simp: sound_line_def rooted_def)
  have "link_sound cr keys s (ds ! Suc i)" "link_sound cr keys s (es ! Suc i)"
    using ds es Suc by (auto simp: sound_line_def list_all_iff)
  then have "succeeds cr keys s q c" "succeeds cr keys s q' c'"
    using link_sound_successor [OF assms(1)] c c' by blast+
  with eq c c' have "c = c'" using succeeds_unique by auto
  with store_lookup [OF assms(1) c(1)] store_lookup [OF assms(1) c'(1)] show ?case by metis
qed

lemma sound_lines_prefix:
  assumes "store_ok s" "sound_line cr keys s ds" "sound_line cr keys s es"
    "map_of s (hd ds) = Some a" "map_of s (hd es) = Some b" "cfg_authority_key a = cfg_authority_key b"
  shows "ds = take (length ds) es \<or> es = take (length es) ds"
proof -
  note agree = sound_lines_agree [OF assms]
  show ?thesis
  proof (cases "length ds \<le> length es")
    case True
    with agree have "ds = take (length ds) es" by (intro nth_equalityI) auto
    then show ?thesis ..
  next
    case False
    with agree have "es = take (length es) ds" by (intro nth_equalityI) auto
    then show ?thesis ..
  qed
qed

section \<open>The current configuration is a verified one\<close>

lemma succeeds_link_sound:
  assumes "store_ok s" "succeeds cr keys s q c" "q \<in> snd ` set s"
  shows "link_sound cr keys s (cfg_configuration_digest c)"
    "map_of s (cfg_configuration_digest c) = Some c"
    "cfg_prior_configuration_digest c = Some (cfg_configuration_digest q)"
    "map_of s (cfg_configuration_digest q) = Some q"
    "cfg_authority_epoch c = cfg_authority_epoch q + 1"
proof -
  have c: "c \<in> set (successors cr keys s q)" using assms by (simp add: succeeds_def)
  note h = successors_held [OF this]
  show m: "map_of s (cfg_configuration_digest c) = Some c"
    "cfg_prior_configuration_digest c = Some (cfg_configuration_digest q)"
    "map_of s (cfg_configuration_digest q) = Some q"
    using h assms by (auto intro: store_held)
  show "cfg_authority_epoch c = cfg_authority_epoch q + 1" using h by (auto dest: fvs_epoch)
  have "length (successors cr keys s q) = 1" using assms by (simp add: succeeds_def)
  then show "link_sound cr keys s (cfg_configuration_digest c)"
    using m h by (simp add: link_sound_def successors_def)
qed

definition line_to :: "crypto \<Rightarrow> key_registry \<Rightarrow> proof_store \<Rightarrow> string list \<Rightarrow> authority_configuration \<Rightarrow> bool" where
  "line_to cr keys s ds c \<longleftrightarrow> ancestry s [] (cfg_configuration_digest c) = Lineage ds
     \<and> list_all (link_sound cr keys s) ds \<and> c \<in> snd ` set s
     \<and> (\<forall>d \<in> set ds. \<exists>x. map_of s d = Some x \<and> cfg_authority_epoch x \<le> cfg_authority_epoch c)"

lemma line_to_genesis:
  assumes "store_ok s" "geneses cr keys s k = [g]"
  shows "line_to cr keys s [cfg_configuration_digest g] g"
proof -
  have g: "g \<in> snd ` set s" "facially_valid_genesis cr g keys" "cfg_prior_configuration_digest g = None"
    "cfg_authority_key g = k"
    using geneses_held [of g cr keys s k] assms(2) by auto
  note m = store_held [OF assms(1) g(1)]
  have "length (geneses cr keys s k) = 1" by (simp add: assms(2))
  then have "link_sound cr keys s (cfg_configuration_digest g)"
    using g m by (simp add: link_sound_def geneses_def)
  with g m show ?thesis by (simp add: line_to_def ancestry.simps)
qed

lemma line_to_step:
  assumes "store_ok s" "line_to cr keys s ds q" "succeeds cr keys s q c"
  shows "line_to cr keys s (ds @ [cfg_configuration_digest c]) c"
proof -
  have q: "q \<in> snd ` set s" using assms by (simp add: line_to_def)
  note c = succeeds_link_sound [OF assms(1,3) q]
  have held: "c \<in> snd ` set s" using successors_held [of c cr keys s q] assms(3) by (simp add: succeeds_def)
  have ep: "\<forall>d \<in> set ds. \<exists>x. map_of s d = Some x \<and> cfg_authority_epoch x \<le> cfg_authority_epoch q"
    and an: "ancestry s [] (cfg_configuration_digest q) = Lineage ds"
    using assms(2) by (auto simp: line_to_def)
  have "cfg_configuration_digest c \<notin> set ds"
  proof
    assume "cfg_configuration_digest c \<in> set ds"
    with ep obtain x where "map_of s (cfg_configuration_digest c) = Some x"
      "cfg_authority_epoch x \<le> cfg_authority_epoch q" by blast
    with c show False by simp
  qed
  with ancestry_extend [OF an, of "[cfg_configuration_digest c]"]
  have "ancestry s [cfg_configuration_digest c] (cfg_configuration_digest q)
      = Lineage (ds @ [cfg_configuration_digest c])" by simp
  then have "ancestry s [] (cfg_configuration_digest c) = Lineage (ds @ [cfg_configuration_digest c])"
    using c by (subst ancestry.simps) simp
  moreover have "\<forall>d \<in> set ds. \<exists>x. map_of s d = Some x \<and> cfg_authority_epoch x \<le> cfg_authority_epoch c"
    using ep c(5) by fastforce
  ultimately show ?thesis
    using assms(2) c held by (simp add: line_to_def)
qed

lemma line_to_reach:
  assumes "store_ok s" "geneses cr keys s k = [g]" "(succeeds cr keys s)\<^sup>*\<^sup>* g c"
  shows "\<exists>ds. line_to cr keys s ds c \<and> hd ds = cfg_configuration_digest g \<and> ds \<noteq> []"
  using assms(3)
proof (induction rule: rtranclp_induct)
  case base
  with line_to_genesis [OF assms(1,2)] show ?case by force
next
  case (step q c)
  then obtain ds where "line_to cr keys s ds q" "hd ds = cfg_configuration_digest g" "ds \<noteq> []" by blast
  with line_to_step [OF assms(1) this(1) step(2)] show ?case
    by (intro exI [of _ "ds @ [cfg_configuration_digest c]"]) simp
qed

lemma current_verified:
  assumes "store_ok s" "current_configuration cr keys s k = (VALID, Some c)"
  shows "verify_configuration cr keys s (cfg_configuration_digest c) = VALID"
proof -
  obtain g where "geneses cr keys s k = [g]" "(succeeds cr keys s)\<^sup>*\<^sup>* g c"
    using assms by (auto simp: current_configuration_iff)
  with line_to_reach [OF assms(1)] obtain ds where "line_to cr keys s ds c" by blast
  then show ?thesis by (simp add: line_to_def verify_configuration_def)
qed

lemma current_bound:
  assumes "store_ok s" "current_configuration cr keys s k = (VALID, Some c)"
  shows "bound cr c (cfg_configuration_digest c)" "map_of s (cfg_configuration_digest c) = Some c"
proof -
  obtain g where g: "geneses cr keys s k = [g]" and r: "(succeeds cr keys s)\<^sup>*\<^sup>* g c"
    using assms by (auto simp: current_configuration_iff)
  from r show "bound cr c (cfg_configuration_digest c)"
  proof (cases rule: rtranclp.cases)
    case rtrancl_refl
    with geneses_held [of g cr keys s k] g show ?thesis by (auto dest: fvg_bound)
  next
    case (rtrancl_into_rtrancl q)
    with successors_held [of c cr keys s q] show ?thesis by (auto simp: succeeds_def dest: fvs_bound)
  qed
  obtain ds where "line_to cr keys s ds c" using line_to_reach [OF assms(1) g r] by blast
  then show "map_of s (cfg_configuration_digest c) = Some c"
    using assms(1) by (auto simp: line_to_def intro: store_held)
qed

section \<open>What a VALID receipt means\<close>

lemma verify_receipt_valid:
  assumes "store_ok s" "verify_receipt cr keys trust s r = VALID"
  shows "\<exists>c. current_configuration cr keys s (rc_authority_key r) = (VALID, Some c)
    \<and> cfg_configuration_digest c = rc_configuration_digest r
    \<and> cfg_authority_key c = rc_authority_key r \<and> cfg_authority_epoch c = rc_authority_epoch r
    \<and> verify_configuration cr keys s (rc_configuration_digest r) = VALID
    \<and> 1 \<le> cfg_quorum c
    \<and> (\<exists>S \<subseteq> set (cfg_members c). int (card S) \<ge> cfg_quorum c
         \<and> (\<forall>k \<in> S. (\<exists>sig. resolve_and_verify_provenance cr (rc_operation_digest r) sig k ''ed25519'' keys)
              \<and> (case trust of None \<Rightarrow> True | Some t \<Rightarrow> standing t k None = Active)))"
proof -
  from assms(2) obtain c0 c S where c0: "map_of s (rc_configuration_digest r) = Some c0"
    and key: "cfg_authority_key c0 = rc_authority_key r" "cfg_authority_epoch c0 = rc_authority_epoch r"
    and cur: "current_configuration cr keys s (rc_authority_key r) = (VALID, Some c)"
    and d: "cfg_configuration_digest c = rc_configuration_digest r"
    and S: "valid_signers cr (Some (rc_quorum_proof r)) (rc_operation_digest r) (cfg_members c0) keys = Some S"
    and q: "\<not> int (card (case trust of None \<Rightarrow> S
        | Some t \<Rightarrow> Set.filter (\<lambda>k. standing t k None = Active) S)) < cfg_quorum c0"
    unfolding verify_receipt_def Let_def
    by (auto split: option.splits if_splits prod.splits proof_standing.splits)
  note b = current_bound [OF assms(1) cur]
  have [simp]: "c0 = c" using b(2) c0 d by simp
  have "1 \<le> cfg_quorum c" using b(1) by (simp add: bound_def split: if_splits)
  moreover let ?S = "case trust of None \<Rightarrow> S | Some t \<Rightarrow> Set.filter (\<lambda>k. standing t k None = Active) S"
  have "?S \<subseteq> S" by (auto split: option.splits)
  then have "?S \<subseteq> set (cfg_members c)" using valid_signers_sound [OF S] by auto
  moreover have "\<forall>k \<in> ?S. (\<exists>sig. resolve_and_verify_provenance cr (rc_operation_digest r) sig k ''ed25519'' keys)
      \<and> (case trust of None \<Rightarrow> True | Some t \<Rightarrow> standing t k None = Active)"
    using valid_signers_sound [OF S] by (auto split: option.splits)
  moreover have "int (card ?S) \<ge> cfg_quorum c" using q by simp
  ultimately show ?thesis
    using cur d key current_verified [OF assms(1) cur] by (intro exI [of _ c]) auto
qed

section \<open>The verdicts depend on what is held, not on when it arrived\<close>

lemma distinct_same_shape:
  assumes "distinct xs" "distinct ys" "set xs = set ys"
  shows "xs = [] \<longleftrightarrow> ys = []" "xs = [x] \<longleftrightarrow> ys = [x]"
proof -
  show "xs = [] \<longleftrightarrow> ys = []" using assms(3) by auto
  have "zs = [x]" if "distinct zs" "set zs = {x}" for zs
    using that by (cases zs; cases "tl zs") auto
  then show "xs = [x] \<longleftrightarrow> ys = [x]" using assms by (metis empty_set list.simps(15))
qed

lemma store_distinct: "store_ok s \<Longrightarrow> distinct (map snd s)"
proof -
  assume ok: "store_ok s"
  have keyed: "(\<forall>p \<in> set u. cfg_configuration_digest (snd p) = fst p) \<Longrightarrow>
      map fst u = map (\<lambda>c. cfg_configuration_digest c) (map snd u)" for u :: proof_store
    by (induction u) simp_all
  have "map fst s = map (\<lambda>c. cfg_configuration_digest c) (map snd s)"
    using ok by (intro keyed) (simp add: store_ok_def case_prod_beta)
  moreover have "distinct (map fst s)" using ok by (simp add: store_ok_def)
  ultimately have "distinct (map (\<lambda>c. cfg_configuration_digest c) (map snd s))" by (simp only:)
  then show ?thesis unfolding distinct_map [of _ "map snd s"] by (rule conjunct1)
qed

definition same_store :: "proof_store \<Rightarrow> proof_store \<Rightarrow> bool" where
  "same_store s t \<longleftrightarrow> store_ok s \<and> store_ok t \<and> set s = set t"

lemma option_ext:
  assumes "\<And>c. a = Some c \<longleftrightarrow> b = Some c"
  shows "a = b"
  using assms [of "the a"] assms [of "the b"] by (cases a; cases b) simp_all

lemma same_store_map_of: "same_store s t \<Longrightarrow> map_of s = map_of t"
proof (rule ext)
  fix d
  assume "same_store s t"
  then have st: "distinct (map fst s)" "distinct (map fst t)" "set s = set t"
    by (simp_all add: same_store_def store_ok_def)
  show "map_of s d = map_of t d"
  proof (rule option_ext)
    fix c
    show "map_of s d = Some c \<longleftrightarrow> map_of t d = Some c"
      unfolding map_of_eq_Some_iff [OF st(1)] map_of_eq_Some_iff [OF st(2)] st(3) ..
  qed
qed

lemma same_store_lists:
  assumes "same_store s t"
  shows "distinct (successors cr keys s c)" "set (successors cr keys s c) = set (successors cr keys t c)"
    "distinct (geneses cr keys s k)" "set (geneses cr keys s k) = set (geneses cr keys t k)"
  using assms store_distinct [of s]
  by (auto simp: same_store_def successors_def successors_of_def geneses_def genesis_of_def
      intro!: distinct_filter)

lemma same_store_sym: "same_store s t \<Longrightarrow> same_store t s"
  by (auto simp: same_store_def)

lemma case_same_shape:
  assumes "distinct xs" "distinct ys" "set xs = set ys" "\<And>x. xs = [x] \<Longrightarrow> f x [] = g x []"
    "\<And>x y zs. f x (y # zs) = c" "\<And>x y zs. g x (y # zs) = c"
  shows "(case xs of [] \<Rightarrow> n | x # zs \<Rightarrow> f x zs) = (case ys of [] \<Rightarrow> n | x # zs \<Rightarrow> g x zs)"
proof (cases "\<exists>x. xs = [x]")
  case True
  then obtain x where x: "xs = [x]" by blast
  with distinct_same_shape(2) [OF assms(1-3), of x] have "ys = [x]" by simp
  with x assms(4) [OF x] show ?thesis by simp
next
  case False
  then have "\<nexists>x. ys = [x]" using distinct_same_shape(2) [OF assms(1-3)] by blast
  with False distinct_same_shape(1) [OF assms(1-3)] assms(5,6) show ?thesis
    by (cases xs; cases ys; cases "tl xs"; cases "tl ys") auto
qed

lemma head_walk_same:
  "same_store s t \<Longrightarrow> head_walk cr keys s seen head = head_walk cr keys t seen head"
proof (induction cr keys s seen head rule: head_walk.induct)
  case (1 cr keys s seen head)
  note lists = same_store_lists(1,2) [OF "1.prems", of cr keys head]
    same_store_lists(1) [OF same_store_sym [OF "1.prems"], of cr keys head]
  show ?case
    unfolding head_walk_code [of cr keys s seen head] head_walk_code [of cr keys t seen head]
  proof (rule case_same_shape [where c = "(INVALID, None)"])
    fix x
    assume "successors cr keys s head = [x]"
    then have "head_walk cr keys s (insert (cfg_configuration_digest x) seen) x
        = head_walk cr keys t (insert (cfg_configuration_digest x) seen) x"
      if "cfg_configuration_digest x \<notin> seen"
      using that "1.prems" by (intro "1.IH") (auto simp: successors_def)
    then show "(if cfg_configuration_digest x \<in> seen \<or> [] \<noteq> [] then (INVALID, None)
         else head_walk cr keys s (insert (cfg_configuration_digest x) seen) x) =
        (if cfg_configuration_digest x \<in> seen \<or> [] \<noteq> [] then (INVALID, None)
         else head_walk cr keys t (insert (cfg_configuration_digest x) seen) x)" by simp
  qed (use lists in auto)
qed

lemma current_configuration_same:
  assumes "same_store s t"
  shows "current_configuration cr keys s k = current_configuration cr keys t k"
proof -
  have ex: "list_ex P (map snd s) = list_ex P (map snd t)" for P
    using assms by (auto simp: same_store_def list_ex_iff)
  show ?thesis
    unfolding current_configuration_code ex
    by (rule case_same_shape [where c = "(INVALID, None)"])
      (use same_store_lists(3,4) [OF assms, of cr keys k]
        same_store_lists(3) [OF same_store_sym [OF assms], of cr keys k] head_walk_same [OF assms]
       in auto)
qed

lemma verify_receipt_same:
  assumes "same_store s t"
  shows "verify_receipt cr keys trust s r = verify_receipt cr keys trust t r"
  unfolding verify_receipt_def current_configuration_same [OF assms] same_store_map_of [OF assms] ..

text \<open>Adding configurations keeps the store keyed by digest.\<close>

lemma store_ok_add: "store_ok s \<Longrightarrow> store_ok (store_add c s)"
proof -
  assume ok: "store_ok s"
  then have d: "distinct (map fst (store_add c s))"
    by (simp add: store_ok_def store_add_def distinct_update)
  have "cfg_configuration_digest x = d" if "(d, x) \<in> set (store_add c s)" for d x
  proof -
    have "map_of (store_add c s) d = Some x" using d that by simp
    then have "d = cfg_configuration_digest c \<and> x = c \<or> map_of s d = Some x"
      by (auto simp: store_add_def update_conv' split: if_splits)
    with store_lookup [OF ok] show ?thesis by blast
  qed
  with d show ?thesis by (auto simp: store_ok_def)
qed

text \<open>Two founding claims block the key: nothing is exercised until an operator decides.\<close>

lemma genesis_conflict_blocks:
  assumes "g \<in> set (geneses cr keys s k)" "h \<in> set (geneses cr keys s k)" "g \<noteq> h"
  shows "current_configuration cr keys s k = (INVALID, None)"
  using assms by (cases "geneses cr keys s k"; cases "tl (geneses cr keys s k)")
    (auto simp: current_configuration_code)

lemma succession_conflict_blocks:
  assumes "store_ok s" "x \<in> set (successors cr keys s q)" "y \<in> set (successors cr keys s q)" "x \<noteq> y"
    and "link_sound cr keys s (cfg_configuration_digest z)" "z \<in> set (successors cr keys s q)" "q \<in> snd ` set s"
  shows False
proof -
  have z: "z \<in> snd ` set s" "cfg_prior_configuration_digest z = Some (cfg_configuration_digest q)"
    using successors_held [OF assms(6)] by auto
  have "succeeds cr keys s q z"
    using link_sound_successor [OF assms(1,5) store_held [OF assms(1) z(1)] z(2) store_held [OF assms(1,7)]] .
  with assms show False by (simp add: succeeds_def)
qed

end
