(* ===== verification/Workload.thy ===== *)
theory Workload
  imports Credential Ids Complex_Main
begin

text \<open>
  \<^verbatim>\<open>kawa/domain/workload.py\<close>: process incarnations, the broker's workload credentials, the
  in-process capability verifier with its nonce memory, and work attestations.  A payload is the
  dictionary of the source, so a check may meet a value of an unexpected type; where Python
  raises, the model does.  Private keys are the signing functions they close over; the thumbprint
  of a public key is the namespace and sixteen digits of a hash of its raw bytes.
  \<open>datetime.fromisoformat\<close> is the parameter \<open>isof\<close>.
\<close>

definition ISSUER_KEY_NS :: string where
  "ISSUER_KEY_NS = ''wl-iss:''"

definition POP_KEY_NS :: string where
  "POP_KEY_NS = ''wl-pop:''"

definition thumbprint :: "crypto \<Rightarrow> string \<Rightarrow> string \<Rightarrow> string" where
  "thumbprint cr pub ns = ns @ take 16 (sha256 cr pub)"

section \<open>Freshness\<close>

text \<open>An instant with or without a time zone; Python refuses to subtract one from the other.\<close>

datatype instant = Aware rat | Naive rat

definition replace_Z :: "string \<Rightarrow> string" where
  "replace_Z s = concat (map (\<lambda>c. if c = CHR ''Z'' then ''+00:00'' else [c]) s)"

fun seconds_between :: "instant \<Rightarrow> instant \<Rightarrow> rat result" where
  "seconds_between (Aware a) (Aware b) = Inr (a - b)"
| "seconds_between (Naive a) (Naive b) = Inr (a - b)"
| "seconds_between _ _ = Inl (TypeError ''offset-naive and offset-aware'')"

definition fresh :: "(string \<Rightarrow> instant option) \<Rightarrow> string \<Rightarrow> string \<Rightarrow> int \<Rightarrow> bool result" where
  "fresh isof iat now window =
     (case (isof (replace_Z iat), isof (replace_Z now)) of
        (Some t_iat, Some t_now) \<Rightarrow>
          bind_result (seconds_between t_now t_iat)
            (\<lambda>delta. Inr (- 5 \<le> delta \<and> delta \<le> rat_of_int window))
      | _ \<Rightarrow> Inr False)"

section \<open>Process incarnations\<close>

record process_incarnation =
  pi_incarnation_id :: string
  pi_node :: string
  pi_runtime :: string
  pi_workload :: string
  pi_pid :: "int option"
  pi_pop_public :: string
  pi_pop_sign :: "string \<Rightarrow> string"

definition incarnation_cnf_jkt :: "crypto \<Rightarrow> process_incarnation \<Rightarrow> string" where
  "incarnation_cnf_jkt cr inc = thumbprint cr (pi_pop_public inc) POP_KEY_NS"

definition proof_statement :: "string \<Rightarrow> string \<Rightarrow> json \<Rightarrow> string \<Rightarrow> string \<Rightarrow> json" where
  "proof_statement operation_ref work_ref jti nonce iat = JObj
     [(''operation_ref'', JStr operation_ref), (''work_ref'', JStr work_ref), (''jti'', jti),
      (''nonce'', JStr nonce), (''iat'', JStr iat)]"

definition sign_proof ::
    "process_incarnation \<Rightarrow> string \<Rightarrow> string \<Rightarrow> string \<Rightarrow> string \<Rightarrow> string \<Rightarrow> string" where
  "sign_proof inc operation_ref work_ref jti nonce iat =
     pi_pop_sign inc (canonical_json (proof_statement operation_ref work_ref (JStr jti) nonce iat))"

section \<open>Credentials\<close>

text \<open>\<open>d.get(key, default)\<close>, and the operators the checks apply to what it returns.\<close>

type_synonym dict = "(string \<times> json) list"

definition dget :: "dict \<Rightarrow> string \<Rightarrow> json \<Rightarrow> json" where
  "dget d k dflt = (case map_of d k of Some j \<Rightarrow> j | None \<Rightarrow> dflt)"

fun str_le :: "json \<Rightarrow> json \<Rightarrow> bool result" where
  "str_le (JStr a) (JStr b) = Inr (a \<le> b)"
| "str_le _ _ = Inl (TypeError ''not supported between instances'')"

fun str_less :: "json \<Rightarrow> json \<Rightarrow> bool result" where
  "str_less (JStr a) (JStr b) = Inr (a < b)"
| "str_less _ _ = Inl (TypeError ''not supported between instances'')"

text \<open>\<open>iat <= now < exp\<close>.\<close>

definition in_window :: "dict \<Rightarrow> string \<Rightarrow> bool result" where
  "in_window p now =
     bind_result (str_le (dget p ''iat'' (JStr [])) (JStr now)) (\<lambda>a.
       if \<not> a then Inr False else str_less (JStr now) (dget p ''exp'' (JStr [])))"

fun member_of :: "json \<Rightarrow> string set \<Rightarrow> bool result" where
  "member_of (JStr s) S = Inr (s \<in> S)"
| "member_of (JList _) S = Inl (TypeError ''unhashable type'')"
| "member_of (JObj _) S = Inl (TypeError ''unhashable type'')"
| "member_of _ S = Inr False"

text \<open>\<open>revoked and p.get("jti") in revoked\<close>.\<close>

definition is_revoked :: "string set option \<Rightarrow> dict \<Rightarrow> bool result" where
  "is_revoked revoked p =
     (case revoked of
        None \<Rightarrow> Inr False
      | Some R \<Rightarrow> if R = {} then Inr False else member_of (dget p ''jti'' JNull) R)"

record workload_credential =
  cred_payload :: dict
  cred_signature :: string

record credential_broker =
  br_issuer_key_id :: string
  br_audience :: string
  br_issuer_pub_pem :: string
  br_sign :: "string \<Rightarrow> string"

text \<open>\<open>fresh_id\<close> stands for the minted \<open>uuid7\<close> text.\<close>

definition issue ::
    "crypto \<Rightarrow> credential_broker \<Rightarrow> process_incarnation \<Rightarrow> dict option \<Rightarrow> string \<Rightarrow> string
      \<Rightarrow> string option \<Rightarrow> string \<Rightarrow> workload_credential" where
  "issue cr br inc capability_ctx iat expiry jti fresh_id =
     (let payload =
        [(''iss'', JStr (br_issuer_key_id br)), (''aud'', JStr (br_audience br)),
         (''sub'', JStr (pi_workload inc)), (''node'', JStr (pi_node inc)),
         (''runtime'', JStr (pi_runtime inc)), (''workload'', JStr (pi_workload inc)),
         (''cnf_jkt'', JStr (incarnation_cnf_jkt cr inc)), (''iat'', JStr iat), (''exp'', JStr expiry),
         (''jti'', JStr (case jti of Some j \<Rightarrow> if j = [] then fresh_id else j | None \<Rightarrow> fresh_id)),
         (''capability_ctx'', JObj (case capability_ctx of Some d \<Rightarrow> d | None \<Rightarrow> []))]
      in \<lparr>cred_payload = payload, cred_signature = br_sign br (canonical_json (JObj payload))\<rparr>)"

text \<open>Checking the issuer's signature over a payload: any failure is \<open>False\<close>.\<close>

definition issuer_signed :: "crypto \<Rightarrow> string \<Rightarrow> dict \<Rightarrow> string \<Rightarrow> bool" where
  "issuer_signed cr pem payload sig_hex =
     (case load_pem cr pem of
        Some (Ed25519Key pub) \<Rightarrow>
          (case fromhex sig_hex of
             Some sig \<Rightarrow> ed25519_verify cr pub sig (canonical_json (JObj payload))
           | None \<Rightarrow> False)
      | _ \<Rightarrow> False)"

definition verify_credential ::
    "crypto \<Rightarrow> workload_credential \<Rightarrow> string \<Rightarrow> string \<Rightarrow> string \<Rightarrow> string \<Rightarrow> string set option
      \<Rightarrow> bool result" where
  "verify_credential cr cred issuer_pub_pem expected_issuer expected_audience now revoked =
     (let p = cred_payload cred
      in if dget p ''iss'' JNull \<noteq> JStr expected_issuer \<or> dget p ''aud'' JNull \<noteq> JStr expected_audience
         then Inr False
         else bind_result (in_window p now) (\<lambda>w.
           if \<not> w then Inr False
           else bind_result (is_revoked revoked p) (\<lambda>r.
             if r then Inr False
             else if \<not> startswith expected_issuer ISSUER_KEY_NS then Inr False
             else Inr (issuer_signed cr issuer_pub_pem p (cred_signature cred)))))"

section \<open>Capability binding\<close>

text \<open>The nonce memory is the state of the verifier.\<close>

definition capability_verify ::
    "crypto \<Rightarrow> (string \<Rightarrow> instant option) \<Rightarrow> workload_credential \<Rightarrow> string \<Rightarrow> string \<Rightarrow> string \<Rightarrow> string
      \<Rightarrow> string \<Rightarrow> string \<Rightarrow> string \<Rightarrow> int \<Rightarrow> string set \<Rightarrow> (bool \<times> string set) result" where
  "capability_verify cr isof cred proof_sig pop_pem operation_ref work_ref nonce iat now window seen =
     (if nonce \<in> seen then Inr (False, seen)
      else bind_result (fresh isof iat now window) (\<lambda>f.
        if \<not> f then Inr (False, seen)
        else (case load_pem cr pop_pem of
                Some (Ed25519Key pub) \<Rightarrow>
                  (case (map_of (cred_payload cred) ''cnf_jkt'', map_of (cred_payload cred) ''jti'') of
                     (Some cnf, Some jti) \<Rightarrow>
                       if JStr (thumbprint cr pub POP_KEY_NS) \<noteq> cnf then Inr (False, seen)
                       else (case fromhex proof_sig of
                               Some sig \<Rightarrow>
                                 if ed25519_verify cr pub sig
                                      (canonical_json (proof_statement operation_ref work_ref jti nonce iat))
                                 then Inr (True, insert nonce seen) else Inr (False, seen)
                             | None \<Rightarrow> Inr (False, seen))
                   | _ \<Rightarrow> Inr (False, seen))
              | _ \<Rightarrow> Inr (False, seen))))"

section \<open>Work attestations\<close>

definition work_semantics ::
    "string \<Rightarrow> string \<Rightarrow> string \<Rightarrow> string option \<Rightarrow> string option \<Rightarrow> string list option
      \<Rightarrow> string list option \<Rightarrow> json" where
  "work_semantics work_ref plan_ref work_kind role_requirement objective cs eobs = JObj
     [(''work_ref'', JStr work_ref), (''plan_ref'', JStr plan_ref), (''work_kind'', JStr work_kind),
      (''role_requirement'', jopt JStr role_requirement), (''objective'', jopt JStr objective),
      (''constraints'', jopt (\<lambda>xs. JList (map JStr xs)) cs),
      (''expected_observations'', jopt (\<lambda>xs. JList (map JStr xs)) eobs)]"

definition work_semantics_digest ::
    "crypto \<Rightarrow> string \<Rightarrow> string \<Rightarrow> string \<Rightarrow> string option \<Rightarrow> string option \<Rightarrow> string list option
      \<Rightarrow> string list option \<Rightarrow> string" where
  "work_semantics_digest cr work_ref plan_ref work_kind role_requirement objective cs eobs =
     digest (sha256 cr)
       (work_semantics work_ref plan_ref work_kind role_requirement objective cs eobs)"

record work_attestation =
  att_payload :: dict
  att_signature :: string

definition make_attestation ::
    "credential_broker \<Rightarrow> string \<Rightarrow> string \<Rightarrow> string \<Rightarrow> json list \<Rightarrow> string option \<Rightarrow> string \<Rightarrow> string
      \<Rightarrow> string option \<Rightarrow> string \<Rightarrow> work_attestation" where
  "make_attestation br work_ref derived_event_id semantics_digest source_basis pol iat expiry jti fresh_id =
     (let payload =
        [(''work_ref'', JStr work_ref), (''derived_event_id'', JStr derived_event_id),
         (''work_semantics_digest'', JStr semantics_digest),
         (''source_basis'', JList source_basis), (''policy_digest'', jopt JStr pol),
         (''iss'', JStr (br_issuer_key_id br)), (''iat'', JStr iat), (''exp'', JStr expiry),
         (''jti'', JStr (case jti of Some j \<Rightarrow> if j = [] then fresh_id else j | None \<Rightarrow> fresh_id))]
      in \<lparr>att_payload = payload, att_signature = br_sign br (canonical_json (JObj payload))\<rparr>)"

text \<open>Iterating over a value, and the loop over the basis.\<close>

fun iterate :: "json \<Rightarrow> json list result" where
  "iterate (JList xs) = Inr xs"
| "iterate (JStr s) = Inr (map (\<lambda>c. JStr [c]) s)"
| "iterate (JObj ms) = Inr (map (JStr \<circ> fst) ms)"
| "iterate _ = Inl (TypeError ''not iterable'')"

fun basis_resolves :: "string set \<Rightarrow> json list \<Rightarrow> bool result" where
  "basis_resolves S [] = Inr True"
| "basis_resolves S (JObj d # bs) =
     bind_result (member_of (dget d ''content_digest'' JNull) S)
       (\<lambda>m. if m then basis_resolves S bs else Inr False)"
| "basis_resolves S (_ # bs) = Inl (AttributeError ''get'')"

definition verify_attestation ::
    "crypto \<Rightarrow> work_attestation \<Rightarrow> string \<Rightarrow> string \<Rightarrow> string \<Rightarrow> string \<Rightarrow> string set option
      \<Rightarrow> string set option \<Rightarrow> bool result" where
  "verify_attestation cr att issuer_pub_pem expected_issuer recomputed now resolvable revoked =
     (let p = att_payload att
      in if dget p ''iss'' JNull \<noteq> JStr expected_issuer then Inr False
         else bind_result (in_window p now) (\<lambda>w.
           if \<not> w then Inr False
           else bind_result (is_revoked revoked p) (\<lambda>r.
             if r then Inr False
             else if dget p ''work_semantics_digest'' JNull \<noteq> JStr recomputed then Inr False
             else bind_result
               (case resolvable of
                  None \<Rightarrow> Inr True
                | Some S \<Rightarrow> bind_result (iterate (dget p ''source_basis'' (JList []))) (basis_resolves S))
               (\<lambda>ok. if \<not> ok then Inr False
                     else Inr (issuer_signed cr issuer_pub_pem p (att_signature att))))))"

section \<open>What a verified credential says\<close>

lemma str_le_Inr [simp]: "str_le a b = Inr r \<longleftrightarrow> (\<exists>x y. a = JStr x \<and> b = JStr y \<and> r = (x \<le> y))"
  by (cases a; cases b) auto

lemma str_less_Inr [simp]: "str_less a b = Inr r \<longleftrightarrow> (\<exists>x y. a = JStr x \<and> b = JStr y \<and> r = (x < y))"
  by (cases a; cases b) auto

lemma in_window_true:
  "in_window p now = Inr True \<longleftrightarrow> (\<exists>iat expiry. dget p ''iat'' (JStr []) = JStr iat \<and> iat \<le> now
     \<and> dget p ''exp'' (JStr []) = JStr expiry \<and> now < expiry)"
  by (auto simp: in_window_def split: if_splits)

lemma verify_credential_true:
  "verify_credential cr cred pem iss aud now revoked = Inr True \<longleftrightarrow>
     dget (cred_payload cred) ''iss'' JNull = JStr iss \<and> dget (cred_payload cred) ''aud'' JNull = JStr aud
     \<and> in_window (cred_payload cred) now = Inr True \<and> is_revoked revoked (cred_payload cred) = Inr False
     \<and> startswith iss ISSUER_KEY_NS
     \<and> issuer_signed cr pem (cred_payload cred) (cred_signature cred)"
  by (auto simp: verify_credential_def Let_def split: if_splits)

text \<open>An issued credential verifies inside its window, under the law of the issuer's signature.\<close>

lemma issue_verifies:
  assumes "startswith (br_issuer_key_id br) ISSUER_KEY_NS"
    and "\<And>m. \<exists>bs. fromhex (br_sign br m) = Some bs \<and> ed25519_verify cr pub bs m"
    and "load_pem cr (br_issuer_pub_pem br) = Some (Ed25519Key pub)"
    and "iat \<le> now" "now < expiry"
    and "revoked = None \<or> (\<exists>R. revoked = Some R \<and> fresh_id \<notin> R)"
  shows "verify_credential cr (issue cr br inc ctx iat expiry None fresh_id) (br_issuer_pub_pem br)
    (br_issuer_key_id br) (br_audience br) now revoked = Inr True"
proof -
  let ?c = "issue cr br inc ctx iat expiry None fresh_id"
  obtain bs where "fromhex (cred_signature ?c) = Some bs"
    "ed25519_verify cr pub bs (canonical_json (JObj (cred_payload ?c)))"
    using assms(2) by (auto simp: issue_def Let_def)
  then have "issuer_signed cr (br_issuer_pub_pem br) (cred_payload ?c) (cred_signature ?c)"
    using assms(3) by (simp add: issuer_signed_def)
  then show ?thesis
    using assms(1,4,5,6)
    by (auto simp: verify_credential_true in_window_true is_revoked_def issue_def dget_def Let_def)
qed

section \<open>A nonce is used once\<close>

lemma capability_verify_cases:
  assumes "capability_verify cr isof cred sg pem op w nonce iat now win seen = Inr (ok, seen')"
  shows "if ok then nonce \<notin> seen \<and> seen' = insert nonce seen
      \<and> (\<exists>pub bs jti. load_pem cr pem = Some (Ed25519Key pub)
           \<and> map_of (cred_payload cred) ''cnf_jkt'' = Some (JStr (thumbprint cr pub POP_KEY_NS))
           \<and> map_of (cred_payload cred) ''jti'' = Some jti \<and> fromhex sg = Some bs
           \<and> ed25519_verify cr pub bs (canonical_json (proof_statement op w jti nonce iat)))
      \<and> fresh isof iat now win = Inr True
    else seen' = seen"
  using assms unfolding capability_verify_def
  by (auto split: if_splits option.splits public_key.splits)

text \<open>A sequence of calls: the presented nonces with the verdicts, a raising call leaving no trace.\<close>

record capability_call =
  call_cred :: workload_credential
  call_sig :: string
  call_pem :: string
  call_operation :: string
  call_work :: string
  call_nonce :: string
  call_iat :: string
  call_now :: string
  call_window :: int

definition verify_call ::
    "crypto \<Rightarrow> (string \<Rightarrow> instant option) \<Rightarrow> capability_call \<Rightarrow> string set \<Rightarrow> (bool \<times> string set) result" where
  "verify_call cr isof c seen =
     capability_verify cr isof (call_cred c) (call_sig c) (call_pem c) (call_operation c) (call_work c)
       (call_nonce c) (call_iat c) (call_now c) (call_window c) seen"

fun accepted :: "crypto \<Rightarrow> (string \<Rightarrow> instant option) \<Rightarrow> capability_call list \<Rightarrow> string set \<Rightarrow> string list" where
  "accepted cr isof [] seen = []"
| "accepted cr isof (c # cs) seen =
     (case verify_call cr isof c seen of
        Inr (True, seen') \<Rightarrow> call_nonce c # accepted cr isof cs seen'
      | _ \<Rightarrow> accepted cr isof cs seen)"

lemma accepted_fresh: "set (accepted cr isof cs seen) \<inter> seen = {} \<and> distinct (accepted cr isof cs seen)"
proof (induction cs arbitrary: seen)
  case (Cons c cs)
  show ?case
  proof (cases "\<exists>seen'. verify_call cr isof c seen = Inr (True, seen')")
    case True
    then obtain seen' where v: "verify_call cr isof c seen = Inr (True, seen')" by blast
    then have "call_nonce c \<notin> seen" "seen' = insert (call_nonce c) seen"
      using capability_verify_cases [of cr isof "call_cred c"] by (fastforce simp: verify_call_def)+
    with Cons [of seen'] v show ?thesis by auto
  next
    case False
    then have "accepted cr isof (c # cs) seen = accepted cr isof cs seen"
      by (auto split: sum.splits prod.splits bool.splits)
    with Cons show ?thesis by simp
  qed
qed simp

section \<open>What an attestation is pinned to\<close>

lemma basis_resolves_true:
  "basis_resolves S bs = Inr True \<Longrightarrow>
     \<forall>b \<in> set bs. \<exists>d s. b = JObj d \<and> dget d ''content_digest'' JNull = JStr s \<and> s \<in> S"
proof (induction S bs rule: basis_resolves.induct)
  case (2 S d bs)
  then show ?case
    by (cases "dget d ''content_digest'' JNull") (auto split: if_splits)
qed auto

lemma verify_attestation_true:
  assumes "verify_attestation cr att pem iss recomputed now resolvable revoked = Inr True"
  shows "dget (att_payload att) ''work_semantics_digest'' JNull = JStr recomputed"
    "issuer_signed cr pem (att_payload att) (att_signature att)"
    "in_window (att_payload att) now = Inr True" "is_revoked revoked (att_payload att) = Inr False"
    "resolvable = Some S \<Longrightarrow> \<exists>bs. iterate (dget (att_payload att) ''source_basis'' (JList [])) = Inr bs
       \<and> (\<forall>b \<in> set bs. \<exists>d s. b = JObj d \<and> dget d ''content_digest'' JNull = JStr s \<and> s \<in> S)"
  using assms
  by (auto simp: verify_attestation_def Let_def split: if_splits dest: basis_resolves_true)

text \<open>The digest pins every semantic field of the derived work.\<close>

lemma wf_json_texts [simp]: "wf_elems (map JStr xs)"
  by (induction xs) simp_all

lemma wf_jopt_texts [simp]: "wf_json (jopt (\<lambda>xs. JList (map JStr xs)) x)"
  by (cases x) simp_all

lemma sort_jopt_texts [simp]:
  "sort_keys (jopt (\<lambda>xs. JList (map JStr xs)) x) = jopt (\<lambda>xs. JList (map JStr xs)) x"
  by (cases x) (simp_all add: sort_elems_map comp_def)

lemma jopt_texts_inj [simp]:
  "jopt (\<lambda>xs. JList (map JStr xs)) x = jopt (\<lambda>xs. JList (map JStr xs)) y \<longleftrightarrow> x = y"
  by (cases x; cases y) (auto simp: inj_def dest: map_injective)

lemma work_semantics_inj:
  assumes "work_semantics_digest cr w p k r ob cs eo = work_semantics_digest cr w' p' k' r' ob' cs' eo'"
    and "no_collision (sha256 cr) (work_semantics w p k r ob cs eo) (work_semantics w' p' k' r' ob' cs' eo')"
  shows "w = w' \<and> p = p' \<and> k = k' \<and> r = r' \<and> ob = ob' \<and> cs = cs' \<and> eo = eo'"
proof -
  have "sort_keys (work_semantics w p k r ob cs eo) = sort_keys (work_semantics w' p' k' r' ob' cs' eo')"
    using assms by (intro digest_inj [of "sha256 cr"])
      (simp_all add: work_semantics_digest_def, simp_all add: work_semantics_def)
  note f = sort_keys_obj_field [OF this [unfolded work_semantics_def]]
  show ?thesis
    using f [of "''work_ref''" "JStr w" "JStr w'"] f [of "''plan_ref''" "JStr p" "JStr p'"]
      f [of "''work_kind''" "JStr k" "JStr k'"]
      f [of "''role_requirement''" "jopt JStr r" "jopt JStr r'"]
      f [of "''objective''" "jopt JStr ob" "jopt JStr ob'"]
      f [of "''constraints''" "jopt (\<lambda>xs. JList (map JStr xs)) cs" "jopt (\<lambda>xs. JList (map JStr xs)) cs'"]
      f [of "''expected_observations''" "jopt (\<lambda>xs. JList (map JStr xs)) eo"
          "jopt (\<lambda>xs. JList (map JStr xs)) eo'"]
    by simp
qed

end
