(* ===== verification/Authority_Gate.thy ===== *)
theory Authority_Gate
  imports Rebuild Authority Workload
begin

text \<open>
  \<^verbatim>\<open>kawa/storage/authority_gate.py\<close>: the event log feeds the pure verifier, and the two
  receipt-gated operations (fork resolution and the policy lineage) apply only under a VALID
  receipt.  An operation that raises after it touched the trust registry keeps that change while its
  transaction leaves the tables as they were, so \<open>resolve_fork\<close> returns the registry beside the
  outcome.
\<close>

section \<open>Loading proofs from the log\<close>

fun load_configurations :: "crypto \<Rightarrow> db \<Rightarrow> string list \<Rightarrow> proof_store \<Rightarrow> proof_store result" where
  "load_configurations cr d [] s = Inr s"
| "load_configurations cr d (eid # ids) s =
     bind_result (load_payload cr d eid AUTHORITY_CONFIGURATION) (\<lambda>p.
       case p of
         AuthorityConfiguration c \<Rightarrow> load_configurations cr d ids (store_add c s)
       | _ \<Rightarrow> Inl (AttributeError ''configuration_digest''))"

definition load_proof_store :: "crypto \<Rightarrow> db \<Rightarrow> proof_store result" where
  "load_proof_store cr d =
     load_configurations cr d
       (map event_id (filter (\<lambda>r. kind r = AUTHORITY_CONFIGURATION \<and> materialized r) (events d))) []"

definition load_receipt :: "crypto \<Rightarrow> db \<Rightarrow> string \<Rightarrow> authority_receipt option result" where
  "load_receipt cr d receipt_event_id =
     (if \<not> list_ex (\<lambda>r. event_id r = receipt_event_id \<and> kind r = AUTHORITY_RECEIPT \<and> materialized r) (events d)
      then Inr None
      else bind_result (load_payload cr d receipt_event_id AUTHORITY_RECEIPT) (\<lambda>p.
             case p of
               AuthorityReceipt r \<Rightarrow> Inr (Some r)
             | _ \<Rightarrow> Inl (AttributeError ''authority_key'')))"

section \<open>The policy lineage\<close>

definition policy_heads :: "db \<Rightarrow> policy_row list" where
  "policy_heads d = filter (\<lambda>r. py_superseded_by r = None) (policy_lineage d)"

definition current_policy_digest :: "db \<Rightarrow> string option result" where
  "current_policy_digest d =
     (case policy_heads d of
        [] \<Rightarrow> Inr None
      | [r] \<Rightarrow> Inr (Some (py_policy_digest r))
      | _ \<Rightarrow> Inl (AuthorityRefused ''policy_lineage_conflict''))"

fun standing_text :: "proof_standing \<Rightarrow> string" where
  "standing_text VALID = ''valid''"
| "standing_text INVALID = ''invalid''"
| "standing_text INCOMPLETE = ''incomplete''"

text \<open>The gate both operations share; the fence comes before the binding of the operation.\<close>

definition exercise :: "crypto \<Rightarrow> key_registry \<Rightarrow> trust_registry \<Rightarrow> db \<Rightarrow> authority_receipt \<Rightarrow> string \<Rightarrow> string
    \<Rightarrow> authority_receipt result" where
  "exercise cr keys trust d receipt authority_key expected_operation_digest =
     (if rc_authority_key receipt \<noteq> authority_key then Inl (AuthorityRefused ''receipt_wrong_key'')
      else bind_result (current_policy_digest d) (\<lambda>pol.
        if rc_policy_digest receipt \<noteq> pol then Inl (AuthorityRefused ''policy_superseded'')
        else if rc_operation_digest receipt \<noteq> expected_operation_digest
        then Inl (AuthorityRefused ''receipt_operation_mismatch'')
        else bind_result (load_proof_store cr d) (\<lambda>s.
               let st = verify_receipt cr keys (Some trust) s receipt
               in if st \<noteq> VALID then Inl (AuthorityRefused (''receipt_'' @ standing_text st))
                  else Inr receipt)))"

section \<open>Fork resolution\<close>

definition fork_at :: "string \<Rightarrow> int \<Rightarrow> fork_evidence \<Rightarrow> bool" where
  "fork_at node seq f \<longleftrightarrow> fe_origin_node f = node \<and> fe_origin_seq f = seq"

fun resolve_rows :: "int \<Rightarrow> string \<Rightarrow> string \<Rightarrow> fork_evidence list \<Rightarrow> trust_registry \<Rightarrow> trust_registry \<times> unit result" where
  "resolve_rows seq chosen receipt [] t = (t, Inr ())"
| "resolve_rows seq chosen receipt (f # fs) t =
     (if \<not> fe_frozen f
      then (if fe_chosen_head f = Some chosen \<and> fe_resolved_by f = Some receipt
            then resolve_rows seq chosen receipt fs t
            else (t, Inl (AuthorityRefused ''fork_already_resolved'')))
      else if chosen \<noteq> fe_held_event_id f then (t, Inl (AuthorityRefused ''rival_adoption_deferred''))
      else resolve_rows seq chosen receipt fs
             (case fe_rival_key_ref f of Some k \<Rightarrow> revoke k (Some seq) t | None \<Rightarrow> t))"

definition release_row :: "string \<Rightarrow> int \<Rightarrow> string \<Rightarrow> string \<Rightarrow> string \<Rightarrow> fork_evidence \<Rightarrow> fork_evidence" where
  "release_row node seq chosen receipt why f =
     (if fork_at node seq f \<and> fe_frozen f
      then f\<lparr>fe_frozen := False, fe_resolved_by := Some receipt, fe_chosen_head := Some chosen,
             fe_reason := Some why\<rparr>
      else f)"

definition resolve_fork :: "crypto \<Rightarrow> key_registry \<Rightarrow> string \<Rightarrow> int \<Rightarrow> string \<Rightarrow> string \<Rightarrow> string \<Rightarrow> db \<Rightarrow> trust_registry
    \<Rightarrow> trust_registry \<times> db result" where
  "resolve_fork cr keys node seq chosen receipt_id why d trust =
     (let rows = filter (fork_at node seq) (fork_rows d)
      in if rows = [] then (trust, Inl (AuthorityRefused ''no_fork_evidence''))
         else (case bind_result (load_receipt cr d receipt_id) (\<lambda>loaded.
                      case loaded of
                        None \<Rightarrow> Inl (AuthorityRefused ''receipt_incomplete'')
                      | Some receipt \<Rightarrow>
                          bind_result (current_policy_digest d) (\<lambda>pol.
                            exercise cr keys trust d receipt FORK_RESOLUTION_KEY
                              (fork_resolution_operation_digest cr node seq chosen
                                 (rc_configuration_digest receipt) pol))) of
                 Inl err \<Rightarrow> (trust, Inl err)
               | Inr _ \<Rightarrow>
                   (case resolve_rows seq chosen receipt_id rows trust of
                      (t, Inl err) \<Rightarrow> (t, Inl err)
                    | (t, Inr _) \<Rightarrow>
                        (t, Inr (d\<lparr>fork_rows := map (release_row node seq chosen receipt_id why) (fork_rows d)\<rparr>)))))"

section \<open>Policies\<close>

definition supersede_head :: "string \<Rightarrow> string \<Rightarrow> policy_row list \<Rightarrow> policy_row list" where
  "supersede_head prior new rows =
     map (\<lambda>r. if py_policy_digest r = prior \<and> py_superseded_by r = None
              then r\<lparr>py_superseded_by := Some new\<rparr> else r) rows"

text \<open>\<open>ON CONFLICT (policy_digest) DO NOTHING\<close>; the single-head index refuses a second head.\<close>

definition insert_policy :: "policy_row \<Rightarrow> policy_row list \<Rightarrow> policy_row list result" where
  "insert_policy row rows =
     (if list_ex (\<lambda>r. py_policy_digest r = py_policy_digest row) rows then Inr rows
      else if list_ex (\<lambda>r. py_superseded_by r = None) rows
      then Inl (IntegrityError ''policy_lineage_single_head'')
      else Inr (rows @ [row]))"

definition supersede :: "string option \<Rightarrow> string \<Rightarrow> policy_row list \<Rightarrow> policy_row list result" where
  "supersede prior new rows =
     (case prior of
        None \<Rightarrow> Inr rows
      | Some p \<Rightarrow>
          if length (filter (\<lambda>r. py_policy_digest r = p \<and> py_superseded_by r = None) rows) \<noteq> 1
          then Inl (AuthorityRefused ''policy_lineage_races'')
          else Inr (supersede_head p new rows))"

definition commit_policy :: "string option \<Rightarrow> policy_row \<Rightarrow> db \<Rightarrow> db result" where
  "commit_policy prior row d =
     bind_result (supersede prior (py_policy_digest row) (policy_lineage d)) (\<lambda>rows.
       bind_result (insert_policy row rows) (\<lambda>rows'. Inr (d\<lparr>policy_lineage := rows'\<rparr>)))"

definition establish_policy :: "crypto \<Rightarrow> key_registry \<Rightarrow> trust_registry \<Rightarrow> string \<Rightarrow> string \<Rightarrow> db
    \<Rightarrow> (string \<times> db) result" where
  "establish_policy cr keys trust canonical_bundle receipt_id d =
     (let new = digest (sha256 cr) (JStr canonical_bundle)
      in bind_result (current_policy_digest d) (\<lambda>prior.
        if prior = Some new then Inr (new, d)
        else bind_result (load_receipt cr d receipt_id) (\<lambda>loaded.
          case loaded of
            None \<Rightarrow> Inl (AuthorityRefused ''receipt_incomplete'')
          | Some receipt \<Rightarrow>
              bind_result (exercise cr keys trust d receipt POLICY_KEY
                  (policy_operation_digest cr (if prior = None then PolicyEstablish else PolicySupersede)
                     new prior (rc_configuration_digest receipt))) (\<lambda>_.
                bind_result (commit_policy prior
                    \<lparr>py_policy_digest = new, py_canonical_bundle = canonical_bundle,
                     py_established_receipt = receipt_id, py_prior = prior, py_superseded_by = None\<rparr> d)
                  (\<lambda>d'. Inr (new, d'))))))"

text \<open>
  The authorized set of the head bundle: \<open>frozenset\<close> iterates the member, and only hashable values
  can be elements.
\<close>

fun hashable :: "json \<Rightarrow> bool" where
  "hashable (JList _) = False"
| "hashable (JObj _) = False"
| "hashable _ = True"

definition frozenset_of :: "json \<Rightarrow> json set result" where
  "frozenset_of j = bind_result (iterate j) (\<lambda>xs.
     if list_all hashable xs then Inr (set xs) else Inl (TypeError ''unhashable type''))"

definition capability_policy_from_lineage :: "crypto \<Rightarrow> db \<Rightarrow> json set option result" where
  "capability_policy_from_lineage cr d =
     (case policy_heads d of
        [r] \<Rightarrow>
          (case loads (float_repr cr) (py_canonical_bundle r) of
             None \<Rightarrow> Inl (ValueError ''JSONDecodeError'')
           | Some (JObj ms) \<Rightarrow>
               bind_result (frozenset_of (dget ms ''authorized'' (JList []))) (\<lambda>a. Inr (Some a))
           | Some _ \<Rightarrow> Inl (AttributeError ''get''))
      | _ \<Rightarrow> Inr None)"

section \<open>The proof store of the log\<close>

lemma load_configurations_ok:
  "store_ok s \<Longrightarrow> load_configurations cr d ids s = Inr s' \<Longrightarrow> store_ok s'"
proof (induction cr d ids s rule: load_configurations.induct)
  case (2 cr d eid ids s)
  then obtain p where "load_payload cr d eid AUTHORITY_CONFIGURATION = Inr p" by auto
  with 2 show ?case by (cases p) (auto simp: store_ok_add)
qed simp

lemma load_proof_store_ok: "load_proof_store cr d = Inr s \<Longrightarrow> store_ok s"
  using load_configurations_ok [of "[]"] by (simp add: load_proof_store_def store_ok_def)

text \<open>
  The digest of a configuration does not cover its proof, and a later entry with the same digest
  takes the place of the earlier one.
\<close>

lemma store_add_shadows:
  assumes "geneses cr keys s k = [g]" "cfg_configuration_digest c = cfg_configuration_digest g"
    and "store_ok s" "cfg_authority_key c = k" "\<not> facially_valid_genesis cr c keys"
  shows "current_configuration cr keys (store_add c s) k = (INCOMPLETE, None)"
proof -
  have inv: "store_ok (store_add c s)" using assms(3) by (rule store_ok_add)
  have look: "map_of (store_add c s) = (map_of s)(cfg_configuration_digest c \<mapsto> c)"
    by (simp add: store_add_def update_conv')
  have mem: "x \<in> snd ` set (store_add c s) \<Longrightarrow> x = c \<or> x \<in> snd ` set s \<and> x \<noteq> g" for x
  proof -
    assume "x \<in> snd ` set (store_add c s)"
    then have "map_of (store_add c s) (cfg_configuration_digest x) = Some x" by (rule store_held [OF inv])
    then have "x = c \<or> (cfg_configuration_digest x \<noteq> cfg_configuration_digest c
        \<and> map_of s (cfg_configuration_digest x) = Some x)" by (auto simp: look split: if_splits)
    then show ?thesis using assms(2) store_lookup [OF assms(3)] by auto
  qed
  have none: "geneses cr keys (store_add c s) k = []"
  proof (rule ccontr)
    assume "geneses cr keys (store_add c s) k \<noteq> []"
    then obtain x where x: "x \<in> set (geneses cr keys (store_add c s) k)" by (meson last_in_set)
    from geneses_held [OF this] have h: "x \<in> snd ` set (store_add c s)" "facially_valid_genesis cr x keys"
      "cfg_prior_configuration_digest x = None" "cfg_authority_key x = k" by auto
    with mem [OF h(1)] assms(5) have "x \<in> snd ` set s" "x \<noteq> g" by auto
    with h have "x \<in> set (geneses cr keys s k)" by (auto simp: geneses_def genesis_of_def)
    with assms(1) \<open>x \<noteq> g\<close> show False by simp
  qed
  have "c \<in> set (map snd (store_add c s))"
    using store_lookup [OF inv, of "cfg_configuration_digest c" c] look by (simp add: image_iff)
  then have "list_ex (\<lambda>x. cfg_authority_key x = k) (map snd (store_add c s))"
    using assms(4) by (auto simp: list_ex_iff)
  then show ?thesis by (simp add: current_configuration_code none)
qed

section \<open>What an exercised receipt is\<close>

lemma exercise_Inr:
  "exercise cr keys trust d r key expected = Inr r' \<longleftrightarrow>
     r' = r \<and> rc_authority_key r = key \<and> current_policy_digest d = Inr (rc_policy_digest r)
     \<and> rc_operation_digest r = expected
     \<and> (\<exists>s. load_proof_store cr d = Inr s \<and> verify_receipt cr keys (Some trust) s r = VALID)"
  by (auto simp: exercise_def Let_def split: if_splits)

lemma load_receipt_Some:
  assumes "load_receipt cr d eid = Inr (Some r)"
  shows "map_of (event_authority_receipt d) eid = Some r
    \<and> (\<exists>row \<in> set (events d). event_id row = eid \<and> kind row = AUTHORITY_RECEIPT \<and> materialized row)"
proof -
  from assms obtain p where h: "list_ex (\<lambda>r. event_id r = eid \<and> kind r = AUTHORITY_RECEIPT \<and> materialized r) (events d)"
    and p: "load_payload cr d eid AUTHORITY_RECEIPT = Inr p"
      "(case p of AuthorityReceipt r \<Rightarrow> Inr (Some r) | _ \<Rightarrow> Inl (AttributeError ''authority_key'')) = Inr (Some r)"
    unfolding load_receipt_def by (auto split: if_splits simp del: load_payload.simps)
  from p(2) have "p = AuthorityReceipt r" by (cases p) auto
  with p(1) have "map_of (event_authority_receipt d) eid = Some r" by (auto simp: validated_def split: if_splits)
  with h show ?thesis by (auto simp: list_ex_iff)
qed


section \<open>Fork release\<close>

definition revoke_rivals :: "int \<Rightarrow> fork_evidence list \<Rightarrow> trust_registry \<Rightarrow> trust_registry" where
  "revoke_rivals seq fs t =
     foldl (\<lambda>t f. if fe_frozen f then (case fe_rival_key_ref f of Some k \<Rightarrow> revoke k (Some seq) t | None \<Rightarrow> t) else t) t fs"

lemma resolve_rows_Inr:
  "resolve_rows seq chosen rid fs t = (t', Inr u) \<longleftrightarrow>
     t' = revoke_rivals seq fs t
     \<and> (\<forall>f \<in> set fs. if fe_frozen f then chosen = fe_held_event_id f
          else fe_chosen_head f = Some chosen \<and> fe_resolved_by f = Some rid)"
  by (induction fs arbitrary: t) (auto simp: revoke_rivals_def)

lemma resolve_fork_Inr:
  assumes "resolve_fork cr keys node seq chosen rid why d t = (t', Inr d')"
  obtains receipt where "load_receipt cr d rid = Inr (Some receipt)"
    "rc_authority_key receipt = FORK_RESOLUTION_KEY"
    "current_policy_digest d = Inr (rc_policy_digest receipt)"
    "rc_operation_digest receipt = fork_resolution_operation_digest cr node seq chosen
       (rc_configuration_digest receipt) (rc_policy_digest receipt)"
    "\<exists>s. load_proof_store cr d = Inr s \<and> verify_receipt cr keys (Some t) s receipt = VALID"
    "\<exists>f \<in> set (fork_rows d). fork_at node seq f"
    "\<forall>f \<in> set (fork_rows d). fork_at node seq f \<longrightarrow>
       (if fe_frozen f then chosen = fe_held_event_id f
        else fe_chosen_head f = Some chosen \<and> fe_resolved_by f = Some rid)"
    "t' = revoke_rivals seq (filter (fork_at node seq) (fork_rows d)) t"
    "d' = d\<lparr>fork_rows := map (release_row node seq chosen rid why) (fork_rows d)\<rparr>"
proof -
  let ?rows = "filter (fork_at node seq) (fork_rows d)"
  have ne: "?rows \<noteq> []" using assms by (auto simp: resolve_fork_def)
  obtain receipt r' pol where g: "load_receipt cr d rid = Inr (Some receipt)"
    "current_policy_digest d = Inr pol"
    "exercise cr keys t d receipt FORK_RESOLUTION_KEY (fork_resolution_operation_digest cr node seq chosen
       (rc_configuration_digest receipt) pol) = Inr r'"
    and r: "resolve_rows seq chosen rid ?rows t = (t', Inr ())"
    and d': "d' = d\<lparr>fork_rows := map (release_row node seq chosen rid why) (fork_rows d)\<rparr>"
    using assms ne unfolding resolve_fork_def Let_def
    by (auto split: sum.splits prod.splits option.splits)
  note e = g(3) [unfolded exercise_Inr]
  have pol: "pol = rc_policy_digest receipt" using e g(2) by simp
  have ex: "\<exists>f \<in> set (fork_rows d). fork_at node seq f" using ne by (auto simp: filter_empty_conv)
  show thesis
  proof (rule that [OF g(1)])
    show "rc_authority_key receipt = FORK_RESOLUTION_KEY" using e by blast
    show "current_policy_digest d = Inr (rc_policy_digest receipt)" using e by blast
    show "rc_operation_digest receipt = fork_resolution_operation_digest cr node seq chosen
       (rc_configuration_digest receipt) (rc_policy_digest receipt)" using e unfolding pol by blast
    show "\<exists>s. load_proof_store cr d = Inr s \<and> verify_receipt cr keys (Some t) s receipt = VALID" using e by blast
    show "t' = revoke_rivals seq ?rows t" using r unfolding resolve_rows_Inr by blast
    show "\<forall>f \<in> set (fork_rows d). fork_at node seq f \<longrightarrow> (if fe_frozen f then chosen = fe_held_event_id f
        else fe_chosen_head f = Some chosen \<and> fe_resolved_by f = Some rid)"
      using r unfolding resolve_rows_Inr set_filter by blast
  qed (use ex d' in blast)+
qed

lemma release_row_cases:
  "release_row node seq chosen rid why f =
     (if fork_at node seq f \<and> fe_frozen f
      then f\<lparr>fe_frozen := False, fe_resolved_by := Some rid, fe_chosen_head := Some chosen, fe_reason := Some why\<rparr>
      else f)"
  by (simp add: release_row_def)

lemma fork_at_release [simp]: "fork_at node seq (release_row n s c r w f) = fork_at node seq f"
  by (simp add: release_row_def fork_at_def)

lemma release_elsewhere:
  "filter (\<lambda>f. \<not> fork_at node seq f) (map (release_row node seq c r w) fs) = filter (\<lambda>f. \<not> fork_at node seq f) fs"
  by (induction fs) (auto simp: release_row_cases fork_at_def)

text \<open>After a release: the point is decided, every other row is as before.\<close>

lemma resolve_fork_rows:
  assumes "resolve_fork cr keys node seq chosen rid why d t = (t', Inr d')"
  shows "\<forall>f \<in> set (fork_rows d'). fork_at node seq f \<longrightarrow> \<not> fe_frozen f
      \<and> fe_chosen_head f = Some chosen \<and> fe_resolved_by f = Some rid"
    and "filter (\<lambda>f. \<not> fork_at node seq f) (fork_rows d') = filter (\<lambda>f. \<not> fork_at node seq f) (fork_rows d)"
    and "events d' = events d" "policy_lineage d' = policy_lineage d"
proof -
  obtain rows: "\<forall>f \<in> set (fork_rows d). fork_at node seq f \<longrightarrow>
       (if fe_frozen f then chosen = fe_held_event_id f
        else fe_chosen_head f = Some chosen \<and> fe_resolved_by f = Some rid)"
    and d': "d' = d\<lparr>fork_rows := map (release_row node seq chosen rid why) (fork_rows d)\<rparr>"
    by (rule resolve_fork_Inr [OF assms])
  show "\<forall>f \<in> set (fork_rows d'). fork_at node seq f \<longrightarrow> \<not> fe_frozen f
      \<and> fe_chosen_head f = Some chosen \<and> fe_resolved_by f = Some rid"
  proof (intro ballI impI)
    fix g assume g: "g \<in> set (fork_rows d')" "fork_at node seq g"
    then obtain f where f: "f \<in> set (fork_rows d)" "g = release_row node seq chosen rid why f" by (auto simp: d')
    with g(2) have at: "fork_at node seq f" by simp
    from rows f(1) at have "\<not> fe_frozen f \<Longrightarrow> fe_chosen_head f = Some chosen \<and> fe_resolved_by f = Some rid" by auto
    then show "\<not> fe_frozen g \<and> fe_chosen_head g = Some chosen \<and> fe_resolved_by g = Some rid"
      using at by (cases "fe_frozen f") (simp_all add: f(2) release_row_cases)
  qed
  show "filter (\<lambda>f. \<not> fork_at node seq f) (fork_rows d') = filter (\<lambda>f. \<not> fork_at node seq f) (fork_rows d)"
    by (simp add: d' release_elsewhere)
  show "events d' = events d" "policy_lineage d' = policy_lineage d" by (simp_all add: d')
qed

text \<open>Deciding the same point again changes nothing, and cannot decide it otherwise.\<close>

lemma revoke_rivals_thawed:
  "\<forall>f \<in> set fs. \<not> fe_frozen f \<Longrightarrow> revoke_rivals seq fs t = t"
  by (induction fs arbitrary: t) (auto simp: revoke_rivals_def)

lemma resolve_fork_again:
  assumes "resolve_fork cr keys node seq chosen rid why d t = (t1, Inr d1)"
    and "resolve_fork cr keys' node seq chosen' rid' why' d1 t2 = (t3, Inr d2)"
  shows "d2 = d1 \<and> t3 = t2 \<and> chosen' = chosen \<and> rid' = rid"
proof -
  note a = resolve_fork_rows(1) [OF assms(1)]
  obtain ex: "\<exists>f \<in> set (fork_rows d1). fork_at node seq f"
    and rows: "\<forall>f \<in> set (fork_rows d1). fork_at node seq f \<longrightarrow>
       (if fe_frozen f then chosen' = fe_held_event_id f
        else fe_chosen_head f = Some chosen' \<and> fe_resolved_by f = Some rid')"
    and t: "t3 = revoke_rivals seq (filter (fork_at node seq) (fork_rows d1)) t2"
    and d: "d2 = d1\<lparr>fork_rows := map (release_row node seq chosen' rid' why') (fork_rows d1)\<rparr>"
    by (rule resolve_fork_Inr [OF assms(2)])
  have "map (release_row node seq chosen' rid' why') (fork_rows d1) = fork_rows d1"
    using a by (intro map_idI) (auto simp: release_row_cases)
  then have "d2 = d1" unfolding d by simp
  moreover have "t3 = t2" unfolding t using a by (intro revoke_rivals_thawed) auto
  ultimately show ?thesis using ex rows a by force
qed



section \<open>One head\<close>

definition one_head :: "db \<Rightarrow> bool" where
  "one_head d \<longleftrightarrow> distinct (map py_policy_digest (policy_lineage d)) \<and> length (policy_heads d) \<le> 1"

lemma current_policy_Some:
  "current_policy_digest d = Inr (Some p) \<longleftrightarrow> (\<exists>r. policy_heads d = [r] \<and> py_policy_digest r = p)"
  by (auto simp: current_policy_digest_def split: list.splits)

lemma current_policy_None: "current_policy_digest d = Inr None \<longleftrightarrow> policy_heads d = []"
  by (auto simp: current_policy_digest_def split: list.splits)

lemma current_policy_total: "one_head d \<Longrightarrow> \<exists>p. current_policy_digest d = Inr p"
  by (auto simp: one_head_def current_policy_digest_def split: list.splits)

lemma supersede_head_digests [simp]:
  "map py_policy_digest (supersede_head p new rows) = map py_policy_digest rows"
  by (induction rows) (auto simp: supersede_head_def)

lemma supersede_heads:
  assumes "filter (\<lambda>r. py_superseded_by r = None) rows = [r]" "py_policy_digest r = p"
  shows "filter (\<lambda>r. py_superseded_by r = None) (supersede_head p new rows) = []"
proof -
  have "set (filter (\<lambda>r. py_superseded_by r = None) rows) = {r}" using assms(1) by simp
  then have "\<forall>x \<in> set rows. py_superseded_by x = None \<longrightarrow> x = r" by auto
  with assms(2) show ?thesis by (auto simp: supersede_head_def filter_empty_conv)
qed

text \<open>What an established policy changed.\<close>

lemma establish_policy_Inr:
  assumes "establish_policy cr keys trust bundle rid d = Inr (new, d')"
  obtains (already) "current_policy_digest d = Inr (Some new)" "d' = d"
  | (changed) prior receipt where
      "current_policy_digest d = Inr prior" "prior \<noteq> Some new"
      "load_receipt cr d rid = Inr (Some receipt)"
      "exercise cr keys trust d receipt POLICY_KEY (policy_operation_digest cr
         (if prior = None then PolicyEstablish else PolicySupersede) new prior (rc_configuration_digest receipt))
         = Inr receipt"
      "commit_policy prior \<lparr>py_policy_digest = new, py_canonical_bundle = bundle, py_established_receipt = rid,
         py_prior = prior, py_superseded_by = None\<rparr> d = Inr d'"
proof -
  obtain prior where prior: "current_policy_digest d = Inr prior"
    using assms by (auto simp: establish_policy_def Let_def)
  show thesis
  proof (cases "prior = Some (digest (sha256 cr) (JStr bundle))")
    case True
    with assms prior show ?thesis by (intro already) (simp_all add: establish_policy_def)
  next
    case False
    with assms prior obtain receipt where "load_receipt cr d rid = Inr (Some receipt)"
      by (auto simp: establish_policy_def Let_def split: option.splits)
    with assms prior False show ?thesis
      by (intro changed [OF prior]) (auto simp: establish_policy_def Let_def exercise_Inr)
  qed
qed

text \<open>The lineage after the commit: the old head names its successor, and a new digest is the head.\<close>

definition superseded_rows :: "string option \<Rightarrow> string \<Rightarrow> policy_row list \<Rightarrow> policy_row list" where
  "superseded_rows prior new rows = (case prior of None \<Rightarrow> rows | Some p \<Rightarrow> supersede_head p new rows)"

lemma superseded_rows_digests: "map py_policy_digest (superseded_rows prior new rows) = map py_policy_digest rows"
  by (cases prior) (simp_all add: superseded_rows_def)

lemma superseded_rows_heads:
  assumes "current_policy_digest d = Inr prior"
  shows "filter (\<lambda>r. py_superseded_by r = None) (superseded_rows prior new (policy_lineage d)) = []"
proof (cases prior)
  case None
  with assms show ?thesis by (simp add: current_policy_None policy_heads_def superseded_rows_def)
next
  case (Some p)
  with assms obtain r where "policy_heads d = [r]" "py_policy_digest r = p" by (auto simp: current_policy_Some)
  with Some show ?thesis by (simp add: policy_heads_def supersede_heads superseded_rows_def)
qed

lemma supersede_Inr: "supersede prior new rows = Inr rows' \<Longrightarrow> rows' = superseded_rows prior new rows"
  by (cases prior) (auto simp: supersede_def superseded_rows_def split: if_splits)

lemma commit_policy_lineage:
  assumes "commit_policy prior row d = Inr d'" "current_policy_digest d = Inr prior" "py_superseded_by row = None"
  shows "d' = d\<lparr>policy_lineage := superseded_rows prior (py_policy_digest row) (policy_lineage d)
      @ (if py_policy_digest row \<in> py_policy_digest ` set (policy_lineage d) then [] else [row])\<rparr>"
    and "policy_heads d' = (if py_policy_digest row \<in> py_policy_digest ` set (policy_lineage d) then [] else [row])"
proof -
  define rows where "rows = superseded_rows prior (py_policy_digest row) (policy_lineage d)"
  have heads: "filter (\<lambda>r. py_superseded_by r = None) rows = []"
    unfolding rows_def using assms(2) by (rule superseded_rows_heads)
  have mem: "py_policy_digest ` set rows = py_policy_digest ` set (policy_lineage d)"
    unfolding rows_def by (metis list.set_map superseded_rows_digests)
  from assms(1) obtain rows' where ins: "insert_policy row rows = Inr rows'" and d': "d' = d\<lparr>policy_lineage := rows'\<rparr>"
    by (auto simp: commit_policy_def rows_def dest: supersede_Inr)
  have "list_ex (\<lambda>r. py_policy_digest r = py_policy_digest row) rows
      \<longleftrightarrow> py_policy_digest row \<in> py_policy_digest ` set (policy_lineage d)"
    unfolding mem [symmetric] list_ex_iff by (metis image_iff)
  moreover have "\<not> list_ex (\<lambda>r. py_superseded_by r = None) rows"
    using heads by (simp add: list_ex_iff filter_empty_conv)
  ultimately have r: "rows' = rows @ (if py_policy_digest row \<in> py_policy_digest ` set (policy_lineage d) then [] else [row])"
    using ins by (simp add: insert_policy_def split: if_splits)
  show "d' = d\<lparr>policy_lineage := superseded_rows prior (py_policy_digest row) (policy_lineage d)
      @ (if py_policy_digest row \<in> py_policy_digest ` set (policy_lineage d) then [] else [row])\<rparr>"
    by (simp add: d' r rows_def)
  show "policy_heads d' = (if py_policy_digest row \<in> py_policy_digest ` set (policy_lineage d) then [] else [row])"
    using heads assms(3) by (simp add: policy_heads_def d' r)
qed

lemma establish_policy_heads:
  assumes "establish_policy cr keys trust bundle rid d = Inr (new, d')"
  shows "current_policy_digest d' = Inr (if current_policy_digest d = Inr (Some new)
      \<or> new \<notin> py_policy_digest ` set (policy_lineage d) then Some new else None)"
  using assms
proof (cases rule: establish_policy_Inr)
  case (changed prior receipt)
  from commit_policy_lineage(2) [OF changed(5,1)]
  have "policy_heads d' = (if new \<in> py_policy_digest ` set (policy_lineage d) then [] else
      [\<lparr>py_policy_digest = new, py_canonical_bundle = bundle, py_established_receipt = rid,
         py_prior = prior, py_superseded_by = None\<rparr>])" by simp
  moreover have "current_policy_digest d \<noteq> Inr (Some new)" using changed(1,2) by simp
  ultimately show ?thesis by (simp add: current_policy_digest_def [of d'])
qed simp

lemma establish_policy_one_head:
  assumes "one_head d" "establish_policy cr keys trust bundle rid d = Inr (new, d')"
  shows "one_head d'"
  using assms(2)
proof (cases rule: establish_policy_Inr)
  case already
  with assms(1) show ?thesis by simp
next
  case (changed prior receipt)
  note c = commit_policy_lineage [OF changed(5,1)]
  note m = superseded_rows_digests [of prior new "policy_lineage d"]
  have "new \<notin> py_policy_digest ` set (superseded_rows prior new (policy_lineage d))
      \<longleftrightarrow> new \<notin> py_policy_digest ` set (policy_lineage d)" by (metis m list.set_map)
  with m assms(1) have "distinct (map py_policy_digest (policy_lineage d'))"
    by (simp add: c(1) one_head_def)
  moreover have "length (policy_heads d') \<le> 1" by (simp add: c(2))
  ultimately show ?thesis by (simp add: one_head_def)
qed

text \<open>
  A policy that its receipt covers is established: whoever was the head names it as its successor, and
  it is the new head unless its digest is in the lineage already.
\<close>

definition retire_head :: "string \<Rightarrow> policy_row \<Rightarrow> policy_row" where
  "retire_head new r = (if py_superseded_by r = None then r\<lparr>py_superseded_by := Some new\<rparr> else r)"

lemma superseded_rows_retire:
  assumes "current_policy_digest d = Inr prior"
  shows "superseded_rows prior new (policy_lineage d) = map (retire_head new) (policy_lineage d)"
proof (cases prior)
  case None
  with assms have "\<forall>r \<in> set (policy_lineage d). py_superseded_by r \<noteq> None"
    by (simp add: current_policy_None policy_heads_def filter_empty_conv)
  then have "map (retire_head new) (policy_lineage d) = policy_lineage d"
    by (intro map_idI) (auto simp: retire_head_def)
  with None show ?thesis by (simp add: superseded_rows_def)
next
  case (Some p)
  with assms obtain r where r: "policy_heads d = [r]" "py_policy_digest r = p" by (auto simp: current_policy_Some)
  have "set (policy_heads d) = {r}" by (simp add: r(1))
  then have "x = r" if "x \<in> set (policy_lineage d)" "py_superseded_by x = None" for x
    using that by (auto simp: policy_heads_def)
  with r(2) Some show ?thesis
    by (auto simp: superseded_rows_def supersede_head_def retire_head_def intro!: map_cong)
qed

lemma supersede_head_succeeds:
  assumes "current_policy_digest d = Inr prior"
  shows "supersede prior new (policy_lineage d) = Inr (superseded_rows prior new (policy_lineage d))"
proof (cases prior)
  case (Some p)
  with assms obtain r where r: "policy_heads d = [r]" "py_policy_digest r = p" by (auto simp: current_policy_Some)
  have "filter (\<lambda>r. py_policy_digest r = p \<and> py_superseded_by r = None) (policy_lineage d)
      = filter (\<lambda>r. py_policy_digest r = p) (policy_heads d)"
    by (simp add: policy_heads_def conj_commute)
  with r Some show ?thesis by (simp add: supersede_def superseded_rows_def)
qed (simp add: supersede_def superseded_rows_def)

lemma commit_policy_succeeds:
  assumes "current_policy_digest d = Inr prior"
  shows "\<exists>d'. commit_policy prior row d = Inr d'"
proof -
  have "\<not> list_ex (\<lambda>r. py_superseded_by r = None) (superseded_rows prior (py_policy_digest row) (policy_lineage d))"
    using superseded_rows_heads [OF assms] by (simp add: list_ex_iff filter_empty_conv)
  then show ?thesis by (simp add: commit_policy_def supersede_head_succeeds [OF assms] insert_policy_def)
qed

lemma establish_policy_exact:
  assumes "current_policy_digest d = Inr prior" "prior \<noteq> Some new" "new = digest (sha256 cr) (JStr bundle)"
    and "load_receipt cr d rid = Inr (Some receipt)"
    and "exercise cr keys trust d receipt POLICY_KEY (policy_operation_digest cr
         (if prior = None then PolicyEstablish else PolicySupersede) new prior (rc_configuration_digest receipt))
         = Inr receipt"
  shows "establish_policy cr keys trust bundle rid d = Inr (new, d\<lparr>policy_lineage :=
     map (retire_head new) (policy_lineage d) @ (if new \<in> py_policy_digest ` set (policy_lineage d) then []
       else [\<lparr>py_policy_digest = new, py_canonical_bundle = bundle, py_established_receipt = rid,
              py_prior = prior, py_superseded_by = None\<rparr>])\<rparr>)"
proof -
  let ?row = "\<lparr>py_policy_digest = new, py_canonical_bundle = bundle, py_established_receipt = rid,
     py_prior = prior, py_superseded_by = None\<rparr>"
  obtain d' where d': "commit_policy prior ?row d = Inr d'"
    using commit_policy_succeeds [OF assms(1)] by blast
  have "establish_policy cr keys trust bundle rid d = Inr (new, d')"
    using assms(2,5) d' unfolding establish_policy_def Let_def assms(1,4) assms(3) [symmetric] by simp
  with commit_policy_lineage(1) [OF d' assms(1)] superseded_rows_retire [OF assms(1), of new] show ?thesis by simp
qed

text \<open>
  The head is read before the receipt is checked, and another session may commit in between: the
  update of the old head then meets no row, and the establishment is refused.
\<close>

lemma commit_policy_current:
  assumes "one_head d" "commit_policy (Some p) row d = Inr d'"
  shows "current_policy_digest d = Inr (Some p)"
proof -
  have "length (filter (\<lambda>r. py_policy_digest r = p \<and> py_superseded_by r = None) (policy_lineage d)) = 1"
    using assms(2) by (auto simp: commit_policy_def supersede_def split: if_splits)
  then obtain r where "filter (\<lambda>r. py_policy_digest r = p \<and> py_superseded_by r = None) (policy_lineage d) = [r]"
    by (auto simp: length_Suc_conv)
  then have "r \<in> set (filter (\<lambda>r. py_policy_digest r = p \<and> py_superseded_by r = None) (policy_lineage d))"
    by simp
  then have r: "r \<in> set (policy_heads d)" "py_policy_digest r = p" by (auto simp: policy_heads_def)
  moreover have "length (policy_heads d) \<le> 1" using assms(1) by (simp add: one_head_def)
  ultimately have "policy_heads d = [r]" by (cases "policy_heads d") auto
  with r(2) show ?thesis by (simp add: current_policy_Some)
qed

text \<open>Both operations as guarded steps on the tables.\<close>

datatype gate_op =
    Resolve_fork string int string string string trust_registry
  | Establish_policy string string trust_registry

fun gate_step :: "crypto \<Rightarrow> key_registry \<Rightarrow> gate_op \<Rightarrow> db \<Rightarrow> db result" where
  "gate_step cr keys (Resolve_fork node seq chosen rid why t) d = snd (resolve_fork cr keys node seq chosen rid why d t)"
| "gate_step cr keys (Establish_policy bundle rid t) d = bind_result (establish_policy cr keys t bundle rid d) (Inr \<circ> snd)"

lemma gate_step_one_head:
  assumes "one_head d" "gate_step cr keys c d = Inr d'"
  shows "one_head d'"
proof (cases c)
  case (Resolve_fork node seq chosen rid why t)
  with assms(2) obtain t' where "resolve_fork cr keys node seq chosen rid why d t = (t', Inr d')"
    by (metis gate_step.simps(1) prod.collapse)
  from resolve_fork_rows(4) [OF this] assms(1) show ?thesis by (simp add: one_head_def policy_heads_def)
next
  case (Establish_policy canon rid t)
  with assms(2) obtain new where "establish_policy cr keys t canon rid d = Inr (new, d')" by auto
  with assms(1) show ?thesis by (rule establish_policy_one_head)
qed

interpretation gates: guarded_ops "gate_step cr keys" one_head for cr keys
  by unfold_locales (rule gate_step_one_head)

end
