(* ===== verification/Json_Access.thy ===== *)
theory Json_Access
  imports Canonical_Json
begin

text \<open>
  Subscripts and comparisons on decoded JSON values, as Python evaluates them: a missing key raises
  \<open>KeyError\<close>, a subscript or a method on a value of another type raises, and a number
  equals an integer across \<open>int\<close>, \<open>float\<close> and \<open>bool\<close>.
\<close>

definition require_key :: "(string \<times> json) list \<Rightarrow> string \<Rightarrow> json result" where
  "require_key p k = (case map_of p k of Some j \<Rightarrow> Inr j | None \<Rightarrow> Inl (KeyError k))"

fun require_keys :: "(string \<times> json) list \<Rightarrow> string list \<Rightarrow> unit result" where
  "require_keys p [] = Inr ()"
| "require_keys p (k # ks) = bind_result (require_key p k) (\<lambda>_. require_keys p ks)"

lemma require_key_Inr [simp]: "require_key p k = Inr j \<longleftrightarrow> map_of p k = Some j"
  by (simp add: require_key_def split: option.splits)

lemma require_keys_Inr [simp]: "require_keys p ks = Inr u \<longleftrightarrow> (\<forall>k \<in> set ks. map_of p k \<noteq> None)"
  by (induction ks) (auto simp: not_None_eq)

fun obj_get :: "json \<Rightarrow> string \<Rightarrow> json result" where
  "obj_get (JObj ms) k = require_key ms k"
| "obj_get _ k = Inl (TypeError ''indices must be integers'')"

fun as_dict :: "json \<Rightarrow> (string \<times> json) list result" where
  "as_dict (JObj ms) = Inr ms"
| "as_dict _ = Inl (AttributeError ''get'')"

definition get_or :: "(string \<times> json) list \<Rightarrow> string \<Rightarrow> json \<Rightarrow> json" where
  "get_or ms k dflt = (case map_of ms k of Some j \<Rightarrow> j | None \<Rightarrow> dflt)"

fun num_is :: "json \<Rightarrow> int \<Rightarrow> bool" where
  "num_is (JInt m) n = (m = n)"
| "num_is (JBool b) n = ((if b then 1 else 0) = n)"
| "num_is (JFloat t) n = (t = int_str n @ ''.0'')"
| "num_is _ n = False"

end
