(* ===== verification/Security_Store.thy ===== *)
theory Security_Store
  imports Rebuild Workload Json_Access
begin

text \<open>
  \<^verbatim>\<open>kawa/storage/security_store.py\<close>: the durable security tables (issuance audit,
  attestations, the deny-list), which live beside the event log and are never reduced, and the
  verification of a stored attestation against the event log.  How psycopg binds a payload value to
  a text column is not part of the repository: it is the parameter \<open>tx\<close>.
\<close>

section \<open>Tables\<close>

type_synonym text_cast = "json \<Rightarrow> string option result"

record issued_row =
  is_sub :: "string option"
  is_node :: "string option"
  is_runtime :: "string option"
  is_workload :: "string option"
  is_cnf_jkt :: "string option"
  is_iss :: "string option"
  is_iat :: "string option"
  is_exp :: "string option"
  is_capability_ctx :: string

record attestation_row =
  at_work_ref :: "string option"
  at_derived_event_id :: "string option"
  at_semantics :: "string option"
  at_source_basis :: string
  at_policy_digest :: "string option"
  at_iss :: "string option"
  at_iat :: "string option"
  at_exp :: "string option"
  at_signature :: string

record security_db =
  issued :: "(string \<times> issued_row) list"
  attested :: "(string \<times> attestation_row) list"
  revoked_refs :: "(string \<times> string \<times> string option) list"

definition empty_security :: security_db where
  "empty_security = \<lparr>issued = [], attested = [], revoked_refs = []\<rparr>"

text \<open>\<open>INSERT \<dots> ON CONFLICT (key) DO NOTHING\<close>.\<close>

definition insert_new :: "string \<Rightarrow> 'a \<Rightarrow> (string \<times> 'a) list \<Rightarrow> (string \<times> 'a) list" where
  "insert_new k x t = (if k \<in> fst ` set t then t else t @ [(k, x)])"

fun bind_texts :: "text_cast \<Rightarrow> json list \<Rightarrow> string option list result" where
  "bind_texts tx [] = Inr []"
| "bind_texts tx (j # js) = bind_result (tx j) (\<lambda>s. bind_result (bind_texts tx js) (\<lambda>ss. Inr (s # ss)))"

definition not_null :: "string option list \<Rightarrow> unit result" where
  "not_null cs = (if None \<in> set cs then Inl (IntegrityError ''not null'') else Inr ())"

section \<open>Writes\<close>

definition record_issuance :: "text_cast \<Rightarrow> workload_credential \<Rightarrow> security_db \<Rightarrow> security_db result" where
  "record_issuance tx cred d =
     (let p = cred_payload cred
      in bind_result (require_keys p [''jti'', ''sub'', ''cnf_jkt'', ''iss'', ''iat'', ''exp'']) (\<lambda>_.
         bind_result (bind_texts tx [dget p ''jti'' JNull, dget p ''sub'' JNull, dget p ''node'' JNull,
             dget p ''runtime'' JNull, dget p ''workload'' JNull, dget p ''cnf_jkt'' JNull,
             dget p ''iss'' JNull, dget p ''iat'' JNull, dget p ''exp'' JNull]) (\<lambda>cols.
         case cols of
           [jti, sub, node, runtime, workload, jkt, iss, iat, expiry] \<Rightarrow>
             bind_result (not_null [jti, sub, jkt, iss, iat, expiry]) (\<lambda>_.
               Inr (d\<lparr>issued := insert_new (the jti)
                 \<lparr>is_sub = sub, is_node = node, is_runtime = runtime, is_workload = workload,
                  is_cnf_jkt = jkt, is_iss = iss, is_iat = iat, is_exp = expiry,
                  is_capability_ctx = canonical_json (dget p ''capability_ctx'' (JObj []))\<rparr> (issued d)\<rparr>))
         | _ \<Rightarrow> Inl (RuntimeError ''columns''))))"

definition record_attestation :: "text_cast \<Rightarrow> work_attestation \<Rightarrow> security_db \<Rightarrow> security_db result" where
  "record_attestation tx att d =
     (let p = att_payload att
      in bind_result (require_keys p [''jti'', ''work_ref'', ''derived_event_id'', ''work_semantics_digest'',
             ''iss'', ''iat'', ''exp'']) (\<lambda>_.
         bind_result (bind_texts tx [dget p ''jti'' JNull, dget p ''work_ref'' JNull,
             dget p ''derived_event_id'' JNull, dget p ''work_semantics_digest'' JNull,
             dget p ''policy_digest'' JNull, dget p ''iss'' JNull, dget p ''iat'' JNull,
             dget p ''exp'' JNull]) (\<lambda>cols.
         case cols of
           [jti, work, derived, semantics, pol, iss, iat, expiry] \<Rightarrow>
             bind_result (not_null [jti, work, derived, semantics, iss, iat, expiry]) (\<lambda>_.
               Inr (d\<lparr>attested := insert_new (the jti)
                 \<lparr>at_work_ref = work, at_derived_event_id = derived, at_semantics = semantics,
                  at_source_basis = canonical_json (dget p ''source_basis'' (JList [])),
                  at_policy_digest = pol, at_iss = iss, at_iat = iat, at_exp = expiry,
                  at_signature = att_signature att\<rparr> (attested d)\<rparr>))
         | _ \<Rightarrow> Inl (RuntimeError ''columns''))))"

definition revoke_ref :: "string \<Rightarrow> string \<Rightarrow> string option \<Rightarrow> security_db \<Rightarrow> security_db result" where
  "revoke_ref ref knd why d =
     (if knd \<notin> {''credential'', ''key''} then Inl (IntegrityError ''security_revocation_kind_check'')
      else Inr (d\<lparr>revoked_refs := insert_new ref (knd, why) (revoked_refs d)\<rparr>))"

definition revoked_set :: "security_db \<Rightarrow> string set" where
  "revoked_set d = fst ` set (revoked_refs d)"

section \<open>Verification against the log\<close>

text \<open>The attested event by its id; a payload value that is no text finds no row.\<close>

definition derived_row :: "text_cast \<Rightarrow> db \<Rightarrow> json \<Rightarrow> work_derived option result" where
  "derived_row tx d j =
     bind_result (tx j) (\<lambda>s. case s of None \<Rightarrow> Inr None | Some eid \<Rightarrow> Inr (map_of (event_work d) eid))"

definition resolvable_digests :: "db \<Rightarrow> string set" where
  "resolvable_digests d = set (List.map_filter (\<lambda>(_, r). ob_content_digest r) (event_observation d))"

definition verify_attestation_against_store ::
    "crypto \<Rightarrow> text_cast \<Rightarrow> db \<Rightarrow> work_attestation \<Rightarrow> string \<Rightarrow> string \<Rightarrow> string \<Rightarrow> string set option \<Rightarrow> bool result" where
  "verify_attestation_against_store cr tx d att pem iss now revoked =
     bind_result (derived_row tx d (dget (att_payload att) ''derived_event_id'' JNull)) (\<lambda>row.
       case row of
         None \<Rightarrow> Inr False
       | Some w \<Rightarrow>
           verify_attestation cr att pem iss
             (work_semantics_digest cr (wd_work_ref w) (wd_plan_ref w) (wd_work_kind w)
                (wd_role_requirement w) (wd_objective w) (wd_constraints w) (wd_expected_observations w))
             now (Some (resolvable_digests d)) revoked)"

section \<open>The tables only grow\<close>

datatype security_op =
    Record_issuance workload_credential
  | Record_attestation work_attestation
  | Revoke_ref string string "string option"

fun security_step :: "text_cast \<Rightarrow> security_op \<Rightarrow> security_db \<Rightarrow> security_db result" where
  "security_step tx (Record_issuance c) d = record_issuance tx c d"
| "security_step tx (Record_attestation a) d = record_attestation tx a d"
| "security_step tx (Revoke_ref r k w) d = revoke_ref r k w d"

definition keyed :: "security_db \<Rightarrow> bool" where
  "keyed d \<longleftrightarrow> distinct (map fst (issued d)) \<and> distinct (map fst (attested d)) \<and> distinct (map fst (revoked_refs d))"

definition security_below :: "security_db \<Rightarrow> security_db \<Rightarrow> bool" where
  "security_below a b \<longleftrightarrow> (\<exists>x y z. issued b = issued a @ x \<and> attested b = attested a @ y
     \<and> revoked_refs b = revoked_refs a @ z)"

lemma insert_new_append: "\<exists>x. insert_new k v t = t @ x"
  by (auto simp: insert_new_def)

lemma insert_new_distinct [simp]: "distinct (map fst t) \<Longrightarrow> distinct (map fst (insert_new k v t))"
  by (auto simp: insert_new_def)

lemma insert_new_keys [simp]: "fst ` set (insert_new k v t) = insert k (fst ` set t)"
  by (auto simp: insert_new_def)

lemma security_step_cases:
  assumes "security_step tx c d = Inr d'"
  obtains (issue) k x where "d' = d\<lparr>issued := insert_new k x (issued d)\<rparr>"
  | (attest) k x where "d' = d\<lparr>attested := insert_new k x (attested d)\<rparr>"
  | (deny) k x where "d' = d\<lparr>revoked_refs := insert_new k x (revoked_refs d)\<rparr>"
proof (cases c)
  case (Record_issuance a)
  with assms have "record_issuance tx a d = Inr d'" by simp
  then show ?thesis
    by (auto simp: record_issuance_def Let_def intro: issue)
next
  case (Record_attestation a)
  with assms have "record_attestation tx a d = Inr d'" by simp
  then show ?thesis
    by (auto simp: record_attestation_def Let_def intro: attest)
next
  case (Revoke_ref r k w)
  with assms show ?thesis by (auto simp: revoke_ref_def split: if_splits intro: deny)
qed

interpretation security: forward_ops "security_step tx" keyed security_below for tx
proof unfold_locales
  fix c s t u s'
  show "security_below s s" by (simp add: security_below_def)
  show "security_below s t \<Longrightarrow> security_below t u \<Longrightarrow> security_below s u"
    by (auto simp: security_below_def)
  assume k: "keyed s" and step: "security_step tx c s = Inr s'"
  from step k show "keyed s'" by (cases rule: security_step_cases) (auto simp: keyed_def)
  show "security_below s s'"
    using step
  proof (cases rule: security_step_cases)
    case (issue k x)
    then show ?thesis using insert_new_append [of k x "issued s"] by (auto simp: security_below_def)
  next
    case (attest k x)
    then show ?thesis using insert_new_append [of k x "attested s"] by (auto simp: security_below_def)
  next
    case (deny k x)
    then show ?thesis using insert_new_append [of k x "revoked_refs s"] by (auto simp: security_below_def)
  qed
qed

lemma revoked_stays:
  assumes "keyed d" "ref \<in> revoked_set d"
  shows "ref \<in> revoked_set (exec_ops (security_step tx) cs d)"
  using security.exec_below [OF assms(1), of tx cs] assms(2) by (auto simp: security_below_def revoked_set_def)

lemma revoke_ref_revokes:
  assumes "revoke_ref ref knd why d = Inr d'"
  shows "revoked_set d' = insert ref (revoked_set d)"
proof -
  have "d' = d\<lparr>revoked_refs := insert_new ref (knd, why) (revoked_refs d)\<rparr>"
    using assms by (simp add: revoke_ref_def split: if_splits)
  then show ?thesis by (simp add: revoked_set_def)
qed

lemma revoked_credential_refused:
  assumes "map_of (cred_payload cred) ''jti'' = Some (JStr j)" "j \<in> R"
  shows "verify_credential cr cred pem iss aud now (Some R) \<noteq> Inr True"
  using assms by (auto simp: verify_credential_true is_revoked_def dget_def)

lemma revoked_attestation_refused:
  assumes "map_of (att_payload att) ''jti'' = Some (JStr j)" "j \<in> R"
  shows "verify_attestation_against_store cr tx d att pem iss now (Some R) \<noteq> Inr True"
proof
  assume "verify_attestation_against_store cr tx d att pem iss now (Some R) = Inr True"
  then obtain w where "verify_attestation cr att pem iss w now (Some (resolvable_digests d)) (Some R) = Inr True"
    by (auto simp: verify_attestation_against_store_def split: option.splits)
  from verify_attestation_true(4) [OF this] assms show False by (auto simp: is_revoked_def dget_def split: if_splits)
qed

text \<open>An accepted attestation names a held event whose semantics it was signed over.\<close>

lemma attestation_pins_event:
  assumes "verify_attestation_against_store cr tx d att pem iss now revoked = Inr True"
  obtains eid w where "tx (dget (att_payload att) ''derived_event_id'' JNull) = Inr (Some eid)"
    "map_of (event_work d) eid = Some w"
    "dget (att_payload att) ''work_semantics_digest'' JNull = JStr (work_semantics_digest cr (wd_work_ref w)
       (wd_plan_ref w) (wd_work_kind w) (wd_role_requirement w) (wd_objective w) (wd_constraints w)
       (wd_expected_observations w))"
    "issuer_signed cr pem (att_payload att) (att_signature att)"
proof -
  obtain eid w where e: "tx (dget (att_payload att) ''derived_event_id'' JNull) = Inr (Some eid)"
    "map_of (event_work d) eid = Some w"
    and v: "verify_attestation cr att pem iss (work_semantics_digest cr (wd_work_ref w)
       (wd_plan_ref w) (wd_work_kind w) (wd_role_requirement w) (wd_objective w) (wd_constraints w)
       (wd_expected_observations w)) now (Some (resolvable_digests d)) revoked = Inr True"
    using assms by (auto simp: verify_attestation_against_store_def derived_row_def split: option.splits)
  show thesis using that [OF e verify_attestation_true(1,2) [OF v]] .
qed

end
