(* ===== verification/Standing.thy ===== *)
theory Standing
  imports Rebuild
begin

text \<open>
  Claim standing (\<open>_recompute_standing\<close> of \<^verbatim>\<open>kawa/projections/reducers.py\<close>): the
  depth-first search finds exactly the claims that reach an observation through supports edges and
  live claims, and every stored standing agrees with the links, claims and observations held.
\<close>

section \<open>The search\<close>

text \<open>The specification: a chain of supports edges through live claims back to an observation.\<close>

inductive supported :: "(string \<Rightarrow> string list) \<Rightarrow> (string \<Rightarrow> bool) \<Rightarrow> string set \<Rightarrow> string \<Rightarrow> bool"
  for srcs :: "string \<Rightarrow> string list" and obs :: "string \<Rightarrow> bool" and live :: "string set" where
  direct: "s \<in> set (srcs c) \<Longrightarrow> obs s \<Longrightarrow> supported srcs obs live c"
| through: "s \<in> set (srcs c) \<Longrightarrow> s \<in> live \<Longrightarrow> supported srcs obs live s \<Longrightarrow> supported srcs obs live c"

lemma visit_None: "visit obs live ss stack seen = None \<longleftrightarrow> (\<exists>s \<in> set ss. obs s)"
  by (induction obs live ss stack seen rule: visit.induct) auto

lemma visit_Some:
  assumes "visit obs live ss stack seen = Some (stack', seen')"
  shows "\<forall>s \<in> set ss. \<not> obs s" "set seen' = set seen \<union> (set ss \<inter> set live)"
    "set stack \<subseteq> set stack'" "set stack' \<subseteq> set stack \<union> (set ss \<inter> set live)" "set seen' - set seen \<subseteq> set stack'"
proof -
  show "\<forall>s \<in> set ss. \<not> obs s"
    using visit_None [of obs live ss stack seen] assms by simp
  have "set seen' = set seen \<union> (set ss \<inter> set live) \<and> set stack \<subseteq> set stack'
      \<and> set stack' \<subseteq> set stack \<union> (set ss \<inter> set live) \<and> set seen' - set seen \<subseteq> set stack'"
    using assms
  proof (induction obs live ss stack seen rule: visit.induct)
    case (2 obs live s ss stack seen)
    then have "\<not> obs s" by auto
    show ?case
    proof (cases "s \<in> set live \<and> s \<notin> set seen")
      case True
      with 2 \<open>\<not> obs s\<close> show ?thesis by auto
    next
      case False
      with 2 \<open>\<not> obs s\<close> show ?thesis by auto
    qed
  qed simp
  then show "set seen' = set seen \<union> (set ss \<inter> set live)" "set stack \<subseteq> set stack'"
    "set stack' \<subseteq> set stack \<union> (set ss \<inter> set live)" "set seen' - set seen \<subseteq> set stack'" by blast+
qed

lemma grounded_loop_sound:
  "grounded_loop srcs obs live stack seen \<Longrightarrow> \<exists>c \<in> set stack. supported srcs obs (set live) c"
proof (induction srcs obs live stack seen rule: grounded_loop.induct)
  case (2 srcs obs live c stack seen)
  show ?case
  proof (cases "visit obs live (srcs c) stack seen")
    case None
    then obtain s where "s \<in> set (srcs c)" "obs s" using visit_None by metis
    then show ?thesis by (auto intro: supported.direct)
  next
    case (Some r)
    obtain stack' seen' where r: "r = (stack', seen')" by force
    have "grounded_loop srcs obs live stack' seen'" using 2(2) Some r by simp
    from 2(1) [OF Some r [symmetric] this] obtain x where x: "x \<in> set stack'" "supported srcs obs (set live) x" by blast
    then consider "x \<in> set stack" | "x \<in> set (srcs c)" "x \<in> set live"
      using visit_Some(4) [OF Some [unfolded r]] by blast
    then show ?thesis using x(2) by cases (auto intro: supported.through)
  qed
qed simp

text \<open>What has been popped is closed: no observation supports it, its live sources have been seen.\<close>

definition search_inv :: "(string \<Rightarrow> string list) \<Rightarrow> (string \<Rightarrow> bool) \<Rightarrow> string set \<Rightarrow> string set \<Rightarrow> string set \<Rightarrow> bool" where
  "search_inv srcs obs live stack seen \<longleftrightarrow>
     (\<forall>x \<in> seen - stack. (\<forall>s \<in> set (srcs x). \<not> obs s) \<and> set (srcs x) \<inter> live \<subseteq> seen)"

lemma search_inv_closed:
  assumes "search_inv srcs obs live {} seen" "supported srcs obs live x"
  shows "x \<notin> seen"
  using assms(2,1) by induction (auto simp: search_inv_def)

lemma grounded_loop_complete:
  "search_inv srcs obs (set live) (set stack) (set seen) \<Longrightarrow> \<not> grounded_loop srcs obs live stack seen \<Longrightarrow>
     x \<in> set seen \<Longrightarrow> \<not> supported srcs obs (set live) x"
proof (induction srcs obs live stack seen rule: grounded_loop.induct)
  case (1 srcs obs live seen)
  then show ?case using search_inv_closed [of srcs obs "set live" "set seen" x] by auto
next
  case (2 srcs obs live c stack seen)
  from 2(3) obtain stack' seen' where v: "visit obs live (srcs c) stack seen = Some (stack', seen')"
    and loop: "\<not> grounded_loop srcs obs live stack' seen'" by (auto split: option.splits)
  note s = visit_Some [OF v]
  have "search_inv srcs obs (set live) (set stack') (set seen')"
    unfolding search_inv_def
  proof
    fix y
    assume y: "y \<in> set seen' - set stack'"
    then have old: "y \<in> set seen" "y \<notin> set stack" using s(3,5) by auto
    show "(\<forall>s \<in> set (srcs y). \<not> obs s) \<and> set (srcs y) \<inter> set live \<subseteq> set seen'"
    proof (cases "y = c")
      case True
      with s(1,2) show ?thesis by auto
    next
      case False
      with old 2(2) have "(\<forall>s \<in> set (srcs y). \<not> obs s) \<and> set (srcs y) \<inter> set live \<subseteq> set seen"
        by (simp add: search_inv_def)
      with s(2) show ?thesis by blast
    qed
  qed
  from 2(1) [OF v refl this loop] 2(4) s(2) show ?case by simp
qed

lemma grounded_loop_iff:
  "grounded_loop srcs obs live [c] [c] \<longleftrightarrow> supported srcs obs (set live) c"
  using grounded_loop_sound [of srcs obs live "[c]" "[c]"]
    grounded_loop_complete [of srcs obs live "[c]" "[c]" c] by (auto simp: search_inv_def)

text \<open>On the tables: the edges are the resolved supports links, the live claims those not superseded.\<close>

definition live_claims :: "db \<Rightarrow> string set" where
  "live_claims d = {c. c \<in> set (claim_ids d) \<and> \<not> superseded_claim d c}"

lemma grounded_supported:
  "grounded d c \<longleftrightarrow> supported (supports_into d) (\<lambda>s. s \<in> set (observation_ids d)) (live_claims d) c"
proof -
  have "set (filter (\<lambda>s. \<not> superseded_claim d s) (claim_ids d)) = live_claims d" by (auto simp: live_claims_def)
  then show ?thesis unfolding grounded_def grounded_loop_iff by simp
qed

section \<open>Stored standings\<close>

definition fresh_standing :: "db \<Rightarrow> bool" where
  "fresh_standing d \<longleftrightarrow>
     (\<forall>c \<in> set (claim_ids d). \<exists>eid. current_claim_standing d c = Some (standing_of d c, eid))"

text \<open>What a standing depends on.\<close>

lemma standing_of_cong:
  assumes "event_claim d = event_claim d'" "event_observation d = event_observation d'" "event_links d = event_links d'"
  shows "standing_of d c = standing_of d' c"
proof -
  have "claim_ids d = claim_ids d'" "observation_ids d = observation_ids d'" "resolved_links d = resolved_links d'"
    using assms by (simp_all add: claim_ids_def observation_ids_def resolved_links_def)
  note q = this
  have s: "superseded_claim d = superseded_claim d'" by (simp add: superseded_claim_def fun_eq_iff q)
  have "supports_into d = supports_into d'" by (simp add: supports_into_def fun_eq_iff q)
  then show ?thesis
    unfolding standing_of_def Let_def contradicted_def grounded_def s q by simp
qed

lemma foldl_updates:
  "c \<in> set cs \<Longrightarrow> foldl (\<lambda>m c. m(c \<mapsto> f c)) m cs c = Some (f c)"
proof (induction cs rule: rev_induct)
  case (snoc x cs)
  then show ?case by (cases "c = x") auto
qed simp

lemma recompute_standing_fresh: "fresh_standing (recompute_standing eid d)"
proof (cases "claim_ids d = []")
  case True
  then show ?thesis by (simp add: recompute_standing_def fresh_standing_def)
next
  case False
  let ?d = "recompute_standing eid d"
  have s: "standing_of ?d c = standing_of d c" for c
    by (rule standing_of_cong) (simp_all add: recompute_standing_def)
  have "claim_ids ?d = claim_ids d" by (simp add: recompute_standing_def claim_ids_def)
  moreover have "current_claim_standing ?d c = Some (standing_of d c, eid)" if "c \<in> set (claim_ids d)" for c
    using False foldl_updates [of c "sort (claim_ids d)" "\<lambda>c. (standing_of d c, eid)"] that
    by (simp add: recompute_standing_def)
  ultimately show ?thesis using s by (simp add: fresh_standing_def)
qed

lemma fill_untouched:
  assumes "fill_target e pts d = (d', False) \<or> fill_source e pts d = (d', False)"
  shows "d' = d"
proof -
  have "map (\<lambda>l. if P l then f l else l) ls = ls" if "\<not> list_ex P ls" for P and f :: "link_row \<Rightarrow> link_row" and ls
    using that by (induction ls) auto
  note same = this
  show ?thesis
  proof (cases "find_event d (event_id e)")
    case None
    with assms show ?thesis by (auto simp: fill_target_def fill_source_def)
  next
    case (Some r)
    with assms show ?thesis by (auto simp: fill_target_def fill_source_def Let_def same)
  qed
qed

text \<open>The payloads that no standing depends on.\<close>

fun evidence :: "payload \<Rightarrow> bool" where
  "evidence (LinkAsserted p) = True"
| "evidence (ObservationRecorded p) = True"
| "evidence (ClaimRecorded p) = True"
| "evidence _ = False"

lemma recompute_all_standing [simp]:
  "current_claim_standing (recompute_all now eid ws d) = current_claim_standing d"
  "event_links (recompute_all now eid ws d) = event_links d"
  using recompute_all_frame [of now eid ws d] by auto

lemma recompute_work_standing [simp]:
  "current_claim_standing (recompute_work_state now w eid d) = current_claim_standing d"
  "event_links (recompute_work_state now w eid d) = event_links d"
  using recompute_work_frame [of now w eid d] by auto

lemma settle_result_standing [simp]:
  "current_claim_standing (settle_result p d) = current_claim_standing d"
  "event_links (settle_result p d) = event_links d"
  using settle_result_frame [of p d] by auto

lemma reduce_payload_no_evidence:
  assumes "reduce_payload now e p d = Inr (d', t)" "\<not> evidence p"
  shows "\<not> t \<and> current_claim_standing d' = current_claim_standing d \<and> event_links d' = event_links d"
proof (cases p)
  case (PlanCreated x)
  with assms have "recompute_plan_state (pc_plan_ref x) (event_id e) d = Inr d'" "\<not> t" by auto
  with recompute_plan_cases [OF this(1)] show ?thesis by auto
next
  case (PlanLifecycleChanged x)
  with assms have "recompute_plan_state (pl_plan_ref x) (event_id e) d = Inr d'" "\<not> t" by auto
  with recompute_plan_cases [OF this(1)] show ?thesis by auto
next
  case (WorkDependencyDeclared x)
  with assms have "d' = recompute_work_state now (dd_work_ref x) (event_id e) (declare_edges x d)" "\<not> t"
    by (simp_all add: declare_edges_def Let_def)
  then show ?thesis by (simp add: declare_edges_eq)
next
  case (ResultRecorded x)
  with assms have "d' = propagate_to_dependents now (rr_work_ref x) (event_id e)
      (recompute_work_state now (rr_work_ref x) (event_id e) (settle_result x d))" "\<not> t"
    by (simp_all add: settle_result_def Let_def)
  then show ?thesis by (simp add: propagate_eq settle_edges_eq)
next
  case (WorkRetired x)
  with assms have "d' = propagate_to_dependents now (wr_work_ref x) (event_id e)
      (recompute_work_state now (wr_work_ref x) (event_id e) d)" "\<not> t" by (simp_all add: Let_def)
  then show ?thesis by (simp add: propagate_eq settle_edges_eq)
next
  case (WorkDerived x)
  with assms have "d' = recompute_work_state now (wd_work_ref x) (event_id e) d" "\<not> t" by simp_all
  then show ?thesis by simp
qed (use assms in auto)

lemma reduce_payload_evidence: "reduce_payload now e p d = Inr (d', t) \<Longrightarrow> evidence p \<Longrightarrow> t"
  by (cases p) auto

text \<open>Every recorded event leaves the standings of all held claims up to date.\<close>

lemma record_event_standing:
  assumes "fresh_standing d" "record_event uc now e d = Inr d'"
  shows "fresh_standing d'"
proof -
  obtain d1 d2 where i: "insert_event uc e d = Inr d1" "insert_payload uc e d1 = Inr d2" "reduce now e d2 = Inr d'"
    using assms(2) by (auto simp: record_event_def)
  from reduce_Inr [OF i(3)] obtain pts e1 t1 e2 t2 p e3 t3 where
    1: "fill_target e pts d2 = (e1, t1)" and 2: "fill_source e pts e1 = (e2, t2)" and p: "payload e = Some p"
    and 3: "reduce_payload now e p e2 = Inr (e3, t3)"
    and 4: "d' = (if t1 \<or> t2 \<or> t3 then recompute_standing (event_id e) e3 else e3)" by metis
  show ?thesis
  proof (cases "t1 \<or> t2 \<or> t3")
    case True
    with 4 show ?thesis by (simp add: recompute_standing_fresh)
  next
    case False
    then have t: "\<not> t1" "\<not> t2" "\<not> t3" by auto
    have "e1 = d2" using fill_untouched [of e pts d2 e1] 1 t(1) by simp
    moreover have "e2 = e1" using fill_untouched [of e pts e1 e2] 2 t(2) by simp
    ultimately have "e2 = d2" by simp
    have ne: "\<not> evidence p" using reduce_payload_evidence [OF 3] False by blast
    have d': "d' = e3" using 4 False by simp
    note r = reduce_payload_no_evidence [OF 3 ne] and f = same_factsD [OF reduce_payload_facts [OF 3]]
    have "event_claim d2 = event_claim d1" "event_observation d2 = event_observation d1"
      "event_links d2 = event_links d1" "current_claim_standing d2 = current_claim_standing d1"
      using i(2) p ne by (cases p; auto simp: insert_payload.simps)+
    moreover obtain rs where "d1 = d\<lparr>events := rs\<rparr>" using insert_event_Inr [OF i(1)] by metis
    ultimately have e: "event_claim d' = event_claim d" "event_observation d' = event_observation d"
      "event_links d' = event_links d" "current_claim_standing d' = current_claim_standing d"
      using r f(7,8) unfolding d' \<open>e2 = d2\<close> by simp_all
    have "standing_of d' c = standing_of d c" for c by (rule standing_of_cong) (rule e)+
    moreover have "claim_ids d' = claim_ids d" by (simp add: claim_ids_def e(1))
    ultimately show ?thesis using assms(1) by (simp add: fresh_standing_def e(4))
  qed
qed

lemma record_events_standing:
  "fresh_standing d \<Longrightarrow> record_events uc es d = Inr d' \<Longrightarrow> fresh_standing d'"
  by (induction uc es d rule: record_events.induct) (auto intro: record_event_standing)

end
