(* ===== verification/Services.thy ===== *)
theory Services
  imports Standing
begin

text \<open>
  The writing half of \<^verbatim>\<open>kawa/application/services.py\<close>: every mutating call builds a payload,
  emits it and reduces it in one transaction.  The readings of the two clocks and the parameters of
  the emit path are the record \<open>env\<close> of one call; the managed domain tokens are the keys of
  \<^verbatim>\<open>registry/vocabulary.json\<close>, read once per process.
\<close>

section \<open>The service\<close>

record env =
  e_cr :: crypto
  e_uc :: uuid_cast
  e_dsn :: bool
  e_now_ms :: int
  e_at :: int
  e_domains :: "string set"

record kawa =
  k_emitter :: emitter
  k_default_scope :: "string option"

definition kawa_init :: "identity_context \<Rightarrow> string option \<Rightarrow> kawa" where
  "kawa_init identity default_scope = \<lparr>k_emitter = emitter_init identity, k_default_scope = default_scope\<rparr>"

type_synonym reply = "kawa \<times> (event \<times> db) result"

definition validate_domain :: "string set \<Rightarrow> string option \<Rightarrow> unit result" where
  "validate_domain known tok =
     (case tok of
        None \<Rightarrow> Inr ()
      | Some t \<Rightarrow> if t \<notin> known then Inl (ValueError ''unknown domain token'') else Inr ())"

definition emit_reduce :: "env \<Rightarrow> payload \<Rightarrow> string option \<Rightarrow> string option \<Rightarrow> kawa \<Rightarrow> db \<Rightarrow> reply" where
  "emit_reduce v p subj pol k d =
     (case emit (e_cr v) (e_uc v) (e_dsn v) (e_now_ms v) p subj pol (k_default_scope k) None (k_emitter k) d of
        (em, r) \<Rightarrow> (k\<lparr>k_emitter := em\<rparr>,
          bind_result r (\<lambda>(e, d1). bind_result (reduce (e_at v) e d1) (\<lambda>d2. Inr (e, d2)))))"

text \<open>A payload is constructed before anything is emitted; pydantic refuses an invalid one.\<close>

definition construct_emit :: "env \<Rightarrow> payload result \<Rightarrow> string option \<Rightarrow> string option \<Rightarrow> kawa \<Rightarrow> db \<Rightarrow> reply" where
  "construct_emit v built subj pol k d =
     (case bind_result built validated of
        Inl err \<Rightarrow> (k, Inl err)
      | Inr p \<Rightarrow> emit_reduce v p subj pol k d)"

text \<open>A literal of a closed vocabulary.\<close>

definition literal :: "('a \<Rightarrow> string) \<Rightarrow> 'a list \<Rightarrow> string \<Rightarrow> 'a result" where
  "literal text vs s =
     (case List.find (\<lambda>v. text v = s) vs of Some v \<Rightarrow> Inr v | None \<Rightarrow> Inl (ValueError ''literal_error''))"

definition optional :: "('a \<Rightarrow> 'b result) \<Rightarrow> 'a option \<Rightarrow> 'b option result" where
  "optional f x = (case x of None \<Rightarrow> Inr None | Some s \<Rightarrow> bind_result (f s) (\<lambda>v. Inr (Some v)))"

section \<open>Writes\<close>

definition create_plan ::
    "env \<Rightarrow> string \<Rightarrow> string \<Rightarrow> string \<Rightarrow> string option \<Rightarrow> string option \<Rightarrow> string list option
      \<Rightarrow> string list option \<Rightarrow> string option \<Rightarrow> kawa \<Rightarrow> db \<Rightarrow> reply" where
  "create_plan v plan_ref project_ref obj why scope cs eobs tok k d =
     construct_emit v (bind_result (validate_domain (e_domains v) tok) (\<lambda>_.
       Inr (PlanCreated \<lparr>pc_plan_ref = plan_ref, pc_project_ref = project_ref, pc_objective = obj,
         pc_rationale = why, pc_lifecycle = Draft, pc_scope = scope, pc_constraints = cs,
         pc_expected_observations = eobs, pc_domain = tok\<rparr>))) None None k d"

definition set_plan_lifecycle :: "env \<Rightarrow> string \<Rightarrow> string \<Rightarrow> string option \<Rightarrow> kawa \<Rightarrow> db \<Rightarrow> reply" where
  "set_plan_lifecycle v plan_ref lc reason k d =
     construct_emit v
       (bind_result (literal lifecycle_text [Draft, Reviewing, Ready, Running, Blocked, Ended] lc) (\<lambda>l.
        bind_result (optional (literal end_reason_text [Completed, Cancelled, Failed, Superseded]) reason) (\<lambda>r.
          Inr (PlanLifecycleChanged \<lparr>pl_plan_ref = plan_ref, pl_lifecycle = l, pl_end_reason = r\<rparr>))))
       None None k d"

definition derive_work ::
    "env \<Rightarrow> string \<Rightarrow> string \<Rightarrow> string \<Rightarrow> string option \<Rightarrow> string option \<Rightarrow> string option \<Rightarrow> string list option
      \<Rightarrow> string list option \<Rightarrow> string option \<Rightarrow> kawa \<Rightarrow> db \<Rightarrow> reply" where
  "derive_work v work_ref plan_ref work_kind role subj obj cs eobs tok k d =
     construct_emit v (bind_result (validate_domain (e_domains v) tok) (\<lambda>_.
       Inr (WorkDerived \<lparr>wd_work_ref = work_ref, wd_plan_ref = plan_ref, wd_work_kind = work_kind,
         wd_role_requirement = role, wd_subject_ref = subj, wd_objective = obj, wd_constraints = cs,
         wd_expected_observations = eobs, wd_domain = tok\<rparr>))) None None k d"

definition retire_work :: "env \<Rightarrow> string \<Rightarrow> string \<Rightarrow> string option \<Rightarrow> kawa \<Rightarrow> db \<Rightarrow> reply" where
  "retire_work v work_ref reason note_text k d =
     construct_emit v
       (bind_result (literal retire_reason_text [RetiredSuperseded, RetiredCancelled, RetiredObsolete] reason) (\<lambda>r.
          Inr (WorkRetired \<lparr>wr_work_ref = work_ref, wr_reason = r, wr_note = note_text\<rparr>)))
       None None k d"

definition declare_dependency :: "env \<Rightarrow> string \<Rightarrow> string \<Rightarrow> string \<Rightarrow> kawa \<Rightarrow> db \<Rightarrow> reply" where
  "declare_dependency v work_ref dependency_work_ref pol k d =
     construct_emit v
       (bind_result (literal policy_text [PolicyALL, PolicyANY] pol) (\<lambda>p.
          Inr (WorkDependencyDeclared \<lparr>dd_work_ref = work_ref, dd_dependency_work_ref = dependency_work_ref,
            dd_satisfaction_policy = p\<rparr>)))
       None None k d"

definition record_result ::
    "env \<Rightarrow> string \<Rightarrow> string \<Rightarrow> string \<Rightarrow> string option \<Rightarrow> string option \<Rightarrow> kawa \<Rightarrow> db \<Rightarrow> reply" where
  "record_result v work_ref oc result_ref summary key k d =
     construct_emit v
       (bind_result (literal outcome_text [Success, Failure, Conflicted, ExecutionUnknown] oc) (\<lambda>out.
          Inr (ResultRecorded \<lparr>rr_work_ref = work_ref, rr_outcome = out, rr_result_ref = result_ref,
            rr_summary = summary, rr_occurrence_key = key\<rparr>)))
       None None k d"

text \<open>The keyword arguments of an observation are its record, the method still a text.\<close>

definition record_observation ::
    "env \<Rightarrow> observation_recorded \<Rightarrow> string \<Rightarrow> string option \<Rightarrow> string option \<Rightarrow> kawa \<Rightarrow> db \<Rightarrow> reply" where
  "record_observation v ob meth subj pol k d =
     construct_emit v
       (bind_result (literal method_text
            [Command_exit, Http_probe, File_digest, Api_fetch, Metric_read, Manual_human] meth) (\<lambda>m.
          Inr (ObservationRecorded (ob\<lparr>ob_method := m\<rparr>))))
       subj pol k d"

definition record_claim :: "env \<Rightarrow> string \<Rightarrow> string option \<Rightarrow> string option \<Rightarrow> kawa \<Rightarrow> db \<Rightarrow> reply" where
  "record_claim v proposition basis_note subj k d =
     construct_emit v (Inr (ClaimRecorded \<lparr>cl_proposition = proposition, cl_basis_note = basis_note\<rparr>)) subj None k d"

definition assert_link :: "env \<Rightarrow> string \<Rightarrow> string \<Rightarrow> string \<Rightarrow> kawa \<Rightarrow> db \<Rightarrow> reply" where
  "assert_link v source_ref rel target_ref k d =
     construct_emit v
       (bind_result (literal relation_text [Supports, Contradicts, Based_on, Reason_for, Addresses, Reviews,
            Corrects, Resolves, Supersedes, Caused_by, Satisfies] rel) (\<lambda>r.
          Inr (LinkAsserted \<lparr>la_source_ref = source_ref, la_relation = r, la_target_ref = target_ref\<rparr>)))
       None None k d"

section \<open>One transaction\<close>

datatype write_op =
    Create_plan string string string "string option" "string option" "string list option" "string list option" "string option"
  | Set_plan_lifecycle string string "string option"
  | Derive_work string string string "string option" "string option" "string option" "string list option"
      "string list option" "string option"
  | Retire_work string string "string option"
  | Declare_dependency string string string
  | Record_result string string string "string option" "string option"
  | Record_observation observation_recorded string "string option" "string option"
  | Record_claim string "string option" "string option"
  | Assert_link string string string

fun write_call :: "env \<Rightarrow> write_op \<Rightarrow> kawa \<Rightarrow> db \<Rightarrow> reply" where
  "write_call v (Create_plan a b c e f g h i) = create_plan v a b c e f g h i"
| "write_call v (Set_plan_lifecycle a b c) = set_plan_lifecycle v a b c"
| "write_call v (Derive_work a b c e f g h i j) = derive_work v a b c e f g h i j"
| "write_call v (Retire_work a b c) = retire_work v a b c"
| "write_call v (Declare_dependency a b c) = declare_dependency v a b c"
| "write_call v (Record_result a b c e f) = record_result v a b c e f"
| "write_call v (Record_observation a b c e) = record_observation v a b c e"
| "write_call v (Record_claim a b c) = record_claim v a b c"
| "write_call v (Assert_link a b c) = assert_link v a b c"

lemma emit_reduce_Inr:
  assumes "emit_reduce v p subj pol k d = (k', Inr (e, d'))"
  shows "record_event (e_uc v) (e_at v) e d = Inr d'" "well_kinded e" "payload e = Some p"
    "log_ok (events d) \<Longrightarrow> log_ok (events d')"
    "scope_ref e = k_default_scope k" "event_verify (sha256 (e_cr v)) e"
    "k_default_scope k' = k_default_scope k"
proof -
  obtain em d2 where em: "emit (e_cr v) (e_uc v) (e_dsn v) (e_now_ms v) p subj pol (k_default_scope k) None (k_emitter k) d
      = (em, Inr (e, d2))" and red: "reduce (e_at v) e d2 = Inr d'" and k': "k' = k\<lparr>k_emitter := em\<rparr>"
    using assms by (auto simp: emit_reduce_def split: prod.splits)
  obtain d1 where i: "emit_event (e_cr v) (e_dsn v) (snd (tick (e_now_ms v) (em_hlc (k_emitter k)))) p subj pol
        (k_default_scope k) None (k_emitter k) (origin_head d (em_origin_node (k_emitter k))) = Inr e"
    "insert_event (e_uc v) e d = Inr d1" "insert_payload (e_uc v) e d1 = Inr d2"
    using emit_Inr [OF em] by metis
  note f = emit_event_Inr [OF i(1)]
  show "record_event (e_uc v) (e_at v) e d = Inr d'" using i red by (simp add: record_event_def)
  show "payload e = Some p" "event_verify (sha256 (e_cr v)) e" using f by simp_all
  show "well_kinded e" using f(2,3) by (simp add: well_kinded_def)
  have "events d' = events d2" using same_factsD [OF reduce_same_facts [OF red]] by simp
  with emit_log_ok(1) [OF _ em] show "log_ok (events d) \<Longrightarrow> log_ok (events d')" by simp
  show "scope_ref e = k_default_scope k" using i(1) by (auto simp: emit_event_def Let_def split: if_splits)
  show "k_default_scope k' = k_default_scope k" by (simp add: k')
qed

text \<open>Every call is one construction followed by one transaction.\<close>

lemma construct_emit_Inr:
  assumes "construct_emit v built subj pol k d = (k', Inr (e, d'))"
  obtains p where "built = Inr p" "payload_valid p" "emit_reduce v p subj pol k d = (k', Inr (e, d'))"
  using assms by (auto simp: construct_emit_def validated_def split: sum.splits if_splits)

lemmas call_defs = create_plan_def set_plan_lifecycle_def derive_work_def retire_work_def
  declare_dependency_def record_result_def record_observation_def record_claim_def assert_link_def

lemma write_call_construct: "\<exists>built subj pol. write_call v c k d = construct_emit v built subj pol k d"
  by (cases c; simp only: write_call.simps call_defs; intro exI; rule refl)

lemma write_call_Inr:
  assumes "write_call v c k d = (k', Inr (e, d'))"
  shows "record_event (e_uc v) (e_at v) e d = Inr d'" "well_kinded e" "\<exists>p. payload e = Some p \<and> payload_valid p"
    "log_ok (events d) \<Longrightarrow> log_ok (events d')" "scope_ref e = k_default_scope k"
    "event_verify (sha256 (e_cr v)) e" "k_default_scope k' = k_default_scope k"
proof -
  obtain p built subj pol where p: "payload_valid p" "emit_reduce v p subj pol k d = (k', Inr (e, d'))"
    using write_call_construct [of v c k d] assms construct_emit_Inr by metis
  note r = emit_reduce_Inr [OF p(2)]
  show "record_event (e_uc v) (e_at v) e d = Inr d'" "well_kinded e"
    "log_ok (events d) \<Longrightarrow> log_ok (events d')" "scope_ref e = k_default_scope k"
    "event_verify (sha256 (e_cr v)) e" "k_default_scope k' = k_default_scope k"
    by (fact r(1), fact r(2), fact r(4), fact r(5), fact r(6), fact r(7))
  show "\<exists>p. payload e = Some p \<and> payload_valid p" using r(3) p(1) by blast
qed

text \<open>A session of calls: a raising call rolls the tables back and keeps the moved clock.\<close>

fun session_step :: "env \<times> write_op \<Rightarrow> kawa \<times> db \<Rightarrow> (kawa \<times> db) result" where
  "session_step (v, c) (k, d) =
     Inr (case write_call v c k d of (k', Inl err) \<Rightarrow> (k', d) | (k', Inr (e, d')) \<Rightarrow> (k', d'))"

definition session_ok :: "kawa \<times> db \<Rightarrow> bool" where
  "session_ok s \<longleftrightarrow> log_ok (events (snd s)) \<and> projected (snd s) \<and> fresh_standing (snd s)"

lemma session_step_ok:
  assumes "session_ok s" "session_step c s = Inr s'"
  shows "session_ok s'"
proof -
  obtain v op k d where s: "c = (v, op)" "s = (k, d)" by (cases c; cases s) blast
  obtain k' r where w: "write_call v op k d = (k', r)" by force
  show ?thesis
  proof (cases r)
    case (Inl err)
    with assms s w show ?thesis by (auto simp: session_ok_def)
  next
    case (Inr ed)
    obtain e d' where ed: "ed = (e, d')" by force
    note c = write_call_Inr [OF w [unfolded Inr ed]]
    have "s' = (k', d')" using assms(2) by (simp add: s w Inr ed)
    moreover have "projected d'" using assms(1) record_event_projected [OF _ c(2,1)] by (simp add: session_ok_def s)
    moreover have "fresh_standing d'" using assms(1) record_event_standing [OF _ c(1)] by (simp add: session_ok_def s)
    moreover have "log_ok (events d')" using assms(1) c(4) by (simp add: session_ok_def s)
    ultimately show ?thesis by (simp add: session_ok_def)
  qed
qed

interpretation session: guarded_ops session_step session_ok
  by unfold_locales (rule session_step_ok)

lemma session_ok_start: "session_ok (k, empty_db)"
  by (simp add: session_ok_def projected_empty fresh_standing_def log_ok_def)
    (simp add: empty_db_def claim_ids_def)

lemma session_history: "session_ok (exec_ops session_step cs (k, empty_db))"
  by (rule session.exec_inv) (rule session_ok_start)

text \<open>A refused domain writes nothing.\<close>

lemma unknown_domain_refused:
  assumes "t \<notin> e_domains v"
  shows "create_plan v a b c f g h i (Some t) k d = (k, Inl (ValueError ''unknown domain token''))"
    "derive_work v a b c f g m h i (Some t) k d = (k, Inl (ValueError ''unknown domain token''))"
  using assms by (simp_all add: create_plan_def derive_work_def construct_emit_def validate_domain_def)

end
