(* ===== verification/Model_Search.thy ===== *)
theory Model_Search
  imports Prelude
begin

text \<open>
  The breadth-first search that every check of \<^verbatim>\<open>formal/check_authority.py\<close> runs: a queue
  \<open>frontier\<close>, a set \<open>seen\<close>, and a visit of each state that may end the search
  (\<^verbatim>\<open>return\<close> of the state), remember it and not expand it (\<^verbatim>\<open>continue\<close> after
  \<^verbatim>\<open>witness = witness or state\<close>), or expand it.  The loop is \<open>while frontier\<close>, so whether it
  ends is a claim: the search is a partial function into \<open>option\<close>, and \<open>None\<close> is a search that
  runs forever.

  Shown, in the locale \<open>search_space\<close> (the successors stay in a finite set): the search ends; it
  reports a state exactly when a reachable state asks for it; what it reports is reachable; and
  when it reports nothing it has visited each reachable state once.
\<close>

section \<open>The search\<close>

datatype visit_outcome = Go | Note | Stop

fun push_new :: "'s list \<Rightarrow> 's list \<Rightarrow> 's list \<Rightarrow> 's list \<times> 's list" where
  "push_new seen frontier [] = (seen, frontier)"
| "push_new seen frontier (s # ns) =
     (if s \<in> set seen then push_new seen frontier ns
      else push_new (s # seen) (frontier @ [s]) ns)"

partial_function (option) search ::
    "('s \<Rightarrow> visit_outcome) \<Rightarrow> ('s \<Rightarrow> 's list) \<Rightarrow> nat \<Rightarrow> 's option \<Rightarrow> 's list \<Rightarrow> 's list \<Rightarrow>
     (nat \<times> 's option) option" where
  "search visit succs explored witness seen frontier =
     (case frontier of
        [] \<Rightarrow> Some (explored, witness)
      | s # rest \<Rightarrow>
          (case visit s of
             Stop \<Rightarrow> Some (Suc explored, Some s)
           | Note \<Rightarrow> search visit succs (Suc explored)
                       (case witness of None \<Rightarrow> Some s | Some w \<Rightarrow> Some w) seen rest
           | Go \<Rightarrow> (case push_new seen rest (succs s) of
                      (seen', frontier') \<Rightarrow>
                        search visit succs (Suc explored) witness seen' frontier')))"

lemma search_code [code]:
  "search visit succs explored witness seen [] = Some (explored, witness)"
  "search visit succs explored witness seen (s # rest) =
     (case visit s of
        Stop \<Rightarrow> Some (Suc explored, Some s)
      | Note \<Rightarrow> search visit succs (Suc explored)
                  (case witness of None \<Rightarrow> Some s | Some w \<Rightarrow> Some w) seen rest
      | Go \<Rightarrow> (case push_new seen rest (succs s) of
                 (seen', frontier') \<Rightarrow>
                   search visit succs (Suc explored) witness seen' frontier'))"
  by (subst search.simps, simp)+

definition explore :: "('s \<Rightarrow> visit_outcome) \<Rightarrow> ('s \<Rightarrow> 's list) \<Rightarrow> 's \<Rightarrow> (nat \<times> 's option) option" where
  "explore visit succs start = search visit succs 0 None [start] [start]"

lemma push_new_facts:
  assumes "push_new seen frontier ns = (seen', frontier')"
  shows push_new_seen: "set seen' = set seen \<union> set ns"
    and push_new_frontier: "\<exists>new. frontier' = frontier @ new \<and> set new = set ns - set seen
           \<and> distinct new"
proof -
  show "set seen' = set seen \<union> set ns"
    using assms by (induction seen frontier ns rule: push_new.induct) (auto split: if_splits)
  show "\<exists>new. frontier' = frontier @ new \<and> set new = set ns - set seen \<and> distinct new"
    using assms
  proof (induction seen frontier ns rule: push_new.induct)
    case (2 seen frontier s ns)
    show ?case
    proof (cases "s \<in> set seen")
      case True
      with 2 show ?thesis by auto
    next
      case False
      with 2 obtain new where "frontier' = (frontier @ [s]) @ new"
        "set new = set ns - set (s # seen)" "distinct new" by auto
      with False show ?thesis by (intro exI [of _ "s # new"]) auto
    qed
  qed auto
qed

section \<open>Reachable states\<close>

inductive reaches :: "('s \<Rightarrow> visit_outcome) \<Rightarrow> ('s \<Rightarrow> 's list) \<Rightarrow> 's \<Rightarrow> 's \<Rightarrow> bool"
  for visit succs start where
  start: "reaches visit succs start start"
| step: "reaches visit succs start s \<Longrightarrow> visit s = Go \<Longrightarrow> t \<in> set (succs s)
         \<Longrightarrow> reaches visit succs start t"

text \<open>A path whose every state but the last is expanded leads to a reachable state.\<close>

fun expanded_path :: "('s \<Rightarrow> visit_outcome) \<Rightarrow> ('s \<Rightarrow> 's list) \<Rightarrow> 's \<Rightarrow> 's list \<Rightarrow> bool" where
  "expanded_path visit succs s [] \<longleftrightarrow> True"
| "expanded_path visit succs s (t # ts) \<longleftrightarrow> visit s = Go \<and> t \<in> set (succs s) \<and> expanded_path visit succs t ts"

lemma path_reaches:
  assumes "expanded_path visit succs s ts" and "reaches visit succs start s"
  shows "reaches visit succs start (last (s # ts))"
  using assms
proof (induction ts arbitrary: s)
  case (Cons t ts)
  then have "reaches visit succs start t" by (auto intro: reaches.step)
  with Cons show ?case by auto
qed simp

section \<open>What the search computes\<close>

locale search_space =
  fixes visit :: "'s \<Rightarrow> visit_outcome" and succs :: "'s \<Rightarrow> 's list" and start :: 's and universe :: "'s set"
  assumes finite_universe: "finite universe"
    and start_in: "start \<in> universe"
    and succs_in: "\<And>s t. s \<in> universe \<Longrightarrow> t \<in> set (succs s) \<Longrightarrow> t \<in> universe"
begin

abbreviation reached :: "'s \<Rightarrow> bool" where
  "reached \<equiv> reaches visit succs start"

lemma reached_in: "reached s \<Longrightarrow> s \<in> universe"
  by (induction rule: reaches.induct) (auto intro: start_in succs_in)

lemma finite_reached: "finite {s. reached s}"
  by (rule finite_subset [OF _ finite_universe]) (auto intro: reached_in)

definition visited_ok :: "'s option \<Rightarrow> 's list \<Rightarrow> 's \<Rightarrow> bool" where
  "visited_ok witness seen x \<longleftrightarrow> visit x \<noteq> Stop \<and> (visit x = Note \<longrightarrow> witness \<noteq> None) \<and>
     (visit x = Go \<longrightarrow> set (succs x) \<subseteq> set seen)"

lemma visited_ok_mono:
  assumes "visited_ok witness seen x" and "set seen \<subseteq> set seen'"
    and "witness \<noteq> None \<Longrightarrow> witness' \<noteq> None"
  shows "visited_ok witness' seen' x"
  using assms unfolding visited_ok_def by blast

definition search_inv :: "nat \<Rightarrow> 's option \<Rightarrow> 's list \<Rightarrow> 's list \<Rightarrow> bool" where
  "search_inv explored witness seen frontier \<longleftrightarrow>
     start \<in> set seen \<and> (\<forall>s\<in>set seen. reached s) \<and> set frontier \<subseteq> set seen \<and> distinct frontier \<and>
     (\<forall>s\<in>set seen - set frontier. visited_ok witness seen s) \<and>
     (\<forall>w. witness = Some w \<longrightarrow> w \<in> set seen \<and> visit w = Note) \<and>
     explored = card (set seen - set frontier)"

lemma search_invI:
  assumes "start \<in> set seen" and "\<And>x. x \<in> set seen \<Longrightarrow> reached x"
    and "set frontier \<subseteq> set seen" and "distinct frontier"
    and "\<And>x. x \<in> set seen - set frontier \<Longrightarrow> visited_ok witness seen x"
    and "\<And>w. witness = Some w \<Longrightarrow> w \<in> set seen \<and> visit w = Note"
    and "explored = card (set seen - set frontier)"
  shows "search_inv explored witness seen frontier"
  unfolding search_inv_def using assms by blast

lemma search_invD:
  assumes "search_inv explored witness seen frontier"
  shows "start \<in> set seen" and "\<And>x. x \<in> set seen \<Longrightarrow> reached x"
    and "set frontier \<subseteq> set seen" and "distinct frontier"
    and "\<And>x. x \<in> set seen - set frontier \<Longrightarrow> visited_ok witness seen x"
    and "\<And>w. witness = Some w \<Longrightarrow> w \<in> set seen \<and> visit w = Note"
    and "explored = card (set seen - set frontier)"
  using assms unfolding search_inv_def by blast+

lemma search_inv_start: "search_inv 0 None [start] [start]"
  by (rule search_invI) (auto intro: reaches.start)

lemma search_inv_go:
  assumes inv: "search_inv explored witness seen (s # rest)" and go: "visit s = Go"
    and push: "push_new seen rest (succs s) = (seen', frontier')"
  shows "search_inv (Suc explored) witness seen' frontier'"
    and "set seen' - set frontier' = insert s (set seen - set (s # rest))"
proof -
  from push_new_frontier [OF push] obtain new where new: "frontier' = rest @ new"
    "set new = set (succs s) - set seen" "distinct new" by blast
  note seen' = push_new_seen [OF push]
  note old = search_invD [OF inv]
  from old(3,4) have basic: "s \<in> set seen" "s \<notin> set rest" "distinct rest" "set rest \<subseteq> set seen"
    by auto
  show diff: "set seen' - set frontier' = insert s (set seen - set (s # rest))"
    using seen' new basic by auto
  show "search_inv (Suc explored) witness seen' frontier'"
  proof (rule search_invI)
    show "reached x" if "x \<in> set seen'" for x
      using that seen' old(2) reaches.step [OF old(2) [OF basic(1)] go] by auto
    show "visited_ok witness seen' x" if x: "x \<in> set seen' - set frontier'" for x
    proof (cases "x = s")
      case True
      with go seen' show ?thesis by (simp add: visited_ok_def)
    next
      case False
      with x diff have "x \<in> set seen - set (s # rest)" by blast
      from old(5) [OF this] show ?thesis by (rule visited_ok_mono) (simp_all add: seen')
    qed
    show "Suc explored = card (set seen' - set frontier')"
      unfolding diff old(7) by (rule card_insert_disjoint [symmetric]) auto
  qed (use seen' new basic old(1,6) in auto)
qed

lemma search_inv_note:
  assumes inv: "search_inv explored witness seen (s # rest)" and note_s: "visit s = Note"
  shows "search_inv (Suc explored) (case witness of None \<Rightarrow> Some s | Some w \<Rightarrow> Some w) seen rest"
    and "set seen - set rest = insert s (set seen - set (s # rest))"
proof -
  note old = search_invD [OF inv]
  from old(3,4) have basic: "s \<in> set seen" "s \<notin> set rest" "distinct rest" "set rest \<subseteq> set seen"
    by auto
  show diff: "set seen - set rest = insert s (set seen - set (s # rest))" using basic by auto
  show "search_inv (Suc explored) (case witness of None \<Rightarrow> Some s | Some w \<Rightarrow> Some w) seen rest"
  proof (rule search_invI)
    show "visited_ok (case witness of None \<Rightarrow> Some s | Some w \<Rightarrow> Some w) seen x"
      if "x \<in> set seen - set rest" for x
    proof (cases "x = s")
      case True
      with note_s show ?thesis by (auto simp: visited_ok_def split: option.split)
    next
      case False
      with that diff have "x \<in> set seen - set (s # rest)" by blast
      from old(5) [OF this] show ?thesis
        by (rule visited_ok_mono) (auto split: option.split)
    qed
    show "Suc explored = card (set seen - set rest)"
      unfolding diff old(7) by (rule card_insert_disjoint [symmetric]) auto
    show "w \<in> set seen \<and> visit w = Note"
      if "(case witness of None \<Rightarrow> Some s | Some w \<Rightarrow> Some w) = Some w" for w
      using that old(6) basic note_s by (auto split: option.splits)
  qed (use basic old(1,2) in auto)
qed

text \<open>The states not yet visited are the measure of the loop.\<close>

definition remaining :: "'s list \<Rightarrow> 's list \<Rightarrow> nat" where
  "remaining seen frontier = card ({s. reached s} - (set seen - set frontier))"

lemma remaining_decreases:
  assumes "search_inv explored witness seen (s # rest)"
    and "set seen' - set frontier' = insert s (set seen - set (s # rest))"
  shows "remaining seen' frontier' < remaining seen (s # rest)"
proof -
  have "{x. reached x} - insert s (set seen - set (s # rest)) \<subset>
        {x. reached x} - (set seen - set (s # rest))"
    using search_invD(2,3) [OF assms(1)] by auto
  then show ?thesis unfolding remaining_def assms(2)
    by (intro psubset_card_mono) (auto simp: finite_reached)
qed

definition outcome_ok :: "nat \<times> 's option \<Rightarrow> bool" where
  "outcome_ok r \<longleftrightarrow>
     (case r of
        (n, None) \<Rightarrow> (\<forall>s. reached s \<longrightarrow> visit s = Go) \<and> n = card {s. reached s}
      | (n, Some s) \<Rightarrow> reached s \<and> visit s \<noteq> Go \<and>
          (visit s = Note \<longrightarrow> (\<forall>t. reached t \<longrightarrow> visit t \<noteq> Stop)))"

lemma search_inv_finished:
  assumes inv: "search_inv explored witness seen []"
  shows "outcome_ok (explored, witness)"
proof -
  have all: "x \<in> set seen" if "reached x" for x
    using that
  proof (induction rule: reaches.induct)
    case start
    show ?case by (rule search_invD(1) [OF inv])
  next
    case (step s t)
    with search_invD(5) [OF inv, of s] show ?case by (auto simp: visited_ok_def)
  qed
  with search_invD(2) [OF inv] have eq: "set seen = {s. reached s}" by auto
  show ?thesis
  proof (cases witness)
    case None
    then have "visited_ok None seen x" if "x \<in> set seen" for x
      using search_invD(5) [OF inv] that by simp
    then have "visit x = Go" if "x \<in> set seen" for x
      using that visit_outcome.exhaust unfolding visited_ok_def by metis
    with None all search_invD(7) [OF inv] show ?thesis
      by (simp add: outcome_ok_def eq)
  next
    case (Some w)
    have "visit x \<noteq> Stop" if "x \<in> set seen" for x
      using search_invD(5) [OF inv] that by (simp add: visited_ok_def)
    with Some all search_invD(2,6) [OF inv] show ?thesis by (auto simp: outcome_ok_def)
  qed
qed

lemma search_total:
  assumes "search_inv explored witness seen frontier"
  shows "\<exists>r. search visit succs explored witness seen frontier = Some r \<and> outcome_ok r"
  using assms
proof (induction "remaining seen frontier" arbitrary: explored witness seen frontier
    rule: less_induct)
  case less
  show ?case
  proof (cases frontier)
    case Nil
    with less.prems search_inv_finished show ?thesis by (auto simp: search.simps)
  next
    case (Cons s rest)
    note inv = less.prems [unfolded Cons]
    show ?thesis
    proof (cases "visit s")
      case Go
      obtain seen' frontier' where push: "push_new seen rest (succs s) = (seen', frontier')"
        by fastforce
      note next_inv = search_inv_go [OF inv Go push]
      have "remaining seen' frontier' < remaining seen frontier"
        unfolding Cons by (rule remaining_decreases [OF inv next_inv(2)])
      from less.hyps [OF this next_inv(1)] show ?thesis
        by (subst search.simps) (simp add: Cons Go push)
    next
      case Note
      note next_inv = search_inv_note [OF inv Note]
      have "remaining seen rest < remaining seen frontier"
        unfolding Cons by (rule remaining_decreases [OF inv next_inv(2)])
      from less.hyps [OF this next_inv(1)] show ?thesis
        by (subst search.simps) (simp add: Cons Note)
    next
      case Stop
      moreover have "reached s" using search_invD(2,3) [OF inv] by simp
      ultimately show ?thesis
        by (subst search.simps) (simp add: Cons outcome_ok_def)
    qed
  qed
qed

lemma explore_total: "\<exists>r. explore visit succs start = Some r \<and> outcome_ok r"
  unfolding explore_def by (rule search_total [OF search_inv_start])

lemma explore_decides:
  "\<exists>n r. explore visit succs start = Some (n, r)
     \<and> (r = None \<longleftrightarrow> (\<forall>s. reached s \<longrightarrow> visit s = Go))"
proof -
  obtain n r where e: "explore visit succs start = Some (n, r)" and ok: "outcome_ok (n, r)"
    using explore_total by (metis surj_pair)
  from ok have "r = None \<longleftrightarrow> (\<forall>s. reached s \<longrightarrow> visit s = Go)"
    by (cases r) (auto simp: outcome_ok_def)
  with e show ?thesis by blast
qed

lemma explore_safe:
  assumes "\<And>s. reached s \<Longrightarrow> visit s = Go"
  shows "explore visit succs start = Some (card {s. reached s}, None)"
proof -
  obtain n r where e: "explore visit succs start = Some (n, r)" and ok: "outcome_ok (n, r)"
    using explore_total by (metis surj_pair)
  from ok assms show ?thesis unfolding e by (cases r) (auto simp: outcome_ok_def)
qed

lemma explore_unsafe:
  assumes "reached s" and "visit s \<noteq> Go"
  shows "\<exists>n t. explore visit succs start = Some (n, Some t) \<and> reached t \<and> visit t \<noteq> Go"
proof -
  obtain n r where e: "explore visit succs start = Some (n, r)" and ok: "outcome_ok (n, r)"
    using explore_total by (metis surj_pair)
  from ok assms e show ?thesis by (cases r) (auto simp: outcome_ok_def)
qed

lemma explore_stops:
  assumes "reached s" and "visit s = Stop"
  shows "\<exists>n t. explore visit succs start = Some (n, Some t) \<and> reached t \<and> visit t = Stop"
proof -
  obtain n r where e: "explore visit succs start = Some (n, r)" and ok: "outcome_ok (n, r)"
    using explore_total by (metis surj_pair)
  from ok assms e show ?thesis
    by (cases r) (auto simp: outcome_ok_def, (metis visit_outcome.exhaust)+)
qed

end

end
