(* ===== verification/Authority_Model.thy ===== *)
theory Authority_Model
  imports Model_Search
begin

text \<open>
  \<^verbatim>\<open>formal/check_authority.py\<close>, the abstract machine of the authority contract and its exhaustive
  check: the pool of configurations, the actions (reconfigure, accept, distrust) as
  \<open>model_successors\<close>, the violations of S1 and S2, and \<open>check\<close>, the breadth-first search of
  \<^verbatim>\<open>Model_Search\<close> over them.  A frozenset is a set; where the code iterates over one, the model
  takes its elements in the order of the pool (which state the search reports first is the only
  thing that depends on that order).

  Shown: the actions are those of the step relation \<open>contract_step\<close> (the \<^verbatim>\<open>Next\<close> of
  \<^verbatim>\<open>AuthorityContract.tla\<close>); with both rules on no reachable state violates the contract; with
  one rule off every violation is of the kind that rule is there to exclude; \<open>check\<close> ends and
  its verdict is the truth about the reachable states.
\<close>

section \<open>The instance\<close>

datatype config = C0 | C1 | C2

datatype basis = GENESIS | RECOVERY | Parent config

datatype operation = OpA | OpB

record config_entry =
  ce_members :: "nat set"
  ce_parent :: basis

definition NODES :: "nat list" where
  "NODES = [0, 1, 2, 3]"

definition Q :: nat where
  "Q = 3"

definition OPS :: "operation list" where
  "OPS = [OpA, OpB]"

definition CONFIGS :: "(config \<times> config_entry) list" where
  "CONFIGS =
     [(C0, \<lparr>ce_members = {0, 1, 2, 3}, ce_parent = GENESIS\<rparr>),
      (C1, \<lparr>ce_members = {0, 1, 2}, ce_parent = Parent C0\<rparr>),
      (C2, \<lparr>ce_members = {1, 2, 3}, ce_parent = Parent C0\<rparr>)]"

definition config_entry_of :: "config \<Rightarrow> config_entry" where
  "config_entry_of c = the (map_of CONFIGS c)"

lemma config_entry_of_simps [simp]:
  "config_entry_of C0 = \<lparr>ce_members = {0, 1, 2, 3}, ce_parent = GENESIS\<rparr>"
  "config_entry_of C1 = \<lparr>ce_members = {0, 1, 2}, ce_parent = Parent C0\<rparr>"
  "config_entry_of C2 = \<lparr>ce_members = {1, 2, 3}, ce_parent = Parent C0\<rparr>"
  by (simp_all add: config_entry_of_def CONFIGS_def)

lemma UNIV_config: "(UNIV :: config set) = {C0, C1, C2}"
  by (auto intro: config.exhaust)

lemma UNIV_operation: "(UNIV :: operation set) = {OpA, OpB}"
  by (auto intro: operation.exhaust)

instance config :: finite
  by standard (simp add: UNIV_config)

instance operation :: finite
  by standard (simp add: UNIV_operation)

definition quorum_of :: "nat set \<Rightarrow> nat set \<Rightarrow> bool" where
  "quorum_of members distrusted \<longleftrightarrow> Q \<le> card (members - distrusted)"

definition overlap_is_quorum :: "nat set \<Rightarrow> nat set \<Rightarrow> bool" where
  "overlap_is_quorum a b \<longleftrightarrow> Q \<le> card (a \<inter> b)"

section \<open>The machine\<close>

text \<open>The state: legitimate and superseded configurations, accepted operations, distrusted nodes.\<close>

type_synonym contract_state =
  "config set \<times> config set \<times> (config \<times> operation) set \<times> nat set"

definition initial :: contract_state where
  "initial = ({C0}, {}, {}, {})"

definition reconfigure_steps :: "bool \<Rightarrow> contract_state \<Rightarrow> contract_state list" where
  "reconfigure_steps enforce_succession st =
     (case st of (legit, superseded, accepted, distrusted) \<Rightarrow>
        concat (map (\<lambda>(cid, c).
          if cid \<in> legit then []
          else (case ce_parent c of
              GENESIS \<Rightarrow> []
            | RECOVERY \<Rightarrow> []
            | Parent parent \<Rightarrow>
                if parent \<notin> legit then []
                else if enforce_succession \<and> parent \<in> superseded then []
                else if \<not> (quorum_of (ce_members (config_entry_of parent)) distrusted \<and>
                          overlap_is_quorum (ce_members (config_entry_of parent)) (ce_members c))
                then []
                else [(insert cid legit, insert parent superseded, accepted, distrusted)]))
          CONFIGS))"

definition accept_steps :: "bool \<Rightarrow> contract_state \<Rightarrow> contract_state list" where
  "accept_steps enforce_nonequiv st =
     (case st of (legit, superseded, accepted, distrusted) \<Rightarrow>
        concat (map (\<lambda>cid.
          if cid \<notin> legit \<or> cid \<in> superseded then []
          else if \<not> quorum_of (ce_members (config_entry_of cid)) distrusted then []
          else concat (map (\<lambda>op.
            if (cid, op) \<in> accepted then []
            else if enforce_nonequiv \<and> (\<exists>p\<in>accepted. fst p = cid) then []
            else [(legit, superseded, insert (cid, op) accepted, distrusted)]) OPS))
          (map fst CONFIGS)))"

definition distrust_steps :: "contract_state \<Rightarrow> contract_state list" where
  "distrust_steps st =
     (case st of (legit, superseded, accepted, distrusted) \<Rightarrow>
        map (\<lambda>n. (legit, superseded, accepted, insert n distrusted))
          (filter (\<lambda>n. n \<notin> distrusted) NODES))"

definition model_successors :: "bool \<Rightarrow> bool \<Rightarrow> contract_state \<Rightarrow> contract_state list" where
  "model_successors enforce_succession enforce_nonequiv st =
     reconfigure_steps enforce_succession st @ accept_steps enforce_nonequiv st @
     distrust_steps st"

section \<open>Violations\<close>

text \<open>The walk up the parents of a configuration; the pool's parents are acyclic.\<close>

function ancestors :: "config \<Rightarrow> config set" where
  "ancestors cur =
     (case ce_parent (config_entry_of cur) of
        Parent p \<Rightarrow> insert p (ancestors p)
      | _ \<Rightarrow> {})"
  by pat_completeness auto

termination
proof (relation "measure (\<lambda>c. if c = C0 then 0 else 1)")
  fix cur p
  assume "ce_parent (config_entry_of cur) = Parent p"
  then show "(p, cur) \<in> measure (\<lambda>c. if c = C0 then 0 else 1)"
    by (cases cur) auto
qed simp

declare ancestors.simps [simp del]

lemma ancestors_pool [simp]:
  "ancestors C0 = {}" "ancestors C1 = {C0}" "ancestors C2 = {C0}"
  by (simp_all add: ancestors.simps [of C0] ancestors.simps [of C1] ancestors.simps [of C2])

definition comparable :: "config \<Rightarrow> config \<Rightarrow> bool" where
  "comparable c1 c2 \<longleftrightarrow> c1 = c2 \<or> c1 \<in> ancestors c2 \<or> c2 \<in> ancestors c1"

datatype violation =
    S2 config operation
  | S1_equivocation "config \<times> operation" "config \<times> operation"
  | S1_splitbrain "config \<times> operation" "config \<times> operation"

fun combinations2 :: "'a list \<Rightarrow> ('a \<times> 'a) list" where
  "combinations2 [] = []"
| "combinations2 (x # xs) = map (Pair x) xs @ combinations2 xs"

definition sorted_accepted :: "(config \<times> operation) set \<Rightarrow> (config \<times> operation) list" where
  "sorted_accepted accepted =
     filter (\<lambda>p. p \<in> accepted) (List.product (map fst CONFIGS) OPS)"

definition violations :: "contract_state \<Rightarrow> violation list" where
  "violations st =
     (case st of (legit, superseded, accepted, distrusted) \<Rightarrow>
        map (\<lambda>(cid, op). S2 cid op) (filter (\<lambda>(cid, op). cid \<notin> legit) (sorted_accepted accepted)) @
        concat (map (\<lambda>(p1, p2).
          if snd p1 \<noteq> snd p2 \<and> fst p1 = fst p2 then [S1_equivocation p1 p2]
          else if snd p1 \<noteq> snd p2 \<and> \<not> comparable (fst p1) (fst p2) then [S1_splitbrain p1 p2]
          else [])
          (combinations2 (sorted_accepted accepted))))"

definition check :: "bool \<Rightarrow> bool \<Rightarrow> (nat \<times> (contract_state \<times> violation list) option) option" where
  "check enforce_succession enforce_nonequiv =
     (case explore (\<lambda>s. if violations s = [] then Go else Stop)
             (model_successors enforce_succession enforce_nonequiv) initial of
        None \<Rightarrow> None
      | Some (explored, found) \<Rightarrow> Some (explored, map_option (\<lambda>s. (s, violations s)) found))"

section \<open>The step relation\<close>

inductive contract_step :: "bool \<Rightarrow> bool \<Rightarrow> contract_state \<Rightarrow> contract_state \<Rightarrow> bool"
  for enforce_succession enforce_nonequiv where
  reconfigure: "\<lbrakk> c \<notin> legit; ce_parent (config_entry_of c) = Parent parent; parent \<in> legit;
      enforce_succession \<Longrightarrow> parent \<notin> superseded;
      quorum_of (ce_members (config_entry_of parent)) distrusted;
      overlap_is_quorum (ce_members (config_entry_of parent)) (ce_members (config_entry_of c)) \<rbrakk>
    \<Longrightarrow> contract_step enforce_succession enforce_nonequiv
          (legit, superseded, accepted, distrusted)
          (insert c legit, insert parent superseded, accepted, distrusted)"
| accept: "\<lbrakk> c \<in> legit; c \<notin> superseded; quorum_of (ce_members (config_entry_of c)) distrusted;
      (c, op) \<notin> accepted; enforce_nonequiv \<Longrightarrow> \<forall>p\<in>accepted. fst p \<noteq> c \<rbrakk>
    \<Longrightarrow> contract_step enforce_succession enforce_nonequiv
          (legit, superseded, accepted, distrusted)
          (legit, superseded, insert (c, op) accepted, distrusted)"
| distrust: "\<lbrakk> n \<in> set NODES; n \<notin> distrusted \<rbrakk>
    \<Longrightarrow> contract_step enforce_succession enforce_nonequiv
          (legit, superseded, accepted, distrusted)
          (legit, superseded, accepted, insert n distrusted)"

inductive_cases contract_stepE:
  "contract_step es en (legit, superseded, accepted, distrusted) t"

lemma set_CONFIGS: "(cid, e) \<in> set CONFIGS \<longleftrightarrow> e = config_entry_of cid"
  by (cases cid) (auto simp: CONFIGS_def)

lemma set_config_names: "set (map fst CONFIGS) = UNIV"
  by (simp add: UNIV_config CONFIGS_def)

lemma in_concat_map: "t \<in> set (concat (map f xs)) \<longleftrightarrow> (\<exists>x\<in>set xs. t \<in> set (f x))"
  by simp

lemma set_OPS [simp]: "set OPS = UNIV"
  by (simp add: OPS_def UNIV_operation)

lemma set_reconfigure_steps:
  "t \<in> set (reconfigure_steps es (legit, superseded, accepted, distrusted)) \<longleftrightarrow>
     (\<exists>c parent. t = (insert c legit, insert parent superseded, accepted, distrusted) \<and> c \<notin> legit
        \<and> ce_parent (config_entry_of c) = Parent parent \<and> parent \<in> legit
        \<and> (es \<longrightarrow> parent \<notin> superseded)
        \<and> quorum_of (ce_members (config_entry_of parent)) distrusted
        \<and> overlap_is_quorum (ce_members (config_entry_of parent))
             (ce_members (config_entry_of c)))"
  unfolding reconfigure_steps_def
  by (fastforce simp: set_CONFIGS split: if_splits basis.splits)

lemma set_accept_steps:
  "t \<in> set (accept_steps en (legit, superseded, accepted, distrusted)) \<longleftrightarrow>
     (\<exists>c op. t = (legit, superseded, insert (c, op) accepted, distrusted) \<and> c \<in> legit
        \<and> c \<notin> superseded \<and> quorum_of (ce_members (config_entry_of c)) distrusted
        \<and> (c, op) \<notin> accepted \<and> (en \<longrightarrow> (\<forall>p\<in>accepted. fst p \<noteq> c)))"
  unfolding accept_steps_def prod.case in_concat_map set_config_names set_OPS
  by (auto split: if_splits)

lemma set_distrust_steps:
  "t \<in> set (distrust_steps (legit, superseded, accepted, distrusted)) \<longleftrightarrow>
     (\<exists>n. t = (legit, superseded, accepted, insert n distrusted) \<and> n \<in> set NODES
        \<and> n \<notin> distrusted)"
  unfolding distrust_steps_def by auto

lemma successors_step: "t \<in> set (model_successors es en s) \<longleftrightarrow> contract_step es en s t"
proof -
  obtain legit superseded accepted distrusted
    where s: "s = (legit, superseded, accepted, distrusted)" by (metis prod_cases4)
  show ?thesis
    unfolding s model_successors_def set_append Un_iff
      set_reconfigure_steps set_accept_steps set_distrust_steps
    by (auto intro: contract_step.intros elim!: contract_stepE)
qed


section \<open>What the machine keeps\<close>

text \<open>
  Whatever rules are on: authority starts at the genesis configuration and only it is ever
  superseded, a successor exists only once it is, and every accepted operation sits under a
  legitimate configuration.
\<close>

definition contract_inv :: "contract_state \<Rightarrow> bool" where
  "contract_inv st \<longleftrightarrow>
     (case st of (legit, superseded, accepted, distrusted) \<Rightarrow>
        C0 \<in> legit \<and> superseded \<subseteq> {C0} \<and> (C1 \<in> legit \<or> C2 \<in> legit \<longrightarrow> C0 \<in> superseded) \<and>
        fst ` accepted \<subseteq> legit \<and> distrusted \<subseteq> set NODES)"

definition one_successor :: "contract_state \<Rightarrow> bool" where
  "one_successor st \<longleftrightarrow> \<not> (C1 \<in> fst st \<and> C2 \<in> fst st)"

definition no_equivocation :: "contract_state \<Rightarrow> bool" where
  "no_equivocation st \<longleftrightarrow> inj_on fst (fst (snd (snd st)))"

lemma parent_is_genesis: "ce_parent (config_entry_of c) = Parent p \<longleftrightarrow> p = C0 \<and> c \<noteq> C0"
  by (cases c) auto

lemma contract_inv_step:
  assumes "contract_step es en s t" and "contract_inv s"
  shows "contract_inv t"
  using assms by (induction rule: contract_step.induct)
    (auto simp: contract_inv_def parent_is_genesis)

lemma one_successor_step:
  assumes "contract_step True en s t" and "contract_inv s" and "one_successor s"
  shows "one_successor t"
  using assms by (induction rule: contract_step.induct)
    (auto simp: contract_inv_def one_successor_def parent_is_genesis)

lemma no_equivocation_step:
  assumes "contract_step es True s t" and "no_equivocation s"
  shows "no_equivocation t"
  using assms by (induction rule: contract_step.induct) (auto simp: no_equivocation_def)

abbreviation visit_contract :: "contract_state \<Rightarrow> visit_outcome" where
  "visit_contract s \<equiv> if violations s = [] then Go else Stop"

abbreviation contract_reaches :: "bool \<Rightarrow> bool \<Rightarrow> contract_state \<Rightarrow> bool" where
  "contract_reaches es en \<equiv> reaches visit_contract (model_successors es en) initial"

lemma initial_ok [simp]:
  "contract_inv initial" "one_successor initial" "no_equivocation initial"
  by (simp_all add: initial_def contract_inv_def one_successor_def no_equivocation_def)

lemma reaches_inv: "contract_reaches es en s \<Longrightarrow> contract_inv s"
  by (induction rule: reaches.induct) (auto simp: successors_step intro: contract_inv_step)

lemma reaches_one_successor: "contract_reaches True en s \<Longrightarrow> one_successor s"
  by (induction rule: reaches.induct)
    (auto simp: successors_step intro: one_successor_step reaches_inv)

lemma reaches_no_equivocation: "contract_reaches es True s \<Longrightarrow> no_equivocation s"
  by (induction rule: reaches.induct) (auto simp: successors_step intro: no_equivocation_step)

section \<open>What counts as a violation\<close>

lemma set_combinations2:
  "(x, y) \<in> set (combinations2 xs) \<Longrightarrow> x \<in> set xs \<and> y \<in> set xs"
  by (induction xs) auto

lemma combinations2_all:
  assumes "x \<in> set xs" and "y \<in> set xs" and "x \<noteq> y"
  shows "(x, y) \<in> set (combinations2 xs) \<or> (y, x) \<in> set (combinations2 xs)"
  using assms by (induction xs) auto

lemma set_sorted_accepted [simp]: "set (sorted_accepted accepted) = accepted"
  by (auto simp: sorted_accepted_def set_config_names [simplified])

lemma concat_map_Nil: "concat (map f xs) = [] \<Longrightarrow> x \<in> set xs \<Longrightarrow> f x = []"
  by simp

lemma comparable_pool: "comparable a b \<longleftrightarrow> \<not> (a = C1 \<and> b = C2) \<and> \<not> (a = C2 \<and> b = C1)"
  by (cases a; cases b) (simp_all add: comparable_def)

lemma comparable_sym: "comparable a b \<longleftrightarrow> comparable b a"
  by (auto simp: comparable_def)

text \<open>The two invariants of the specification, over the accepted pairs.\<close>

definition authority_only_under_legit :: "contract_state \<Rightarrow> bool" where
  "authority_only_under_legit st \<longleftrightarrow>
     (case st of (legit, _, accepted, _) \<Rightarrow> \<forall>p\<in>accepted. fst p \<in> legit)"

definition no_conflicting_authority :: "contract_state \<Rightarrow> bool" where
  "no_conflicting_authority st \<longleftrightarrow>
     (case st of (_, _, accepted, _) \<Rightarrow>
        \<forall>p\<in>accepted. \<forall>q\<in>accepted. snd p \<noteq> snd q \<longrightarrow>
          fst p \<noteq> fst q \<and> comparable (fst p) (fst q))"

lemma violations_empty_iff:
  "violations st = [] \<longleftrightarrow> authority_only_under_legit st \<and> no_conflicting_authority st"
proof -
  obtain legit superseded accepted distrusted
    where st: "st = (legit, superseded, accepted, distrusted)" by (metis prod_cases4)
  have S2: "filter (\<lambda>(cid, op). cid \<notin> legit) (sorted_accepted accepted) = [] \<longleftrightarrow>
      authority_only_under_legit st"
    by (auto simp: st authority_only_under_legit_def filter_empty_conv)
  let ?f = "\<lambda>(p1, p2). if snd p1 \<noteq> snd p2 \<and> fst p1 = fst p2 then [S1_equivocation p1 p2]
          else if snd p1 \<noteq> snd p2 \<and> \<not> comparable (fst p1) (fst p2) then [S1_splitbrain p1 p2]
          else []"
  have S1: "concat (map ?f (combinations2 (sorted_accepted accepted))) = [] \<longleftrightarrow>
      no_conflicting_authority st"
  proof
    assume none: "concat (map ?f (combinations2 (sorted_accepted accepted))) = []"
    have nil: "?f x = []" if "x \<in> set (combinations2 (sorted_accepted accepted))" for x
      by (rule concat_map_Nil [OF none that])
    have "fst p \<noteq> fst q \<and> comparable (fst p) (fst q)"
      if "p \<in> accepted" "q \<in> accepted" "snd p \<noteq> snd q" for p q
    proof -
      from that have "p \<noteq> q" by auto
      with combinations2_all [of p "sorted_accepted accepted" q] that(1,2)
      consider "(p, q) \<in> set (combinations2 (sorted_accepted accepted))"
        | "(q, p) \<in> set (combinations2 (sorted_accepted accepted))" by auto
      then show ?thesis
      proof cases
        case 1
        from nil [OF this] that(3) show ?thesis by (simp split: if_splits)
      next
        case 2
        from nil [OF this] that(3) show ?thesis
          by (auto simp: comparable_sym [of "fst p" "fst q"] split: if_splits)
      qed
    qed
    then show "no_conflicting_authority st"
      unfolding st no_conflicting_authority_def by auto
  next
    assume "no_conflicting_authority st"
    then have "?f (p, q) = []" if "(p, q) \<in> set (combinations2 (sorted_accepted accepted))" for p q
      using set_combinations2 [OF that] by (simp add: st no_conflicting_authority_def) blast
    then show "concat (map ?f (combinations2 (sorted_accepted accepted))) = []"
      unfolding concat_eq_Nil_conv by fastforce
  qed
  show ?thesis using S1 S2 by (simp add: st violations_def)
qed


section \<open>The verdict of the check\<close>

lemma contract_universe: "finite {st. contract_inv st}"
proof (rule finite_subset)
  show "{st. contract_inv st} \<subseteq> UNIV \<times> UNIV \<times> UNIV \<times> Pow (set NODES)"
    by (auto simp: contract_inv_def)
qed (simp add: finite_cartesian_product)

interpretation contract: search_space visit_contract "model_successors es en" initial
    "{st. contract_inv st}" for es en
  by unfold_locales
    (auto simp: contract_universe successors_step intro: contract_inv_step)

text \<open>The two rules together: every reachable state is safe.\<close>

lemma both_rules_safe:
  assumes "contract_reaches True True s"
  shows "violations s = []"
proof -
  obtain legit superseded accepted distrusted
    where s: "s = (legit, superseded, accepted, distrusted)" by (metis prod_cases4)
  note facts = reaches_inv [OF assms] reaches_one_successor [OF assms]
    reaches_no_equivocation [OF assms]
  have "authority_only_under_legit s"
    using facts(1) by (auto simp: s authority_only_under_legit_def contract_inv_def)
  moreover have "fst p \<noteq> fst q \<and> comparable (fst p) (fst q)"
    if "p \<in> accepted" "q \<in> accepted" "snd p \<noteq> snd q" for p q
  proof
    show "fst p \<noteq> fst q"
      using facts(3) that by (auto simp: s no_equivocation_def dest: inj_onD)
    have "fst p \<in> legit" "fst q \<in> legit" using facts(1) that by (auto simp: s contract_inv_def)
    with facts(2) show "comparable (fst p) (fst q)"
      by (auto simp: s one_successor_def comparable_pool)
  qed
  then have "no_conflicting_authority s" by (simp add: s no_conflicting_authority_def)
  ultimately show ?thesis by (simp add: violations_empty_iff)
qed

lemma violation_kind:
  assumes "contract_reaches es en s" and "v \<in> set (violations s)"
  shows "(\<not> es \<and> (\<exists>p q. v = S1_splitbrain p q)) \<or> (\<not> en \<and> (\<exists>p q. v = S1_equivocation p q))"
proof -
  obtain legit superseded accepted distrusted
    where s: "s = (legit, superseded, accepted, distrusted)" by (metis prod_cases4)
  have no_S2: "filter (\<lambda>(cid, op). cid \<notin> legit) (sorted_accepted accepted) = []"
    using reaches_inv [OF assms(1)] by (auto simp: s contract_inv_def filter_empty_conv)
  from assms(2) obtain p q where pq: "p \<in> accepted" "q \<in> accepted" "snd p \<noteq> snd q"
    and kind: "(v = S1_equivocation p q \<and> fst p = fst q) \<or>
      (v = S1_splitbrain p q \<and> \<not> comparable (fst p) (fst q))"
    unfolding s violations_def prod.case no_S2
    by (auto split: if_splits dest!: set_combinations2)
  have "\<not> en" if "fst p = fst q"
    using that pq reaches_no_equivocation [of es s] assms(1)
    by (cases en) (auto simp: s no_equivocation_def dest: inj_onD)
  moreover have "\<not> es" if "\<not> comparable (fst p) (fst q)"
    using that pq reaches_one_successor [of en s] reaches_inv [of es en s] assms(1)
    by (cases es) (auto simp: s one_successor_def contract_inv_def comparable_pool)
  ultimately show ?thesis using kind by blast
qed

lemma check_decides:
  "\<exists>n r. check es en = Some (n, r)
     \<and> (r = None \<longleftrightarrow> (\<forall>s. contract_reaches es en s \<longrightarrow> violations s = []))"
proof -
  obtain n r where e: "explore visit_contract (model_successors es en) initial = Some (n, r)"
    and "r = None \<longleftrightarrow> (\<forall>s. contract_reaches es en s \<longrightarrow> visit_contract s = Go)"
    using contract.explore_decides [of es en] by blast
  then show ?thesis by (auto simp: check_def split: if_splits)
qed

lemma check_both_rules: "\<exists>n. check True True = Some (n, None)"
  using check_decides [of True True] both_rules_safe by auto

lemma check_finds:
  assumes "contract_reaches es en s" and "violations s \<noteq> []"
  shows "\<exists>n t. check es en = Some (n, Some (t, violations t)) \<and> contract_reaches es en t
    \<and> violations t \<noteq> []"
  using contract.explore_unsafe [OF assms(1)] assms(2)
  by (auto simp: check_def split: if_splits)

text \<open>The runs of the two negative controls.\<close>

lemma splitbrain_run:
  "expanded_path visit_contract (model_successors False True) initial
     [({C0, C1}, {C0}, {}, {}), ({C0, C1, C2}, {C0}, {}, {}),
      ({C0, C1, C2}, {C0}, {(C1, OpA)}, {}),
      ({C0, C1, C2}, {C0}, {(C1, OpA), (C2, OpB)}, {})]"
  by code_simp

lemma equivocation_run:
  "expanded_path visit_contract (model_successors True False) initial
     [({C0}, {}, {(C0, OpA)}, {}), ({C0}, {}, {(C0, OpA), (C0, OpB)}, {})]"
  by code_simp

lemma splitbrain_found:
  "\<exists>n t v. check False True = Some (n, Some (t, v)) \<and> v \<noteq> []
     \<and> (\<forall>x\<in>set v. \<exists>p q. x = S1_splitbrain p q)"
proof -
  have bad: "violations ({C0, C1, C2}, {C0}, {(C1, OpA), (C2, OpB)}, {}) \<noteq> []" by code_simp
  have "contract_reaches False True ({C0, C1, C2}, {C0}, {(C1, OpA), (C2, OpB)}, {})"
    using path_reaches [OF splitbrain_run reaches.start] by simp
  from check_finds [OF this bad]
  obtain n t where "check False True = Some (n, Some (t, violations t))"
    "contract_reaches False True t" "violations t \<noteq> []"
    by blast
  then show ?thesis using violation_kind [of False True t] by blast
qed

lemma equivocation_found:
  "\<exists>n t v. check True False = Some (n, Some (t, v)) \<and> v \<noteq> []
     \<and> (\<forall>x\<in>set v. \<exists>p q. x = S1_equivocation p q)"
proof -
  have bad: "violations ({C0}, {}, {(C0, OpA), (C0, OpB)}, {}) \<noteq> []" by code_simp
  have "contract_reaches True False ({C0}, {}, {(C0, OpA), (C0, OpB)}, {})"
    using path_reaches [OF equivocation_run reaches.start] by simp
  from check_finds [OF this bad]
  obtain n t where "check True False = Some (n, Some (t, violations t))"
    "contract_reaches True False t" "violations t \<noteq> []"
    by blast
  then show ?thesis using violation_kind [of True False t] by blast
qed

end
