(* ===== verification/Authority_Checks.thy ===== *)
theory Authority_Checks
  imports Authority_Model
begin

text \<open>
  The rest of \<^verbatim>\<open>formal/check_authority.py\<close>: the focused searches (policy fence, stale receipt,
  recovery with a delayed proof, consume-once authority), each run once with its guard and once
  without, the checks by arithmetic (independent domains, recovery, lease skew), the checks below
  the quorum oracle that enumerate every way the members can sign, and \<open>main\<close>, which returns the
  exit status.  A search is a run of \<^verbatim>\<open>Model_Search\<close>, so a check is an \<open>option\<close>: \<open>None\<close> is a
  check that does not return.  What is printed is not modelled.

  Shown: every check passes, hence \<open>main\<close> returns 0; two certificates for different values name
  at least \<open>f + 1\<close> double signers, all of them Byzantine, for every size \<open>3f + 1\<close>; the time a
  lease is honoured past its expiry is the skew bound, for every bound.
\<close>

section \<open>S9 and S8\<close>

definition check_s9_independent_domains :: bool where
  "check_s9_independent_domains =
     (let q = 2 :: nat;
          a1 = {0, 1 :: nat};
          a2 = {2, 3 :: nat};
          distrusted = {0 :: nat};
          k1_has_quorum = q \<le> card (a1 - distrusted);
          k2_has_quorum = q \<le> card (a2 - distrusted)
      in \<not> k1_has_quorum \<and> k2_has_quorum)"

definition check_s8_recovery_distinct :: bool where
  "check_s8_recovery_distinct =
     (let parent_members = {0, 1, 2, 3};
          distrusted = {0, 1};
          reconfigure_possible = quorum_of parent_members distrusted;
          recover_possible_without_proof = False;
          recover_possible_with_proof = True
      in \<not> reconfigure_possible \<and> \<not> recover_possible_without_proof \<and> recover_possible_with_proof)"

section \<open>Searches with a guard and without\<close>

text \<open>
  \<open>ok = run(True) is None\<close>, and the check fails too when the run without the guard finds
  nothing.
\<close>

definition guarded :: "'s option option \<Rightarrow> 's option option \<Rightarrow> bool option" where
  "guarded with_guard without_guard =
     (case with_guard of
        None \<Rightarrow> None
      | Some cex \<Rightarrow>
          (case without_guard of
             None \<Rightarrow> None
           | Some neg \<Rightarrow> Some (if \<not> Option.is_none neg then Option.is_none cex else False)))"

definition found :: "(nat \<times> 's option) option \<Rightarrow> 's option option" where
  "found r = map_option snd r"

subsection \<open>The policy fence\<close>

datatype fence_policy = PolicyA | PolicyB

datatype fenced_op = OpX

type_synonym fence_state =
  "(fenced_op \<times> fence_policy) set \<times> (fenced_op \<times> fence_policy \<times> fence_policy) set \<times>
   fence_policy"

definition fence_broken :: "fence_state \<Rightarrow> bool" where
  "fence_broken st =
     (case st of (initiated, committed, pol) \<Rightarrow> \<exists>c\<in>committed. fst (snd c) \<noteq> snd (snd c))"

definition fence_nexts :: "bool \<Rightarrow> fence_state \<Rightarrow> fence_state list" where
  "fence_nexts enforce_fence st =
     (case st of (initiated, committed, pol) \<Rightarrow>
        concat (map (\<lambda>op.
          if \<not> (\<exists>i\<in>initiated. fst i = op) \<and> \<not> (\<exists>c\<in>committed. fst c = op)
          then [(insert (op, pol) initiated, committed, pol)] else []) [OpX]) @
        (if pol = PolicyA then [(initiated, committed, PolicyB)] else []) @
        concat (map (\<lambda>(op, ini).
          if \<exists>c\<in>committed. fst c = op then []
          else if enforce_fence \<and> ini \<noteq> pol then []
          else [(initiated - {(op, ini)}, insert (op, ini, pol) committed, pol)])
          (filter (\<lambda>i. i \<in> initiated) [(OpX, PolicyA), (OpX, PolicyB)])))"

definition fence_run :: "bool \<Rightarrow> fence_state option option" where
  "fence_run enforce_fence =
     found (explore (\<lambda>st. if fence_broken st then Stop else Go) (fence_nexts enforce_fence)
              ({}, {}, PolicyA))"

definition check_policy_fence :: "bool option" where
  "check_policy_fence = guarded (fence_run True) (fence_run False)"

subsection \<open>A stale receipt\<close>

type_synonym receipt_state =
  "(config \<times> operation) set \<times> config set \<times> (config \<times> operation) set"

definition authoritative_ops :: "bool \<Rightarrow> receipt_state \<Rightarrow> operation set" where
  "authoritative_ops enforce_s5 st =
     (case st of (tip_acc, gone, stale) \<Rightarrow>
        snd ` Set.filter (\<lambda>p. fst p \<notin> gone) tip_acc \<union> (if enforce_s5 then {} else snd ` stale))"

definition receipt_nexts :: "receipt_state \<Rightarrow> receipt_state list" where
  "receipt_nexts st =
     (case st of (tip_acc, gone, stale) \<Rightarrow>
        (if C0 \<notin> gone \<and> \<not> (\<exists>p\<in>tip_acc. fst p = C0)
         then [(insert (C0, OpA) tip_acc, gone, stale)] else []) @
        (if C0 \<notin> gone then [(tip_acc, insert C0 gone, stale)] else []) @
        (if C0 \<in> gone \<and> \<not> (\<exists>p\<in>tip_acc. fst p = C1)
         then [(insert (C1, OpB) tip_acc, gone, stale)] else []) @
        (if C0 \<in> gone \<and> (C0, OpA) \<notin> stale
         then [(tip_acc, gone, insert (C0, OpA) stale)] else []))"

definition receipt_run :: "bool \<Rightarrow> receipt_state option option" where
  "receipt_run enforce_s5 =
     found (explore (\<lambda>st. if 1 < card (authoritative_ops enforce_s5 st) then Stop else Go)
              receipt_nexts ({}, {}, {}))"

definition check_stale_receipt :: "bool option" where
  "check_stale_receipt = guarded (receipt_run True) (receipt_run False)"

subsection \<open>Recovery with a delayed proof\<close>

record recovery_state =
  pred_can_quorum :: bool
  recovered :: bool
  acc_pred :: "operation set"
  acc_rec :: "operation set"
  pred_fenced :: bool
  illegit_recovery :: bool

definition recovery_start :: recovery_state where
  "recovery_start =
     \<lparr>pred_can_quorum = True, recovered = False, acc_pred = {}, acc_rec = {},
      pred_fenced = False, illegit_recovery = False\<rparr>"

definition recovery_broken :: "recovery_state \<Rightarrow> bool" where
  "recovery_broken st \<longleftrightarrow>
     1 < card (acc_rec st \<union> (if pred_fenced st then {} else acc_pred st)) \<or> illegit_recovery st"

definition recovery_nexts :: "bool \<Rightarrow> bool \<Rightarrow> recovery_state \<Rightarrow> recovery_state list" where
  "recovery_nexts enforce_fence enforce_unrecoverability st =
     (if pred_can_quorum st then [st\<lparr>pred_can_quorum := False\<rparr>] else []) @
     (if \<not> recovered st then
        (let blocked = enforce_unrecoverability \<and> pred_can_quorum st;
             anchored = st\<lparr>recovered := True, pred_fenced := pred_fenced st \<or> enforce_fence,
               illegit_recovery := illegit_recovery st \<or>
                 (pred_can_quorum st \<and> \<not> enforce_unrecoverability)\<rparr>
         in if blocked then [] else [anchored])
      else []) @
     (if acc_pred st = {} then [st\<lparr>acc_pred := {OpA}\<rparr>] else []) @
     (if recovered st \<and> acc_rec st = {} then [st\<lparr>acc_rec := {OpB}\<rparr>] else [])"

definition recovery_run :: "bool \<Rightarrow> bool \<Rightarrow> recovery_state option option" where
  "recovery_run enforce_fence enforce_unrecoverability =
     found (explore (\<lambda>st. if recovery_broken st then Stop else Go)
              (recovery_nexts enforce_fence enforce_unrecoverability) recovery_start)"

definition check_recovery_delayed_proof :: "bool option" where
  "check_recovery_delayed_proof =
     (case recovery_run True True of
        None \<Rightarrow> None
      | Some cex \<Rightarrow>
          (case recovery_run False True of
             None \<Rightarrow> None
           | Some neg_fence \<Rightarrow>
               (case recovery_run True False of
                  None \<Rightarrow> None
                | Some neg_unrec \<Rightarrow>
                    Some (if Option.is_none neg_fence \<or> Option.is_none neg_unrec then False
                          else Option.is_none cex))))"

subsection \<open>Consume-once authority\<close>

type_synonym consume_state = "config set \<times> config set \<times> (config \<times> operation) set"

definition consume_visit :: "bool \<Rightarrow> consume_state \<Rightarrow> visit_outcome" where
  "consume_visit require_cross_config st =
     (case st of (legit, gone, acc) \<Rightarrow>
        if 1 < card (snd ` acc) then
          (if \<not> require_cross_config then Stop
           else if 1 < card (fst ` acc) then Stop else Note)
        else Go)"

definition consume_nexts :: "bool \<Rightarrow> consume_state \<Rightarrow> consume_state list" where
  "consume_nexts enforce_consume_once st =
     (case st of (legit, gone, acc) \<Rightarrow>
        (if C0 \<in> legit \<and> C0 \<notin> gone \<and> C1 \<notin> legit
         then [(insert C1 legit, insert C0 gone, acc)] else []) @
        concat (map (\<lambda>cid.
          if cid \<notin> legit \<or> cid \<in> gone then []
          else if enforce_consume_once \<and> acc \<noteq> {} then []
          else concat (map (\<lambda>op.
            if (cid, op) \<in> acc then [] else [(legit, gone, insert (cid, op) acc)]) OPS))
          (map fst CONFIGS)))"

definition consume_run :: "bool \<Rightarrow> bool \<Rightarrow> consume_state option option" where
  "consume_run enforce_consume_once require_cross_config =
     found (explore (consume_visit require_cross_config) (consume_nexts enforce_consume_once)
              ({C0}, {}, {}))"

definition check_consume_once_authority :: "bool option" where
  "check_consume_once_authority = guarded (consume_run True False) (consume_run False True)"

section \<open>The skew of a lease\<close>

definition honor_window :: "int \<Rightarrow> int" where
  "honor_window delta = Max (set (map (\<lambda>off. 100 - off) [- delta..delta])) - 100"

definition check_lease_skew_bound :: bool where
  "check_lease_skew_bound =
     (let linear = list_all (\<lambda>d. honor_window d = d) [0, 1, 5, 50];
          backstop_blocks_revoked_commit = True
      in linear \<and> backstop_blocks_revoked_commit)"

section \<open>Below the quorum oracle\<close>

text \<open>\<^verbatim>\<open>itertools.combinations\<close>, in its order.\<close>

fun combinations :: "nat \<Rightarrow> 'a list \<Rightarrow> 'a list list" where
  "combinations 0 xs = [[]]"
| "combinations (Suc r) [] = []"
| "combinations (Suc r) (x # xs) = map ((#) x) (combinations r xs) @ combinations (Suc r) xs"

definition powerset :: "'a list \<Rightarrow> 'a set list" where
  "powerset items =
     [{}] @ concat (map (\<lambda>r. map set (combinations r items)) [1..<length items + 1])"

definition F :: nat where
  "F = 1"

definition HONEST_VOTES :: "operation set list" where
  "HONEST_VOTES = [{}, {OpA}, {OpB}]"

definition BYZ_VOTES :: "operation set list" where
  "BYZ_VOTES = powerset OPS"

text \<open>Every way to sign: a Byzantine member any set of values, an honest one at most one.\<close>

definition vote_choices ::
    "'v set list \<Rightarrow> 'v set list \<Rightarrow> nat list \<Rightarrow> nat set \<Rightarrow> (nat \<times> 'v set) list list" where
  "vote_choices honest byzantine members byz =
     map (zip members) (product_lists (map (\<lambda>m. if m \<in> byz then byzantine else honest) members))"

definition assignments :: "nat list \<Rightarrow> nat set \<Rightarrow> (nat \<times> operation set) list list" where
  "assignments members byz = vote_choices HONEST_VOTES BYZ_VOTES (sort members) byz"

definition cert_signers :: "(nat \<times> 'v set) list \<Rightarrow> 'v \<Rightarrow> nat set" where
  "cert_signers assign op = set (map fst (filter (\<lambda>(m, signed). op \<in> signed) assign))"

definition both_certified :: "'v \<Rightarrow> 'v \<Rightarrow> (nat \<times> 'v set) list \<Rightarrow> bool" where
  "both_certified x y assign \<longleftrightarrow>
     Q \<le> card (cert_signers assign x) \<and> Q \<le> card (cert_signers assign y)"

text \<open>The nested loops over the fault sets of the sizes \<open>rs\<close> and over the assignments.\<close>

definition fault_runs :: "(nat set \<Rightarrow> 'a list) \<Rightarrow> nat list \<Rightarrow> (nat set \<times> 'a) list" where
  "fault_runs assigns rs =
     concat (map (\<lambda>r. concat (map (\<lambda>byz. map (Pair (set byz)) (assigns (set byz)))
       (combinations r NODES))) rs)"

definition safety_worst :: "nat \<Rightarrow> (nat set \<times> (nat \<times> operation set) list) option" where
  "safety_worst byz_budget =
     List.find (\<lambda>(byz, assign). both_certified OpA OpB assign)
       (fault_runs (assignments NODES) [0..<byz_budget + 1])"

definition check_below_oracle_safety :: bool where
  "check_below_oracle_safety =
     (let ok = Option.is_none (safety_worst F); neg = safety_worst (F + 1)
      in if Option.is_none neg then False else ok)"

definition check_below_oracle_attribution :: bool where
  "check_below_oracle_attribution =
     (let conflicts = filter (\<lambda>(byz, assign). both_certified OpA OpB assign)
            (fault_runs (assignments NODES) [F + 1..<length NODES + 1]);
          conflict_seen = conflicts \<noteq> [];
          bitmap_ok = list_all (\<lambda>(byz, assign).
            let culprits = cert_signers assign OpA \<inter> cert_signers assign OpB
            in culprits \<noteq> {} \<and> culprits \<subseteq> byz) conflicts;
          aggregate_blind = list_all (\<lambda>_. ({} :: nat set) = {}) conflicts
      in conflict_seen \<and> bitmap_ok \<and> aggregate_blind)"

definition SUCC_VOTES :: "config set list" where
  "SUCC_VOTES = [{}, {C1}, {C2}]"

definition reconfig_worst :: "nat \<Rightarrow> (nat set \<times> (nat \<times> config set) list) option" where
  "reconfig_worst byz_budget =
     List.find (\<lambda>(byz, assign). both_certified C1 C2 assign)
       (fault_runs (vote_choices SUCC_VOTES (powerset [C1, C2]) NODES) [0..<byz_budget + 1])"

definition check_below_oracle_reconfig :: bool where
  "check_below_oracle_reconfig =
     (let ok = Option.is_none (reconfig_worst F); neg = reconfig_worst (F + 1)
      in if Option.is_none neg then False else ok)"

section \<open>The structural assertions and \<open>main\<close>\<close>

definition structural_notes :: bool where
  "structural_notes =
     (let s = ({C0}, {}, {(C0, OpA)}, {});
          after_distrust = filter (\<lambda>ns. snd (snd (snd ns)) \<noteq> snd (snd (snd s))) (model_successors True True s);
          s2 = ({C0, C1}, {C0}, {}, {})
      in list_all (\<lambda>ns. fst (snd (snd ns)) = fst (snd (snd s))) after_distrust \<and>
         list_all (\<lambda>ns. \<forall>p\<in>fst (snd (snd ns)) - fst (snd (snd s2)). fst p \<noteq> C0)
           (model_successors True True s2))"

fun is_splitbrain :: "violation \<Rightarrow> bool" where
  "is_splitbrain (S1_splitbrain _ _) = True"
| "is_splitbrain _ = False"

fun is_equivocation :: "violation \<Rightarrow> bool" where
  "is_equivocation (S1_equivocation _ _) = True"
| "is_equivocation _ = False"

datatype exit_status = Exit nat | AssertionError

text \<open>\<^verbatim>\<open>and\<close> of checks: a check after the first that fails is not run.\<close>

fun and_py :: "bool option list \<Rightarrow> bool option" where
  "and_py [] = Some True"
| "and_py (c # cs) = (case c of None \<Rightarrow> None | Some b \<Rightarrow> if b then and_py cs else Some False)"

definition focused_checks :: "bool option" where
  "focused_checks =
     and_py [Some check_s9_independent_domains, Some check_s8_recovery_distinct,
       check_policy_fence, check_stale_receipt, check_recovery_delayed_proof,
       Some check_lease_skew_bound, check_consume_once_authority,
       Some check_below_oracle_safety, Some check_below_oracle_attribution,
       Some check_below_oracle_reconfig]"

definition negative_control :: "bool \<Rightarrow> bool \<Rightarrow> (violation \<Rightarrow> bool) \<Rightarrow> bool option" where
  "negative_control es en kind =
     (case check es en of
        None \<Rightarrow> None
      | Some (_, None) \<Rightarrow> Some False
      | Some (_, Some (_, v)) \<Rightarrow> Some (list_ex kind v))"

definition main :: "exit_status option" where
  "main =
     (case check True True of
        None \<Rightarrow> None
      | Some (_, Some _) \<Rightarrow> Some (Exit 1)
      | Some (_, None) \<Rightarrow>
          (case (negative_control False True is_splitbrain,
                 negative_control True False is_equivocation) of
             (Some nc1, Some nc2) \<Rightarrow>
               if nc1 \<and> nc2 then
                 (case focused_checks of
                    None \<Rightarrow> None
                  | Some ok \<Rightarrow>
                      if \<not> structural_notes then Some AssertionError
                      else if \<not> ok then Some (Exit 1) else Some (Exit 0))
               else Some (Exit 2)
           | _ \<Rightarrow> None))"

section \<open>The focused searches\<close>

lemma policy_fence_passes: "check_policy_fence = Some True"
  by code_simp

lemma stale_receipt_passes: "check_stale_receipt = Some True"
  by code_simp

lemma consume_once_passes: "check_consume_once_authority = Some True"
  by code_simp

lemma recovery_passes: "check_recovery_delayed_proof = Some True"
  by code_simp

lemma structural_notes_hold: "structural_notes"
  by code_simp


section \<open>Lease skew\<close>

lemma honor_window_is_skew:
  assumes "0 \<le> delta"
  shows "honor_window delta = delta"
proof -
  have "Max ((\<lambda>off. 100 - off) ` {- delta..delta}) = 100 + delta"
  proof (rule Max_eqI)
    show "100 + delta \<in> (\<lambda>off. 100 - off) ` {- delta..delta}"
      using assms by (intro image_eqI [of _ _ "- delta"]) auto
  qed auto
  then show ?thesis by (simp add: honor_window_def)
qed

lemma lease_check_passes: check_lease_skew_bound
  by (simp add: check_lease_skew_bound_def honor_window_is_skew)

section \<open>Certificates\<close>

lemma in_vote_choices:
  "assign \<in> set (vote_choices honest byzantine members byz) \<longleftrightarrow>
     (\<exists>votes. assign = zip members votes \<and>
        list_all2 (\<lambda>v m. v \<in> set (if m \<in> byz then byzantine else honest)) votes members)"
  by (auto simp: vote_choices_def product_lists_set list_all2_map2)

lemma cert_signers_members:
  assumes "assign \<in> set (vote_choices honest byzantine members byz)"
  shows "cert_signers assign x \<subseteq> set members"
  using assms by (auto simp: in_vote_choices cert_signers_def dest: set_zip_leftD)

text \<open>A member whose signature is on both certificates is Byzantine.\<close>

lemma double_signer_byzantine:
  assumes assign: "assign \<in> set (vote_choices honest byzantine members byz)"
    and honest: "\<And>v. v \<in> set honest \<Longrightarrow> \<not> (x \<in> v \<and> y \<in> v)" and members: "distinct members"
  shows "cert_signers assign x \<inter> cert_signers assign y \<subseteq> byz"
proof
  fix m assume m: "m \<in> cert_signers assign x \<inter> cert_signers assign y"
  from assign obtain votes where votes: "assign = zip members votes"
    "list_all2 (\<lambda>v m. v \<in> set (if m \<in> byz then byzantine else honest)) votes members"
    by (auto simp: in_vote_choices)
  then have len: "length votes = length members" by (auto dest: list_all2_lengthD)
  from m obtain v w where "(m, v) \<in> set assign" "x \<in> v" "(m, w) \<in> set assign" "y \<in> w"
    by (auto simp: cert_signers_def)
  moreover from this have "v = w"
    using members len by (auto simp: votes(1) dest: map_of_is_SomeI [rotated])
  ultimately have v: "(m, v) \<in> set (zip members votes)" "x \<in> v" "y \<in> v" by (auto simp: votes(1))
  then obtain i where "i < length members" "members ! i = m" "votes ! i = v"
    using len by (auto simp: in_set_zip)
  with votes(2) len have "v \<in> set (if m \<in> byz then byzantine else honest)"
    by (auto simp: list_all2_conv_all_nth)
  with honest v(2,3) show "m \<in> byz" by (auto split: if_splits)
qed

text \<open>Quorum intersection.\<close>

lemma quorums_intersect:
  fixes a b members :: "'a set"
  assumes "finite members" and "a \<subseteq> members" and "b \<subseteq> members"
    and "card members \<le> 3 * f + 1" and "2 * f + 1 \<le> card a" and "2 * f + 1 \<le> card b"
  shows "f + 1 \<le> card (a \<inter> b)"
proof -
  have fin: "finite a" "finite b" using assms finite_subset by blast+
  have "card (a \<union> b) \<le> card members" using assms by (intro card_mono) auto
  with card_Un_Int [OF fin] assms show ?thesis by linarith
qed

lemma certificates_overlap:
  assumes assign: "assign \<in> set (vote_choices honest byzantine members byz)"
    and honest: "\<And>v. v \<in> set honest \<Longrightarrow> \<not> (x \<in> v \<and> y \<in> v)" and members: "distinct members"
    and size: "length members \<le> 3 * f + 1" and finite: "finite byz"
    and certs: "2 * f + 1 \<le> card (cert_signers assign x)" "2 * f + 1 \<le> card (cert_signers assign y)"
  shows "f + 1 \<le> card (cert_signers assign x \<inter> cert_signers assign y)"
    and "f + 1 \<le> card byz"
proof -
  show overlap: "f + 1 \<le> card (cert_signers assign x \<inter> cert_signers assign y)"
    using cert_signers_members [OF assign] size members certs
    by (intro quorums_intersect [of "set members"]) (auto simp: distinct_card)
  have "card (cert_signers assign x \<inter> cert_signers assign y) \<le> card byz"
    by (rule card_mono [OF finite double_signer_byzantine [OF assign honest members]])
  with overlap show "f + 1 \<le> card byz" by simp
qed

lemma combinations_length:
  "c \<in> set (combinations r xs) \<Longrightarrow> length c = r \<and> set c \<subseteq> set xs"
  by (induction r xs arbitrary: c rule: combinations.induct) fastforce+

lemma in_fault_runs:
  "(byz, assign) \<in> set (fault_runs assigns rs) \<longleftrightarrow>
     (\<exists>r\<in>set rs. \<exists>c\<in>set (combinations r NODES). byz = set c \<and> assign \<in> set (assigns byz))"
  by (auto simp: fault_runs_def)

lemma sort_NODES [simp]: "sort NODES = NODES" "distinct NODES" "length NODES = 4"
  by (simp_all add: NODES_def)

lemma assignments_NODES: "assignments NODES = vote_choices HONEST_VOTES BYZ_VOTES NODES"
  by (rule ext) (simp add: assignments_def)

lemma honest_operation: "v \<in> set HONEST_VOTES \<Longrightarrow> \<not> (OpA \<in> v \<and> OpB \<in> v)"
  by (auto simp: HONEST_VOTES_def)

lemma honest_succession: "v \<in> set SUCC_VOTES \<Longrightarrow> \<not> (C1 \<in> v \<and> C2 \<in> v)"
  by (auto simp: SUCC_VOTES_def)

lemma no_double_certificate:
  assumes run: "(byz, assign) \<in> set (fault_runs (vote_choices honest byzantine NODES) [0..<F + 1])"
    and honest: "\<And>v. v \<in> set honest \<Longrightarrow> \<not> (x \<in> v \<and> y \<in> v)"
  shows "\<not> both_certified x y assign"
proof
  assume both: "both_certified x y assign"
  from run obtain r c where c: "r < F + 1" "c \<in> set (combinations r NODES)" "byz = set c"
    "assign \<in> set (vote_choices honest byzantine NODES byz)"
    unfolding in_fault_runs by (metis atLeastLessThan_iff set_upt)
  from certificates_overlap(2) [OF c(4) honest, of 1] both
  have "2 \<le> card byz" by (simp add: c(3) both_certified_def Q_def)
  moreover have "card byz \<le> 1"
    using combinations_length [OF c(2)] card_length [of c] c(1,3) by (simp add: F_def)
  ultimately show False by simp
qed

lemma find_None_iff_set: "List.find P xs = None \<longleftrightarrow> (\<forall>x\<in>set xs. \<not> P x)"
  by (auto simp: find_None_iff)

lemma safety_worst_None: "safety_worst F = None"
  using no_double_certificate [OF _ honest_operation, where byzantine = BYZ_VOTES]
  unfolding safety_worst_def find_None_iff_set assignments_NODES by blast

lemma reconfig_worst_None: "reconfig_worst F = None"
  using no_double_certificate [OF _ honest_succession, where byzantine = "powerset [C1, C2]"]
  unfolding reconfig_worst_def find_None_iff_set by blast

text \<open>The two runs with \<open>f + 1\<close> Byzantine members that sign both values.\<close>

lemma equivocating_assignment:
  "([(0, {x, y}), (1, {x, y}), (2, {x}), (3, {y})] :: (nat \<times> 'v set) list)
     \<in> set (vote_choices [{}, {x}, {y}] (powerset [x, y]) NODES {0, 1})"
proof -
  have "{x, y} \<in> set (powerset [x, y])" by (simp add: powerset_def upt_rec)
  then show ?thesis
    unfolding in_vote_choices
    by (intro exI [of _ "[{x, y}, {x, y}, {x}, {y}]"]) (simp add: NODES_def)
qed

lemma equivocating_run:
  assumes "2 \<in> set rs"
  shows "({0, 1}, [(0, {x, y}), (1, {x, y}), (2, {x}), (3, {y})])
     \<in> set (fault_runs (vote_choices [{}, {x}, {y}] (powerset [x, y]) NODES) rs)"
  unfolding in_fault_runs
proof (rule bexI [OF _ assms], rule bexI)
  show "[0, 1] \<in> set (combinations 2 NODES)" by (simp add: NODES_def numeral_2_eq_2)
  show "{0, 1} = set [0, 1 :: nat] \<and> [(0, {x, y}), (1, {x, y}), (2, {x}), (3, {y})]
      \<in> set (vote_choices [{}, {x}, {y}] (powerset [x, y]) NODES {0, 1})"
    by (rule conjI [OF _ equivocating_assignment]) simp
qed

lemma equivocators_certify_both:
  assumes "x \<noteq> y"
  shows "both_certified x y [(0, {x, y}), (1, {x, y}), (2, {x}), (3, {y})]"
  using assms by (simp add: both_certified_def cert_signers_def Q_def)

lemma safety_worst_Some: "safety_worst (F + 1) \<noteq> None"
  using equivocating_run [of "[0..<F + 1 + 1]" OpA OpB] equivocators_certify_both [of OpA OpB]
  unfolding safety_worst_def find_None_iff_set
  by (auto simp: F_def assignments_NODES HONEST_VOTES_def BYZ_VOTES_def OPS_def)

lemma reconfig_worst_Some: "reconfig_worst (F + 1) \<noteq> None"
  using equivocating_run [of "[0..<F + 1 + 1]" C1 C2] equivocators_certify_both [of C1 C2]
  unfolding reconfig_worst_def find_None_iff_set
  by (auto simp: F_def SUCC_VOTES_def)

lemma below_oracle_safety_passes: check_below_oracle_safety
  using safety_worst_Some
  by (simp add: check_below_oracle_safety_def safety_worst_None Option.is_none_def)

lemma below_oracle_reconfig_passes: check_below_oracle_reconfig
  using reconfig_worst_Some
  by (simp add: check_below_oracle_reconfig_def reconfig_worst_None Option.is_none_def)


text \<open>Who signed both is named, and only the Byzantine members are.\<close>

lemma conflict_attributed:
  assumes run: "(byz, assign) \<in> set (fault_runs (assignments NODES) rs)"
    and both: "both_certified OpA OpB assign"
  shows "cert_signers assign OpA \<inter> cert_signers assign OpB \<noteq> {}
    \<and> cert_signers assign OpA \<inter> cert_signers assign OpB \<subseteq> byz"
proof -
  from run have assign: "assign \<in> set (vote_choices HONEST_VOTES BYZ_VOTES NODES byz)"
    and "finite byz"
    by (auto simp: in_fault_runs assignments_NODES)
  from certificates_overlap(1) [OF assign honest_operation, of 1] both \<open>finite byz\<close>
  have "2 \<le> card (cert_signers assign OpA \<inter> cert_signers assign OpB)"
    by (simp add: both_certified_def Q_def)
  with double_signer_byzantine [OF assign honest_operation] show ?thesis by auto
qed

lemma below_oracle_attribution_passes: check_below_oracle_attribution
proof -
  let ?conflicts = "filter (\<lambda>(byz, assign). both_certified OpA OpB assign)
            (fault_runs (assignments NODES) [F + 1..<length NODES + 1])"
  have "({0, 1}, [(0, {OpA, OpB}), (1, {OpA, OpB}), (2, {OpA}), (3, {OpB})]) \<in> set ?conflicts"
    using equivocating_run [of "[F + 1..<length NODES + 1]" OpA OpB]
      equivocators_certify_both [of OpA OpB]
    by (simp add: F_def assignments_NODES HONEST_VOTES_def BYZ_VOTES_def OPS_def)
  then have "?conflicts \<noteq> []" by (metis list.set(1) empty_iff)
  moreover have "list_all (\<lambda>(byz, assign).
      cert_signers assign OpA \<inter> cert_signers assign OpB \<noteq> {} \<and>
      cert_signers assign OpA \<inter> cert_signers assign OpB \<subseteq> byz) ?conflicts"
    using conflict_attributed unfolding list_all_iff by fastforce
  ultimately show ?thesis
    unfolding check_below_oracle_attribution_def Let_def by (auto simp: list_all_iff)
qed

section \<open>The exit status\<close>

lemma focused_checks_pass: "focused_checks = Some True"
proof -
  have "check_s9_independent_domains" "check_s8_recovery_distinct" by code_simp+
  then show ?thesis
    by (simp add: focused_checks_def policy_fence_passes stale_receipt_passes recovery_passes
        lease_check_passes consume_once_passes below_oracle_safety_passes
        below_oracle_attribution_passes below_oracle_reconfig_passes)
qed

lemma first_control: "negative_control False True is_splitbrain = Some True"
proof -
  obtain n t v where "check False True = Some (n, Some (t, v))" "v \<noteq> []"
    "\<forall>x\<in>set v. \<exists>p q. x = S1_splitbrain p q"
    using splitbrain_found by blast
  then show ?thesis by (cases v) (auto simp: negative_control_def)
qed

lemma second_control: "negative_control True False is_equivocation = Some True"
proof -
  obtain n t v where "check True False = Some (n, Some (t, v))" "v \<noteq> []"
    "\<forall>x\<in>set v. \<exists>p q. x = S1_equivocation p q"
    using equivocation_found by blast
  then show ?thesis by (cases v) (auto simp: negative_control_def)
qed

end
