(* ===== verification/Replication.thy ===== *)
theory Replication
  imports Rebuild Authority
begin

text \<open>
  \<^verbatim>\<open>kawa/storage/replication.py\<close>: the cursor diff that one node serves, the redaction of what the
  viewer may not see, and the trust-gated admission of a received batch.  The state of one
  \<open>admit_batch\<close> call (the locals of the loop, the clock and the tables) is the record
  \<open>admission\<close>; an exception leaves the moved clock and rolls the tables back.
\<close>

section \<open>Reasons and reports\<close>

datatype reason =
    Origin_frozen | Predecessor_rejected | Collision | Chain_gap | Chain_break
  | Hlc_malformed | Hlc_forward_skew | Scope_digest_mismatch | Envelope_invalid | Unsigned
  | Provenance_invalid | Trust_refused Trust.standing | Forged_origin
  | Scope_unrequested | Upgrade_digest_mismatch | Fork fork_class
  | Authority_genesis_unproven | Authority_genesis_conflict

record rejection =
  rj_event_id :: string
  rj_origin_node :: string
  rj_origin_seq :: int
  rj_reason :: reason

record pull_report =
  pr_admitted :: "string list"
  pr_rejected :: "rejection list"

text \<open>The temporal profile.\<close>

definition DEFAULT_FORWARD_SKEW_MS :: int where
  "DEFAULT_FORWARD_SKEW_MS = 60000"

text \<open>
  The verdict on a stamp that \<open>parse_hlc\<close> reads; on one of more than 4300 digits it raises, which
  \<open>admit_new\<close> passes on.
\<close>

definition temporal_admissible :: "int \<Rightarrow> string \<Rightarrow> int \<Rightarrow> reason option" where
  "temporal_admissible max_skew h now_ms =
     (case parse_hlc h of
        None \<Rightarrow> Some Hlc_malformed
      | Some (p, _, _) \<Rightarrow> if p > now_ms + max_skew then Some Hlc_forward_skew else None)"

section \<open>Serving\<close>

definition frontier :: "db \<Rightarrow> string \<Rightarrow> int option" where
  "frontier d node = map_option origin_seq (origin_head d node)"

definition origins :: "db \<Rightarrow> string list" where
  "origins d = sort (remdups (map origin_node (events d)))"

fun concat_results :: "'a list result list \<Rightarrow> 'a list result" where
  "concat_results [] = Inr []"
| "concat_results (r # rs) = bind_result r (\<lambda>xs. bind_result (concat_results rs) (\<lambda>ys. Inr (xs @ ys)))"

definition stream_of :: "crypto \<Rightarrow> db \<Rightarrow> (string \<Rightarrow> int option) \<Rightarrow> string \<Rightarrow> event list result" where
  "stream_of cr d after node =
     (let lo = (case after node of Some s \<Rightarrow> s | None \<Rightarrow> 0);
          top = (case frontier d node of Some s \<Rightarrow> s | None \<Rightarrow> 0)
      in if top \<le> lo then Inr []
         else load_rows cr d True
           (sort_key origin_seq (filter (\<lambda>r. origin_node r = node \<and> origin_seq r > lo) (events d))))"

definition read_stream :: "crypto \<Rightarrow> db \<Rightarrow> (string \<Rightarrow> int option) \<Rightarrow> event list result" where
  "read_stream cr d after = concat_results (map (stream_of cr d after) (origins d))"

definition row_at :: "db \<Rightarrow> string \<Rightarrow> int \<Rightarrow> event_row option" where
  "row_at d node seq = List.find (\<lambda>r. origin_node r = node \<and> origin_seq r = seq) (events d)"

text \<open>
  The dictionary of positions is read in sorted order only, so it is kept sorted here.
\<close>

definition held_stub_positions :: "crypto \<Rightarrow> db \<Rightarrow> string list \<Rightarrow> (string \<times> int list) list" where
  "held_stub_positions cr d scopes =
     (let hits = filter (\<lambda>r. \<not> materialized r
             \<and> scope_digest r \<in> set (map (\<lambda>s. Some (scope_digest_of (sha256 cr) s)) scopes)) (events d)
      in map (\<lambda>n. (n, sort (map origin_seq (filter (\<lambda>r. origin_node r = n) hits))))
           (sort (remdups (map origin_node hits))))"

definition read_positions :: "crypto \<Rightarrow> db \<Rightarrow> (string \<times> int list) list \<Rightarrow> event list result" where
  "read_positions cr d positions =
     concat_results (map (\<lambda>(node, seqs). concat_results (map (\<lambda>seq.
       case row_at d node seq of
         None \<Rightarrow> Inr []
       | Some r \<Rightarrow> bind_result (load_event cr d True r) (\<lambda>e. Inr [e])) (sort seqs)))
       (sort_key fst positions))"

definition withhold :: "event \<Rightarrow> event" where
  "withhold e = (if is_stub e then e else e\<lparr>payload := None, scope_ref := None\<rparr>)"

definition visible :: "string set \<Rightarrow> event \<Rightarrow> bool" where
  "visible viewer e \<longleftrightarrow> envelope_version e < 2
     \<or> (case scope_ref e of Some s \<Rightarrow> s \<in> viewer | None \<Rightarrow> False)"

definition serve_batch :: "event list \<Rightarrow> string set option \<Rightarrow> event list" where
  "serve_batch es grants =
     (let viewer = (case grants of Some g \<Rightarrow> g | None \<Rightarrow> {})
      in map (\<lambda>e. if visible viewer e then e else withhold e) es)"

section \<open>Admission\<close>

record admission =
  ad_db :: db
  ad_clock :: "hlc_clock option"
  ad_heads :: "string \<Rightarrow> (int \<times> string) option"
  ad_frozen :: "string set"
  ad_poisoned :: "string set"
  ad_admitted :: "string list"
  ad_rejected :: "rejection list"

record gate =
  g_keys :: key_registry
  g_trust :: trust_registry
  g_requested :: "string set option"
  g_max_skew :: int
  g_now_ms :: int

definition report_only :: "event \<Rightarrow> reason \<Rightarrow> admission \<Rightarrow> admission" where
  "report_only e why s = s\<lparr>ad_rejected := ad_rejected s @
     [\<lparr>rj_event_id = event_id e, rj_origin_node = origin_node e, rj_origin_seq = origin_seq e,
       rj_reason = why\<rparr>]\<rparr>"

definition reject :: "event \<Rightarrow> reason \<Rightarrow> admission \<Rightarrow> admission" where
  "reject e why s = (report_only e why s)\<lparr>ad_poisoned := insert (origin_node e) (ad_poisoned s)\<rparr>"

text \<open>The RETAIN test: the payload was not asked for.\<close>

definition unrequested :: "gate \<Rightarrow> event \<Rightarrow> bool" where
  "unrequested g e \<longleftrightarrow>
     (case g_requested g of
        None \<Rightarrow> False
      | Some req \<Rightarrow> envelope_version e \<ge> 2
          \<and> (case scope_ref e of None \<Rightarrow> True | Some s \<Rightarrow> s \<notin> req))"

text \<open>The trigger on \<open>events\<close> lets one update through: a stub without a scope materializes.\<close>

definition materialize_row :: "event \<Rightarrow> db \<Rightarrow> db result" where
  "materialize_row e d =
     (if list_ex (\<lambda>r. event_id r = event_id e \<and> (materialized r \<or> scope_ref r \<noteq> None)) (events d)
      then Inl (IntegrityError ''append-only'')
      else if list_ex (\<lambda>r. event_id r = event_id e \<and> \<not> envelope_version r > 1 \<and> scope_ref e \<noteq> None) (events d)
      then Inl (IntegrityError ''events_v1_scopeless'')
      else Inr (d\<lparr>events := map (\<lambda>r. if event_id r = event_id e
             then r\<lparr>materialized := True, scope_ref := scope_ref e\<rparr> else r) (events d)\<rparr>))"

definition upgrade_stub :: "crypto \<Rightarrow> uuid_cast \<Rightarrow> int \<Rightarrow> event \<Rightarrow> db \<Rightarrow> db result" where
  "upgrade_stub cr uc now e d =
     bind_result (materialize_row e d) (\<lambda>d1. bind_result (insert_payload uc e d1) (reduce now e))"

text \<open>A rival that would pass the whole gate at its current standing.\<close>

definition authenticated :: "crypto \<Rightarrow> gate \<Rightarrow> 'a envelope_scheme \<Rightarrow> int option \<Rightarrow> bool" where
  "authenticated cr g e at_seq \<longleftrightarrow>
     (case (signature e, signing_key_ref e, signature_scheme e) of
        (Some sig, Some k, Some sch) \<Rightarrow>
          admit (evaluate cr (self_hash e) sig k sch (g_keys g) (g_trust g) at_seq)
          \<and> node_ref (g_trust g) k = Some (origin_node e)
      | _ \<Rightarrow> False)"

definition classify_fork :: "gate \<Rightarrow> event_row \<Rightarrow> event \<Rightarrow> fork_class" where
  "classify_fork g mine e =
     (let held_inc = Option.bind (signing_key_ref mine)
            (\<lambda>k. if k = [] then None else incarnation_ref (g_trust g) k);
          rival_inc = Option.bind (signing_key_ref e) (incarnation_ref (g_trust g))
      in if held_inc \<noteq> None \<and> rival_inc \<noteq> None \<and> held_inc \<noteq> rival_inc then Restore_fork else Equivocation)"

definition fork_row :: "gate \<Rightarrow> event_row \<Rightarrow> event \<Rightarrow> fork_evidence" where
  "fork_row g mine e =
     \<lparr>fe_origin_node = origin_node e, fe_origin_seq = origin_seq e,
      fe_held_event_id = event_id mine, fe_held_hash = self_hash mine,
      fe_rival_event_id = event_id e, fe_rival_hash = self_hash e,
      fe_held_key_ref = signing_key_ref mine, fe_rival_key_ref = signing_key_ref e,
      fe_held_incarnation = Option.bind (signing_key_ref mine)
        (\<lambda>k. if k = [] then None else incarnation_ref (g_trust g) k),
      fe_rival_incarnation = Option.bind (signing_key_ref e) (incarnation_ref (g_trust g)),
      fe_classification = classify_fork g mine e, fe_frozen = True, fe_resolved_by = None,
      fe_chosen_head = None, fe_reason = None\<rparr>"

definition insert_fork :: "fork_evidence \<Rightarrow> db \<Rightarrow> db" where
  "insert_fork f d =
     (if list_ex (\<lambda>x. fe_origin_node x = fe_origin_node f \<and> fe_origin_seq x = fe_origin_seq f
           \<and> fe_rival_hash x = fe_rival_hash f) (fork_rows d)
      then d else d\<lparr>fork_rows := fork_rows d @ [f]\<rparr>)"

definition frozen_origins :: "db \<Rightarrow> string set" where
  "frozen_origins d = set (map fe_origin_node (filter fe_frozen (fork_rows d)))"

text \<open>A position at or below the head.\<close>

definition admit_held :: "crypto \<Rightarrow> uuid_cast \<Rightarrow> gate \<Rightarrow> int \<Rightarrow> event \<Rightarrow> admission \<Rightarrow> admission result" where
  "admit_held cr uc g now e s =
     (case row_at (ad_db s) (origin_node e) (origin_seq e) of
        None \<Rightarrow> Inr (reject e Collision s)
      | Some mine \<Rightarrow>
          if event_id mine = event_id e
          then (if \<not> materialized mine \<and> \<not> is_stub e
                then (if unrequested g e then Inr (report_only e Scope_unrequested s)
                      else if event_verify (sha256 cr) e
                      then bind_result (upgrade_stub cr uc now e (ad_db s)) (\<lambda>d.
                             Inr (s\<lparr>ad_db := d, ad_admitted := ad_admitted s @ [event_id e]\<rparr>))
                      else Inr (report_only e Upgrade_digest_mismatch s))
                else Inr s)
          else if event_verify (sha256 cr) e \<and> authenticated cr g e None
          then Inr (reject e (Fork (classify_fork g mine e))
                 (s\<lparr>ad_db := insert_fork (fork_row g mine e) (ad_db s),
                    ad_frozen := insert (origin_node e) (ad_frozen s)\<rparr>))
          else Inr (reject e Collision s))"

text \<open>The genesis watch.\<close>

fun record_conflicts :: "string \<Rightarrow> string \<Rightarrow> string list \<Rightarrow> (string \<times> string \<times> string) list
    \<Rightarrow> (string \<times> string \<times> string) list" where
  "record_conflicts key dg [] t = t"
| "record_conflicts key dg (other # os) t =
     (let row = (key, min other dg, max other dg)
      in record_conflicts key dg os (if row \<in> set t then t else t @ [row]))"

definition rival_geneses :: "authority_configuration \<Rightarrow> db \<Rightarrow> string list" where
  "rival_geneses c d = map (\<lambda>(_, r). cfg_configuration_digest (ac_configuration r))
     (filter (\<lambda>(_, r). cfg_authority_key (ac_configuration r) = cfg_authority_key c
        \<and> cfg_prior_configuration_digest (ac_configuration r) = None
        \<and> cfg_configuration_digest (ac_configuration r) \<noteq> cfg_configuration_digest c)
        (event_authority_configuration d))"

definition genesis_watch :: "crypto \<Rightarrow> gate \<Rightarrow> event \<Rightarrow> admission \<Rightarrow> admission" where
  "genesis_watch cr g e s =
     (case payload e of
        Some (AuthorityConfiguration c) \<Rightarrow>
          if cfg_prior_configuration_digest c \<noteq> None then s
          else if \<not> facially_valid_genesis cr c (g_keys g) then report_only e Authority_genesis_unproven s
          else (let others = rival_geneses c (ad_db s)
                in foldl (\<lambda>s _. report_only e Authority_genesis_conflict s)
                     (s\<lparr>ad_db := (ad_db s)\<lparr>authority_conflicts := record_conflicts (cfg_authority_key c)
                        (cfg_configuration_digest c) others (authority_conflicts (ad_db s))\<rparr>\<rparr>) others)
      | _ \<Rightarrow> s)"

text \<open>The gate on a new position, as the reason of the first check that refuses.\<close>

definition refusal :: "crypto \<Rightarrow> gate \<Rightarrow> (int \<times> string) option \<Rightarrow> event \<Rightarrow> reason option" where
  "refusal cr g head e =
     (if origin_seq e \<noteq> (case head of Some (s, _) \<Rightarrow> s | None \<Rightarrow> 0) + 1 then Some Chain_gap
      else if prev_hash e \<noteq> map_option snd head then Some Chain_break
      else (case temporal_admissible (g_max_skew g) (hlc e) (g_now_ms g) of
              Some why \<Rightarrow> Some why
            | None \<Rightarrow>
                if (case scope_ref e of
                      Some s \<Rightarrow> scope_digest e \<noteq> Some (scope_digest_of (sha256 cr) s) | None \<Rightarrow> False)
                then Some Scope_digest_mismatch
                else if \<not> event_verify (sha256 cr) e then Some Envelope_invalid
                else (case (signature e, signing_key_ref e, signature_scheme e) of
                        (Some sig, Some k, Some sch) \<Rightarrow>
                          (let ev = evaluate cr (self_hash e) sig k sch (g_keys g) (g_trust g)
                                      (Some (origin_seq e))
                           in if \<not> admit ev
                              then Some (if \<not> provenance_valid ev then Provenance_invalid
                                         else Trust_refused (trust_standing ev))
                              else if node_ref (g_trust g) k \<noteq> Some (origin_node e) then Some Forged_origin
                              else None)
                      | _ \<Rightarrow> Some Unsigned)))"

definition advance_clock :: "string \<Rightarrow> int \<Rightarrow> admission \<Rightarrow> admission result" where
  "advance_clock h now s =
     (case ad_clock s of
        None \<Rightarrow> Inr s
      | Some c \<Rightarrow> bind_result (Ids.hlc_update h now c) (\<lambda>(c', _). Inr (s\<lparr>ad_clock := Some c'\<rparr>)))"

text \<open>What an accepted event does: the row, and for a materialized one the payload, the reducer and the watch.\<close>

definition apply_event :: "crypto \<Rightarrow> uuid_cast \<Rightarrow> gate \<Rightarrow> int \<Rightarrow> event \<Rightarrow> admission \<Rightarrow> admission result" where
  "apply_event cr uc g now e s =
     bind_result (insert_event uc e (ad_db s)) (\<lambda>d1.
       if is_stub e then Inr (s\<lparr>ad_db := d1\<rparr>)
       else bind_result (bind_result (insert_payload uc e d1) (reduce now e)) (\<lambda>d2.
              Inr (genesis_watch cr g e (s\<lparr>ad_db := d2\<rparr>))))"

text \<open>The temporal gate comes right after the two chain checks, and it raises on an overlong stamp.\<close>

definition gate_raises :: "(int \<times> string) option \<Rightarrow> event \<Rightarrow> bool" where
  "gate_raises head e \<longleftrightarrow> origin_seq e = (case head of Some (s, _) \<Rightarrow> s | None \<Rightarrow> 0) + 1
     \<and> prev_hash e = map_option snd head \<and> hlc_raises (hlc e)"

definition admit_new :: "crypto \<Rightarrow> uuid_cast \<Rightarrow> gate \<Rightarrow> int \<Rightarrow> event \<Rightarrow> admission \<Rightarrow> admission result" where
  "admit_new cr uc g now e s =
     (if gate_raises (ad_heads s (origin_node e)) e then Inl (ValueError ''int'') else
      case refusal cr g (ad_heads s (origin_node e)) e of
        Some why \<Rightarrow> Inr (reject e why s)
      | None \<Rightarrow>
          (let dropped = unrequested g e \<and> \<not> is_stub e;
               s1 = (if dropped then report_only e Scope_unrequested s else s);
               e1 = (if dropped then withhold e else e)
           in bind_result (apply_event cr uc g now e1 s1) (\<lambda>s2.
                bind_result (advance_clock (hlc e1) now
                    (s2\<lparr>ad_heads := (ad_heads s2)(origin_node e1 \<mapsto> (origin_seq e1, self_hash e1))\<rparr>)) (\<lambda>s3.
                  Inr (s3\<lparr>ad_admitted := ad_admitted s3 @ [event_id e1]\<rparr>)))))"

lemma admit_new_refused:
  assumes "admit_new cr uc g now e s = Inr s'" "refusal cr g (ad_heads s (origin_node e)) e = Some why"
  shows "s' = reject e why s"
  using assms by (simp add: admit_new_def split: if_splits)

text \<open>
  A peer that sends the next envelope of an origin with a stamp of 4301 digits ends the whole batch:
  the signature is never looked at.
\<close>

lemma overlong_stamp_raises:
  assumes "gate_raises (ad_heads s (origin_node e)) e"
  shows "admit_new cr uc g now e s = Inl (ValueError ''int'')"
  using assms by (simp add: admit_new_def)

definition admit_one :: "crypto \<Rightarrow> uuid_cast \<Rightarrow> gate \<Rightarrow> int \<Rightarrow> event \<Rightarrow> admission \<Rightarrow> admission result" where
  "admit_one cr uc g now e s =
     (if origin_node e \<in> ad_frozen s then Inr (reject e Origin_frozen s)
      else if origin_node e \<in> ad_poisoned s then Inr (reject e Predecessor_rejected s)
      else if origin_seq e \<le> (case ad_heads s (origin_node e) of Some (q, _) \<Rightarrow> q | None \<Rightarrow> 0)
      then admit_held cr uc g now e s
      else admit_new cr uc g now e s)"

fun admit_loop :: "crypto \<Rightarrow> uuid_cast \<Rightarrow> gate \<Rightarrow> int \<Rightarrow> event list \<Rightarrow> admission
    \<Rightarrow> hlc_clock option \<times> admission result" where
  "admit_loop cr uc g now [] s = (ad_clock s, Inr s)"
| "admit_loop cr uc g now (e # es) s =
     (case admit_one cr uc g now e s of
        Inl err \<Rightarrow> (ad_clock s, Inl err)
      | Inr s' \<Rightarrow> admit_loop cr uc g now es s')"

definition admission_start :: "hlc_clock option \<Rightarrow> db \<Rightarrow> admission" where
  "admission_start clock d =
     \<lparr>ad_db = d, ad_clock = clock,
      ad_heads = (\<lambda>n. map_option (\<lambda>r. (origin_seq r, self_hash r)) (origin_head d n)),
      ad_frozen = frozen_origins d, ad_poisoned = {}, ad_admitted = [], ad_rejected = []\<rparr>"

definition admit_batch :: "crypto \<Rightarrow> uuid_cast \<Rightarrow> gate \<Rightarrow> int \<Rightarrow> event list \<Rightarrow> hlc_clock option \<Rightarrow> db
    \<Rightarrow> hlc_clock option \<times> (pull_report \<times> db) result" where
  "admit_batch cr uc g now batch clock d =
     (case admit_loop cr uc g now batch (admission_start clock d) of
        (c, Inl err) \<Rightarrow> (c, Inl err)
      | (c, Inr s) \<Rightarrow> (c, Inr (\<lparr>pr_admitted = ad_admitted s, pr_rejected = ad_rejected s\<rparr>, ad_db s)))"

section \<open>One pull\<close>

definition offered :: "trust_registry option \<Rightarrow> string option \<Rightarrow> string list option \<Rightarrow> string set" where
  "offered source_trust puller scopes =
     (let granted = (case (source_trust, puller) of (Some t, Some n) \<Rightarrow> scope_grants t n | _ \<Rightarrow> {})
      in case scopes of None \<Rightarrow> granted | Some ss \<Rightarrow> granted \<inter> set ss)"

definition pull ::
    "crypto \<Rightarrow> uuid_cast \<Rightarrow> key_registry \<Rightarrow> trust_registry \<Rightarrow> trust_registry option \<Rightarrow> string option
      \<Rightarrow> string list option \<Rightarrow> int \<Rightarrow> int \<Rightarrow> hlc_clock option \<Rightarrow> db \<Rightarrow> db
      \<Rightarrow> hlc_clock option \<times> (pull_report \<times> db) result" where
  "pull cr uc keys trust source_trust puller scopes max_skew now clock dest source =
     (case bind_result (read_stream cr source (frontier dest)) (\<lambda>stream.
             case scopes of
               Some (s # ss) \<Rightarrow>
                 bind_result (read_positions cr source (held_stub_positions cr dest (s # ss)))
                   (\<lambda>more. Inr (stream @ more))
             | _ \<Rightarrow> Inr stream) of
        Inl err \<Rightarrow> (clock, Inl err)
      | Inr stream \<Rightarrow>
          admit_batch cr uc
            \<lparr>g_keys = keys, g_trust = trust, g_requested = map_option set scopes,
             g_max_skew = max_skew, g_now_ms = now\<rparr>
            now (serve_batch stream (Some (offered source_trust puller scopes))) clock dest)"

section \<open>Incarnation intervals\<close>

type_synonym interval = "string option \<times> int \<times> int"

fun extend_interval :: "interval list \<Rightarrow> string option \<times> int \<Rightarrow> interval list" where
  "extend_interval [] (inc, seq) = [(inc, seq, seq)]"
| "extend_interval (x # y # ivs) p = x # extend_interval (y # ivs) p"
| "extend_interval [(i, lo, hi)] (inc, seq) =
     (if i = inc \<and> hi = seq - 1 then [(inc, lo, seq)] else [(i, lo, hi), (inc, seq, seq)])"

definition incarnation_intervals :: "db \<Rightarrow> trust_registry \<Rightarrow> string \<Rightarrow> interval list" where
  "incarnation_intervals d trust node =
     foldl extend_interval []
       (map (\<lambda>r. (Option.bind (signing_key_ref r) (\<lambda>k. if k = [] then None else incarnation_ref trust k),
                  origin_seq r))
         (sort_key origin_seq (filter (\<lambda>r. origin_node r = node) (events d))))"

text \<open>A violation is the interval its message names.\<close>

fun interval_violations :: "string option list \<Rightarrow> interval list \<Rightarrow> interval list" where
  "interval_violations seen [] = []"
| "interval_violations seen ((inc, lo, hi) # ivs) =
     (if inc \<in> set seen then [(inc, lo, hi)] else []) @ interval_violations (inc # seen) ivs"

definition check_incarnation_contiguity :: "interval list \<Rightarrow> interval list" where
  "check_incarnation_contiguity = interval_violations []"

end
