(* ===== verification/Replica_Projection.thy ===== *)
theory Replica_Projection
  imports Replication Standing
begin

text \<open>
  Pulling and the projections: every event a batch admits (as a stub, as a whole, or as the
  upgrade of a stub) leaves the database projected, so after any number of pulls the projections
  are what a rebuild computes from the log held.
\<close>

section \<open>A stub arrives\<close>

lemma stub_joined:
  assumes "lookup_plus row d d'" "event_id row \<notin> fst ` set t"
  shows "joined d' t c = joined d t c"
  using joined_append_none [OF assms(1) _ assms(2), of "[]" c] by simp

lemma stub_keeps:
  assumes "projected d" "insert_event uc e d = Inr d'" "is_stub e"
  shows "projected d'"
proof -
  obtain s where s: "d' = d\<lparr>events := events d @ [row_of_event e (\<not> is_stub e) s]\<rparr>"
    "event_id e \<notin> event_id ` set (events d)"
    using insert_event_Inr [OF assms(2)] by metis
  define row where "row = row_of_event e (\<not> is_stub e) s"
  have d': "d' = d\<lparr>events := events d @ [row]\<rparr>" and new: "event_id row \<notin> event_id ` set (events d)"
    using s by (simp_all add: row_def)
  have ev: "events d' = events d @ [row]" by (simp add: d')
  have f: "find_event d' eid = (if eid = event_id row then Some row else find_event d eid)" for eid
    by (rule find_event_append [OF new ev])
  have lp: "lookup_plus row d d'" using f by (simp add: lookup_plus_def)
  have nm: "not_materialized d (event_id row)" using find_event_new [OF new] by (simp add: not_materialized_def)
  have held: "facts_held d" and fr: "fresh d {} {} {}" and c: "complete d {} {} {} {}"
    using assms(1) by (auto simp: projected_def)
  have out: "event_id row \<notin> fst ` set (event_work d)" "event_id row \<notin> fst ` set (event_result d)"
    "event_id row \<notin> fst ` set (event_plan d)"
    using held held_not_new [OF _ nm] unfolding facts_held_def by blast+
  have tables: "event_work d' = event_work d" "event_result d' = event_result d" "event_plan d' = event_plan d"
    "event_work_retired d' = event_work_retired d" "event_work_dependency d' = event_work_dependency d"
    "current_work d' = current_work d" "current_plans d' = current_plans d"
    "current_work_dependency d' = current_work_dependency d" "quarantine d' = quarantine d"
    by (simp_all add: d')
  note j = stub_joined [OF lp]
  have q: "latest_derive d' w = latest_derive d w" "consumers d' w k = consumers d w k"
    "latest_plan_created d' p = latest_plan_created d p" "latest_lifecycle d' p = latest_lifecycle d p"
    "is_retired d' w = is_retired d w" "latest_result d' w = latest_result d w" for w k p
    unfolding latest_derive_def consumers_def latest_plan_created_def latest_lifecycle_def is_retired_def
      latest_result_def latest_def quarantined_def tables j [OF out(1)] j [OF out(2)] j [OF out(3)]
    by (rule refl)+
  have rows: "dependency_rows d' w = dependency_rows d w" for w by (simp add: dependency_rows_def tables)
  have core: "core_of d' w = core_of d w" "dep_state_of d' w = dep_state_of d w"
    "dep_result_of d' w = dep_result_of d w" for w
    unfolding core_of_def execution_of_def columns_of_def dep_state_of_def dep_result_of_def q rows by (rule refl)+
  have plan: "plan_core_of d' p = plan_core_of d p" for p unfolding plan_core_of_def q ..
  have ids: "quarantined_ids d' = quarantined_ids d" by (simp add: quarantined_ids_def tables)
  have "fresh d' {} {} {}"
    using fr unfolding fresh_def facts_ok_def quarantine_ok_def fresh_works_def fresh_deps_def fresh_plans_def
      tables q core plan .
  moreover have "complete d' {} {} {} {}"
    using c unfolding complete_def has_edge_def settled_occurrence_def tables q ids .
  moreover have "facts_held d'"
  proof -
    have kept: "has_row d' i K" if "has_row d i K" for i K
    proof -
      have "i \<noteq> event_id row" using that nm by (auto simp: has_row_def not_materialized_def)
      with that show ?thesis by (simp add: has_row_def f)
    qed
    have "distinct (map event_id (events d'))" using held new by (simp add: facts_held_def ev)
    with held kept show ?thesis unfolding facts_held_def tables by fast
  qed
  ultimately show ?thesis by (simp add: projected_def)
qed

section \<open>A stub is upgraded\<close>

lemma materialize_row_Inr:
  assumes "materialize_row e d = Inr d'"
  shows "d' = d\<lparr>events := map (\<lambda>r. if event_id r = event_id e
             then r\<lparr>materialized := True, scope_ref := scope_ref e\<rparr> else r) (events d)\<rparr>"
    "\<forall>r \<in> set (events d). event_id r = event_id e \<longrightarrow> \<not> materialized r \<and> scope_ref r = None"
  using assms by (auto simp: materialize_row_def list_ex_iff split: if_splits)

lemma upgrade_arrives:
  assumes "materialize_row e d = Inr d1" "insert_payload uc e d1 = Inr d2" "payload e = Some p"
    and "r \<in> set (events d)" "event_id r = event_id e" "kind r = payload_kind p"
    and "distinct (map event_id (events d))"
  obtains row where "arrives row p d d2" "event_id row = event_id e"
proof -
  let ?up = "\<lambda>r. r\<lparr>materialized := True, scope_ref := scope_ref e\<rparr>"
  note m = materialize_row_Inr [OF assms(1)]
  have ev: "events d2 = map (\<lambda>r. if event_id r = event_id e then ?up r else r) (events d)"
    using insert_payload_events [OF assms(2)] m(1) by simp
  have find: "List.find (\<lambda>q. event_id q = eid) (map (\<lambda>r. if event_id r = event_id e then ?up r else r) rs)
      = (if eid = event_id e then map_option ?up (List.find (\<lambda>q. event_id q = eid) rs)
         else List.find (\<lambda>q. event_id q = eid) rs)" for eid rs
    by (induction rs) auto
  have found: "find_event d (event_id e) = Some r"
    using assms(4,5,7) find_event_set by blast
  have "lookup_plus (?up r) d d2"
    using found assms(5) by (simp add: lookup_plus_def find_event_def ev find)
  moreover have "not_materialized d (event_id (?up r))"
    using m(2) assms(5) found find_event_Some by (fastforce simp: not_materialized_def)
  moreover have "adds_rows (event_id (?up r)) p (d\<lparr>events := events d2\<rparr>) d2"
    using insert_payload_adds [OF assms(2,3)] m(1) ev assms(5) by simp
  moreover have "map event_id (events d2) = map event_id (events d)" by (simp add: ev)
  then have "distinct (map event_id (events d2))" using assms(7) by (simp only:)
  ultimately have "arrives (?up r) p d d2" using assms(6) by (simp add: arrives_def)
  then show thesis using that assms(5) by simp
qed

text \<open>A payload that lands on an arrival, reduced.\<close>

lemma arrival_reduced:
  assumes "projected d" "arrives row p d d2" "event_id row = event_id e" "payload e = Some p" "reduce now e d2 = Inr d'"
  shows "projected d'"
proof -
  note k = arrives_keeps [OF assms(1,2)]
  have "held d2 (event_id e) p" using k(2) assms(3) by simp
  from reduce_keeps [OF k(3,4) assms(4) this assms(5)] facts_held_facts [of d2 d'] k(1)
  show ?thesis by (simp add: projected_def)
qed

lemma upgrade_keeps:
  assumes "projected d" "upgrade_stub cr uc now e d = Inr d'" "payload e = Some p"
    and "r \<in> set (events d)" "event_id r = event_id e" "kind r = payload_kind p"
  shows "projected d'"
proof -
  obtain d1 d2 where i: "materialize_row e d = Inr d1" "insert_payload uc e d1 = Inr d2" "reduce now e d2 = Inr d'"
    using assms(2) by (auto simp: upgrade_stub_def)
  have "distinct (map event_id (events d))" using assms(1) by (simp add: projected_def facts_held_def)
  then obtain row where "arrives row p d d2" "event_id row = event_id e"
    using upgrade_arrives [OF i(1,2) assms(3-6)] by blast
  from arrival_reduced [OF assms(1) this assms(3) i(3)] show ?thesis .
qed

section \<open>A whole batch\<close>

text \<open>The tables of the trust plane are not read by the projections.\<close>

lemma projected_cong:
  assumes t: "events d' = events d" "event_work d' = event_work d" "event_result d' = event_result d"
    "event_plan d' = event_plan d" "event_work_retired d' = event_work_retired d"
    "event_work_dependency d' = event_work_dependency d" "current_work d' = current_work d"
    "current_plans d' = current_plans d" "current_work_dependency d' = current_work_dependency d"
    "quarantine d' = quarantine d"
  shows "projected d' = projected d"
proof -
  have q: "latest_derive d' w = latest_derive d w" "consumers d' w k = consumers d w k"
    "latest_plan_created d' p = latest_plan_created d p" "latest_lifecycle d' p = latest_lifecycle d p"
    "is_retired d' w = is_retired d w" "latest_result d' w = latest_result d w"
    "dependency_rows d' w = dependency_rows d w" "quarantined_ids d' = quarantined_ids d"
    "has_row d' i K = has_row d i K" "has_edge d' w v = has_edge d w v" "facts_ok d' = facts_ok d"
    for w k p i K v
    by (simp_all add: latest_derive_def consumers_def latest_plan_created_def latest_lifecycle_def is_retired_def
        latest_result_def latest_def joined_def find_event_def quarantined_def dependency_rows_def
        quarantined_ids_def has_row_def has_edge_def facts_ok_def t)
  have c: "core_of d' w = core_of d w" "dep_state_of d' w = dep_state_of d w" "plan_core_of d' w = plan_core_of d w"
    "dep_result_of d' w = dep_result_of d w" for w
    unfolding core_of_def execution_of_def columns_of_def dep_state_of_def dep_result_of_def plan_core_of_def q by (rule refl)+
  show ?thesis
    unfolding projected_def facts_held_def fresh_def complete_def quarantine_ok_def fresh_works_def
      fresh_deps_def fresh_plans_def settled_occurrence_def q c t ..
qed

lemma projected_frames [frame_simps]:
  "projected (d\<lparr>authority_conflicts := ac\<rparr>) = projected d"
  "projected (d\<lparr>fork_rows := fr\<rparr>) = projected d"
  by (rule projected_cong; simp)+

text \<open>\<open>kd\<close> names the kind of an identity: a row and an event of one identity carry one kind.\<close>

definition kinds_agree :: "(string \<Rightarrow> event_kind) \<Rightarrow> event list \<Rightarrow> bool" where
  "kinds_agree kd es \<longleftrightarrow> (\<forall>e \<in> set es. kind e = kd (event_id e)
     \<and> (case payload e of Some p \<Rightarrow> payload_kind p = kind e | None \<Rightarrow> True))"

definition rows_agree :: "(string \<Rightarrow> event_kind) \<Rightarrow> db \<Rightarrow> bool" where
  "rows_agree kd d \<longleftrightarrow> (\<forall>r \<in> set (events d). kind r = kd (event_id r))"

lemma kinds_agree_Cons:
  "kinds_agree kd (e # es) \<longleftrightarrow> kinds_agree kd [e] \<and> kinds_agree kd es"
  unfolding kinds_agree_def list.set by blast

lemma row_at_Some: "row_at d n q = Some r \<Longrightarrow> r \<in> set (events d) \<and> origin_node r = n \<and> origin_seq r = q"
  by (auto simp: row_at_def find_Some_iff)

lemma withhold_simps [simp]:
  "event_id (withhold e) = event_id e" "origin_node (withhold e) = origin_node e"
  "origin_seq (withhold e) = origin_seq e" "self_hash (withhold e) = self_hash e" "hlc (withhold e) = hlc e"
  "prev_hash (withhold e) = prev_hash e" "kind (withhold e) = kind e" "is_stub (withhold e)"
  "signature (withhold e) = signature e" "signing_key_ref (withhold e) = signing_key_ref e"
  "signature_scheme (withhold e) = signature_scheme e" "envelope_version (withhold e) = envelope_version e"
  by (simp_all add: withhold_def is_stub_def)

lemma report_only_simps [simp]:
  "ad_db (report_only e why s) = ad_db s" "ad_heads (report_only e why s) = ad_heads s"
  "ad_frozen (report_only e why s) = ad_frozen s" "ad_poisoned (report_only e why s) = ad_poisoned s"
  "ad_clock (report_only e why s) = ad_clock s" "ad_admitted (report_only e why s) = ad_admitted s"
  by (simp_all add: report_only_def)

lemma reject_simps [simp]:
  "ad_db (reject e why s) = ad_db s" "ad_heads (reject e why s) = ad_heads s"
  "ad_frozen (reject e why s) = ad_frozen s" "ad_clock (reject e why s) = ad_clock s"
  "ad_admitted (reject e why s) = ad_admitted s"
  by (simp_all add: reject_def)

lemma genesis_watch_db:
  "\<exists>ac rj. genesis_watch cr g e s = s\<lparr>ad_db := (ad_db s)\<lparr>authority_conflicts := ac\<rparr>, ad_rejected := rj\<rparr>"
proof -
  have same: "s = s\<lparr>ad_db := (ad_db s)\<lparr>authority_conflicts := authority_conflicts (ad_db s)\<rparr>, ad_rejected := ad_rejected s\<rparr>"
    by simp
  have fold: "\<exists>rj. foldl (\<lambda>s _. report_only e why s) s os = s\<lparr>ad_rejected := rj\<rparr>" for s why and os :: "string list"
  proof (induction os arbitrary: s)
    case Nil
    have "s = s\<lparr>ad_rejected := ad_rejected s\<rparr>" by simp
    then show ?case unfolding foldl_Nil by blast
  next
    case (Cons a os)
    from Cons.IH [of "report_only e why s"] show ?case by (auto simp: report_only_def)
  qed
  show ?thesis
  proof (cases "\<exists>c. payload e = Some (AuthorityConfiguration c) \<and> cfg_prior_configuration_digest c = None")
    case False
    then have "genesis_watch cr g e s = s"
      by (auto simp: genesis_watch_def split: option.splits payload.splits)
    with same show ?thesis by metis
  next
    case True
    then obtain c where c: "payload e = Some (AuthorityConfiguration c)" "cfg_prior_configuration_digest c = None" by blast
    show ?thesis
    proof (cases "facially_valid_genesis cr c (g_keys g)")
      case False
      with c have "genesis_watch cr g e s = report_only e Authority_genesis_unproven s" by (simp add: genesis_watch_def)
      then have "genesis_watch cr g e s = s\<lparr>ad_db := (ad_db s)\<lparr>authority_conflicts := authority_conflicts (ad_db s)\<rparr>,
          ad_rejected := ad_rejected (report_only e Authority_genesis_unproven s)\<rparr>"
        by (simp add: report_only_def)
      then show ?thesis by blast
    next
      case True
      obtain ac where ac: "genesis_watch cr g e s = foldl (\<lambda>s _. report_only e Authority_genesis_conflict s)
          (s\<lparr>ad_db := (ad_db s)\<lparr>authority_conflicts := ac\<rparr>\<rparr>) (rival_geneses c (ad_db s))"
        using True c by (simp add: genesis_watch_def Let_def)
      from fold [of "Authority_genesis_conflict" "s\<lparr>ad_db := (ad_db s)\<lparr>authority_conflicts := ac\<rparr>\<rparr>"
          "rival_geneses c (ad_db s)"] show ?thesis unfolding ac by auto
    qed
  qed
qed

lemma genesis_watch_simps [simp]:
  "events (ad_db (genesis_watch cr g e s)) = events (ad_db s)"
  "fork_rows (ad_db (genesis_watch cr g e s)) = fork_rows (ad_db s)"
  "ad_heads (genesis_watch cr g e s) = ad_heads s" "ad_frozen (genesis_watch cr g e s) = ad_frozen s"
  "ad_clock (genesis_watch cr g e s) = ad_clock s" "ad_poisoned (genesis_watch cr g e s) = ad_poisoned s"
  "ad_admitted (genesis_watch cr g e s) = ad_admitted s"
  "projected (ad_db (genesis_watch cr g e s)) = projected (ad_db s)"
  using genesis_watch_db [of cr g e s] by (auto simp: frame_simps)

lemma advance_clock_simps:
  assumes "advance_clock h now s = Inr s'"
  shows "ad_db s' = ad_db s" "ad_heads s' = ad_heads s" "ad_frozen s' = ad_frozen s" "ad_poisoned s' = ad_poisoned s"
    "ad_admitted s' = ad_admitted s" "ad_rejected s' = ad_rejected s"
  using assms by (auto simp: advance_clock_def split: option.splits)

lemma reduce_events: "reduce now e d = Inr d' \<Longrightarrow> events d' = events d"
  using reduce_same_facts same_factsD(1) by metis

lemma upgrade_events:
  assumes "upgrade_stub cr uc now e d = Inr d'"
  shows "events d' = map (\<lambda>r. if event_id r = event_id e
    then r\<lparr>materialized := True, scope_ref := scope_ref e\<rparr> else r) (events d)"
    "\<forall>r \<in> set (events d). event_id r = event_id e \<longrightarrow> \<not> materialized r \<and> scope_ref r = None"
proof -
  obtain d1 d2 where i: "materialize_row e d = Inr d1" "insert_payload uc e d1 = Inr d2" "reduce now e d2 = Inr d'"
    using assms by (auto simp: upgrade_stub_def)
  note m = materialize_row_Inr [OF i(1)]
  show "events d' = map (\<lambda>r. if event_id r = event_id e
    then r\<lparr>materialized := True, scope_ref := scope_ref e\<rparr> else r) (events d)"
    using reduce_events [OF i(3)] insert_payload_events [OF i(2)] m(1) by simp
  show "\<forall>r \<in> set (events d). event_id r = event_id e \<longrightarrow> \<not> materialized r \<and> scope_ref r = None" by (rule m(2))
qed

lemma apply_event_events:
  assumes "apply_event cr uc g now e s = Inr s'"
  obtains subj where "events (ad_db s') = events (ad_db s) @ [row_of_event e (\<not> is_stub e) subj]"
    "event_id e \<notin> event_id ` set (events (ad_db s))" "cast_uuid uc (subject_ref e) = Inr subj"
proof -
  obtain d1 where d1: "insert_event uc e (ad_db s) = Inr d1" using assms by (auto simp: apply_event_def)
  obtain subj where s: "d1 = ad_db s\<lparr>events := events (ad_db s) @ [row_of_event e (\<not> is_stub e) subj]\<rparr>"
    "event_id e \<notin> event_id ` set (events (ad_db s))" "cast_uuid uc (subject_ref e) = Inr subj"
    using insert_event_Inr [OF d1] by metis
  have "events (ad_db s') = events d1"
    using assms d1 by (auto simp: apply_event_def reduce_events insert_payload_events split: if_splits)
  with s that show thesis by simp
qed

lemma apply_event_projected:
  assumes "projected (ad_db s)" "apply_event cr uc g now e s = Inr s'"
    and "case payload e of Some p \<Rightarrow> payload_kind p = kind e | None \<Rightarrow> True"
  shows "projected (ad_db s')"
proof -
  obtain d1 where d1: "insert_event uc e (ad_db s) = Inr d1" using assms(2) by (auto simp: apply_event_def)
  show ?thesis
  proof (cases "is_stub e")
    case True
    with assms(2) d1 have "ad_db s' = d1" by (auto simp: apply_event_def)
    with stub_keeps [OF assms(1) d1 True] show ?thesis by simp
  next
    case False
    then obtain p where p: "payload e = Some p" by (auto simp: is_stub_def)
    obtain d2 d3 where i: "insert_payload uc e d1 = Inr d2" "reduce now e d2 = Inr d3"
      "s' = genesis_watch cr g e (s\<lparr>ad_db := d3\<rparr>)"
      using assms(2) d1 False by (auto simp: apply_event_def)
    have "well_kinded e" using assms(3) p by (simp add: well_kinded_def)
    moreover have "record_event uc now e (ad_db s) = Inr d3"
      using d1 i by (simp add: record_event_def)
    ultimately show ?thesis using record_event_projected [OF assms(1)] i(3) by simp
  qed
qed

definition admission_ok :: "(string \<Rightarrow> event_kind) \<Rightarrow> admission \<Rightarrow> bool" where
  "admission_ok kd s \<longleftrightarrow> projected (ad_db s) \<and> rows_agree kd (ad_db s)"

lemma admit_one_cases:
  assumes "admit_one cr uc g now e s = Inr s'"
  obtains (refused) "events (ad_db s') = events (ad_db s)" "ad_heads s' = ad_heads s" "ad_clock s' = ad_clock s"
      "ad_admitted s' = ad_admitted s"
      "ad_db s' = ad_db s \<or> (\<exists>f. ad_db s' = insert_fork f (ad_db s))"
      "ad_frozen s \<subseteq> ad_frozen s'"
  | (upgraded) mine d where "origin_node e \<notin> ad_frozen s" "row_at (ad_db s) (origin_node e) (origin_seq e) = Some mine"
      "event_id mine = event_id e" "\<not> materialized mine" "\<not> is_stub e" "\<not> unrequested g e" "event_verify (sha256 cr) e"
      "upgrade_stub cr uc now e (ad_db s) = Inr d"
      "s' = s\<lparr>ad_db := d, ad_admitted := ad_admitted s @ [event_id e]\<rparr>"
  | (new) e1 s1 s2 where "origin_node e \<notin> ad_frozen s" "refusal cr g (ad_heads s (origin_node e)) e = None"
      "e1 = (if unrequested g e \<and> \<not> is_stub e then withhold e else e)"
      "ad_db s1 = ad_db s" "ad_heads s1 = ad_heads s" "ad_frozen s1 = ad_frozen s" "ad_admitted s1 = ad_admitted s"
      "ad_clock s1 = ad_clock s"
      "apply_event cr uc g now e1 s1 = Inr s2"
      "ad_db s' = ad_db s2" "ad_heads s' = (ad_heads s)(origin_node e \<mapsto> (origin_seq e, self_hash e))"
      "ad_frozen s' = ad_frozen s" "ad_admitted s' = ad_admitted s @ [event_id e]"
proof -
  consider (f) "origin_node e \<in> ad_frozen s" | (p) "origin_node e \<notin> ad_frozen s" "origin_node e \<in> ad_poisoned s"
    | (h) "origin_node e \<notin> ad_frozen s" "admit_held cr uc g now e s = Inr s'"
    | (n) "origin_node e \<notin> ad_frozen s" "admit_new cr uc g now e s = Inr s'"
    using assms by (auto simp: admit_one_def split: if_splits)
  then show thesis
  proof cases
    case f
    with assms have "s' = reject e Origin_frozen s" by (simp add: admit_one_def)
    then show thesis by (intro refused) simp_all
  next
    case p
    with assms have "s' = reject e Predecessor_rejected s" by (simp add: admit_one_def)
    then show thesis by (intro refused) simp_all
  next
    case h
    show thesis
    proof (cases "row_at (ad_db s) (origin_node e) (origin_seq e)")
      case None
      with h have "s' = reject e Collision s" by (simp add: admit_held_def)
      then show thesis by (intro refused) simp_all
    next
      case (Some mine)
      show thesis
      proof (cases "event_id mine = event_id e \<and> \<not> materialized mine \<and> \<not> is_stub e \<and> \<not> unrequested g e
          \<and> event_verify (sha256 cr) e")
        case True
        with h(2) Some obtain d where "upgrade_stub cr uc now e (ad_db s) = Inr d"
          "s' = s\<lparr>ad_db := d, ad_admitted := ad_admitted s @ [event_id e]\<rparr>"
          by (auto simp: admit_held_def)
        with True show thesis by (intro upgraded [OF h(1) Some]) simp_all
      next
        case False
        with h(2) Some have "s' = s \<or> (\<exists>why. s' = report_only e why s) \<or> (\<exists>why. s' = reject e why s)
            \<or> (\<exists>why f. s' = reject e why (s\<lparr>ad_db := insert_fork f (ad_db s),
                  ad_frozen := insert (origin_node e) (ad_frozen s)\<rparr>))"
          by (auto simp: admit_held_def split: if_splits)
        then consider "s' = s" | why where "s' = report_only e why s" | why where "s' = reject e why s"
          | why f where "s' = reject e why (s\<lparr>ad_db := insert_fork f (ad_db s),
                  ad_frozen := insert (origin_node e) (ad_frozen s)\<rparr>)" by blast
        then show thesis
        proof cases
          case 4
          then show thesis by (intro refused) (simp_all add: insert_fork_def, blast+)
        qed (intro refused; simp)+
      qed
    qed
  next
    case n
    show thesis
    proof (cases "refusal cr g (ad_heads s (origin_node e)) e")
      case (Some why)
      with n have "s' = reject e why s" using admit_new_refused by blast
      then show thesis by (intro refused) simp_all
    next
      case None
      define e1 where "e1 = (if unrequested g e \<and> \<not> is_stub e then withhold e else e)"
      define s1 where "s1 = (if unrequested g e \<and> \<not> is_stub e then report_only e Scope_unrequested s else s)"
      from n(2) None obtain s2 s3 where a: "apply_event cr uc g now e1 s1 = Inr s2"
        "advance_clock (hlc e1) now (s2\<lparr>ad_heads := (ad_heads s2)(origin_node e1 \<mapsto> (origin_seq e1, self_hash e1))\<rparr>) = Inr s3"
        "s' = s3\<lparr>ad_admitted := ad_admitted s3 @ [event_id e1]\<rparr>"
        unfolding admit_new_def e1_def s1_def by (auto simp: Let_def split: if_splits)
      note c = advance_clock_simps [OF a(2)]
      have ids: "origin_node e1 = origin_node e" "origin_seq e1 = origin_seq e" "self_hash e1 = self_hash e"
        "event_id e1 = event_id e" by (simp_all add: e1_def)
      have s1: "ad_db s1 = ad_db s" "ad_heads s1 = ad_heads s" "ad_frozen s1 = ad_frozen s"
        "ad_admitted s1 = ad_admitted s" "ad_clock s1 = ad_clock s" by (simp_all add: s1_def)
      have s2: "ad_heads s2 = ad_heads s1" "ad_frozen s2 = ad_frozen s1" "ad_admitted s2 = ad_admitted s1"
        using a(1) by (auto simp: apply_event_def split: if_splits)
      show thesis
        by (rule new [OF n(1) None e1_def s1 a(1)]) (simp_all add: a(3) c ids s1 s2)
    qed
  qed
qed

lemma insert_fork_simps [simp]:
  "events (insert_fork f d) = events d" "projected (insert_fork f d) = projected d"
  by (simp_all add: insert_fork_def frame_simps)

lemma admit_one_ok:
  assumes "admission_ok kd s" "kinds_agree kd [e]" "admit_one cr uc g now e s = Inr s'"
  shows "admission_ok kd s'"
  using assms(3)
proof (cases rule: admit_one_cases)
  case refused
  with assms(1) show ?thesis by (auto simp: admission_ok_def rows_agree_def)
next
  case (upgraded mine d)
  obtain p where p: "payload e = Some p" using upgraded(5) by (auto simp: is_stub_def)
  have mine: "mine \<in> set (events (ad_db s))" using row_at_Some [OF upgraded(2)] by simp
  have "kind mine = payload_kind p"
    using assms(1,2) mine upgraded(3) p by (auto simp: admission_ok_def rows_agree_def kinds_agree_def)
  then have "projected d"
    using upgrade_keeps [OF _ upgraded(8) p mine upgraded(3)] assms(1) by (simp add: admission_ok_def)
  moreover have "rows_agree kd d"
    using assms(1) upgrade_events(1) [OF upgraded(8)] by (auto simp: admission_ok_def rows_agree_def)
  ultimately show ?thesis by (simp add: admission_ok_def upgraded(9))
next
  case (new e1 s1 s2)
  have k: "case payload e1 of Some p \<Rightarrow> payload_kind p = kind e1 | None \<Rightarrow> True"
    using assms(2) by (auto simp: new(3) kinds_agree_def withhold_def is_stub_def split: option.splits)
  have "projected (ad_db s2)"
    using apply_event_projected [OF _ new(9) k] assms(1) by (simp add: new(4) admission_ok_def)
  moreover have "rows_agree kd (ad_db s2)"
  proof -
    obtain subj where "events (ad_db s2) = events (ad_db s1) @ [row_of_event e1 (\<not> is_stub e1) subj]"
      using apply_event_events [OF new(9)] by metis
    moreover have "kind e1 = kd (event_id e1)" using assms(2) by (simp add: new(3) kinds_agree_def)
    ultimately show ?thesis using assms(1) by (auto simp: admission_ok_def rows_agree_def new(4))
  qed
  ultimately show ?thesis by (simp add: admission_ok_def new(10))
qed

lemma admit_loop_ok:
  "admission_ok kd s \<Longrightarrow> kinds_agree kd es \<Longrightarrow> admit_loop cr uc g now es s = (c, Inr s') \<Longrightarrow> admission_ok kd s'"
proof (induction cr uc g now es s rule: admit_loop.induct)
  case (2 cr uc g now e es s)
  then obtain s1 where s1: "admit_one cr uc g now e s = Inr s1" "admit_loop cr uc g now es s1 = (c, Inr s')"
    by (auto split: sum.splits)
  have "kinds_agree kd [e]" using 2(3) kinds_agree_Cons by blast
  then have "admission_ok kd s1" using admit_one_ok [OF 2(2) _ s1(1)] by blast
  moreover have "kinds_agree kd es" using 2(3) kinds_agree_Cons by blast
  ultimately show ?case using 2(1) [OF s1(1)] s1(2) by blast
qed simp

lemma admit_batch_projected:
  assumes "projected d" "rows_agree kd d" "kinds_agree kd batch"
    and "admit_batch cr uc g now batch clock d = (c, Inr (rep, d'))"
  shows "projected d'"
proof -
  have start: "admission_ok kd (admission_start clock d)"
    using assms(1,2) by (simp add: admission_ok_def admission_start_def)
  obtain s where "admit_loop cr uc g now batch (admission_start clock d) = (c, Inr s)" "ad_db s = d'"
    using assms(4) by (auto simp: admit_batch_def split: prod.splits sum.splits)
  with admit_loop_ok [OF start assms(3)] show ?thesis by (auto simp: admission_ok_def)
qed

end
