(* ===== verification/Replica_Safety.thy ===== *)
theory Replica_Safety
  imports Replica_Projection
begin

text \<open>
  What a batch can do to the log: the chains stay gap-free and linked, whatever is new is
  authenticated for its origin, a frozen origin does not move, held rows only ever gain their
  payload, and no payload outside the requested scopes is kept.
\<close>

section \<open>The chains\<close>

definition admission_log :: "admission \<Rightarrow> bool" where
  "admission_log s \<longleftrightarrow> log_ok (events (ad_db s))
     \<and> (\<forall>n. ad_heads s n = map_option (\<lambda>r. (origin_seq r, self_hash r)) (head_of (events (ad_db s)) n))"

lemma refusal_None:
  assumes "refusal cr g head e = None"
  shows "origin_seq e = (case head of Some (s, _) \<Rightarrow> s | None \<Rightarrow> 0) + 1" "prev_hash e = map_option snd head"
    "temporal_admissible (g_max_skew g) (hlc e) (g_now_ms g) = None" "event_verify (sha256 cr) e"
    "authenticated cr g e (Some (origin_seq e))"
  using assms by (auto simp: refusal_def authenticated_def Let_def split: if_splits option.splits)

lemma event_verify_id: "event_verify sha e \<Longrightarrow> self_hash e = event_id e"
  by (auto simp: event_verify_def Let_def split: if_splits option.splits sum.splits)

lemma head_of_append:
  assumes "follows rs r"
  shows "head_of (rs @ [r]) n = (if n = origin_node r then Some r else head_of rs n)"
proof (cases "n = origin_node r")
  case False
  then show ?thesis by (simp add: head_of_def)
next
  case True
  have above: "origin_seq q < origin_seq r" if "q \<in> set rs" "origin_node q = origin_node r" for q
  proof (cases "head_of rs (origin_node r)")
    case None
    with that show ?thesis by (auto simp: head_of_None)
  next
    case (Some h)
    with assms head_of_Some [OF Some] that show ?thesis by (fastforce simp: follows_def)
  qed
  have "latest_by k (xs @ [x]) = Some x" if "\<forall>y \<in> set xs. k y < k x" for k :: "event_row \<Rightarrow> int" and xs x
    using that by (induction xs) auto
  with above True show ?thesis by (simp add: head_of_def)
qed

lemma latest_by_map_cong:
  "\<forall>x \<in> set xs. k (f x) = k x \<Longrightarrow> latest_by k (map f xs) = map_option f (latest_by k xs)"
  by (induction xs) (auto split: option.splits dest: latest_by_mem)

lemma log_ok_map:
  assumes "log_ok rs" and f: "\<And>r. event_id (f r) = event_id r" "\<And>r. origin_node (f r) = origin_node r"
    "\<And>r. origin_seq (f r) = origin_seq r" "\<And>r. self_hash (f r) = self_hash r" "\<And>r. prev_hash (f r) = prev_hash r"
  shows "log_ok (map f rs)"
    and "head_of (map f rs) n = map_option f (head_of rs n)"
proof -
  have "map event_id (map f rs) = map event_id rs" "map (\<lambda>r. (origin_node r, origin_seq r)) (map f rs)
      = map (\<lambda>r. (origin_node r, origin_seq r)) rs" by (simp_all add: f)
  moreover have "(\<forall>x \<in> set (map f rs). P x) = (\<forall>x \<in> set rs. P (f x))"
    "(\<exists>x \<in> set (map f rs). P x) = (\<exists>x \<in> set rs. P (f x))" for P by simp_all
  ultimately show "log_ok (map f rs)" using assms(1) unfolding log_ok_def by (simp only: f) blast
  show "head_of (map f rs) n = map_option f (head_of rs n)"
    by (simp add: head_of_def filter_map comp_def latest_by_map_cong f)
qed

definition upgraded_row :: "event \<Rightarrow> event_row \<Rightarrow> event_row" where
  "upgraded_row e r = (if event_id r = event_id e then r\<lparr>materialized := True, scope_ref := scope_ref e\<rparr> else r)"

lemma upgraded_row_simps [simp]:
  "event_id (upgraded_row e r) = event_id r" "origin_node (upgraded_row e r) = origin_node r"
  "origin_seq (upgraded_row e r) = origin_seq r" "self_hash (upgraded_row e r) = self_hash r"
  "prev_hash (upgraded_row e r) = prev_hash r" "signature (upgraded_row e r) = signature r"
  "signing_key_ref (upgraded_row e r) = signing_key_ref r" "signature_scheme (upgraded_row e r) = signature_scheme r"
  "envelope_version (upgraded_row e r) = envelope_version r"
  by (simp_all add: upgraded_row_def)

lemma upgrade_rows:
  "upgrade_stub cr uc now e d = Inr d' \<Longrightarrow> events d' = map (upgraded_row e) (events d)"
  using upgrade_events(1) by (simp add: upgraded_row_def [abs_def])

lemma admit_one_log:
  assumes "admission_log s" "admit_one cr uc g now e s = Inr s'"
  shows "admission_log s'"
  using assms(2)
proof (cases rule: admit_one_cases)
  case refused
  with assms(1) show ?thesis by (simp add: admission_log_def)
next
  case (upgraded mine d)
  have log: "log_ok (events (ad_db s))" and heads:
    "ad_heads s n = map_option (\<lambda>r. (origin_seq r, self_hash r)) (head_of (events (ad_db s)) n)" for n
    using assms(1) by (auto simp: admission_log_def)
  have "log_ok (events d)" "head_of (events d) n = map_option (upgraded_row e) (head_of (events (ad_db s)) n)" for n
    unfolding upgrade_rows [OF upgraded(8)] by (rule log_ok_map [OF log]; simp)+
  with heads show ?thesis by (simp add: admission_log_def upgraded(9) option.map_comp comp_def)
next
  case (new e1 s1 s2)
  note r = refusal_None [OF new(2)]
  obtain subj where ev: "events (ad_db s2) = events (ad_db s) @ [row_of_event e1 (\<not> is_stub e1) subj]"
    "event_id e1 \<notin> event_id ` set (events (ad_db s))"
    using apply_event_events [OF new(9)] new(4) by metis
  let ?row = "row_of_event e1 (\<not> is_stub e1) subj"
  have ids: "origin_node e1 = origin_node e" "origin_seq e1 = origin_seq e" "self_hash e1 = self_hash e"
    "event_id e1 = event_id e" "prev_hash e1 = prev_hash e" by (simp_all add: new(3))
  have h: "ad_heads s (origin_node e)
      = map_option (\<lambda>r. (origin_seq r, self_hash r)) (head_of (events (ad_db s)) (origin_node e))"
    using assms(1) by (simp add: admission_log_def)
  have fol: "follows (events (ad_db s)) ?row"
    using r(1,2) h by (cases "head_of (events (ad_db s)) (origin_node e)") (auto simp: follows_def ids)
  have "log_ok (events (ad_db s) @ [?row])"
    using assms(1) fol ev(2) event_verify_id [OF r(4)] by (intro log_ok_append) (auto simp: admission_log_def ids)
  then show ?thesis
    using assms(1) head_of_append [OF fol] by (auto simp: admission_log_def new(10,11) ev(1) ids)
qed

section \<open>The rows\<close>

text \<open>A row is another one up to what the stub upgrade may change.\<close>

definition same_envelope :: "event_row \<Rightarrow> event_row \<Rightarrow> bool" where
  "same_envelope r r' \<longleftrightarrow> r' = r\<lparr>materialized := materialized r', scope_ref := scope_ref r'\<rparr>
     \<and> (materialized r \<longrightarrow> r' = r)"

lemma same_envelope_refl [simp]: "same_envelope r r"
  by (simp add: same_envelope_def)

lemma same_envelope_trans:
  assumes "same_envelope a b" "same_envelope b c"
  shows "same_envelope a c"
proof -
  have "c = a\<lparr>materialized := materialized c, scope_ref := scope_ref c\<rparr>"
    using assms unfolding same_envelope_def by (cases a; cases b; cases c) simp
  moreover have "materialized a \<longrightarrow> c = a" using assms unfolding same_envelope_def by blast
  ultimately show ?thesis by (simp add: same_envelope_def)
qed

lemma same_envelope_upgraded: "\<not> materialized r \<or> event_id r \<noteq> event_id e \<Longrightarrow> same_envelope r (upgraded_row e r)"
  by (auto simp: same_envelope_def upgraded_row_def)

lemma same_envelope_simps:
  assumes "same_envelope r r'"
  shows "event_id r' = event_id r" "origin_node r' = origin_node r" "origin_seq r' = origin_seq r"
    "self_hash r' = self_hash r" "signature r' = signature r" "signing_key_ref r' = signing_key_ref r"
    "signature_scheme r' = signature_scheme r"
  using assms unfolding same_envelope_def by (cases r; cases r'; simp)+

lemma authenticated_same:
  assumes "same_envelope r r'"
  shows "authenticated cr g r' = authenticated cr g r"
  unfolding authenticated_def [abs_def] same_envelope_simps [OF assms] ..

text \<open>The progress of a batch from \<open>d\<close>.\<close>

definition batch_inv :: "crypto \<Rightarrow> gate \<Rightarrow> db \<Rightarrow> admission \<Rightarrow> bool" where
  "batch_inv cr g d s \<longleftrightarrow> admission_log s \<and> frozen_origins d \<subseteq> ad_frozen s
     \<and> (\<forall>r \<in> set (events d). \<exists>r' \<in> set (events (ad_db s)). same_envelope r r')
     \<and> (\<forall>r' \<in> set (events (ad_db s)). (\<exists>r \<in> set (events d). same_envelope r r')
          \<or> authenticated cr g r' (Some (origin_seq r')))
     \<and> (\<forall>n \<in> frozen_origins d. filter (\<lambda>r. origin_node r = n) (events (ad_db s))
          = filter (\<lambda>r. origin_node r = n) (events d))"

lemma batch_invD:
  assumes "batch_inv cr g d s"
  shows "admission_log s" "n \<in> frozen_origins d \<Longrightarrow> n \<in> ad_frozen s"
    "r \<in> set (events d) \<Longrightarrow> \<exists>r' \<in> set (events (ad_db s)). same_envelope r r'"
    "r' \<in> set (events (ad_db s)) \<Longrightarrow> (\<exists>r \<in> set (events d). same_envelope r r')
          \<or> authenticated cr g r' (Some (origin_seq r'))"
    "n \<in> frozen_origins d \<Longrightarrow> filter (\<lambda>r. origin_node r = n) (events (ad_db s))
          = filter (\<lambda>r. origin_node r = n) (events d)"
  using assms unfolding batch_inv_def by blast+

lemma batch_inv_start: "log_ok (events d) \<Longrightarrow> batch_inv cr g d (admission_start clock d)"
  unfolding batch_inv_def admission_start_def admission_log_def
  by (simp add: origin_head_eq) (metis same_envelope_refl)

lemma event_id_unique:
  assumes "log_ok rs" "r \<in> set rs" "q \<in> set rs" "event_id r = event_id q"
  shows "r = q"
proof -
  have "inj_on event_id (set rs)" using assms(1) by (simp add: log_ok_def distinct_map)
  from inj_onD [OF this assms(4,2,3)] show ?thesis .
qed

lemma batch_inv_upgrade:
  assumes inv: "batch_inv cr g d s" and log: "admission_log s'"
    and out: "origin_node e \<notin> ad_frozen s" and row: "row_at (ad_db s) (origin_node e) (origin_seq e) = Some mine"
    and id: "event_id mine = event_id e" and up: "upgrade_stub cr uc now e (ad_db s) = Inr d2"
    and s': "ad_db s' = d2" "ad_frozen s' = ad_frozen s"
  shows "batch_inv cr g d s'"
proof -
  let ?rs = "events (ad_db s)"
  note i = batch_invD [OF inv]
  note u = upgrade_rows [OF up] upgrade_events(2) [OF up]
  have mine: "mine \<in> set ?rs" "origin_node mine = origin_node e" using row_at_Some [OF row] by auto
  have ok: "log_ok ?rs" using i(1) by (simp add: admission_log_def)
  have env: "same_envelope r (upgraded_row e r)" if "r \<in> set ?rs" for r
    using u(2) that by (intro same_envelope_upgraded) blast
  have rows: "set (events d2) = upgraded_row e ` set ?rs" by (simp add: u(1))
  have "filter (\<lambda>r. origin_node r = n) (events d2) = filter (\<lambda>r. origin_node r = n) (events d)"
    if n: "n \<in> frozen_origins d" for n
  proof -
    have "origin_node e \<noteq> n" using i(2) [OF n] out by blast
    then have keep: "upgraded_row e r = r" if "r \<in> set ?rs" "origin_node r = n" for r
    proof -
      have "event_id r \<noteq> event_id e" using event_id_unique [OF ok that(1) mine(1)] that(2) mine(2) id \<open>origin_node e \<noteq> n\<close> by auto
      then show ?thesis by (simp add: upgraded_row_def)
    qed
    have "filter (\<lambda>r. origin_node r = n) (map (upgraded_row e) rs) = filter (\<lambda>r. origin_node r = n) rs"
      if "set rs \<subseteq> set ?rs" for rs
      using that by (induction rs) (auto simp: keep)
    then show ?thesis using i(5) [OF n] by (simp add: u(1))
  qed
  moreover have "\<exists>r' \<in> set (events d2). same_envelope r r'" if r: "r \<in> set (events d)" for r
  proof -
    obtain r1 where r1: "r1 \<in> set ?rs" "same_envelope r r1" using i(3) [OF r] by blast
    then have "upgraded_row e r1 \<in> set (events d2)" by (simp add: rows)
    then show ?thesis using same_envelope_trans [OF r1(2) env [OF r1(1)]] by blast
  qed
  moreover have "(\<exists>r \<in> set (events d). same_envelope r r') \<or> authenticated cr g r' (Some (origin_seq r'))"
    if r': "r' \<in> set (events d2)" for r'
  proof -
    obtain r1 where r1: "r1 \<in> set ?rs" "r' = upgraded_row e r1" using r' rows by auto
    from i(4) [OF r1(1)] show ?thesis
    proof
      assume "\<exists>r \<in> set (events d). same_envelope r r1"
      then show ?thesis using env [OF r1(1)] r1(2) same_envelope_trans by blast
    next
      assume "authenticated cr g r1 (Some (origin_seq r1))"
      then show ?thesis using authenticated_same [OF env [OF r1(1)]] r1(2) by simp
    qed
  qed
  ultimately show ?thesis using log i(2) unfolding batch_inv_def s' by blast
qed

lemma batch_inv_new:
  assumes inv: "batch_inv cr g d s" and log: "admission_log s'"
    and out: "origin_node e \<notin> ad_frozen s" and au: "authenticated cr g e1 (Some (origin_seq e1))"
    and e1: "origin_node e1 = origin_node e"
    and ev: "events (ad_db s') = events (ad_db s) @ [row_of_event e1 m subj]" and fr: "ad_frozen s' = ad_frozen s"
  shows "batch_inv cr g d s'"
proof -
  note i = batch_invD [OF inv]
  let ?row = "row_of_event e1 m subj"
  have "authenticated cr g ?row (Some (origin_seq ?row))"
  proof -
    have "signature ?row = signature e1" "signature_scheme ?row = signature_scheme e1"
      by (simp_all add: row_of_event_def)
    then show ?thesis using au unfolding authenticated_def by (simp only: row_of_event_simps)
  qed
  moreover have "filter (\<lambda>r. origin_node r = n) (events (ad_db s')) = filter (\<lambda>r. origin_node r = n) (events d)"
    if "n \<in> frozen_origins d" for n
    using i(2,5) [OF that] out e1 by (auto simp: ev)
  moreover have "\<exists>r' \<in> set (events (ad_db s')). same_envelope r r'" if "r \<in> set (events d)" for r
    using i(3) [OF that] by (auto simp: ev)
  moreover have "r' = ?row \<or> r' \<in> set (events (ad_db s))" if "r' \<in> set (events (ad_db s'))" for r'
    using that by (auto simp: ev)
  ultimately show ?thesis using log i(2,4) unfolding batch_inv_def fr by blast
qed

lemma withhold_authenticated [simp]: "authenticated cr g (withhold e) at = authenticated cr g e at"
  unfolding authenticated_def withhold_simps ..

lemma batch_inv_step:
  assumes inv: "batch_inv cr g d s" and step: "admit_one cr uc g now e s = Inr s'"
  shows "batch_inv cr g d s'"
proof -
  have log: "admission_log s'" using admit_one_log [OF batch_invD(1) [OF inv] step] .
  show ?thesis
    using step
  proof (cases rule: admit_one_cases)
    case refused
    then show ?thesis using inv log unfolding batch_inv_def by auto
  next
    case (upgraded mine d2)
    show ?thesis by (rule batch_inv_upgrade [OF inv log upgraded(1,2,3,8)]) (simp_all add: upgraded(9))
  next
    case (new e1 s1 s2)
    obtain subj where "events (ad_db s2) = events (ad_db s1) @ [row_of_event e1 (\<not> is_stub e1) subj]"
      using apply_event_events [OF new(9)] by metis
    then have ev: "events (ad_db s') = events (ad_db s) @ [row_of_event e1 (\<not> is_stub e1) subj]"
      by (simp add: new(4,10))
    have "authenticated cr g e1 (Some (origin_seq e1))" "origin_node e1 = origin_node e"
      using refusal_None(5) [OF new(2)] by (simp_all add: new(3))
    then show ?thesis by (intro batch_inv_new [OF inv log new(1) _ _ ev new(12)])
  qed
qed

lemma admit_loop_inv:
  "batch_inv cr g d s \<Longrightarrow> admit_loop cr uc g now es s = (c, Inr s') \<Longrightarrow> batch_inv cr g d s'"
proof (induction cr uc g now es s rule: admit_loop.induct)
  case (2 cr uc g now e es s)
  then obtain s1 where s1: "admit_one cr uc g now e s = Inr s1" "admit_loop cr uc g now es s1 = (c, Inr s')"
    by (auto split: sum.splits)
  show ?case using 2(1) [OF s1(1) batch_inv_step [OF 2(2) s1(1)] s1(2)] .
qed simp

lemma admit_batch_inv:
  assumes "log_ok (events d)" "admit_batch cr uc g now batch clock d = (c, Inr (rep, d'))"
  obtains s where "batch_inv cr g d s" "ad_db s = d'" "ad_clock s = c"
proof -
  obtain s where s: "admit_loop cr uc g now batch (admission_start clock d) = (c, Inr s)" "ad_db s = d'"
    using assms(2) by (auto simp: admit_batch_def split: prod.splits sum.splits)
  have "ad_clock s' = c'" if "admit_loop cr uc g now es s0 = (c', Inr s')" for es s0 s' c'
    using that by (induction es arbitrary: s0) (auto split: sum.splits)
  with s(1) have "ad_clock s = c" by blast
  with s admit_loop_inv [OF batch_inv_start [OF assms(1)]] that show thesis by blast
qed

section \<open>What stays confidential\<close>

text \<open>
  \<open>ok\<close> is a policy on the version and the scope of an event; \<open>vr\<close> names the envelope version of
  an identity, which the event hash commits to.  When every payload of the batch that passes the
  RETAIN test satisfies the policy, so does every row the batch materializes.
\<close>

definition open_row :: "(int \<Rightarrow> string option \<Rightarrow> bool) \<Rightarrow> event_row \<Rightarrow> bool" where
  "open_row ok r \<longleftrightarrow> materialized r \<longrightarrow> ok (envelope_version r) (scope_ref r)"

definition open_inv :: "(string \<Rightarrow> int) \<Rightarrow> (int \<Rightarrow> string option \<Rightarrow> bool) \<Rightarrow> db \<Rightarrow> admission \<Rightarrow> bool" where
  "open_inv vr ok d s \<longleftrightarrow> (\<forall>r \<in> set (events (ad_db s)). envelope_version r = vr (event_id r)
     \<and> (r \<in> set (events d) \<or> open_row ok r))"

lemma open_step:
  assumes inv: "open_inv vr ok d s" and ver: "envelope_version e = vr (event_id e)"
    and pol: "\<not> is_stub e \<Longrightarrow> \<not> unrequested g e \<Longrightarrow> ok (envelope_version e) (scope_ref e)"
    and step: "admit_one cr uc g now e s = Inr s'"
  shows "open_inv vr ok d s'"
  using step
proof (cases rule: admit_one_cases)
  case refused
  with inv show ?thesis by (simp add: open_inv_def)
next
  case (upgraded mine d2)
  have "envelope_version r = vr (event_id r) \<and> (r \<in> set (events d) \<or> open_row ok r)"
    if r: "r \<in> set (events d2)" for r
  proof -
    obtain r1 where r1: "r1 \<in> set (events (ad_db s))" "r = upgraded_row e r1"
      using r upgrade_rows [OF upgraded(8)] by auto
    have v: "envelope_version r1 = vr (event_id r1)" using inv r1(1) by (simp add: open_inv_def)
    show ?thesis
    proof (cases "event_id r1 = event_id e")
      case True
      then have "envelope_version r = envelope_version e" "scope_ref r = scope_ref e"
        using v ver by (simp_all add: r1(2) upgraded_row_def)
      then have "open_row ok r" using pol [OF upgraded(5,6)] by (simp add: open_row_def)
      with v show ?thesis by (simp add: r1(2))
    next
      case False
      then have "r = r1" by (simp add: r1(2) upgraded_row_def)
      with inv r1(1) show ?thesis by (simp add: open_inv_def)
    qed
  qed
  then show ?thesis by (simp add: open_inv_def upgraded(9))
next
  case (new e1 s1 s2)
  obtain subj where ev: "events (ad_db s2) = events (ad_db s1) @ [row_of_event e1 (\<not> is_stub e1) subj]"
    using apply_event_events [OF new(9)] by metis
  let ?row = "row_of_event e1 (\<not> is_stub e1) subj"
  have "open_row ok ?row"
  proof (cases "is_stub e1")
    case True
    then show ?thesis by (simp add: open_row_def)
  next
    case False
    then have "e1 = e" "\<not> is_stub e" "\<not> unrequested g e" by (auto simp: new(3) split: if_splits)
    with pol show ?thesis by (simp add: open_row_def)
  qed
  moreover have "envelope_version ?row = vr (event_id ?row)" using ver by (simp add: new(3))
  ultimately show ?thesis using inv by (auto simp: open_inv_def new(4,10) ev)
qed

lemma open_loop:
  assumes "open_inv vr ok d s" "\<forall>e \<in> set es. envelope_version e = vr (event_id e)"
    and "\<forall>e \<in> set es. \<not> is_stub e \<longrightarrow> \<not> unrequested g e \<longrightarrow> ok (envelope_version e) (scope_ref e)"
    and "admit_loop cr uc g now es s = (c, Inr s')"
  shows "open_inv vr ok d s'"
  using assms
proof (induction es arbitrary: s)
  case (Cons e es)
  then obtain s1 where s1: "admit_one cr uc g now e s = Inr s1" "admit_loop cr uc g now es s1 = (c, Inr s')"
    by (auto split: sum.splits)
  have "open_inv vr ok d s1" using Cons.prems by (intro open_step [OF _ _ _ s1(1)]) simp_all
  from Cons.IH [OF this _ _ s1(2)] Cons.prems(2,3) show ?case by simp
qed simp

lemma open_batch:
  assumes "\<forall>r \<in> set (events d). envelope_version r = vr (event_id r)"
    and "\<forall>e \<in> set es. envelope_version e = vr (event_id e)"
    and "\<forall>e \<in> set es. \<not> is_stub e \<longrightarrow> \<not> unrequested g e \<longrightarrow> ok (envelope_version e) (scope_ref e)"
    and "admit_batch cr uc g now es clock d = (c, Inr (rep, d'))"
    and "r \<in> set (events d')" "materialized r"
  shows "r \<in> set (events d) \<or> ok (envelope_version r) (scope_ref r)"
proof -
  have "open_inv vr ok d (admission_start clock d)"
    using assms(1) by (simp add: open_inv_def admission_start_def)
  moreover obtain s where "admit_loop cr uc g now es (admission_start clock d) = (c, Inr s)" "ad_db s = d'"
    using assms(4) by (auto simp: admit_batch_def split: prod.splits sum.splits)
  ultimately have "open_inv vr ok d s" using open_loop [OF _ assms(2,3)] by blast
  with assms(5,6) \<open>ad_db s = d'\<close> show ?thesis by (auto simp: open_inv_def open_row_def)
qed

text \<open>The two policies: what a receiver asked for, and what a server offered.\<close>

fun scope_in :: "string set \<Rightarrow> int \<Rightarrow> string option \<Rightarrow> bool" where
  "scope_in S v None = (v < 2)"
| "scope_in S v (Some s) = (v < 2 \<or> s \<in> S)"

lemma requested_ok: "g_requested g = Some req \<Longrightarrow> \<not> unrequested g e \<Longrightarrow> scope_in req (envelope_version e) (scope_ref e)"
  by (cases "scope_ref e") (auto simp: unrequested_def)

lemma served_ok:
  assumes "e \<in> set (serve_batch es (Some viewer))" "\<not> is_stub e"
  shows "scope_in viewer (envelope_version e) (scope_ref e)"
proof -
  from assms have "\<exists>e0. e = (if visible viewer e0 then e0 else withhold e0)"
    unfolding serve_batch_def Let_def by auto
  then obtain e0 where "e = (if visible viewer e0 then e0 else withhold e0)" ..
  with assms(2) show ?thesis by (cases "scope_ref e0") (auto simp: visible_def split: if_splits)
qed

lemma served_version: "e \<in> set (serve_batch es v) \<Longrightarrow> \<exists>e0 \<in> set es. event_id e = event_id e0
    \<and> envelope_version e = envelope_version e0 \<and> kind e = kind e0"
  by (auto simp: serve_batch_def Let_def split: if_splits)

lemma load_rows_source:
  "load_rows cr d sig rs = Inr es \<Longrightarrow> e \<in> set es \<Longrightarrow> \<exists>r \<in> set rs. event_id e = event_id r
     \<and> envelope_version e = envelope_version r \<and> kind e = kind r"
proof -
  assume "load_rows cr d sig rs = Inr es" "e \<in> set es"
  then obtain r where "r \<in> set rs" "load_event cr d sig r = Inr e" using load_rows_Inr by blast
  then show ?thesis by (auto simp: load_event_def event_of_row_def split: if_splits)
qed

lemma concat_results_mem:
  "concat_results rs = Inr es \<Longrightarrow> e \<in> set es \<Longrightarrow> \<exists>r \<in> set rs. \<exists>xs. r = Inr xs \<and> e \<in> set xs"
  by (induction rs arbitrary: es) auto

lemma read_stream_source:
  assumes "read_stream cr d after = Inr es" "e \<in> set es"
  shows "\<exists>r \<in> set (events d). event_id e = event_id r \<and> envelope_version e = envelope_version r \<and> kind e = kind r"
proof -
  obtain n xs where x: "stream_of cr d after n = Inr xs" "e \<in> set xs"
    using concat_results_mem [OF assms(1) [unfolded read_stream_def] assms(2)] by auto
  then obtain lo where "load_rows cr d True
      (sort_key origin_seq (filter (\<lambda>r. origin_node r = n \<and> origin_seq r > lo) (events d))) = Inr xs"
    by (auto simp: stream_of_def Let_def split: if_splits)
  from load_rows_source [OF this x(2)] show ?thesis by auto
qed

lemma read_positions_source:
  assumes "read_positions cr d ps = Inr es" "e \<in> set es"
  shows "\<exists>r \<in> set (events d). event_id e = event_id r \<and> envelope_version e = envelope_version r \<and> kind e = kind r"
proof -
  obtain n qs xs where x: "concat_results (map (\<lambda>seq. case row_at d n seq of None \<Rightarrow> Inr []
       | Some r \<Rightarrow> bind_result (load_event cr d True r) (\<lambda>e. Inr [e])) (sort qs)) = Inr xs" "e \<in> set xs"
    using concat_results_mem [OF assms(1) [unfolded read_positions_def] assms(2)] by auto
  obtain q ys where y: "(case row_at d n q of None \<Rightarrow> Inr []
       | Some r \<Rightarrow> bind_result (load_event cr d True r) (\<lambda>e. Inr [e])) = Inr ys" "e \<in> set ys"
    using concat_results_mem [OF x] by auto
  then obtain r where r: "row_at d n q = Some r" "load_event cr d True r = Inr e"
    by (auto split: option.splits)
  have "r \<in> set (events d)" using row_at_Some [OF r(1)] by simp
  with r(2) show ?thesis by (auto simp: load_event_def event_of_row_def split: if_splits)
qed

text \<open>A pull opens nothing beyond what the source granted and the receiver named.\<close>

lemma pull_batch:
  assumes "pull cr uc keys trust st pn scopes sk now clock dest source = (c, Inr (rep, dest'))"
  obtains stream where "\<forall>e \<in> set stream. \<exists>r \<in> set (events source). event_id e = event_id r
       \<and> envelope_version e = envelope_version r \<and> kind e = kind r"
    "admit_batch cr uc \<lparr>g_keys = keys, g_trust = trust, g_requested = map_option set scopes,
       g_max_skew = sk, g_now_ms = now\<rparr> now (serve_batch stream (Some (offered st pn scopes))) clock dest
     = (c, Inr (rep, dest'))"
proof -
  obtain stream where s: "bind_result (read_stream cr source (frontier dest)) (\<lambda>stream.
             case scopes of
               Some (s # ss) \<Rightarrow>
                 bind_result (read_positions cr source (held_stub_positions cr dest (s # ss)))
                   (\<lambda>more. Inr (stream @ more))
             | _ \<Rightarrow> Inr stream) = Inr stream"
    using assms by (auto simp: pull_def split: sum.splits)
  then obtain a where a: "read_stream cr source (frontier dest) = Inr a"
    "(case scopes of
        Some (s # ss) \<Rightarrow>
          bind_result (read_positions cr source (held_stub_positions cr dest (s # ss)))
            (\<lambda>more. Inr (a @ more))
      | _ \<Rightarrow> Inr a) = Inr stream"
    by (cases "read_stream cr source (frontier dest)") auto
  have "\<exists>b. stream = a @ b \<and> (b = [] \<or> (\<exists>ps. read_positions cr source ps = Inr b))"
  proof (cases scopes)
    case (Some ss)
    with a(2) show ?thesis
      by (cases ss) auto
  qed (use a(2) in simp)
  then obtain b where ab: "read_stream cr source (frontier dest) = Inr a" "stream = a @ b"
    "b = [] \<or> (\<exists>ps. read_positions cr source ps = Inr b)"
    using a(1) by blast
  have "\<forall>e \<in> set stream. \<exists>r \<in> set (events source). event_id e = event_id r
       \<and> envelope_version e = envelope_version r \<and> kind e = kind r"
    using read_stream_source [OF ab(1)] read_positions_source ab(2,3) by fastforce
  with that assms s show thesis by (simp add: pull_def)
qed

section \<open>Nothing is dropped in silence\<close>

definition accounted :: "event \<Rightarrow> admission \<Rightarrow> bool" where
  "accounted e s \<longleftrightarrow> event_id e \<in> set (ad_admitted s)
     \<or> (\<exists>rj \<in> set (ad_rejected s). rj_event_id rj = event_id e \<and> rj_origin_node rj = origin_node e
          \<and> rj_origin_seq rj = origin_seq e)
     \<or> (\<exists>r \<in> set (events (ad_db s)). event_id r = event_id e \<and> origin_node r = origin_node e
          \<and> origin_seq r = origin_seq e)"

lemma reported [simp]: "accounted e (report_only e why s)" "accounted e (reject e why s)"
  by (auto simp: accounted_def reject_def report_only_def)

lemma admit_one_accounted:
  assumes "admit_one cr uc g now e s = Inr s'"
  shows "accounted e s'"
proof -
  have n: "accounted e s'" if "admit_new cr uc g now e s = Inr s'"
  proof (cases "refusal cr g (ad_heads s (origin_node e)) e")
    case None
    with that show ?thesis by (auto simp: admit_new_def Let_def accounted_def split: if_splits)
  next
    case (Some why)
    with that show ?thesis using admit_new_refused by fastforce
  qed
  have h: "accounted e s'" if "admit_held cr uc g now e s = Inr s'"
  proof (cases "row_at (ad_db s) (origin_node e) (origin_seq e)")
    case None
    with that have "s' = reject e Collision s" by (simp add: admit_held_def)
    then show ?thesis by simp
  next
    case (Some mine)
    show ?thesis
    proof (cases "event_id mine = event_id e")
      case True
      then have "accounted e s" using row_at_Some [OF Some] by (auto simp: accounted_def)
      moreover have "s' = s \<or> s' = report_only e Scope_unrequested s \<or> s' = report_only e Upgrade_digest_mismatch s
          \<or> event_id e \<in> set (ad_admitted s')"
        using that Some True by (auto simp: admit_held_def split: if_splits)
      ultimately show ?thesis by (auto simp: accounted_def report_only_def)
    next
      case False
      then have "(\<exists>why s0. s' = reject e why s0)"
        using that Some by (auto simp: admit_held_def split: if_splits)
      then show ?thesis by auto
    qed
  qed
  from assms show ?thesis by (auto simp: admit_one_def n h split: if_splits)
qed

lemma genesis_watch_rejected: "set (ad_rejected s) \<subseteq> set (ad_rejected (genesis_watch cr g e s))"
proof -
  have "set (ad_rejected s) \<subseteq> set (ad_rejected (foldl (\<lambda>s _. report_only e why s) s os))" for s why and os :: "string list"
  proof (induction os arbitrary: s)
    case (Cons a os)
    have "set (ad_rejected s) \<subseteq> set (ad_rejected (report_only e why s))" by (auto simp: report_only_def)
    with Cons.IH [of "report_only e why s"] show ?case by simp
  qed simp
  note rest = this
  show ?thesis
  proof (cases "\<exists>c. payload e = Some (AuthorityConfiguration c)")
    case False
    then show ?thesis by (auto simp: genesis_watch_def split: option.splits payload.splits)
  next
    case True
    then obtain c where c: "payload e = Some (AuthorityConfiguration c)" by blast
    let ?s = "s\<lparr>ad_db := (ad_db s)\<lparr>authority_conflicts := record_conflicts (cfg_authority_key c)
      (cfg_configuration_digest c) (rival_geneses c (ad_db s)) (authority_conflicts (ad_db s))\<rparr>\<rparr>"
    from rest [of ?s Authority_genesis_conflict "rival_geneses c (ad_db s)"] c show ?thesis
      by (auto simp: genesis_watch_def Let_def report_only_def)
  qed
qed

lemma admit_one_grows:
  assumes "admit_one cr uc g now e s = Inr s'"
  shows "set (ad_admitted s) \<subseteq> set (ad_admitted s')" "set (ad_rejected s) \<subseteq> set (ad_rejected s')"
    "\<forall>r \<in> set (events (ad_db s)). \<exists>r' \<in> set (events (ad_db s')). event_id r' = event_id r
       \<and> origin_node r' = origin_node r \<and> origin_seq r' = origin_seq r"
proof -
  show "set (ad_admitted s) \<subseteq> set (ad_admitted s')"
    using assms by (cases rule: admit_one_cases) auto
  show "\<forall>r \<in> set (events (ad_db s)). \<exists>r' \<in> set (events (ad_db s')). event_id r' = event_id r
       \<and> origin_node r' = origin_node r \<and> origin_seq r' = origin_seq r"
    using assms
  proof (cases rule: admit_one_cases)
    case (upgraded mine d)
    then show ?thesis using upgrade_rows [OF upgraded(8)] by fastforce
  next
    case (new e1 s1 s2)
    then show ?thesis using apply_event_events [OF new(9)] by (metis Un_iff set_append)
  qed auto
  have ap: "set (ad_rejected s1) \<subseteq> set (ad_rejected s2)" if "apply_event cr uc g now e1 s1 = Inr s2" for e1 s1 s2
  proof -
    from that consider "ad_rejected s2 = ad_rejected s1"
      | d where "s2 = genesis_watch cr g e1 (s1\<lparr>ad_db := d\<rparr>)"
      by (auto simp: apply_event_def split: if_splits)
    then show ?thesis
    proof cases
      case 2
      show ?thesis using genesis_watch_rejected [of "s1\<lparr>ad_db := d\<rparr>" cr g e1] by (simp add: 2)
    qed simp
  qed
  have n: "set (ad_rejected s) \<subseteq> set (ad_rejected s')" if "admit_new cr uc g now e s = Inr s'"
  proof (cases "refusal cr g (ad_heads s (origin_node e)) e")
    case None
    define e1 where "e1 = (if unrequested g e \<and> \<not> is_stub e then withhold e else e)"
    define s1 where "s1 = (if unrequested g e \<and> \<not> is_stub e then report_only e Scope_unrequested s else s)"
    from that None obtain s2 s3 where a: "apply_event cr uc g now e1 s1 = Inr s2"
      "advance_clock (hlc e1) now (s2\<lparr>ad_heads := (ad_heads s2)(origin_node e1 \<mapsto> (origin_seq e1, self_hash e1))\<rparr>) = Inr s3"
      "s' = s3\<lparr>ad_admitted := ad_admitted s3 @ [event_id e1]\<rparr>"
      unfolding admit_new_def e1_def s1_def by (auto simp: Let_def split: if_splits)
    have "set (ad_rejected s) \<subseteq> set (ad_rejected s1)" by (auto simp: s1_def report_only_def)
    with ap [OF a(1)] advance_clock_simps(6) [OF a(2)] show ?thesis by (simp add: a(3))
  next
    case (Some why)
    from admit_new_refused [OF that Some] show ?thesis by (auto simp: reject_def report_only_def)
  qed
  have h: "set (ad_rejected s) \<subseteq> set (ad_rejected s')" if "admit_held cr uc g now e s = Inr s'"
    using that by (auto simp: admit_held_def reject_def report_only_def split: option.splits if_splits)
  from assms show "set (ad_rejected s) \<subseteq> set (ad_rejected s')"
    by (auto simp: admit_one_def reject_def report_only_def split: if_splits dest: n h)
qed

lemma accounted_grows:
  assumes "admit_one cr uc g now e s = Inr s'" "accounted e0 s"
  shows "accounted e0 s'"
  using assms(2) admit_one_grows [OF assms(1)] unfolding accounted_def by (metis subsetD)

lemma admit_loop_accounted:
  "admit_loop cr uc g now es s = (c, Inr s') \<Longrightarrow> (\<forall>e \<in> set es. accounted e s') \<and> (\<forall>e. accounted e s \<longrightarrow> accounted e s')"
proof (induction es arbitrary: s)
  case (Cons e es)
  then obtain s1 where s1: "admit_one cr uc g now e s = Inr s1" "admit_loop cr uc g now es s1 = (c, Inr s')"
    by (auto split: sum.splits)
  from Cons.IH [OF s1(2)] admit_one_accounted [OF s1(1)] accounted_grows [OF s1(1)] show ?case by auto
qed simp

end
