(* ===== verification/Wire.thy ===== *)
theory Wire
  imports Replica_Safety Json_Access
begin

text \<open>
  \<^verbatim>\<open>kawa/storage/wire.py\<close>: an event as a wire dictionary, and the decoder that verifies the
  received bytes before it parses them.  A wire value is a decoded JSON document; the payload
  travels as its canonical text.  The coercions of pydantic belong to a third-party package: the
  record \<open>pydantic\<close> holds the three the decoder uses, and \<open>pydantic_ok\<close> states what is documented of
  them (a value of the declared type is taken as it is, and the dump of a valid payload of \<open>P\<close>
  validates to that payload).
\<close>

section \<open>Validation by pydantic\<close>

record pydantic =
  px_str :: "json \<Rightarrow> string result"
  px_int :: "json \<Rightarrow> int result"
  px_payload :: "json \<Rightarrow> payload result"

definition pydantic_ok :: "pydantic \<Rightarrow> payload set \<Rightarrow> bool" where
  "pydantic_ok px P \<longleftrightarrow>
     (\<forall>s. px_str px (JStr s) = Inr s) \<and> (\<forall>i. px_int px (JInt i) = Inr i)
     \<and> (\<forall>p \<in> P. payload_valid p \<longrightarrow> px_payload px (sort_keys (model_dump p)) = Inr p)"

definition px_opt :: "pydantic \<Rightarrow> json \<Rightarrow> string option result" where
  "px_opt px j = (if j = JNull then Inr None else bind_result (px_str px j) (\<lambda>s. Inr (Some s)))"

section \<open>Encoding\<close>

definition envelope_json :: "event \<Rightarrow> string option \<Rightarrow> json" where
  "envelope_json e scope = JObj
     [(''event_id'', JStr (event_id e)), (''origin_node'', JStr (origin_node e)),
      (''origin_seq'', JInt (origin_seq e)), (''hlc'', JStr (hlc e)), (''kind'', JStr (kind_value (kind e))),
      (''subject_ref'', jopt JStr (subject_ref e)), (''actor_ref'', JStr (actor_ref e)),
      (''policy_digest'', jopt JStr (policy_digest e)), (''payload_digest'', JStr (payload_digest e)),
      (''prev_hash'', jopt JStr (prev_hash e)), (''self_hash'', JStr (self_hash e)),
      (''envelope_version'', JInt (envelope_version e)), (''scope_ref'', jopt JStr scope),
      (''scope_digest'', jopt JStr (scope_digest e)), (''signature'', jopt JStr (signature e)),
      (''signing_key_ref'', jopt JStr (signing_key_ref e)),
      (''signature_scheme'', jopt JStr (signature_scheme e))]"

definition to_wire :: "event \<Rightarrow> bool \<Rightarrow> json" where
  "to_wire e as_stub =
     (case payload e of
        Some p \<Rightarrow>
          if as_stub then JObj [(''envelope'', envelope_json e None), (''payload_canonical'', JNull)]
          else JObj [(''envelope'', envelope_json e (scope_ref e)),
                     (''payload_canonical'', JStr (canonical_json (model_dump p)))]
      | None \<Rightarrow> JObj [(''envelope'', envelope_json e None), (''payload_canonical'', JNull)])"

section \<open>Decoding\<close>

definition wire_preimage :: "(string \<times> json) list \<Rightarrow> json \<Rightarrow> (string \<times> json) list" where
  "wire_preimage env pd = map (\<lambda>k. (k, if k = ''payload_digest'' then pd else get_or env k JNull))
     [''origin_node'', ''origin_seq'', ''hlc'', ''kind'', ''subject_ref'', ''actor_ref'', ''policy_digest'',
      ''payload_digest'', ''prev_hash'']"

text \<open>\<open>event_hash\<close> over the received values.\<close>

definition wire_hash :: "crypto \<Rightarrow> (string \<times> json) list \<Rightarrow> json \<Rightarrow> json \<Rightarrow> json \<Rightarrow> string result" where
  "wire_hash cr env pd version sdig =
     (if num_is version 1 then Inr (digest (sha256 cr) (JObj (wire_preimage env pd)))
      else if num_is version 2
      then Inr (digest (sha256 cr) (JObj (wire_preimage env pd
                  @ [(''envelope_version'', JInt 2), (''scope_digest'', sdig)])))
      else Inl (WireVerificationError ''unknown envelope_version''))"

definition kind_of_json :: "json \<Rightarrow> event_kind result" where
  "kind_of_json j =
     (case List.find (\<lambda>k. j = JStr (kind_value k))
        [PLAN_CREATED, PLAN_LIFECYCLE_CHANGED, WORK_DERIVED, WORK_DEPENDENCY_DECLARED, RESULT_RECORDED,
         LINK_ASSERTED, OBSERVATION_RECORDED, CLAIM_RECORDED, WORK_RETIRED, AUTHORITY_CONFIGURATION,
         AUTHORITY_RECEIPT] of
        Some k \<Rightarrow> Inr k
      | None \<Rightarrow> Inl (ValueError ''not a valid EventKind''))"

text \<open>The payload digest: recomputed over the received text, or the commitment of a stub.\<close>

definition wire_payload_digest :: "crypto \<Rightarrow> (string \<times> json) list \<Rightarrow> json \<Rightarrow> json result" where
  "wire_payload_digest cr env text =
     (case text of
        JNull \<Rightarrow> require_key env ''payload_digest''
      | JStr t \<Rightarrow>
          bind_result (require_key env ''payload_digest'') (\<lambda>pd.
            if JStr (''sha256:'' @ sha256 cr t) \<noteq> pd
            then Inl (WireVerificationError ''payload_digest does not match'')
            else Inr pd)
      | _ \<Rightarrow> Inl (AttributeError ''encode''))"

definition parse_payload :: "crypto \<Rightarrow> pydantic \<Rightarrow> json \<Rightarrow> payload option result" where
  "parse_payload cr px text =
     (case text of
        JStr t \<Rightarrow>
          (case loads (float_repr cr) t of
             None \<Rightarrow> Inl (ValueError ''JSONDecodeError'')
           | Some j \<Rightarrow> bind_result (px_payload px j) (\<lambda>p. Inr (Some p)))
      | _ \<Rightarrow> Inr None)"

text \<open>The construction of the event from the received fields.\<close>

definition build_event :: "pydantic \<Rightarrow> (string \<times> json) list \<Rightarrow> json \<Rightarrow> json \<Rightarrow> payload option \<Rightarrow> event result" where
  "build_event px env pd version p =
     bind_result (kind_of_json (get_or env ''kind'' JNull)) (\<lambda>knd.
     bind_result (require_keys env [''signature'', ''signing_key_ref'', ''signature_scheme'']) (\<lambda>_.
     (let s = (\<lambda>k. px_str px (get_or env k JNull)); os = (\<lambda>k. px_opt px (get_or env k JNull)) in
     bind_result (s ''event_id'') (\<lambda>eid. bind_result (s ''origin_node'') (\<lambda>node.
     bind_result (px_int px (get_or env ''origin_seq'' JNull)) (\<lambda>seq. bind_result (s ''hlc'') (\<lambda>h.
     bind_result (os ''subject_ref'') (\<lambda>subj. bind_result (s ''actor_ref'') (\<lambda>actor.
     bind_result (os ''policy_digest'') (\<lambda>pol. bind_result (px_str px pd) (\<lambda>pdig.
     bind_result (os ''prev_hash'') (\<lambda>prev. bind_result (s ''self_hash'') (\<lambda>self.
     bind_result (px_int px version) (\<lambda>ver. bind_result (os ''scope_ref'') (\<lambda>sref.
     bind_result (os ''scope_digest'') (\<lambda>sdig. bind_result (os ''signature'') (\<lambda>sg.
     bind_result (os ''signing_key_ref'') (\<lambda>kref. bind_result (os ''signature_scheme'') (\<lambda>sch.
       Inr \<lparr>event_id = eid, origin_node = node, origin_seq = seq, hlc = h, kind = knd, subject_ref = subj,
            actor_ref = actor, policy_digest = pol, payload_digest = pdig, prev_hash = prev,
            self_hash = self, envelope_version = ver, scope_ref = sref, scope_digest = sdig,
            signature = sg, signing_key_ref = kref, signature_scheme = sch, payload = p\<rparr>)))))))))))))))))))"

definition from_wire :: "crypto \<Rightarrow> pydantic \<Rightarrow> json \<Rightarrow> event result" where
  "from_wire cr px obj =
     bind_result (obj_get obj ''envelope'') (\<lambda>envj.
     bind_result (obj_get obj ''payload_canonical'') (\<lambda>text.
     bind_result (as_dict envj) (\<lambda>env.
       let version = get_or env ''envelope_version'' (JInt 1);
           sdig = get_or env ''scope_digest'' JNull;
           sref = get_or env ''scope_ref'' JNull
       in if num_is version 1 \<and> (sdig \<noteq> JNull \<or> sref \<noteq> JNull)
          then Inl (WireVerificationError ''a v1 envelope never carries a scope'')
          else
            bind_result (wire_payload_digest cr env text) (\<lambda>pd.
            bind_result (require_keys env [''origin_node'', ''origin_seq'', ''hlc'', ''kind'', ''subject_ref'',
                ''actor_ref'', ''policy_digest'', ''prev_hash'']) (\<lambda>_.
            bind_result (wire_hash cr env pd version sdig) (\<lambda>sh.
            bind_result (require_key env ''self_hash'') (\<lambda>self.
              if self \<noteq> JStr sh then Inl (WireVerificationError ''self_hash does not match'')
              else bind_result (require_key env ''event_id'') (\<lambda>eid.
                if eid \<noteq> JStr sh then Inl (WireVerificationError ''event_id does not match'')
                else
                  bind_result (parse_payload cr px text) (\<lambda>p.
                  bind_result (build_event px env pd version p) (\<lambda>e.
                    if sref \<noteq> JNull \<and> \<not> event_verify (sha256 cr) e
                    then Inl (WireVerificationError ''scope_ref does not match'')
                    else Inr e))))))))))"


section \<open>What is sent arrives\<close>

fun members_of :: "json \<Rightarrow> (string \<times> json) list" where
  "members_of (JObj ms) = ms"
| "members_of _ = []"

definition env_of :: "event \<Rightarrow> string option \<Rightarrow> (string \<times> json) list" where
  "env_of e scope = members_of (envelope_json e scope)"

lemma envelope_env: "envelope_json e scope = JObj (env_of e scope)"
  by (simp add: env_of_def envelope_json_def)

lemma env_fields:
  "map_of (env_of e scope) ''event_id'' = Some (JStr (event_id e))"
  "map_of (env_of e scope) ''origin_node'' = Some (JStr (origin_node e))"
  "map_of (env_of e scope) ''origin_seq'' = Some (JInt (origin_seq e))"
  "map_of (env_of e scope) ''hlc'' = Some (JStr (hlc e))"
  "map_of (env_of e scope) ''kind'' = Some (JStr (kind_value (kind e)))"
  "map_of (env_of e scope) ''subject_ref'' = Some (jopt JStr (subject_ref e))"
  "map_of (env_of e scope) ''actor_ref'' = Some (JStr (actor_ref e))"
  "map_of (env_of e scope) ''policy_digest'' = Some (jopt JStr (policy_digest e))"
  "map_of (env_of e scope) ''payload_digest'' = Some (JStr (payload_digest e))"
  "map_of (env_of e scope) ''prev_hash'' = Some (jopt JStr (prev_hash e))"
  "map_of (env_of e scope) ''self_hash'' = Some (JStr (self_hash e))"
  "map_of (env_of e scope) ''envelope_version'' = Some (JInt (envelope_version e))"
  "map_of (env_of e scope) ''scope_ref'' = Some (jopt JStr scope)"
  "map_of (env_of e scope) ''scope_digest'' = Some (jopt JStr (scope_digest e))"
  "map_of (env_of e scope) ''signature'' = Some (jopt JStr (signature e))"
  "map_of (env_of e scope) ''signing_key_ref'' = Some (jopt JStr (signing_key_ref e))"
  "map_of (env_of e scope) ''signature_scheme'' = Some (jopt JStr (signature_scheme e))"
  by (simp_all add: env_of_def envelope_json_def)

lemma px_opt_ok: "pydantic_ok px P \<Longrightarrow> px_opt px (jopt JStr x) = Inr x"
  by (cases x) (simp_all add: px_opt_def pydantic_ok_def)

lemma kind_of_json_ok: "kind_of_json (JStr (kind_value k)) = Inr k"
  by (cases k) (simp_all add: kind_of_json_def)

lemma build_event_ok:
  assumes "pydantic_ok px P"
  shows "build_event px (env_of e scope) (JStr (payload_digest e)) (JInt (envelope_version e)) p
    = Inr (e\<lparr>scope_ref := scope, payload := p\<rparr>)"
proof -
  have s: "px_str px (JStr t) = Inr t" "px_int px (JInt i) = Inr i" for t i
    using assms by (simp_all add: pydantic_ok_def)
  have r: "require_keys (env_of e scope) [''signature'', ''signing_key_ref'', ''signature_scheme''] = Inr ()"
    by (simp add: env_fields)
  show ?thesis
    unfolding build_event_def Let_def get_or_def r
    by (simp add: env_fields s px_opt_ok [OF assms] kind_of_json_ok)
qed

lemma wire_preimage_env:
  "wire_preimage (env_of e scope) (JStr pd) = preimage_v1 (hash_input_of e pd)"
  by (simp add: wire_preimage_def preimage_v1_def hash_input_of_def get_or_def env_fields)

lemma wire_hash_env:
  assumes "event_hash (sha256 cr) (hash_input_of e pd) = Inr h"
  shows "wire_hash cr (env_of e scope) (JStr pd) (JInt (envelope_version e)) (jopt JStr (scope_digest e)) = Inr h"
proof -
  have "hi_envelope_version (hash_input_of e pd) = envelope_version e" "hi_scope_digest (hash_input_of e pd) = scope_digest e"
    by (simp_all add: hash_input_of_def)
  with assms show ?thesis
    by (auto simp: wire_hash_def wire_preimage_env event_hash_def event_preimage_def split: if_splits)
qed

definition wired :: "event \<Rightarrow> bool \<Rightarrow> event" where
  "wired e as_stub = (if as_stub \<or> is_stub e then e\<lparr>payload := None, scope_ref := None\<rparr> else e)"

lemma event_verify_facts:
  assumes "event_verify sha e"
  shows "event_hash sha (hash_input_of e (payload_digest e)) = Inr (event_id e)" "self_hash e = event_id e"
    "envelope_version e = 1 \<Longrightarrow> scope_ref e = None \<and> scope_digest e = None"
    "payload e = Some p \<Longrightarrow> payload_digest e = digest sha (model_dump p)"
  using assms by (auto simp: event_verify_def Let_def split: if_splits sum.splits option.splits)

lemma wire_roundtrip:
  assumes "pydantic_ok px P" "event_verify (sha256 cr) e"
    and "\<And>p. payload e = Some p \<Longrightarrow> p \<in> P \<and> payload_valid p \<and> loadable (float_repr cr) (model_dump p)"
  shows "from_wire cr px (to_wire e as_stub) = Inr (wired e as_stub)"
proof -
  note v = event_verify_facts [OF assms(2)]
  have g: "get_or (env_of e s) ''envelope_version'' (JInt 1) = JInt (envelope_version e)"
    "get_or (env_of e s) ''scope_digest'' JNull = jopt JStr (scope_digest e)"
    "get_or (env_of e s) ''scope_ref'' JNull = jopt JStr s" for s
    by (simp_all add: get_or_def env_fields)
  have r: "require_keys (env_of e s) [''origin_node'', ''origin_seq'', ''hlc'', ''kind'', ''subject_ref'',
                ''actor_ref'', ''policy_digest'', ''prev_hash''] = Inr ()"
    "require_key (env_of e s) ''self_hash'' = Inr (JStr (event_id e))"
    "require_key (env_of e s) ''event_id'' = Inr (JStr (event_id e))"
    "require_key (env_of e s) ''payload_digest'' = Inr (JStr (payload_digest e))" for s
    by (simp_all add: env_fields v(2))
  note h = wire_hash_env [OF v(1)] build_event_ok [OF assms(1)]
  have stub: "from_wire cr px (JObj [(''envelope'', envelope_json e None), (''payload_canonical'', JNull)])
      = Inr (e\<lparr>scope_ref := None, payload := None\<rparr>)"
  proof -
    have "\<not> (num_is (JInt (envelope_version e)) 1 \<and> jopt JStr (scope_digest e) \<noteq> JNull)"
      using v(3) by auto
    then show ?thesis
      by (simp add: from_wire_def Let_def require_key_def [of "[_, _]"] envelope_env g r h wire_payload_digest_def parse_payload_def env_fields
          del: num_is.simps)
  qed
  show ?thesis
  proof (cases "as_stub \<or> is_stub e")
    case True
    then have "to_wire e as_stub = JObj [(''envelope'', envelope_json e None), (''payload_canonical'', JNull)]"
      by (auto simp: to_wire_def is_stub_def split: option.splits)
    with True stub show ?thesis by (simp add: wired_def)
  next
    case False
    then obtain p where p: "payload e = Some p" by (auto simp: is_stub_def)
    with False have w: "to_wire e as_stub = JObj [(''envelope'', envelope_json e (scope_ref e)),
        (''payload_canonical'', JStr (canonical_json (model_dump p)))]" by (simp add: to_wire_def)
    have pd: "''sha256:'' @ sha256 cr (canonical_json (model_dump p)) = payload_digest e"
      using v(4) [OF p] by (simp add: digest_def)
    have wp: "wire_payload_digest cr (env_of e (scope_ref e)) (JStr (canonical_json (model_dump p)))
        = Inr (JStr (payload_digest e))"
      unfolding wire_payload_digest_def by (simp only: json.case r bind_result_simps pd) simp
    have "loads (float_repr cr) (canonical_json (model_dump p)) = Some (sort_keys (model_dump p))"
      using assms(3) [OF p] by (intro loads_canonical) blast
    then have pp: "parse_payload cr px (JStr (canonical_json (model_dump p))) = Inr (Some p)"
      using assms(1,3) p by (simp add: parse_payload_def pydantic_ok_def)
    have ver: "\<not> (num_is (JInt (envelope_version e)) 1 \<and> (jopt JStr (scope_digest e) \<noteq> JNull \<or> jopt JStr (scope_ref e) \<noteq> JNull))"
      using v(3) by auto
    have same: "e\<lparr>payload := Some p\<rparr> = e" using p by simp
    have "from_wire cr px (to_wire e as_stub) = Inr e"
      unfolding w using ver assms(2)
      by (simp add: from_wire_def Let_def require_key_def [of "[_, _]"] envelope_env g r h wp pp same env_fields
          del: num_is.simps)
    with False show ?thesis by (simp add: wired_def)
  qed
qed


section \<open>What is received was committed to\<close>

text \<open>The accepted body is the body the payload digest commits to, and it is what was parsed.\<close>

lemma from_wire_Inr:
  assumes "from_wire cr px obj = Inr e"
  obtains env body pd version sh p where
    "obj_get obj ''envelope'' = Inr (JObj env)" "obj_get obj ''payload_canonical'' = Inr body"
    "version = get_or env ''envelope_version'' (JInt 1)"
    "wire_payload_digest cr env body = Inr pd"
    "wire_hash cr env pd version (get_or env ''scope_digest'' JNull) = Inr sh"
    "map_of env ''self_hash'' = Some (JStr sh)" "map_of env ''event_id'' = Some (JStr sh)"
    "parse_payload cr px body = Inr p" "build_event px env pd version p = Inr e"
    "get_or env ''scope_ref'' JNull \<noteq> JNull \<Longrightarrow> event_verify (sha256 cr) e"
    "num_is version 1 \<Longrightarrow> get_or env ''scope_ref'' JNull = JNull \<and> get_or env ''scope_digest'' JNull = JNull"
proof -
  obtain envj body env where o: "obj_get obj ''envelope'' = Inr envj"
    "obj_get obj ''payload_canonical'' = Inr body" "as_dict envj = Inr env"
    using assms by (auto simp: from_wire_def)
  have "envj = JObj env" using o(3) by (cases envj) auto
  with o have w: "obj_get obj ''envelope'' = Inr (JObj env)" by simp
  let ?v = "get_or env ''envelope_version'' (JInt 1)" and ?s = "get_or env ''scope_ref'' JNull"
  have g: "\<not> (num_is ?v 1 \<and> (get_or env ''scope_digest'' JNull \<noteq> JNull \<or> ?s \<noteq> JNull))"
    using assms w o(2) by (auto simp: from_wire_def Let_def split: if_splits)
  with assms w o(2) obtain pd sh p where f: "wire_payload_digest cr env body = Inr pd"
    "wire_hash cr env pd ?v (get_or env ''scope_digest'' JNull) = Inr sh"
    "map_of env ''self_hash'' = Some (JStr sh)" "map_of env ''event_id'' = Some (JStr sh)"
    "parse_payload cr px body = Inr p"
    "build_event px env pd ?v p = Inr e" "?s = JNull \<or> event_verify (sha256 cr) e"
    unfolding from_wire_def Let_def by (auto simp del: num_is.simps split: if_splits)
  show thesis by (rule that [OF w o(2) refl f(1-6)]) (use f(7) g in blast)+
qed

lemma build_event_Inr:
  assumes "build_event px env pd version p = Inr e"
  shows "payload e = p" "px_str px (get_or env ''event_id'' JNull) = Inr (event_id e)"
    "px_str px (get_or env ''self_hash'' JNull) = Inr (self_hash e)" "px_str px pd = Inr (payload_digest e)"
    "px_int px version = Inr (envelope_version e)"
  using assms unfolding build_event_def Let_def by auto

lemma from_wire_bytes:
  assumes "pydantic_ok px P" "from_wire cr px obj = Inr e"
  shows "self_hash e = event_id e"
    "obj_get obj ''payload_canonical'' = Inr JNull \<Longrightarrow> is_stub e"
    "obj_get obj ''payload_canonical'' = Inr (JStr t) \<Longrightarrow>
       payload_digest e = ''sha256:'' @ sha256 cr t
       \<and> (\<exists>j p. loads (float_repr cr) t = Some j \<and> px_payload px j = Inr p \<and> payload e = Some p)"
proof -
  have s: "px_str px (JStr t) = Inr t" for t using assms(1) by (simp add: pydantic_ok_def)
  obtain env body pd version sh p where w:
    "obj_get obj ''payload_canonical'' = Inr body"
    "wire_payload_digest cr env body = Inr pd"
    "map_of env ''self_hash'' = Some (JStr sh)" "map_of env ''event_id'' = Some (JStr sh)"
    "parse_payload cr px body = Inr p" "build_event px env pd version p = Inr e"
    by (rule from_wire_Inr [OF assms(2)])
  note b = build_event_Inr [OF w(6)]
  show "self_hash e = event_id e" using b(2,3) w(3,4) by (simp add: get_or_def s)
  show "obj_get obj ''payload_canonical'' = Inr JNull \<Longrightarrow> is_stub e"
    using w(1,5) b(1) by (simp add: parse_payload_def is_stub_def)
  assume "obj_get obj ''payload_canonical'' = Inr (JStr t)"
  with w(1) have t: "body = JStr t" by simp
  have "pd = JStr (''sha256:'' @ sha256 cr t)"
    using w(2) by (auto simp: wire_payload_digest_def t split: if_splits)
  then have "payload_digest e = ''sha256:'' @ sha256 cr t" using b(4) by (simp add: s)
  moreover have "\<exists>j p. loads (float_repr cr) t = Some j \<and> px_payload px j = Inr p \<and> payload e = Some p"
    using w(5) b(1) by (auto simp: parse_payload_def t split: option.splits)
  ultimately show "payload_digest e = ''sha256:'' @ sha256 cr t
       \<and> (\<exists>j p. loads (float_repr cr) t = Some j \<and> px_payload px j = Inr p \<and> payload e = Some p)" by blast
qed

text \<open>
  An event that came over the wire with its scope is verified, and a version-1 envelope has none: a
  peer cannot relabel an event into another scope.
\<close>

lemma from_wire_scope:
  assumes "from_wire cr px obj = Inr e" "obj_get obj ''envelope'' = Inr (JObj env)"
    and "get_or env ''scope_ref'' JNull \<noteq> JNull"
  shows "event_verify (sha256 cr) e"
proof -
  obtain env' where "obj_get obj ''envelope'' = Inr (JObj env')"
    "get_or env' ''scope_ref'' JNull \<noteq> JNull \<longrightarrow> event_verify (sha256 cr) e"
    using from_wire_Inr [OF assms(1)] by metis
  with assms(2,3) show ?thesis by simp
qed

end
