(* ===== verification/Archive.thy ===== *)
theory Archive
  imports Wire Workload
begin

text \<open>
  \<^verbatim>\<open>kawa/storage/archive.py\<close>: an origin range as a self-verifying document, its layered
  verification, and its import through ordinary admission.  A file holds a JSON document or bytes
  that do not parse (the text form of \<open>json.dump\<close> is not modelled); the evidence table is the
  association list of archive rows.
\<close>

section \<open>Documents\<close>

definition ARCHIVE_POLICY :: string where
  "ARCHIVE_POLICY = ''chain+envelope+bytes-v1''"

datatype archive_file = Garbage | Document json

definition event_set_digest :: "crypto \<Rightarrow> event list \<Rightarrow> string" where
  "event_set_digest cr es = digest (sha256 cr) (JList (map (\<lambda>e. JStr (event_id e)) es))"

fun commitment :: "crypto \<Rightarrow> event list \<Rightarrow> string \<Rightarrow> string \<Rightarrow> json result" where
  "commitment cr [] pol attested_at = Inl (RuntimeError ''IndexError'')"
| "commitment cr (e # es) pol attested_at = Inr (JObj
     [(''origin_node'', JStr (origin_node e)), (''from_seq'', JInt (origin_seq e)),
      (''from_hash'', jopt JStr (prev_hash e)), (''to_seq'', JInt (origin_seq (last (e # es)))),
      (''to_hash'', JStr (self_hash (last (e # es)))),
      (''event_set_digest'', JStr (event_set_digest cr (e # es))),
      (''policy'', JStr pol), (''attested_at'', JStr attested_at)])"

definition archive_doc :: "json \<Rightarrow> string \<Rightarrow> node_credential \<Rightarrow> event list \<Rightarrow> json" where
  "archive_doc cm cd cred es = JObj
     [(''commitment'', cm), (''commitment_digest'', JStr cd), (''signature'', JStr (nc_sign cred cd)),
      (''signing_key_ref'', JStr (nc_key_ref cred)), (''signature_scheme'', JStr (nc_scheme cred)),
      (''events'', JList (map (\<lambda>e. to_wire e False) es))]"

definition archive_export ::
    "crypto \<Rightarrow> db \<Rightarrow> string \<Rightarrow> int \<Rightarrow> int \<Rightarrow> string \<Rightarrow> node_credential \<Rightarrow> string \<Rightarrow> (string \<Rightarrow> archive_file option)
      \<Rightarrow> (string \<times> (string \<Rightarrow> archive_file option)) result" where
  "archive_export cr d node from_seq to_seq path cred attested_at files =
     bind_result (read_positions cr d [(node, [from_seq..to_seq])]) (\<lambda>es.
       if int (length es) \<noteq> to_seq - from_seq + 1 \<or> list_ex is_stub es
       then Inl (ArchiveVerificationError ''export range is not fully materialized'')
       else bind_result (commitment cr es ARCHIVE_POLICY attested_at) (\<lambda>cm.
              let cd = digest (sha256 cr) cm
              in Inr (cd, files(path \<mapsto> Document (archive_doc cm cd cred es)))))"

section \<open>Verification\<close>

text \<open>The signature triple as decoded; a value of another type resolves to no key or raises.\<close>

definition provenance_json :: "crypto \<Rightarrow> key_registry \<Rightarrow> string \<Rightarrow> json \<Rightarrow> json \<Rightarrow> json \<Rightarrow> bool" where
  "provenance_json cr keys cd a b c =
     (case (a, b, c) of
        (JStr sig, JStr k, JStr sch) \<Rightarrow> resolve_and_verify_provenance cr cd sig k sch keys
      | _ \<Rightarrow> False)"

fun from_wires :: "crypto \<Rightarrow> pydantic \<Rightarrow> json list \<Rightarrow> event list result" where
  "from_wires cr px [] = Inr []"
| "from_wires cr px (j # js) =
     bind_result (case from_wire cr px j of
         Inl (WireVerificationError m) \<Rightarrow> Inl (ArchiveVerificationError ''event byte verification failed'')
       | r \<Rightarrow> r) (\<lambda>e. bind_result (from_wires cr px js) (\<lambda>es. Inr (e # es)))"

fun contiguous :: "event list \<Rightarrow> bool" where
  "contiguous (a # b # es) \<longleftrightarrow> origin_seq b = origin_seq a + 1 \<and> prev_hash b = Some (self_hash a)
     \<and> origin_node b = origin_node a \<and> contiguous (b # es)"
| "contiguous _ = True"

definition boundary_error :: py_error where
  "boundary_error = ArchiveVerificationError ''boundary/contiguity mismatch''"

text \<open>Each comparison with the commitment is reached only when the one before it held.\<close>

definition check_field :: "json \<Rightarrow> string \<Rightarrow> (json \<Rightarrow> bool) \<Rightarrow> unit result" where
  "check_field cm k ok = bind_result (obj_get cm k) (\<lambda>j. if ok j then Inr () else Inl boundary_error)"

definition check_bounds :: "json \<Rightarrow> event \<Rightarrow> event \<Rightarrow> unit result" where
  "check_bounds cm a z =
     bind_result (check_field cm ''origin_node'' (\<lambda>j. j = JStr (origin_node a))) (\<lambda>_.
     bind_result (check_field cm ''from_seq'' (\<lambda>j. num_is j (origin_seq a))) (\<lambda>_.
     bind_result (check_field cm ''from_hash'' (\<lambda>j. j = jopt JStr (prev_hash a))) (\<lambda>_.
     bind_result (check_field cm ''to_seq'' (\<lambda>j. num_is j (origin_seq z))) (\<lambda>_.
       check_field cm ''to_hash'' (\<lambda>j. j = JStr (self_hash z))))))"

definition verify_archive_doc :: "crypto \<Rightarrow> pydantic \<Rightarrow> key_registry \<Rightarrow> json \<Rightarrow> event list result" where
  "verify_archive_doc cr px keys doc =
     bind_result (obj_get doc ''commitment'') (\<lambda>cm.
     bind_result (as_dict doc) (\<lambda>ms.
       let cd = digest (sha256 cr) cm
       in if get_or ms ''commitment_digest'' JNull \<noteq> JStr cd
          then Inl (ArchiveVerificationError ''commitment digest mismatch'')
          else bind_result (require_keys ms [''signature'', ''signing_key_ref'', ''signature_scheme'']) (\<lambda>_.
            if \<not> provenance_json cr keys cd (get_or ms ''signature'' JNull) (get_or ms ''signing_key_ref'' JNull)
                   (get_or ms ''signature_scheme'' JNull)
            then Inl (ArchiveVerificationError ''archiver signature invalid'')
            else bind_result (bind_result (require_key ms ''events'') iterate) (\<lambda>js.
                 bind_result (from_wires cr px js) (\<lambda>es.
                   if list_ex is_stub es then Inl (ArchiveVerificationError ''archive contains stubs'')
                   else bind_result (obj_get cm ''event_set_digest'') (\<lambda>sd.
                     if sd \<noteq> JStr (event_set_digest cr es)
                     then Inl (ArchiveVerificationError ''event-set digest mismatch'')
                     else if es = [] then Inl (ArchiveVerificationError ''empty segment'')
                     else if \<not> contiguous es then Inl boundary_error
                     else bind_result (check_bounds cm (hd es) (last es)) (\<lambda>_. Inr es)))))))"

text \<open>Every failure of the document is a failed verification; a missing file stays what it is.\<close>

definition verify_archive_file ::
    "crypto \<Rightarrow> pydantic \<Rightarrow> key_registry \<Rightarrow> (string \<Rightarrow> archive_file option) \<Rightarrow> string \<Rightarrow> (event list \<times> json) result" where
  "verify_archive_file cr px keys files path =
     (case files path of
        None \<Rightarrow> Inl (RuntimeError ''FileNotFoundError'')
      | Some Garbage \<Rightarrow> Inl (ArchiveVerificationError ''unreadable archive'')
      | Some (Document doc) \<Rightarrow>
          (case verify_archive_doc cr px keys doc of
             Inr es \<Rightarrow> Inr (es, doc)
           | Inl (ArchiveVerificationError m) \<Rightarrow> Inl (ArchiveVerificationError m)
           | Inl _ \<Rightarrow> Inl (ArchiveVerificationError ''malformed archive file'')))"

section \<open>Import\<close>

record archive_row =
  ar_origin_node :: string
  ar_from_seq :: int
  ar_to_seq :: int
  ar_from_hash :: "string option"
  ar_to_hash :: string
  ar_event_set_digest :: string
  ar_archiver_key_ref :: json
  ar_path :: string
  ar_detached :: bool

type_synonym archive_table = "(string \<times> archive_row) list"

text \<open>\<open>ON CONFLICT (commitment_digest) DO UPDATE SET detached\<close>.\<close>

definition upsert_segment :: "string \<Rightarrow> archive_row \<Rightarrow> archive_table \<Rightarrow> archive_table" where
  "upsert_segment cd row t =
     (case map_of t cd of
        None \<Rightarrow> t @ [(cd, row)]
      | Some _ \<Rightarrow> map (\<lambda>(k, r). if k = cd then (k, r\<lparr>ar_detached := ar_detached row\<rparr>) else (k, r)) t)"

definition detached :: "db \<Rightarrow> event \<Rightarrow> bool" where
  "detached d z \<longleftrightarrow> \<not> list_ex (\<lambda>r. origin_node r = origin_node z \<and> origin_seq r = origin_seq z
     \<and> self_hash r = self_hash z) (events d)"

text \<open>A verified boundary equals the column of the commitment; a bool is no bigint.\<close>

fun bigint_param :: "json \<Rightarrow> int \<Rightarrow> int result" where
  "bigint_param (JBool _) v = Inl (DataError ''bigint'')"
| "bigint_param _ v = Inr v"

definition segment_row :: "crypto \<Rightarrow> json \<Rightarrow> (string \<Rightarrow> string) \<Rightarrow> string \<Rightarrow> event list \<Rightarrow> db \<Rightarrow> (string \<times> archive_row) result" where
  "segment_row cr doc abspath path es d =
     bind_result (obj_get doc ''commitment'') (\<lambda>cm.
     bind_result (obj_get doc ''signing_key_ref'') (\<lambda>k.
     bind_result (bind_result (obj_get cm ''from_seq'') (\<lambda>j. bigint_param j (origin_seq (hd es)))) (\<lambda>from_seq.
     bind_result (bind_result (obj_get cm ''to_seq'') (\<lambda>j. bigint_param j (origin_seq (last es)))) (\<lambda>to_seq.
       Inr (digest (sha256 cr) cm,
            \<lparr>ar_origin_node = origin_node (hd es), ar_from_seq = from_seq, ar_to_seq = to_seq,
             ar_from_hash = prev_hash (hd es), ar_to_hash = self_hash (last es),
             ar_event_set_digest = event_set_digest cr es, ar_archiver_key_ref = k,
             ar_path = abspath path, ar_detached = detached d (last es)\<rparr>)))))"

definition archive_import ::
    "crypto \<Rightarrow> uuid_cast \<Rightarrow> pydantic \<Rightarrow> key_registry \<Rightarrow> trust_registry \<Rightarrow> int \<Rightarrow> (string \<Rightarrow> string)
      \<Rightarrow> (string \<Rightarrow> archive_file option) \<Rightarrow> string \<Rightarrow> hlc_clock option \<Rightarrow> db \<Rightarrow> archive_table
      \<Rightarrow> hlc_clock option \<times> db \<times> (pull_report \<times> archive_table) result" where
  "archive_import cr uc px keys trust now abspath files path clock d segs =
     (case verify_archive_file cr px keys files path of
        Inl err \<Rightarrow> (clock, d, Inl err)
      | Inr (es, doc) \<Rightarrow>
          (case admit_batch cr uc \<lparr>g_keys = keys, g_trust = trust, g_requested = None,
                  g_max_skew = DEFAULT_FORWARD_SKEW_MS, g_now_ms = now\<rparr> now es clock d of
             (c, Inl err) \<Rightarrow> (c, d, Inl err)
           | (c, Inr (rep, d')) \<Rightarrow>
               (c, d', bind_result (segment_row cr doc abspath path es d') (\<lambda>(cd, row).
                         Inr (rep, upsert_segment cd row segs)))))"

section \<open>What a verified archive is\<close>

lemma all_less_shift:
  "(\<forall>i. Suc i < Suc (Suc n) \<longrightarrow> P i) \<longleftrightarrow> P 0 \<and> (\<forall>i. Suc i < Suc n \<longrightarrow> P (Suc i))"
  by (metis Suc_less_eq not0_implies_Suc zero_less_Suc)

lemma contiguous_nth:
  "contiguous es \<longleftrightarrow> (\<forall>i. Suc i < length es \<longrightarrow> origin_seq (es ! Suc i) = origin_seq (es ! i) + 1
     \<and> prev_hash (es ! Suc i) = Some (self_hash (es ! i)) \<and> origin_node (es ! Suc i) = origin_node (es ! i))"
proof (induction es rule: contiguous.induct)
  case (1 a b es)
  let ?l = "\<lambda>xs i. origin_seq (xs ! Suc i) = origin_seq (xs ! i) + 1
     \<and> prev_hash (xs ! Suc i) = Some (self_hash (xs ! i)) \<and> origin_node (xs ! Suc i) = origin_node (xs ! i)"
  have "(\<forall>i. Suc i < length (a # b # es) \<longrightarrow> ?l (a # b # es) i)
      \<longleftrightarrow> ?l (a # b # es) 0 \<and> (\<forall>i. Suc i < length (b # es) \<longrightarrow> ?l (a # b # es) (Suc i))"
    unfolding length_Cons by (rule all_less_shift)
  then show ?case unfolding contiguous.simps 1 by simp
qed auto

lemma contiguous_positions:
  assumes "contiguous es"
  shows "i < length es \<Longrightarrow> origin_seq (es ! i) = origin_seq (hd es) + int i \<and> origin_node (es ! i) = origin_node (hd es)"
proof (induction i)
  case 0
  then show ?case by (cases es) simp_all
next
  case (Suc i)
  with assms show ?case by (simp add: contiguous_nth)
qed

lemma from_wires_Inr: "from_wires cr px js = Inr es \<longleftrightarrow> list_all2 (\<lambda>j e. from_wire cr px j = Inr e) js es"
proof (induction js arbitrary: es)
  case (Cons j js)
  have "(case from_wire cr px j of Inl (WireVerificationError m) \<Rightarrow> Inl (ArchiveVerificationError ''event byte verification failed'')
       | r \<Rightarrow> r) = Inr e \<longleftrightarrow> from_wire cr px j = Inr e" for e
    by (auto split: sum.splits py_error.splits)
  with Cons.IH show ?case by (cases es) auto
qed auto

lemma provenance_json_true:
  assumes "provenance_json cr keys cd a b c"
  obtains sig k sch where "a = JStr sig" "b = JStr k" "c = JStr sch" "resolve_and_verify_provenance cr cd sig k sch keys"
proof -
  obtain sig where a: "a = JStr sig" using assms by (cases a) (auto simp: provenance_json_def)
  obtain k where b: "b = JStr k" using assms a by (cases b) (auto simp: provenance_json_def)
  obtain sch where c: "c = JStr sch" using assms a b by (cases c) (auto simp: provenance_json_def)
  from that [OF a b c] assms show thesis by (simp add: provenance_json_def a b c)
qed

lemma check_field_Inr [simp]: "check_field cm k ok = Inr u \<longleftrightarrow> (\<exists>j. obj_get cm k = Inr j \<and> ok j)"
  by (auto simp: check_field_def)

lemma verify_archive_doc_Inr:
  assumes "verify_archive_doc cr px keys doc = Inr es"
  obtains cm sig k sch js where "obj_get doc ''commitment'' = Inr cm"
    "obj_get doc ''events'' = Inr js" "resolve_and_verify_provenance cr (digest (sha256 cr) cm) sig k sch keys"
    "\<exists>ws. iterate js = Inr ws \<and> list_all2 (\<lambda>j e. from_wire cr px j = Inr e) ws es"
    "es \<noteq> []" "\<forall>e \<in> set es. \<not> is_stub e" "contiguous es"
    "obj_get cm ''event_set_digest'' = Inr (JStr (event_set_digest cr es))"
    "check_bounds cm (hd es) (last es) = Inr ()"
proof -
  obtain cm ms where c: "obj_get doc ''commitment'' = Inr cm" "as_dict doc = Inr ms"
    using assms by (auto simp: verify_archive_doc_def)
  have doc: "doc = JObj ms" using c(2) by (cases doc) auto
  obtain js ws where w: "provenance_json cr keys (digest (sha256 cr) cm) (get_or ms ''signature'' JNull)
      (get_or ms ''signing_key_ref'' JNull) (get_or ms ''signature_scheme'' JNull)"
    "map_of ms ''events'' = Some js" "iterate js = Inr ws" "from_wires cr px ws = Inr es"
    "\<not> list_ex is_stub es" "obj_get cm ''event_set_digest'' = Inr (JStr (event_set_digest cr es))"
    "es \<noteq> []" "contiguous es" "check_bounds cm (hd es) (last es) = Inr ()"
    using assms c by (auto simp: verify_archive_doc_def Let_def split: if_splits)
  obtain sig k sch where prov: "resolve_and_verify_provenance cr (digest (sha256 cr) cm) sig k sch keys"
    by (rule provenance_json_true [OF w(1)])
  have ev: "obj_get doc ''events'' = Inr js" by (simp add: doc w(2))
  have wires: "\<exists>ws. iterate js = Inr ws \<and> list_all2 (\<lambda>j e. from_wire cr px j = Inr e) ws es"
    using w(3,4) unfolding from_wires_Inr by blast
  have "\<forall>e \<in> set es. \<not> is_stub e" using w(5) by (simp add: list_ex_iff)
  from that [OF c(1) ev prov wires w(7) this w(8,6,9)] show thesis .
qed

lemma verify_archive_file_Inr:
  "verify_archive_file cr px keys files path = Inr (es, doc) \<longleftrightarrow>
     files path = Some (Document doc) \<and> verify_archive_doc cr px keys doc = Inr es"
  by (auto simp: verify_archive_file_def split: option.splits archive_file.splits sum.splits py_error.splits)

text \<open>A document never crashes the caller: every failure is a failed verification.\<close>

lemma verify_archive_file_errors:
  assumes "verify_archive_file cr px keys files path = Inl err" "files path \<noteq> None"
  shows "\<exists>m. err = ArchiveVerificationError m"
  using assms by (auto simp: verify_archive_file_def split: option.splits archive_file.splits sum.splits py_error.splits)

section \<open>An export verifies\<close>

lemma read_run:
  assumes "concat_results (map (\<lambda>seq. case row_at d node seq of None \<Rightarrow> Inr []
       | Some r \<Rightarrow> bind_result (load_event cr d True r) (\<lambda>e. Inr [e])) seqs) = Inr es"
  shows "length es \<le> length seqs \<and> (length es = length seqs \<longrightarrow>
    list_all2 (\<lambda>seq e. \<exists>r. row_at d node seq = Some r \<and> load_event cr d True r = Inr e) seqs es)"
  using assms
proof (induction seqs arbitrary: es)
  case (Cons q qs)
  let ?f = "\<lambda>seq. case row_at d node seq of None \<Rightarrow> Inr []
       | Some r \<Rightarrow> bind_result (load_event cr d True r) (\<lambda>e. Inr [e])"
  from Cons.prems obtain xs ys where x: "?f q = Inr xs" "concat_results (map ?f qs) = Inr ys" "es = xs @ ys" by auto
  note i = Cons.IH [OF x(2)]
  have l: "length xs \<le> 1" using x(1) by (auto split: option.splits)
  have "list_all2 (\<lambda>seq e. \<exists>r. row_at d node seq = Some r \<and> load_event cr d True r = Inr e) (q # qs) es"
    if "length es = length (q # qs)"
  proof -
    from that l i have "length xs = 1" "length ys = length qs" by (auto simp: x(3))
    with x(1) i show ?thesis by (auto simp: x(3) split: option.splits)
  qed
  with l i show ?case by (simp add: x(3))
qed simp

lemma read_positions_run:
  assumes "read_positions cr d [(node, [a..b])] = Inr es" "int (length es) = b - a + 1"
  shows "list_all2 (\<lambda>seq e. \<exists>r. row_at d node seq = Some r \<and> load_event cr d True r = Inr e) [a..b] es"
proof -
  have "sort [a..b] = [a..b]" by (simp add: sorted_sort_id)
  with assms(1) have "concat_results (map (\<lambda>seq. case row_at d node seq of None \<Rightarrow> Inr []
       | Some r \<Rightarrow> bind_result (load_event cr d True r) (\<lambda>e. Inr [e])) [a..b]) = Inr es"
    by (simp add: read_positions_def)
  from read_run [OF this] assms(2) show ?thesis by simp
qed

lemma load_event_fields:
  assumes "load_event cr d True r = Inr e"
  shows "origin_node e = origin_node r" "origin_seq e = origin_seq r" "prev_hash e = prev_hash r" "self_hash e = self_hash r"
  using assms by (auto simp: load_event_def event_of_row_def split: if_splits)

lemma exported_contiguous:
  assumes "log_ok (events d)" "read_positions cr d [(node, [a..b])] = Inr es" "int (length es) = b - a + 1"
  shows "contiguous es"
  unfolding contiguous_nth
proof (intro allI impI)
  fix i
  assume i: "Suc i < length es"
  note run = read_positions_run [OF assms(2,3)]
  from run i have n: "\<exists>r. row_at d node ([a..b] ! i) = Some r \<and> load_event cr d True r = Inr (es ! i)"
    "\<exists>r. row_at d node ([a..b] ! Suc i) = Some r \<and> load_event cr d True r = Inr (es ! Suc i)"
    by (auto simp: list_all2_conv_all_nth)
  then obtain q r where q: "row_at d node (a + int i) = Some q" "load_event cr d True q = Inr (es ! i)"
    and r: "row_at d node (a + int i + 1) = Some r" "load_event cr d True r = Inr (es ! Suc i)"
    using i assms(3) by (auto simp: add_ac)
  note qr = row_at_Some [OF q(1)] row_at_Some [OF r(1)]
  have "1 \<le> origin_seq q" using assms(1) qr by (auto simp: log_ok_def)
  then have "origin_seq r \<noteq> 1" using qr by simp
  with assms(1) qr obtain p where p: "p \<in> set (events d)" "origin_node p = origin_node r"
    "origin_seq p = origin_seq r - 1" "prev_hash r = Some (self_hash p)" unfolding log_ok_def by blast
  have "inj_on (\<lambda>r. (origin_node r, origin_seq r)) (set (events d))"
    using assms(1) by (simp add: log_ok_def distinct_map)
  then have "p = q" using p qr by (auto dest: inj_onD)
  with p(4) qr load_event_fields [OF q(2)] load_event_fields [OF r(2)]
  show "origin_seq (es ! Suc i) = origin_seq (es ! i) + 1
     \<and> prev_hash (es ! Suc i) = Some (self_hash (es ! i)) \<and> origin_node (es ! Suc i) = origin_node (es ! i)" by simp
qed


lemma commitment_fields:
  assumes "commitment cr es pol ts = Inr cm"
  shows "es \<noteq> []" "obj_get cm ''event_set_digest'' = Inr (JStr (event_set_digest cr es))"
    "check_bounds cm (hd es) (last es) = Inr ()"
proof -
  show "es \<noteq> []" using assms by auto
  then obtain e es' where "es = e # es'" by (cases es) auto
  with assms show "obj_get cm ''event_set_digest'' = Inr (JStr (event_set_digest cr es))"
    "check_bounds cm (hd es) (last es) = Inr ()"
    by (auto simp: check_bounds_def)
qed

lemma from_wires_sent:
  assumes "pydantic_ok px P" "\<forall>e \<in> set es. event_verify (sha256 cr) e \<and> \<not> is_stub e
     \<and> (\<forall>p. payload e = Some p \<longrightarrow> p \<in> P \<and> payload_valid p \<and> loadable (float_repr cr) (model_dump p))"
  shows "from_wires cr px (map (\<lambda>e. to_wire e False) es) = Inr es"
proof -
  have "from_wire cr px (to_wire e False) = Inr e" if "e \<in> set es" for e
    using wire_roundtrip [OF assms(1), of cr e False] assms(2) that by (simp add: wired_def)
  then show ?thesis unfolding from_wires_Inr by (simp add: list_all2_conv_all_nth)
qed

lemma archive_roundtrip:
  assumes export: "archive_export cr d node a b path cred ts files = Inr (cd, files')"
    and "log_ok (events d)" "pydantic_ok px P" "credential_registered cr keys cred cd"
    and held: "\<And>es e. read_positions cr d [(node, [a..b])] = Inr es \<Longrightarrow> e \<in> set es \<Longrightarrow> event_verify (sha256 cr) e
      \<and> (\<forall>p. payload e = Some p \<longrightarrow> p \<in> P \<and> payload_valid p \<and> loadable (float_repr cr) (model_dump p))"
  shows "\<exists>es doc. read_positions cr d [(node, [a..b])] = Inr es
    \<and> verify_archive_file cr px keys files' path = Inr (es, doc)"
proof -
  obtain es cm where es: "read_positions cr d [(node, [a..b])] = Inr es" "int (length es) = b - a + 1"
    "\<not> list_ex is_stub es" and cm: "commitment cr es ARCHIVE_POLICY ts = Inr cm"
    and cd: "cd = digest (sha256 cr) cm" and files': "files' = files(path \<mapsto> Document (archive_doc cm cd cred es))"
    using export by (auto simp: archive_export_def Let_def split: if_splits)
  note c = commitment_fields [OF cm]
  have "from_wires cr px (map (\<lambda>e. to_wire e False) es) = Inr es"
    using held [OF es(1)] es(3) by (intro from_wires_sent [OF assms(3)]) (simp add: list_ex_iff)
  moreover have "contiguous es" by (rule exported_contiguous [OF assms(2) es(1,2)])
  moreover have "provenance_json cr keys cd (JStr (nc_sign cred cd)) (JStr (nc_key_ref cred)) (JStr (nc_scheme cred))"
    using assms(4) by (simp add: provenance_json_def credential_registered_def)
  ultimately have "verify_archive_doc cr px keys (archive_doc cm cd cred es) = Inr es"
    using es(3) c by (simp add: verify_archive_doc_def archive_doc_def Let_def require_key_def get_or_def cd)
  then show ?thesis using es(1) files' by (auto simp: verify_archive_file_Inr)
qed

section \<open>Import is ordinary admission\<close>

lemma archive_import_cases:
  assumes "archive_import cr uc px keys trust now abspath files path clock d segs = (c, d', r)"
  obtains (refused) err where "verify_archive_file cr px keys files path = Inl err" "d' = d" "r = Inl err"
  | (aborted) es doc err where "verify_archive_file cr px keys files path = Inr (es, doc)" "d' = d" "r = Inl err"
  | (admitted) es doc rep where "verify_archive_file cr px keys files path = Inr (es, doc)"
      "admit_batch cr uc \<lparr>g_keys = keys, g_trust = trust, g_requested = None,
         g_max_skew = DEFAULT_FORWARD_SKEW_MS, g_now_ms = now\<rparr> now es clock d = (c, Inr (rep, d'))"
      "bind_result (segment_row cr doc abspath path es d') (\<lambda>(cd, row). Inr (rep, upsert_segment cd row segs)) = r"
  using assms by (auto simp: archive_import_def split: sum.splits prod.splits)

lemma upsert_segment_row:
  "map_of (upsert_segment cd row t) k =
     (if k = cd then Some (case map_of t cd of None \<Rightarrow> row | Some r \<Rightarrow> r\<lparr>ar_detached := ar_detached row\<rparr>)
      else map_of t k)"
proof (cases "map_of t cd")
  case None
  then show ?thesis by (auto simp: upsert_segment_def map_add_def split: option.splits)
next
  case (Some r)
  have "map_of (map (\<lambda>(k, r). if k = cd then (k, r\<lparr>ar_detached := ar_detached row\<rparr>) else (k, r)) t) k
      = (if k = cd then map_option (\<lambda>r. r\<lparr>ar_detached := ar_detached row\<rparr>) (map_of t k) else map_of t k)" for t
    by (induction t) auto
  then have "map_of (upsert_segment cd row t) k
      = (if k = cd then map_option (\<lambda>r. r\<lparr>ar_detached := ar_detached row\<rparr>) (map_of t k) else map_of t k)"
    by (simp only: upsert_segment_def Some option.case)
  with Some show ?thesis by simp
qed

text \<open>The evidence row says whether the head of the segment sits in the log, whatever this call admitted.\<close>

lemma archive_import_evidence:
  assumes "archive_import cr uc px keys trust now abspath files path clock d segs = (c, d', Inr (rep, segs'))"
  obtains es doc cm row where "verify_archive_file cr px keys files path = Inr (es, doc)"
    "obj_get doc ''commitment'' = Inr cm" "map_of segs' (digest (sha256 cr) cm) = Some row"
    "ar_detached row \<longleftrightarrow> detached d' (last es)"
    "\<forall>k. k \<noteq> digest (sha256 cr) cm \<longrightarrow> map_of segs' k = map_of segs k"
  using assms
proof (cases rule: archive_import_cases)
  case (admitted es doc rep')
  then obtain cd row where s: "segment_row cr doc abspath path es d' = Inr (cd, row)"
    and segs': "segs' = upsert_segment cd row segs" by auto
  from s obtain cm where cm: "obj_get doc ''commitment'' = Inr cm" "cd = digest (sha256 cr) cm"
    "ar_detached row \<longleftrightarrow> detached d' (last es)" by (auto simp: segment_row_def)
  let ?row = "case map_of segs cd of None \<Rightarrow> row | Some r \<Rightarrow> r\<lparr>ar_detached := ar_detached row\<rparr>"
  have "map_of segs' (digest (sha256 cr) cm) = Some ?row" "ar_detached ?row = ar_detached row"
    by (simp_all add: segs' upsert_segment_row cm(2) split: option.splits)
  with that [OF admitted(1) cm(1), of ?row] cm show thesis by (simp add: segs' upsert_segment_row)
qed auto

lemma archive_import_log:
  assumes "log_ok (events d)"
    and "archive_import cr uc px keys trust now abspath files path clock d segs = (c, d', r)"
  shows "log_ok (events d')"
  using assms(2)
proof (cases rule: archive_import_cases)
  case (admitted es doc rep)
  from admit_batch_inv [OF assms(1) admitted(2)] obtain s where "batch_inv cr
     \<lparr>g_keys = keys, g_trust = trust, g_requested = None, g_max_skew = DEFAULT_FORWARD_SKEW_MS, g_now_ms = now\<rparr> d s"
    "ad_db s = d'" by blast
  with batch_invD(1) show ?thesis by (auto simp: admission_log_def)
qed (use assms(1) in auto)

end
