(* ===== verification/Participant.thy ===== *)
theory Participant
  imports Workload
begin

text \<open>
  \<^verbatim>\<open>kawa/domain/participant.py\<close>: joining a participant.  Advertised, mediated and authorized
  capabilities are three inputs; a session exists only behind a credential that verifies.
\<close>

section \<open>Reconciliation\<close>

datatype decision = Granted | Not_advertised | Not_mediated | Not_authorized

type_synonym mediator = "string set \<Rightarrow> string set"

definition verifiable_set_mediator :: "string set \<Rightarrow> mediator" where
  "verifiable_set_mediator verifiable = (\<lambda>advertised. advertised \<inter> verifiable)"

record reconciliation =
  rec_authorized :: "string set"
  rec_decisions :: "string \<Rightarrow> decision option"

text \<open>
  \<open>advertised\<close> is a set of the caller; its elements are listed in some order, on which neither
  result depends.
\<close>

fun reconcile_loop ::
    "string set \<Rightarrow> string set \<Rightarrow> string list \<Rightarrow> reconciliation \<Rightarrow> reconciliation" where
  "reconcile_loop mediated policy [] r = r"
| "reconcile_loop mediated policy (c # cs) r =
     reconcile_loop mediated policy cs
       (if c \<notin> mediated then r\<lparr>rec_decisions := (rec_decisions r)(c \<mapsto> Not_mediated)\<rparr>
        else if c \<notin> policy then r\<lparr>rec_decisions := (rec_decisions r)(c \<mapsto> Not_authorized)\<rparr>
        else \<lparr>rec_authorized = insert c (rec_authorized r),
              rec_decisions = (rec_decisions r)(c \<mapsto> Granted)\<rparr>)"

definition reconcile :: "string list \<Rightarrow> mediator \<Rightarrow> string set \<Rightarrow> reconciliation" where
  "reconcile advertised mediate policy =
     reconcile_loop (mediate (set advertised)) policy advertised
       \<lparr>rec_authorized = {}, rec_decisions = Map.empty\<rparr>"

section \<open>Sessions\<close>

record introduction =
  in_kind :: "string option"
  in_skills :: "string list"
  in_specialization :: "string option"
  in_operating_constraints :: "string list"

definition empty_introduction :: introduction where
  "empty_introduction =
     \<lparr>in_kind = None, in_skills = [], in_specialization = None, in_operating_constraints = []\<rparr>"

record participant_session =
  ps_session_id :: string
  ps_workload_ref :: json
  ps_runtime_ref :: string
  ps_process_incarnation_ref :: string
  ps_node :: string
  ps_logical_agent_ref :: "string option"
  ps_authorized :: "string set"
  ps_advertised :: "string set"
  ps_decisions :: "string \<Rightarrow> decision option"
  ps_introduction :: introduction

definition establish_participant ::
    "crypto \<Rightarrow> workload_credential \<Rightarrow> process_incarnation \<Rightarrow> string \<Rightarrow> string \<Rightarrow> string \<Rightarrow> string
      \<Rightarrow> string list \<Rightarrow> mediator \<Rightarrow> string set \<Rightarrow> string option \<Rightarrow> introduction option
      \<Rightarrow> string set option \<Rightarrow> string \<Rightarrow> participant_session option result" where
  "establish_participant cr cred inc pem iss aud now advertised mediate policy agent intro revoked fresh_id =
     bind_result (verify_credential cr cred pem iss aud now revoked) (\<lambda>ok.
       if \<not> ok then Inr None
       else (let r = reconcile advertised mediate policy
             in (case map_of (cred_payload cred) ''sub'' of
                   None \<Rightarrow> Inl (KeyError ''sub'')
                 | Some subject \<Rightarrow>
                     Inr (Some
                       \<lparr>ps_session_id = fresh_id, ps_workload_ref = subject,
                        ps_runtime_ref = pi_runtime inc,
                        ps_process_incarnation_ref = pi_incarnation_id inc,
                        ps_node = pi_node inc, ps_logical_agent_ref = agent,
                        ps_authorized = rec_authorized r, ps_advertised = set advertised,
                        ps_decisions = rec_decisions r,
                        ps_introduction = (case intro of Some i \<Rightarrow> i | None \<Rightarrow> empty_introduction)\<rparr>))))"

type_synonym participant_registry = "string \<Rightarrow> participant_session option"

definition register_session :: "participant_session \<Rightarrow> participant_registry \<Rightarrow> participant_registry" where
  "register_session s r = r(ps_session_id s \<mapsto> s)"

definition lookup_session :: "participant_registry \<Rightarrow> string \<Rightarrow> participant_session option" where
  "lookup_session r session_id = r session_id"

definition drop_session :: "string \<Rightarrow> participant_registry \<Rightarrow> participant_registry" where
  "drop_session session_id r = r(session_id := None)"

section \<open>Three gates, one reason each\<close>

definition decide :: "string set \<Rightarrow> string set \<Rightarrow> string \<Rightarrow> decision" where
  "decide mediated policy c =
     (if c \<notin> mediated then Not_mediated else if c \<notin> policy then Not_authorized else Granted)"

lemma reconcile_loop_result:
  "rec_authorized (reconcile_loop m p cs r) = rec_authorized r \<union> (set cs \<inter> m \<inter> p)"
  "rec_decisions (reconcile_loop m p cs r) c =
     (if c \<in> set cs then Some (decide m p c) else rec_decisions r c)"
  by (induction m p cs r rule: reconcile_loop.induct) (auto simp: decide_def)

lemma reconcile_result:
  "rec_authorized (reconcile adv mediate p) = set adv \<inter> mediate (set adv) \<inter> p"
  "rec_decisions (reconcile adv mediate p) c =
     (if c \<in> set adv then Some (decide (mediate (set adv)) p c) else None)"
  by (simp_all add: reconcile_def reconcile_loop_result)

lemma reconcile_granted:
  "rec_decisions (reconcile adv mediate p) c = Some Granted \<longleftrightarrow> c \<in> rec_authorized (reconcile adv mediate p)"
  by (auto simp: reconcile_result decide_def)

section \<open>No session without a verified credential\<close>

lemma establish_participant_attested:
  assumes "establish_participant cr cred inc pem iss aud now adv mediate p agent intro revoked sid = Inr (Some s)"
  shows "verify_credential cr cred pem iss aud now revoked = Inr True"
    "map_of (cred_payload cred) ''sub'' = Some (ps_workload_ref s)"
    "ps_authorized s = set adv \<inter> mediate (set adv) \<inter> p"
    "ps_decisions s c = (if c \<in> set adv then Some (decide (mediate (set adv)) p c) else None)"
    "ps_session_id s = sid" "ps_node s = pi_node inc"
  using assms
  by (auto simp: establish_participant_def Let_def reconcile_result split: if_splits option.splits)

lemma drop_unreachable [simp]: "lookup_session (drop_session i r) i = None"
  by (simp add: lookup_session_def drop_session_def)

lemma register_reachable [simp]: "lookup_session (register_session s r) (ps_session_id s) = Some s"
  by (simp add: lookup_session_def register_session_def)

end
