(* ===== verification/Coordination.thy ===== *)
theory Coordination
  imports Prelude "HOL-Library.AList" Complex_Main
begin

text \<open>
  \<^verbatim>\<open>kawa/domain/coordination.py\<close>: the wake mailbox and the advisory claim registry.  Both
  dictionaries are association lists in insertion order; times are exact rationals (the rounding
  of a float sum is not modelled).  \<open>holder\<close> prunes the row it finds expired, so it returns the
  registry too.

  Shown: a lease excludes every other session until it expires, whatever those sessions do; an
  expired claim never stands in anyone's way; hints are delivered once and in order.
\<close>

section \<open>Wake hints\<close>

datatype wake_reason = Work_eligible | Dependency_satisfied | Rescan

record wake_hint =
  wh_work_ref :: string
  wh_reason :: wake_reason

type_synonym wake_bus = "(string \<times> wake_hint list) list"

definition subscribe :: "string \<Rightarrow> wake_bus \<Rightarrow> wake_bus" where
  "subscribe session_id b = (case map_of b session_id of Some _ \<Rightarrow> b | None \<Rightarrow> b @ [(session_id, [])])"

definition wake_emit :: "string \<Rightarrow> wake_hint \<Rightarrow> wake_bus \<Rightarrow> wake_bus" where
  "wake_emit session_id hint b =
     (case map_of b session_id of
        Some box \<Rightarrow> AList.update session_id (box @ [hint]) b
      | None \<Rightarrow> b)"

definition drain :: "string \<Rightarrow> wake_bus \<Rightarrow> wake_hint list \<times> wake_bus" where
  "drain session_id b =
     ((case map_of b session_id of Some box \<Rightarrow> box | None \<Rightarrow> []), AList.update session_id [] b)"

section \<open>Claims\<close>

definition DEFAULT_LEASE_SECONDS :: rat where
  "DEFAULT_LEASE_SECONDS = 30"

record work_claim =
  wc_work_ref :: string
  wc_session_id :: string
  wc_claimed_at :: rat
  wc_expires_at :: rat

type_synonym claim_registry = "(string \<times> work_claim) list"

definition holder :: "string \<Rightarrow> rat \<Rightarrow> claim_registry \<Rightarrow> string option \<times> claim_registry" where
  "holder work_ref now r =
     (case map_of r work_ref of
        None \<Rightarrow> (None, r)
      | Some c \<Rightarrow>
          if wc_expires_at c \<le> now then (None, AList.delete work_ref r)
          else (Some (wc_session_id c), r))"

definition claim :: "string \<Rightarrow> string \<Rightarrow> rat \<Rightarrow> rat \<Rightarrow> claim_registry \<Rightarrow> bool \<times> claim_registry" where
  "claim work_ref session_id now ttl r =
     (let (h, r') = holder work_ref now r
      in case h of
           Some s \<Rightarrow>
             if s \<noteq> session_id then (False, r')
             else (True, AList.update work_ref \<lparr>wc_work_ref = work_ref, wc_session_id = session_id,
                     wc_claimed_at = now, wc_expires_at = now + ttl\<rparr> r')
         | None \<Rightarrow> (True, AList.update work_ref \<lparr>wc_work_ref = work_ref, wc_session_id = session_id,
                     wc_claimed_at = now, wc_expires_at = now + ttl\<rparr> r'))"

definition release :: "string \<Rightarrow> string \<Rightarrow> claim_registry \<Rightarrow> bool \<times> claim_registry" where
  "release work_ref session_id r =
     (case map_of r work_ref of
        Some c \<Rightarrow> if wc_session_id c = session_id then (True, AList.delete work_ref r) else (False, r)
      | None \<Rightarrow> (False, r))"

definition release_session :: "string \<Rightarrow> claim_registry \<Rightarrow> string list \<times> claim_registry" where
  "release_session session_id r =
     (let freed = map fst (filter (\<lambda>(wr, c). wc_session_id c = session_id) r)
      in (freed, foldl (\<lambda>a wr. AList.delete wr a) r freed))"

text \<open>One call on the registry, and the session that makes it.\<close>

datatype claim_op =
    OpHolder string rat
  | OpClaim string string rat rat
  | OpRelease string string
  | OpReleaseSession string

fun claim_step :: "claim_registry \<Rightarrow> claim_op \<Rightarrow> claim_registry" where
  "claim_step r (OpHolder w now) = snd (holder w now r)"
| "claim_step r (OpClaim w s now ttl) = snd (claim w s now ttl r)"
| "claim_step r (OpRelease w s) = snd (release w s r)"
| "claim_step r (OpReleaseSession s) = snd (release_session s r)"

section \<open>The registry as a map\<close>

lemma map_of_deletes:
  "map_of (foldl (\<lambda>a k. AList.delete k a) r ks) k = (if k \<in> set ks then None else map_of r k)"
  by (induction ks arbitrary: r) (auto simp: delete_conv')

lemma holder_map [simp]:
  "map_of (snd (holder w now r)) v =
     (if v = w \<and> (\<exists>c. map_of r w = Some c \<and> wc_expires_at c \<le> now) then None else map_of r v)"
  by (auto simp: holder_def delete_conv' split: option.splits)

lemma holder_fst:
  "fst (holder w now r) =
     (case map_of r w of None \<Rightarrow> None
      | Some c \<Rightarrow> if wc_expires_at c \<le> now then None else Some (wc_session_id c))"
  by (simp add: holder_def split: option.splits)

lemma claim_fst: "fst (claim w s now ttl r) \<longleftrightarrow> fst (holder w now r) \<in> {None, Some s}"
  by (auto simp: claim_def Let_def split: prod.splits option.splits)

lemma claim_map:
  "map_of (snd (claim w s now ttl r)) v =
     (if v = w \<and> fst (claim w s now ttl r)
      then Some \<lparr>wc_work_ref = w, wc_session_id = s, wc_claimed_at = now, wc_expires_at = now + ttl\<rparr>
      else map_of (snd (holder w now r)) v)"
proof -
  obtain h r' where "holder w now r = (h, r')" by force
  then show ?thesis
    by (cases h) (auto simp: claim_def update_conv' simp del: holder_map)
qed

lemma release_map:
  "map_of (snd (release w s r)) v =
     (if v = w \<and> (\<exists>c. map_of r w = Some c \<and> wc_session_id c = s) then None else map_of r v)"
  by (auto simp: release_def delete_conv' split: option.splits)

lemma release_session_map:
  assumes "distinct (map fst r)"
  shows "map_of (snd (release_session s r)) v =
     (case map_of r v of Some c \<Rightarrow> if wc_session_id c = s then None else Some c | None \<Rightarrow> None)"
proof -
  have "v \<in> fst ` {p \<in> set r. case p of (wr, c) \<Rightarrow> wc_session_id c = s}
      \<longleftrightarrow> (\<exists>c. map_of r v = Some c \<and> wc_session_id c = s)"
    using assms by (force simp: map_of_eq_Some_iff)
  then show ?thesis
    by (simp add: release_session_def Let_def map_of_deletes split: option.splits)
qed

lemma distinct_deletes:
  "distinct (map fst r) \<Longrightarrow> distinct (map fst (foldl (\<lambda>a k. AList.delete k a) r ks))"
  by (induction ks arbitrary: r) (auto simp: distinct_delete)

lemma claim_step_distinct [inv_intros]:
  "distinct (map fst r) \<Longrightarrow> distinct (map fst (claim_step r c))"
proof (cases c)
  case (OpClaim w s now ttl)
  moreover assume "distinct (map fst r)"
  ultimately show ?thesis
    by (auto simp: claim_def holder_def distinct_update distinct_delete split: option.splits)
next
  case (OpReleaseSession s)
  moreover assume "distinct (map fst r)"
  ultimately show ?thesis by (simp add: release_session_def Let_def distinct_deletes)
qed (auto simp: holder_def release_def distinct_delete split: option.splits)

section \<open>Exclusion\<close>

text \<open>A call that neither speaks for session \<open>s\<close> nor happens after \<open>t\<close>.\<close>

fun foreign :: "string \<Rightarrow> rat \<Rightarrow> claim_op \<Rightarrow> bool" where
  "foreign s t (OpHolder w now) = (now < t)"
| "foreign s t (OpClaim w s' now ttl) = (s' \<noteq> s \<and> now < t)"
| "foreign s t (OpRelease w s') = (s' \<noteq> s)"
| "foreign s t (OpReleaseSession s') = (s' \<noteq> s)"

lemma foreign_step_keeps:
  assumes "distinct (map fst r)" "map_of r w = Some c" "wc_session_id c = s" "t \<le> wc_expires_at c"
    and "foreign s t op"
  shows "map_of (claim_step r op) w = Some c"
  using assms
  by (cases op) (auto simp: claim_map claim_fst holder_fst release_map release_session_map
      simp del: map_of_eq_Some_iff)

lemma foreign_ops_keep:
  assumes "map_of r w = Some c" "wc_session_id c = s" "t \<le> wc_expires_at c"
  shows "distinct (map fst r) \<Longrightarrow> list_all (foreign s t) ops \<Longrightarrow> map_of (foldl claim_step r ops) w = Some c"
  using assms
proof (induction ops arbitrary: r)
  case (Cons op ops)
  have "map_of (claim_step r op) w = Some c"
    using Cons.prems by (intro foreign_step_keeps) auto
  with Cons show ?case by (simp add: claim_step_distinct)
qed simp

lemma lease_excludes:
  assumes "distinct (map fst r)" "fst (claim w s now ttl r)"
    and "list_all (foreign s (now + ttl)) ops" "u < now + ttl"
  shows "fst (holder w u (foldl claim_step (snd (claim w s now ttl r)) ops)) = Some s"
proof -
  have "distinct (map fst (snd (claim w s now ttl r)))"
    using claim_step_distinct [OF assms(1), of "OpClaim w s now ttl"] by simp
  then have "map_of (foldl claim_step (snd (claim w s now ttl r)) ops) w
      = Some \<lparr>wc_work_ref = w, wc_session_id = s, wc_claimed_at = now, wc_expires_at = now + ttl\<rparr>"
    using assms by (intro foreign_ops_keep [where s = s and t = "now + ttl"]) (simp_all add: claim_map)
  with assms(4) show ?thesis by (simp add: holder_fst)
qed

text \<open>An expired claim is absent: anyone may take the work.\<close>

lemma expired_never_blocks:
  assumes "map_of r w = Some c" "wc_expires_at c \<le> now"
  shows "fst (claim w s now ttl r)"
  using assms by (simp add: claim_fst holder_fst)

lemma release_session_frees:
  assumes "distinct (map fst r)"
  shows "set (fst (release_session s r)) = {w. \<exists>c. map_of r w = Some c \<and> wc_session_id c = s}"
    "fst (holder w now (snd (release_session s r))) =
       (if fst (holder w now r) = Some s then None else fst (holder w now r))"
proof -
  show "set (fst (release_session s r)) = {w. \<exists>c. map_of r w = Some c \<and> wc_session_id c = s}"
    using assms by (force simp: release_session_def Let_def)
  show "fst (holder w now (snd (release_session s r))) =
       (if fst (holder w now r) = Some s then None else fst (holder w now r))"
    unfolding holder_fst release_session_map [OF assms] by (simp split: option.splits)
qed

section \<open>Delivery\<close>

lemma subscribe_map: "map_of (subscribe s b) x =
    (if x = s then Some (case map_of b s of Some box \<Rightarrow> box | None \<Rightarrow> []) else map_of b x)"
  by (auto simp: subscribe_def map_add_def split: option.splits)

lemma emits_map:
  "map_of b s = Some box \<Longrightarrow> map_of (foldl (\<lambda>b h. wake_emit s h b) b hs) s = Some (box @ hs)"
proof (induction hs arbitrary: b box)
  case (Cons h hs)
  then show ?case by (simp add: wake_emit_def update_conv')
qed simp

lemma drain_delivers_in_order:
  "fst (drain s (foldl (\<lambda>b h. wake_emit s h b) (snd (drain s b)) hs)) = hs"
  by (subst drain_def) (simp add: emits_map [of _ s "[]"] drain_def update_conv')

lemma emit_other_box: "s \<noteq> x \<Longrightarrow> map_of (wake_emit s h b) x = map_of b x"
  by (simp add: wake_emit_def update_conv' split: option.splits)

lemma emit_unsubscribed: "map_of b s = None \<Longrightarrow> wake_emit s h b = b"
  by (simp add: wake_emit_def)

end
