(* ===== verification/Discovery.thy ===== *)
theory Discovery
  imports Rebuild Participant Coordination
begin

text \<open>
  The reading half of \<^verbatim>\<open>kawa/application/services.py\<close> and the renderer of
  \<^verbatim>\<open>kawa/application/jit.py\<close>: which work is handed out next, to whom, and with which text.
  The queries scan \<open>current_work\<close>; its rows are those of the works that a held event derives
  (\<open>work_refs_rows\<close>), so the scan goes over these.
\<close>

section \<open>Rendering\<close>

definition RENDERER_VERSION :: string where
  "RENDERER_VERSION = ''wr-1''"

record render_input =
  ri_work_ref :: string
  ri_plan_ref :: string
  ri_work_kind :: string
  ri_role_requirement :: "string option"
  ri_objective :: "string option"
  ri_constraints :: "string list option"
  ri_expected_observations :: "string list option"
  ri_plan_objective :: "string option"

definition newline :: string where
  "newline = [CHR 0x0A]"

fun str_of_optional :: "string option \<Rightarrow> string" where
  "str_of_optional None = ''None''"
| "str_of_optional (Some s) = s"

definition bullets :: "string \<Rightarrow> string list option \<Rightarrow> string list" where
  "bullets title xs =
     (case xs of
        Some (y # ys) \<Rightarrow> title # map (\<lambda>c. ''  - '' @ c) (y # ys)
      | _ \<Rightarrow> [])"

definition render_instruction :: "render_input \<Rightarrow> string" where
  "render_instruction i = join newline
     ([''Work '' @ ri_work_ref i @ '' ('' @ ri_work_kind i
         @ (case ri_role_requirement i of Some (c # cs) \<Rightarrow> '', role: '' @ (c # cs) | _ \<Rightarrow> []) @ '')'',
       ''Plan '' @ ri_plan_ref i @ '': '' @ str_of_optional (ri_plan_objective i),
       ''Objective: '' @ (case ri_objective i of
           Some (c # cs) \<Rightarrow> c # cs
         | _ \<Rightarrow> ''carry out this '' @ ri_work_kind i @ '' step of the plan.'')]
      @ bullets ''Constraints:'' (ri_constraints i)
      @ bullets ''Expected observations (evidence of completion):'' (ri_expected_observations i)
      @ [''Record a Result (and Observations) to advance the DAG.''])"

section \<open>The contract of one work\<close>

record work_contract =
  ct_work_ref :: string
  ct_plan_ref :: string
  ct_work_kind :: string
  ct_role_requirement :: "string option"
  ct_objective :: "string option"
  ct_constraints :: "string list option"
  ct_expected_observations :: "string list option"
  ct_instruction :: string
  ct_consumed :: "string list"
  ct_renderer_version :: string

text \<open>\<open>list(xs) if xs else None\<close>.\<close>

fun nonempty :: "'a list option \<Rightarrow> 'a list option" where
  "nonempty (Some (x # xs)) = Some (x # xs)"
| "nonempty _ = None"

definition contract_row :: "db \<Rightarrow> string \<Rightarrow> work_row \<Rightarrow> plan_row \<Rightarrow> work_contract" where
  "contract_row d w r p =
     (let ew = latest_derive d w;
          obj = Option.bind ew wd_objective;
          cs = nonempty (Option.bind ew wd_constraints);
          eobs = nonempty (Option.bind ew wd_expected_observations);
          inp = \<lparr>ri_work_ref = w, ri_plan_ref = cw_plan_ref r, ri_work_kind = cw_work_kind r,
                 ri_role_requirement = cw_role_requirement r, ri_objective = obj, ri_constraints = cs,
                 ri_expected_observations = eobs, ri_plan_objective = cp_objective p\<rparr>
      in \<lparr>ct_work_ref = w, ct_plan_ref = cw_plan_ref r, ct_work_kind = cw_work_kind r,
          ct_role_requirement = cw_role_requirement r, ct_objective = obj, ct_constraints = cs,
          ct_expected_observations = eobs, ct_instruction = render_instruction inp,
          ct_consumed = [cw_latest_event_id r, cp_latest_event_id p],
          ct_renderer_version = RENDERER_VERSION\<rparr>)"

definition ready_row :: "db \<Rightarrow> string \<Rightarrow> work_row option" where
  "ready_row d w =
     (case current_work d w of Some r \<Rightarrow> if cw_execution r = Ex_ready then Some r else None | None \<Rightarrow> None)"

text \<open>\<open>_work_contract\<close>: the join with the plan row drops a work whose plan is not held.\<close>

definition work_contract_of :: "db \<Rightarrow> string \<Rightarrow> work_contract option" where
  "work_contract_of d w =
     (case ready_row d w of
        None \<Rightarrow> None
      | Some r \<Rightarrow> map_option (contract_row d w r) (current_plans d (cw_plan_ref r)))"

section \<open>The queue\<close>

definition work_refs :: "db \<Rightarrow> string list" where
  "work_refs d = remdups (map (\<lambda>(_, x). wd_work_ref x) (event_work d))"

definition has_role :: "db \<Rightarrow> string option \<Rightarrow> string \<Rightarrow> bool" where
  "has_role d role w =
     (case ready_row d w of
        None \<Rightarrow> False
      | Some r \<Rightarrow> (case role of None \<Rightarrow> True | Some x \<Rightarrow> cw_role_requirement r = Some x))"

text \<open>\<open>ORDER BY ready_at NULLS LAST, work_ref\<close>.\<close>

definition fifo_key :: "db \<Rightarrow> string \<Rightarrow> nat \<times> int \<times> string" where
  "fifo_key d w =
     (case Option.bind (current_work d w) cw_ready_at of Some t \<Rightarrow> (0, t, w) | None \<Rightarrow> (1, 0, w))"

definition ready_queue :: "db \<Rightarrow> string option \<Rightarrow> string list" where
  "ready_queue d role = sort_key (fifo_key d) (filter (has_role d role) (work_refs d))"

definition first_contract :: "db \<Rightarrow> string list \<Rightarrow> work_contract option" where
  "first_contract d ws = Option.bind (List.find (\<lambda>w. work_contract_of d w \<noteq> None) ws) (work_contract_of d)"

definition work_next :: "db \<Rightarrow> string option \<Rightarrow> work_contract option" where
  "work_next d role = first_contract d (ready_queue d role)"

section \<open>Discovery for a participant\<close>

datatype discovery =
    Unreachable | Unauthorized | No_ready_work | Offered work_contract

text \<open>The loop over the candidates asks the claim registry, which forgets an expired claim.\<close>

fun first_free :: "string \<Rightarrow> rat \<Rightarrow> string list \<Rightarrow> claim_registry \<Rightarrow> string option \<times> claim_registry" where
  "first_free sid now [] claims = (None, claims)"
| "first_free sid now (w # ws) claims =
     (case holder w now claims of
        (h, claims') \<Rightarrow>
          if h = None \<or> h = Some sid then (Some w, claims') else first_free sid now ws claims')"

definition work_next_unclaimed :: "db \<Rightarrow> string \<Rightarrow> claim_registry option \<Rightarrow> string \<Rightarrow> rat option
    \<Rightarrow> work_contract option \<times> claim_registry option" where
  "work_next_unclaimed d role claims sid now =
     (case claims of
        None \<Rightarrow> (work_next d (Some role), None)
      | Some c \<Rightarrow>
          (case first_free sid (case now of Some t \<Rightarrow> t | None \<Rightarrow> 0) (ready_queue d (Some role)) c of
             (None, c') \<Rightarrow> (None, Some c')
           | (Some w, c') \<Rightarrow> (work_contract_of d w, Some c')))"

fun try_roles :: "db \<Rightarrow> string list \<Rightarrow> claim_registry option \<Rightarrow> string \<Rightarrow> rat option
    \<Rightarrow> discovery \<times> claim_registry option" where
  "try_roles d [] claims sid now = (No_ready_work, claims)"
| "try_roles d (role # roles) claims sid now =
     (case work_next_unclaimed d role claims sid now of
        (Some w, claims') \<Rightarrow> (Offered w, claims')
      | (None, claims') \<Rightarrow> try_roles d roles claims' sid now)"

definition role_prefix :: string where
  "role_prefix = ''role:''"

definition session_roles :: "participant_session \<Rightarrow> string set" where
  "session_roles s =
     (\<lambda>c. drop (length role_prefix) c) ` Set.filter (\<lambda>c. startswith c role_prefix) (ps_authorized s)"

definition ready_roles :: "db \<Rightarrow> string option set" where
  "ready_roles d = set (map (\<lambda>w. Option.bind (ready_row d w) cw_role_requirement)
     (filter (has_role d None) (work_refs d)))"

definition work_next_for_participant :: "db \<Rightarrow> participant_registry \<Rightarrow> string \<Rightarrow> claim_registry option \<Rightarrow> rat option
    \<Rightarrow> discovery \<times> claim_registry option" where
  "work_next_for_participant d registry sid claims now =
     (case lookup_session registry sid of
        None \<Rightarrow> (Unreachable, claims)
      | Some session \<Rightarrow>
          (let roles = session_roles session
           in if roles = {} then (Unauthorized, claims)
              else if ready_roles d = {} then (No_ready_work, claims)
              else if Some ` roles \<inter> ready_roles d = {} then (Unauthorized, claims)
              else try_roles d (sorted_list_of_set roles) claims sid now))"

section \<open>State reads\<close>

definition work_state :: "db \<Rightarrow> string \<Rightarrow> execution option" where
  "work_state d w = map_option cw_execution (current_work d w)"

definition plan_state :: "db \<Rightarrow> string \<Rightarrow> (lifecycle \<times> end_reason option) option" where
  "plan_state d p = map_option (\<lambda>r. (cp_lifecycle r, cp_end_reason r)) (current_plans d p)"

definition claim_standing_of :: "db \<Rightarrow> string \<Rightarrow> claim_standing option" where
  "claim_standing_of d c = map_option fst (current_claim_standing d c)"

text \<open>The groups in the order of their texts.\<close>

definition plan_progress :: "db \<Rightarrow> string \<Rightarrow> (execution \<times> nat) list" where
  "plan_progress d p =
     (let states = List.map_filter (\<lambda>w. case current_work d w of
             Some r \<Rightarrow> if cw_plan_ref r = p then Some (cw_execution r) else None | None \<Rightarrow> None) (work_refs d)
      in filter (\<lambda>(_, n). n > 0) (map (\<lambda>s. (s, length (filter (\<lambda>t. t = s) states)))
           [Ex_blocked, Ex_unknown, Ex_finished, Ex_ready, Ex_result_recorded, Ex_retired, Ex_retryable]))"

section \<open>What is offered\<close>

lemma work_refs_mem: "w \<in> set (work_refs d) \<longleftrightarrow> (\<exists>(i, x) \<in> set (event_work d). wd_work_ref x = w)"
  by (force simp: work_refs_def)

lemma latest_derive_ref: "latest_derive d w \<noteq> None \<Longrightarrow> w \<in> set (work_refs d)"
proof -
  assume "latest_derive d w \<noteq> None"
  then obtain r x where "latest d (event_work d) (\<lambda>r x. wd_work_ref x = w) = Some (r, x)"
    by (auto simp: latest_derive_def)
  from latest_mem [OF this] show ?thesis unfolding work_refs_mem by (metis (mono_tags, lifting) case_prodI)
qed

lemma work_refs_rows:
  assumes "projected d" "current_work d w = Some r"
  shows "w \<in> set (work_refs d)"
  using assms fresh_worksD(1) [of d "{}" w r] by (auto simp: projected_def Convergence.fresh_def intro!: latest_derive_ref)

lemma work_contract_Some:
  "work_contract_of d w = Some c \<longleftrightarrow> (\<exists>r p. current_work d w = Some r \<and> cw_execution r = Ex_ready
     \<and> current_plans d (cw_plan_ref r) = Some p \<and> c = contract_row d w r p)"
  by (auto simp: work_contract_of_def ready_row_def split: option.splits)

lemma contract_row_simps [simp]:
  "ct_work_ref (contract_row d w r p) = w" "ct_plan_ref (contract_row d w r p) = cw_plan_ref r"
  "ct_role_requirement (contract_row d w r p) = cw_role_requirement r"
  by (simp_all add: contract_row_def Let_def)

lemma has_role_iff:
  "has_role d role w \<longleftrightarrow> (\<exists>r. current_work d w = Some r \<and> cw_execution r = Ex_ready
     \<and> (role = None \<or> cw_role_requirement r = role))"
  by (auto simp: has_role_def ready_row_def split: option.splits if_splits)

lemma ready_queue_set: "set (ready_queue d role) = {w \<in> set (work_refs d). has_role d role w}"
  by (auto simp: ready_queue_def)

lemma ready_queue_sorted: "sorted (map (fifo_key d) (ready_queue d role))"
  by (simp add: ready_queue_def)

lemma first_contract_Some:
  assumes "first_contract d ws = Some c"
  obtains w as bs where "ws = as @ w # bs" "work_contract_of d w = Some c" "\<forall>v \<in> set as. work_contract_of d v = None"
proof -
  obtain w where w: "List.find (\<lambda>w. work_contract_of d w \<noteq> None) ws = Some w" "work_contract_of d w = Some c"
    using assms by (auto simp: first_contract_def bind_eq_Some_conv)
  then obtain i where i: "i < length ws" "w = ws ! i" "\<forall>j < i. work_contract_of d (ws ! j) = None"
    by (auto simp: find_Some_iff)
  have "ws = take i ws @ w # drop (Suc i) ws" using i(1,2) by (simp add: id_take_nth_drop)
  moreover have "\<forall>v \<in> set (take i ws). work_contract_of d v = None"
    using i(1,3) by (auto simp: in_set_conv_nth)
  ultimately show thesis using that w(2) by blast
qed

lemma first_contract_None: "first_contract d ws = None \<longleftrightarrow> (\<forall>w \<in> set ws. work_contract_of d w = None)"
proof (cases "List.find (\<lambda>w. work_contract_of d w \<noteq> None) ws")
  case None
  moreover from None have "\<forall>w \<in> set ws. work_contract_of d w = None" unfolding find_None_iff by blast
  ultimately show ?thesis by (simp add: first_contract_def)
next
  case (Some w)
  then have "w \<in> set ws \<and> work_contract_of d w \<noteq> None" by (auto simp: find_Some_iff)
  with Some show ?thesis by (auto simp: first_contract_def)
qed

text \<open>The oldest ready work of the role whose plan is held, and nothing exactly when there is none.\<close>

lemma work_next_fifo:
  assumes "work_next d role = Some c"
  shows "has_role d role (ct_work_ref c)" "work_contract_of d (ct_work_ref c) = Some c"
    "\<lbrakk>v \<in> set (work_refs d); has_role d role v; work_contract_of d v \<noteq> None\<rbrakk>
       \<Longrightarrow> fifo_key d (ct_work_ref c) \<le> fifo_key d v"
proof -
  obtain w as bs where q: "ready_queue d role = as @ w # bs" and c: "work_contract_of d w = Some c"
    and as: "\<forall>v \<in> set as. work_contract_of d v = None"
    using assms first_contract_Some unfolding work_next_def by metis
  have w: "ct_work_ref c = w" using c by (auto simp: work_contract_Some)
  have "w \<in> set (ready_queue d role)" by (simp add: q)
  then show "has_role d role (ct_work_ref c)" "work_contract_of d (ct_work_ref c) = Some c"
    using c by (simp_all add: ready_queue_set w)
  assume "v \<in> set (work_refs d)" "has_role d role v" "work_contract_of d v \<noteq> None"
  then have "v \<in> set (as @ w # bs)" "v \<notin> set as" using as by (auto simp: q [symmetric] ready_queue_set)
  moreover have "sorted (map (fifo_key d) (as @ w # bs))" using ready_queue_sorted [of d role] by (simp only: q)
  ultimately show "fifo_key d (ct_work_ref c) \<le> fifo_key d v" by (auto simp: w sorted_append)
qed

lemma work_next_None:
  assumes "projected d"
  shows "work_next d role = None \<longleftrightarrow> (\<forall>w. has_role d role w \<longrightarrow> work_contract_of d w = None)"
proof -
  have "w \<in> set (ready_queue d role) \<longleftrightarrow> has_role d role w" for w
    using work_refs_rows [OF assms] by (auto simp: ready_queue_set has_role_iff)
  then show ?thesis unfolding work_next_def first_contract_None by blast
qed

section \<open>Claims only narrow\<close>

lemma holder_prunes [simp]: "fst (holder v now (snd (holder w now r))) = fst (holder v now r)"
  by (auto simp: holder_fst split: option.splits)

lemma first_free_prunes: "fst (holder v now (snd (first_free sid now ws r))) = fst (holder v now r)"
proof (induction ws arbitrary: r)
  case (Cons w ws)
  obtain h r' where h: "holder w now r = (h, r')" by force
  then have "fst (holder v now r') = fst (holder v now r)" using holder_prunes [of v now w r] by simp
  with Cons [of r'] h show ?case by simp
qed simp

lemma first_free_Some:
  assumes "fst (first_free sid now ws r) = Some w"
  shows "\<exists>as bs. ws = as @ w # bs \<and> fst (holder w now r) \<in> {None, Some sid}
    \<and> (\<forall>v \<in> set as. fst (holder v now r) \<notin> {None, Some sid})"
  using assms
proof (induction ws arbitrary: r)
  case (Cons x ws)
  obtain h r' where h: "holder x now r = (h, r')" by force
  have p: "fst (holder v now r') = fst (holder v now r)" for v using holder_prunes [of v now x r] h by simp
  show ?case
  proof (cases "h = None \<or> h = Some sid")
    case True
    with Cons.prems h have "x = w" by auto
    with True h have "x # ws = [] @ w # ws" "fst (holder w now r) \<in> {None, Some sid}" by auto
    then show ?thesis by fastforce
  next
    case False
    with Cons.prems h have "fst (first_free sid now ws r') = Some w" by simp
    from Cons.IH [OF this] obtain as bs where "ws = as @ w # bs" "fst (holder w now r) \<in> {None, Some sid}"
      "\<forall>v \<in> set as. fst (holder v now r) \<notin> {None, Some sid}" unfolding p by blast
    moreover from False h have "fst (holder x now r) \<notin> {None, Some sid}" by auto
    ultimately have "x # ws = (x # as) @ w # bs" "\<forall>v \<in> set (x # as). fst (holder v now r) \<notin> {None, Some sid}" by auto
    with \<open>fst (holder w now r) \<in> {None, Some sid}\<close> show ?thesis by blast
  qed
qed simp

lemma first_free_None:
  "fst (first_free sid now ws r) = None \<longleftrightarrow> (\<forall>w \<in> set ws. fst (holder w now r) \<notin> {None, Some sid})"
proof (induction ws arbitrary: r)
  case (Cons x ws)
  obtain h r' where h: "holder x now r = (h, r')" by force
  have p: "fst (holder v now r') = fst (holder v now r)" for v using holder_prunes [of v now x r] h by simp
  show ?case using Cons.IH [of r'] by (auto simp: h p)
qed simp


text \<open>Who holds a work as seen by the discovery; no registry means no claims.\<close>

definition held_by :: "rat option \<Rightarrow> claim_registry option \<Rightarrow> string \<Rightarrow> string option" where
  "held_by now claims w =
     (case claims of None \<Rightarrow> None | Some r \<Rightarrow> fst (holder w (case now of Some t \<Rightarrow> t | None \<Rightarrow> 0) r))"

definition free_for :: "string \<Rightarrow> rat option \<Rightarrow> claim_registry option \<Rightarrow> string \<Rightarrow> bool" where
  "free_for sid now claims w \<longleftrightarrow> held_by now claims w \<in> {None, Some sid}"

lemma unclaimed_view:
  assumes "work_next_unclaimed d role claims sid now = (x, claims')"
  shows "held_by now claims' w = held_by now claims w"
proof (cases claims)
  case None
  with assms show ?thesis by (auto simp: work_next_unclaimed_def)
next
  case (Some r)
  let ?t = "case now of Some t \<Rightarrow> t | None \<Rightarrow> 0"
  obtain y r' where f: "first_free sid ?t (ready_queue d (Some role)) r = (y, r')" by force
  with assms Some have "claims' = Some r'" by (cases y) (auto simp: work_next_unclaimed_def)
  with f Some show ?thesis using first_free_prunes [of w ?t sid "ready_queue d (Some role)" r]
    by (simp add: held_by_def)
qed

lemma unclaimed_Some:
  assumes "work_next_unclaimed d role claims sid now = (Some c, claims')"
  shows "has_role d (Some role) (ct_work_ref c)" "work_contract_of d (ct_work_ref c) = Some c"
    "free_for sid now claims (ct_work_ref c)"
proof -
  have "has_role d (Some role) (ct_work_ref c) \<and> work_contract_of d (ct_work_ref c) = Some c
      \<and> free_for sid now claims (ct_work_ref c)"
  proof (cases claims)
    case None
    with assms have "work_next d (Some role) = Some c" by (simp add: work_next_unclaimed_def)
    with None show ?thesis using work_next_fifo(1,2) [of d "Some role" c]
      by (simp add: free_for_def held_by_def)
  next
    case (Some r)
    let ?t = "case now of Some t \<Rightarrow> t | None \<Rightarrow> 0"
    obtain y r' where f: "first_free sid ?t (ready_queue d (Some role)) r = (y, r')" by force
    with assms Some obtain w where w: "y = Some w" "work_contract_of d w = Some c"
      by (cases y) (auto simp: work_next_unclaimed_def)
    with f have "fst (first_free sid ?t (ready_queue d (Some role)) r) = Some w" by simp
    from first_free_Some [OF this] obtain as bs where "ready_queue d (Some role) = as @ w # bs"
      and "fst (holder w ?t r) \<in> {None, Some sid}" by blast
    then have "w \<in> set (ready_queue d (Some role))" by simp
    moreover have "ct_work_ref c = w" using w(2) by (auto simp: work_contract_Some)
    ultimately show ?thesis using w(2) Some \<open>fst (holder w ?t r) \<in> {None, Some sid}\<close>
      by (simp add: ready_queue_set free_for_def held_by_def)
  qed
  then show "has_role d (Some role) (ct_work_ref c)" "work_contract_of d (ct_work_ref c) = Some c"
    "free_for sid now claims (ct_work_ref c)" by blast+
qed

text \<open>When every ready work has its plan, a role yields nothing only if all its work is taken.\<close>

definition plans_held :: "db \<Rightarrow> bool" where
  "plans_held d \<longleftrightarrow> (\<forall>w. has_role d None w \<longrightarrow> work_contract_of d w \<noteq> None)"

lemma has_role_any: "has_role d role w \<Longrightarrow> has_role d None w"
  by (auto simp: has_role_iff)

lemma unclaimed_None:
  assumes "plans_held d" "work_next_unclaimed d role claims sid now = (None, claims')"
    and "w \<in> set (ready_queue d (Some role))"
  shows "\<not> free_for sid now claims w"
proof (cases claims)
  case None
  with assms(2) have "work_contract_of d w = None"
    using assms(3) by (simp add: work_next_unclaimed_def work_next_def first_contract_None)
  with assms(1,3) show ?thesis by (auto simp: plans_held_def ready_queue_set dest: has_role_any)
next
  case (Some r)
  let ?t = "case now of Some t \<Rightarrow> t | None \<Rightarrow> 0"
  obtain y r' where f: "first_free sid ?t (ready_queue d (Some role)) r = (y, r')" by force
  have "y = None"
  proof (rule ccontr)
    assume "y \<noteq> None"
    then obtain v where v: "y = Some v" by auto
    with f have "fst (first_free sid ?t (ready_queue d (Some role)) r) = Some v" by simp
    from first_free_Some [OF this] obtain as bs where "ready_queue d (Some role) = as @ v # bs" by blast
    then have "v \<in> set (ready_queue d (Some role))" by simp
    with assms(1) have "work_contract_of d v \<noteq> None"
      by (auto simp: plans_held_def ready_queue_set dest: has_role_any)
    with assms(2) f v Some show False by (simp add: work_next_unclaimed_def)
  qed
  with f have "fst (first_free sid ?t (ready_queue d (Some role)) r) = None" by simp
  with assms(3) Some show ?thesis unfolding first_free_None by (simp add: free_for_def held_by_def)
qed

lemma free_for_cong: "\<forall>w. held_by now claims' w = held_by now claims w \<Longrightarrow> free_for sid now claims' w = free_for sid now claims w"
  by (simp add: free_for_def)

lemma try_roles_offered:
  "try_roles d roles claims sid now = (Offered c, claims') \<Longrightarrow>
     (\<exists>role \<in> set roles. has_role d (Some role) (ct_work_ref c)) \<and> work_contract_of d (ct_work_ref c) = Some c
     \<and> free_for sid now claims (ct_work_ref c)"
proof (induction roles arbitrary: claims)
  case (Cons role roles)
  obtain x claims1 where u: "work_next_unclaimed d role claims sid now = (x, claims1)" by force
  show ?case
  proof (cases x)
    case None
    with Cons.prems u have "try_roles d roles claims1 sid now = (Offered c, claims')" by simp
    from Cons.IH [OF this] show ?thesis using free_for_cong [of now claims1 claims] unclaimed_view [OF u] by auto
  next
    case (Some y)
    with Cons.prems u have "y = c" by simp
    with u Some show ?thesis using unclaimed_Some by auto
  qed
qed simp

lemma try_roles_nothing:
  "plans_held d \<Longrightarrow> try_roles d roles claims sid now = (No_ready_work, claims') \<Longrightarrow> role \<in> set roles \<Longrightarrow>
     w \<in> set (ready_queue d (Some role)) \<Longrightarrow> \<not> free_for sid now claims w"
proof (induction roles arbitrary: claims)
  case (Cons r roles)
  obtain x claims1 where u: "work_next_unclaimed d r claims sid now = (x, claims1)" by force
  with Cons.prems(2) have x: "x = None" "try_roles d roles claims1 sid now = (No_ready_work, claims')"
    by (auto split: option.splits)
  show ?case
  proof (cases "role = r")
    case True
    with unclaimed_None [OF Cons.prems(1) u [unfolded x(1)]] Cons.prems(4) show ?thesis by simp
  next
    case False
    with Cons.prems(3) have "role \<in> set roles" by simp
    from Cons.IH [OF Cons.prems(1) x(2) this Cons.prems(4)] show ?thesis
      using free_for_cong [of now claims1 claims] unclaimed_view [OF u] by auto
  qed
qed simp

lemma try_roles_reason: "fst (try_roles d roles claims sid now) \<in> insert No_ready_work (range Offered)"
  by (induction d roles claims sid now rule: try_roles.induct) (auto split: prod.splits option.splits)

section \<open>Authorization bounds discovery\<close>

lemma session_role_cap: "role \<in> session_roles s \<longleftrightarrow> role_prefix @ role \<in> ps_authorized s"
proof -
  have "c = role_prefix @ drop (length role_prefix) c" if "startswith c role_prefix" for c
    using that unfolding startswith_def by (metis append_take_drop_id)
  then show ?thesis by (force simp: session_roles_def image_iff)
qed

lemma participant_offer:
  assumes "work_next_for_participant d registry sid claims now = (Offered c, claims')"
  obtains s role where "lookup_session registry sid = Some s" "role_prefix @ role \<in> ps_authorized s"
    "ct_role_requirement c = Some role" "work_contract_of d (ct_work_ref c) = Some c"
    "free_for sid now claims (ct_work_ref c)"
proof -
  obtain s where s: "lookup_session registry sid = Some s"
    "try_roles d (sorted_list_of_set (session_roles s)) claims sid now = (Offered c, claims')"
    using assms by (auto simp: work_next_for_participant_def Let_def split: option.splits if_splits)
  from try_roles_offered [OF s(2)] obtain role where r: "role \<in> set (sorted_list_of_set (session_roles s))"
    "has_role d (Some role) (ct_work_ref c)" "work_contract_of d (ct_work_ref c) = Some c"
    "free_for sid now claims (ct_work_ref c)" by blast
  from r(1) have "role \<in> session_roles s" by (cases "finite (session_roles s)") auto
  moreover have "ct_role_requirement c = Some role"
    using r(2,3) unfolding has_role_iff work_contract_Some
    by (metis contract_row_simps(3) option.distinct(1) option.inject)
  ultimately show thesis using that s(1) r(3,4) session_role_cap by blast
qed

lemma participant_nothing:
  assumes "projected d" "plans_held d" "finite (ps_authorized s)"
    and "work_next_for_participant d registry sid claims now = (No_ready_work, claims')"
    and "lookup_session registry sid = Some s"
    and "role_prefix @ role \<in> ps_authorized s" "has_role d (Some role) w"
  shows "\<not> free_for sid now claims w"
proof -
  have role: "role \<in> session_roles s" using assms(6) by (simp add: session_role_cap)
  have ref: "w \<in> set (work_refs d)" using assms(1,7) work_refs_rows by (auto simp: has_role_iff)
  have "Some role \<in> ready_roles d"
    using assms(7) ref unfolding ready_roles_def
    by (force simp: has_role_iff ready_row_def)
  then have ne: "ready_roles d \<noteq> {}" by blast
  have "finite (session_roles s)" using assms(3) by (simp add: session_roles_def)
  then have mem: "role \<in> set (sorted_list_of_set (session_roles s))" using role by simp
  have "try_roles d (sorted_list_of_set (session_roles s)) claims sid now = (No_ready_work, claims')"
    using assms(4,5) role ne by (auto simp: work_next_for_participant_def Let_def split: if_splits)
  from try_roles_nothing [OF assms(2) this mem] ref assms(7) show ?thesis by (simp add: ready_queue_set)
qed


section \<open>Progress\<close>

lemma count_states:
  "distinct ss \<Longrightarrow> set xs \<subseteq> set ss \<Longrightarrow>
     sum_list (map snd (filter (\<lambda>(_, n). n > 0) (map (\<lambda>s. (s, length (filter (\<lambda>t. t = s) xs))) ss))) = length xs"
proof (induction ss arbitrary: xs)
  case (Cons s ss)
  let ?n = "\<lambda>ys. filter (\<lambda>(_, n). n > 0) (map (\<lambda>s. (s, length (filter (\<lambda>t. t = s) ys))) ss)"
  have "?n (filter (\<lambda>t. t \<noteq> s) xs) = ?n xs"
  proof -
    have "filter (\<lambda>t. t = u) (filter (\<lambda>t. t \<noteq> s) xs) = filter (\<lambda>t. t = u) xs" if "u \<in> set ss" for u
      using that Cons.prems(1) by (auto intro: filter_cong)
    then have "map (\<lambda>u. (u, length (filter (\<lambda>t. t = u) (filter (\<lambda>t. t \<noteq> s) xs)))) ss
        = map (\<lambda>u. (u, length (filter (\<lambda>t. t = u) xs))) ss" by simp
    then show ?thesis by (simp only:)
  qed
  moreover have "sum_list (map snd (?n (filter (\<lambda>t. t \<noteq> s) xs))) = length (filter (\<lambda>t. t \<noteq> s) xs)"
    using Cons.prems by (intro Cons.IH) auto
  moreover have "length (filter (\<lambda>t. t = s) xs) + length (filter (\<lambda>t. t \<noteq> s) xs) = length xs"
    by (rule sum_length_filter_compl)
  ultimately show ?case by (cases "filter (\<lambda>t. t = s) xs") simp_all
qed simp

definition plan_works :: "db \<Rightarrow> string \<Rightarrow> string list" where
  "plan_works d p = filter (\<lambda>w. \<exists>r. current_work d w = Some r \<and> cw_plan_ref r = p) (work_refs d)"

lemma plan_progress_total: "sum_list (map snd (plan_progress d p)) = length (plan_works d p)"
proof -
  let ?f = "\<lambda>w. case current_work d w of Some r \<Rightarrow> if cw_plan_ref r = p then Some (cw_execution r) else None | None \<Rightarrow> None"
  have len: "length (List.map_filter ?f ws)
      = length (filter (\<lambda>w. \<exists>r. current_work d w = Some r \<and> cw_plan_ref r = p) ws)" for ws
    by (induction ws) (auto simp: map_filter_simps split: option.splits)
  have all: "x \<in> {Ex_blocked, Ex_unknown, Ex_finished, Ex_ready, Ex_result_recorded, Ex_retired, Ex_retryable}" for x
    by (cases x) simp_all
  then have "set xs \<subseteq> set [Ex_blocked, Ex_unknown, Ex_finished, Ex_ready, Ex_result_recorded, Ex_retired, Ex_retryable]" for xs
    by auto
  from count_states [OF _ this] show ?thesis unfolding plan_progress_def plan_works_def Let_def len [symmetric]
    by simp
qed

section \<open>A work without its plan hides the next one\<close>

definition ex_ready :: "string \<Rightarrow> string \<Rightarrow> work_row" where
  "ex_ready p eid = \<lparr>cw_plan_ref = p, cw_work_kind = ''build'', cw_subject_ref = None,
     cw_role_requirement = Some ''dev'', cw_dependency_total = 0, cw_dependency_satisfied = 0,
     cw_dependency_conflicted = 0, cw_execution = Ex_ready, cw_ready_at = Some 1, cw_latest_event_id = eid\<rparr>"

definition ex_derived :: "string \<Rightarrow> string \<Rightarrow> work_derived" where
  "ex_derived w p = \<lparr>wd_work_ref = w, wd_plan_ref = p, wd_work_kind = ''build'',
     wd_role_requirement = Some ''dev'', wd_subject_ref = None, wd_objective = None, wd_constraints = None,
     wd_expected_observations = None, wd_domain = None\<rparr>"

definition ex_queue :: db where
  "ex_queue = empty_db\<lparr>event_work := [(''e1'', ex_derived ''w1'' ''p1''), (''e2'', ex_derived ''w2'' ''p2'')],
     current_work := [''w1'' \<mapsto> ex_ready ''p1'' ''e1'', ''w2'' \<mapsto> ex_ready ''p2'' ''e2''],
     current_plans := [''p2'' \<mapsto> \<lparr>cp_project_ref = ''x'', cp_objective = None, cp_rationale = None,
        cp_lifecycle = Draft, cp_end_reason = None, cp_latest_event_id = ''e0''\<rparr>]\<rparr>"

lemma ex_queue_ready [simp]: "ready_queue ex_queue (Some ''dev'') = [''w1'', ''w2'']"
proof -
  have "work_refs ex_queue = [''w1'', ''w2'']" by (simp add: work_refs_def ex_queue_def ex_derived_def)
  moreover have "has_role ex_queue (Some ''dev'') ''w1''" "has_role ex_queue (Some ''dev'') ''w2''"
    by (simp_all add: has_role_iff ex_queue_def ex_ready_def)
  moreover have "fifo_key ex_queue ''w1'' = (0, 1, ''w1'')" "fifo_key ex_queue ''w2'' = (0, 1, ''w2'')"
    by (simp_all add: fifo_key_def ex_queue_def ex_ready_def)
  ultimately show ?thesis by (simp add: ready_queue_def)
qed

lemma ex_queue_contracts [simp]:
  "work_contract_of ex_queue ''w1'' = None" "work_contract_of ex_queue ''w2'' \<noteq> None"
  by (simp_all add: work_contract_of_def ready_row_def ex_queue_def ex_ready_def)

lemma claims_starve:
  "work_next ex_queue (Some ''dev'') \<noteq> None" "fst (work_next_unclaimed ex_queue ''dev'' (Some []) ''s'' None) = None"
  by (simp_all add: work_next_def first_contract_None work_next_unclaimed_def holder_def)

end
