(* ===== verification/Examples.thy ===== *)
theory Examples
  imports Authority Store
begin

text \<open>
  Concrete inputs for the witnesses: a hash that is the identity, a signature scheme in which the
  one valid signature of any key is the text \<open>ok\<close>, a registry of two keys, and small events,
  registries and proof stores.  Every parameter of the model is instantiated by a computable
  function here.
\<close>

definition ex_crypto :: crypto where
  "ex_crypto =
     \<lparr>sha256 = (\<lambda>s. s),
      load_pem = (\<lambda>p. Some (Ed25519Key p)),
      ed25519_verify = (\<lambda>pub sig msg. sig = ''ok''),
      float_repr = (\<lambda>s. s)\<rparr>"

definition ex_sig :: string where
  "ex_sig = ''6f6b''"

definition ex_keys :: key_registry where
  "ex_keys = Map.empty(''k1'' \<mapsto> ''pem1'', ''k2'' \<mapsto> ''pem2'')"

definition ex_cred :: "string \<Rightarrow> string \<Rightarrow> node_credential" where
  "ex_cred node key =
     \<lparr>nc_node_ref = node, nc_key_ref = key, nc_scheme = ''ed25519'', nc_sign = (\<lambda>_. ex_sig)\<rparr>"

definition ex_trust :: trust_registry where
  "ex_trust =
     \<lparr>tr_m = Map.empty(''k1'' \<mapsto> fresh_entry ''n1'' (genesis_incarnation ''n1''),
                       ''k2'' \<mapsto> fresh_entry ''n2'' (genesis_incarnation ''n2'')),
      tr_inc = Map.empty(genesis_incarnation ''n1'' \<mapsto> \<lparr>ie_node_ref = ''n1'', ie_parent = None\<rparr>,
                         genesis_incarnation ''n2'' \<mapsto> \<lparr>ie_node_ref = ''n2'', ie_parent = None\<rparr>),
      tr_grants = Map.empty\<rparr>"

lemma ex_no_collision [simp]: "no_collision (\<lambda>s. s) a b" "no_collision (sha256 ex_crypto) a b"
  by (simp_all add: no_collision_def ex_crypto_def)

lemma ex_fromhex [simp]: "fromhex ex_sig = Some ''ok''"
  by (simp add: ex_sig_def is_space_def hex_digit_def) (simp add: char_of_def bit_simps)

lemma ex_provenance [simp]:
  "k \<in> {''k1'', ''k2''} \<Longrightarrow>
     resolve_and_verify_provenance ex_crypto h ex_sig k ''ed25519'' ex_keys"
  by (auto simp: resolve_and_verify_provenance_def verify_provenance_def public_pem_def ex_keys_def
      ex_crypto_def)

lemma ex_registered [simp]:
  "k \<in> {''k1'', ''k2''} \<Longrightarrow> credential_registered ex_crypto ex_keys (ex_cred n k) h"
  by (simp add: credential_registered_def ex_cred_def)

lemma ex_trust_ok [simp]: "trust_ok ex_trust" "lineage_ok ex_trust"
  by (auto simp: trust_ok_def lineage_ok_def ex_trust_def split: if_splits)

text \<open>Fork evidence that freezes the first node.\<close>

definition frozen_row :: fork_evidence where
  "frozen_row = \<lparr>fe_origin_node = ''n1'', fe_origin_seq = 1, fe_held_event_id = ''sha256:5.0'',
     fe_held_hash = ''sha256:5.0'', fe_rival_event_id = ''r'', fe_rival_hash = ''r'',
     fe_held_key_ref = Some ''k1'', fe_rival_key_ref = Some ''k2'', fe_held_incarnation = None,
     fe_rival_incarnation = None, fe_classification = Equivocation, fe_frozen = True,
     fe_resolved_by = None, fe_chosen_head = None, fe_reason = None\<rparr>"

section \<open>A one-member authority\<close>

definition ex_members :: "string list" where
  "ex_members = [''k1'']"

definition ex_cfg_digest :: "string \<Rightarrow> string" where
  "ex_cfg_digest key = digest (\<lambda>s. s) (configuration_coordinate key 0 ex_members 1 None)"

definition ex_cfg :: "string \<Rightarrow> authority_configuration" where
  "ex_cfg key =
     \<lparr>cfg_authority_key = key, cfg_configuration_digest = ex_cfg_digest key,
      cfg_authority_epoch = 0, cfg_members = ex_members, cfg_quorum = 1,
      cfg_prior_configuration_digest = None,
      cfg_succession_proof = Some (make_proof (ex_cfg_digest key) [ex_cred ''n1'' ''k1''])\<rparr>"

definition ex_store :: "string \<Rightarrow> proof_store" where
  "ex_store key = [(ex_cfg_digest key, ex_cfg key)]"

text \<open>A receipt of the member for one operation under one policy.\<close>

definition ex_receipt :: "string \<Rightarrow> string \<Rightarrow> string option \<Rightarrow> authority_receipt" where
  "ex_receipt key operation pol =
     \<lparr>rc_authority_key = key, rc_operation_digest = operation, rc_configuration_digest = ex_cfg_digest key,
      rc_authority_epoch = 0, rc_prior_authority_receipt_digest = None, rc_policy_digest = pol,
      rc_quorum_proof = make_proof operation [ex_cred ''n1'' ''k1'']\<rparr>"

lemma ex_make_proof [simp]:
  "valid_signers ex_crypto (Some (make_proof st [ex_cred n ''k1''])) st ex_members ex_keys = Some {''k1''}"
proof -
  have c: "\<forall>c \<in> set [ex_cred n ''k1'']. nc_scheme c = ''ed25519'' \<and> credential_registered ex_crypto ex_keys c st"
    by simp (simp add: ex_cred_def)
  show ?thesis by (subst make_proof_valid [OF c]) (simp add: ex_members_def ex_cred_def)
qed

lemma ex_cfg_simps [simp]:
  "cfg_authority_key (ex_cfg key) = key" "cfg_configuration_digest (ex_cfg key) = ex_cfg_digest key"
  "cfg_authority_epoch (ex_cfg key) = 0" "cfg_members (ex_cfg key) = ex_members" "cfg_quorum (ex_cfg key) = 1"
  "cfg_prior_configuration_digest (ex_cfg key) = None"
  "cfg_succession_proof (ex_cfg key) = Some (make_proof (ex_cfg_digest key) [ex_cred ''n1'' ''k1''])"
  by (simp_all add: ex_cfg_def)

lemma ex_bound [simp]: "bound ex_crypto (ex_cfg key) (ex_cfg_digest key)"
  by (simp add: bound_def configuration_coordinate_digest_def) (simp add: ex_cfg_digest_def ex_members_def ex_crypto_def)

lemma ex_genesis [simp]: "facially_valid_genesis ex_crypto (ex_cfg key) ex_keys"
  by (simp add: facially_valid_genesis_def) (simp add: ex_members_def)

lemma ex_store_ok [simp]: "store_ok (ex_store key)"
  by (simp add: store_ok_def ex_store_def)

lemma ex_current [simp]:
  "current_configuration ex_crypto ex_keys (ex_store key) key = (VALID, Some (ex_cfg key))"
proof -
  have "geneses ex_crypto ex_keys (ex_store key) key = [ex_cfg key]"
    by (simp add: geneses_def genesis_of_def ex_store_def)
  moreover have "successors ex_crypto ex_keys (ex_store key) (ex_cfg key) = []"
    by (simp add: successors_def successors_of_def ex_store_def)
  ultimately show ?thesis by (simp add: current_configuration_iff)
qed

lemma ex_receipt_simps [simp]:
  "rc_authority_key (ex_receipt key operation pol) = key"
  "rc_operation_digest (ex_receipt key operation pol) = operation"
  "rc_configuration_digest (ex_receipt key operation pol) = ex_cfg_digest key"
  "rc_authority_epoch (ex_receipt key operation pol) = 0" "rc_policy_digest (ex_receipt key operation pol) = pol"
  "rc_quorum_proof (ex_receipt key operation pol) = make_proof operation [ex_cred ''n1'' ''k1'']"
  by (simp_all add: ex_receipt_def)

lemma ex_receipt_valid [simp]:
  "verify_receipt ex_crypto ex_keys (Some ex_trust) (ex_store key) (ex_receipt key operation pol) = VALID"
proof -
  have "Set.filter (\<lambda>k. standing ex_trust k None = Active) {''k1''} = {''k1''}"
    by (auto simp: standing_def ex_trust_def fresh_entry_def)
  moreover have "map_of (ex_store key) (ex_cfg_digest key) = Some (ex_cfg key)" by (simp add: ex_store_def)
  ultimately show ?thesis by (simp add: verify_receipt_def del: Set.filter_eq)
qed

end
