(* ===== verification/Runs.thy ===== *)
theory Runs
  imports Archive Authority_Gate Security_Store Services Discovery Examples
begin

text \<open>
  Short runs of the whole model, as inputs of the witnesses: two chained events of one node (a plan
  and a work), recorded, replayed, replicated and archived.  The hash is three characters of the
  text, which the kernel evaluates; each event names the hash it really has.
\<close>

section \<open>Two events\<close>

definition pick :: "string \<Rightarrow> string" where
  "pick s = take 3 (drop 24 s)"

definition run_crypto :: crypto where
  "run_crypto = ex_crypto\<lparr>sha256 := pick\<rparr>"

definition run_plan :: payload where
  "run_plan = PlanCreated \<lparr>pc_plan_ref = ''p1'', pc_project_ref = ''x'', pc_objective = ''ship'',
     pc_rationale = None, pc_lifecycle = Draft, pc_scope = None, pc_constraints = None,
     pc_expected_observations = None, pc_domain = None\<rparr>"

definition run_work :: payload where
  "run_work = WorkDerived \<lparr>wd_work_ref = ''w1'', wd_plan_ref = ''p1'', wd_work_kind = ''build'',
     wd_role_requirement = Some ''dev'', wd_subject_ref = None, wd_objective = None, wd_constraints = None,
     wd_expected_observations = None, wd_domain = None\<rparr>"

definition run_event :: "string \<Rightarrow> int \<Rightarrow> string option \<Rightarrow> string \<Rightarrow> payload \<Rightarrow> event" where
  "run_event h seq prev pd p =
     \<lparr>event_id = ''sha256:'' @ h, origin_node = ''n1'', origin_seq = seq, hlc = h @ ''.n1'',
      kind = payload_kind p, subject_ref = None, actor_ref = ''a'', policy_digest = None,
      payload_digest = ''sha256:'' @ pd, prev_hash = map_option (\<lambda>h. ''sha256:'' @ h) prev,
      self_hash = ''sha256:'' @ h, envelope_version = 1, scope_ref = None, scope_digest = None,
      signature = Some ex_sig, signing_key_ref = Some ''k1'', signature_scheme = Some ''ed25519'',
      payload = Some p\<rparr>"

definition run_e1 :: event where
  "run_e1 = run_event ''5.0'' 1 None ''lif'' run_plan"

definition run_e2 :: event where
  "run_e2 = run_event ''5.1'' 2 (Some ''5.0'') ''pla'' run_work"

text \<open>A third event carries a scope under envelope version 2.\<close>

definition run_scoped :: event where
  "run_scoped = (run_event ''5.0'' 1 None ''lif'' run_plan)
     \<lparr>event_id := ''sha256:pe_'', self_hash := ''sha256:pe_'', envelope_version := 2,
      scope_ref := Some ''fleet'', scope_digest := Some ''sha256:''\<rparr>"

lemma run_verify [simp]:
  "event_verify (sha256 run_crypto) run_e1" "event_verify (sha256 run_crypto) run_e2"
  "event_verify (sha256 run_crypto) run_scoped"
  by code_simp+

lemma run_fields [simp]:
  "payload run_e1 = Some run_plan" "payload run_e2 = Some run_work" "payload run_scoped = Some run_plan"
  "kind run_e1 = PLAN_CREATED" "kind run_e2 = WORK_DERIVED" "kind run_scoped = PLAN_CREATED"
  "event_id run_e1 = ''sha256:5.0''" "event_id run_e2 = ''sha256:5.1''" "event_id run_scoped = ''sha256:pe_''"
  by (simp_all add: run_e1_def run_e2_def run_scoped_def run_event_def run_plan_def run_work_def)

lemma run_kinded [simp]: "well_kinded run_e1" "well_kinded run_e2"
  by (simp_all add: well_kinded_def run_plan_def run_work_def)

section \<open>Recorded\<close>

definition run_db :: db where
  "run_db = projr (record_events Some [(9, run_e1), (9, run_e2)] empty_db)"

definition run_swapped :: db where
  "run_swapped = projr (record_events Some [(9, run_e2), (9, run_e1)] empty_db)"

lemma run_records:
  "record_events Some [(9, run_e1), (9, run_e2)] empty_db = Inr run_db"
  "record_events Some [(9, run_e2), (9, run_e1)] empty_db = Inr run_swapped"
  unfolding run_db_def run_swapped_def by (rule sum.collapse(2) [symmetric], code_simp)+

lemma run_projected: "projected run_db"
  by (rule record_events_projected [OF projected_empty _ run_records(1)]) simp

lemma run_uniform: "uniform_policies run_db"
  by code_simp

lemma run_rebuild: "\<exists>d n. rebuild run_crypto 9 run_db = Inr (d, n)"
proof -
  have "\<not> isl (rebuild run_crypto 9 run_db)" by code_simp
  then show ?thesis by (cases "rebuild run_crypto 9 run_db") auto
qed

section \<open>Replicated\<close>

definition run_gate :: gate where
  "run_gate = \<lparr>g_keys = ex_keys, g_trust = ex_trust, g_requested = None, g_max_skew = 60, g_now_ms = 5\<rparr>"

definition run_batch :: "hlc_clock option \<times> (pull_report \<times> db) result" where
  "run_batch = admit_batch run_crypto Some run_gate 5 [run_e1, run_e2] None empty_db"

definition run_replica :: db where
  "run_replica = snd (projr (snd run_batch))"

lemma run_admitted:
  "admit_batch run_crypto Some run_gate 5 [run_e1, run_e2] None empty_db
     = (None, Inr (\<lparr>pr_admitted = [event_id run_e1, event_id run_e2], pr_rejected = []\<rparr>, run_replica))"
proof -
  have "\<not> isl (snd run_batch) \<and> fst run_batch = None
      \<and> pr_admitted (fst (projr (snd run_batch))) = [event_id run_e1, event_id run_e2]
      \<and> pr_rejected (fst (projr (snd run_batch))) = []" by code_simp
  then show ?thesis unfolding run_replica_def run_batch_def [symmetric]
    by (cases run_batch; cases "snd run_batch"; cases "fst (projr (snd run_batch))") (auto simp: prod_eq_iff)
qed

text \<open>A store in which the origin is frozen, with the first event held.\<close>

definition run_frozen :: db where
  "run_frozen = empty_db\<lparr>events := [row_of_event run_e1 False None], fork_rows := [frozen_row]\<rparr>"

lemma run_frozen_batch: "\<exists>rep d. admit_batch run_crypto Some run_gate 5 [run_e2] None run_frozen = (None, Inr (rep, d))"
proof -
  let ?b = "admit_batch run_crypto Some run_gate 5 [run_e2] None run_frozen"
  have "\<not> isl (snd ?b) \<and> fst ?b = None" by code_simp
  then show ?thesis by (cases ?b; cases "snd ?b") auto
qed

text \<open>A pull of the scoped event by a node that was granted the scope.\<close>

definition granted_trust :: trust_registry where
  "granted_trust = grant_scope ''n2'' ''fleet'' ex_trust"

definition scoped_source :: db where
  "scoped_source = projr (record_events Some [(9, run_scoped)] empty_db)"

definition scoped_pull :: "hlc_clock option \<times> (pull_report \<times> db) result" where
  "scoped_pull = pull run_crypto Some ex_keys ex_trust (Some granted_trust) (Some ''n2'') (Some [''fleet'']) 60 5 None
     empty_db scoped_source"

lemma scoped_pull_opens:
  "\<exists>rep d r. scoped_pull = (None, Inr (rep, d)) \<and> r \<in> set (events d) \<and> materialized r \<and> envelope_version r = 2"
proof -
  have "\<not> isl (snd scoped_pull) \<and> fst scoped_pull = None
      \<and> list_ex (\<lambda>r. materialized r \<and> envelope_version r = 2) (events (snd (projr (snd scoped_pull))))" by code_simp
  then show ?thesis
    by (intro exI [of _ "fst (projr (snd scoped_pull))"] exI [of _ "snd (projr (snd scoped_pull))"])
      (auto simp: list_ex_iff prod_eq_iff)
qed

lemma scoped_source_versions: "r \<in> set (events scoped_source) \<Longrightarrow> envelope_version r = 2"
proof -
  have "list_all (\<lambda>r. envelope_version r = 2) (events scoped_source)" by code_simp
  then show "r \<in> set (events scoped_source) \<Longrightarrow> envelope_version r = 2" by (simp add: list_all_iff)
qed

section \<open>Evidence\<close>

text \<open>An observation, a claim, and the link by which the first supports the second.\<close>

definition claim_events :: "(int \<times> event) list" where
  "claim_events =
     [(9, run_event ''5.0'' 1 None ''a'' (ClaimRecorded \<lparr>cl_proposition = ''up'', cl_basis_note = None\<rparr>)),
      (9, run_event ''5.1'' 2 (Some ''5.0'') ''b'' (ObservationRecorded \<lparr>ob_predicate = ''status'',
         ob_value_text = Some ''200'', ob_value_number = None, ob_value_bool = None, ob_value_time = None,
         ob_method = Http_probe, ob_occurred_at = None, ob_source_ref = None, ob_source_revision = None,
         ob_content_digest = None, ob_fetched_at = None\<rparr>)),
      (9, run_event ''5.2'' 3 (Some ''5.1'') ''c'' (LinkAsserted \<lparr>la_source_ref = ''sha256:5.1'',
         la_relation = Supports, la_target_ref = ''sha256:5.0''\<rparr>))]"

definition claim_db :: db where
  "claim_db = projr (record_events Some claim_events empty_db)"

lemma claim_recorded: "record_events Some claim_events empty_db = Inr claim_db"
  unfolding claim_db_def by (rule sum.collapse(2) [symmetric], code_simp)

lemma claim_ids_of_db: "claim_ids claim_db = [''sha256:5.0'']" "standing_of claim_db ''sha256:5.0'' = Grounded_supported"
  by code_simp+

lemma run_frozen_log: "log_ok (events run_frozen)"
  by (simp add: log_ok_def run_frozen_def run_e1_def run_event_def run_plan_def row_of_event_def)

end
