(* ===== verification/Wire_Runs.thy ===== *)
theory Wire_Runs
  imports Archive Runs
begin

text \<open>
  The two run events on the wire and in an archive file.  The validation of pydantic is a function
  that knows the two payloads.
\<close>

definition run_px :: pydantic where
  "run_px = \<lparr>px_str = (\<lambda>j. case j of JStr s \<Rightarrow> Inr s | _ \<Rightarrow> Inl (ValueError ''string_type'')),
     px_int = (\<lambda>j. case j of JInt i \<Rightarrow> Inr i | _ \<Rightarrow> Inl (ValueError ''int_type'')),
     px_payload = (\<lambda>j. if j = sort_keys (model_dump run_plan) then Inr run_plan
        else if j = sort_keys (model_dump run_work) then Inr run_work else Inl (ValueError ''union''))\<rparr>"

lemma run_px_ok: "pydantic_ok run_px {run_plan, run_work}"
proof -
  have "run_work \<noteq> run_plan" by (simp add: run_work_def run_plan_def)
  then have "sort_keys (model_dump run_work) \<noteq> sort_keys (model_dump run_plan)" using model_dump_inj by blast
  then show ?thesis by (simp add: pydantic_ok_def run_px_def)
qed

lemma run_loadable:
  "loadable (float_repr run_crypto) (model_dump run_plan)" "loadable (float_repr run_crypto) (model_dump run_work)"
  by code_simp+

lemma run_valid [simp]: "payload_valid run_plan" "payload_valid run_work"
  by (simp_all add: run_plan_def run_work_def)

lemma run_positions: "read_positions run_crypto run_db [(''n1'', [1..2])] = Inr [run_e1, run_e2]"
  by code_simp

lemma run_log: "log_ok (events run_db)"
  by code_simp

definition run_export :: "(string \<times> (string \<Rightarrow> archive_file option)) result" where
  "run_export = archive_export run_crypto run_db ''n1'' 1 2 ''f'' (ex_cred ''n1'' ''k1'') ''t'' Map.empty"

lemma run_exported: "\<exists>cd files. run_export = Inr (cd, files)"
proof -
  have "run_export = Inr (projr run_export)" by (rule sum.collapse(2) [symmetric], code_simp)
  then show ?thesis by (metis prod.collapse)
qed

lemma run_registered: "credential_registered run_crypto ex_keys (ex_cred ''n1'' ''k1'') h"
  by (simp add: credential_registered_def ex_cred_def resolve_and_verify_provenance_def public_pem_def ex_keys_def
      verify_provenance_def run_crypto_def ex_crypto_def)

end
