(* ===== verification/Gate_Runs.thy ===== *)
theory Gate_Runs
  imports Authority_Gate Examples
begin

text \<open>
  A store in which one authority event and one receipt event are held, as an input of the witnesses
  on the receipt-gated operations.
\<close>

definition gate_event :: "string \<Rightarrow> int \<Rightarrow> event_kind \<Rightarrow> event_row" where
  "gate_event eid seq k =
     \<lparr>event_id = eid, origin_node = ''n1'', origin_seq = seq, hlc = ''1.0.n1'', kind = k, subject_ref = None,
      actor_ref = ''a'', policy_digest = None, payload_digest = ''p'', prev_hash = None, self_hash = eid,
      envelope_version = 1, scope_ref = None, scope_digest = None, signature = None, signing_key_ref = None,
      signature_scheme = None, materialized = True\<rparr>"

definition gate_db :: "string \<Rightarrow> string \<Rightarrow> string option \<Rightarrow> policy_row list \<Rightarrow> db" where
  "gate_db key operation pol lineage = empty_db
     \<lparr>events := [gate_event ''cfg'' 1 AUTHORITY_CONFIGURATION, gate_event ''rcpt'' 2 AUTHORITY_RECEIPT],
      event_authority_configuration :=
        [(''cfg'', \<lparr>ac_configuration = ex_cfg key, ac_members_text = canonical_json (jstrs ex_members)\<rparr>)],
      event_authority_receipt := [(''rcpt'', ex_receipt key operation pol)],
      policy_lineage := lineage\<rparr>"

lemma gate_store: "load_proof_store ex_crypto (gate_db key operation pol lineage\<lparr>fork_rows := fr\<rparr>) = Inr (ex_store key)"
proof -
  have "(ex_cfg key)\<lparr>cfg_members := ex_members\<rparr> = ex_cfg key" by (simp add: ex_cfg_def)
  moreover have "unique_members (ex_cfg key)" by (simp add: unique_members_def ex_members_def)
  ultimately have "validated (AuthorityConfiguration ((ex_cfg key)\<lparr>cfg_members := ex_members\<rparr>))
      = Inr (AuthorityConfiguration (ex_cfg key))" by (simp only: validated_def payload_valid.simps if_True)
  then show ?thesis
    by (simp add: load_proof_store_def gate_db_def gate_event_def loads_members store_add_def ex_store_def)
qed

lemma gate_receipt:
  "load_receipt ex_crypto (gate_db key operation pol lineage\<lparr>fork_rows := fr\<rparr>) ''rcpt''
     = Inr (Some (ex_receipt key operation pol))"
  by (simp add: load_receipt_def gate_db_def gate_event_def validated_def)

lemma gate_policy:
  "current_policy_digest (gate_db key operation pol lineage\<lparr>fork_rows := fr\<rparr>)
     = current_policy_digest (empty_db\<lparr>policy_lineage := lineage\<rparr>)"
  by (simp add: current_policy_digest_def policy_heads_def gate_db_def)

lemma gate_lineage [simp]: "policy_lineage (gate_db key operation pol lineage) = lineage"
  by (simp add: gate_db_def)

section \<open>A fork released\<close>

definition fork_operation :: string where
  "fork_operation = fork_resolution_operation_digest ex_crypto ''n1'' 1 ''sha256:5.0''
     (ex_cfg_digest FORK_RESOLUTION_KEY) None"

definition fork_db :: "fork_evidence \<Rightarrow> db" where
  "fork_db f = gate_db FORK_RESOLUTION_KEY fork_operation None []\<lparr>fork_rows := [f]\<rparr>"

definition released_row :: fork_evidence where
  "released_row = frozen_row\<lparr>fe_frozen := False, fe_resolved_by := Some ''rcpt'',
     fe_chosen_head := Some ''sha256:5.0'', fe_reason := Some ''why''\<rparr>"

lemma fork_exercise:
  "exercise ex_crypto ex_keys ex_trust (fork_db f) (ex_receipt FORK_RESOLUTION_KEY fork_operation None)
     FORK_RESOLUTION_KEY fork_operation = Inr (ex_receipt FORK_RESOLUTION_KEY fork_operation None)"
  by (simp add: exercise_Inr fork_db_def gate_policy gate_store current_policy_digest_def policy_heads_def)

lemma fork_released:
  "resolve_fork ex_crypto ex_keys ''n1'' 1 ''sha256:5.0'' ''rcpt'' ''why'' (fork_db frozen_row) ex_trust
     = (revoke ''k2'' (Some 1) ex_trust, Inr (fork_db released_row))"
  "resolve_fork ex_crypto ex_keys ''n1'' 1 ''sha256:5.0'' ''rcpt'' ''again'' (fork_db released_row) ex_trust
     = (ex_trust, Inr (fork_db released_row))"
proof -
  have e: "bind_result (load_receipt ex_crypto (fork_db f) ''rcpt'') (\<lambda>loaded.
       case loaded of None \<Rightarrow> Inl (AuthorityRefused ''receipt_incomplete'')
       | Some receipt \<Rightarrow> bind_result (current_policy_digest (fork_db f)) (\<lambda>pol.
           exercise ex_crypto ex_keys ex_trust (fork_db f) receipt FORK_RESOLUTION_KEY
             (fork_resolution_operation_digest ex_crypto ''n1'' 1 ''sha256:5.0'' (rc_configuration_digest receipt) pol)))
     = Inr (ex_receipt FORK_RESOLUTION_KEY fork_operation None)" for f
    using fork_exercise [of f]
    by (simp add: fork_db_def gate_receipt current_policy_digest_def policy_heads_def fork_operation_def [symmetric])
  have [simp]: "fork_rows (fork_db f) = [f]" for f by (simp add: fork_db_def)
  have [simp]: "fork_db f\<lparr>fork_rows := [g]\<rparr> = fork_db g" for f g by (simp add: fork_db_def)
  show "resolve_fork ex_crypto ex_keys ''n1'' 1 ''sha256:5.0'' ''rcpt'' ''why'' (fork_db frozen_row) ex_trust
     = (revoke ''k2'' (Some 1) ex_trust, Inr (fork_db released_row))"
    unfolding resolve_fork_def e by (simp add: frozen_row_def released_row_def fork_at_def release_row_def)
  show "resolve_fork ex_crypto ex_keys ''n1'' 1 ''sha256:5.0'' ''rcpt'' ''again'' (fork_db released_row) ex_trust
     = (ex_trust, Inr (fork_db released_row))"
    unfolding resolve_fork_def e by (simp add: frozen_row_def released_row_def fork_at_def release_row_def)
qed

section \<open>Policies established\<close>

definition policy_name :: "string \<Rightarrow> string" where
  "policy_name bundle = digest (sha256 ex_crypto) (JStr bundle)"

definition lineage_row :: "string \<Rightarrow> string option \<Rightarrow> string option \<Rightarrow> policy_row" where
  "lineage_row bundle prior by = \<lparr>py_policy_digest = policy_name bundle, py_canonical_bundle = bundle,
     py_established_receipt = ''rcpt'', py_prior = prior, py_superseded_by = by\<rparr>"

definition policy_db :: "string \<Rightarrow> string option \<Rightarrow> policy_row list \<Rightarrow> db" where
  "policy_db bundle prior lineage = gate_db POLICY_KEY (policy_operation_digest ex_crypto
     (if prior = None then PolicyEstablish else PolicySupersede) (policy_name bundle) prior
     (ex_cfg_digest POLICY_KEY)) prior lineage\<lparr>fork_rows := []\<rparr>"

lemma policy_established:
  assumes "current_policy_digest (empty_db\<lparr>policy_lineage := lineage\<rparr>) = Inr prior" "prior \<noteq> Some (policy_name bundle)"
  shows "establish_policy ex_crypto ex_keys ex_trust bundle ''rcpt'' (policy_db bundle prior lineage)
    = bind_result (commit_policy prior (lineage_row bundle prior None) (policy_db bundle prior lineage))
        (\<lambda>d'. Inr (policy_name bundle, d'))"
proof -
  let ?op = "policy_operation_digest ex_crypto (if prior = None then PolicyEstablish else PolicySupersede)
     (policy_name bundle) prior (ex_cfg_digest POLICY_KEY)"
  have p: "current_policy_digest (policy_db bundle prior lineage) = Inr prior"
    using assms(1) unfolding policy_db_def gate_policy .
  have e: "exercise ex_crypto ex_keys ex_trust (policy_db bundle prior lineage) (ex_receipt POLICY_KEY ?op prior)
     POLICY_KEY ?op = Inr (ex_receipt POLICY_KEY ?op prior)"
    using assms(1) by (simp add: exercise_Inr policy_db_def gate_policy gate_store)
  have l: "load_receipt ex_crypto (policy_db bundle prior lineage) ''rcpt'' = Inr (Some (ex_receipt POLICY_KEY ?op prior))"
    unfolding policy_db_def by (rule gate_receipt)
  show ?thesis
    using assms(2) e unfolding establish_policy_def Let_def p l policy_name_def [symmetric]
    by (simp add: lineage_row_def)
qed

text \<open>The receipt of a store covers the policy it was made for.\<close>

lemma policy_accepted:
  assumes "current_policy_digest (empty_db\<lparr>policy_lineage := lineage\<rparr>) = Inr prior"
  shows "\<exists>receipt. load_receipt ex_crypto (policy_db bundle prior lineage) ''rcpt'' = Inr (Some receipt)
    \<and> exercise ex_crypto ex_keys ex_trust (policy_db bundle prior lineage) receipt POLICY_KEY
        (policy_operation_digest ex_crypto (if prior = None then PolicyEstablish else PolicySupersede)
           (policy_name bundle) prior (rc_configuration_digest receipt)) = Inr receipt"
proof -
  let ?op = "policy_operation_digest ex_crypto (if prior = None then PolicyEstablish else PolicySupersede)
     (policy_name bundle) prior (ex_cfg_digest POLICY_KEY)"
  have "exercise ex_crypto ex_keys ex_trust (policy_db bundle prior lineage) (ex_receipt POLICY_KEY ?op prior)
     POLICY_KEY ?op = Inr (ex_receipt POLICY_KEY ?op prior)"
    using assms by (simp add: exercise_Inr policy_db_def gate_policy gate_store)
  moreover have "rc_configuration_digest (ex_receipt POLICY_KEY ?op prior) = ex_cfg_digest POLICY_KEY"
    by simp
  moreover have "load_receipt ex_crypto (policy_db bundle prior lineage) ''rcpt''
      = Inr (Some (ex_receipt POLICY_KEY ?op prior))"
    unfolding policy_db_def by (rule gate_receipt)
  ultimately show ?thesis by (intro exI [of _ "ex_receipt POLICY_KEY ?op prior"]) simp
qed

definition one_policy :: "policy_row list" where
  "one_policy = [lineage_row ''a'' None None]"

lemma one_policy_current: "current_policy_digest (policy_db ''b'' prior one_policy) = Inr (Some (policy_name ''a''))"
  by (simp add: current_policy_digest_def policy_heads_def policy_db_def gate_db_def one_policy_def lineage_row_def)

text \<open>A first policy, and a return from the second policy to the first.\<close>

lemma policy_first:
  "establish_policy ex_crypto ex_keys ex_trust ''a'' ''rcpt'' (policy_db ''a'' None [])
     = Inr (policy_name ''a'', policy_db ''a'' None []\<lparr>policy_lineage := [lineage_row ''a'' None None]\<rparr>)"
  by (subst policy_established)
    (simp_all add: current_policy_digest_def policy_heads_def commit_policy_def supersede_def insert_policy_def
      policy_db_def gate_db_def)

definition two_policies :: "policy_row list" where
  "two_policies = [lineage_row ''a'' None (Some (policy_name ''b'')), lineage_row ''b'' (Some (policy_name ''a'')) None]"

lemma policy_names [simp]: "policy_name ''a'' = ''sha256:\"a\"''" "policy_name ''b'' = ''sha256:\"b\"''"
  by code_simp+

lemma policy_return:
  "\<exists>d'. establish_policy ex_crypto ex_keys ex_trust ''a'' ''rcpt''
     (policy_db ''a'' (Some (policy_name ''b'')) two_policies) = Inr (policy_name ''a'', d')"
  by (subst policy_established)
    (simp_all add: current_policy_digest_def policy_heads_def commit_policy_def supersede_def insert_policy_def
      supersede_head_def two_policies_def lineage_row_def policy_db_def gate_db_def)

end
