(* ===== verification/Discovery_Runs.thy ===== *)
theory Discovery_Runs
  imports Discovery Runs
begin

text \<open>
  A participant with the role of the work that the run derives, and a lease of another session on
  it, as inputs of the witnesses on discovery.
\<close>

definition run_session :: participant_session where
  "run_session = \<lparr>ps_session_id = ''s1'', ps_workload_ref = JStr ''w'', ps_runtime_ref = ''r'',
     ps_process_incarnation_ref = ''i'', ps_node = ''n1'', ps_logical_agent_ref = None,
     ps_authorized = {''role:dev''}, ps_advertised = {''role:dev''}, ps_decisions = Map.empty,
     ps_introduction = empty_introduction\<rparr>"

definition run_participants :: participant_registry where
  "run_participants = register_session run_session Map.empty"

lemma run_session_simps [simp]:
  "lookup_session run_participants ''s1'' = Some run_session" "ps_authorized run_session = {''role:dev''}"
  by (simp_all add: run_participants_def lookup_session_def register_session_def run_session_def)

definition run_claims :: claim_registry where
  "run_claims = snd (claim ''w1'' ''s2'' 0 30 [])"

lemma run_offered: "fst (work_next_for_participant run_db run_participants ''s1'' None None) \<notin>
    {Unreachable, Unauthorized, No_ready_work}"
  by code_simp

lemma run_withheld:
  "fst (work_next_for_participant run_db run_participants ''s1'' (Some run_claims) (Some 5)) = No_ready_work"
  by code_simp

lemma run_ready: "has_role run_db (Some ''dev'') ''w1''"
  by code_simp

lemma run_plans_held: "plans_held run_db"
proof -
  have "list_all (\<lambda>w. work_contract_of run_db w \<noteq> None) (work_refs run_db)" by code_simp
  then show ?thesis using work_refs_rows [OF run_projected]
    by (auto simp: plans_held_def has_role_iff list_all_iff)
qed

end
