(* ===== verification/Relations.thy ===== *)
theory Relations
  imports Rebuild
begin

text \<open>
  \<^verbatim>\<open>kawa/relations.py\<close>: the bounded, bidirectional walk over the relations of the plan lineage.
  The relation it queries, the view \<open>current_relations\<close> (\<^verbatim>\<open>sql/0017_relations_view.sql\<close>), is
  computed from the tables of \<^verbatim>\<open>Store\<close>: the latest assertion of each 5-tuple.  A node is a pair
  of its kind and its id; the set \<open>seen_nodes\<close> is the list of its elements in the order they were
  met; \<open>node_standing\<close> is the list of the entries written to that dictionary.

  Shown: whatever the data, the caps hold, no edge is returned twice and the standings cover
  exactly the nodes touched; when the result is not marked truncated (and the total cap was not
  reached) it is the whole neighbourhood of the subject up to the depth asked for.
\<close>

section \<open>The view\<close>

record relation_row =
  rl_source_kind :: string
  rl_source_id :: string
  rl_relation_kind :: string
  rl_target_kind :: string
  rl_target_id :: string
  rl_basis_event :: string
  rl_effective_hlc :: string

type_synonym relation_node = "string \<times> string"

definition relation_key :: "relation_row \<Rightarrow> string list" where
  "relation_key r =
     [rl_source_kind r, rl_source_id r, rl_relation_kind r, rl_target_kind r, rl_target_id r]"

definition subject_kind :: "event_kind \<Rightarrow> string" where
  "subject_kind k =
     (if startswith (kind_value k) ''plan.'' then ''plan''
      else if startswith (kind_value k) ''work.'' then ''work''
      else if k = RESULT_RECORDED then ''result''
      else if k = OBSERVATION_RECORDED then ''observation''
      else if k = CLAIM_RECORDED then ''claim''
      else ''unknown'')"

definition kind_map :: "db \<Rightarrow> string \<Rightarrow> string" where
  "kind_map d eid = (case find_event d eid of Some r \<Rightarrow> subject_kind (kind r) | None \<Rightarrow> ''unknown'')"

definition relation_row_of ::
    "event_row \<Rightarrow> string \<Rightarrow> string \<Rightarrow> string \<Rightarrow> string \<Rightarrow> string \<Rightarrow> relation_row \<times> string" where
  "relation_row_of r sk sid rel tk tid =
     (\<lparr>rl_source_kind = sk, rl_source_id = sid, rl_relation_kind = rel, rl_target_kind = tk,
       rl_target_id = tid, rl_basis_event = event_id r, rl_effective_hlc = hlc r\<rparr>, origin_node r)"

definition relation_assertions :: "db \<Rightarrow> (relation_row \<times> string) list" where
  "relation_assertions d =
     map (\<lambda>(r, x). relation_row_of r ''plan'' (wd_plan_ref x) ''derives'' ''work'' (wd_work_ref x))
       (joined d (event_work d) (\<lambda>_ _. True)) @
     map (\<lambda>(r, x). relation_row_of r ''work'' (dd_work_ref x) ''depends_on'' ''work''
                     (dd_dependency_work_ref x))
       (joined d (event_work_dependency d) (\<lambda>_ _. True)) @
     map (\<lambda>(r, x). relation_row_of r ''result'' (rr_result_ref x) ''evidences'' ''work''
                     (rr_work_ref x))
       (joined d (event_result d) (\<lambda>_ _. True)) @
     map (\<lambda>(r, l). relation_row_of r (kind_map d (lr_source_ref l)) (lr_source_ref l) ''based_on''
                     (kind_map d (lr_target_ref l)) (lr_target_ref l))
       (joined d (map (\<lambda>l. (lr_asserted_by l, l)) (event_links d)) (\<lambda>_ l. lr_relation l = Based_on))"

definition relation_parts :: "relation_row \<Rightarrow> (int \<times> int) option" where
  "relation_parts r =
     (case parse_hlc (rl_effective_hlc r) of Some (p, l, _) \<Rightarrow> Some (p, l) | None \<Rightarrow> None)"

definition current_relations :: "db \<Rightarrow> relation_row list" where
  "current_relations d =
     map fst (distinct_on (\<lambda>(r, _). relation_key r)
       (\<lambda>(r, origin). hlc_parts_sort_key (relation_parts r) origin [rl_basis_event r])
       (relation_assertions d))"

section \<open>Standing, joined at read\<close>

definition node_standing :: "db \<Rightarrow> relation_node \<Rightarrow> string" where
  "node_standing d n =
     (case n of (knd, sid) \<Rightarrow>
        if knd = ''plan'' then
          (case current_plans d sid of
             None \<Rightarrow> ''unknown''
           | Some p \<Rightarrow>
               if cp_lifecycle p \<noteq> Ended then ''current''
               else if cp_end_reason p = Some Superseded then ''superseded'' else ''retired'')
        else if knd = ''work'' then
          (case current_work d sid of
             None \<Rightarrow> ''unknown''
           | Some w \<Rightarrow> if cw_execution w = Ex_retired then ''retired'' else ''current'')
        else if knd = ''claim'' then
          (case current_claim_standing d sid of
             None \<Rightarrow> ''unknown''
           | Some (st, _) \<Rightarrow> if st = Superseded_claim then ''superseded'' else ''current'')
        else if knd \<in> {''result'', ''observation''} then ''current''
        else ''unknown'')"

section \<open>The walk\<close>

definition MAX_DEPTH :: nat where "MAX_DEPTH = 3"

definition MAX_FAN_OUT :: nat where "MAX_FAN_OUT = 20"

definition MAX_TOTAL :: nat where "MAX_TOTAL = 100"

definition rel_source :: "relation_row \<Rightarrow> relation_node" where
  "rel_source r = (rl_source_kind r, rl_source_id r)"

definition rel_target :: "relation_row \<Rightarrow> relation_node" where
  "rel_target r = (rl_target_kind r, rl_target_id r)"

text \<open>\<open>ORDER BY\<close> the canonical order, descending: the basis event and then the whole tuple.\<close>

definition incident_rows :: "relation_row list \<Rightarrow> relation_node \<Rightarrow> relation_row list" where
  "incident_rows rels n =
     rev (sort_key (\<lambda>r. hlc_parts_sort_key (relation_parts r) (rl_basis_event r) (relation_key r))
       (filter (\<lambda>r. rel_source r = n \<or> rel_target r = n) rels))"

record walk =
  wk_edges :: "relation_row list"
  wk_seen_nodes :: "relation_node list"
  wk_seen_edges :: "string list list"
  wk_next :: "relation_node list"
  wk_truncated :: bool
  wk_truncated_at :: "nat option"

definition mark_truncated :: "nat \<Rightarrow> walk \<Rightarrow> walk" where
  "mark_truncated depth s =
     s\<lparr>wk_truncated := True,
       wk_truncated_at := (case wk_truncated_at s of None \<Rightarrow> Some depth | Some at_depth \<Rightarrow> Some at_depth)\<rparr>"

definition see_node :: "relation_node \<Rightarrow> walk \<Rightarrow> walk" where
  "see_node n s =
     (if n \<in> set (wk_seen_nodes s) then s
      else s\<lparr>wk_seen_nodes := wk_seen_nodes s @ [n], wk_next := wk_next s @ [n]\<rparr>)"

definition add_edge :: "relation_row \<Rightarrow> walk \<Rightarrow> walk" where
  "add_edge r s = see_node (rel_target r) (see_node (rel_source r)
     (s\<lparr>wk_seen_edges := relation_key r # wk_seen_edges s, wk_edges := wk_edges s @ [r]\<rparr>))"

fun take_rows :: "nat \<Rightarrow> relation_row list \<Rightarrow> walk \<Rightarrow> walk" where
  "take_rows depth [] s = s"
| "take_rows depth (r # rs) s =
     (if relation_key r \<in> set (wk_seen_edges s) then take_rows depth rs s
      else if MAX_TOTAL \<le> length (wk_edges s) then mark_truncated depth s
      else take_rows depth rs (add_edge r s))"

fun expand_frontier :: "relation_row list \<Rightarrow> nat \<Rightarrow> relation_node list \<Rightarrow> walk \<Rightarrow> walk" where
  "expand_frontier rels depth [] s = s"
| "expand_frontier rels depth (n # frontier) s =
     (if MAX_TOTAL \<le> length (wk_edges s) then mark_truncated depth s
      else if fst n = ''unknown'' then expand_frontier rels depth frontier s
      else
        (let rows = incident_rows rels n in
         if MAX_FAN_OUT < length rows
         then expand_frontier rels depth frontier
                (take_rows depth (take MAX_FAN_OUT rows) (mark_truncated depth s))
         else expand_frontier rels depth frontier (take_rows depth rows s)))"

text \<open>\<open>for d in range(1, depth + 1)\<close>: the levels that are left, and the current one.\<close>

fun walk_levels :: "relation_row list \<Rightarrow> nat \<Rightarrow> nat \<Rightarrow> relation_node list \<Rightarrow> walk \<Rightarrow> walk" where
  "walk_levels rels 0 depth frontier s = s"
| "walk_levels rels (Suc left) depth frontier s =
     (let s' = expand_frontier rels depth frontier (s\<lparr>wk_next := []\<rparr>) in
      if wk_next s' = [] \<or> MAX_TOTAL \<le> length (wk_edges s') then s'
      else walk_levels rels left (Suc depth) (wk_next s') s')"

record traversal =
  tv_subject :: relation_node
  tv_depth :: nat
  tv_edges :: "relation_row list"
  tv_node_standing :: "(string \<times> string) list"
  tv_is_truncated :: bool
  tv_truncated_at_depth :: "nat option"
  tv_total_edges_discovered :: nat

definition clamp_depth :: "int \<Rightarrow> nat" where
  "clamp_depth depth = nat (max 1 (min depth (int MAX_DEPTH)))"

definition walk_start :: "relation_node \<Rightarrow> walk" where
  "walk_start n =
     \<lparr>wk_edges = [], wk_seen_nodes = [n], wk_seen_edges = [], wk_next = [], wk_truncated = False,
      wk_truncated_at = None\<rparr>"

definition traverse :: "db \<Rightarrow> relation_node \<Rightarrow> int \<Rightarrow> traversal" where
  "traverse d subject depth =
     (let s = walk_levels (current_relations d) (clamp_depth depth) 1 [subject] (walk_start subject)
      in \<lparr>tv_subject = subject, tv_depth = clamp_depth depth, tv_edges = wk_edges s,
          tv_node_standing = map (\<lambda>n. (fst n @ '':'' @ snd n, node_standing d n)) (wk_seen_nodes s),
          tv_is_truncated = wk_truncated s, tv_truncated_at_depth = wk_truncated_at s,
          tv_total_edges_discovered = length (wk_edges s)\<rparr>)"


section \<open>What the walk touches\<close>

text \<open>
  The bounds and the bookkeeping: at most \<open>MAX_TOTAL\<close> edges, each a row of the view, none twice,
  and the nodes seen are the subject and the endpoints of the edges.
\<close>

definition endpoints :: "relation_row \<Rightarrow> relation_node set" where
  "endpoints r = {rel_source r, rel_target r}"

definition walk_inv :: "relation_row list \<Rightarrow> relation_node \<Rightarrow> walk \<Rightarrow> bool" where
  "walk_inv rels subject s \<longleftrightarrow>
     length (wk_edges s) \<le> MAX_TOTAL \<and> distinct (map relation_key (wk_edges s)) \<and>
     set (wk_seen_edges s) = relation_key ` set (wk_edges s) \<and> set (wk_edges s) \<subseteq> set rels \<and>
     distinct (wk_seen_nodes s) \<and>
     set (wk_seen_nodes s) = insert subject (\<Union> (endpoints ` set (wk_edges s)))"

lemma truncate_frame [simp]:
  "wk_edges (mark_truncated depth s) = wk_edges s" "wk_seen_nodes (mark_truncated depth s) = wk_seen_nodes s"
  "wk_seen_edges (mark_truncated depth s) = wk_seen_edges s" "wk_next (mark_truncated depth s) = wk_next s"
  "wk_truncated (mark_truncated depth s)" "wk_truncated_at (mark_truncated depth s) \<noteq> None"
  by (simp_all add: mark_truncated_def split: option.split)

lemma see_node_frame [simp]:
  "wk_edges (see_node n s) = wk_edges s" "wk_seen_edges (see_node n s) = wk_seen_edges s"
  "set (wk_seen_nodes (see_node n s)) = insert n (set (wk_seen_nodes s))"
  "set (wk_next (see_node n s)) =
     set (wk_next s) \<union> (if n \<in> set (wk_seen_nodes s) then {} else {n})"
  "wk_truncated (see_node n s) = wk_truncated s"
  "distinct (wk_seen_nodes (see_node n s)) = distinct (wk_seen_nodes s)"
  "wk_truncated_at (see_node n s) = wk_truncated_at s"
  by (auto simp: see_node_def)

lemma add_edge_frame [simp]:
  "wk_edges (add_edge r s) = wk_edges s @ [r]"
  "wk_seen_edges (add_edge r s) = relation_key r # wk_seen_edges s"
  "set (wk_seen_nodes (add_edge r s)) = endpoints r \<union> set (wk_seen_nodes s)"
  "set (wk_next (add_edge r s)) = set (wk_next s) \<union> (endpoints r - set (wk_seen_nodes s))"
  "wk_truncated (add_edge r s) = wk_truncated s"
  "distinct (wk_seen_nodes (add_edge r s)) = distinct (wk_seen_nodes s)"
  "wk_truncated_at (add_edge r s) = wk_truncated_at s"
  by (auto simp: add_edge_def endpoints_def)

lemma walk_inv_truncate [simp]: "walk_inv rels subject (mark_truncated depth s) = walk_inv rels subject s"
  by (simp add: walk_inv_def)

lemma walk_inv_next [simp]: "walk_inv rels subject (s\<lparr>wk_next := n\<rparr>) = walk_inv rels subject s"
  by (simp add: walk_inv_def)

lemma walk_inv_add_edge:
  assumes "walk_inv rels subject s" "relation_key r \<notin> set (wk_seen_edges s)"
    "length (wk_edges s) < MAX_TOTAL" "r \<in> set rels"
  shows "walk_inv rels subject (add_edge r s)"
  using assms by (auto simp: walk_inv_def)

lemma walk_inv_take_rows:
  assumes "walk_inv rels subject s" "set rs \<subseteq> set rels"
  shows "walk_inv rels subject (take_rows depth rs s)"
  using assms
  by (induction depth rs s rule: take_rows.induct) (auto simp: not_le intro: walk_inv_add_edge)

lemma set_incident_rows [simp]: "set (incident_rows rels n) = {r \<in> set rels. n \<in> endpoints r}"
  by (auto simp: incident_rows_def endpoints_def)

lemma walk_inv_expand:
  "walk_inv rels subject s \<Longrightarrow> walk_inv rels subject (expand_frontier rels depth frontier s)"
proof (induction rels depth frontier s rule: expand_frontier.induct)
  case (2 rels depth n frontier s)
  have "walk_inv rels subject (take_rows depth (take k (incident_rows rels n)) s')"
    if "walk_inv rels subject s'" for k s'
    using that set_take_subset [of k "incident_rows rels n"] by (auto intro: walk_inv_take_rows)
  moreover have "walk_inv rels subject (take_rows depth (incident_rows rels n) s)"
    using 2(4) by (auto intro: walk_inv_take_rows)
  ultimately show ?case using 2 by (simp add: Let_def)
qed simp

lemma walk_inv_levels:
  "walk_inv rels subject s \<Longrightarrow> walk_inv rels subject (walk_levels rels left depth frontier s)"
  by (induction rels left depth frontier s rule: walk_levels.induct)
    (simp_all add: Let_def walk_inv_expand)

lemma walk_inv_start: "walk_inv rels subject (walk_start subject)"
  by (simp add: walk_inv_def walk_start_def)

section \<open>Truncation is never silent\<close>

lemma truncated_take_rows: "wk_truncated s \<Longrightarrow> wk_truncated (take_rows depth rs s)"
  by (induction depth rs s rule: take_rows.induct) auto

lemma truncated_expand: "wk_truncated s \<Longrightarrow> wk_truncated (expand_frontier rels depth frontier s)"
  by (induction rels depth frontier s rule: expand_frontier.induct)
    (auto simp: Let_def truncated_take_rows)

lemma truncated_levels: "wk_truncated s \<Longrightarrow> wk_truncated (walk_levels rels left depth frontier s)"
  by (induction rels left depth frontier s rule: walk_levels.induct)
    (simp_all add: Let_def truncated_expand)

lemma seen_edges_take_rows: "set (wk_seen_edges s) \<subseteq> set (wk_seen_edges (take_rows depth rs s))"
  by (induction depth rs s rule: take_rows.induct) auto

lemma seen_edges_expand:
  "set (wk_seen_edges s) \<subseteq> set (wk_seen_edges (expand_frontier rels depth frontier s))"
proof (induction rels depth frontier s rule: expand_frontier.induct)
  case (2 rels depth n frontier s)
  then show ?case
    using seen_edges_take_rows [of "mark_truncated depth s"] seen_edges_take_rows [of s]
    by (auto simp: Let_def) blast+
qed simp

lemma seen_nodes_take_rows:
  "set (wk_seen_nodes s) \<subseteq> base \<union> set (wk_next s) \<Longrightarrow>
   set (wk_seen_nodes (take_rows depth rs s)) \<subseteq> base \<union> set (wk_next (take_rows depth rs s))"
proof (induction depth rs s rule: take_rows.induct)
  case (2 depth r rs s)
  then show ?case by (simp, blast)
qed simp

lemma seen_nodes_expand:
  "set (wk_seen_nodes s) \<subseteq> base \<union> set (wk_next s) \<Longrightarrow>
   set (wk_seen_nodes (expand_frontier rels depth frontier s))
     \<subseteq> base \<union> set (wk_next (expand_frontier rels depth frontier s))"
proof (induction rels depth frontier s rule: expand_frontier.induct)
  case (2 rels depth n frontier s)
  then show ?case by (simp add: Let_def seen_nodes_take_rows)
qed simp

text \<open>A level that is not truncated has taken every row of every node it expanded.\<close>

lemma take_rows_complete:
  assumes "\<not> wk_truncated (take_rows depth rs s)" "r \<in> set rs"
  shows "relation_key r \<in> set (wk_seen_edges (take_rows depth rs s))"
  using assms
proof (induction depth rs s rule: take_rows.induct)
  case (2 depth x rs s)
  have "relation_key x \<in> set (wk_seen_edges (take_rows depth rs (add_edge x s)))"
    using seen_edges_take_rows [of "add_edge x s"] by auto
  moreover have "relation_key x \<in> set (wk_seen_edges (take_rows depth rs s))"
    if "relation_key x \<in> set (wk_seen_edges s)"
    using seen_edges_take_rows [of s] that by auto
  ultimately show ?case using 2 by (auto split: if_splits)
qed simp

lemma expand_complete:
  assumes "\<not> wk_truncated (expand_frontier rels depth frontier s)" "n \<in> set frontier"
    "fst n \<noteq> ''unknown''" "r \<in> set rels" "n \<in> endpoints r"
  shows "relation_key r \<in> set (wk_seen_edges (expand_frontier rels depth frontier s))"
  using assms
proof (induction rels depth frontier s rule: expand_frontier.induct)
  case (2 rels depth m frontier s)
  have full: "\<not> MAX_TOTAL \<le> length (wk_edges s)" using 2(4) by auto
  show ?case
  proof (cases "fst m = ''unknown''")
    case True
    with 2 full show ?thesis by auto
  next
    case False
    have few: "\<not> MAX_FAN_OUT < length (incident_rows rels m)"
      using 2(4) False full by (auto simp: Let_def truncated_expand truncated_take_rows)
    let ?s = "take_rows depth (incident_rows rels m) s"
    have eq: "expand_frontier rels depth (m # frontier) s = expand_frontier rels depth frontier ?s"
      using full False few by (simp add: Let_def)
    show ?thesis
    proof (cases "n = m")
      case True
      have "\<not> wk_truncated ?s" using 2(4) eq truncated_expand by metis
      from take_rows_complete [OF this, of r] True 2(7,8)
        seen_edges_expand [of ?s rels depth frontier]
      show ?thesis unfolding eq by auto
    next
      case False
      with 2 full \<open>fst m \<noteq> ''unknown''\<close> few show ?thesis by (auto simp: Let_def)
    qed
  qed
qed simp

section \<open>The neighbourhood the walk stands for\<close>

text \<open>The nodes within \<open>k\<close> edges of the subject; a node of kind \<open>unknown\<close> is a leaf.\<close>

fun within :: "relation_row list \<Rightarrow> relation_node \<Rightarrow> nat \<Rightarrow> relation_node set" where
  "within rels subject 0 = {subject}"
| "within rels subject (Suc k) =
     within rels subject k \<union>
     {m. \<exists>n\<in>within rels subject k. \<exists>r\<in>set rels. fst n \<noteq> ''unknown'' \<and> n \<in> endpoints r
         \<and> m \<in> endpoints r}"

definition neighbourhood :: "relation_row list \<Rightarrow> relation_node \<Rightarrow> nat \<Rightarrow> relation_row set" where
  "neighbourhood rels subject k =
     {r \<in> set rels. \<exists>n\<in>within rels subject k. fst n \<noteq> ''unknown'' \<and> n \<in> endpoints r}"

definition expanded :: "relation_row list \<Rightarrow> walk \<Rightarrow> relation_node \<Rightarrow> bool" where
  "expanded rels s n \<longleftrightarrow> (\<forall>r\<in>set rels. fst n \<noteq> ''unknown'' \<and> n \<in> endpoints r \<longrightarrow> r \<in> set (wk_edges s))"

lemma within_mono: "j \<le> k \<Longrightarrow> within rels subject j \<subseteq> within rels subject k"
  by (induction k) (auto simp: le_Suc_eq)


lemma next_seen_take_rows:
  "set (wk_next s) \<subseteq> set (wk_seen_nodes s) \<Longrightarrow>
   set (wk_next (take_rows depth rs s)) \<subseteq> set (wk_seen_nodes (take_rows depth rs s))"
proof (induction depth rs s rule: take_rows.induct)
  case (2 depth r rs s)
  then show ?case by (simp, blast)
qed simp

lemma next_seen_expand:
  "set (wk_next s) \<subseteq> set (wk_seen_nodes s) \<Longrightarrow>
   set (wk_next (expand_frontier rels depth frontier s))
     \<subseteq> set (wk_seen_nodes (expand_frontier rels depth frontier s))"
proof (induction rels depth frontier s rule: expand_frontier.induct)
  case (2 rels depth n frontier s)
  then show ?case by (simp add: Let_def next_seen_take_rows)
qed simp

lemma edges_take_rows: "set (wk_edges (take_rows depth rs s)) \<subseteq> set (wk_edges s) \<union> set rs"
proof (induction depth rs s rule: take_rows.induct)
  case (2 depth r rs s)
  then show ?case by (simp, blast)
qed simp

lemma edges_expand:
  "set (wk_edges (expand_frontier rels depth frontier s)) \<subseteq> set (wk_edges s) \<union>
     {r \<in> set rels. \<exists>n\<in>set frontier. fst n \<noteq> ''unknown'' \<and> n \<in> endpoints r}"
proof (induction rels depth frontier s rule: expand_frontier.induct)
  case (2 rels depth n frontier s)
  have few: "set (wk_edges (take_rows depth (take k (incident_rows rels n)) s'))
      \<subseteq> set (wk_edges s') \<union> {r \<in> set rels. n \<in> endpoints r}" for k s'
    using edges_take_rows [of depth "take k (incident_rows rels n)" s']
      set_take_subset [of k "incident_rows rels n"] by auto
  from few [of "length (incident_rows rels n)" s] few [of MAX_FAN_OUT "mark_truncated depth s"] 2
  show ?case by (simp add: Let_def) (safe, blast+)
qed simp

lemma edges_take_rows_mono: "set (wk_edges s) \<subseteq> set (wk_edges (take_rows depth rs s))"
  by (induction depth rs s rule: take_rows.induct) auto

lemma edges_expand_mono:
  "set (wk_edges s) \<subseteq> set (wk_edges (expand_frontier rels depth frontier s))"
proof (induction rels depth frontier s rule: expand_frontier.induct)
  case (2 rels depth n frontier s)
  then show ?case
    using edges_take_rows_mono [of s] edges_take_rows_mono [of "mark_truncated depth s"]
    by (auto simp: Let_def) blast+
qed simp

lemma neighbourhood_mono: "j \<le> k \<Longrightarrow> neighbourhood rels subject j \<subseteq> neighbourhood rels subject k"
  using within_mono unfolding neighbourhood_def by blast

text \<open>Once every node seen is expanded, no further level adds anything.\<close>

lemma closed_neighbourhood:
  assumes "walk_inv rels subject s" and "\<forall>n\<in>set (wk_seen_nodes s). expanded rels s n"
  shows "neighbourhood rels subject k \<subseteq> set (wk_edges s)"
proof -
  have "within rels subject k \<subseteq> set (wk_seen_nodes s)"
  proof (induction k)
    case 0
    from assms(1) show ?case by (auto simp: walk_inv_def)
  next
    case (Suc k)
    have "m \<in> set (wk_seen_nodes s)"
      if "n \<in> within rels subject k" "r \<in> set rels" "fst n \<noteq> ''unknown''" "n \<in> endpoints r"
        "m \<in> endpoints r" for m n r
    proof -
      have "r \<in> set (wk_edges s)" using Suc assms(2) that unfolding expanded_def by blast
      with assms(1) that(5) show ?thesis by (auto simp: walk_inv_def)
    qed
    with Suc show ?case by auto
  qed
  with assms(2) show ?thesis unfolding neighbourhood_def expanded_def by blast
qed

lemma expanded_of_key:
  assumes "inj_on relation_key (set rels)" "walk_inv rels subject s" "r \<in> set rels"
    "relation_key r \<in> set (wk_seen_edges s)"
  shows "r \<in> set (wk_edges s)"
proof -
  from assms(2,4) obtain r' where r': "r' \<in> set (wk_edges s)" "relation_key r = relation_key r'"
    by (auto simp: walk_inv_def)
  moreover from this(1) assms(2) have "r' \<in> set rels" by (auto simp: walk_inv_def)
  ultimately show ?thesis using inj_onD [OF assms(1) _ assms(3), of r'] by simp
qed

text \<open>One level.\<close>

lemma level_complete:
  assumes inj: "inj_on relation_key (set rels)" and inv: "walk_inv rels subject s"
    and s': "s' = expand_frontier rels depth frontier (s\<lparr>wk_next := []\<rparr>)"
    and whole: "\<not> wk_truncated s'"
    and visited: "\<forall>n\<in>set (wk_seen_nodes s). n \<in> set frontier \<or> expanded rels s n"
  shows "\<forall>n\<in>set (wk_seen_nodes s). expanded rels s' n"
proof
  fix n assume n: "n \<in> set (wk_seen_nodes s)"
  have inv': "walk_inv rels subject s'" by (simp add: s' inv walk_inv_expand)
  from visited n consider "n \<in> set frontier" | "expanded rels s n" by blast
  then show "expanded rels s' n"
  proof cases
    case 1
    show ?thesis
      unfolding expanded_def
    proof (intro ballI impI)
      fix r assume r: "r \<in> set rels" "fst n \<noteq> ''unknown'' \<and> n \<in> endpoints r"
      have "relation_key r \<in> set (wk_seen_edges s')"
        unfolding s' by (rule expand_complete [OF whole [unfolded s'] 1]) (use r in simp_all)
      then show "r \<in> set (wk_edges s')" by (rule expanded_of_key [OF inj inv' r(1)])
    qed
  next
    case 2
    have "set (wk_edges s) \<subseteq> set (wk_edges s')"
      using edges_expand_mono [of "s\<lparr>wk_next := []\<rparr>"] by (simp add: s')
    with 2 show ?thesis unfolding expanded_def by blast
  qed
qed

lemma level_sound:
  assumes "set frontier \<subseteq> within rels subject i" "set (wk_edges s) \<subseteq> neighbourhood rels subject i"
    and s': "s' = expand_frontier rels depth frontier (s\<lparr>wk_next := []\<rparr>)"
  shows "set (wk_edges s') \<subseteq> neighbourhood rels subject i"
proof -
  have "{r \<in> set rels. \<exists>n\<in>set frontier. fst n \<noteq> ''unknown'' \<and> n \<in> endpoints r}
      \<subseteq> neighbourhood rels subject i"
    using assms(1) unfolding neighbourhood_def by blast
  with edges_expand [of rels depth frontier "s\<lparr>wk_next := []\<rparr>"] assms(2) show ?thesis
    unfolding s' by (simp, blast)
qed

lemma levels_complete:
  assumes "inj_on relation_key (set rels)" and "walk_inv rels subject s"
    and "\<not> wk_truncated (walk_levels rels (Suc left) depth frontier s)"
    and "length (wk_edges (walk_levels rels (Suc left) depth frontier s)) < MAX_TOTAL"
    and "\<forall>n\<in>set (wk_seen_nodes s). n \<in> set frontier \<or> expanded rels s n"
    and "within rels subject i \<subseteq> set (wk_seen_nodes s)"
    and "set frontier \<subseteq> within rels subject i"
    and "set (wk_edges s) \<subseteq> neighbourhood rels subject i"
  shows "set (wk_edges (walk_levels rels (Suc left) depth frontier s)) =
    neighbourhood rels subject (i + left)"
  using assms(2-)
proof (induction left arbitrary: i depth frontier s)
  case left: (0)
  define s' where s': "s' = expand_frontier rels depth frontier (s\<lparr>wk_next := []\<rparr>)"
  have final: "walk_levels rels (Suc 0) depth frontier s = s'" by (simp add: Let_def s')
  have "\<forall>n\<in>set (wk_seen_nodes s). expanded rels s' n"
    using level_complete [OF assms(1) left(1) s' _ left(4)] left(2) final by simp
  then have "neighbourhood rels subject i \<subseteq> set (wk_edges s')"
    using left(5) unfolding neighbourhood_def expanded_def by blast
  moreover have "set (wk_edges s') \<subseteq> neighbourhood rels subject i"
    by (rule level_sound [OF left(6,7) s'])
  ultimately show ?case using final by simp
next
  case (Suc left)
  define s' where s': "s' = expand_frontier rels depth frontier (s\<lparr>wk_next := []\<rparr>)"
  let ?final = "walk_levels rels (Suc (Suc left)) depth frontier s"
  have final: "?final = (if wk_next s' = [] \<or> MAX_TOTAL \<le> length (wk_edges s') then s'
      else walk_levels rels (Suc left) (Suc depth) (wk_next s') s')"
    by (simp add: Let_def s' del: walk_levels.simps) (subst walk_levels.simps, simp add: Let_def s')
  have whole: "\<not> wk_truncated s'"
    using Suc.prems(2) truncated_levels [of s' rels "Suc left" "Suc depth" "wk_next s'"]
    unfolding final by presburger
  have inv': "walk_inv rels subject s'" by (simp add: s' Suc.prems(1) walk_inv_expand)
  have all_expanded: "\<forall>n\<in>set (wk_seen_nodes s). expanded rels s' n"
    by (rule level_complete [OF assms(1) Suc.prems(1) s' whole Suc.prems(4)])
  then have lower: "neighbourhood rels subject i \<subseteq> set (wk_edges s')"
    using Suc.prems(5) unfolding neighbourhood_def expanded_def by blast
  have upper: "set (wk_edges s') \<subseteq> neighbourhood rels subject i"
    by (rule level_sound [OF Suc.prems(6,7) s'])
  have seen': "set (wk_seen_nodes s') \<subseteq> set (wk_seen_nodes s) \<union> set (wk_next s')"
    unfolding s' by (rule seen_nodes_expand) simp
  show ?case
  proof (cases "wk_next s' = []")
    case True
    with seen' all_expanded have "\<forall>n\<in>set (wk_seen_nodes s'). expanded rels s' n" by auto
    from closed_neighbourhood [OF inv' this, of "i + Suc left"] upper
      neighbourhood_mono [of i "i + Suc left" rels subject]
    show ?thesis unfolding final by (auto simp: True)
  next
    case False
    show ?thesis
    proof (cases "MAX_TOTAL \<le> length (wk_edges s')")
      case True
      with Suc.prems(3) show ?thesis unfolding final by simp
    next
      case under: False
      with False final have eq: "?final = walk_levels rels (Suc left) (Suc depth) (wk_next s') s'"
        by simp
      have seen_s': "set (wk_seen_nodes s') = insert subject (\<Union> (endpoints ` set (wk_edges s')))"
        using inv' by (simp add: walk_inv_def)
      have "set (wk_edges (walk_levels rels (Suc left) (Suc depth) (wk_next s') s')) =
          neighbourhood rels subject (Suc i + left)"
      proof (rule Suc.IH [OF inv'])
        show "\<not> wk_truncated (walk_levels rels (Suc left) (Suc depth) (wk_next s') s')"
          using Suc.prems(2) unfolding eq .
        show "length (wk_edges (walk_levels rels (Suc left) (Suc depth) (wk_next s') s')) < MAX_TOTAL"
          using Suc.prems(3) unfolding eq .
        show "\<forall>n\<in>set (wk_seen_nodes s'). n \<in> set (wk_next s') \<or> expanded rels s' n"
          using seen' all_expanded by blast
        show "within rels subject (Suc i) \<subseteq> set (wk_seen_nodes s')"
        proof -
          have "set (wk_edges s) \<subseteq> set (wk_edges s')"
            using edges_expand_mono [of "s\<lparr>wk_next := []\<rparr>"] by (simp add: s')
          with Suc.prems(1,5) have "within rels subject i \<subseteq> set (wk_seen_nodes s')"
            unfolding seen_s' walk_inv_def by blast
          moreover have "m \<in> set (wk_seen_nodes s')"
            if "n \<in> within rels subject i" "r \<in> set rels" "fst n \<noteq> ''unknown''"
              "n \<in> endpoints r" "m \<in> endpoints r" for m n r
          proof -
            from that lower have "r \<in> set (wk_edges s')" unfolding neighbourhood_def by blast
            with that(5) show ?thesis unfolding seen_s' by blast
          qed
          ultimately show ?thesis by auto
        qed
        have "set (wk_seen_nodes s') \<subseteq> within rels subject (Suc i)"
          using upper within_mono [of 0 "Suc i" rels subject] unfolding seen_s' neighbourhood_def
          by auto
        then show "set (wk_next s') \<subseteq> within rels subject (Suc i)"
          using next_seen_expand [of "s\<lparr>wk_next := []\<rparr>" rels depth frontier] by (auto simp: s')
        show "set (wk_edges s') \<subseteq> neighbourhood rels subject (Suc i)"
          using upper neighbourhood_mono [of i "Suc i" rels subject] by auto
      qed
      then show ?thesis unfolding eq by simp
    qed
  qed
qed


section \<open>The traversal\<close>

lemma relation_in_force:
  "r \<in> set (current_relations d) \<Longrightarrow> \<exists>origin. (r, origin) \<in> set (relation_assertions d)"
  by (auto simp: current_relations_def dest!: distinct_on_subset)

lemma current_relations_inj: "inj_on relation_key (set (current_relations d))"
  using distinct_on_inj [of "\<lambda>(r, _). relation_key r"]
  unfolding current_relations_def by (fastforce simp: inj_on_def)

lemma clamp_depth_bounds: "1 \<le> clamp_depth depth" "clamp_depth depth \<le> MAX_DEPTH"
  by (auto simp: clamp_depth_def MAX_DEPTH_def)

lemma traverse_walk:
  obtains s where
    "s = walk_levels (current_relations d) (clamp_depth depth) 1 [subject] (walk_start subject)"
    "walk_inv (current_relations d) subject s"
    "tv_edges (traverse d subject depth) = wk_edges s"
    "tv_is_truncated (traverse d subject depth) = wk_truncated s"
    "tv_node_standing (traverse d subject depth) =
       map (\<lambda>n. (fst n @ '':'' @ snd n, node_standing d n)) (wk_seen_nodes s)"
    "tv_total_edges_discovered (traverse d subject depth) = length (wk_edges s)"
  using walk_inv_levels [OF walk_inv_start]
  by (simp add: traverse_def Let_def)

lemma traverse_whole:
  assumes "\<not> tv_is_truncated (traverse d subject depth)"
    and "tv_total_edges_discovered (traverse d subject depth) < MAX_TOTAL"
  shows "set (tv_edges (traverse d subject depth)) =
    neighbourhood (current_relations d) subject (clamp_depth depth - 1)"
proof -
  obtain left where left: "clamp_depth depth = Suc left"
    using clamp_depth_bounds(1) [of depth] by (cases "clamp_depth depth") auto
  obtain s where s:
    "s = walk_levels (current_relations d) (Suc left) 1 [subject] (walk_start subject)"
    "tv_edges (traverse d subject depth) = wk_edges s"
    "tv_is_truncated (traverse d subject depth) = wk_truncated s"
    "tv_total_edges_discovered (traverse d subject depth) = length (wk_edges s)"
    by (rule traverse_walk [of d depth subject]) (simp_all add: left)
  have "set (wk_edges s) = neighbourhood (current_relations d) subject (0 + left)"
    unfolding s(1)
    by (rule levels_complete [OF current_relations_inj walk_inv_start])
      (use assms in \<open>simp_all only: s(3,4) s(1)\<close>, simp_all add: walk_start_def)
  then show ?thesis by (simp add: s(2) left)
qed

lemma traverse_caps:
  "length (tv_edges (traverse d subject depth)) \<le> MAX_TOTAL"
  "distinct (map relation_key (tv_edges (traverse d subject depth)))"
  "set (tv_edges (traverse d subject depth)) \<subseteq> set (current_relations d)"
  by (rule traverse_walk [of d depth subject]; simp add: walk_inv_def)+

lemma traverse_standing:
  "set (tv_node_standing (traverse d subject depth)) =
     (\<lambda>n. (fst n @ '':'' @ snd n, node_standing d n)) `
       insert subject (\<Union> (endpoints ` set (tv_edges (traverse d subject depth))))"
  by (rule traverse_walk [of d depth subject]) (simp add: walk_inv_def)

text \<open>The standing of a node is one of the four words of the closed vocabulary.\<close>

lemma node_standing_vocabulary:
  "node_standing d n \<in> {''current'', ''superseded'', ''retired'', ''unknown''}"
  by (auto simp: node_standing_def split: prod.split option.split)

end
