(* ===== verification/Console_Rollup.thy ===== *)
theory Console_Rollup
  imports Relations
begin

text \<open>
  \<^verbatim>\<open>kawa/projections/console_rollup.py\<close> and \<^verbatim>\<open>kawa/projections/facet_registry.py\<close>: the refresh
  reducers of the console, which recompute their tables from the log and the other projections,
  and the last step of \<^verbatim>\<open>rebuild\<close>, which runs them.  The tables are a record of their own;
  each statement that PostgreSQL would refuse (a cast, a check constraint of \<^verbatim>\<open>sql/0021\<close> or
  \<^verbatim>\<open>sql/0023\<close>) is an error.

  What the tables of \<^verbatim>\<open>Store\<close> do not hold is an argument: \<open>ra\<close>, the \<open>recorded_at\<close> of an event;
  \<open>upd\<close>, the latest \<open>updated_at\<close> of a table; \<open>now\<close>, the clock of the database; and \<open>tz\<close>, its input
  function for \<open>timestamptz\<close>.  Texts are ordered by code point (the collation of these two queries
  is the database's).

  Shown: a facet row is the latest measurement of its node, predicate and qualifier; a node's
  reachability is measured exactly when a probe is labelled with it; the roll-up has its five rows,
  its counts and its states; exactly when a refresh fails (\<open>refreshable\<close>) and what then happens to
  \<open>rebuild\<close>.
\<close>

section \<open>The registry of predicates\<close>

record facet =
  fc_value_column :: string
  fc_unit :: "string option"
  fc_qualifier_kind :: string
  fc_method :: string

definition mk_facet :: "string \<Rightarrow> string option \<Rightarrow> string \<Rightarrow> string \<Rightarrow> facet" where
  "mk_facet v u q m =
     \<lparr>fc_value_column = v, fc_unit = u, fc_qualifier_kind = q, fc_method = m\<rparr>"

definition REGISTRY :: "(string \<times> facet) list" where
  "REGISTRY =
     [(''node_cpu_load1'', mk_facet ''value_number'' (Some ''load'') ''none'' ''metric_read''),
      (''node_cpu_cores'', mk_facet ''value_number'' (Some ''count'') ''none'' ''metric_read''),
      (''node_mem_total_bytes'', mk_facet ''value_number'' (Some ''bytes'') ''none'' ''metric_read''),
      (''node_mem_available_bytes'', mk_facet ''value_number'' (Some ''bytes'') ''none'' ''metric_read''),
      (''node_disk_total_bytes'', mk_facet ''value_number'' (Some ''bytes'') ''mount'' ''command_exit''),
      (''node_disk_free_bytes'', mk_facet ''value_number'' (Some ''bytes'') ''mount'' ''command_exit''),
      (''node_gpu_model'', mk_facet ''value_text'' None ''gpu'' ''command_exit''),
      (''node_gpu_vram_total_bytes'', mk_facet ''value_number'' (Some ''bytes'') ''gpu'' ''command_exit''),
      (''node_gpu_vram_used_bytes'', mk_facet ''value_number'' (Some ''bytes'') ''gpu'' ''command_exit''),
      (''node_reachable'', mk_facet ''value_bool'' None ''label'' ''http_probe'')]"

definition facet_registered :: "string \<Rightarrow> bool" where
  "facet_registered p \<longleftrightarrow> p \<in> set (map fst REGISTRY)"

definition unit_of :: "string \<Rightarrow> string option" where
  "unit_of p = (case map_of REGISTRY p of Some f \<Rightarrow> fc_unit f | None \<Rightarrow> None)"

section \<open>The tables\<close>

record facet_row =
  fr_node_ref :: string
  fr_predicate :: string
  fr_qualifier :: string
  fr_value_number :: "string option"
  fr_value_text :: "string option"
  fr_value_bool :: "bool option"
  fr_unit :: "string option"
  fr_occurred_at :: string
  fr_fetched_at :: string
  fr_source_ref :: string
  fr_source_event_id :: string

record fleet_row =
  fn_node_ref :: string
  fn_reachability :: string
  fn_reachability_source :: "string option"
  fn_reachability_as_of :: "int option"
  fn_workload :: string
  fn_workload_as_of :: "int option"
  fn_replication :: string
  fn_replication_lag :: "int option"
  fn_replication_as_of :: "int option"
  fn_last_origin_seq :: int
  fn_last_event_at :: int

record rollup_row =
  ru_dimension :: string
  ru_state :: string
  ru_gap :: "string option"
  ru_count_total :: "nat option"
  ru_count_nongreen :: "nat option"
  ru_residue :: "string option"
  ru_source_projection :: string
  ru_as_of :: int

record provenance_row =
  pv_link_event_id :: string
  pv_source_ref :: string
  pv_relation :: relation
  pv_target_ref :: string
  pv_provenance :: string
  pv_recorded_at :: int
  pv_actor_ref :: string
  pv_source_kind :: "event_kind option"
  pv_target_kind :: "event_kind option"

record projection_row =
  pj_name :: string
  pj_last_event_id :: "string option"
  pj_last_recorded_at :: "int option"
  pj_state :: string

record console =
  fleet_node_facet :: "facet_row list"
  fleet_node :: "fleet_row list"
  evidence_provenance :: "provenance_row list"
  projection_state :: "projection_row list"
  situation_rollup :: "rollup_row list"

section \<open>Facets\<close>

text \<open>
  \<^verbatim>\<open>substring(source_revision FROM 'qualifier=(.*)$')\<close>: what follows the first occurrence of the
  marker, to the end of the text.
\<close>

fun after_qualifier :: "string \<Rightarrow> string option" where
  "after_qualifier [] = None"
| "after_qualifier (c # t) =
     (if startswith (c # t) ''qualifier='' then Some (drop 10 (c # t)) else after_qualifier t)"

definition facet_qualifier :: "observation_recorded \<Rightarrow> string" where
  "facet_qualifier x =
     (case ob_source_revision x of
        None \<Rightarrow> []
      | Some t \<Rightarrow> (case after_qualifier t of None \<Rightarrow> [] | Some q \<Rightarrow> q))"

definition facet_candidates :: "db \<Rightarrow> (event_row \<times> observation_recorded) list" where
  "facet_candidates d =
     joined d (event_observation d)
       (\<lambda>r x. facet_registered (ob_predicate x) \<and> ob_occurred_at x \<noteq> None \<and> ob_fetched_at x \<noteq> None \<and>
          ob_source_ref x \<noteq> None)"

definition facet_group :: "event_row \<times> observation_recorded \<Rightarrow> string \<times> string \<times> string" where
  "facet_group = (\<lambda>(r, x). (origin_node r, ob_predicate x, facet_qualifier x))"

definition facet_order ::
    "(string \<Rightarrow> int option) \<Rightarrow> event_row \<times> observation_recorded \<Rightarrow> int \<times> int \<times> int" where
  "facet_order tz =
     (\<lambda>(r, x). (the (tz (the (ob_occurred_at x))), the (tz (the (ob_fetched_at x))), origin_seq r))"

definition casts :: "(string \<Rightarrow> int option) \<Rightarrow> event_row \<times> observation_recorded \<Rightarrow> bool" where
  "casts tz =
     (\<lambda>(r, x). tz (the (ob_occurred_at x)) \<noteq> None \<and> tz (the (ob_fetched_at x)) \<noteq> None)"

definition facet_row_of :: "event_row \<times> observation_recorded \<Rightarrow> facet_row" where
  "facet_row_of =
     (\<lambda>(r, x). \<lparr>fr_node_ref = origin_node r, fr_predicate = ob_predicate x,
        fr_qualifier = facet_qualifier x, fr_value_number = ob_value_number x,
        fr_value_text = ob_value_text x, fr_value_bool = ob_value_bool x,
        fr_unit = unit_of (ob_predicate x), fr_occurred_at = the (ob_occurred_at x),
        fr_fetched_at = the (ob_fetched_at x), fr_source_ref = the (ob_source_ref x),
        fr_source_event_id = event_id r\<rparr>)"

text \<open>\<^verbatim>\<open>CHECK (num_nonnulls(value_number, value_text, value_bool) = 1)\<close>.\<close>

definition one_value :: "facet_row \<Rightarrow> bool" where
  "one_value f \<longleftrightarrow>
     (if fr_value_number f \<noteq> None then 1 else 0) + (if fr_value_text f \<noteq> None then 1 else 0)
       + (if fr_value_bool f \<noteq> None then 1 else (0 :: nat)) = 1"

definition refresh_fleet_node_facet ::
    "(string \<Rightarrow> int option) \<Rightarrow> db \<Rightarrow> console \<Rightarrow> console result" where
  "refresh_fleet_node_facet tz d c =
     (if \<not> list_all (casts tz) (facet_candidates d) then Inl (DataError ''timestamptz'')
      else
        (let rows = map facet_row_of
               (distinct_on facet_group (facet_order tz) (facet_candidates d))
         in if \<not> list_all one_value rows then Inl (IntegrityError ''fleet_node_facet'')
            else Inr (c\<lparr>fleet_node_facet := rows\<rparr>)))"

section \<open>Nodes\<close>

definition node_rows :: "db \<Rightarrow> string \<Rightarrow> event_row list" where
  "node_rows d n = filter (\<lambda>r. origin_node r = n) (events d)"

definition fresh_fleet_row :: "(event_row \<Rightarrow> int) \<Rightarrow> db \<Rightarrow> string \<Rightarrow> fleet_row" where
  "fresh_fleet_row ra d n =
     \<lparr>fn_node_ref = n, fn_reachability = ''UNKNOWN'', fn_reachability_source = None,
      fn_reachability_as_of = None, fn_workload = ''UNKNOWN'', fn_workload_as_of = None,
      fn_replication = ''UNKNOWN'', fn_replication_lag = None, fn_replication_as_of = None,
      fn_last_origin_seq = Max (set (map origin_seq (node_rows d n))),
      fn_last_event_at = Max (set (map ra (node_rows d n)))\<rparr>"

definition probe_order ::
    "(string \<Rightarrow> int option) \<Rightarrow> facet_row \<Rightarrow> int \<times> int \<times> string \<times> string" where
  "probe_order tz f =
     (the (tz (fr_occurred_at f)), the (tz (fr_fetched_at f)), fr_node_ref f, fr_source_event_id f)"

definition latest_probe :: "(string \<Rightarrow> int option) \<Rightarrow> console \<Rightarrow> string \<Rightarrow> facet_row option" where
  "latest_probe tz c n =
     List.find (\<lambda>f. fr_qualifier f = n)
       (distinct_on fr_qualifier (probe_order tz)
         (filter (\<lambda>f. fr_predicate f = ''node_reachable'') (fleet_node_facet c)))"

definition probed :: "(string \<Rightarrow> int option) \<Rightarrow> console \<Rightarrow> fleet_row \<Rightarrow> fleet_row" where
  "probed tz c r =
     (case latest_probe tz c (fn_node_ref r) of
        None \<Rightarrow> r
      | Some f \<Rightarrow>
          r\<lparr>fn_reachability := (if fr_value_bool f = Some True then ''OK'' else ''CRIT''),
            fn_reachability_source := Some (''observation:node_reachable label='' @ fr_qualifier f),
            fn_reachability_as_of := tz (fr_occurred_at f)\<rparr>)"

text \<open>The check constraints of \<open>fleet_node\<close>.\<close>

definition fleet_row_ok :: "fleet_row \<Rightarrow> bool" where
  "fleet_row_ok r \<longleftrightarrow>
     fn_reachability r \<in> {''OK'', ''CRIT'', ''UNKNOWN''} \<and>
     (fn_reachability r = ''UNKNOWN'') = (fn_reachability_source r = None) \<and>
     (fn_reachability r = ''UNKNOWN'' \<or> fn_reachability_as_of r \<noteq> None) \<and>
     fn_workload r \<in> {''OK'', ''ATTENTION'', ''CRIT'', ''UNKNOWN''} \<and>
     (fn_workload r = ''UNKNOWN'' \<or> fn_workload_as_of r \<noteq> None) \<and>
     fn_replication r \<in> {''CURRENT'', ''LAGGING'', ''UNKNOWN''} \<and>
     (case fn_replication_lag r of Some n \<Rightarrow> 0 < n | None \<Rightarrow> True) \<and>
     (fn_replication r = ''LAGGING'') = (fn_replication_lag r \<noteq> None) \<and>
     (fn_replication r = ''UNKNOWN'' \<or> fn_replication_as_of r \<noteq> None)"

definition fleet_rows ::
    "(string \<Rightarrow> int option) \<Rightarrow> (event_row \<Rightarrow> int) \<Rightarrow> db \<Rightarrow> console \<Rightarrow> fleet_row list" where
  "fleet_rows tz ra d c = map (probed tz c \<circ> fresh_fleet_row ra d) (remdups (map origin_node (events d)))"

definition refresh_fleet_node ::
    "(string \<Rightarrow> int option) \<Rightarrow> (event_row \<Rightarrow> int) \<Rightarrow> db \<Rightarrow> console \<Rightarrow> console result" where
  "refresh_fleet_node tz ra d c =
     (let rows = fleet_rows tz ra d c
      in if list_all fleet_row_ok rows then Inr (c\<lparr>fleet_node := rows\<rparr>)
         else Inl (IntegrityError ''fleet_node''))"

section \<open>Provenance and registration\<close>

text \<open>The check constraints of \<open>evidence_provenance\<close>.\<close>

definition provenance_row_ok :: "provenance_row \<Rightarrow> bool" where
  "provenance_row_ok r \<longleftrightarrow>
     relation_text (pv_relation r) \<in> {''supports'', ''contradicts'', ''based_on'', ''reason_for'',
       ''addresses'', ''reviews'', ''corrects'', ''resolves'', ''supersedes'', ''caused_by'', ''satisfies''} \<and>
     pv_provenance r = ''event_derived''"

definition provenance_rows :: "(event_row \<Rightarrow> int) \<Rightarrow> db \<Rightarrow> provenance_row list" where
  "provenance_rows ra d = map (\<lambda>(e, l).
         \<lparr>pv_link_event_id = event_id e, pv_source_ref = la_source_ref l,
          pv_relation = la_relation l, pv_target_ref = la_target_ref l,
          pv_provenance = ''event_derived'', pv_recorded_at = ra e, pv_actor_ref = actor_ref e,
          pv_source_kind = map_option kind (find_event d (la_source_ref l)),
          pv_target_kind = map_option kind (find_event d (la_target_ref l))\<rparr>)
         (joined d (event_link d) (\<lambda>_ _. True))"

definition refresh_evidence_provenance :: "(event_row \<Rightarrow> int) \<Rightarrow> db \<Rightarrow> console \<Rightarrow> console result" where
  "refresh_evidence_provenance ra d c =
     (if list_all provenance_row_ok (provenance_rows ra d)
      then Inr (c\<lparr>evidence_provenance := provenance_rows ra d\<rparr>)
      else Inl (IntegrityError ''evidence_provenance''))"

definition last_recorded :: "(event_row \<Rightarrow> int) \<Rightarrow> db \<Rightarrow> event_row option" where
  "last_recorded ra d = latest_by (\<lambda>e. (ra e, event_id e)) (events d)"

definition register_one ::
    "(event_row \<Rightarrow> int) \<Rightarrow> db \<Rightarrow> string \<Rightarrow> projection_row list \<Rightarrow> projection_row list" where
  "register_one ra d name rows =
     (let upserted =
        (case last_recorded ra d of
           None \<Rightarrow> rows
         | Some e \<Rightarrow>
             (let row = \<lparr>pj_name = name, pj_last_event_id = Some (event_id e),
                         pj_last_recorded_at = Some (ra e), pj_state = ''current''\<rparr>
              in if name \<in> set (map pj_name rows)
                 then map (\<lambda>p. if pj_name p = name then row else p) rows
                 else rows @ [row]))
      in if name \<in> set (map pj_name upserted) then upserted
         else upserted @ [\<lparr>pj_name = name, pj_last_event_id = None, pj_last_recorded_at = None,
                           pj_state = ''current''\<rparr>])"

definition register_projection_state :: "(event_row \<Rightarrow> int) \<Rightarrow> db \<Rightarrow> console \<Rightarrow> console" where
  "register_projection_state ra d c =
     c\<lparr>projection_state := fold (register_one ra d)
         [''fleet_node'', ''situation_rollup'', ''evidence_provenance'', ''fleet_node_facet'']
         (projection_state c)\<rparr>"

section \<open>The roll-up\<close>

definition residue :: "string list \<Rightarrow> string option" where
  "residue refs =
     (if refs = [] then None
      else (let listed = join '', '' (take 10 refs) in
            Some (if length refs \<le> 10 then listed
                  else listed @ '' (+'' @ nat_str (length refs - 10) @ '' more)'')))"

text \<open>The rows of two projections, as the queries list them.\<close>

definition work_list :: "db \<Rightarrow> (string \<times> execution) list" where
  "work_list d =
     List.map_filter (\<lambda>w. map_option (\<lambda>row. (w, cw_execution row)) (current_work d w))
       (remdups (map (wd_work_ref \<circ> snd) (event_work d)))"

definition standing_list :: "db \<Rightarrow> (string \<times> claim_standing) list" where
  "standing_list d =
     List.map_filter (\<lambda>c. map_option (\<lambda>row. (c, fst row)) (current_claim_standing d c))
       (remdups (claim_ids d))"

definition counted_row ::
    "string \<Rightarrow> string \<Rightarrow> string option \<Rightarrow> nat \<Rightarrow> string list \<Rightarrow> string \<Rightarrow> int \<Rightarrow> rollup_row" where
  "counted_row dimension state gap n nongreen source as_of =
     \<lparr>ru_dimension = dimension, ru_state = state, ru_gap = gap, ru_count_total = Some n,
      ru_count_nongreen = Some (length nongreen), ru_residue = residue nongreen,
      ru_source_projection = source, ru_as_of = as_of\<rparr>"

definition authority_card :: "int \<Rightarrow> rollup_row" where
  "authority_card now =
     \<lparr>ru_dimension = ''AUTHORITY'', ru_state = ''INCOMPLETE'',
      ru_gap = Some ''verifier read-model absent (phase 2+)'', ru_count_total = None,
      ru_count_nongreen = None, ru_residue = None, ru_source_projection = ''none (deferred)'',
      ru_as_of = now\<rparr>"

definition as_of_table :: "(string \<Rightarrow> int option) \<Rightarrow> int \<Rightarrow> string \<Rightarrow> int" where
  "as_of_table upd now table = (case upd table of Some t \<Rightarrow> t | None \<Rightarrow> now)"

text \<open>What each measured card lists as not green.\<close>

definition stuck_works :: "db \<Rightarrow> string list" where
  "stuck_works d = map fst (filter (\<lambda>r. snd r \<in> {Ex_blocked, Ex_retryable, Ex_unknown}) (work_list d))"

definition disputed_claims :: "db \<Rightarrow> string list" where
  "disputed_claims d = map (take 24 \<circ> fst) (filter (\<lambda>r. snd r \<in> {Contradicted, Contested}) (standing_list d))"

definition stale_projections :: "console \<Rightarrow> string list" where
  "stale_projections c = map pj_name (filter (\<lambda>r. pj_state r \<noteq> ''current'') (projection_state c))"

definition unhealthy :: "fleet_row \<Rightarrow> bool" where
  "unhealthy r \<longleftrightarrow> fn_reachability r = ''CRIT'' \<or> fn_workload r \<in> {''ATTENTION'', ''CRIT''} \<or>
     fn_replication r = ''LAGGING''"

definition bad_nodes :: "console \<Rightarrow> string list" where
  "bad_nodes c = map fn_node_ref (filter unhealthy (fleet_node c))"

definition execution_card :: "(string \<Rightarrow> int option) \<Rightarrow> int \<Rightarrow> db \<Rightarrow> rollup_row" where
  "execution_card upd now d =
     (let rows = work_list d; nongreen = stuck_works d
      in counted_row ''EXECUTION'' (if nongreen \<noteq> [] then ''ATTENTION'' else ''OK'') None (length rows)
           nongreen ''current_work'' (as_of_table upd now ''current_work''))"

definition epistemic_card :: "(string \<Rightarrow> int option) \<Rightarrow> int \<Rightarrow> db \<Rightarrow> rollup_row" where
  "epistemic_card upd now d =
     (let rows = standing_list d; nongreen = disputed_claims d
      in counted_row ''EPISTEMIC'' (if nongreen \<noteq> [] then ''ATTENTION'' else ''OK'') None (length rows)
           nongreen ''current_claim_standing'' (as_of_table upd now ''current_claim_standing''))"

definition health_card :: "(string \<Rightarrow> int option) \<Rightarrow> int \<Rightarrow> console \<Rightarrow> rollup_row" where
  "health_card upd now c =
     (let rows = fleet_node c;
          bad = bad_nodes c;
          measured = list_ex (\<lambda>r. fn_reachability r \<noteq> ''UNKNOWN'' \<or> fn_workload r \<noteq> ''UNKNOWN'' \<or>
                        fn_replication r \<noteq> ''UNKNOWN'') rows;
          state = (if bad \<noteq> [] then
                     (if list_ex (\<lambda>r. fn_node_ref r \<in> set bad \<and> fn_reachability r = ''CRIT'') rows
                      then ''CRIT'' else ''ATTENTION'')
                   else if rows = [] \<or> \<not> measured then ''UNKNOWN'' else ''OK'')
      in counted_row ''HEALTH_REACH'' state None (length rows) bad ''fleet_node''
           (as_of_table upd now ''fleet_node''))"

definition freshness_card :: "(string \<Rightarrow> int option) \<Rightarrow> int \<Rightarrow> console \<Rightarrow> rollup_row" where
  "freshness_card upd now c =
     (let rows = projection_state c; nongreen = stale_projections c
      in counted_row ''PROJECTION_FRESHNESS'' ''INCOMPLETE''
           (Some ''core projections do not report state yet (only fleet_node, situation_rollup register)'')
           (length rows) nongreen ''projection_state'' (as_of_table upd now ''projection_state''))"

text \<open>The check constraints of \<open>situation_rollup\<close>.\<close>

definition rollup_row_ok :: "rollup_row \<Rightarrow> bool" where
  "rollup_row_ok r \<longleftrightarrow>
     ru_dimension r \<in> {''AUTHORITY'', ''EXECUTION'', ''EPISTEMIC'', ''HEALTH_REACH'', ''PROJECTION_FRESHNESS''} \<and>
     ru_state r \<in> {''OK'', ''ATTENTION'', ''CRIT'', ''UNKNOWN'', ''INCOMPLETE''} \<and>
     (ru_state r = ''INCOMPLETE'' \<longrightarrow> ru_gap r \<noteq> None \<and> ru_gap r \<noteq> Some []) \<and>
     (ru_gap r \<noteq> None \<longrightarrow> ru_state r = ''INCOMPLETE'') \<and>
     (case (ru_count_nongreen r, ru_count_total r) of
        (Some n, Some t) \<Rightarrow> n \<le> t | _ \<Rightarrow> True) \<and>
     ru_residue r \<noteq> Some [] \<and>
     (case ru_count_nongreen r of
        Some n \<Rightarrow> n = 0 \<or> ru_residue r \<noteq> None | None \<Rightarrow> True)"

definition refresh_situation_rollup ::
    "(string \<Rightarrow> int option) \<Rightarrow> int \<Rightarrow> db \<Rightarrow> console \<Rightarrow> console result" where
  "refresh_situation_rollup upd now d c =
     (let rows = [authority_card now, execution_card upd now d, epistemic_card upd now d,
                  health_card upd now c, freshness_card upd now c]
      in if list_all rollup_row_ok rows then Inr (c\<lparr>situation_rollup := rows\<rparr>)
         else Inl (IntegrityError ''situation_rollup''))"

section \<open>The refresh\<close>

definition refresh_console_projections ::
    "bool \<Rightarrow> (string \<Rightarrow> int option) \<Rightarrow> (event_row \<Rightarrow> int) \<Rightarrow> (string \<Rightarrow> int option) \<Rightarrow> int \<Rightarrow> db \<Rightarrow>
     console \<Rightarrow> console result" where
  "refresh_console_projections autocommit tz ra upd now d c =
     (if autocommit then
        Inl (ValueError ''refresh_console_projections requires a transaction-owning connection'')
      else
        bind_result (refresh_fleet_node_facet tz d c) (\<lambda>c1.
          bind_result (refresh_fleet_node tz ra d c1) (\<lambda>c2.
            bind_result (refresh_evidence_provenance ra d c2) (\<lambda>c3.
              refresh_situation_rollup upd now d (register_projection_state ra d c3)))))"

text \<open>\<open>rebuild\<close> to its commit: the replay, then the refresh on the same transaction.\<close>

definition rebuild_commit ::
    "crypto \<Rightarrow> (string \<Rightarrow> int option) \<Rightarrow> (event_row \<Rightarrow> int) \<Rightarrow> (string \<Rightarrow> int option) \<Rightarrow> int \<Rightarrow>
     db \<times> console \<Rightarrow> ((db \<times> console) \<times> nat) result" where
  "rebuild_commit cr tz ra upd now = (\<lambda>(d, c).
     bind_result (rebuild cr now d) (\<lambda>(d', n).
       bind_result (refresh_console_projections False tz ra upd now d' c) (\<lambda>c'.
         Inr ((d', c'), n))))"


section \<open>What the facet table holds\<close>

lemma refresh_facets_ok:
  "refresh_fleet_node_facet tz d c = Inr c' \<longleftrightarrow>
     list_all (casts tz) (facet_candidates d) \<and>
     list_all one_value (map facet_row_of
       (distinct_on facet_group (facet_order tz) (facet_candidates d))) \<and>
     c' = c\<lparr>fleet_node_facet := map facet_row_of
       (distinct_on facet_group (facet_order tz) (facet_candidates d))\<rparr>"
  by (auto simp: refresh_fleet_node_facet_def Let_def)

lemma facet_row_group:
  "(fr_node_ref (facet_row_of x), fr_predicate (facet_row_of x), fr_qualifier (facet_row_of x)) =
     facet_group x"
  by (simp add: facet_row_of_def facet_group_def split: prod.split)

text \<open>The primary key holds: one row for a node, predicate and qualifier.\<close>

lemma facets_keyed:
  assumes "refresh_fleet_node_facet tz d c = Inr c'"
  shows "distinct (map (\<lambda>f. (fr_node_ref f, fr_predicate f, fr_qualifier f)) (fleet_node_facet c'))"
  using assms distinct_on_distinct [of facet_group "facet_order tz" "facet_candidates d"]
  by (simp add: refresh_facets_ok comp_def facet_row_group)

lemma facet_candidatesD:
  assumes "(r, x) \<in> set (facet_candidates d)"
  shows "find_event d (event_id r) = Some r" and "facet_registered (ob_predicate x)"
    and "\<exists>eid. (eid, x) \<in> set (event_observation d)"
  using assms by (auto simp: facet_candidates_def joined_mem dest: find_event_Some)

text \<open>Every row is the latest of the candidates of its key, and every candidate has a row.\<close>

lemma facet_row_latest:
  assumes "refresh_fleet_node_facet tz d c = Inr c'" and "f \<in> set (fleet_node_facet c')"
  shows "\<exists>x\<in>set (facet_candidates d). f = facet_row_of x \<and>
    (\<forall>y\<in>set (facet_candidates d). facet_group y = facet_group x \<longrightarrow> facet_order tz y \<le> facet_order tz x)"
proof -
  from assms obtain x where x: "x \<in> set (distinct_on facet_group (facet_order tz) (facet_candidates d))"
    "f = facet_row_of x"
    by (auto simp: refresh_facets_ok)
  with distinct_on_subset [OF x(1)] distinct_on_latest [OF x(1)] show ?thesis by blast
qed

lemma candidate_has_facet:
  assumes "refresh_fleet_node_facet tz d c = Inr c'" and "y \<in> set (facet_candidates d)"
  shows "\<exists>f\<in>set (fleet_node_facet c').
    (fr_node_ref f, fr_predicate f, fr_qualifier f) = facet_group y"
proof -
  obtain x where "x \<in> set (distinct_on facet_group (facet_order tz) (facet_candidates d))"
    "facet_group x = facet_group y"
    using distinct_on_some [OF assms(2)] by blast
  with assms(1) show ?thesis
    by (intro bexI [of _ "facet_row_of x"]) (auto simp: refresh_facets_ok facet_row_group)
qed

section \<open>When the refresh fails\<close>

text \<open>
  A measurement whose value is a time passes the gates of the event but has none of the three value
  columns, so while it is the latest of its key no refresh succeeds.
\<close>

lemma one_value_facet: "one_value (facet_row_of (r, x)) \<longleftrightarrow>
    (if ob_value_number x \<noteq> None then 1 else 0) + (if ob_value_text x \<noteq> None then 1 else 0)
       + (if ob_value_bool x \<noteq> None then 1 else (0 :: nat)) = 1"
  by (simp add: one_value_def facet_row_of_def)

lemma gated_one_value:
  assumes "observation_gates x"
  shows "one_value (facet_row_of (r, x)) \<longleftrightarrow> ob_value_time x = None"
  using assms unfolding one_value_facet observation_gates_def Let_def
  by (cases "ob_value_number x"; cases "ob_value_text x"; cases "ob_value_bool x";
      cases "ob_value_time x") simp_all

lemma time_value_fails:
  assumes "(r, x) \<in> set (facet_candidates d)" and "observation_gates x" and "ob_value_time x \<noteq> None"
    and "latest_by (facet_order tz)
      (filter (\<lambda>y. facet_group y = facet_group (r, x)) (facet_candidates d)) = Some (r, x)"
  shows "\<exists>e. refresh_fleet_node_facet tz d c = Inl e"
proof -
  have "(r, x) \<in> set (distinct_on facet_group (facet_order tz) (facet_candidates d))"
    using assms(4) by (simp add: in_distinct_on)
  moreover have "\<not> one_value (facet_row_of (r, x))" using assms(2,3) gated_one_value by simp
  ultimately have "\<not> list_all one_value
      (map facet_row_of (distinct_on facet_group (facet_order tz) (facet_candidates d)))"
    by (force simp: list_all_iff)
  then show ?thesis by (simp add: refresh_fleet_node_facet_def Let_def)
qed

text \<open>A registered measurement whose time is not a timestamp stops every later refresh.\<close>

lemma bad_time_fails:
  assumes "(r, x) \<in> set (facet_candidates d)" and "tz (the (ob_occurred_at x)) = None"
  shows "refresh_fleet_node_facet tz d c = Inl (DataError ''timestamptz'')"
proof -
  have "\<not> casts tz (r, x)" using assms(2) by (simp add: casts_def)
  with assms(1) show ?thesis by (auto simp: refresh_fleet_node_facet_def list_all_iff)
qed

lemma refresh_Inl: "refresh_fleet_node_facet tz d c = Inl e \<Longrightarrow>
    refresh_console_projections False tz ra upd now d c = Inl e"
  by (simp add: refresh_console_projections_def)

lemma rebuild_needs_refresh:
  assumes "rebuild cr now d = Inr (d', n)"
    and "refresh_console_projections False tz ra upd now d' c = Inl e"
  shows "rebuild_commit cr tz ra upd now (d, c) = Inl e"
  using assms by (simp add: rebuild_commit_def)

section \<open>Nodes\<close>

lemma probed_frame [simp]:
  "fn_node_ref (probed tz c r) = fn_node_ref r" "fn_workload (probed tz c r) = fn_workload r"
  "fn_replication (probed tz c r) = fn_replication r"
  "fn_last_origin_seq (probed tz c r) = fn_last_origin_seq r"
  by (simp_all add: probed_def split: option.split)

lemma latest_probe_Some:
  "latest_probe tz c n = Some f \<Longrightarrow>
     f \<in> set (fleet_node_facet c) \<and> fr_predicate f = ''node_reachable'' \<and> fr_qualifier f = n \<and>
     (\<forall>g\<in>set (fleet_node_facet c). fr_predicate g = ''node_reachable'' \<and> fr_qualifier g = n \<longrightarrow>
        probe_order tz g \<le> probe_order tz f)"
proof -
  assume "latest_probe tz c n = Some f"
  then have f: "f \<in> set (distinct_on fr_qualifier (probe_order tz)
      (filter (\<lambda>f. fr_predicate f = ''node_reachable'') (fleet_node_facet c)))"
    and n: "fr_qualifier f = n"
    unfolding latest_probe_def find_Some_iff by (auto intro: nth_mem)
  from distinct_on_subset [OF f] distinct_on_latest [OF f] n show ?thesis by auto
qed

lemma latest_probe_None:
  "latest_probe tz c n = None \<longleftrightarrow>
     (\<forall>f\<in>set (fleet_node_facet c). fr_predicate f = ''node_reachable'' \<longrightarrow> fr_qualifier f \<noteq> n)"
proof
  assume none: "latest_probe tz c n = None"
  show "\<forall>f\<in>set (fleet_node_facet c). fr_predicate f = ''node_reachable'' \<longrightarrow> fr_qualifier f \<noteq> n"
  proof (intro ballI impI)
    fix f assume "f \<in> set (fleet_node_facet c)" "fr_predicate f = ''node_reachable''"
    then have "f \<in> set (filter (\<lambda>f. fr_predicate f = ''node_reachable'') (fleet_node_facet c))" by simp
    from distinct_on_some [OF this, of fr_qualifier "probe_order tz"] none
    show "fr_qualifier f \<noteq> n" by (auto simp: latest_probe_def find_None_iff)
  qed
next
  assume none: "\<forall>f\<in>set (fleet_node_facet c). fr_predicate f = ''node_reachable'' \<longrightarrow> fr_qualifier f \<noteq> n"
  show "latest_probe tz c n = None"
  proof (cases "latest_probe tz c n")
    case (Some f)
    from latest_probe_Some [OF this] none show ?thesis by blast
  qed
qed

text \<open>
  A node's health is measured exactly when a probe carries its name, and then by the latest such
  probe, whoever probed.
\<close>

lemma reachability_measured:
  assumes "r \<in> set (fleet_rows tz ra d c)"
  shows "fn_reachability r =
    (case latest_probe tz c (fn_node_ref r) of
       None \<Rightarrow> ''UNKNOWN''
     | Some f \<Rightarrow> if fr_value_bool f = Some True then ''OK'' else ''CRIT'')"
  using assms
  by (auto simp: fleet_rows_def probed_def fresh_fleet_row_def split: option.splits)

lemma fleet_nodes_are_origins:
  "map fn_node_ref (fleet_rows tz ra d c) = remdups (map origin_node (events d))"
  by (simp add: fleet_rows_def comp_def fresh_fleet_row_def)

lemma last_seq_is_frontier:
  assumes "r \<in> set (fleet_rows tz ra d c)" and "e \<in> set (events d)"
    and "origin_node e = fn_node_ref r"
  shows "origin_seq e \<le> fn_last_origin_seq r"
  using assms
  by (auto simp: fleet_rows_def fresh_fleet_row_def node_rows_def intro!: Max_ge)

text \<open>A probe whose time is readable fills a row that its table accepts, and so does no probe.\<close>

lemma fleet_rows_ok:
  assumes "\<And>f. f \<in> set (fleet_node_facet c) \<Longrightarrow> tz (fr_occurred_at f) \<noteq> None"
  shows "list_all fleet_row_ok (fleet_rows tz ra d c)"
proof -
  have "fleet_row_ok (probed tz c (fresh_fleet_row ra d n))" for n
  proof (cases "latest_probe tz c n")
    case (Some f)
    with assms latest_probe_Some [OF Some] show ?thesis
      by (auto simp: probed_def fresh_fleet_row_def fleet_row_ok_def)
  qed (simp add: probed_def fresh_fleet_row_def fleet_row_ok_def)
  then show ?thesis by (simp add: fleet_rows_def list_all_iff)
qed

lemma provenance_rows_ok: "list_all provenance_row_ok (provenance_rows ra d)"
proof -
  have "relation_text t \<in> {''supports'', ''contradicts'', ''based_on'', ''reason_for'',
       ''addresses'', ''reviews'', ''corrects'', ''resolves'', ''supersedes'', ''caused_by'', ''satisfies''}" for t
    by (cases t) simp_all
  then show ?thesis by (auto simp: provenance_rows_def provenance_row_ok_def list_all_iff)
qed

section \<open>The roll-up\<close>

lemma residue_None [simp]: "residue refs = None \<longleftrightarrow> refs = []"
  by (simp add: residue_def Let_def)

lemma join_Nil: "join sep xs = [] \<Longrightarrow> sep \<noteq> [] \<Longrightarrow> xs = [] \<or> xs = [[]]"
  by (induction sep xs rule: join.induct) auto

lemma residue_Some_Nil: "residue refs = Some [] \<Longrightarrow> refs = [[]]"
proof -
  assume a: "residue refs = Some []"
  then have "refs \<noteq> []" "length refs \<le> 10" "join '', '' (take 10 refs) = []"
    by (auto simp: residue_def Let_def split: if_splits)
  then show "refs = [[]]" using join_Nil [of "'', ''" refs] by auto
qed

text \<open>The one list that a card cannot carry is the empty reference on its own.\<close>

lemma counted_row_ok:
  assumes "length nongreen \<le> n" and "(state = ''INCOMPLETE'') = (gap \<noteq> None)" and "gap \<noteq> Some []"
    and "dimension \<in> {''AUTHORITY'', ''EXECUTION'', ''EPISTEMIC'', ''HEALTH_REACH'', ''PROJECTION_FRESHNESS''}"
    and "state \<in> {''OK'', ''ATTENTION'', ''CRIT'', ''UNKNOWN'', ''INCOMPLETE''}"
  shows "rollup_row_ok (counted_row dimension state gap n nongreen source as_of) \<longleftrightarrow> nongreen \<noteq> [[]]"
proof -
  have "residue nongreen = Some [] \<longleftrightarrow> nongreen = [[]]"
    using residue_Some_Nil [of nongreen] by (auto simp: residue_def)
  with assms show ?thesis by (auto simp: rollup_row_ok_def counted_row_def)
qed

lemma cards_ok:
  "rollup_row_ok (authority_card now)"
  "rollup_row_ok (execution_card upd now d) \<longleftrightarrow> stuck_works d \<noteq> [[]]"
  "rollup_row_ok (epistemic_card upd now d) \<longleftrightarrow> disputed_claims d \<noteq> [[]]"
  "rollup_row_ok (health_card upd now c) \<longleftrightarrow> bad_nodes c \<noteq> [[]]"
  "rollup_row_ok (freshness_card upd now c) \<longleftrightarrow> stale_projections c \<noteq> [[]]"
proof -
  show "rollup_row_ok (authority_card now)" by (simp add: authority_card_def rollup_row_ok_def)
  show "rollup_row_ok (execution_card upd now d) \<longleftrightarrow> stuck_works d \<noteq> [[]]"
    unfolding execution_card_def Let_def by (rule counted_row_ok) (auto simp: stuck_works_def)
  show "rollup_row_ok (epistemic_card upd now d) \<longleftrightarrow> disputed_claims d \<noteq> [[]]"
    unfolding epistemic_card_def Let_def by (rule counted_row_ok) (auto simp: disputed_claims_def)
  show "rollup_row_ok (health_card upd now c) \<longleftrightarrow> bad_nodes c \<noteq> [[]]"
    unfolding health_card_def Let_def by (rule counted_row_ok) (auto simp: bad_nodes_def)
  show "rollup_row_ok (freshness_card upd now c) \<longleftrightarrow> stale_projections c \<noteq> [[]]"
    unfolding freshness_card_def Let_def by (rule counted_row_ok) (auto simp: stale_projections_def)
qed

lemma in_work_list: "(w, ex) \<in> set (work_list d) \<Longrightarrow>
    \<exists>row. current_work d w = Some row \<and> cw_execution row = ex"
  by (auto simp: work_list_def in_map_filter)

text \<open>In a projected database the list is the whole table.\<close>

lemma work_list_all:
  assumes "projected d" and "current_work d w = Some row"
  shows "(w, cw_execution row) \<in> set (work_list d)"
proof -
  have "latest_derive d w \<noteq> None"
    using fresh_worksD(1) [of d _ w row] assms by (auto simp: projected_def fresh_def)
  then obtain r x where "(r, x) \<in> set (joined d (event_work d) (\<lambda>r x. wd_work_ref x = w))"
    unfolding latest_derive_def latest_def
    by (cases "joined d (event_work d) (\<lambda>r x. wd_work_ref x = w)") auto
  then have "w \<in> set (map (wd_work_ref \<circ> snd) (event_work d))"
    by (force simp: joined_mem)
  with assms(2) show ?thesis by (force simp: work_list_def in_map_filter)
qed

lemma in_standing_list: "(q, st) \<in> set (standing_list d) \<Longrightarrow>
    \<exists>eid. current_claim_standing d q = Some (st, eid)"
  by (auto simp: standing_list_def in_map_filter)

text \<open>
  Exactly when a refresh succeeds: it owns its transaction, the database reads the times of every
  registered measurement, the latest of each key has exactly one of the three kinds of value, and the
  list of no card is the empty reference on its own.  The facets that the nodes read are the new ones.
\<close>

definition latest_facets :: "(string \<Rightarrow> int option) \<Rightarrow> db \<Rightarrow> facet_row list" where
  "latest_facets tz d = map facet_row_of (distinct_on facet_group (facet_order tz) (facet_candidates d))"

definition down_nodes :: "(string \<Rightarrow> int option) \<Rightarrow> db \<Rightarrow> console \<Rightarrow> string list" where
  "down_nodes tz d c = filter (\<lambda>n.
     case latest_probe tz (c\<lparr>fleet_node_facet := latest_facets tz d\<rparr>) n of
       Some f \<Rightarrow> fr_value_bool f \<noteq> Some True | None \<Rightarrow> False) (remdups (map origin_node (events d)))"

definition refreshable ::
    "bool \<Rightarrow> (string \<Rightarrow> int option) \<Rightarrow> (event_row \<Rightarrow> int) \<Rightarrow> db \<Rightarrow> console \<Rightarrow> bool" where
  "refreshable autocommit tz ra d c \<longleftrightarrow> \<not> autocommit \<and> list_all (casts tz) (facet_candidates d)
     \<and> list_all one_value (latest_facets tz d) \<and> stuck_works d \<noteq> [[]] \<and> disputed_claims d \<noteq> [[]]
     \<and> down_nodes tz d c \<noteq> [[]] \<and> stale_projections (register_projection_state ra d c) \<noteq> [[]]"

lemma bad_nodes_down:
  assumes "fleet_node c1 = fleet_rows tz ra d (c\<lparr>fleet_node_facet := latest_facets tz d\<rparr>)"
  shows "bad_nodes c1 = down_nodes tz d c"
proof -
  let ?c = "c\<lparr>fleet_node_facet := latest_facets tz d\<rparr>"
  have "unhealthy (probed tz ?c (fresh_fleet_row ra d n)) \<longleftrightarrow>
      (case latest_probe tz ?c n of Some f \<Rightarrow> fr_value_bool f \<noteq> Some True | None \<Rightarrow> False)" for n
    by (simp add: unhealthy_def probed_def fresh_fleet_row_def split: option.split)
  then show ?thesis
    by (simp add: bad_nodes_def assms fleet_rows_def down_nodes_def filter_map comp_def fresh_fleet_row_def)
qed

lemma latest_facets_cast:
  assumes "list_all (casts tz) (facet_candidates d)" and "f \<in> set (latest_facets tz d)"
  shows "tz (fr_occurred_at f) \<noteq> None"
proof -
  from assms(2) obtain x where x: "x \<in> set (distinct_on facet_group (facet_order tz) (facet_candidates d))"
    "f = facet_row_of x" by (auto simp: latest_facets_def)
  from assms(1) distinct_on_subset [OF x(1)] have "casts tz x" by (simp add: list_all_iff)
  then show ?thesis by (cases x) (simp add: x(2) facet_row_of_def casts_def)
qed

text \<open>The tables after a refresh that succeeds.\<close>

definition refreshed ::
    "(string \<Rightarrow> int option) \<Rightarrow> (event_row \<Rightarrow> int) \<Rightarrow> (string \<Rightarrow> int option) \<Rightarrow> int \<Rightarrow> db \<Rightarrow> console \<Rightarrow> console" where
  "refreshed tz ra upd now d c =
     (let c1 = c\<lparr>fleet_node_facet := latest_facets tz d\<rparr>;
          c2 = c1\<lparr>fleet_node := fleet_rows tz ra d c1\<rparr>;
          c3 = register_projection_state ra d (c2\<lparr>evidence_provenance := provenance_rows ra d\<rparr>)
      in c3\<lparr>situation_rollup := [authority_card now, execution_card upd now d, epistemic_card upd now d,
              health_card upd now c3, freshness_card upd now c3]\<rparr>)"

lemma refresh_exact:
  "refresh_console_projections ac tz ra upd now d c = Inr c' \<longleftrightarrow>
     refreshable ac tz ra d c \<and> c' = refreshed tz ra upd now d c"
proof (cases "\<not> ac \<and> list_all (casts tz) (facet_candidates d) \<and> list_all one_value (latest_facets tz d)")
  case False
  then show ?thesis
    by (auto simp: refresh_console_projections_def refresh_fleet_node_facet_def refreshable_def
        latest_facets_def Let_def)
next
  case True
  define c1 where "c1 = c\<lparr>fleet_node_facet := latest_facets tz d\<rparr>"
  define c2 where "c2 = c1\<lparr>fleet_node := fleet_rows tz ra d c1\<rparr>"
  define c3 where "c3 = register_projection_state ra d (c2\<lparr>evidence_provenance := provenance_rows ra d\<rparr>)"
  have 1: "refresh_fleet_node_facet tz d c = Inr c1"
    using True by (simp add: refresh_facets_ok c1_def latest_facets_def)
  have 2: "refresh_fleet_node tz ra d c1 = Inr c2"
  proof -
    have "list_all fleet_row_ok (fleet_rows tz ra d c1)"
      by (rule fleet_rows_ok, rule latest_facets_cast [where d = d]) (use True in \<open>simp_all add: c1_def\<close>)
    then show ?thesis by (simp add: refresh_fleet_node_def Let_def c2_def)
  qed
  have 3: "refresh_evidence_provenance ra d c2 = Inr (c2\<lparr>evidence_provenance := provenance_rows ra d\<rparr>)"
    by (simp add: refresh_evidence_provenance_def provenance_rows_ok)
  have bad: "bad_nodes c3 = down_nodes tz d c"
    by (rule bad_nodes_down [where ra = ra]) (simp add: c3_def c2_def c1_def register_projection_state_def)
  have stale: "stale_projections c3 = stale_projections (register_projection_state ra d c)"
    by (simp add: stale_projections_def c3_def c2_def c1_def register_projection_state_def)
  have "refreshed tz ra upd now d c = c3\<lparr>situation_rollup := [authority_card now, execution_card upd now d,
      epistemic_card upd now d, health_card upd now c3, freshness_card upd now c3]\<rparr>"
    by (simp add: refreshed_def Let_def c1_def c2_def c3_def)
  note full = this
  have run: "refresh_console_projections ac tz ra upd now d c = refresh_situation_rollup upd now d c3"
    using True by (simp add: refresh_console_projections_def 1 2 3 c3_def)
  have "refreshable ac tz ra d c \<longleftrightarrow> list_all rollup_row_ok [authority_card now, execution_card upd now d,
      epistemic_card upd now d, health_card upd now c3, freshness_card upd now c3]"
    using True by (simp add: refreshable_def cards_ok bad stale)
  then show ?thesis unfolding run full refresh_situation_rollup_def Let_def by (auto split: if_splits)
qed

text \<open>The five cards, and what the states of the measured ones mean.\<close>

lemma rollup_dimensions:
  assumes "refresh_situation_rollup upd now d c = Inr c'"
  shows "map ru_dimension (situation_rollup c') =
    [''AUTHORITY'', ''EXECUTION'', ''EPISTEMIC'', ''HEALTH_REACH'', ''PROJECTION_FRESHNESS'']"
  using assms
  by (auto simp: refresh_situation_rollup_def authority_card_def execution_card_def
      epistemic_card_def health_card_def freshness_card_def counted_row_def Let_def
      split: if_splits)

lemma execution_card_state:
  assumes "projected d"
  shows "ru_state (execution_card upd now d) = ''OK'' \<longleftrightarrow>
    (\<forall>w row. current_work d w = Some row \<longrightarrow>
       cw_execution row \<notin> {Ex_blocked, Ex_retryable, Ex_unknown})"
  using work_list_all [OF assms] in_work_list
  by (auto simp: execution_card_def counted_row_def Let_def stuck_works_def filter_empty_conv) fastforce+

text \<open>What a refresh that succeeds leaves in the tables.\<close>

lemma refreshed_tables:
  assumes "refreshable ac tz ra d c" and "c' = refreshed tz ra upd now d c"
  shows "distinct (map (\<lambda>f. (fr_node_ref f, fr_predicate f, fr_qualifier f)) (fleet_node_facet c'))"
    "list_all one_value (fleet_node_facet c')" "list_all fleet_row_ok (fleet_node c')"
    "map fn_node_ref (fleet_node c') = remdups (map origin_node (events d))"
    "list_all provenance_row_ok (evidence_provenance c')" "list_all rollup_row_ok (situation_rollup c')"
    "map ru_dimension (situation_rollup c') =
      [''AUTHORITY'', ''EXECUTION'', ''EPISTEMIC'', ''HEALTH_REACH'', ''PROJECTION_FRESHNESS'']"
proof -
  let ?c = "c\<lparr>fleet_node_facet := latest_facets tz d\<rparr>"
  from assms obtain c2 where c2: "refresh_fleet_node_facet tz d c = Inr ?c" "fleet_node_facet c' = fleet_node_facet ?c"
    by (simp add: refreshable_def refresh_facets_ok latest_facets_def refreshed_def register_projection_state_def
        Let_def list_all_iff)
  show "distinct (map (\<lambda>f. (fr_node_ref f, fr_predicate f, fr_qualifier f)) (fleet_node_facet c'))"
    using facets_keyed [OF c2(1)] c2(2) by simp
  show "list_all one_value (fleet_node_facet c')" using assms(1) c2(2) by (simp add: refreshable_def)
  have n: "fleet_node c' = fleet_rows tz ra d ?c"
    by (simp add: assms(2) refreshed_def register_projection_state_def Let_def)
  then show "map fn_node_ref (fleet_node c') = remdups (map origin_node (events d))"
    by (simp add: fleet_nodes_are_origins)
  show "list_all fleet_row_ok (fleet_node c')"
    unfolding n using assms(1) by (intro fleet_rows_ok latest_facets_cast) (simp_all add: refreshable_def)
  show "list_all provenance_row_ok (evidence_provenance c')"
    by (simp add: assms(2) refreshed_def register_projection_state_def Let_def provenance_rows_ok)
  from refresh_exact [of ac tz ra upd now d c c'] assms
  obtain c3 where "refresh_situation_rollup upd now d c3 = Inr c'"
    by (auto simp: refresh_console_projections_def split: if_splits)
  then show "list_all rollup_row_ok (situation_rollup c')" "map ru_dimension (situation_rollup c') =
      [''AUTHORITY'', ''EXECUTION'', ''EPISTEMIC'', ''HEALTH_REACH'', ''PROJECTION_FRESHNESS'']"
    by (auto simp: refresh_situation_rollup_def Let_def rollup_dimensions split: if_splits)
qed

end
