(* ===== verification/Runtime.thy ===== *)
theory Runtime
  imports Complex_Main Prelude "HOL-Library.AList"
begin

text \<open>
  \<^verbatim>\<open>kawa/runtime/\<close>: the vocabulary of the backend contract (\<^verbatim>\<open>contract.py\<close>), the cache of
  handles (\<^verbatim>\<open>handles.py\<close>), the choice of a backend (\<^verbatim>\<open>registry.py\<close>), the environment a
  launched agent gets (\<^verbatim>\<open>env_policy.py\<close>) and the wake cue (\<^verbatim>\<open>wake.py\<close>).

  A backend is a record of functions on the state \<open>'w\<close> of the machine, since what its calls do is
  decided by programs outside the repository; a call returns its value or the error class of the
  \<open>RuntimeBackendError\<close> it raises, and the new state.  A loader that cannot import its module is
  \<open>None\<close>.  The cache file is the value \<open>json.load\<close> reads from it; \<open>flock\<close> makes every section
  under \<open>locked()\<close> one step.

  Shown: an explicit choice is honoured or refused, \<open>auto\<close> takes the first that is available and
  loads nothing after it; nothing outside the two allowlists reaches an agent; an entry put in the
  cache is the one read back, and the other entries stay.
\<close>

section \<open>The contract\<close>

datatype presence = Present | Absent | Presence_unknown

datatype activity = Activity_active | Quiescent | Activity_blocked | Activity_unknown

datatype attention = Needed | Not_needed | Attention_unknown

datatype error_class =
    Binary_absent | Server_absent | Version_unsupported | Already_running | Runtime_not_ready
  | Blocked_at_launch | Wake_echo_missing | Launch_timeout | Inspect_failed | Terminate_failed
  | Malformed_response | Backend_refused

fun error_text :: "error_class \<Rightarrow> string" where
  "error_text Binary_absent = ''binary_absent''"
| "error_text Server_absent = ''server_absent''"
| "error_text Version_unsupported = ''version_unsupported''"
| "error_text Already_running = ''already_running''"
| "error_text Runtime_not_ready = ''runtime_not_ready''"
| "error_text Blocked_at_launch = ''blocked_at_launch''"
| "error_text Wake_echo_missing = ''wake_echo_missing''"
| "error_text Launch_timeout = ''launch_timeout''"
| "error_text Inspect_failed = ''inspect_failed''"
| "error_text Terminate_failed = ''terminate_failed''"
| "error_text Malformed_response = ''malformed_response''"
| "error_text Backend_refused = ''backend_refused''"

record runtime_handle =
  rh_backend :: string
  rh_token :: string

record runtime_observation =
  ro_backend :: string
  ro_handle_token :: string
  ro_presence :: presence
  ro_activity :: activity
  ro_attention :: attention

record launch_spec =
  ls_work_ref :: string
  ls_agent_kind :: string
  ls_cwd :: string

record backend_status =
  bs_available :: bool
  bs_reason :: string

type_synonym ('w, 'a) call = "'w \<Rightarrow> (error_class + 'a) \<times> 'w"

record 'w backend =
  bk_name :: string
  bk_detect :: "('w, backend_status) call"
  bk_launch :: "launch_spec \<Rightarrow> ('w, runtime_handle) call"
  bk_await_settled :: "runtime_handle \<Rightarrow> rat \<Rightarrow> ('w, runtime_observation) call"
  bk_wake :: "runtime_handle \<Rightarrow> string \<Rightarrow> ('w, unit) call"
  bk_inspect :: "runtime_handle \<Rightarrow> ('w, runtime_observation) call"
  bk_read_recent_output :: "runtime_handle \<Rightarrow> ('w, string) call"
  bk_terminate :: "runtime_handle \<Rightarrow> ('w, unit) call"

text \<open>
  The token both adapters mint for a Work, from \<open>sha\<close>, the hexadecimal text of its SHA-256.
\<close>

definition token_for :: "(string \<Rightarrow> string) \<Rightarrow> string \<Rightarrow> string" where
  "token_for sha work_ref = ''kawa-'' @ take 12 (sha work_ref)"

section \<open>The wake cue\<close>

definition WAKE_CUE :: string where
  "WAKE_CUE = ''Kawa work is available; pull current state with scripts/brief.py.''"

section \<open>The cache of handles\<close>

record handle_entry =
  he_backend :: string
  he_token :: string
  he_started_at :: string

text \<open>
  The value in the file: unreadable, not a dictionary, or the dictionary in its insertion order,
  where \<open>None\<close> is an entry that is not a dictionary (nor null).
\<close>

datatype handle_file =
    Unreadable
  | Not_a_dict
  | Entries "(string \<times> handle_entry option) list"

fun cache_load :: "handle_file \<Rightarrow> (string \<times> handle_entry option) list" where
  "cache_load (Entries es) = es"
| "cache_load _ = []"

definition cache_get :: "handle_file \<Rightarrow> string \<Rightarrow> handle_entry option" where
  "cache_get h work_ref = (case map_of (cache_load h) work_ref of Some e \<Rightarrow> e | None \<Rightarrow> None)"

definition cache_put :: "string \<Rightarrow> string \<Rightarrow> string \<Rightarrow> string \<Rightarrow> handle_file \<Rightarrow> handle_file" where
  "cache_put work_ref backend token started_at h =
     Entries (AList.update work_ref
       (Some \<lparr>he_backend = backend, he_token = token, he_started_at = started_at\<rparr>) (cache_load h))"

definition cache_drop :: "string \<Rightarrow> handle_file \<Rightarrow> handle_file" where
  "cache_drop work_ref h =
     (case map_of (cache_load h) work_ref of
        None \<Rightarrow> h
      | Some _ \<Rightarrow> Entries (AList.delete work_ref (cache_load h)))"

lemma cache_get_put:
  "cache_get (cache_put w b t s h) v =
     (if v = w then Some \<lparr>he_backend = b, he_token = t, he_started_at = s\<rparr> else cache_get h v)"
  by (simp add: cache_get_def cache_put_def update_conv)

lemma cache_get_drop: "cache_get (cache_drop w h) v = (if v = w then None else cache_get h v)"
  by (auto simp: cache_get_def cache_drop_def delete_conv split: option.split)

section \<open>Choosing a backend\<close>

definition AUTO_ORDER :: "string list" where
  "AUTO_ORDER = [''herdr'', ''tmux'']"

text \<open>
  The loaders that are registered: \<open>None\<close> is a name that is not, \<open>Some None\<close> a module that does not
  import.
\<close>

type_synonym 'w loaders = "string \<Rightarrow> 'w backend option option"

type_synonym probes = "(string \<times> backend_status) list"

record 'w selection =
  sel_backend :: "'w backend"
  sel_name :: string
  sel_reason :: string
  sel_probes :: probes

definition unavailable :: "string \<Rightarrow> backend_status" where
  "unavailable reason = \<lparr>bs_available = False, bs_reason = reason\<rparr>"

text \<open>
  Only a typed refusal (or an environmental failure, which the state-passing calls do not tell
  apart) is an answer.
\<close>

definition available ::
    "'w backend option \<Rightarrow> 'w \<Rightarrow> ('w backend option \<times> backend_status) \<times> 'w" where
  "available loaded w =
     (case loaded of
        None \<Rightarrow> ((None, unavailable ''binary_absent''), w)
      | Some b \<Rightarrow>
          (case bk_detect b w of
             (Inr status, w') \<Rightarrow> ((Some b, status), w')
           | (Inl _, w') \<Rightarrow> ((Some b, unavailable ''backend_refused''), w')))"

text \<open>A status that says available comes with its backend.\<close>

fun resolve_auto ::
    "'w loaders \<Rightarrow> string list \<Rightarrow> probes \<Rightarrow> 'w \<Rightarrow> (probes + 'w selection) \<times> 'w" where
  "resolve_auto loaders [] probes w = (Inl probes, w)"
| "resolve_auto loaders (name # names) probes w =
     (case loaders name of
        None \<Rightarrow> resolve_auto loaders names probes w
      | Some loaded \<Rightarrow>
          (case available loaded w of
             ((backend, status), w') \<Rightarrow>
               if bs_available status then
                 (Inr \<lparr>sel_backend = the backend, sel_name = name,
                       sel_reason = ''auto: first available of '' @
                         join '' > '' (map fst (probes @ [(name, status)])),
                       sel_probes = probes @ [(name, status)]\<rparr>, w')
               else resolve_auto loaders names (probes @ [(name, status)]) w'))"

text \<open>\<open>Inl\<close> is \<open>NoBackendAvailable\<close> with its probes.\<close>

definition resolve ::
    "'w loaders \<Rightarrow> string \<Rightarrow> 'w \<Rightarrow> (probes + 'w selection) \<times> 'w" where
  "resolve loaders requested w =
     (if requested \<noteq> ''auto'' then
        (case loaders requested of
           None \<Rightarrow> (Inl [], w)
         | Some loaded \<Rightarrow>
             (case available loaded w of
                ((backend, status), w') \<Rightarrow>
                  if \<not> bs_available status then (Inl [(requested, status)], w')
                  else (Inr \<lparr>sel_backend = the backend, sel_name = requested,
                            sel_reason = ''requested'', sel_probes = [(requested, status)]\<rparr>, w')))
      else resolve_auto loaders AUTO_ORDER [] w)"

definition for_teardown :: "'w loaders \<Rightarrow> string \<Rightarrow> probes + 'w backend" where
  "for_teardown loaders name =
     (case loaders name of
        None \<Rightarrow> Inl [(name, unavailable ''binary_absent'')]
      | Some None \<Rightarrow> Inl [(name, unavailable ''binary_absent'')]
      | Some (Some b) \<Rightarrow> Inr b)"

lemma available_loaded:
  "available loaded w = ((backend, status), w') \<Longrightarrow> bs_available status \<Longrightarrow>
     \<exists>b. loaded = Some b \<and> backend = Some b"
  by (auto simp: available_def unavailable_def split: option.splits prod.splits sum.splits)

text \<open>An explicit name is honoured or refused, never substituted.\<close>

lemma resolve_explicit:
  assumes "requested \<noteq> ''auto''" and "resolve loaders requested w = (Inr sel, w')"
  shows "sel_name sel = requested \<and> loaders requested = Some (Some (sel_backend sel))"
proof -
  from assms obtain loaded where l: "loaders requested = Some loaded"
    by (auto simp: resolve_def split: option.splits)
  obtain backend status w1 where a: "available loaded w = ((backend, status), w1)"
    by (metis surj_pair)
  with assms l have "bs_available status" by (auto simp: resolve_def split: if_splits)
  with available_loaded [OF a] assms l a show ?thesis by (auto simp: resolve_def)
qed

lemma resolve_auto_name:
  "resolve_auto loaders names probes w = (Inr sel, w') \<Longrightarrow>
     sel_name sel \<in> set names \<and> loaders (sel_name sel) = Some (Some (sel_backend sel))"
proof (induction names arbitrary: probes w)
  case (Cons name names)
  show ?case
  proof (cases "loaders name")
    case None
    with Cons show ?thesis by simp
  next
    case (Some loaded)
    obtain backend status w1 where a: "available loaded w = ((backend, status), w1)"
      by (metis surj_pair)
    show ?thesis
    proof (cases "bs_available status")
      case True
      with available_loaded [OF a] Cons.prems Some a show ?thesis by auto
    next
      case False
      with Cons Some a show ?thesis by simp
    qed
  qed
qed simp

text \<open>What comes after the winner is not loaded: the answer does not depend on it.\<close>

lemma resolve_auto_lazy:
  assumes "resolve_auto loaders names probes w = (Inr sel, w')"
    and "\<forall>n\<in>insert (sel_name sel) (set (takeWhile (\<lambda>n. n \<noteq> sel_name sel) names)).
      loaders' n = loaders n"
    and "distinct names"
  shows "resolve_auto loaders' names probes w = (Inr sel, w')"
  using assms
proof (induction names arbitrary: probes w)
  case (Cons name names)
  have same: "loaders' name = loaders name" using Cons.prems(2) by (cases "name = sel_name sel") auto
  have rest: "resolve_auto loaders' names ps v = (Inr sel, w')"
    if r: "resolve_auto loaders names ps v = (Inr sel, w')" for ps v
  proof (rule Cons.IH [OF r])
    have "name \<noteq> sel_name sel" using resolve_auto_name [OF r] Cons.prems(3) by auto
    with Cons.prems(2,3)
    show "\<forall>n\<in>insert (sel_name sel) (set (takeWhile (\<lambda>n. n \<noteq> sel_name sel) names)).
        loaders' n = loaders n" "distinct names"
      by auto
  qed
  show ?case
  proof (cases "loaders name")
    case None
    with Cons.prems(1) rest same show ?thesis by simp
  next
    case (Some loaded)
    obtain backend status w1 where a: "available loaded w = ((backend, status), w1)"
      by (metis surj_pair)
    with Cons.prems(1) rest same Some show ?thesis by (cases "bs_available status") auto
  qed
qed simp

section \<open>The environment of a launched agent\<close>

definition OS_REQUIRED :: "string list" where
  "OS_REQUIRED =
     [''HOME'', ''PATH'', ''TERM'', ''USER'', ''LOGNAME'', ''TMPDIR'', ''TMP'', ''LANG'',
      ''SSL_CERT_FILE'', ''SSL_CERT_DIR'', ''REQUESTS_CA_BUNDLE'', ''CURL_CA_BUNDLE'',
      ''NODE_EXTRA_CA_CERTS'']"

definition KAWA_REQUIRED :: "string list" where
  "KAWA_REQUIRED = [''KAWA_DSN'', ''KAWA_NODE'']"

definition DENIED :: "string list" where
  "DENIED =
     [''SSH_AUTH_SOCK'', ''GITHUB_TOKEN'', ''GH_TOKEN'', ''GITLAB_TOKEN'', ''AWS_ACCESS_KEY_ID'',
      ''AWS_SECRET_ACCESS_KEY'', ''AWS_SESSION_TOKEN'', ''GOOGLE_APPLICATION_CREDENTIALS'',
      ''ANTHROPIC_API_KEY'', ''OPENAI_API_KEY'', ''KAWA_API_KEY'', ''BROKER_API_KEY'']"

fun forward_names ::
    "(string \<times> string) list \<Rightarrow> string list \<Rightarrow> (string \<times> string) list \<Rightarrow> (string \<times> string) list" where
  "forward_names src [] out = out"
| "forward_names src (name # names) out =
     forward_names src names
       (case map_of src name of
          Some v \<Rightarrow> if name \<in> set DENIED then out else AList.update name v out
        | None \<Rightarrow> out)"

fun forward_locale :: "(string \<times> string) list \<Rightarrow> (string \<times> string) list \<Rightarrow> (string \<times> string) list" where
  "forward_locale [] out = out"
| "forward_locale ((name, v) # items) out =
     forward_locale items
       (if startswith name ''LC_'' \<and> name \<notin> set DENIED then AList.update name v out else out)"

definition build_env :: "(string \<times> string) list \<Rightarrow> (string \<times> string) list" where
  "build_env src = forward_locale src (forward_names src (OS_REQUIRED @ KAWA_REQUIRED) [])"

definition forwardable :: "string \<Rightarrow> bool" where
  "forwardable name \<longleftrightarrow>
     (name \<in> set (OS_REQUIRED @ KAWA_REQUIRED) \<or> startswith name ''LC_'') \<and> name \<notin> set DENIED"

lemma forward_names_map:
  "map_of (forward_names src names out) k =
     (if k \<in> set names \<and> k \<notin> set DENIED \<and> map_of src k \<noteq> None then map_of src k else map_of out k)"
  by (induction src names out rule: forward_names.induct)
    (auto simp: update_conv split: option.splits if_splits)

lemma forward_locale_map:
  assumes "distinct (map fst items)"
  shows "map_of (forward_locale items out) k =
    (if startswith k ''LC_'' \<and> k \<notin> set DENIED \<and> map_of items k \<noteq> None then map_of items k
     else map_of out k)"
  using assms
proof (induction items out rule: forward_locale.induct)
  case (2 name v items out)
  then have "map_of items name = None" by (simp add: map_of_eq_None_iff)
  with 2 show ?case by (auto simp: update_conv)
qed simp

text \<open>The environment is the restriction of the operator's to the names that may travel.\<close>

lemma build_env_restricts:
  assumes "distinct (map fst src)"
  shows "map_of (build_env src) = map_of src |` {name. forwardable name}"
  by (rule ext)
    (auto simp: build_env_def forward_locale_map [OF assms] forward_names_map restrict_map_def
      forwardable_def)

end
