(* ===== verification/Launcher.thy ===== *)
theory Launcher
  imports Runtime Store Complex_Main
begin

text \<open>
  \<^verbatim>\<open>scripts/runtime_launch.py\<close>: start a runtime for one Work, wake it, and tear it down.  A section
  under \<^verbatim>\<open>locked()\<close> is one step on the handle file, so two invocations interleave at the
  boundaries of these sections (\<open>launch_locked\<close>, \<open>drop_entry\<close>, \<open>retire_entry\<close>).  What the
  script asks of the machine besides its backends is a record: the monotonic clock and \<open>sleep\<close>.
  What is printed and the status file are not modelled; \<open>started_at\<close> is an argument.

  The interface to the backends is the locale \<open>runtime_world\<close>: what \<^verbatim>\<open>contract.py\<close> promises of
  them, over the runtimes that are alive.  Shown: a launch or a teardown that runs alone keeps every
  live runtime recorded, so that a Work never has two; \<open>deliver_wake\<close> ends, and ends well only
  after the cue was seen in the runtime's own output.
\<close>

section \<open>The echo of the cue\<close>

definition between :: "nat \<Rightarrow> nat \<Rightarrow> char \<Rightarrow> bool" where
  "between a b c \<longleftrightarrow> a \<le> (of_char c :: nat) \<and> (of_char c :: nat) \<le> b"

text \<open>
  \<^verbatim>\<open>\x1b\[[0-9;?]*[ -/]*[@-~]\<close>: the three classes are disjoint, so the match is read off from
  left to right.
\<close>

definition ansi_rest :: "string \<Rightarrow> string option" where
  "ansi_rest t =
     (case t of
        e # b # t1 \<Rightarrow>
          if (of_char e :: nat) = 27 \<and> b = CHR ''['' then
            (case dropWhile (between 32 47)
                    (dropWhile (\<lambda>c. between 48 57 c \<or> c = CHR '';'' \<or> c = CHR ''?'') t1) of
               [] \<Rightarrow> None
             | f # t2 \<Rightarrow> if between 64 126 f then Some t2 else None)
          else None
      | _ \<Rightarrow> None)"

lemma ansi_rest_shorter: "ansi_rest t = Some t' \<Longrightarrow> length t' < length t"
proof -
  have drop: "length (dropWhile P xs) \<le> length xs" for P :: "char \<Rightarrow> bool" and xs
    by (simp add: length_dropWhile_le)
  assume "ansi_rest t = Some t'"
  then obtain e b t1 f where t: "t = e # b # t1"
    "dropWhile (between 32 47) (dropWhile (\<lambda>c. between 48 57 c \<or> c = CHR '';'' \<or> c = CHR ''?'') t1)
       = f # t'"
    by (auto simp: ansi_rest_def split: list.splits if_splits)
  have "length (f # t') \<le> length t1"
    unfolding t(2) [symmetric] using drop order_trans by blast
  then show ?thesis by (simp add: t(1))
qed

function strip_ansi :: "string \<Rightarrow> string" where
  "strip_ansi t =
     (case ansi_rest t of
        Some t' \<Rightarrow> strip_ansi t'
      | None \<Rightarrow> (case t of [] \<Rightarrow> [] | c # t' \<Rightarrow> c # strip_ansi t'))"
  by pat_completeness auto

termination by (relation "measure length") (auto dest: ansi_rest_shorter)

declare strip_ansi.simps [simp del]

text \<open>\<open>str.split()\<close> on the ASCII white space.\<close>

definition split_space :: "char \<Rightarrow> bool" where
  "split_space c \<longleftrightarrow> between 9 13 c \<or> between 28 32 c"

function words_of :: "string \<Rightarrow> string list" where
  "words_of t =
     (case dropWhile split_space t of
        [] \<Rightarrow> []
      | c # t' \<Rightarrow>
          takeWhile (\<lambda>x. \<not> split_space x) (c # t') # words_of (dropWhile (\<lambda>x. \<not> split_space x) t'))"
  by pat_completeness auto

termination
proof (relation "measure length")
  fix t c t' assume "dropWhile split_space t = c # t'"
  then have "length t' < length t" using length_dropWhile_le [of split_space t] by simp
  with length_dropWhile_le [of "\<lambda>x. \<not> split_space x" t']
  show "(dropWhile (\<lambda>x. \<not> split_space x) t', t) \<in> measure length" by simp
qed simp

declare words_of.simps [simp del]

definition flatten :: "string \<Rightarrow> string" where
  "flatten t = join '' '' (words_of (strip_ansi t))"

fun contains :: "string \<Rightarrow> string \<Rightarrow> bool" where
  "contains p [] \<longleftrightarrow> p = []"
| "contains p (c # t) \<longleftrightarrow> startswith (c # t) p \<or> contains p t"

definition wake_marker :: string where
  "wake_marker = flatten (takeWhile (\<lambda>c. c \<noteq> CHR '';'') WAKE_CUE)"

section \<open>Launching\<close>

record 'w machine =
  mc_now :: "'w \<Rightarrow> rat"
  mc_sleep :: "rat \<Rightarrow> 'w \<Rightarrow> 'w"

datatype launch_error =
    Refused string
  | Failed string error_class

definition LAUNCH_SETTLE :: rat where "LAUNCH_SETTLE = 90"

definition WAKE_SETTLE :: rat where "WAKE_SETTLE = 60"

definition WAKE_DEADLINE :: rat where "WAKE_DEADLINE = 90"

definition WAKE_RETRY :: rat where "WAKE_RETRY = 5"

definition handle_of :: "handle_entry \<Rightarrow> runtime_handle" where
  "handle_of e = \<lparr>rh_backend = he_backend e, rh_token = he_token e\<rparr>"

definition work_is_actionable :: "db \<Rightarrow> string \<Rightarrow> string option" where
  "work_is_actionable d work_ref =
     (case current_work d work_ref of
        None \<Rightarrow> Some ''no such Work''
      | Some row \<Rightarrow> if cw_execution row = Ex_ready then None else Some ''not actionable'')"

definition terminate_proven :: "'w backend \<Rightarrow> runtime_handle \<Rightarrow> 'w \<Rightarrow> bool \<times> 'w" where
  "terminate_proven b h w =
     (case bk_terminate b h w of
        (Inr _, w1) \<Rightarrow> (True, w1)
      | (Inl _, w1) \<Rightarrow>
          (case bk_inspect b h w1 of
             (Inr obs, w2) \<Rightarrow> (ro_presence obs = Absent, w2)
           | (Inl _, w2) \<Rightarrow> (False, w2)))"

definition start_runtime ::
    "'w backend \<Rightarrow> launch_spec \<Rightarrow> string \<Rightarrow> handle_file \<times> 'w \<Rightarrow>
     (launch_error + runtime_handle) \<times> handle_file \<times> 'w" where
  "start_runtime b spec started_at = (\<lambda>(h, w).
     case bk_launch b spec w of
       (Inl e, w1) \<Rightarrow> (Inl (Failed (bk_name b) e), h, w1)
     | (Inr handle, w1) \<Rightarrow>
         (Inr handle,
          cache_put (ls_work_ref spec) (rh_backend handle) (rh_token handle) started_at h, w1))"

text \<open>The section under the lock: the duplicate check, the launch and the record of its handle.\<close>

definition launch_locked ::
    "'w loaders \<Rightarrow> 'w backend \<Rightarrow> launch_spec \<Rightarrow> bool \<Rightarrow> string \<Rightarrow> handle_file \<times> 'w \<Rightarrow>
     (launch_error + runtime_handle) \<times> handle_file \<times> 'w" where
  "launch_locked loaders b spec force started_at = (\<lambda>(h, w).
     (case cache_get h (ls_work_ref spec) of
        None \<Rightarrow> start_runtime b spec started_at (h, w)
      | Some existing \<Rightarrow>
          (case for_teardown loaders (he_backend existing) of
             Inl _ \<Rightarrow> (Inl (Refused ''backend of the recorded runtime not reachable''), h, w)
           | Inr prior \<Rightarrow>
               if \<not> force then
                 (case bk_inspect prior (handle_of existing) w of
                    (Inl _, w1) \<Rightarrow> (Inl (Refused ''liveness unknown''), h, w1)
                  | (Inr obs, w1) \<Rightarrow>
                      if ro_presence obs = Present then (Inl (Refused ''already running''), h, w1)
                      else start_runtime b spec started_at (cache_drop (ls_work_ref spec) h, w1))
               else
                 (case terminate_proven prior (handle_of existing) w of
                    (False, w1) \<Rightarrow> (Inl (Refused ''cleanup_incomplete''), h, w1)
                  | (True, w1) \<Rightarrow>
                      start_runtime b spec started_at (cache_drop (ls_work_ref spec) h, w1)))))"

text \<open>The loop of \<open>deliver_wake\<close>; \<open>None\<close> is a loop that does not end.\<close>

partial_function (option) wake_loop ::
    "'w backend \<Rightarrow> 'w machine \<Rightarrow> runtime_handle \<Rightarrow> string \<Rightarrow> rat \<Rightarrow> 'w \<Rightarrow>
     ((error_class + runtime_observation) \<times> 'w) option" where
  "wake_loop b m h baseline deadline w =
     (case bk_wake b h WAKE_CUE w of
        (Inl e, w1) \<Rightarrow> Some (Inl e, w1)
      | (Inr _, w1) \<Rightarrow>
          (case bk_await_settled b h WAKE_SETTLE w1 of
             (Inl e, w2) \<Rightarrow> Some (Inl e, w2)
           | (Inr obs, w2) \<Rightarrow>
               (case bk_read_recent_output b h w2 of
                  (Inl e, w3) \<Rightarrow> Some (Inl e, w3)
                | (Inr out, w3) \<Rightarrow>
                    if contains wake_marker (flatten out) \<and>
                       (\<not> contains wake_marker baseline \<or> flatten out \<noteq> baseline)
                    then Some (Inr obs, w3)
                    else if deadline \<le> mc_now m w3 then Some (Inl Wake_echo_missing, w3)
                    else wake_loop b m h baseline deadline (mc_sleep m WAKE_RETRY w3))))"

declare wake_loop.simps [code]

definition deliver_wake ::
    "'w backend \<Rightarrow> 'w machine \<Rightarrow> runtime_handle \<Rightarrow> 'w \<Rightarrow> ((error_class + unit) \<times> 'w) option" where
  "deliver_wake b m h w =
     (case bk_read_recent_output b h w of
        (Inl e, w1) \<Rightarrow> Some (Inl e, w1)
      | (Inr out, w1) \<Rightarrow>
          (case wake_loop b m h (flatten out) (mc_now m w1 + WAKE_DEADLINE) w1 of
             None \<Rightarrow> None
           | Some (Inl e, w2) \<Rightarrow> Some (Inl e, w2)
           | Some (Inr obs, w2) \<Rightarrow>
               Some (if ro_activity obs = Activity_blocked then Inl Blocked_at_launch else Inr (), w2)))"

text \<open>Settle, then wake: the body of the \<open>try\<close> after the lock.\<close>

definition settle_and_wake ::
    "'w backend \<Rightarrow> 'w machine \<Rightarrow> runtime_handle \<Rightarrow> 'w \<Rightarrow> ((error_class + unit) \<times> 'w) option" where
  "settle_and_wake b m h w =
     (case bk_await_settled b h LAUNCH_SETTLE w of
        (Inl e, w1) \<Rightarrow> Some (Inl e, w1)
      | (Inr obs, w1) \<Rightarrow>
          if ro_activity obs = Activity_blocked then Some (Inl Blocked_at_launch, w1)
          else deliver_wake b m h w1)"

definition drop_entry :: "string \<Rightarrow> handle_file \<Rightarrow> handle_file" where
  "drop_entry work_ref h = cache_drop work_ref h"

definition cleanup ::
    "'w backend \<Rightarrow> runtime_handle \<Rightarrow> string \<Rightarrow> handle_file \<times> 'w \<Rightarrow> bool \<times> handle_file \<times> 'w" where
  "cleanup b handle work_ref = (\<lambda>(h, w).
     case terminate_proven b handle w of
       (False, w1) \<Rightarrow> (False, h, w1)
     | (True, w1) \<Rightarrow> (True, drop_entry work_ref h, w1))"

definition finish_launch ::
    "'w backend \<Rightarrow> 'w machine \<Rightarrow> launch_spec \<Rightarrow> runtime_handle \<Rightarrow> handle_file \<times> 'w \<Rightarrow>
     ((launch_error + runtime_handle) \<times> handle_file \<times> 'w) option" where
  "finish_launch b m spec handle = (\<lambda>(h, w).
     case settle_and_wake b m handle w of
       None \<Rightarrow> None
     | Some (Inl e, w1) \<Rightarrow>
         (case cleanup b handle (ls_work_ref spec) (h, w1) of
            (_, h2, w2) \<Rightarrow> Some (Inl (Failed (bk_name b) e), h2, w2))
     | Some (Inr _, w1) \<Rightarrow>
         (case bk_inspect b handle w1 of
            (Inl e, w2) \<Rightarrow> Some (Inl (Failed (bk_name b) e), h, w2)
          | (Inr _, w2) \<Rightarrow> Some (Inr handle, h, w2)))"

definition launch ::
    "'w loaders \<Rightarrow> 'w backend \<Rightarrow> 'w machine \<Rightarrow> db \<Rightarrow> launch_spec \<Rightarrow> bool \<Rightarrow> string \<Rightarrow>
     handle_file \<times> 'w \<Rightarrow> ((launch_error + runtime_handle) \<times> handle_file \<times> 'w) option" where
  "launch loaders b m d spec force started_at = (\<lambda>(h, w).
     case work_is_actionable d (ls_work_ref spec) of
       Some reason \<Rightarrow> Some (Inl (Refused reason), h, w)
     | None \<Rightarrow>
         (case bk_detect b w of
            (Inl e, w1) \<Rightarrow> Some (Inl (Failed (bk_name b) e), h, w1)
          | (Inr status, w1) \<Rightarrow>
              if \<not> bs_available status then Some (Inl (Refused (bs_reason status)), h, w1)
              else
                (case launch_locked loaders b spec force started_at (h, w1) of
                   (Inl e, h2, w2) \<Rightarrow> Some (Inl e, h2, w2)
                 | (Inr handle, h2, w2) \<Rightarrow> finish_launch b m spec handle (h2, w2))))"

section \<open>Teardown\<close>

datatype teardown = No_runtime | Terminated | Cleanup_incomplete

text \<open>The second locked section: compare on the token, and drop.\<close>

definition retire_entry :: "string \<Rightarrow> handle_entry \<Rightarrow> handle_file \<Rightarrow> handle_file" where
  "retire_entry work_ref entry h =
     (case cache_get h work_ref of
        None \<Rightarrow> h
      | Some current \<Rightarrow> if he_token current \<noteq> he_token entry then h else cache_drop work_ref h)"

definition terminate ::
    "'w loaders \<Rightarrow> string \<Rightarrow> handle_file \<times> 'w \<Rightarrow> teardown \<times> handle_file \<times> 'w" where
  "terminate loaders work_ref = (\<lambda>(h, w).
     case cache_get h work_ref of
       None \<Rightarrow> (No_runtime, h, w)
     | Some entry \<Rightarrow>
         (case for_teardown loaders (he_backend entry) of
            Inl _ \<Rightarrow> (Cleanup_incomplete, h, w)
          | Inr b \<Rightarrow>
              (case terminate_proven b (handle_of entry) w of
                 (False, w1) \<Rightarrow> (Cleanup_incomplete, h, w1)
               | (True, w1) \<Rightarrow> (Terminated, retire_entry work_ref entry h, w1))))"

section \<open>What the contract promises\<close>

text \<open>
  \<open>serves w (b, t)\<close> is the Work that the runtime of backend \<open>b\<close> with token \<open>t\<close> runs in the
  state \<open>w\<close>, if it is alive.  Alive runtimes can die at any call; only a launch starts one.  The
  Works whose tokens tell them apart are \<open>known\<close>: a backend derives the token from a digest.
\<close>

definition shrinks :: "('w \<Rightarrow> string \<times> string \<Rightarrow> string option) \<Rightarrow> 'w \<Rightarrow> 'w \<Rightarrow> bool" where
  "shrinks serves w w' \<longleftrightarrow> (\<forall>x. serves w' x = serves w x \<or> serves w' x = None)"

text \<open>The invariant: every runtime that is alive is the one the file records for its Work.\<close>

definition registered ::
    "('w \<Rightarrow> string \<times> string \<Rightarrow> string option) \<Rightarrow> handle_file \<Rightarrow> 'w \<Rightarrow> bool" where
  "registered serves h w \<longleftrightarrow>
     (\<forall>x work. serves w x = Some work \<longrightarrow>
        (\<exists>e. cache_get h work = Some e \<and> x = (he_backend e, he_token e)))"

text \<open>What is left of it when a launch of \<open>work\<close> started a runtime whose handle never came back.\<close>

definition recorded_but ::
    "('w \<Rightarrow> string \<times> string \<Rightarrow> string option) \<Rightarrow> string \<Rightarrow> handle_file \<Rightarrow> 'w \<Rightarrow> bool" where
  "recorded_but serves work h w \<longleftrightarrow> cache_get h work = None \<and>
     (\<forall>x v. serves w x = Some v \<and> v \<noteq> work \<longrightarrow>
        (\<exists>e. cache_get h v = Some e \<and> x = (he_backend e, he_token e)))"

lemma registered_single:
  assumes "registered serves h w" and "serves w x = Some work" and "serves w y = Some work"
  shows "x = y"
  using assms unfolding registered_def by (metis option.inject)

lemma shrinks_refl [simp]: "shrinks serves w w"
  by (simp add: shrinks_def)

lemma shrinks_trans: "shrinks serves w w1 \<Longrightarrow> shrinks serves w1 w2 \<Longrightarrow> shrinks serves w w2"
  unfolding shrinks_def by metis

lemma shrinks_dead: "shrinks serves w w' \<Longrightarrow> serves w x = None \<Longrightarrow> serves w' x = None"
  unfolding shrinks_def by metis

lemma registered_shrinks: "registered serves h w \<Longrightarrow> shrinks serves w w' \<Longrightarrow> registered serves h w'"
  unfolding registered_def shrinks_def by (metis option.distinct(1))

text \<open>
  The runtimes of one backend, from the tokens that are alive and the inverse of the tokens.
\<close>

definition serving ::
    "string \<Rightarrow> ('w \<Rightarrow> string set) \<Rightarrow> (string \<Rightarrow> string option) \<Rightarrow> 'w \<Rightarrow> string \<times> string \<Rightarrow>
     string option" where
  "serving name alive work_of w = (\<lambda>(b, t). if b = name \<and> t \<in> alive w then work_of t else None)"

lemma serving_shrinks: "alive w' \<subseteq> alive w \<Longrightarrow> shrinks (serving name alive work_of) w w'"
  by (auto simp: shrinks_def serving_def)

lemma serving_dead: "t \<notin> alive w \<Longrightarrow> serving name alive work_of w (n, t) = None"
  by (simp add: serving_def)

text \<open>A loop that comes back later each time, and only before its deadline, ends.\<close>

lemma polling_ends:
  fixes now :: "'s \<Rightarrow> rat"
  assumes step: "0 < step"
    and round: "\<And>s. (\<exists>x. f s = Some x \<and> P s x) \<or>
      (\<exists>s'. f s = f s' \<and> now s + step \<le> now s' \<and> now s < deadline \<and> (\<forall>x. P s' x \<longrightarrow> P s x))"
  shows "\<exists>x. f s = Some x \<and> P s x"
proof (induction "nat \<lceil>(deadline - now s) / step\<rceil>" arbitrary: s rule: less_induct)
  case less
  from round [of s] show ?case
  proof (elim disjE exE conjE)
    fix s'
    assume eq: "f s = f s'" and later: "now s + step \<le> now s'" and before: "now s < deadline"
      and P: "\<forall>x. P s' x \<longrightarrow> P s x"
    have "(deadline - now s') / step \<le> (deadline - now s - step) / step"
      by (rule divide_right_mono) (use later step in simp_all)
    also have "\<dots> = (deadline - now s) / step - 1"
      using step by (simp add: diff_divide_distrib)
    finally have "(deadline - now s') / step \<le> (deadline - now s) / step - 1" .
    moreover have "0 < (deadline - now s) / step" using before step by simp
    ultimately have "nat \<lceil>(deadline - now s') / step\<rceil> < nat \<lceil>(deadline - now s) / step\<rceil>"
      by linarith
    from less [OF this] eq P show ?thesis by metis
  qed blast
qed

locale runtime_world =
  fixes loaders :: "'w loaders" and serves :: "'w \<Rightarrow> string \<times> string \<Rightarrow> string option"
    and known :: "string set"
  assumes loaded_name: "loaders n = Some (Some b) \<Longrightarrow> bk_name b = n"
    and detect_dies: "loaders n = Some (Some b) \<Longrightarrow> bk_detect b w = (r, w') \<Longrightarrow> shrinks serves w w'"
    and await_dies: "loaders n = Some (Some b) \<Longrightarrow> bk_await_settled b h t w = (r1, w') \<Longrightarrow>
      shrinks serves w w'"
    and wake_dies: "loaders n = Some (Some b) \<Longrightarrow> bk_wake b h cue w = (r2, w') \<Longrightarrow>
      shrinks serves w w'"
    and read_dies: "loaders n = Some (Some b) \<Longrightarrow> bk_read_recent_output b h w = (r3, w') \<Longrightarrow>
      shrinks serves w w'"
    and inspect_dies: "loaders n = Some (Some b) \<Longrightarrow> bk_inspect b h w = (r1, w') \<Longrightarrow>
      shrinks serves w w'"
    and inspect_absent: "loaders n = Some (Some b) \<Longrightarrow> bk_inspect b h w = (Inr obs, w') \<Longrightarrow>
      ro_presence obs \<noteq> Present \<Longrightarrow> serves w' (n, rh_token h) = None"
    and terminate_dies: "loaders n = Some (Some b) \<Longrightarrow> bk_terminate b h w = (r2, w') \<Longrightarrow>
      shrinks serves w w'"
    and terminate_absent: "loaders n = Some (Some b) \<Longrightarrow> bk_terminate b h w = (Inr u, w') \<Longrightarrow>
      serves w' (n, rh_token h) = None"
    and launch_starts: "loaders n = Some (Some b) \<Longrightarrow> ls_work_ref spec \<in> known \<Longrightarrow>
      bk_launch b spec w = (Inr h, w') \<Longrightarrow>
      rh_backend h = n \<and>
      (\<forall>x. serves w' x = serves w x \<or> serves w' x = None \<or>
         x = (n, rh_token h) \<and> serves w' x = Some (ls_work_ref spec))"
    and launch_fails: "loaders n = Some (Some b) \<Longrightarrow> bk_launch b spec w = (Inl e, w') \<Longrightarrow>
      e \<noteq> Launch_timeout \<Longrightarrow> shrinks serves w w'"
    and launch_unanswered: "loaders n = Some (Some b) \<Longrightarrow> ls_work_ref spec \<in> known \<Longrightarrow>
      bk_launch b spec w = (Inl Launch_timeout, w') \<Longrightarrow>
      serves w' x = serves w x \<or> serves w' x = None \<or> serves w' x = Some (ls_work_ref spec)"
begin

lemma teardown_loaded: "for_teardown loaders n = Inr b \<Longrightarrow> loaders n = Some (Some b)"
  by (auto simp: for_teardown_def split: option.splits)

lemma terminate_proven_ok:
  assumes "loaders n = Some (Some b)" and "terminate_proven b h w = (proven, w')"
  shows "shrinks serves w w'" and "proven \<Longrightarrow> serves w' (n, rh_token h) = None"
proof -
  obtain r w1 where t: "bk_terminate b h w = (r, w1)" by fastforce
  obtain r2 w2 where i: "bk_inspect b h w1 = (r2, w2)" by fastforce
  note shr = terminate_dies [OF assms(1) t] inspect_dies [OF assms(1) i]
  show "shrinks serves w w'"
    using assms(2) shr shrinks_trans [OF shr]
    by (auto simp: terminate_proven_def t i split: sum.splits)
  show "serves w' (n, rh_token h) = None" if proven
  proof (cases r)
    case (Inr u)
    with assms(2) terminate_absent [OF assms(1)] t show ?thesis
      by (auto simp: terminate_proven_def)
  next
    case (Inl e)
    with assms(2) that obtain obs where "r2 = Inr obs" "ro_presence obs = Absent" "w' = w2"
      by (auto simp: terminate_proven_def t i split: sum.splits)
    with inspect_absent [OF assms(1)] i show ?thesis by auto
  qed
qed

text \<open>With no runtime alive for a Work, its entry can go.\<close>

lemma registered_drop:
  assumes "registered serves h w" and "cache_get h work = Some e"
    and "serves w (he_backend e, he_token e) = None"
  shows "registered serves (cache_drop work h) w" and "\<And>x. serves w x \<noteq> Some work"
proof -
  show none: "serves w x \<noteq> Some work" for x
    using assms unfolding registered_def by (metis option.distinct(1) option.inject)
  show "registered serves (cache_drop work h) w"
    using assms(1) none unfolding registered_def cache_get_drop by metis
qed

lemma start_runtime_registered:
  assumes b: "loaders n = Some (Some b)" and inv: "registered serves h w"
    and free: "cache_get h (ls_work_ref spec) = None" and known: "ls_work_ref spec \<in> known"
    and run: "start_runtime b spec started_at (h, w) = (r, h', w')"
  shows "registered serves h' w' \<or>
      r = Inl (Failed n Launch_timeout) \<and> recorded_but serves (ls_work_ref spec) h' w'"
    and "\<And>handle. r = Inr handle \<Longrightarrow> rh_backend handle = n \<and>
      (\<exists>e. cache_get h' (ls_work_ref spec) = Some e \<and> handle_of e = handle)"
proof -
  obtain l w1 where l: "bk_launch b spec w = (l, w1)" by fastforce
  have "(registered serves h' w' \<or>
      r = Inl (Failed n Launch_timeout) \<and> recorded_but serves (ls_work_ref spec) h' w') \<and>
    (\<forall>handle. r = Inr handle \<longrightarrow> rh_backend handle = n \<and>
      (\<exists>e. cache_get h' (ls_work_ref spec) = Some e \<and> handle_of e = handle))"
  proof (cases l)
    case (Inl e)
    have eqs: "r = Inl (Failed n e)" "h' = h" "w' = w1"
      using run l Inl loaded_name [OF b] by (auto simp: start_runtime_def)
    show ?thesis
    proof (cases "e = Launch_timeout")
      case False
      with registered_shrinks [OF inv launch_fails [OF b l [unfolded Inl]]] show ?thesis by (simp add: eqs)
    next
      case True
      note grows = launch_unanswered [OF b known l [unfolded Inl True]]
      have "recorded_but serves (ls_work_ref spec) h w1"
        unfolding recorded_but_def
      proof (intro conjI free allI impI)
        fix x v
        assume "serves w1 x = Some v \<and> v \<noteq> ls_work_ref spec"
        with grows [of x] have "serves w x = Some v" by auto
        with inv show "\<exists>e. cache_get h v = Some e \<and> x = (he_backend e, he_token e)"
          unfolding registered_def by blast
      qed
      with True show ?thesis by (simp add: eqs)
    qed
  next
    case (Inr handle)
    note starts = launch_starts [OF b known l [unfolded Inr]]
    have eqs: "r = Inr handle" "w' = w1"
      "h' = cache_put (ls_work_ref spec) (rh_backend handle) (rh_token handle) started_at h"
      using run l Inr by (auto simp: start_runtime_def)
    have "\<exists>e. cache_get h' work = Some e \<and> x = (he_backend e, he_token e)"
      if x: "serves w1 x = Some work" for x work
    proof (cases "serves w x = Some work")
      case True
      with inv have e: "\<exists>e. cache_get h work = Some e \<and> x = (he_backend e, he_token e)"
        unfolding registered_def by blast
      with free have "work \<noteq> ls_work_ref spec" by auto
      with e show ?thesis by (simp add: eqs(3) cache_get_put)
    next
      case False
      with starts x have "x = (n, rh_token handle)" "work = ls_work_ref spec"
        by (metis option.distinct(1), metis option.distinct(1) option.inject)
      with starts show ?thesis by (simp add: eqs(3) cache_get_put)
    qed
    then have "registered serves h' w'" by (simp add: registered_def eqs(2))
    with starts show ?thesis by (simp add: eqs cache_get_put handle_of_def)
  qed
  then show "registered serves h' w' \<or>
      r = Inl (Failed n Launch_timeout) \<and> recorded_but serves (ls_work_ref spec) h' w'"
    and "\<And>handle. r = Inr handle \<Longrightarrow> rh_backend handle = n \<and>
      (\<exists>e. cache_get h' (ls_work_ref spec) = Some e \<and> handle_of e = handle)"
    by auto
qed

lemma launch_locked_registered:
  assumes b: "loaders n = Some (Some b)" and inv: "registered serves h w"
    and known: "ls_work_ref spec \<in> known"
    and run: "launch_locked loaders b spec force started_at (h, w) = (r, h', w')"
  shows "registered serves h' w' \<or>
      r = Inl (Failed n Launch_timeout) \<and> recorded_but serves (ls_work_ref spec) h' w'"
    and "\<And>handle. r = Inr handle \<Longrightarrow> rh_backend handle = n \<and>
      (\<exists>e. cache_get h' (ls_work_ref spec) = Some e \<and> handle_of e = handle)"
proof -
  have "(registered serves h' w' \<or>
      r = Inl (Failed n Launch_timeout) \<and> recorded_but serves (ls_work_ref spec) h' w') \<and>
    (\<forall>handle. r = Inr handle \<longrightarrow> rh_backend handle = n \<and>
      (\<exists>e. cache_get h' (ls_work_ref spec) = Some e \<and> handle_of e = handle))"
  proof (cases "cache_get h (ls_work_ref spec)")
    case None
    moreover have "start_runtime b spec started_at (h, w) = (r, h', w')"
      using run None by (simp add: launch_locked_def)
    ultimately show ?thesis using start_runtime_registered [OF b inv _ known] by blast
  next
    case (Some existing)
    show ?thesis
    proof (cases "for_teardown loaders (he_backend existing)")
      case (Inl p)
      with run Some inv show ?thesis by (auto simp: launch_locked_def)
    next
      case (Inr prior)
      note prior = teardown_loaded [OF Inr]
      have again: ?thesis
        if "shrinks serves w w1" "serves w1 (he_backend existing, he_token existing) = None"
          "start_runtime b spec started_at (cache_drop (ls_work_ref spec) h, w1) = (r, h', w')" for w1
      proof -
        note drop = registered_drop(1) [OF registered_shrinks [OF inv that(1)] Some that(2)]
        have "cache_get (cache_drop (ls_work_ref spec) h) (ls_work_ref spec) = None"
          by (simp add: cache_get_drop)
        from start_runtime_registered [OF b drop this known that(3)] show ?thesis by blast
      qed
      have refused: ?thesis if "shrinks serves w w1" "(Inl e, h, w1) = (r, h', w')" for w1 e
        using that registered_shrinks [OF inv that(1)] by auto
      show ?thesis
      proof (cases force)
        case True
        obtain proven w1 where t: "terminate_proven prior (handle_of existing) w = (proven, w1)"
          by fastforce
        note ok = terminate_proven_ok [OF prior t]
        show ?thesis
        proof (cases proven)
          case proven: True
          have "serves w1 (he_backend existing, he_token existing) = None"
            using ok(2) [OF proven] by (simp add: handle_of_def)
          with again [OF ok(1)] run Some Inr True t proven show ?thesis
            by (simp add: launch_locked_def)
        next
          case False
          with run Some Inr True t have "(Inl (Refused ''cleanup_incomplete''), h, w1) = (r, h', w')"
            by (simp add: launch_locked_def)
          then show ?thesis by (rule refused [OF ok(1)])
        qed
      next
        case False
        obtain o1 w1 where i: "bk_inspect prior (handle_of existing) w = (o1, w1)" by fastforce
        note shr = inspect_dies [OF prior i]
        show ?thesis
        proof (cases o1)
          case (Inl e)
          with run Some Inr False i
          have "(Inl (Refused ''liveness unknown''), h, w1) = (r, h', w')"
            by (simp add: launch_locked_def)
          then show ?thesis by (rule refused [OF shr])
        next
          case obs: (Inr obs)
          show ?thesis
          proof (cases "ro_presence obs = Present")
            case True
            with run Some Inr False i obs
            have "(Inl (Refused ''already running''), h, w1) = (r, h', w')"
              by (simp add: launch_locked_def)
            then show ?thesis by (rule refused [OF shr])
          next
            case gone: False
            from inspect_absent [OF prior i [unfolded obs] gone]
            have "serves w1 (he_backend existing, he_token existing) = None"
              by (simp add: handle_of_def)
            then show ?thesis
              by (rule again [OF shr]) (use run Some Inr False i obs gone in
                \<open>simp add: launch_locked_def\<close>)
          qed
        qed
      qed
    qed
  qed
  then show "registered serves h' w' \<or>
      r = Inl (Failed n Launch_timeout) \<and> recorded_but serves (ls_work_ref spec) h' w'"
    and "\<And>handle. r = Inr handle \<Longrightarrow> rh_backend handle = n \<and>
      (\<exists>e. cache_get h' (ls_work_ref spec) = Some e \<and> handle_of e = handle)"
    by auto
qed

lemma settle_calls:
  assumes "loaders n = Some (Some b)"
  shows "bk_wake b h cue w = (r2, w') \<Longrightarrow> shrinks serves w w'"
    and "bk_await_settled b h t w = (r1, w') \<Longrightarrow> shrinks serves w w'"
    and "bk_read_recent_output b h w = (r3, w') \<Longrightarrow> shrinks serves w w'"
  using assms wake_dies await_dies read_dies by blast+

end

text \<open>
  Time: \<open>sleep\<close> takes at least what it is asked for, no call turns the clock back, and runtimes do
  not start while the script sleeps.
\<close>

locale waking_world = runtime_world loaders serves known
  for loaders :: "'w loaders" and serves :: "'w \<Rightarrow> string \<times> string \<Rightarrow> string option"
    and known :: "string set" +
  fixes m :: "'w machine"
  assumes sleep_dies: "shrinks serves w (mc_sleep m d w)"
    and sleep_takes: "mc_now m w + d \<le> mc_now m (mc_sleep m d w)"
    and wake_takes: "loaders n = Some (Some b) \<Longrightarrow> bk_wake b h cue w = (r2, w') \<Longrightarrow>
      mc_now m w \<le> mc_now m w'"
    and await_takes: "loaders n = Some (Some b) \<Longrightarrow> bk_await_settled b h t w = (r1, w') \<Longrightarrow>
      mc_now m w \<le> mc_now m w'"
    and read_takes: "loaders n = Some (Some b) \<Longrightarrow> bk_read_recent_output b h w = (r3, w') \<Longrightarrow>
      mc_now m w \<le> mc_now m w'"
begin

text \<open>One round of the loop either ends it or comes back five seconds later.\<close>

lemma wake_round:
  assumes b: "loaders n = Some (Some b)"
  shows "(\<exists>r w'. wake_loop b m h baseline deadline w = Some (r, w') \<and> shrinks serves w w' \<and>
        (\<forall>obs. r = Inr obs \<longrightarrow> (\<exists>out v. bk_read_recent_output b h v = (Inr out, w') \<and>
           contains wake_marker (flatten out) \<and>
           (\<not> contains wake_marker baseline \<or> flatten out \<noteq> baseline)))) \<or>
    (\<exists>w'. wake_loop b m h baseline deadline w = wake_loop b m h baseline deadline w' \<and>
        shrinks serves w w' \<and> mc_now m w + WAKE_RETRY \<le> mc_now m w' \<and> mc_now m w < deadline)"
proof -
  obtain r1 w1 where wk: "bk_wake b h WAKE_CUE w = (r1, w1)" by fastforce
  obtain r2 w2 where aw: "bk_await_settled b h WAKE_SETTLE w1 = (r2, w2)" by fastforce
  obtain r3 w3 where rd: "bk_read_recent_output b h w2 = (r3, w3)" by fastforce
  note s1 = settle_calls(1) [OF b wk] and s2 = settle_calls(2) [OF b aw] and s3 = settle_calls(3) [OF b rd]
  note t = wake_takes [OF b wk] await_takes [OF b aw] read_takes [OF b rd]
  note s12 = shrinks_trans [OF s1 s2] and s123 = shrinks_trans [OF shrinks_trans [OF s1 s2] s3]
  consider (wake) e where "r1 = Inl e" | (await) u e where "r1 = Inr u" "r2 = Inl e"
    | (read) u obs e where "r1 = Inr u" "r2 = Inr obs" "r3 = Inl e"
    | (all) u obs out where "r1 = Inr u" "r2 = Inr obs" "r3 = Inr out"
    by (metis sum.exhaust)
  then show ?thesis
  proof cases
    case wake
    with wk s1 show ?thesis by (subst wake_loop.simps) simp
  next
    case await
    with wk aw s12 show ?thesis by (subst wake_loop.simps) simp
  next
    case read
    with wk aw rd s123 show ?thesis by (subst wake_loop.simps) simp
  next
    case all
    let ?seen = "contains wake_marker (flatten out) \<and>
       (\<not> contains wake_marker baseline \<or> flatten out \<noteq> baseline)"
    have eq: "wake_loop b m h baseline deadline w =
        (if ?seen then Some (Inr obs, w3)
         else if deadline \<le> mc_now m w3 then Some (Inl Wake_echo_missing, w3)
         else wake_loop b m h baseline deadline (mc_sleep m WAKE_RETRY w3))"
      by (subst wake_loop.simps) (simp add: wk aw rd all)
    show ?thesis
    proof (cases ?seen)
      case True
      with eq s123 rd all(3) show ?thesis by auto
    next
      case unseen: False
      show ?thesis
      proof (cases "deadline \<le> mc_now m w3")
        case True
        with unseen eq s123 show ?thesis by auto
      next
        case False
        have "shrinks serves w (mc_sleep m WAKE_RETRY w3)"
          using shrinks_trans [OF s123 sleep_dies] .
        moreover have "mc_now m w + WAKE_RETRY \<le> mc_now m (mc_sleep m WAKE_RETRY w3)"
          using sleep_takes [of w3 WAKE_RETRY] t by linarith
        moreover have "mc_now m w < deadline" using False t by linarith
        ultimately show ?thesis using unseen False eq by auto
      qed
    qed
  qed
qed

lemma wake_loop_total:
  assumes b: "loaders n = Some (Some b)"
  shows "\<exists>r w'. wake_loop b m h baseline deadline w = Some (r, w') \<and> shrinks serves w w' \<and>
    (\<forall>obs. r = Inr obs \<longrightarrow> (\<exists>out v. bk_read_recent_output b h v = (Inr out, w') \<and>
       contains wake_marker (flatten out) \<and>
       (\<not> contains wake_marker baseline \<or> flatten out \<noteq> baseline)))"
proof -
  let ?P = "\<lambda>w x. shrinks serves w (snd x) \<and>
    (\<forall>obs. fst x = Inr obs \<longrightarrow> (\<exists>out v. bk_read_recent_output b h v = (Inr out, snd x) \<and>
       contains wake_marker (flatten out) \<and>
       (\<not> contains wake_marker baseline \<or> flatten out \<noteq> baseline)))"
  have "\<exists>x. wake_loop b m h baseline deadline w = Some x \<and> ?P w x"
  proof (rule polling_ends [where now = "mc_now m" and step = WAKE_RETRY and deadline = deadline])
    show "0 < WAKE_RETRY" by (simp add: WAKE_RETRY_def)
    show "(\<exists>x. wake_loop b m h baseline deadline v = Some x \<and> ?P v x) \<or>
      (\<exists>w'. wake_loop b m h baseline deadline v = wake_loop b m h baseline deadline w' \<and>
         mc_now m v + WAKE_RETRY \<le> mc_now m w' \<and> mc_now m v < deadline \<and>
         (\<forall>x. ?P w' x \<longrightarrow> ?P v x))" for v
      using wake_round [OF b, of h baseline deadline v]
    proof (elim disjE exE conjE)
      fix r w' assume "wake_loop b m h baseline deadline v = Some (r, w')" "shrinks serves v w'"
        "\<forall>obs. r = Inr obs \<longrightarrow> (\<exists>out v. bk_read_recent_output b h v = (Inr out, w') \<and>
           contains wake_marker (flatten out) \<and>
           (\<not> contains wake_marker baseline \<or> flatten out \<noteq> baseline))"
      then show ?thesis by (intro disjI1 exI [of _ "(r, w')"]) simp
    next
      fix w' assume "wake_loop b m h baseline deadline v = wake_loop b m h baseline deadline w'"
        "shrinks serves v w'" "mc_now m v + WAKE_RETRY \<le> mc_now m w'" "mc_now m v < deadline"
      then show ?thesis by (intro disjI2 exI [of _ w']) (auto dest: shrinks_trans)
    qed
  qed
  then show ?thesis by auto
qed

lemma deliver_wake_total:
  assumes b: "loaders n = Some (Some b)"
  shows "\<exists>r w'. deliver_wake b m h w = Some (r, w') \<and> shrinks serves w w' \<and>
    (r = Inr () \<longrightarrow> (\<exists>out v. bk_read_recent_output b h v = (Inr out, w') \<and>
       contains wake_marker (flatten out)))"
proof -
  obtain r1 w1 where rd: "bk_read_recent_output b h w = (r1, w1)" by fastforce
  note s1 = settle_calls(3) [OF b rd]
  show ?thesis
  proof (cases r1)
    case (Inl e)
    with rd s1 show ?thesis by (simp add: deliver_wake_def)
  next
    case (Inr out)
    obtain r2 w2 where lp: "wake_loop b m h (flatten out) (mc_now m w1 + WAKE_DEADLINE) w1 = Some (r2, w2)"
      and s2: "shrinks serves w1 w2"
      and echo: "\<forall>obs. r2 = Inr obs \<longrightarrow> (\<exists>out v. bk_read_recent_output b h v = (Inr out, w2) \<and>
         contains wake_marker (flatten out))"
      using wake_loop_total [OF b] by meson
    from echo shrinks_trans [OF s1 s2] rd lp Inr show ?thesis
      by (cases r2) (auto simp: deliver_wake_def)
  qed
qed

lemma settle_and_wake_total:
  assumes b: "loaders n = Some (Some b)"
  shows "\<exists>r w'. settle_and_wake b m h w = Some (r, w') \<and> shrinks serves w w' \<and>
    (r = Inr () \<longrightarrow> (\<exists>out v. bk_read_recent_output b h v = (Inr out, w') \<and>
       contains wake_marker (flatten out)))"
proof -
  obtain r1 w1 where aw: "bk_await_settled b h LAUNCH_SETTLE w = (r1, w1)" by fastforce
  note s1 = settle_calls(2) [OF b aw]
  obtain r2 w2 where "deliver_wake b m h w1 = Some (r2, w2)" "shrinks serves w1 w2"
    "r2 = Inr () \<longrightarrow> (\<exists>out v. bk_read_recent_output b h v = (Inr out, w2) \<and>
       contains wake_marker (flatten out))"
    using deliver_wake_total [OF b] by meson
  with s1 shrinks_trans [OF s1] aw show ?thesis
    by (cases r1) (auto simp: settle_and_wake_def)
qed

lemma cleanup_registered:
  assumes b: "loaders n = Some (Some b)" and inv: "registered serves h w"
    and e: "cache_get h work = Some e" "handle_of e = handle" and n: "rh_backend handle = n"
    and run: "cleanup b handle work (h, w) = (finished, h', w')"
  shows "registered serves h' w'"
proof -
  obtain proven w1 where t: "terminate_proven b handle w = (proven, w1)" by fastforce
  note ok = terminate_proven_ok [OF b t]
  have key: "(he_backend e, he_token e) = (n, rh_token handle)" using e(2) n by (auto simp: handle_of_def)
  show ?thesis
  proof (cases proven)
    case True
    from registered_drop(1) [OF registered_shrinks [OF inv ok(1)] e(1)] ok(2) [OF True] run t True
    show ?thesis by (simp add: cleanup_def key drop_entry_def)
  next
    case False
    with run t registered_shrinks [OF inv ok(1)] show ?thesis by (simp add: cleanup_def)
  qed
qed

text \<open>
  A launch that runs alone returns, and keeps every live runtime recorded, unless the call that starts
  the runtime was not answered in time: then the one it may have started is not recorded.
\<close>

lemma launch_registered:
  assumes b: "loaders n = Some (Some b)" and inv: "registered serves h w"
    and known: "ls_work_ref spec \<in> known"
  shows "\<exists>r h' w'. launch loaders b m d spec force started_at (h, w) = Some (r, h', w') \<and>
    (registered serves h' w' \<or>
     r = Inl (Failed n Launch_timeout) \<and> recorded_but serves (ls_work_ref spec) h' w')"
proof (cases "work_is_actionable d (ls_work_ref spec)")
  case (Some reason)
  with inv show ?thesis by (simp add: launch_def)
next
  case actionable: None
  obtain r1 w1 where det: "bk_detect b w = (r1, w1)" by fastforce
  note inv1 = registered_shrinks [OF inv detect_dies [OF b det]]
  show ?thesis
  proof (cases "\<exists>status. r1 = Inr status \<and> bs_available status")
    case False
    with actionable det inv1 show ?thesis by (cases r1) (auto simp: launch_def)
  next
    case True
    then obtain status where status: "r1 = Inr status" "bs_available status" by blast
    obtain r2 h2 w2 where lk: "launch_locked loaders b spec force started_at (h, w1) = (r2, h2, w2)"
      by (metis prod_cases3)
    note locked = launch_locked_registered [OF b inv1 known lk]
    have eq: "launch loaders b m d spec force started_at (h, w) =
        (case r2 of Inl e \<Rightarrow> Some (Inl e, h2, w2) | Inr handle \<Rightarrow> finish_launch b m spec handle (h2, w2))"
      using actionable det status lk by (simp add: launch_def split: sum.split)
    show ?thesis
    proof (cases r2)
      case (Inl e)
      with eq locked(1) show ?thesis by simp
    next
      case (Inr handle)
      have reg2: "registered serves h2 w2" using locked(1) Inr by simp
      from locked(2) [OF Inr] obtain e where n: "rh_backend handle = n"
        and e: "cache_get h2 (ls_work_ref spec) = Some e" "handle_of e = handle" by blast
      obtain r3 w3 where st: "settle_and_wake b m handle w2 = Some (r3, w3)" "shrinks serves w2 w3"
        using settle_and_wake_total [OF b] by meson
      note inv3 = registered_shrinks [OF reg2 st(2)]
      show ?thesis
      proof (cases r3)
        case (Inl err)
        obtain finished h4 w4 where c: "cleanup b handle (ls_work_ref spec) (h2, w3) = (finished, h4, w4)"
          by (metis prod_cases3)
        from cleanup_registered [OF b inv3 e n c] show ?thesis
          by (simp add: eq Inr finish_launch_def st(1) Inl c)
      next
        case ok: (Inr u)
        obtain r4 w4 where i: "bk_inspect b handle w3 = (r4, w4)" by fastforce
        from registered_shrinks [OF inv3 inspect_dies [OF b i]] show ?thesis
          by (cases r4) (simp_all add: eq Inr finish_launch_def st(1) ok i)
      qed
    qed
  qed
qed

end

context runtime_world
begin

text \<open>A teardown that runs alone keeps them recorded too, and what it answers is true.\<close>

lemma terminate_registered:
  assumes inv: "registered serves h w" and run: "terminate loaders work (h, w) = (answer, h', w')"
  shows "registered serves h' w'"
    and "answer \<noteq> Cleanup_incomplete \<Longrightarrow> serves w' x \<noteq> Some work"
proof -
  have "registered serves h' w' \<and> (answer \<noteq> Cleanup_incomplete \<longrightarrow> (\<forall>x. serves w' x \<noteq> Some work))"
  proof (cases "cache_get h work")
    case None
    with inv have "serves w x \<noteq> Some work" for x
      unfolding registered_def by (metis option.distinct(1))
    with run inv None show ?thesis by (auto simp: terminate_def)
  next
    case (Some entry)
    show ?thesis
    proof (cases "for_teardown loaders (he_backend entry)")
      case (Inl p)
      with run inv Some show ?thesis by (simp add: terminate_def)
    next
      case (Inr b)
      note b = teardown_loaded [OF Inr]
      obtain proven w1 where t: "terminate_proven b (handle_of entry) w = (proven, w1)" by fastforce
      note ok = terminate_proven_ok [OF b t]
      note inv1 = registered_shrinks [OF inv ok(1)]
      show ?thesis
      proof (cases proven)
        case True
        have "serves w1 (he_backend entry, he_token entry) = None"
          using ok(2) [OF True] by (simp add: handle_of_def)
        from registered_drop [OF inv1 Some this] run Some Inr t True show ?thesis
          by (auto simp: terminate_def retire_entry_def)
      next
        case False
        with run Some Inr t inv1 show ?thesis by (auto simp: terminate_def)
      qed
    qed
  qed
  then show "registered serves h' w'"
    and "answer \<noteq> Cleanup_incomplete \<Longrightarrow> serves w' x \<noteq> Some work"
    by blast+
qed

end

end
