(* ===== verification/Tmux_Backend.thy ===== *)
theory Tmux_Backend
  imports Launcher
begin

text \<open>
  \<^verbatim>\<open>kawa/runtime/tmux_backend.py\<close>: the backend that runs agents in windows of a tmux session.  The
  program \<^verbatim>\<open>tmux\<close> is a parameter: whether it is installed, and what one invocation returns (its
  exit status and output, or the error class \<open>_run\<close> raises when it does not return).  So are the
  digest \<open>sha\<close> (the hexadecimal text of SHA-256) and the environment \<open>env\<close> of the launcher.

  The locale \<open>tmux_host\<close> states what the backend relies on: the six other subcommands it uses
  open no window; \<^verbatim>\<open>new-window\<close>, however it ends, opens at most the one it names, and none when it
  exits with a failure (the code reads that as \<^verbatim>\<open>window not created\<close>) or tmux cannot be run, but one
  that is not answered in time may have opened it; a listing that succeeds shows every window, so an
  invocation that was given up has had its effect by then or never has one; tokens do not collide; and
  time passes.  The texts passed to tmux are taken to be passable (no NUL): the session is the
  operator's, the token is derived, and the cue is a constant of the launcher.  Shown: these give the
  contract of \<^verbatim>\<open>Launcher\<close>; \<open>await_settled\<close> ends; a server that meets them exists.
\<close>

section \<open>The program\<close>

record 'w tmux_cli =
  tm_binary :: bool
  tm_run :: "string list \<Rightarrow> ('w, nat \<times> string) call"

definition TMUX :: string where "TMUX = ''tmux''"

definition QUIET_S :: rat where "QUIET_S = 3 / 2"

definition POLL_S :: rat where "POLL_S = 1 / 4"

definition tmux_target :: "string \<Rightarrow> string \<Rightarrow> string" where
  "tmux_target session token = ''='' @ session @ '':='' @ token"

definition tmux_run :: "'w tmux_cli \<Rightarrow> string list \<Rightarrow> ('w, nat \<times> string) call" where
  "tmux_run cli args w = (if \<not> tm_binary cli then (Inl Binary_absent, w) else tm_run cli args w)"

definition list_args :: "string \<Rightarrow> string list" where
  "list_args session = [''list-windows'', ''-t'', ''='' @ session, ''-F'', ''#{window_name}'']"

definition tmux_windows :: "'w tmux_cli \<Rightarrow> string \<Rightarrow> ('w, string list) call" where
  "tmux_windows cli session w =
     (case tmux_run cli (list_args session) w of
        (Inl e, w1) \<Rightarrow> (Inl e, w1)
      | (Inr (rc, out), w1) \<Rightarrow> if rc \<noteq> 0 then (Inl Inspect_failed, w1) else (Inr (words_of out), w1))"

definition tmux_observation :: "runtime_handle \<Rightarrow> bool \<Rightarrow> runtime_observation" where
  "tmux_observation h present =
     \<lparr>ro_backend = TMUX, ro_handle_token = rh_token h,
      ro_presence = (if present then Present else Absent), ro_activity = Activity_unknown,
      ro_attention = Attention_unknown\<rparr>"

definition tmux_detect :: "'w tmux_cli \<Rightarrow> string \<Rightarrow> ('w, backend_status) call" where
  "tmux_detect cli session w =
     (if \<not> tm_binary cli then (Inr (unavailable ''binary_absent''), w)
      else
        (case tmux_run cli [''-V''] w of
           (Inl e, w1) \<Rightarrow> (Inl e, w1)
         | (Inr _, w1) \<Rightarrow>
             (case tmux_run cli [''has-session'', ''-t'', ''='' @ session] w1 of
                (Inl e, w2) \<Rightarrow> (Inl e, w2)
              | (Inr (rc, _), w2) \<Rightarrow>
                  if rc \<noteq> 0 then (Inr (unavailable ''server_absent''), w2)
                  else (Inr \<lparr>bs_available = True, bs_reason = []\<rparr>, w2))))"

definition COMMANDS :: "(string \<times> string) list" where
  "COMMANDS = [(''claude'', ''claude''), (''codex'', ''codex'')]"

definition env_args :: "(string \<times> string) list \<Rightarrow> string list" where
  "env_args env = concat (map (\<lambda>(k, v). [''-e'', k @ ''='' @ v]) (sort (build_env env)))"

definition new_window_args ::
    "string \<Rightarrow> (string \<times> string) list \<Rightarrow> string \<Rightarrow> string \<Rightarrow> string \<Rightarrow> string list" where
  "new_window_args session env token cwd command =
     [''new-window'', ''-d'', ''-t'', ''='' @ session @ '':'', ''-n'', token, ''-c'', cwd] @
     env_args env @ [command]"

definition tmux_launch ::
    "'w tmux_cli \<Rightarrow> string \<Rightarrow> (string \<Rightarrow> string) \<Rightarrow> (string \<times> string) list \<Rightarrow> launch_spec \<Rightarrow>
     ('w, runtime_handle) call" where
  "tmux_launch cli session sha env spec w =
     (case map_of COMMANDS (ls_agent_kind spec) of
        None \<Rightarrow> (Inl Backend_refused, w)
      | Some command \<Rightarrow>
          (let token = token_for sha (ls_work_ref spec) in
           case tmux_windows cli session w of
             (Inl e, w1) \<Rightarrow> (Inl e, w1)
           | (Inr wins, w1) \<Rightarrow>
               if token \<in> set wins then (Inl Already_running, w1)
               else
                 (case tmux_run cli (new_window_args session env token (ls_cwd spec) command) w1 of
                    (Inl e, w2) \<Rightarrow> (Inl e, w2)
                  | (Inr (rc, _), w2) \<Rightarrow>
                      if rc \<noteq> 0 then (Inl Backend_refused, w2)
                      else (Inr \<lparr>rh_backend = TMUX, rh_token = token\<rparr>, w2))))"

definition tmux_inspect :: "'w tmux_cli \<Rightarrow> string \<Rightarrow> runtime_handle \<Rightarrow> ('w, runtime_observation) call" where
  "tmux_inspect cli session h w =
     (case tmux_windows cli session w of
        (Inl e, w1) \<Rightarrow> (Inl e, w1)
      | (Inr wins, w1) \<Rightarrow> (Inr (tmux_observation h (rh_token h \<in> set wins)), w1))"

definition tmux_read :: "'w tmux_cli \<Rightarrow> string \<Rightarrow> runtime_handle \<Rightarrow> ('w, string) call" where
  "tmux_read cli session h w =
     (case tmux_run cli [''capture-pane'', ''-p'', ''-t'', tmux_target session (rh_token h)] w of
        (Inl e, w1) \<Rightarrow> (Inl e, w1)
      | (Inr (rc, out), w1) \<Rightarrow> if rc \<noteq> 0 then (Inl Inspect_failed, w1) else (Inr out, w1))"

definition tmux_wake :: "'w tmux_cli \<Rightarrow> string \<Rightarrow> runtime_handle \<Rightarrow> string \<Rightarrow> ('w, unit) call" where
  "tmux_wake cli session h cue w =
     (let target = tmux_target session (rh_token h) in
      case tmux_run cli [''send-keys'', ''-t'', target, ''-l'', cue, '';'', ''send-keys'', ''-t'', target,
                         ''Enter''] w of
        (Inl e, w1) \<Rightarrow> (Inl e, w1)
      | (Inr (rc, _), w1) \<Rightarrow> if rc \<noteq> 0 then (Inl Backend_refused, w1) else (Inr (), w1))"

definition tmux_terminate :: "'w tmux_cli \<Rightarrow> string \<Rightarrow> runtime_handle \<Rightarrow> ('w, unit) call" where
  "tmux_terminate cli session h w =
     (case tmux_run cli [''kill-window'', ''-t'', tmux_target session (rh_token h)] w of
        (Inl e, w1) \<Rightarrow> (Inl e, w1)
      | (Inr _, w1) \<Rightarrow>
          (case tmux_windows cli session w1 of
             (Inl e, w2) \<Rightarrow> (Inl e, w2)
           | (Inr wins, w2) \<Rightarrow>
               if rh_token h \<in> set wins then (Inl Terminate_failed, w2) else (Inr (), w2)))"

text \<open>The polling loop: the last screen, and since when it has not changed.\<close>

partial_function (option) settle_loop ::
    "'w tmux_cli \<Rightarrow> 'w machine \<Rightarrow> string \<Rightarrow> runtime_handle \<Rightarrow> rat \<Rightarrow> (string \<times> rat) option \<Rightarrow> 'w \<Rightarrow>
     ((error_class + runtime_observation) \<times> 'w) option" where
  "settle_loop cli m session h deadline quiet w =
     (if deadline \<le> mc_now m w then Some (Inl Launch_timeout, w)
      else
        (case tmux_windows cli session w of
           (Inl e, w1) \<Rightarrow> Some (Inl e, w1)
         | (Inr wins, w1) \<Rightarrow>
             if rh_token h \<notin> set wins then Some (Inr (tmux_observation h False), w1)
             else
               (case tmux_read cli session h w1 of
                  (Inl e, w2) \<Rightarrow> Some (Inl e, w2)
                | (Inr screen, w2) \<Rightarrow>
                    (case quiet of
                       None \<Rightarrow>
                         settle_loop cli m session h deadline (Some (screen, mc_now m w2))
                           (mc_sleep m POLL_S w2)
                     | Some (previous, since) \<Rightarrow>
                         if screen \<noteq> previous then
                           settle_loop cli m session h deadline (Some (screen, mc_now m w2))
                             (mc_sleep m POLL_S w2)
                         else if QUIET_S \<le> mc_now m w2 - since then
                           Some (Inr (tmux_observation h True), w2)
                         else settle_loop cli m session h deadline quiet (mc_sleep m POLL_S w2)))))"

declare settle_loop.simps [code]

text \<open>
  \<open>await_settled\<close>.  A loop that does not end has no value; the
  call is given one, and \<open>settle_loop_total\<close> shows that the case does not occur.
\<close>

definition tmux_await ::
    "'w tmux_cli \<Rightarrow> 'w machine \<Rightarrow> string \<Rightarrow> runtime_handle \<Rightarrow> rat \<Rightarrow> ('w, runtime_observation) call" where
  "tmux_await cli m session h timeout w =
     (case settle_loop cli m session h (mc_now m w + timeout) None w of
        Some r \<Rightarrow> r
      | None \<Rightarrow> (Inl Launch_timeout, w))"

definition tmux_backend ::
    "'w tmux_cli \<Rightarrow> 'w machine \<Rightarrow> string \<Rightarrow> (string \<Rightarrow> string) \<Rightarrow> (string \<times> string) list \<Rightarrow> 'w backend" where
  "tmux_backend cli m session sha env =
     \<lparr>bk_name = TMUX, bk_detect = tmux_detect cli session,
      bk_launch = tmux_launch cli session sha env,
      bk_await_settled = tmux_await cli m session, bk_wake = tmux_wake cli session,
      bk_inspect = tmux_inspect cli session, bk_read_recent_output = tmux_read cli session,
      bk_terminate = tmux_terminate cli session\<rparr>"

text \<open>The loaders of a node on which the other adapter is not installed.\<close>

definition tmux_loaders ::
    "'w tmux_cli \<Rightarrow> 'w machine \<Rightarrow> string \<Rightarrow> (string \<Rightarrow> string) \<Rightarrow> (string \<times> string) list \<Rightarrow> 'w loaders" where
  "tmux_loaders cli m session sha env =
     (\<lambda>name. if name = TMUX then Some (Some (tmux_backend cli m session sha env))
             else if name = ''herdr'' then Some None else None)"

section \<open>What is relied on\<close>

definition OPENS_NONE :: "string set" where
  "OPENS_NONE = {''list-windows'', ''-V'', ''has-session'', ''capture-pane'', ''send-keys'', ''kill-window''}"

locale tmux_host =
  fixes cli :: "'w tmux_cli" and m :: "'w machine" and session :: string
    and sha :: "string \<Rightarrow> string" and env :: "(string \<times> string) list"
    and wins :: "'w \<Rightarrow> string set" and work_of :: "string \<Rightarrow> string option"
    and known :: "string set"
  assumes run_opens_none: "tm_run cli args w = (r, w') \<Longrightarrow> hd args \<in> OPENS_NONE \<Longrightarrow> wins w' \<subseteq> wins w"
    and listing_complete: "tm_run cli (list_args session) w = (Inr (0, out), w') \<Longrightarrow>
      wins w' \<subseteq> set (words_of out)"
    and new_window_opens: "tm_run cli (new_window_args session env token cwd command) w = (r, w') \<Longrightarrow>
      wins w' \<subseteq> insert token (wins w)"
    and new_window_refused: "tm_run cli (new_window_args session env token cwd command) w = (r, w') \<Longrightarrow>
      r \<noteq> Inl Launch_timeout \<Longrightarrow> (\<And>out. r \<noteq> Inr (0, out)) \<Longrightarrow> wins w' \<subseteq> wins w"
    and tokens_name_work: "work \<in> known \<Longrightarrow> work_of (token_for sha work) = Some work"
    and run_takes: "tm_run cli args w = (r, w') \<Longrightarrow> mc_now m w \<le> mc_now m w'"
    and sleep_opens_none: "wins (mc_sleep m d w) \<subseteq> wins w"
    and sleep_takes_time: "mc_now m w + d \<le> mc_now m (mc_sleep m d w)"
begin

abbreviation serves :: "'w \<Rightarrow> string \<times> string \<Rightarrow> string option" where
  "serves \<equiv> serving TMUX wins work_of"

lemma fewer_windows: "wins w' \<subseteq> wins w \<Longrightarrow> shrinks serves w w'"
  by (rule serving_shrinks)

lemma run_fewer: "tmux_run cli args w = (r, w') \<Longrightarrow> hd args \<in> OPENS_NONE \<Longrightarrow> wins w' \<subseteq> wins w"
  using run_opens_none by (auto simp: tmux_run_def split: if_splits)

lemma run_later: "tmux_run cli args w = (r, w') \<Longrightarrow> mc_now m w \<le> mc_now m w'"
  using run_takes by (auto simp: tmux_run_def split: if_splits)

lemma windows_fewer:
  assumes "tmux_windows cli session w = (r, w')"
  shows "wins w' \<subseteq> wins w" and "\<And>ws. r = Inr ws \<Longrightarrow> wins w' \<subseteq> set ws"
    and "mc_now m w \<le> mc_now m w'"
proof -
  obtain r1 w1 where run: "tmux_run cli (list_args session) w = (r1, w1)" by fastforce
  have w': "w' = w1" using assms run
    by (auto simp: tmux_windows_def split: sum.splits prod.splits if_splits)
  show "wins w' \<subseteq> wins w" unfolding w' by (rule run_fewer [OF run]) (simp add: list_args_def OPENS_NONE_def)
  show "mc_now m w \<le> mc_now m w'" unfolding w' by (rule run_later [OF run])
  show "wins w' \<subseteq> set ws" if "r = Inr ws" for ws
  proof -
    from assms run that obtain out where "r1 = Inr (0, out)" "ws = words_of out"
      by (auto simp: tmux_windows_def split: sum.splits prod.splits if_splits)
    with run listing_complete [of w out w1] that assms w' show ?thesis
      by (auto simp: tmux_run_def split: if_splits)
  qed
qed

lemma inspect_facts:
  assumes "tmux_inspect cli session h w = (r, w')"
  shows "wins w' \<subseteq> wins w" and "mc_now m w \<le> mc_now m w'"
    and "\<And>obs. r = Inr obs \<Longrightarrow> ro_presence obs \<noteq> Present \<Longrightarrow> rh_token h \<notin> wins w'"
proof -
  obtain r1 w1 where run: "tmux_windows cli session w = (r1, w1)" by fastforce
  note facts = windows_fewer [OF run]
  have w': "w' = w1" using assms run by (auto simp: tmux_inspect_def split: sum.splits)
  show "wins w' \<subseteq> wins w" "mc_now m w \<le> mc_now m w'" unfolding w' by (fact facts)+
  show "rh_token h \<notin> wins w'" if "r = Inr obs" "ro_presence obs \<noteq> Present" for obs
    using assms run facts(2) that w'
    by (auto simp: tmux_inspect_def tmux_observation_def split: sum.splits if_splits)
qed

lemma read_facts:
  assumes "tmux_read cli session h w = (r, w')"
  shows "wins w' \<subseteq> wins w" and "mc_now m w \<le> mc_now m w'"
proof -
  obtain r1 w1 where run: "tmux_run cli
      [''capture-pane'', ''-p'', ''-t'', tmux_target session (rh_token h)] w = (r1, w1)" by fastforce
  have "w' = w1" using assms run
    by (auto simp: tmux_read_def split: sum.splits prod.splits if_splits)
  with run_fewer [OF run] run_later [OF run]
  show "wins w' \<subseteq> wins w" "mc_now m w \<le> mc_now m w'" by (simp_all add: OPENS_NONE_def)
qed

lemma wake_facts:
  assumes "tmux_wake cli session h cue w = (r, w')"
  shows "wins w' \<subseteq> wins w" and "mc_now m w \<le> mc_now m w'"
proof -
  let ?t = "tmux_target session (rh_token h)"
  obtain r1 w1 where run: "tmux_run cli [''send-keys'', ''-t'', ?t, ''-l'', cue, '';'', ''send-keys'',
      ''-t'', ?t, ''Enter''] w = (r1, w1)" by fastforce
  have "w' = w1" using assms run
    by (auto simp: tmux_wake_def Let_def split: sum.splits prod.splits if_splits)
  with run_fewer [OF run] run_later [OF run]
  show "wins w' \<subseteq> wins w" "mc_now m w \<le> mc_now m w'" by (simp_all add: OPENS_NONE_def)
qed

lemma detect_facts:
  assumes "tmux_detect cli session w = (r, w')"
  shows "wins w' \<subseteq> wins w"
proof -
  obtain r1 w1 where v: "tmux_run cli [''-V''] w = (r1, w1)" by fastforce
  obtain r2 w2 where s: "tmux_run cli [''has-session'', ''-t'', ''='' @ session] w1 = (r2, w2)"
    by fastforce
  have "w' \<in> {w, w1, w2}" using assms v s
    by (auto simp: tmux_detect_def split: sum.splits prod.splits if_splits)
  with run_fewer [OF v] run_fewer [OF s] show ?thesis by (auto simp: OPENS_NONE_def)
qed

lemma terminate_facts:
  assumes "tmux_terminate cli session h w = (r, w')"
  shows "wins w' \<subseteq> wins w" and "r = Inr u \<Longrightarrow> rh_token h \<notin> wins w'"
proof -
  obtain r1 w1 where k: "tmux_run cli [''kill-window'', ''-t'', tmux_target session (rh_token h)] w = (r1, w1)"
    by fastforce
  obtain r2 w2 where l: "tmux_windows cli session w1 = (r2, w2)" by fastforce
  note facts = windows_fewer [OF l]
  have "w' \<in> {w1, w2}" using assms k l
    by (auto simp: tmux_terminate_def split: sum.splits prod.splits if_splits)
  with run_fewer [OF k] facts(1) show "wins w' \<subseteq> wins w" by (auto simp: OPENS_NONE_def)
  show "rh_token h \<notin> wins w'" if "r = Inr u"
    using assms k l facts(2) that
    by (auto simp: tmux_terminate_def split: sum.splits prod.splits if_splits)
qed

lemma launch_facts:
  assumes "tmux_launch cli session sha env spec w = (r, w')"
  shows "\<And>h. r = Inr h \<Longrightarrow> rh_backend h = TMUX \<and> rh_token h = token_for sha (ls_work_ref spec) \<and>
      wins w' \<subseteq> insert (rh_token h) (wins w)"
    and "\<And>e. r = Inl e \<Longrightarrow> e \<noteq> Launch_timeout \<Longrightarrow> wins w' \<subseteq> wins w"
    and "wins w' \<subseteq> insert (token_for sha (ls_work_ref spec)) (wins w)"
proof -
  have "(\<forall>h. r = Inr h \<longrightarrow> rh_backend h = TMUX \<and> rh_token h = token_for sha (ls_work_ref spec) \<and>
      wins w' \<subseteq> insert (rh_token h) (wins w)) \<and> (\<forall>e. r = Inl e \<longrightarrow> e \<noteq> Launch_timeout \<longrightarrow> wins w' \<subseteq> wins w) \<and>
      wins w' \<subseteq> insert (token_for sha (ls_work_ref spec)) (wins w)"
  proof (cases "map_of COMMANDS (ls_agent_kind spec)")
    case None
    with assms show ?thesis by (auto simp: tmux_launch_def)
  next
    case (Some command)
    let ?token = "token_for sha (ls_work_ref spec)"
    obtain r1 w1 where l: "tmux_windows cli session w = (r1, w1)" by fastforce
    note fewer = windows_fewer(1) [OF l]
    obtain r2 w2 where n: "tmux_run cli (new_window_args session env ?token (ls_cwd spec) command) w1
        = (r2, w2)" by fastforce
    have opened: "wins w2 \<subseteq> insert ?token (wins w1)"
      using n new_window_opens [of ?token "ls_cwd spec" command w1 r2 w2]
      by (auto simp: tmux_run_def split: if_splits)
    have failed: "wins w2 \<subseteq> wins w1" if "\<And>out. r2 \<noteq> Inr (0, out)" "r2 \<noteq> Inl Launch_timeout"
      using n that new_window_refused [of ?token "ls_cwd spec" command w1 r2 w2]
      by (auto simp: tmux_run_def split: if_splits)
    show ?thesis
    proof (cases "\<exists>ws. r1 = Inr ws \<and> ?token \<notin> set ws")
      case False
      with assms Some l fewer show ?thesis
        by (cases r1) (auto simp: tmux_launch_def Let_def)
    next
      case True
      then have eq: "(r, w') = (case r2 of Inl e \<Rightarrow> (Inl e, w2)
          | Inr (rc, out) \<Rightarrow> if rc \<noteq> 0 then (Inl Backend_refused, w2)
              else (Inr \<lparr>rh_backend = TMUX, rh_token = ?token\<rparr>, w2))"
        using assms Some l n by (auto simp: tmux_launch_def Let_def split: sum.split prod.split)
      show ?thesis
      proof (cases "\<exists>out. r2 = Inr (0, out)")
        case True
        then obtain out where out: "r2 = Inr (0, out)" by blast
        have "r = Inr \<lparr>rh_backend = TMUX, rh_token = ?token\<rparr>" "w' = w2" using eq out by simp_all
        moreover have "wins w2 \<subseteq> insert ?token (wins w)" using opened fewer by blast
        ultimately show ?thesis by simp
      next
        case False
        have w': "w' = w2" using eq by (auto split: sum.splits prod.splits if_splits)
        have "wins w2 \<subseteq> insert ?token (wins w)" using opened fewer by blast
        moreover have "wins w2 \<subseteq> wins w" if "r = Inl e" "e \<noteq> Launch_timeout" for e
        proof -
          have "r2 \<noteq> Inl Launch_timeout" using eq that by auto
          with failed False fewer show ?thesis by blast
        qed
        moreover have "r \<noteq> Inr h" for h using eq False by (auto split: sum.splits prod.splits if_splits)
        ultimately show ?thesis by (auto simp: w')
      qed
    qed
  qed
  then show "\<And>h. r = Inr h \<Longrightarrow> rh_backend h = TMUX \<and> rh_token h = token_for sha (ls_work_ref spec) \<and>
      wins w' \<subseteq> insert (rh_token h) (wins w)"
    and "\<And>e. r = Inl e \<Longrightarrow> e \<noteq> Launch_timeout \<Longrightarrow> wins w' \<subseteq> wins w"
    and "wins w' \<subseteq> insert (token_for sha (ls_work_ref spec)) (wins w)"
    by blast+
qed

text \<open>\<open>await_settled\<close>: each round ends it or comes back a quarter of a second later.\<close>

lemma settle_round:
  "(\<exists>r w'. settle_loop cli m session h deadline quiet w = Some (r, w') \<and> wins w' \<subseteq> wins w \<and>
      mc_now m w \<le> mc_now m w') \<or>
   (\<exists>quiet' w'. settle_loop cli m session h deadline quiet w =
        settle_loop cli m session h deadline quiet' w' \<and> wins w' \<subseteq> wins w \<and>
      mc_now m w + POLL_S \<le> mc_now m w' \<and> mc_now m w < deadline)"
proof (cases "deadline \<le> mc_now m w")
  case True
  then show ?thesis by (subst settle_loop.simps) simp
next
  case early: False
  obtain r1 w1 where l: "tmux_windows cli session w = (r1, w1)" by fastforce
  obtain r2 w2 where rd: "tmux_read cli session h w1 = (r2, w2)" by fastforce
  note lf = windows_fewer [OF l] and rf = read_facts [OF rd]
  consider (list) e where "r1 = Inl e" | (gone) ws where "r1 = Inr ws" "rh_token h \<notin> set ws"
    | (read) ws e where "r1 = Inr ws" "rh_token h \<in> set ws" "r2 = Inl e"
    | (screen) ws screen where "r1 = Inr ws" "rh_token h \<in> set ws" "r2 = Inr screen"
    by (metis sum.exhaust)
  then show ?thesis
  proof cases
    case list
    with early l lf show ?thesis by (subst settle_loop.simps) simp
  next
    case gone
    with early l lf show ?thesis by (subst settle_loop.simps) simp
  next
    case read
    have "wins w2 \<subseteq> wins w" "mc_now m w \<le> mc_now m w2" using lf rf by auto
    with read early l rd show ?thesis by (subst settle_loop.simps) simp
  next
    case screen
    have w2: "wins w2 \<subseteq> wins w" "mc_now m w \<le> mc_now m w2" using lf rf by auto
    let ?w3 = "mc_sleep m POLL_S w2"
    have w3: "wins ?w3 \<subseteq> wins w" "mc_now m w + POLL_S \<le> mc_now m ?w3"
      using w2 sleep_opens_none [of POLL_S w2] sleep_takes_time [of w2 POLL_S] by auto
    have "settle_loop cli m session h deadline quiet w = Some (Inr (tmux_observation h True), w2) \<or>
        (\<exists>quiet'. settle_loop cli m session h deadline quiet w =
           settle_loop cli m session h deadline quiet' ?w3)"
      by (subst (1 2) settle_loop.simps) (use early l rd screen in \<open>auto split: option.split\<close>)
    with w2 w3 early show ?thesis by force
  qed
qed

lemma settle_loop_total:
  "\<exists>r w'. settle_loop cli m session h deadline quiet w = Some (r, w') \<and> wins w' \<subseteq> wins w \<and>
     mc_now m w \<le> mc_now m w'"
proof -
  let ?f = "\<lambda>(quiet, w). settle_loop cli m session h deadline quiet w"
  let ?P = "\<lambda>(quiet, w) (r, w'). wins w' \<subseteq> wins w \<and> mc_now m w \<le> mc_now m w'"
  have "\<exists>x. ?f (quiet, w) = Some x \<and> ?P (quiet, w) x"
  proof (rule polling_ends [where f = ?f and P = ?P and now = "\<lambda>(_, w). mc_now m w"
        and step = POLL_S and deadline = deadline])
    show "0 < POLL_S" by (simp add: POLL_S_def)
    show "(\<exists>x. ?f s = Some x \<and> ?P s x) \<or>
      (\<exists>s'. ?f s = ?f s' \<and> (case s of (_, w) \<Rightarrow> mc_now m w) + POLL_S \<le> (case s' of (_, w) \<Rightarrow> mc_now m w) \<and>
        (case s of (_, w) \<Rightarrow> mc_now m w) < deadline \<and> (\<forall>x. ?P s' x \<longrightarrow> ?P s x))" for s
    proof (cases s)
      case (Pair q v)
      from settle_round [of h deadline q v] show ?thesis
      proof (elim disjE exE conjE)
        fix r w' assume "settle_loop cli m session h deadline q v = Some (r, w')"
          "wins w' \<subseteq> wins v" "mc_now m v \<le> mc_now m w'"
        then show ?thesis by (intro disjI1 exI [of _ "(r, w')"]) (simp add: Pair)
      next
        fix q' w' assume eq: "settle_loop cli m session h deadline q v =
            settle_loop cli m session h deadline q' w'"
          and "wins w' \<subseteq> wins v" "mc_now m v + POLL_S \<le> mc_now m w'" "mc_now m v < deadline"
        moreover have "0 < POLL_S" by (simp add: POLL_S_def)
        ultimately show ?thesis by (intro disjI2 exI [of _ "(q', w')"]) (auto simp: Pair)
      qed
    qed
  qed
  then show ?thesis by auto
qed

lemma await_facts:
  assumes "tmux_await cli m session h timeout w = (r, w')"
  shows "wins w' \<subseteq> wins w" and "mc_now m w \<le> mc_now m w'"
  using assms settle_loop_total [of h "mc_now m w + timeout" None w]
  by (auto simp: tmux_await_def)

lemma loaded_tmux:
  "tmux_loaders cli m session sha env n = Some (Some b) \<longleftrightarrow>
     n = TMUX \<and> b = tmux_backend cli m session sha env"
  by (auto simp: tmux_loaders_def)

end

text \<open>The laws of the contract hold of this backend.\<close>

sublocale tmux_host \<subseteq> waking_world "tmux_loaders cli m session sha env" serves known m
proof
  let ?L = "tmux_loaders cli m session sha env"
  fix n b h w w' r1 r2 r3 cue d t
  assume "?L n = Some (Some b)"
  then have n: "n = TMUX" and b: "b = tmux_backend cli m session sha env"
    by (simp_all add: loaded_tmux)
  show "bk_name b = n" by (simp add: n b tmux_backend_def)
  { assume "bk_await_settled b h t w = (r1, w')"
    then have "tmux_await cli m session h t w = (r1, w')" by (simp add: b tmux_backend_def)
    from await_facts [OF this]
    show "shrinks serves w w'" "mc_now m w \<le> mc_now m w'" by (simp_all add: fewer_windows) }
  { assume "bk_wake b h cue w = (r2, w')"
    then have "tmux_wake cli session h cue w = (r2, w')" by (simp add: b tmux_backend_def)
    from wake_facts [OF this]
    show "shrinks serves w w'" "mc_now m w \<le> mc_now m w'" by (simp_all add: fewer_windows) }
  { assume "bk_read_recent_output b h w = (r3, w')"
    then have "tmux_read cli session h w = (r3, w')" by (simp add: b tmux_backend_def)
    from read_facts [OF this]
    show "shrinks serves w w'" "mc_now m w \<le> mc_now m w'" by (simp_all add: fewer_windows) }
  { assume "bk_inspect b h w = (r1, w')"
    then have "tmux_inspect cli session h w = (r1, w')" by (simp add: b tmux_backend_def)
    from inspect_facts [OF this] show "shrinks serves w w'" by (simp add: fewer_windows) }
  { assume "bk_terminate b h w = (r2, w')"
    then have "tmux_terminate cli session h w = (r2, w')" by (simp add: b tmux_backend_def)
    from terminate_facts [OF this] show "shrinks serves w w'" by (simp add: fewer_windows) }
next
  let ?L = "tmux_loaders cli m session sha env"
  fix n b h w w' r obs u
  assume "?L n = Some (Some b)"
  then have n: "n = TMUX" and b: "b = tmux_backend cli m session sha env"
    by (simp_all add: loaded_tmux)
  { fix r :: "error_class + backend_status" assume "bk_detect b w = (r, w')"
    then have "tmux_detect cli session w = (r, w')" by (simp add: b tmux_backend_def)
    from detect_facts [OF this] show "shrinks serves w w'" by (simp add: fewer_windows) }
  { assume "bk_inspect b h w = (Inr obs, w')" and gone: "ro_presence obs \<noteq> Present"
    then have "tmux_inspect cli session h w = (Inr obs, w')" by (simp add: b tmux_backend_def)
    from inspect_facts(3) [OF this refl gone] show "serves w' (n, rh_token h) = None"
      by (rule serving_dead) }
  { assume "bk_terminate b h w = (Inr u, w')"
    then have "tmux_terminate cli session h w = (Inr u, w')" by (simp add: b tmux_backend_def)
    from terminate_facts(2) [OF this refl] show "serves w' (n, rh_token h) = None"
      by (rule serving_dead) }
next
  let ?L = "tmux_loaders cli m session sha env"
  fix n b spec w w' h e
  assume "?L n = Some (Some b)"
  then have n: "n = TMUX" and b: "b = tmux_backend cli m session sha env"
    by (simp_all add: loaded_tmux)
  { assume known: "ls_work_ref spec \<in> known" and "bk_launch b spec w = (Inr h, w')"
    then have "tmux_launch cli session sha env spec w = (Inr h, w')" by (simp add: b tmux_backend_def)
    from launch_facts(1) [OF this refl] have
      h: "rh_backend h = TMUX" "rh_token h = token_for sha (ls_work_ref spec)"
        "wins w' \<subseteq> insert (rh_token h) (wins w)" by blast+
    have "work_of (rh_token h) = Some (ls_work_ref spec)" by (simp add: h(2) tokens_name_work known)
    with h show "rh_backend h = n \<and> (\<forall>x. serves w' x = serves w x \<or> serves w' x = None \<or>
        x = (n, rh_token h) \<and> serves w' x = Some (ls_work_ref spec))"
      by (auto simp: n serving_def) }
  { assume "bk_launch b spec w = (Inl e, w')" "e \<noteq> Launch_timeout"
    then have "tmux_launch cli session sha env spec w = (Inl e, w')" by (simp add: b tmux_backend_def)
    from launch_facts(2) [OF this refl \<open>e \<noteq> Launch_timeout\<close>] show "shrinks serves w w'" by (rule fewer_windows) }
  { fix x assume known: "ls_work_ref spec \<in> known" and "bk_launch b spec w = (Inl Launch_timeout, w')"
    then have "tmux_launch cli session sha env spec w = (Inl Launch_timeout, w')" by (simp add: b tmux_backend_def)
    from launch_facts(3) [OF this] tokens_name_work [OF known]
    show "serves w' x = serves w x \<or> serves w' x = None \<or> serves w' x = Some (ls_work_ref spec)"
      by (auto simp: serving_def split: prod.splits) }
next
  fix w d
  show "shrinks serves w (mc_sleep m d w)" by (rule fewer_windows [OF sleep_opens_none])
  show "mc_now m w + d \<le> mc_now m (mc_sleep m d w)" by (rule sleep_takes_time)
qed

text \<open>What the launcher then does, in terms of this backend.\<close>

context tmux_host
begin

lemma launch_recorded:
  assumes "registered serves h w" and "ls_work_ref spec \<in> known"
  shows "\<exists>r h' w'. launch (tmux_loaders cli m session sha env)
      (tmux_backend cli m session sha env) m d spec force started_at (h, w) = Some (r, h', w') \<and>
    (registered serves h' w' \<or>
     r = Inl (Failed TMUX Launch_timeout) \<and> recorded_but serves (ls_work_ref spec) h' w')"
  by (rule launch_registered [OF _ assms]) (simp add: loaded_tmux)

lemma terminate_true:
  assumes "registered serves h w"
    and "terminate (tmux_loaders cli m session sha env) work (h, w) = (answer, h', w')"
  shows "registered serves h' w' \<and> (answer = Cleanup_incomplete \<or> (\<forall>x. serves w' x \<noteq> Some work))"
  using terminate_registered [OF assms] by blast

lemma wake_delivered:
  "\<exists>r w'. deliver_wake (tmux_backend cli m session sha env) m h w = Some (r, w') \<and>
     (r = Inr () \<longrightarrow> (\<exists>out v. tmux_read cli session h v = (Inr out, w') \<and>
        contains wake_marker (flatten out)))"
proof -
  have "tmux_loaders cli m session sha env TMUX =
      Some (Some (tmux_backend cli m session sha env))"
    by (simp add: loaded_tmux)
  from deliver_wake_total [OF this, of h w] show ?thesis by (auto simp: tmux_backend_def)
qed

end

text \<open>
  The comparison in \<open>terminate\<close> does not protect a successor: the token is a function of the Work,
  so the entry of the next launch of the same Work passes for the entry of the runtime that was
  torn down, and is dropped.
\<close>

lemma retire_forgets:
  assumes "tmux_launch cli session sha env spec w = (Inr handle, w')"
    and "he_token entry = token_for sha (ls_work_ref spec)"
  shows "cache_get (retire_entry (ls_work_ref spec) entry
      (cache_put (ls_work_ref spec) (rh_backend handle) (rh_token handle) started_at h))
      (ls_work_ref spec) = None"
proof -
  have "rh_token handle = token_for sha (ls_work_ref spec)"
    using assms(1) by (auto simp: tmux_launch_def Let_def split: option.splits prod.splits
        sum.splits if_splits)
  with assms(2) show ?thesis by (simp add: retire_entry_def cache_get_put cache_get_drop)
qed

end
