(* ===== verification/Tmux_Server.thy ===== *)
theory Tmux_Server
  imports Tmux_Backend
begin

text \<open>
  A tmux server that meets what \<open>tmux_host\<close> relies on: the windows of the operator's session with
  what their panes show, and the clock.  The answers are the ones the comments of
  \<^verbatim>\<open>kawa/runtime/tmux_backend.py\<close> record of tmux 3.6: a window name is listed on a line of its own,
  killing an absent window exits 1, a literal send is echoed by the terminal.  With it the launcher
  is run: a launch that ends well, one whose new window is opened and not answered for, and two
  invocations that interleave.
\<close>

section \<open>The server\<close>

record tmux_server =
  tv_windows :: "(string \<times> string) list"
  tv_clock :: rat

definition line_feed :: char where "line_feed = CHR 0x0A"

definition listing :: "tmux_server \<Rightarrow> string" where
  "listing s = concat (map (\<lambda>(name, _). name @ [line_feed]) (tv_windows s))"

definition addressed :: "string \<Rightarrow> string \<Rightarrow> string \<times> string \<Rightarrow> bool" where
  "addressed session target = (\<lambda>(name, _). tmux_target session name = target)"

definition open_window :: "string \<Rightarrow> tmux_server \<Rightarrow> (error_class + nat \<times> string) \<times> tmux_server" where
  "open_window token s =
     (if words_of token = [token] then (Inr (0, []), s\<lparr>tv_windows := tv_windows s @ [(token, [])]\<rparr>)
      else (Inr (1, []), s))"

definition kill_window ::
    "string \<Rightarrow> string \<Rightarrow> tmux_server \<Rightarrow> (error_class + nat \<times> string) \<times> tmux_server" where
  "kill_window session target s =
     (if list_ex (addressed session target) (tv_windows s) then
        (Inr (0, []), s\<lparr>tv_windows := filter (\<lambda>x. \<not> addressed session target x) (tv_windows s)\<rparr>)
      else (Inr (1, []), s))"

definition send_keys ::
    "string \<Rightarrow> string \<Rightarrow> string \<Rightarrow> tmux_server \<Rightarrow> (error_class + nat \<times> string) \<times> tmux_server" where
  "send_keys session target cue s =
     (if list_ex (addressed session target) (tv_windows s) then
        (Inr (0, []), s\<lparr>tv_windows := map (\<lambda>x. if addressed session target x
           then (fst x, snd x @ cue @ [line_feed]) else x) (tv_windows s)\<rparr>)
      else (Inr (1, []), s))"

definition capture_pane ::
    "string \<Rightarrow> string \<Rightarrow> tmux_server \<Rightarrow> (error_class + nat \<times> string) \<times> tmux_server" where
  "capture_pane session target s =
     (case filter (addressed session target) (tv_windows s) of
        [] \<Rightarrow> (Inr (1, []), s)
      | x # _ \<Rightarrow> (Inr (0, snd x), s))"

definition server_run ::
    "string \<Rightarrow> string list \<Rightarrow> tmux_server \<Rightarrow> (error_class + nat \<times> string) \<times> tmux_server" where
  "server_run session args s =
     (if args = list_args session then (Inr (0, listing s), s)
      else if hd args = ''new-window'' then open_window (args ! 5) s
      else if hd args = ''kill-window'' then kill_window session (args ! 2) s
      else if hd args = ''send-keys'' then send_keys session (args ! 2) (args ! 4) s
      else if hd args = ''capture-pane'' then capture_pane session (args ! 3) s
      else (Inr (0, []), s))"

definition server_cli :: "string \<Rightarrow> tmux_server tmux_cli" where
  "server_cli session = \<lparr>tm_binary = True, tm_run = server_run session\<rparr>"

definition server_machine :: "tmux_server machine" where
  "server_machine =
     \<lparr>mc_now = tv_clock, mc_sleep = (\<lambda>d s. s\<lparr>tv_clock := tv_clock s + d\<rparr>)\<rparr>"

text \<open>The windows a listing can show: those whose names are one word.\<close>

definition server_windows :: "tmux_server \<Rightarrow> string set" where
  "server_windows s = {t \<in> fst ` set (tv_windows s). words_of t = [t]}"

definition tokens_of :: "(string \<Rightarrow> string) \<Rightarrow> string list \<Rightarrow> string \<Rightarrow> string option" where
  "tokens_of sha works t = find (\<lambda>work. token_for sha work = t) works"

lemma words_of_Nil [simp]: "words_of [] = []"
  by (simp add: words_of.simps)

lemma words_of_space: "split_space c \<Longrightarrow> words_of (c # t) = words_of t"
  by (subst (1 2) words_of.simps) simp

lemma words_of_append:
  assumes "split_space c"
  shows "words_of (a @ c # b) = words_of a @ words_of b"
proof (induction a rule: words_of.induct)
  case (1 a)
  show ?case
  proof (cases "dropWhile split_space a")
    case Nil
    then have "dropWhile split_space (a @ c # b) = dropWhile split_space b"
      using assms by (simp add: dropWhile_append dropWhile_eq_Nil_conv)
    then have "words_of (a @ c # b) = words_of b" by (subst (1 2) words_of.simps) simp
    moreover have "words_of a = []" by (subst words_of.simps) (simp add: Nil)
    ultimately show ?thesis by simp
  next
    case (Cons x t)
    then have x: "\<not> split_space x" by (metis hd_dropWhile list.sel(1) list.distinct(1))
    have "x \<in> set a" using Cons set_dropWhileD [of x split_space a] by (metis list.set_intros(1) set_dropWhileD)
    from dropWhile_append1 [where P = split_space, OF this x] Cons
    have drop: "dropWhile split_space (a @ c # b) = x # t @ c # b" by simp
    let ?p = "\<lambda>x. \<not> split_space x"
    have head: "takeWhile ?p (t @ c # b) = takeWhile ?p t"
      using assms by (simp add: takeWhile_tail)
    have "\<not> ?p c" using assms by simp
    then have tail: "dropWhile ?p (t @ c # b) = dropWhile ?p t @ c # b"
      by (induction t) auto
    have "words_of (a @ c # b) = (x # takeWhile ?p (t @ c # b)) # words_of (dropWhile ?p (t @ c # b))"
      using x by (subst words_of.simps) (simp add: drop)
    also have "\<dots> = (x # takeWhile ?p t) # words_of (dropWhile ?p t) @ words_of b"
      unfolding head tail by (simp add: 1 [OF Cons])
    also have "\<dots> = words_of a @ words_of b"
      using x by (subst (2) words_of.simps) (simp add: Cons)
    finally show ?thesis .
  qed
qed

lemma words_of_listing:
  "set (words_of (concat (map (\<lambda>(name, _). name @ [line_feed]) ws))) = (\<Union>x\<in>set ws. set (words_of (fst x)))"
proof -
  have nl: "split_space line_feed" by code_simp
  show ?thesis
  proof (induction ws)
    case (Cons x ws)
    then show ?case
      using words_of_append [OF nl, of "fst x"] by (simp add: case_prod_unfold)
  qed simp
qed

section \<open>It is one\<close>

lemma server_fewer:
  assumes "server_run session args s = (r, s')" and "hd args \<in> OPENS_NONE"
  shows "fst ` set (tv_windows s') \<subseteq> fst ` set (tv_windows s)"
proof -
  have "s' = s \<or> (\<exists>t. kill_window session t s = (r, s')) \<or> (\<exists>t cue. send_keys session t cue s = (r, s')) \<or>
      (\<exists>t. capture_pane session t s = (r, s'))"
    using assms by (auto simp: server_run_def OPENS_NONE_def split: if_splits)
  then show ?thesis
  proof (elim disjE exE)
    fix t assume "kill_window session t s = (r, s')"
    then show ?thesis by (auto simp: kill_window_def split: if_splits)
  next
    fix t cue assume "send_keys session t cue s = (r, s')"
    then show ?thesis by (force simp: send_keys_def split: if_splits)
  next
    fix t assume "capture_pane session t s = (r, s')"
    then show ?thesis by (auto simp: capture_pane_def split: list.splits)
  qed simp
qed

lemma server_new_window:
  "server_run session (new_window_args session env token cwd command) s = open_window token s"
  by (simp add: server_run_def new_window_args_def list_args_def)

lemma server_clock: "server_run session args s = (r, s') \<Longrightarrow> tv_clock s' = tv_clock s"
  by (auto simp: server_run_def open_window_def kill_window_def send_keys_def capture_pane_def
      split: if_splits list.splits)

lemma find_unique:
  "distinct (map f xs) \<Longrightarrow> x \<in> set xs \<Longrightarrow> find (\<lambda>y. f y = f x) xs = Some x"
  by (induction xs) auto

lemma server_is_host:
  assumes "distinct (map (token_for sha) works)"
  shows "tmux_host (server_cli session) server_machine session sha env server_windows
    (tokens_of sha works) (set works)"
proof
  fix args w r w' out token cwd command work d
  note run [simp] = server_cli_def server_machine_def
  show "server_windows w' \<subseteq> server_windows w"
    if "tm_run (server_cli session) args w = (r, w')" "hd args \<in> OPENS_NONE"
    using server_fewer [of session args w r w'] that by (auto simp: server_windows_def)
  show "server_windows w' \<subseteq> set (words_of out)"
    if "tm_run (server_cli session) (list_args session) w = (Inr (0, out), w')"
    using that by (force simp: server_run_def listing_def words_of_listing server_windows_def)
  show "server_windows w' \<subseteq> insert token (server_windows w)"
    if "tm_run (server_cli session) (new_window_args session env token cwd command) w = (r, w')"
    using that by (auto simp: server_new_window open_window_def server_windows_def split: if_splits)
  show "server_windows w' \<subseteq> server_windows w"
    if "tm_run (server_cli session) (new_window_args session env token cwd command) w = (r, w')"
      "\<And>out. r \<noteq> Inr (0, out)"
    using that by (auto simp: server_new_window open_window_def server_windows_def split: if_splits)
  show "tokens_of sha works (token_for sha work) = Some work" if "work \<in> set works"
    using find_unique [OF assms that] by (simp add: tokens_of_def)
  show "mc_now server_machine w \<le> mc_now server_machine w'"
    if "tm_run (server_cli session) args w = (r, w')"
    using that server_clock by simp
  show "server_windows (mc_sleep server_machine d w) \<subseteq> server_windows w"
    "mc_now server_machine w + d \<le> mc_now server_machine (mc_sleep server_machine d w)"
    by (auto simp: server_windows_def)
qed

text \<open>
  The same server behind a client that opens the window and is then not answered in time: it meets
  \<open>tmux_host\<close> too.
\<close>

definition late_cli :: "string \<Rightarrow> tmux_server tmux_cli" where
  "late_cli session = \<lparr>tm_binary = True, tm_run = (\<lambda>args s. case server_run session args s of
     (r, s') \<Rightarrow> (if hd args = ''new-window'' then Inl Launch_timeout else r, s'))\<rparr>"

lemma late_is_host:
  assumes "distinct (map (token_for sha) works)"
  shows "tmux_host (late_cli session) server_machine session sha env server_windows
    (tokens_of sha works) (set works)"
proof
  fix args w r w' out token cwd command work d
  note run [simp] = late_cli_def server_machine_def
  show "server_windows w' \<subseteq> server_windows w"
    if "tm_run (late_cli session) args w = (r, w')" "hd args \<in> OPENS_NONE"
    using server_fewer [of session args w _ w'] that by (auto simp: server_windows_def split: prod.splits)
  show "server_windows w' \<subseteq> set (words_of out)"
    if "tm_run (late_cli session) (list_args session) w = (Inr (0, out), w')"
    using that by (force simp: server_run_def listing_def words_of_listing server_windows_def list_args_def)
  show "server_windows w' \<subseteq> insert token (server_windows w)"
    if "tm_run (late_cli session) (new_window_args session env token cwd command) w = (r, w')"
    using that by (auto simp: server_new_window open_window_def server_windows_def split: if_splits prod.splits)
  show "server_windows w' \<subseteq> server_windows w"
    if "tm_run (late_cli session) (new_window_args session env token cwd command) w = (r, w')"
      "r \<noteq> Inl Launch_timeout" "\<And>out. r \<noteq> Inr (0, out)"
    using that by (auto simp: new_window_args_def split: prod.splits)
  show "tokens_of sha works (token_for sha work) = Some work" if "work \<in> set works"
    using find_unique [OF assms that] by (simp add: tokens_of_def)
  show "mc_now server_machine w \<le> mc_now server_machine w'"
    if "tm_run (late_cli session) args w = (r, w')"
    using that server_clock by (auto split: prod.splits)
  show "server_windows (mc_sleep server_machine d w) \<subseteq> server_windows w"
    "mc_now server_machine w + d \<le> mc_now server_machine (mc_sleep server_machine d w)"
    by (auto simp: server_windows_def)
qed

text \<open>Two Works of one node, and the digest cut down to what tells them apart.\<close>

definition node_works :: "string list" where
  "node_works = [''w1'', ''w2'']"

definition short_digest :: "string \<Rightarrow> string" where
  "short_digest work = drop 1 work"

interpretation late: tmux_host "late_cli ''kawa''" server_machine "''kawa''" short_digest
    "[(''HOME'', ''/home/k'')]" server_windows "tokens_of short_digest node_works" "set node_works"
proof (rule late_is_host)
  show "distinct (map (token_for short_digest) node_works)" by code_simp
qed

interpretation server: tmux_host "server_cli ''kawa''" server_machine "''kawa''" short_digest
    "[(''HOME'', ''/home/k''), (''OPENAI_API_KEY'', ''x'')]" server_windows
    "tokens_of short_digest node_works" "set node_works"
proof (rule server_is_host)
  show "distinct (map (token_for short_digest) node_works)" by code_simp
qed

section \<open>Runs\<close>

definition ex_loaders :: "tmux_server loaders" where
  "ex_loaders = tmux_loaders (server_cli ''kawa'') server_machine ''kawa'' short_digest
     [(''HOME'', ''/home/k''), (''OPENAI_API_KEY'', ''x'')]"

definition ex_backend :: "tmux_server backend" where
  "ex_backend = tmux_backend (server_cli ''kawa'') server_machine ''kawa'' short_digest
     [(''HOME'', ''/home/k''), (''OPENAI_API_KEY'', ''x'')]"

definition ex_spec :: launch_spec where
  "ex_spec = \<lparr>ls_work_ref = ''w1'', ls_agent_kind = ''codex'', ls_cwd = ''/home/k/kawa''\<rparr>"

definition ex_start :: "handle_file \<times> tmux_server" where
  "ex_start = (Unreadable, \<lparr>tv_windows = [], tv_clock = 0\<rparr>)"

lemma ex_backend_loaded: "ex_loaders TMUX = Some (Some ex_backend)"
  by (simp add: ex_loaders_def ex_backend_def server.loaded_tmux)

text \<open>A launch that ends well: the window runs, its handle is recorded, and the cue is in its pane.\<close>

definition ex_launch :: "((launch_error + runtime_handle) \<times> handle_file \<times> tmux_server) option" where
  "ex_launch =
     (case launch_locked ex_loaders ex_backend ex_spec False ''t0'' ex_start of
        (Inl e, h, w) \<Rightarrow> Some (Inl e, h, w)
      | (Inr handle, h, w) \<Rightarrow> finish_launch ex_backend server_machine ex_spec handle (h, w))"

definition ex_entry :: handle_entry where
  "ex_entry = \<lparr>he_backend = TMUX, he_token = ''kawa-1'', he_started_at = ''t0''\<rparr>"

definition ex_running :: tmux_server where
  "ex_running = \<lparr>tv_windows = [(''kawa-1'', WAKE_CUE @ [line_feed])], tv_clock = 3\<rparr>"

lemma ex_launch_works:
  "ex_launch = Some (Inr \<lparr>rh_backend = TMUX, rh_token = ''kawa-1''\<rparr>,
     Entries [(''w1'', Some ex_entry)], ex_running)"
  by code_simp

text \<open>A launch that is not answered: the window runs, and the file knows nothing of it.\<close>

definition late_launch :: "(launch_error + runtime_handle) \<times> handle_file \<times> tmux_server" where
  "late_launch = launch_locked
     (tmux_loaders (late_cli ''kawa'') server_machine ''kawa'' short_digest [(''HOME'', ''/home/k'')])
     (tmux_backend (late_cli ''kawa'') server_machine ''kawa'' short_digest [(''HOME'', ''/home/k'')])
     ex_spec False ''t0'' ex_start"

lemma late_launch_runs:
  "late_launch = (Inl (Failed TMUX Launch_timeout), Unreadable, \<lparr>tv_windows = [(''kawa-1'', [])], tv_clock = 0\<rparr>)"
  by code_simp

lemma late_launch_unrecorded:
  "\<not> registered (serving TMUX server_windows (tokens_of short_digest node_works))
     (fst (snd late_launch)) (snd (snd late_launch))"
proof -
  have "serving TMUX server_windows (tokens_of short_digest node_works)
      \<lparr>tv_windows = [(''kawa-1'', [])], tv_clock = 0\<rparr> (TMUX, ''kawa-1'') = Some ''w1''"
    by code_simp
  then show ?thesis
    by (auto simp: late_launch_runs registered_def cache_get_def)
qed

text \<open>
  Two invocations: a teardown kills the runtime, a launch finds it gone and starts another, and then
  the teardown takes the lock to drop its entry.
\<close>

definition ex_race :: "bool \<times> (launch_error + runtime_handle) \<times> handle_file \<times> tmux_server" where
  "ex_race =
     (case terminate_proven ex_backend (handle_of ex_entry) ex_running of
        (proven, w1) \<Rightarrow>
          (case launch_locked ex_loaders ex_backend ex_spec False ''t1''
                  (Entries [(''w1'', Some ex_entry)], w1) of
             (r, h2, w2) \<Rightarrow> (proven, r, retire_entry ''w1'' ex_entry h2, w2)))"

lemma ex_race_orphan:
  "ex_race = (True, Inr \<lparr>rh_backend = TMUX, rh_token = ''kawa-1''\<rparr>, Entries [],
     \<lparr>tv_windows = [(''kawa-1'', [])], tv_clock = 3\<rparr>)"
  by code_simp

lemma ex_race_unregistered:
  "\<not> registered (serving TMUX server_windows (tokens_of short_digest node_works))
     (fst (snd (snd ex_race))) (snd (snd (snd ex_race)))"
proof -
  have "serving TMUX server_windows (tokens_of short_digest node_works)
      \<lparr>tv_windows = [(''kawa-1'', [])], tv_clock = 3\<rparr> (TMUX, ''kawa-1'') = Some ''w1''"
    by code_simp
  then show ?thesis
    by (auto simp: ex_race_orphan registered_def cache_get_def)
qed

end
