(* ===== verification/Console_Runs.thy ===== *)
theory Console_Runs
  imports Runs Console_Rollup Tmux_Server
begin

text \<open>
  Inputs of the witnesses about the plan lineage, the console and the launcher: the neighbourhood of
  a plan, a store with a reachability probe and the console it refreshes, a probe whose value is a
  time, a blocked work without a name, and a teardown on the tmux server.
\<close>

definition probe :: "bool option \<Rightarrow> string option \<Rightarrow> payload" where
  "probe b t = ObservationRecorded \<lparr>ob_predicate = ''node_reachable'', ob_value_text = None,
     ob_value_number = None, ob_value_bool = b, ob_value_time = t, ob_method = Http_probe,
     ob_occurred_at = Some ''2026-08-01'', ob_source_ref = Some ''s'',
     ob_source_revision = Some ''qualifier=n1'', ob_content_digest = Some ''c'',
     ob_fetched_at = Some ''2026-08-01''\<rparr>"

definition probe_db :: "bool option \<Rightarrow> string option \<Rightarrow> db" where
  "probe_db b t =
     projr (record_events Some [(9, run_event ''5.0'' 1 None ''p'' (probe b t))] empty_db)"

definition empty_console :: console where
  "empty_console = \<lparr>fleet_node_facet = [], fleet_node = [], evidence_provenance = [],
     projection_state = [], situation_rollup = []\<rparr>"

definition up_db :: db where "up_db = probe_db (Some True) None"

definition down_db :: db where "down_db = probe_db (Some False) None"

lemma probe_refreshable:
  "refreshable False (\<lambda>_. Some 0) (\<lambda>_. 0) up_db empty_console"
  "refreshable False (\<lambda>_. Some 0) (\<lambda>_. 0) down_db empty_console"
  by code_simp+

lemma probe_nodes: "remdups (map origin_node (events up_db)) = [''n1'']"
  by code_simp

lemma probe_measured:
  "map (\<lambda>r. (fn_node_ref r, fn_reachability r))
     (fleet_node (refreshed (\<lambda>_. Some 0) (\<lambda>_. 0) (\<lambda>_. None) 9 up_db empty_console)) = [(''n1'', ''OK'')]"
  by code_simp

lemma probe_rolled_up:
  "map (\<lambda>r. (ru_dimension r, ru_state r))
     (situation_rollup (refreshed (\<lambda>_. Some 0) (\<lambda>_. 0) (\<lambda>_. None) 9 down_db empty_console))
     = [(''AUTHORITY'', ''INCOMPLETE''), (''EXECUTION'', ''OK''), (''EPISTEMIC'', ''OK''),
        (''HEALTH_REACH'', ''CRIT''), (''PROJECTION_FRESHNESS'', ''INCOMPLETE'')]"
  by code_simp

text \<open>
  The events of a blocked work whose reference is the empty text pass every gate, and no refresh
  succeeds after them.
\<close>

definition blank_work :: "payload list" where
  "blank_work =
     [WorkDerived \<lparr>wd_work_ref = [], wd_plan_ref = ''p1'', wd_work_kind = ''implement'',
        wd_role_requirement = None, wd_subject_ref = None, wd_objective = None, wd_constraints = None,
        wd_expected_observations = None, wd_domain = None\<rparr>,
      WorkDependencyDeclared \<lparr>dd_work_ref = [], dd_dependency_work_ref = ''w1'',
        dd_satisfaction_policy = PolicyALL\<rparr>]"

definition blank_db :: db where
  "blank_db = projr (record_events Some
     [(9, run_event ''5.0'' 1 None ''p'' (blank_work ! 0)),
      (9, run_event ''5.1'' 2 (Some ''5.0'') ''p'' (blank_work ! 1))] empty_db)"

lemma blank_work_valid: "list_all payload_valid blank_work"
  by code_simp

lemma blank_work_blocks: "stuck_works blank_db = [[]]"
  by code_simp

text \<open>A probe valued in time passes the gates of its payload, and no refresh succeeds after it.\<close>

definition timed_db :: db where "timed_db = probe_db None (Some ''2026-08-01'')"

lemma timed_probe_valid: "payload_valid (probe None (Some ''2026-08-01''))"
  by code_simp

lemma timed_probe_blocks:
  "refresh_fleet_node_facet (\<lambda>_. Some 0) timed_db empty_console = Inl (IntegrityError ''fleet_node_facet'')"
  by code_simp

lemma run_traversal:
  "\<not> tv_is_truncated (traverse run_db (''plan'', ''p1'') 1)"
  "tv_total_edges_discovered (traverse run_db (''plan'', ''p1'') 1) = 1"
  by code_simp+

section \<open>A teardown\<close>

lemma ex_window_registered:
  "registered (serving TMUX server_windows (tokens_of short_digest node_works))
     (Entries [(''w1'', Some ex_entry)]) ex_running"
  by (auto simp: registered_def serving_def ex_running_def server_windows_def tokens_of_def
      node_works_def token_for_def short_digest_def cache_get_def ex_entry_def split: if_splits)

lemma ex_teardown:
  "terminate ex_loaders ''w1'' (Entries [(''w1'', Some ex_entry)], ex_running)
     = (Terminated, Entries [], \<lparr>tv_windows = [], tv_clock = 3\<rparr>)"
  by code_simp

lemma ex_window:
  "tmux_launch (server_cli ''kawa'') ''kawa'' short_digest [] ex_spec (snd ex_start)
     = (Inr \<lparr>rh_backend = TMUX, rh_token = ''kawa-1''\<rparr>,
        \<lparr>tv_windows = [(''kawa-1'', [])], tv_clock = 0\<rparr>)"
  by code_simp

end
