(* ===== verification/Herdr_Backend.thy ===== *)
theory Herdr_Backend
  imports Launcher Json_Loads
begin

text \<open>
  \<^verbatim>\<open>kawa/runtime/herdr_backend.py\<close>: the backend that runs agents under a herdr server.  The program
  \<^verbatim>\<open>herdr\<close> is a parameter: whether it is installed, and how one invocation ends.  Its texts are
  parsed by the decoder of \<^verbatim>\<open>Json_Loads\<close>, on a stack that holds some texts and not others.  An
  exception is a value of \<open>raised\<close>: the internal \<open>_AgentAbsent\<close>, a \<open>RuntimeBackendError\<close> with its class,
  the \<open>TypeError\<close> of a dictionary lookup with an unhashable key, the \<open>ValueError\<close> of an argument no
  process can be given, or the \<open>RecursionError\<close> of an answer nested too deep.  A text is its bytes: a
  lone surrogate, which the decoder reads from an escape, is its three bytes.

  The locale \<open>herdr_host\<close> states what the backend relies on, in the words of the contract of
  \<^verbatim>\<open>Launcher\<close>, which follows from it.  Shown besides: exactly which exceptions leave the boundary
  and when, exit codes outrank streams, and the loop that waits for a shell ends.
\<close>

section \<open>The program\<close>

record response =
  rs_code :: int
  rs_out :: string
  rs_err :: string

datatype cli_outcome = Timed_out | Os_error | Returned response

record 'w herdr_cli =
  hr_binary :: bool
  hr_run :: "string list \<Rightarrow> rat \<Rightarrow> 'w \<Rightarrow> cli_outcome \<times> 'w"

datatype raised = Agent_absent | Classified error_class | Type_error | Value_error | Recursion_error

type_synonym ('w, 'a) hcall = "'w \<Rightarrow> (raised + 'a) \<times> 'w"

definition HERDR :: string where "HERDR = ''herdr''"

definition MIN_VERSION :: "int list" where "MIN_VERSION = [0, 8, 0]"

definition TIMEOUT_S :: rat where "TIMEOUT_S = 20"

definition PANE_READY_S :: rat where "PANE_READY_S = 15"

definition START_POLL_S :: rat where "START_POLL_S = 1 / 4"

definition SETTLED :: "string list" where "SETTLED = [''idle'', ''done'', ''blocked'']"

definition STATE_MAP :: "(string \<times> presence \<times> activity \<times> attention) list" where
  "STATE_MAP =
     [(''working'', Present, Activity_active, Not_needed),
      (''blocked'', Present, Activity_blocked, Needed),
      (''idle'', Present, Quiescent, Not_needed),
      (''done'', Present, Quiescent, Needed),
      (''unknown'', Present, Activity_unknown, Attention_unknown)]"

definition ERROR_MAP :: "(string \<times> error_class) list" where
  "ERROR_MAP =
     [(''server_not_running'', Server_absent), (''agent_name_taken'', Already_running),
      (''timeout'', Launch_timeout), (''agent_pane_busy'', Runtime_not_ready)]"

section \<open>Reading an answer\<close>

fun truthy :: "json \<Rightarrow> bool" where
  "truthy JNull = False"
| "truthy (JBool b) = b"
| "truthy (JInt n) = (n \<noteq> 0)"
| "truthy (JFloat t) = (t \<noteq> ''0.0'' \<and> t \<noteq> ''-0.0'')"
| "truthy (JStr s) = (s \<noteq> [])"
| "truthy (JList xs) = (xs \<noteq> [])"
| "truthy (JObj ms) = (ms \<noteq> [])"

fun is_dict :: "json \<Rightarrow> bool" where
  "is_dict (JObj _) = True"
| "is_dict _ = False"

text \<open>
  \<^verbatim>\<open>str((err or {}).get("code", ""))\<close>, compared with names only: the text of a code that is not
  a string is none of them.
\<close>

definition error_code :: "json \<Rightarrow> string" where
  "error_code err =
     (case err of
        JObj ms \<Rightarrow> (case map_of ms ''code'' of Some (JStr s) \<Rightarrow> s | _ \<Rightarrow> [])
      | _ \<Rightarrow> [])"

text \<open>
  \<^verbatim>\<open>json.loads\<close>: the texts too deep for the stack of the interpreter are an argument, as the texts of
  floats are.  An integer literal longer than \<open>int()\<close> converts is a \<open>ValueError\<close>, like any other text
  that is not JSON; the result is then \<open>None\<close>.
\<close>

record decoder =
  dc_fr :: "string \<Rightarrow> string"
  dc_deep :: "string \<Rightarrow> bool"

fun long_int :: "json \<Rightarrow> bool" where
  "long_int (JInt n) = (10 ^ MAX_INT_DIGITS \<le> \<bar>n\<bar>)"
| "long_int (JList xs) = list_ex long_int xs"
| "long_int (JObj ms) = list_ex (\<lambda>(k, v). long_int v) ms"
| "long_int _ = False"

definition decode :: "decoder \<Rightarrow> string \<Rightarrow> raised + json option" where
  "decode dc raw =
     (if dc_deep dc raw then Inl Recursion_error
      else
        (case loads (dc_fr dc) raw of
           None \<Rightarrow> Inr None
         | Some v \<Rightarrow> Inr (if long_int v then None else Some v)))"

definition classify_payload :: "(string \<times> json) list \<Rightarrow> raised" where
  "classify_payload answer =
     (let err = (case map_of answer ''error'' of Some e \<Rightarrow> e | None \<Rightarrow> JNull) in
      if truthy err \<and> \<not> is_dict err then Classified Malformed_response
      else if error_code err = ''agent_not_found'' then Agent_absent
      else Classified (case map_of ERROR_MAP (error_code err) of Some c \<Rightarrow> c | None \<Rightarrow> Backend_refused))"

text \<open>\<open>None\<close>: the stream is not a structured refusal, and the caller decides.\<close>

definition classify :: "decoder \<Rightarrow> string \<Rightarrow> raised option" where
  "classify dc raw =
     (case decode dc raw of
        Inl e \<Rightarrow> Some e
      | Inr (Some (JObj answer)) \<Rightarrow>
          if map_of answer ''error'' \<noteq> None then Some (classify_payload answer) else None
      | Inr _ \<Rightarrow> None)"

definition read_result :: "decoder \<Rightarrow> string \<Rightarrow> raised + (string \<times> json) list" where
  "read_result dc out =
     (case decode dc out of
        Inl e \<Rightarrow> Inl e
      | Inr (Some (JObj answer)) \<Rightarrow>
          if map_of answer ''error'' \<noteq> None then Inl (classify_payload answer)
          else (case map_of answer ''result'' of
                  Some (JObj result) \<Rightarrow> Inr result
                | _ \<Rightarrow> Inl (Classified Malformed_response))
      | Inr _ \<Rightarrow> Inl (Classified Malformed_response))"

text \<open>The exit code decides which stream is read: a failed command has no result.\<close>

definition read_response :: "decoder \<Rightarrow> response \<Rightarrow> raised + (string \<times> json) list" where
  "read_response dc r =
     (if rs_code r \<noteq> 0 then
        (case classify dc (rs_err r) of
           Some e \<Rightarrow> Inl e
         | None \<Rightarrow>
             (case classify dc (rs_out r) of
                Some e \<Rightarrow> Inl e
              | None \<Rightarrow> Inl (Classified Malformed_response)))
      else read_result dc (rs_out r))"

text \<open>
  What \<^verbatim>\<open>subprocess.run\<close> takes as an argument: no zero byte, and no lone surrogate but those that stand
  for a byte (U+DC80 to U+DCFF).  Any other raises a \<open>ValueError\<close>, of which the \<open>UnicodeEncodeError\<close> of
  a surrogate is one, before anything is run.
\<close>

fun passable_text :: "string \<Rightarrow> bool" where
  "passable_text [] = True"
| "passable_text (c # t) =
     (c \<noteq> CHR 0x00 \<and>
      (c = CHR 0xED \<longrightarrow> (case t of [] \<Rightarrow> True | d # _ \<Rightarrow> d < CHR 0xA0 \<or> d = CHR 0xB2 \<or> d = CHR 0xB3)) \<and>
      passable_text t)"

definition passable :: "string list \<Rightarrow> bool" where
  "passable args = list_all passable_text args"

definition herdr_run ::
    "'w herdr_cli \<Rightarrow> string \<Rightarrow> string list \<Rightarrow> rat \<Rightarrow> ('w, response) hcall" where
  "herdr_run cli session args t w =
     (if \<not> hr_binary cli then (Inl (Classified Binary_absent), w)
      else if \<not> passable ([''--session'', session] @ args) then (Inl Value_error, w)
      else
        (case hr_run cli ([''--session'', session] @ args) t w of
           (Timed_out, w1) \<Rightarrow> (Inl (Classified Launch_timeout), w1)
         | (Os_error, w1) \<Rightarrow> (Inl (Classified Binary_absent), w1)
         | (Returned r, w1) \<Rightarrow> (Inr r, w1)))"

definition run_json ::
    "decoder \<Rightarrow> 'w herdr_cli \<Rightarrow> string \<Rightarrow> string list \<Rightarrow> rat \<Rightarrow>
     ('w, (string \<times> json) list) hcall" where
  "run_json dc cli session args t w =
     (case herdr_run cli session args t w of
        (Inl e, w1) \<Rightarrow> (Inl e, w1)
      | (Inr r, w1) \<Rightarrow> (read_response dc r, w1))"

definition pane_id :: "json option \<Rightarrow> error_class \<Rightarrow> raised + string" where
  "pane_id node c =
     (case node of
        Some (JObj ms) \<Rightarrow>
          (case map_of ms ''pane_id'' of
             Some (JStr s) \<Rightarrow> if s = [] then Inl (Classified c) else Inr s
           | _ \<Rightarrow> Inl (Classified c))
      | _ \<Rightarrow> Inl (Classified c))"

definition herdr_observation :: "runtime_handle \<Rightarrow> json option \<Rightarrow> raised + runtime_observation" where
  "herdr_observation h state =
     (let observed = \<lambda>(p, v, n). \<lparr>ro_backend = HERDR, ro_handle_token = rh_token h,
             ro_presence = p, ro_activity = v, ro_attention = n\<rparr>;
          unlisted = (Present, Activity_unknown, Attention_unknown)
      in case state of
           None \<Rightarrow> Inr (observed (Absent, Activity_unknown, Attention_unknown))
         | Some JNull \<Rightarrow> Inr (observed (Absent, Activity_unknown, Attention_unknown))
         | Some (JStr s) \<Rightarrow>
             Inr (observed (case map_of STATE_MAP s of Some o3 \<Rightarrow> o3 | None \<Rightarrow> unlisted))
         | Some (JList _) \<Rightarrow> Inl Type_error
         | Some (JObj _) \<Rightarrow> Inl Type_error
         | Some _ \<Rightarrow> Inr (observed unlisted))"

section \<open>The version\<close>

text \<open>\<open>int(p)\<close> of a text without white space: a sign, digits, single underscores between digits.\<close>

fun digit_groups :: "string \<Rightarrow> bool" where
  "digit_groups [] = False"
| "digit_groups [c] = is_digit c"
| "digit_groups (c # e # t) =
     (is_digit c \<and> (if e = CHR ''_'' then digit_groups t else digit_groups (e # t)))"

definition digits_value :: "string \<Rightarrow> int" where
  "digits_value t = foldl (\<lambda>n c. 10 * n + (int (of_char c) - 48)) 0 (filter is_digit t)"

definition version_int :: "string \<Rightarrow> int option" where
  "version_int t =
     (case t of
        [] \<Rightarrow> None
      | c # r \<Rightarrow>
          if MAX_INT_DIGITS < length (filter is_digit t) then None
          else if c = CHR ''-'' then (if digit_groups r then Some (- digits_value r) else None)
          else if c = CHR ''+'' then (if digit_groups r then Some (digits_value r) else None)
          else if digit_groups t then Some (digits_value t) else None)"

fun split_dots :: "string \<Rightarrow> string list" where
  "split_dots [] = [[]]"
| "split_dots (c # t) =
     (if c = CHR ''.'' then [] # split_dots t
      else (case split_dots t of [] \<Rightarrow> [[c]] | p # ps \<Rightarrow> (c # p) # ps))"

fun all_ints :: "string list \<Rightarrow> int list option" where
  "all_ints [] = Some []"
| "all_ints (p # ps) =
     (case (version_int p, all_ints ps) of (Some n, Some ns) \<Rightarrow> Some (n # ns) | _ \<Rightarrow> None)"

definition version_parts :: "string \<Rightarrow> int list option" where
  "version_parts out =
     (if words_of out = [] then None else all_ints (take 3 (split_dots (last (words_of out)))))"

section \<open>The operations\<close>

text \<open>What the second invocation of \<open>detect\<close> raises, when it is no refusal, is not caught.\<close>

definition herdr_detect ::
    "decoder \<Rightarrow> 'w herdr_cli \<Rightarrow> string \<Rightarrow> ('w, backend_status) hcall" where
  "herdr_detect dc cli session w =
     (if \<not> hr_binary cli then (Inr (unavailable ''binary_absent''), w)
      else
        (case hr_run cli [''--version''] TIMEOUT_S w of
           (Returned r, w1) \<Rightarrow>
             (case version_parts (rs_out r) of
                None \<Rightarrow> (Inr (unavailable ''malformed_response''), w1)
              | Some parts \<Rightarrow>
                  if parts < MIN_VERSION then (Inr (unavailable ''version_unsupported''), w1)
                  else
                    (case run_json dc cli session [''workspace'', ''list''] TIMEOUT_S w1 of
                       (Inr _, w2) \<Rightarrow> (Inr \<lparr>bs_available = True, bs_reason = []\<rparr>, w2)
                     | (Inl Agent_absent, w2) \<Rightarrow> (Inr \<lparr>bs_available = True, bs_reason = []\<rparr>, w2)
                     | (Inl (Classified e), w2) \<Rightarrow> (Inr (unavailable (error_text e)), w2)
                     | (Inl e, w2) \<Rightarrow> (Inl e, w2)))
         | (_, w1) \<Rightarrow> (Inr (unavailable ''malformed_response''), w1)))"

definition close_pane ::
    "decoder \<Rightarrow> 'w herdr_cli \<Rightarrow> string \<Rightarrow> string \<Rightarrow> ('w, bool) hcall" where
  "close_pane dc cli session pane w =
     (case run_json dc cli session [''pane'', ''close'', pane] TIMEOUT_S w of
        (Inr _, w1) \<Rightarrow> (Inr True, w1)
      | (Inl Agent_absent, w1) \<Rightarrow> (Inr True, w1)
      | (Inl (Classified _), w1) \<Rightarrow> (Inr False, w1)
      | (Inl e, w1) \<Rightarrow> (Inl e, w1))"

definition herdr_env :: "(string \<times> string) list \<Rightarrow> string list" where
  "herdr_env env = concat (map (\<lambda>(k, v). [''--env'', k @ ''='' @ v]) (sort (build_env env)))"

partial_function (option) start_loop ::
    "decoder \<Rightarrow> 'w herdr_cli \<Rightarrow> 'w machine \<Rightarrow> string \<Rightarrow> string list \<Rightarrow> rat \<Rightarrow> 'w \<Rightarrow>
     ((raised + unit) \<times> 'w) option" where
  "start_loop dc cli m session args deadline w =
     (case run_json dc cli session args TIMEOUT_S w of
        (Inr _, w1) \<Rightarrow> Some (Inr (), w1)
      | (Inl Agent_absent, w1) \<Rightarrow> Some (Inl (Classified Backend_refused), w1)
      | (Inl e, w1) \<Rightarrow>
          if e \<noteq> Classified Runtime_not_ready then Some (Inl e, w1)
          else if deadline \<le> mc_now m w1 then Some (Inl (Classified Launch_timeout), w1)
          else start_loop dc cli m session args deadline (mc_sleep m START_POLL_S w1))"

declare start_loop.simps [code]

definition start_args :: "string \<Rightarrow> string \<Rightarrow> string \<Rightarrow> string list" where
  "start_args token agent_kind pane = [''agent'', ''start'', token, ''--kind'', agent_kind, ''--pane'', pane]"

definition create_args :: "(string \<Rightarrow> string) \<Rightarrow> (string \<times> string) list \<Rightarrow> launch_spec \<Rightarrow> string list" where
  "create_args sha env spec = [''workspace'', ''create'', ''--label'', token_for sha (ls_work_ref spec),
     ''--cwd'', ls_cwd spec] @ herdr_env env"

text \<open>\<open>None\<close> would be a launch that does not return; \<open>start_loop_total\<close> shows that it does.\<close>

definition herdr_launch ::
    "decoder \<Rightarrow> 'w herdr_cli \<Rightarrow> 'w machine \<Rightarrow> string \<Rightarrow> (string \<Rightarrow> string) \<Rightarrow>
     (string \<times> string) list \<Rightarrow> launch_spec \<Rightarrow> 'w \<Rightarrow> ((raised + runtime_handle) \<times> 'w) option" where
  "herdr_launch dc cli m session sha env spec w =
     (let token = token_for sha (ls_work_ref spec) in
      case run_json dc cli session (create_args sha env spec) TIMEOUT_S w of
        (Inl Agent_absent, w1) \<Rightarrow> Some (Inl (Classified Backend_refused), w1)
      | (Inl e, w1) \<Rightarrow> Some (Inl e, w1)
      | (Inr created, w1) \<Rightarrow>
          (case pane_id (map_of created ''root_pane'') Malformed_response of
             Inl e \<Rightarrow> Some (Inl e, w1)
           | Inr pane \<Rightarrow>
               (case start_loop dc cli m session (start_args token (ls_agent_kind spec) pane)
                       (mc_now m w1 + PANE_READY_S) w1 of
                  None \<Rightarrow> None
                | Some (Inr _, w2) \<Rightarrow> Some (Inr \<lparr>rh_backend = HERDR, rh_token = token\<rparr>, w2)
                | Some (Inl (Classified e), w2) \<Rightarrow>
                    (case close_pane dc cli session pane w2 of
                       (Inl e3, w3) \<Rightarrow> Some (Inl e3, w3)
                     | (Inr _, w3) \<Rightarrow> Some (Inl (Classified e), w3))
                | Some (Inl e, w2) \<Rightarrow> Some (Inl e, w2))))"

definition get_args :: "string \<Rightarrow> string list" where
  "get_args token = [''agent'', ''get'', token]"

definition herdr_inspect ::
    "decoder \<Rightarrow> 'w herdr_cli \<Rightarrow> string \<Rightarrow> runtime_handle \<Rightarrow> ('w, runtime_observation) hcall" where
  "herdr_inspect dc cli session h w =
     (case run_json dc cli session (get_args (rh_token h)) TIMEOUT_S w of
        (Inl Agent_absent, w1) \<Rightarrow> (herdr_observation h None, w1)
      | (Inl e, w1) \<Rightarrow> (Inl e, w1)
      | (Inr result, w1) \<Rightarrow>
          (case map_of result ''agent'' of
             Some (JObj agent) \<Rightarrow> (herdr_observation h (map_of agent ''agent_status''), w1)
           | _ \<Rightarrow> (Inl (Classified Malformed_response), w1)))"

definition wait_args :: "string \<Rightarrow> rat \<Rightarrow> string list" where
  "wait_args token t =
     [''agent'', ''wait'', token] @ concat (map (\<lambda>s. [''--until'', s]) SETTLED) @
     [''--timeout'', nat_str (nat \<lfloor>t * 1000\<rfloor>)]"

definition herdr_await ::
    "decoder \<Rightarrow> 'w herdr_cli \<Rightarrow> string \<Rightarrow> runtime_handle \<Rightarrow> rat \<Rightarrow>
     ('w, runtime_observation) hcall" where
  "herdr_await dc cli session h t w =
     (case run_json dc cli session (wait_args (rh_token h) t) (t + TIMEOUT_S) w of
        (Inl Agent_absent, w1) \<Rightarrow> (herdr_observation h None, w1)
      | (Inl e, w1) \<Rightarrow> (Inl e, w1)
      | (Inr _, w1) \<Rightarrow> herdr_inspect dc cli session h w1)"

definition herdr_wake ::
    "decoder \<Rightarrow> 'w herdr_cli \<Rightarrow> string \<Rightarrow> runtime_handle \<Rightarrow> string \<Rightarrow> ('w, unit) hcall" where
  "herdr_wake dc cli session h cue w =
     (case run_json dc cli session [''agent'', ''prompt'', rh_token h, cue] TIMEOUT_S w of
        (Inl Agent_absent, w1) \<Rightarrow> (Inl (Classified Inspect_failed), w1)
      | (Inl e, w1) \<Rightarrow> (Inl e, w1)
      | (Inr _, w1) \<Rightarrow> (Inr (), w1))"

definition herdr_read ::
    "decoder \<Rightarrow> 'w herdr_cli \<Rightarrow> string \<Rightarrow> runtime_handle \<Rightarrow> ('w, string) hcall" where
  "herdr_read dc cli session h w =
     (case herdr_run cli session [''agent'', ''read'', rh_token h] TIMEOUT_S w of
        (Inl e, w1) \<Rightarrow> (Inl e, w1)
      | (Inr r, w1) \<Rightarrow>
          if rs_code r = 0 then (Inr (rs_out r), w1)
          else (case classify dc (if rs_err r \<noteq> [] then rs_err r else rs_out r) of
                  Some Agent_absent \<Rightarrow> (Inr [], w1)
                | Some e \<Rightarrow> (Inl e, w1)
                | None \<Rightarrow> (Inl (Classified Malformed_response), w1)))"

definition herdr_terminate ::
    "decoder \<Rightarrow> 'w herdr_cli \<Rightarrow> string \<Rightarrow> runtime_handle \<Rightarrow> ('w, unit) hcall" where
  "herdr_terminate dc cli session h w =
     (case run_json dc cli session (get_args (rh_token h)) TIMEOUT_S w of
        (Inl Agent_absent, w1) \<Rightarrow> (Inr (), w1)
      | (Inl e, w1) \<Rightarrow> (Inl e, w1)
      | (Inr result, w1) \<Rightarrow>
          (case pane_id (map_of result ''agent'') Terminate_failed of
             Inl e \<Rightarrow> (Inl e, w1)
           | Inr pane \<Rightarrow>
               (case close_pane dc cli session pane w1 of
                  (Inl e, w2) \<Rightarrow> (Inl e, w2)
                | (Inr _, w2) \<Rightarrow>
                    (case run_json dc cli session (get_args (rh_token h)) TIMEOUT_S w2 of
                       (Inl Agent_absent, w3) \<Rightarrow> (Inr (), w3)
                     | (Inl e, w3) \<Rightarrow> (Inl e, w3)
                     | (Inr _, w3) \<Rightarrow> (Inl (Classified Terminate_failed), w3)))))"

section \<open>What leaves the boundary\<close>

text \<open>
  A call of the contract answers with its value or an error class.  The exceptions that leave the
  operations otherwise are the ones below; a run of the launcher over this backend is one in which
  none of them does, which \<open>answers_classified\<close> shows of a \<open>herdr_host\<close>, and the class given to them
  here is not reached there.
\<close>

definition surface :: "(raised + 'a) \<times> 'w \<Rightarrow> (error_class + 'a) \<times> 'w" where
  "surface r =
     (case r of
        (Inr x, w) \<Rightarrow> (Inr x, w)
      | (Inl (Classified e), w) \<Rightarrow> (Inl e, w)
      | (Inl _, w) \<Rightarrow> (Inl Malformed_response, w))"

definition herdr_backend ::
    "decoder \<Rightarrow> 'w herdr_cli \<Rightarrow> 'w machine \<Rightarrow> string \<Rightarrow> (string \<Rightarrow> string) \<Rightarrow>
     (string \<times> string) list \<Rightarrow> 'w backend" where
  "herdr_backend dc cli m session sha env =
     \<lparr>bk_name = HERDR,
      bk_detect = (\<lambda>w. surface (herdr_detect dc cli session w)),
      bk_launch = (\<lambda>spec w. case herdr_launch dc cli m session sha env spec w of
         Some r \<Rightarrow> surface r | None \<Rightarrow> (Inl Launch_timeout, w)),
      bk_await_settled = (\<lambda>h t w. surface (herdr_await dc cli session h t w)),
      bk_wake = (\<lambda>h cue w. surface (herdr_wake dc cli session h cue w)),
      bk_inspect = (\<lambda>h w. surface (herdr_inspect dc cli session h w)),
      bk_read_recent_output = (\<lambda>h w. surface (herdr_read dc cli session h w)),
      bk_terminate = (\<lambda>h w. surface (herdr_terminate dc cli session h w))\<rparr>"

text \<open>The loaders of a node on which the other adapter is not installed.\<close>

definition herdr_loaders ::
    "decoder \<Rightarrow> 'w herdr_cli \<Rightarrow> 'w machine \<Rightarrow> string \<Rightarrow> (string \<Rightarrow> string) \<Rightarrow>
     (string \<times> string) list \<Rightarrow> 'w loaders" where
  "herdr_loaders dc cli m session sha env =
     (\<lambda>name. if name = HERDR then Some (Some (herdr_backend dc cli m session sha env))
             else if name = ''tmux'' then Some None else None)"

text \<open>The exceptions that leave a call besides the errors of the contract's classes: at most one.\<close>

definition escaping :: "(raised + 'a) \<times> 'w \<Rightarrow> raised set" where
  "escaping x = {e. fst x = Inl e \<and> (\<forall>c. e \<noteq> Classified c)}"

lemma escaping_simps [simp]:
  "escaping (Inr v, w) = {}"
  "escaping (Inl (Classified c), w) = {}"
  "escaping (Inl Agent_absent, w) = {Agent_absent}"
  "escaping (Inl Type_error, w) = {Type_error}"
  "escaping (Inl Value_error, w) = {Value_error}"
  "escaping (Inl Recursion_error, w) = {Recursion_error}"
  by (auto simp: escaping_def)

text \<open>When one invocation raises: its arguments cannot be passed; what is read of its answer is too deep.\<close>

definition unpassable :: "'w herdr_cli \<Rightarrow> string \<Rightarrow> string list \<Rightarrow> bool" where
  "unpassable cli session args \<longleftrightarrow> hr_binary cli \<and> \<not> passable (session # args)"

fun deep_response :: "decoder \<Rightarrow> response \<Rightarrow> bool" where
  "deep_response dc r =
     (if rs_code r = 0 then dc_deep dc (rs_out r)
      else dc_deep dc (rs_err r) \<or> classify dc (rs_err r) = None \<and> dc_deep dc (rs_out r))"

definition too_deep :: "decoder \<Rightarrow> 'w herdr_cli \<Rightarrow> string \<Rightarrow> string list \<Rightarrow> rat \<Rightarrow> 'w \<Rightarrow> bool" where
  "too_deep dc cli session args t w \<longleftrightarrow>
     (\<exists>r w1. herdr_run cli session args t w = (Inr r, w1) \<and> deep_response dc r)"

lemma passable_session: "passable (''--session'' # args) \<longleftrightarrow> passable args"
  by (simp add: passable_def)

lemma classify_payload_told: "classify_payload ms = Agent_absent \<or> (\<exists>c. classify_payload ms = Classified c)"
  by (simp add: classify_payload_def Let_def)

lemma classify_payload_simps [simp]:
  "classify_payload ms \<noteq> Type_error" "classify_payload ms \<noteq> Value_error"
  "classify_payload ms \<noteq> Recursion_error"
  by (simp_all add: classify_payload_def Let_def)

lemma decode_raises: "decode dc raw = Inl e \<longleftrightarrow> e = Recursion_error \<and> dc_deep dc raw"
  by (auto simp: decode_def split: option.splits)

lemma classify_raises:
  "classify dc raw \<noteq> Some Type_error" "classify dc raw \<noteq> Some Value_error"
  "classify dc raw = Some Recursion_error \<longleftrightarrow> dc_deep dc raw"
proof -
  consider "dc_deep dc raw" | v where "decode dc raw = Inr v" "\<not> dc_deep dc raw"
    by (cases "decode dc raw") (auto simp: decode_raises)
  then have "classify dc raw \<noteq> Some Type_error \<and> classify dc raw \<noteq> Some Value_error \<and>
      (classify dc raw = Some Recursion_error \<longleftrightarrow> dc_deep dc raw)"
  proof cases
    case 1
    then show ?thesis by (simp add: classify_def decode_def)
  next
    case 2
    then show ?thesis by (auto simp: classify_def split: option.splits json.splits)
  qed
  then show "classify dc raw \<noteq> Some Type_error" "classify dc raw \<noteq> Some Value_error"
    "classify dc raw = Some Recursion_error \<longleftrightarrow> dc_deep dc raw" by blast+
qed

lemma read_result_raises:
  "read_result dc out \<noteq> Inl Type_error" "read_result dc out \<noteq> Inl Value_error"
  "read_result dc out = Inl Recursion_error \<longleftrightarrow> dc_deep dc out"
proof -
  consider "dc_deep dc out" | v where "decode dc out = Inr v" "\<not> dc_deep dc out"
    by (cases "decode dc out") (auto simp: decode_raises)
  then have "read_result dc out \<noteq> Inl Type_error \<and> read_result dc out \<noteq> Inl Value_error \<and>
      (read_result dc out = Inl Recursion_error \<longleftrightarrow> dc_deep dc out)"
  proof cases
    case 1
    then show ?thesis by (simp add: read_result_def decode_def)
  next
    case 2
    then show ?thesis by (auto simp: read_result_def split: option.splits json.splits)
  qed
  then show "read_result dc out \<noteq> Inl Type_error" "read_result dc out \<noteq> Inl Value_error"
    "read_result dc out = Inl Recursion_error \<longleftrightarrow> dc_deep dc out" by blast+
qed

lemma read_response_raises:
  "read_response dc r \<noteq> Inl Type_error" "read_response dc r \<noteq> Inl Value_error"
  "read_response dc r = Inl Recursion_error \<longleftrightarrow> deep_response dc r"
  using classify_raises [of dc "rs_err r"] classify_raises [of dc "rs_out r"]
    read_result_raises [of dc "rs_out r"]
  by (auto simp: read_response_def split: option.splits)

lemma herdr_run_raises:
  "fst (herdr_run cli session args t w) = Inl e \<Longrightarrow> (\<forall>c. e \<noteq> Classified c) \<Longrightarrow>
     e = Value_error \<and> unpassable cli session args"
  "unpassable cli session args \<Longrightarrow> herdr_run cli session args t w = (Inl Value_error, w)"
  by (auto simp: herdr_run_def unpassable_def passable_session
      split: if_splits prod.splits cli_outcome.splits)

text \<open>What one invocation and the reading of its answer raise, exactly.\<close>

lemma run_json_raises:
  shows "fst (run_json dc cli session args t w) \<noteq> Inl Type_error"
    and "fst (run_json dc cli session args t w) = Inl Value_error \<longleftrightarrow> unpassable cli session args"
    and "fst (run_json dc cli session args t w) = Inl Recursion_error \<longleftrightarrow> too_deep dc cli session args t w"
proof -
  obtain r w1 where run: "herdr_run cli session args t w = (r, w1)" by fastforce
  show "fst (run_json dc cli session args t w) \<noteq> Inl Type_error"
    using herdr_run_raises(1) [of cli session args t w Type_error] run read_response_raises(1)
    by (auto simp: run_json_def split: sum.splits)
  show "fst (run_json dc cli session args t w) = Inl Value_error \<longleftrightarrow> unpassable cli session args"
    using herdr_run_raises [of cli session args t w] run read_response_raises(2)
    by (auto simp: run_json_def split: sum.splits)
  show "fst (run_json dc cli session args t w) = Inl Recursion_error \<longleftrightarrow> too_deep dc cli session args t w"
    using herdr_run_raises(1) [of cli session args t w Recursion_error] run read_response_raises(3)
    by (auto simp: run_json_def too_deep_def split: sum.splits)
qed

text \<open>Some answer of herdr is too deep to be read.\<close>

definition deep_told :: "decoder \<Rightarrow> 'w herdr_cli \<Rightarrow> bool" where
  "deep_told dc cli \<longleftrightarrow>
     (\<exists>args t w r w1. hr_run cli args t w = (Returned r, w1) \<and> (dc_deep dc (rs_out r) \<or> dc_deep dc (rs_err r)))"

lemma too_deep_told:
  assumes "too_deep dc cli session args t w"
  shows "deep_told dc cli"
proof -
  obtain r w1 where run: "herdr_run cli session args t w = (Inr r, w1)" and deep: "deep_response dc r"
    using assms by (auto simp: too_deep_def)
  from run have "hr_run cli ([''--session'', session] @ args) t w = (Returned r, w1)"
    by (auto simp: herdr_run_def split: if_splits prod.splits cli_outcome.splits)
  moreover from deep have "dc_deep dc (rs_out r) \<or> dc_deep dc (rs_err r)" by (auto split: if_splits)
  ultimately show ?thesis unfolding deep_told_def by blast
qed

lemma pane_id_error: "pane_id node c = Inl e \<Longrightarrow> e = Classified c"
  by (auto simp: pane_id_def split: option.splits json.splits if_splits)

lemma run_json_cases:
  assumes "run_json dc cli session args t w = (r, w')"
  obtains result where "r = Inr result" "\<not> unpassable cli session args" "\<not> too_deep dc cli session args t w"
  | "r = Inl Agent_absent" "\<not> unpassable cli session args" "\<not> too_deep dc cli session args t w"
  | c where "r = Inl (Classified c)" "\<not> unpassable cli session args" "\<not> too_deep dc cli session args t w"
  | "r = Inl Value_error" "unpassable cli session args" "\<not> too_deep dc cli session args t w"
  | "r = Inl Recursion_error" "\<not> unpassable cli session args" "too_deep dc cli session args t w"
proof -
  have facts: "r \<noteq> Inl Type_error" "r = Inl Value_error \<longleftrightarrow> unpassable cli session args"
    "r = Inl Recursion_error \<longleftrightarrow> too_deep dc cli session args t w"
    using run_json_raises [of dc cli session args t w] by (simp_all add: assms)
  show thesis
  proof (cases r)
    case (Inr result)
    with facts that(1) show thesis by simp
  next
    case (Inl e)
    with facts that(2-) show thesis by (cases e) simp_all
  qed
qed

text \<open>The operations of one invocation.\<close>

definition faults :: "bool \<Rightarrow> bool \<Rightarrow> raised set" where
  "faults refused deep = {e. e = Value_error \<and> refused \<or> e = Recursion_error \<and> deep}"

lemma faults_simps [simp]:
  "faults False False = {}" "faults True False = {Value_error}" "faults False True = {Recursion_error}"
  by (auto simp: faults_def)

lemma wake_escaping:
  "escaping (herdr_wake dc cli session h cue w) =
     faults (unpassable cli session [''agent'', ''prompt'', rh_token h, cue])
       (too_deep dc cli session [''agent'', ''prompt'', rh_token h, cue] TIMEOUT_S w)"
proof (cases "run_json dc cli session [''agent'', ''prompt'', rh_token h, cue] TIMEOUT_S w")
  case run: (Pair r w1)
  from run show ?thesis by (cases rule: run_json_cases) (simp_all add: run herdr_wake_def)
qed

lemma close_escaping:
  "escaping (close_pane dc cli session pane w) =
     faults (unpassable cli session [''pane'', ''close'', pane])
       (too_deep dc cli session [''pane'', ''close'', pane] TIMEOUT_S w)"
proof (cases "run_json dc cli session [''pane'', ''close'', pane] TIMEOUT_S w")
  case run: (Pair r w1)
  from run show ?thesis by (cases rule: run_json_cases) (simp_all add: run close_pane_def)
qed

text \<open>The status of an agent, if its lookup in the table of states raises.\<close>

definition unhashable :: "json option \<Rightarrow> bool" where
  "unhashable state \<longleftrightarrow> (\<exists>xs. state = Some (JList xs)) \<or> (\<exists>ms. state = Some (JObj ms))"

lemma observation_raises:
  "herdr_observation h state = Inl e \<longleftrightarrow> e = Type_error \<and> unhashable state"
  by (auto simp: herdr_observation_def unhashable_def Let_def split: option.splits json.splits)

lemma observation_value: "\<not> unhashable state \<Longrightarrow> \<exists>x. herdr_observation h state = Inr x"
  by (cases "herdr_observation h state") (simp_all add: observation_raises)

text \<open>herdr tells of the agent with a status that is a list or an object.\<close>

definition unhashable_told :: "decoder \<Rightarrow> 'w herdr_cli \<Rightarrow> string \<Rightarrow> runtime_handle \<Rightarrow> 'w \<Rightarrow> bool" where
  "unhashable_told dc cli session h w \<longleftrightarrow>
     (\<exists>result agent w1. run_json dc cli session (get_args (rh_token h)) TIMEOUT_S w = (Inr result, w1) \<and>
        map_of result ''agent'' = Some (JObj agent) \<and> unhashable (map_of agent ''agent_status''))"

lemma inspect_escaping:
  "escaping (herdr_inspect dc cli session h w) =
     faults (unpassable cli session (get_args (rh_token h)))
       (too_deep dc cli session (get_args (rh_token h)) TIMEOUT_S w) \<union>
     {e. e = Type_error \<and> unhashable_told dc cli session h w}"
proof (cases "run_json dc cli session (get_args (rh_token h)) TIMEOUT_S w")
  case run: (Pair r w1)
  have absent: "\<exists>x. herdr_observation h None = Inr x" by (simp add: herdr_observation_def Let_def)
  from run show ?thesis
  proof (cases rule: run_json_cases)
    case (1 result)
    note told = unhashable_told_def [of dc cli session h w, unfolded run 1(1) prod.inject sum.inject]
    show ?thesis
    proof (cases "\<exists>agent. map_of result ''agent'' = Some (JObj agent)")
      case True
      then obtain agent where agent: "map_of result ''agent'' = Some (JObj agent)" by blast
      have "herdr_inspect dc cli session h w = (herdr_observation h (map_of agent ''agent_status''), w1)"
        by (simp add: herdr_inspect_def run 1(1) agent)
      then show ?thesis
        using observation_raises [of h "map_of agent ''agent_status''" Type_error]
          observation_value [of "map_of agent ''agent_status''" h]
        by (cases "unhashable (map_of agent ''agent_status'')") (auto simp: told agent 1)
    next
      case False
      then have "herdr_inspect dc cli session h w = (Inl (Classified Malformed_response), w1)"
        by (simp add: herdr_inspect_def run 1(1) split: option.split json.split)
      with False show ?thesis by (simp add: told 1)
    qed
  next
    case 2
    from absent obtain x where "herdr_observation h None = Inr x" by blast
    with run 2 show ?thesis by (simp add: herdr_inspect_def unhashable_told_def)
  qed (use run in \<open>simp_all add: herdr_inspect_def unhashable_told_def\<close>)
qed

text \<open>\<open>read_recent_output\<close> reads one stream of a failed command and none of a successful one.\<close>

definition deep_refusal :: "decoder \<Rightarrow> 'w herdr_cli \<Rightarrow> string \<Rightarrow> runtime_handle \<Rightarrow> 'w \<Rightarrow> bool" where
  "deep_refusal dc cli session h w \<longleftrightarrow>
     (\<exists>r w1. herdr_run cli session [''agent'', ''read'', rh_token h] TIMEOUT_S w = (Inr r, w1) \<and>
        rs_code r \<noteq> 0 \<and> dc_deep dc (if rs_err r \<noteq> [] then rs_err r else rs_out r))"

lemma read_escaping:
  "escaping (herdr_read dc cli session h w) =
     faults (unpassable cli session [''agent'', ''read'', rh_token h]) (deep_refusal dc cli session h w)"
proof -
  let ?args = "[''agent'', ''read'', rh_token h]"
  obtain r w1 where run: "herdr_run cli session ?args TIMEOUT_S w = (r, w1)" by fastforce
  show ?thesis
  proof (cases r)
    case (Inl e)
    with run herdr_run_raises [of cli session ?args TIMEOUT_S w] show ?thesis
      by (cases e) (auto simp: herdr_read_def deep_refusal_def faults_def)
  next
    case (Inr x)
    let ?raw = "if rs_err x \<noteq> [] then rs_err x else rs_out x"
    have ok: "\<not> unpassable cli session ?args" using run Inr herdr_run_raises(2) by fastforce
    show ?thesis
    proof (cases "rs_code x = 0 \<or> classify dc ?raw = None")
      case True
      with run Inr ok classify_raises(3) [of dc ?raw] show ?thesis
        by (auto simp: herdr_read_def deep_refusal_def faults_def split: if_splits)
    next
      case False
      then obtain e where e: "classify dc ?raw = Some e" "rs_code x \<noteq> 0" by auto
      with run Inr ok classify_raises [of dc ?raw] show ?thesis
        by (cases e) (auto simp: herdr_read_def deep_refusal_def faults_def)
    qed
  qed
qed

text \<open>The operations of several invocations: some answer is too deep, and an argument or a pane cannot be passed.\<close>

lemma in_faults [simp]:
  "Value_error \<in> faults p d \<longleftrightarrow> p" "Recursion_error \<in> faults p d \<longleftrightarrow> d" "Type_error \<notin> faults p d"
  by (simp_all add: faults_def)

lemma passable_digits: "passable_text (nat_str n)"
proof -
  have "passable_text s" if "ascii_digits s \<or> s = []" for s
    using that by (induction s) (auto simp: ascii_digits_def is_digit_def less_char_def split: list.splits)
  then show ?thesis by simp
qed

lemma unpassable_args:
  "unpassable cli session (get_args token) \<longleftrightarrow> unpassable cli session [token]"
  "unpassable cli session (wait_args token t) \<longleftrightarrow> unpassable cli session [token]"
  "unpassable cli session [''agent'', ''read'', token] \<longleftrightarrow> unpassable cli session [token]"
  "unpassable cli session [''agent'', ''prompt'', token, cue] \<longleftrightarrow> unpassable cli session [token, cue]"
  "unpassable cli session [''pane'', ''close'', pane] \<longleftrightarrow> unpassable cli session [pane]"
  "unpassable cli session [''workspace'', ''list''] \<longleftrightarrow> unpassable cli session []"
  "unpassable cli session (start_args token k pane) \<longleftrightarrow> unpassable cli session [token, k, pane]"
  "unpassable cli session ([''workspace'', ''create'', ''--label'', token, ''--cwd'', cwd] @ rest) \<longleftrightarrow>
     unpassable cli session (token # cwd # rest)"
  by (auto simp: unpassable_def passable_def get_args_def wait_args_def start_args_def SETTLED_def
      passable_digits)

lemma detect_escaping: "escaping (herdr_detect dc cli session w) \<subseteq> faults (unpassable cli session []) (deep_told dc cli)"
proof -
  have listed: "escaping (case run_json dc cli session [''workspace'', ''list''] TIMEOUT_S v of
      (Inr _, w2) \<Rightarrow> (Inr \<lparr>bs_available = True, bs_reason = []\<rparr>, w2)
    | (Inl Agent_absent, w2) \<Rightarrow> (Inr \<lparr>bs_available = True, bs_reason = []\<rparr>, w2)
    | (Inl (Classified e), w2) \<Rightarrow> (Inr (unavailable (error_text e)), w2)
    | (Inl e, w2) \<Rightarrow> (Inl e, w2)) \<subseteq> faults (unpassable cli session []) (deep_told dc cli)" for v
  proof (cases "run_json dc cli session [''workspace'', ''list''] TIMEOUT_S v")
    case run: (Pair r w1)
    from run show ?thesis
      by (cases rule: run_json_cases) (simp_all add: run unpassable_args too_deep_told)
  qed
  obtain o1 w1 where v: "hr_run cli [''--version''] TIMEOUT_S w = (o1, w1)" by fastforce
  show ?thesis
  proof (cases o1)
    case (Returned x)
    with v listed [of w1] show ?thesis by (cases "version_parts (rs_out x)") (simp_all add: herdr_detect_def)
  qed (simp_all add: herdr_detect_def v)
qed

lemma await_escaping:
  defines "gone \<equiv> \<lambda>dc cli session h t w. \<exists>result w1.
      run_json dc cli session (wait_args (rh_token h) t) (t + TIMEOUT_S) w = (Inr result, w1) \<and>
      unhashable_told dc cli session h w1"
  shows "escaping (herdr_await dc cli session h t w) \<subseteq>
      faults (unpassable cli session [rh_token h]) (deep_told dc cli) \<union> {e. e = Type_error \<and> gone dc cli session h t w}"
    and "Value_error \<in> escaping (herdr_await dc cli session h t w) \<longleftrightarrow> unpassable cli session [rh_token h]"
    and "Type_error \<in> escaping (herdr_await dc cli session h t w) \<longleftrightarrow> gone dc cli session h t w"
proof -
  obtain r w1 where run: "run_json dc cli session (wait_args (rh_token h) t) (t + TIMEOUT_S) w = (r, w1)"
    by fastforce
  have absent: "\<exists>x. herdr_observation h None = Inr x" by (simp add: herdr_observation_def Let_def)
  have "escaping (herdr_await dc cli session h t w) \<subseteq>
      faults (unpassable cli session [rh_token h]) (deep_told dc cli) \<union> {e. e = Type_error \<and> gone dc cli session h t w} \<and>
    (Value_error \<in> escaping (herdr_await dc cli session h t w) \<longleftrightarrow> unpassable cli session [rh_token h]) \<and>
    (Type_error \<in> escaping (herdr_await dc cli session h t w) \<longleftrightarrow> gone dc cli session h t w)"
    using run
  proof (cases rule: run_json_cases)
    case (1 result)
    then have "herdr_await dc cli session h t w = herdr_inspect dc cli session h w1"
      "gone dc cli session h t w \<longleftrightarrow> unhashable_told dc cli session h w1"
      by (simp_all add: herdr_await_def run gone_def)
    then show ?thesis
      using too_deep_told [of dc cli session "get_args (rh_token h)" TIMEOUT_S w1]
      by (auto simp: inspect_escaping unpassable_args faults_def)
  next
    case 2
    from absent obtain x where "herdr_observation h None = Inr x" by blast
    with 2 show ?thesis by (simp add: herdr_await_def run gone_def unpassable_args)
  qed (simp_all add: herdr_await_def run gone_def unpassable_args too_deep_told)
  then show "escaping (herdr_await dc cli session h t w) \<subseteq>
      faults (unpassable cli session [rh_token h]) (deep_told dc cli) \<union> {e. e = Type_error \<and> gone dc cli session h t w}"
    "Value_error \<in> escaping (herdr_await dc cli session h t w) \<longleftrightarrow> unpassable cli session [rh_token h]"
    "Type_error \<in> escaping (herdr_await dc cli session h t w) \<longleftrightarrow> gone dc cli session h t w" by blast+
qed

text \<open>herdr tells of the agent, or of the new workspace, with this pane.\<close>

definition told_pane :: "decoder \<Rightarrow> 'w herdr_cli \<Rightarrow> string \<Rightarrow> string list \<Rightarrow> string \<Rightarrow> 'w \<Rightarrow> string \<Rightarrow> bool" where
  "told_pane dc cli session args key w pane \<longleftrightarrow>
     (\<exists>result w1. run_json dc cli session args TIMEOUT_S w = (Inr result, w1) \<and>
        pane_id (map_of result key) Malformed_response = Inr pane)"

lemma pane_id_class: "pane_id node c = Inr pane \<longleftrightarrow> pane_id node c' = Inr pane"
  by (auto simp: pane_id_def split: option.splits json.splits)

lemma terminate_escaping:
  defines "refused \<equiv> \<lambda>dc cli session h w. unpassable cli session [rh_token h] \<or>
      (\<exists>pane. told_pane dc cli session (get_args (rh_token h)) ''agent'' w pane \<and> unpassable cli session [pane])"
  shows "escaping (herdr_terminate dc cli session h w) \<subseteq> faults (refused dc cli session h w) (deep_told dc cli)"
    and "Value_error \<in> escaping (herdr_terminate dc cli session h w) \<longleftrightarrow> refused dc cli session h w"
proof -
  let ?get = "get_args (rh_token h)"
  obtain r w1 where run: "run_json dc cli session ?get TIMEOUT_S w = (r, w1)" by fastforce
  have "escaping (herdr_terminate dc cli session h w) \<subseteq> faults (refused dc cli session h w) (deep_told dc cli) \<and>
    (Value_error \<in> escaping (herdr_terminate dc cli session h w) \<longleftrightarrow> refused dc cli session h w)"
    using run
  proof (cases rule: run_json_cases)
    case (1 result)
    note ok = 1(2) [unfolded unpassable_args]
    show ?thesis
    proof (cases "pane_id (map_of result ''agent'') Terminate_failed")
      case (Inl e)
      with pane_id_error pane_id_class [of _ Malformed_response _ Terminate_failed] run 1 ok show ?thesis
        by (fastforce simp: herdr_terminate_def refused_def told_pane_def)
    next
      case (Inr pane)
      then have ref: "refused dc cli session h w \<longleftrightarrow> unpassable cli session [pane]"
        using run 1 ok pane_id_class [of _ Malformed_response _ Terminate_failed]
        by (auto simp: refused_def told_pane_def)
      obtain c w2 where cl: "close_pane dc cli session pane w1 = (c, w2)" by fastforce
      obtain r2 w3 where again: "run_json dc cli session ?get TIMEOUT_S w2 = (r2, w3)" by fastforce
      show ?thesis
      proof (cases c)
        case (Inl e)
        then have "escaping (herdr_terminate dc cli session h w) = escaping (Inl e :: raised + unit, w2)"
          by (simp add: herdr_terminate_def run 1(1) \<open>pane_id _ _ = Inr pane\<close> cl)
        also have "\<dots> = escaping (close_pane dc cli session pane w1)" by (simp add: cl Inl escaping_def)
        finally show ?thesis
          using too_deep_told [of dc cli session "[''pane'', ''close'', pane]" TIMEOUT_S w1]
          by (auto simp: close_escaping ref unpassable_args faults_def)
      next
        case (Inr b)
        then have no: "\<not> unpassable cli session [pane]"
          using close_escaping [of dc cli session pane w1] cl by (auto simp: unpassable_args faults_def)
        from again ok no ref show ?thesis
          by (cases rule: run_json_cases)
            (simp_all add: herdr_terminate_def run 1(1) \<open>pane_id _ _ = Inr pane\<close> cl Inr again unpassable_args
              too_deep_told)
      qed
    qed
  qed (auto simp: herdr_terminate_def run refused_def told_pane_def unpassable_args too_deep_told faults_def)
  then show "escaping (herdr_terminate dc cli session h w) \<subseteq> faults (refused dc cli session h w) (deep_told dc cli)"
    "Value_error \<in> escaping (herdr_terminate dc cli session h w) \<longleftrightarrow> refused dc cli session h w" by blast+
qed

lemma start_loop_escaping:
  assumes "start_loop dc cli m session args deadline w = Some x"
  shows "escaping x \<subseteq> faults (unpassable cli session args) (deep_told dc cli) \<and>
    (Value_error \<in> escaping x \<longleftrightarrow> unpassable cli session args)"
  using assms
proof (rule start_loop.raw_induct [where P = "\<lambda>dc cli m session args deadline w x.
    escaping x \<subseteq> faults (unpassable cli session args) (deep_told dc cli) \<and>
    (Value_error \<in> escaping x \<longleftrightarrow> unpassable cli session args)", rotated])
  fix loop dc cli m session args deadline w x
  assume IH: "\<And>dc cli m session args deadline w y.
      loop dc cli m session args deadline w = Some y \<Longrightarrow>
      escaping y \<subseteq> faults (unpassable cli session args) (deep_told dc cli) \<and>
      (Value_error \<in> escaping y \<longleftrightarrow> unpassable cli session args)"
    and run_loop: "(case run_json dc cli session args TIMEOUT_S w of
        (Inr _, w1) \<Rightarrow> Some (Inr (), w1)
      | (Inl Agent_absent, w1) \<Rightarrow> Some (Inl (Classified Backend_refused), w1)
      | (Inl e, w1) \<Rightarrow>
          if e \<noteq> Classified Runtime_not_ready then Some (Inl e, w1)
          else if deadline \<le> mc_now m w1 then Some (Inl (Classified Launch_timeout), w1)
          else loop dc cli m session args deadline (mc_sleep m START_POLL_S w1)) = Some x"
  obtain r w1 where run: "run_json dc cli session args TIMEOUT_S w = (r, w1)" by fastforce
  from run show "escaping x \<subseteq> faults (unpassable cli session args) (deep_told dc cli) \<and>
      (Value_error \<in> escaping x \<longleftrightarrow> unpassable cli session args)"
  proof (cases rule: run_json_cases)
    case (3 c)
    show ?thesis
    proof (cases "c = Runtime_not_ready \<and> \<not> deadline \<le> mc_now m w1")
      case True
      with run_loop run 3(1) have "loop dc cli m session args deadline (mc_sleep m START_POLL_S w1) = Some x"
        by simp
      then show ?thesis by (rule IH)
    next
      case False
      with run_loop run 3 show ?thesis by (auto split: if_splits)
    qed
  qed (use run_loop run too_deep_told [of dc cli session args TIMEOUT_S w] in \<open>auto simp: faults_def\<close>)
qed

text \<open>From the moment the pane is known.\<close>

lemma start_loop_refused:
  assumes "unpassable cli session args"
  shows "start_loop dc cli m session args deadline w \<noteq> None"
proof -
  have "fst (run_json dc cli session args TIMEOUT_S w) = Inl Value_error"
    by (simp add: run_json_raises assms)
  then show ?thesis by (subst start_loop.simps) (auto split: prod.split)
qed

lemma launch_in_pane:
  assumes "run_json dc cli session (create_args sha env spec) TIMEOUT_S w = (Inr created, w1)"
    and "pane_id (map_of created ''root_pane'') Malformed_response = Inr pane"
  shows "herdr_launch dc cli m session sha env spec w =
    (case start_loop dc cli m session (start_args (token_for sha (ls_work_ref spec)) (ls_agent_kind spec) pane)
        (mc_now m w1 + PANE_READY_S) w1 of
       None \<Rightarrow> None
     | Some (Inr _, w2) \<Rightarrow>
         Some (Inr \<lparr>rh_backend = HERDR, rh_token = token_for sha (ls_work_ref spec)\<rparr>, w2)
     | Some (Inl (Classified e), w2) \<Rightarrow>
         (case close_pane dc cli session pane w2 of
            (Inl e3, w3) \<Rightarrow> Some (Inl e3, w3)
          | (Inr _, w3) \<Rightarrow> Some (Inl (Classified e), w3))
     | Some (Inl e, w2) \<Rightarrow> Some (Inl e, w2))"
  using assms by (simp add: herdr_launch_def Let_def)

lemma launch_in_pane_escaping:
  assumes created: "run_json dc cli session (create_args sha env spec) TIMEOUT_S w = (Inr created, w1)"
    and told: "pane_id (map_of created ''root_pane'') Malformed_response = Inr pane"
  defines "start \<equiv> start_args (token_for sha (ls_work_ref spec)) (ls_agent_kind spec) pane"
  shows "case herdr_launch dc cli m session sha env spec w of
      Some x \<Rightarrow> escaping x \<subseteq> faults (unpassable cli session start) (deep_told dc cli) \<and>
        (Value_error \<in> escaping x \<longleftrightarrow> unpassable cli session start)
    | None \<Rightarrow> \<not> unpassable cli session start"
proof -
  define s where "s = start_loop dc cli m session start (mc_now m w1 + PANE_READY_S) w1"
  note launch = launch_in_pane [OF created told, of m, folded start_def, folded s_def]
  show ?thesis
  proof (cases s)
    case None
    then have "\<not> unpassable cli session start" using start_loop_refused unfolding s_def by metis
    with None launch show ?thesis by simp
  next
    case (Some y)
    obtain r2 w2 where y: "y = (r2, w2)" by fastforce
    note st = start_loop_escaping [OF Some [unfolded s_def]]
    show ?thesis
    proof (cases "\<exists>c. r2 = Inl (Classified c)")
      case True
      then obtain c where r2: "r2 = Inl (Classified c)" by blast
      with st y have fine: "\<not> unpassable cli session start" by simp
      then have pane: "\<not> unpassable cli session [''pane'', ''close'', pane]"
        by (auto simp: unpassable_args unpassable_def passable_def start_def start_args_def)
      obtain r3 w3 where cl: "close_pane dc cli session pane w2 = (r3, w3)" by fastforce
      have "escaping (r3, w3) \<subseteq> faults False (deep_told dc cli)"
        using close_escaping [of dc cli session pane w2] pane
          too_deep_told [of dc cli session "[''pane'', ''close'', pane]" TIMEOUT_S w2]
        by (auto simp: cl faults_def)
      then have "escaping (case r3 of Inl e3 \<Rightarrow> (Inl e3 :: raised + runtime_handle, w3)
          | Inr _ \<Rightarrow> (Inl (Classified c), w3)) \<subseteq> faults False (deep_told dc cli)"
        by (cases r3) (auto simp: escaping_def)
      moreover have "herdr_launch dc cli m session sha env spec w = Some (case r3 of
          Inl e3 \<Rightarrow> (Inl e3, w3) | Inr _ \<Rightarrow> (Inl (Classified c), w3))"
        using launch Some y r2 cl by (simp split: sum.split)
      ultimately show ?thesis using fine by (auto simp: faults_def)
    next
      case False
      with st y launch Some show ?thesis
        by (cases r2; cases "projl r2") (auto simp: escaping_def)
    qed
  qed
qed

text \<open>A launch is refused for an argument of the new workspace, or of the agent in the pane herdr tells of.\<close>

definition launch_refused ::
    "decoder \<Rightarrow> 'w herdr_cli \<Rightarrow> string \<Rightarrow> (string \<Rightarrow> string) \<Rightarrow> (string \<times> string) list \<Rightarrow> launch_spec \<Rightarrow> 'w \<Rightarrow> bool"
  where
  "launch_refused dc cli session sha env spec w \<longleftrightarrow>
     unpassable cli session (create_args sha env spec) \<or>
     (\<exists>pane. told_pane dc cli session (create_args sha env spec) ''root_pane'' w pane \<and>
        unpassable cli session [token_for sha (ls_work_ref spec), ls_agent_kind spec, pane])"

lemma launch_escaping:
  "case herdr_launch dc cli m session sha env spec w of
     Some x \<Rightarrow> escaping x \<subseteq> faults (launch_refused dc cli session sha env spec w) (deep_told dc cli) \<and>
       (Value_error \<in> escaping x \<longleftrightarrow> launch_refused dc cli session sha env spec w)
   | None \<Rightarrow> \<not> launch_refused dc cli session sha env spec w"
proof -
  obtain r w1 where run: "run_json dc cli session (create_args sha env spec) TIMEOUT_S w = (r, w1)" by fastforce
  from run show ?thesis
  proof (cases rule: run_json_cases)
    case (1 created)
    show ?thesis
    proof (cases "pane_id (map_of created ''root_pane'') Malformed_response")
      case (Inl e)
      with run 1 have "\<not> launch_refused dc cli session sha env spec w"
        by (auto simp: launch_refused_def told_pane_def)
      with pane_id_error [OF Inl] run 1 Inl show ?thesis
        by (simp add: herdr_launch_def Let_def create_args_def)
    next
      case (Inr pane)
      have "launch_refused dc cli session sha env spec w \<longleftrightarrow>
          unpassable cli session (start_args (token_for sha (ls_work_ref spec)) (ls_agent_kind spec) pane)"
        using run 1 Inr by (auto simp: launch_refused_def told_pane_def unpassable_args)
      with launch_in_pane_escaping [OF run [unfolded 1(1)] Inr, of m] show ?thesis
        by (auto split: option.splits)
    qed
  qed (simp_all add: herdr_launch_def Let_def run launch_refused_def told_pane_def
      too_deep_told)
qed

text \<open>An agent that is told of without a status is reported as absent.\<close>

lemma missing_status_absent:
  assumes "run_json dc cli session (get_args (rh_token h)) TIMEOUT_S w = (Inr result, w')"
    and "map_of result ''agent'' = Some (JObj agent)" and "map_of agent ''agent_status'' = None"
  shows "\<exists>obs. herdr_inspect dc cli session h w = (Inr obs, w') \<and> ro_presence obs = Absent"
  using assms by (simp add: herdr_inspect_def herdr_observation_def)

section \<open>What is relied on\<close>

text \<open>How a start ends: only one that was not answered in time may have started the agent all the same.\<close>

definition start_told :: "('w \<Rightarrow> string set) \<Rightarrow> string \<Rightarrow> (raised + unit) \<Rightarrow> 'w \<Rightarrow> 'w \<Rightarrow> bool" where
  "start_told agents token r w w' \<longleftrightarrow>
     agents w' \<subseteq> insert token (agents w) \<and>
     (\<forall>e. r = Inl e \<and> e \<noteq> Classified Launch_timeout \<longrightarrow> agents w' \<subseteq> agents w)"

text \<open>
  \<open>agents w\<close> are the names of the agents alive in the state \<open>w\<close>.  Only \<^verbatim>\<open>agent start\<close> starts one, and
  at most the one it names.  A command that cannot be run, or that herdr refuses (a code other than 0)
  for anything but a timeout, starts none; nothing is relied on for a start that was not answered in
  time.  A start that exits with 0 has its result on standard output.  The answer that an agent is
  not found is true; what is told of an agent has its status, a text; what herdr answers is not
  nested beyond the stack, and its panes have names a process can be given.
\<close>

locale herdr_host =
  fixes dc :: decoder and cli :: "'w herdr_cli" and m :: "'w machine" and session :: string
    and sha :: "string \<Rightarrow> string" and env :: "(string \<times> string) list"
    and agents :: "'w \<Rightarrow> string set" and work_of :: "string \<Rightarrow> string option" and known :: "string set"
  assumes run_starts_none: "hr_run cli args t w = (r, w') \<Longrightarrow> take 2 (drop 2 args) \<noteq> [''agent'', ''start''] \<Longrightarrow>
      agents w' \<subseteq> agents w"
    and start_named: "hr_run cli ([''--session'', session] @ start_args token k pane) t w = (r, w') \<Longrightarrow>
      agents w' \<subseteq> insert token (agents w)"
    and start_refused: "hr_run cli ([''--session'', session] @ start_args token k pane) t w = (Returned x, w') \<Longrightarrow>
      rs_code x \<noteq> 0 \<Longrightarrow> read_response dc x \<noteq> Inl (Classified Launch_timeout) \<Longrightarrow> agents w' \<subseteq> agents w"
    and start_not_run: "hr_run cli ([''--session'', session] @ start_args token k pane) t w = (Os_error, w') \<Longrightarrow>
      agents w' \<subseteq> agents w"
    and start_result: "hr_run cli ([''--session'', session] @ start_args token k pane) t w = (Returned x, w') \<Longrightarrow>
      rs_code x = 0 \<Longrightarrow> \<exists>result. read_response dc x = Inr result"
    and not_found: "run_json dc cli session (get_args token) t w = (Inl Agent_absent, w') \<Longrightarrow>
      token \<notin> agents w'"
    and status_told: "run_json dc cli session (get_args token) t w = (Inr result, w') \<Longrightarrow>
      map_of result ''agent'' = Some (JObj agent) \<Longrightarrow>
      \<exists>s. map_of agent ''agent_status'' = Some (JStr s)"
    and answers_shallow: "\<not> deep_told dc cli"
    and panes_passable: "told_pane dc cli session (get_args token) ''agent'' w pane \<Longrightarrow> passable [pane]"
    and root_panes_passable: "told_pane dc cli session (create_args sha env spec) ''root_pane'' w pane \<Longrightarrow>
      passable [pane]"
    and tokens_name_work: "work \<in> known \<Longrightarrow> work_of (token_for sha work) = Some work"
    and run_takes: "hr_run cli args t w = (r, w') \<Longrightarrow> mc_now m w \<le> mc_now m w'"
    and sleep_starts_none: "agents (mc_sleep m d w) \<subseteq> agents w"
    and sleep_takes_time: "mc_now m w + d \<le> mc_now m (mc_sleep m d w)"
begin

abbreviation serves :: "'w \<Rightarrow> string \<times> string \<Rightarrow> string option" where
  "serves \<equiv> serving HERDR agents work_of"

lemma run_facts:
  assumes "herdr_run cli session args t w = (r, w')"
  shows "take 2 args \<noteq> [''agent'', ''start''] \<Longrightarrow> agents w' \<subseteq> agents w" and "mc_now m w \<le> mc_now m w'"
  using assms run_starts_none [of "[''--session'', session] @ args" t w _ w'] run_takes
  by (auto simp: herdr_run_def split: if_splits prod.splits cli_outcome.splits)

lemma json_facts:
  assumes "run_json dc cli session args t w = (r, w')"
  shows "take 2 args \<noteq> [''agent'', ''start''] \<Longrightarrow> agents w' \<subseteq> agents w" and "mc_now m w \<le> mc_now m w'"
proof -
  obtain r1 where run: "herdr_run cli session args t w = (r1, w')"
    using assms by (auto simp: run_json_def split: prod.splits sum.splits)
  show "take 2 args \<noteq> [''agent'', ''start''] \<Longrightarrow> agents w' \<subseteq> agents w" "mc_now m w \<le> mc_now m w'"
    using run_facts [OF run] by blast+
qed

text \<open>What a start that failed otherwise than by a timeout, and any start, can have started.\<close>

lemma start_failed:
  assumes "run_json dc cli session (start_args token k pane) t w = (Inl e, w')" and "e \<noteq> Classified Launch_timeout"
  shows "agents w' \<subseteq> agents w"
proof -
  obtain r where run: "herdr_run cli session (start_args token k pane) t w = (r, w')"
    using assms(1) by (auto simp: run_json_def split: prod.splits sum.splits)
  obtain o1 w1 where cmd: "hr_run cli ([''--session'', session] @ start_args token k pane) t w = (o1, w1)"
    by fastforce
  show ?thesis
  proof (cases "hr_binary cli \<and> passable ([''--session'', session] @ start_args token k pane)")
    case False
    with run show ?thesis by (auto simp: herdr_run_def split: if_splits)
  next
    case True
    show ?thesis
    proof (cases o1)
      case Timed_out
      with True cmd run assms show ?thesis by (auto simp: herdr_run_def run_json_def)
    next
      case Os_error
      with True cmd run start_not_run show ?thesis by (simp add: herdr_run_def)
    next
      case (Returned x)
      with True cmd run have "r = Inr x" "w' = w1" by (simp_all add: herdr_run_def)
      with assms(1) run have "read_response dc x = Inl e" by (simp add: run_json_def)
      with start_refused [OF cmd [unfolded Returned]] start_result [OF cmd [unfolded Returned]] assms(2) \<open>w' = w1\<close>
      show ?thesis by (cases "rs_code x = 0") auto
    qed
  qed
qed

lemma start_at_most:
  assumes "run_json dc cli session (start_args token k pane) t w = (r, w')"
  shows "agents w' \<subseteq> insert token (agents w)"
proof -
  obtain r1 where "herdr_run cli session (start_args token k pane) t w = (r1, w')"
    using assms by (auto simp: run_json_def split: prod.splits sum.splits)
  then show ?thesis using start_named [of token k pane t w _ w']
    by (auto simp: herdr_run_def split: if_splits prod.splits cli_outcome.splits)
qed

lemma close_facts: "close_pane dc cli session pane w = (c, w') \<Longrightarrow> agents w' \<subseteq> agents w"
  using json_facts(1) [of "[''pane'', ''close'', pane]" TIMEOUT_S w]
  by (auto simp: close_pane_def split: prod.splits sum.splits raised.splits)

lemma inspect_state:
  assumes "herdr_inspect dc cli session h w = (r, w')"
  shows "agents w' \<subseteq> agents w" and "mc_now m w \<le> mc_now m w'"
    and "r = Inr obs \<Longrightarrow> ro_presence obs \<noteq> Present \<Longrightarrow> rh_token h \<notin> agents w'"
proof -
  obtain r1 w1 where run: "run_json dc cli session (get_args (rh_token h)) TIMEOUT_S w = (r1, w1)" by fastforce
  have w': "w' = w1" using assms run
    by (auto simp: herdr_inspect_def split: sum.splits raised.splits option.splits json.splits)
  show "agents w' \<subseteq> agents w" "mc_now m w \<le> mc_now m w'"
    unfolding w' using json_facts [OF run] by (simp_all add: get_args_def)
  show "rh_token h \<notin> agents w'" if "r = Inr obs" "ro_presence obs \<noteq> Present"
  proof
    assume alive: "rh_token h \<in> agents w'"
    with not_found run w' have "r1 \<noteq> Inl Agent_absent" by auto
    with assms run that obtain result agent where told: "r1 = Inr result"
      "map_of result ''agent'' = Some (JObj agent)"
      "herdr_observation h (map_of agent ''agent_status'') = Inr obs"
      by (auto simp: herdr_inspect_def split: sum.splits raised.splits option.splits json.splits)
    from status_told [OF run [unfolded told(1)] told(2)] obtain s where
      "map_of agent ''agent_status'' = Some (JStr s)" by blast
    with told(3) have "ro_presence obs = Present"
      by (auto simp: herdr_observation_def Let_def STATE_MAP_def split: if_splits)
    with that(2) show False by contradiction
  qed
qed

lemma await_facts:
  assumes "herdr_await dc cli session h t w = (r, w')"
  shows "agents w' \<subseteq> agents w" and "mc_now m w \<le> mc_now m w'"
proof -
  obtain r1 w1 where run: "run_json dc cli session (wait_args (rh_token h) t) (t + TIMEOUT_S) w = (r1, w1)"
    by fastforce
  have one: "agents w1 \<subseteq> agents w" "mc_now m w \<le> mc_now m w1"
    using json_facts [OF run] by (simp_all add: wait_args_def)
  obtain r2 w2 where i: "herdr_inspect dc cli session h w1 = (r2, w2)" by fastforce
  note two = inspect_state(1,2) [OF i]
  have "w' = w1 \<or> w' = w2" using assms run i
    by (auto simp: herdr_await_def split: sum.splits raised.splits)
  with one two show "agents w' \<subseteq> agents w" "mc_now m w \<le> mc_now m w'" by auto
qed

lemma wake_facts:
  assumes "herdr_wake dc cli session h cue w = (r, w')"
  shows "agents w' \<subseteq> agents w" and "mc_now m w \<le> mc_now m w'"
proof -
  obtain r1 where "run_json dc cli session [''agent'', ''prompt'', rh_token h, cue] TIMEOUT_S w = (r1, w')"
    using assms by (auto simp: herdr_wake_def split: prod.splits sum.splits raised.splits)
  from json_facts [OF this] show "agents w' \<subseteq> agents w" "mc_now m w \<le> mc_now m w'" by simp_all
qed

lemma read_facts:
  assumes "herdr_read dc cli session h w = (r, w')"
  shows "agents w' \<subseteq> agents w" and "mc_now m w \<le> mc_now m w'"
proof -
  obtain r1 where "herdr_run cli session [''agent'', ''read'', rh_token h] TIMEOUT_S w = (r1, w')"
    using assms by (auto simp: herdr_read_def split: prod.splits sum.splits option.splits raised.splits if_splits)
  from run_facts [OF this] show "agents w' \<subseteq> agents w" "mc_now m w \<le> mc_now m w'" by simp_all
qed

lemma terminate_facts:
  assumes "herdr_terminate dc cli session h w = (r, w')"
  shows "agents w' \<subseteq> agents w" and "r = Inr u \<Longrightarrow> rh_token h \<notin> agents w'"
proof -
  obtain r1 w1 where g1: "run_json dc cli session (get_args (rh_token h)) TIMEOUT_S w = (r1, w1)" by fastforce
  note one = json_facts(1) [OF g1]
  have fewer: "agents w1 \<subseteq> agents w" using one by (simp add: get_args_def)
  have "agents w' \<subseteq> agents w \<and> (r = Inr u \<longrightarrow> rh_token h \<notin> agents w')"
  proof (cases "\<exists>result pane. r1 = Inr result \<and> pane_id (map_of result ''agent'') Terminate_failed = Inr pane")
    case False
    with assms g1 not_found [of "rh_token h" TIMEOUT_S w w1] fewer show ?thesis
      by (auto simp: herdr_terminate_def split: sum.splits raised.splits)
  next
    case True
    then obtain result pane where p: "r1 = Inr result"
      "pane_id (map_of result ''agent'') Terminate_failed = Inr pane" by blast
    obtain c w2 where cl: "close_pane dc cli session pane w1 = (c, w2)" by fastforce
    have closed: "agents w2 \<subseteq> agents w" using fewer close_facts [OF cl] by blast
    show ?thesis
    proof (cases c)
      case (Inl e)
      with assms g1 p cl closed show ?thesis by (auto simp: herdr_terminate_def)
    next
      case (Inr b)
      obtain r2 w3 where g2: "run_json dc cli session (get_args (rh_token h)) TIMEOUT_S w2 = (r2, w3)"
        by fastforce
      have "agents w3 \<subseteq> agents w" using closed json_facts(1) [OF g2] by (auto simp: get_args_def)
      moreover have "w' = w3" "r = Inr u \<Longrightarrow> r2 = Inl Agent_absent"
        using assms g1 p cl Inr g2 by (auto simp: herdr_terminate_def split: sum.splits raised.splits)
      ultimately show ?thesis using not_found g2 by blast
    qed
  qed
  then show "agents w' \<subseteq> agents w" "r = Inr u \<Longrightarrow> rh_token h \<notin> agents w'" by blast+
qed

lemma detect_facts:
  assumes "herdr_detect dc cli session w = (s, w')"
  shows "agents w' \<subseteq> agents w"
proof -
  obtain o1 w1 where v: "hr_run cli [''--version''] TIMEOUT_S w = (o1, w1)" by fastforce
  obtain r2 w2 where l: "run_json dc cli session [''workspace'', ''list''] TIMEOUT_S w1 = (r2, w2)" by fastforce
  have one: "agents w1 \<subseteq> agents w" using run_starts_none [OF v] by simp
  have two: "agents w2 \<subseteq> agents w1" using json_facts(1) [OF l] by simp
  have "w' \<in> {w, w1, w2}" using assms v l
    by (auto simp: herdr_detect_def split: cli_outcome.splits option.splits sum.splits raised.splits if_splits)
  with one two show ?thesis by auto
qed

text \<open>The shell of a new pane comes up or the deadline passes: the loop ends.\<close>

lemma start_round:
  "(\<exists>r w'. start_loop dc cli m session (start_args token k pane) deadline w = Some (r, w') \<and>
      start_told agents token r w w') \<or>
   (\<exists>w'. start_loop dc cli m session (start_args token k pane) deadline w =
        start_loop dc cli m session (start_args token k pane) deadline w' \<and> agents w' \<subseteq> agents w \<and>
      mc_now m w + START_POLL_S \<le> mc_now m w' \<and> mc_now m w < deadline)"
proof -
  obtain r1 w1 where run: "run_json dc cli session (start_args token k pane) TIMEOUT_S w = (r1, w1)" by fastforce
  note time = json_facts(2) [OF run] and most = start_at_most [OF run]
  show ?thesis
  proof (cases r1)
    case (Inr result)
    with run most show ?thesis by (subst start_loop.simps) (simp add: start_told_def)
  next
    case (Inl e)
    note none = start_failed [OF run [unfolded Inl]]
    show ?thesis
    proof (cases "e = Classified Runtime_not_ready \<and> mc_now m w1 < deadline")
      case False
      with run Inl none most show ?thesis
        by (subst start_loop.simps) (cases e; auto simp: start_told_def)
    next
      case True
      let ?w2 = "mc_sleep m START_POLL_S w1"
      have "start_loop dc cli m session (start_args token k pane) deadline w =
          start_loop dc cli m session (start_args token k pane) deadline ?w2"
        by (subst start_loop.simps) (use run Inl True in simp)
      moreover have "agents ?w2 \<subseteq> agents w" using none True sleep_starts_none by blast
      moreover have "mc_now m w + START_POLL_S \<le> mc_now m ?w2"
        using time sleep_takes_time [of w1 START_POLL_S] by linarith
      moreover have "mc_now m w < deadline" using time True by linarith
      ultimately show ?thesis by blast
    qed
  qed
qed

lemma start_loop_total:
  "\<exists>x. start_loop dc cli m session (start_args token k pane) deadline w = Some x \<and>
     start_told agents token (fst x) w (snd x)"
proof (rule polling_ends [where now = "mc_now m" and step = START_POLL_S and deadline = deadline])
  show "0 < START_POLL_S" by (simp add: START_POLL_S_def)
  let ?f = "start_loop dc cli m session (start_args token k pane) deadline"
  let ?P = "\<lambda>w x. start_told agents token (fst x) w (snd x)"
  show "(\<exists>x. ?f v = Some x \<and> ?P v x) \<or>
    (\<exists>w'. ?f v = ?f w' \<and> mc_now m v + START_POLL_S \<le> mc_now m w' \<and> mc_now m v < deadline \<and>
      (\<forall>x. ?P w' x \<longrightarrow> ?P v x))" for v
    using start_round [of token k pane deadline v]
  proof (elim disjE exE conjE)
    fix r w' assume "?f v = Some (r, w')" "start_told agents token r v w'"
    then show ?thesis by (intro disjI1 exI [of _ "(r, w')"]) simp
  next
    fix w' assume "?f v = ?f w'" "agents w' \<subseteq> agents v"
      "mc_now m v + START_POLL_S \<le> mc_now m w'" "mc_now m v < deadline"
    then show ?thesis by (intro disjI2 exI [of _ w']) (auto simp: start_told_def)
  qed
qed

text \<open>The pane of a start that failed is closed: no exception takes the place of the failure.\<close>

lemma closed_plainly:
  assumes "start_loop dc cli m session (start_args token k pane) deadline w = Some (Inl (Classified c), w2)"
  shows "\<exists>b w3. close_pane dc cli session pane w2 = (Inr b, w3) \<and> agents w3 \<subseteq> agents w2"
proof -
  have "\<not> unpassable cli session (start_args token k pane)"
    using start_loop_escaping [OF assms] by simp
  then have "\<not> unpassable cli session [''pane'', ''close'', pane]"
    by (auto simp: unpassable_args unpassable_def passable_def start_args_def)
  then have none: "escaping (close_pane dc cli session pane w2) = {}"
    using close_escaping [of dc cli session pane w2] answers_shallow
      too_deep_told [of dc cli session "[''pane'', ''close'', pane]" TIMEOUT_S w2]
    by (auto simp: faults_def)
  obtain r3 w3 where cl: "close_pane dc cli session pane w2 = (r3, w3)" by fastforce
  moreover have "r3 \<noteq> Inl (Classified c')" for c'
    using cl by (auto simp: close_pane_def split: prod.splits sum.splits raised.splits)
  ultimately show ?thesis using none close_facts [OF cl] by (cases r3) (auto simp: escaping_def)
qed

lemma launch_facts:
  shows "\<exists>r w'. herdr_launch dc cli m session sha env spec w = Some (r, w') \<and>
    agents w' \<subseteq> insert (token_for sha (ls_work_ref spec)) (agents w) \<and>
    (case r of
       Inl e \<Rightarrow> e \<noteq> Classified Launch_timeout \<longrightarrow> agents w' \<subseteq> agents w
     | Inr h \<Rightarrow> rh_backend h = HERDR \<and> rh_token h = token_for sha (ls_work_ref spec))"
proof -
  let ?token = "token_for sha (ls_work_ref spec)"
  obtain r1 w1 where c: "run_json dc cli session (create_args sha env spec) TIMEOUT_S w = (r1, w1)" by fastforce
  have one: "agents w1 \<subseteq> agents w" using json_facts(1) [OF c] by (simp add: create_args_def)
  show ?thesis
  proof (cases "\<exists>created pane. r1 = Inr created \<and>
      pane_id (map_of created ''root_pane'') Malformed_response = Inr pane")
    case False
    with c one show ?thesis
      by (auto simp: herdr_launch_def Let_def split: sum.split raised.split)
  next
    case True
    then obtain created pane where p: "r1 = Inr created"
      "pane_id (map_of created ''root_pane'') Malformed_response = Inr pane" by blast
    let ?start = "start_args ?token (ls_agent_kind spec) pane"
    obtain r2 w2 where st: "start_loop dc cli m session ?start (mc_now m w1 + PANE_READY_S) w1 = Some (r2, w2)"
      "start_told agents ?token r2 w1 w2"
      using start_loop_total [of ?token "ls_agent_kind spec" pane "mc_now m w1 + PANE_READY_S" w1] by auto
    note launch = launch_in_pane [OF c [unfolded p(1)] p(2), of m, unfolded st(1)]
    have two: "agents w2 \<subseteq> insert ?token (agents w)" using st(2) one by (auto simp: start_told_def)
    show ?thesis
    proof (cases "\<exists>e. r2 = Inl (Classified e)")
      case True
      then obtain e where r2: "r2 = Inl (Classified e)" by blast
      obtain b w3 where cl: "close_pane dc cli session pane w2 = (Inr b, w3)" "agents w3 \<subseteq> agents w2"
        using closed_plainly [OF st(1) [unfolded r2]] by blast
      have "herdr_launch dc cli m session sha env spec w = Some (Inl (Classified e), w3)"
        using launch r2 cl(1) by simp
      moreover have "e \<noteq> Launch_timeout \<longrightarrow> agents w3 \<subseteq> agents w"
        using st(2) r2 one cl(2) by (auto simp: start_told_def)
      ultimately show ?thesis using two cl(2) by auto
    next
      case False
      have "\<exists>r. herdr_launch dc cli m session sha env spec w = Some (r, w2) \<and>
          (case r of
             Inl e \<Rightarrow> r2 = Inl e
           | Inr h \<Rightarrow> rh_backend h = HERDR \<and> rh_token h = ?token)"
        using launch False by (cases r2; cases "projl r2") simp_all
      then obtain r where r: "herdr_launch dc cli m session sha env spec w = Some (r, w2)"
        "case r of Inl e \<Rightarrow> r2 = Inl e | Inr h \<Rightarrow> rh_backend h = HERDR \<and> rh_token h = ?token" by blast
      have "case r of Inl e \<Rightarrow> e \<noteq> Classified Launch_timeout \<longrightarrow> agents w2 \<subseteq> agents w
          | Inr h \<Rightarrow> rh_backend h = HERDR \<and> rh_token h = ?token"
        using r(2) st(2) one by (cases r) (auto simp: start_told_def)
      with r(1) two show ?thesis by blast
    qed
  qed
qed

lemma loaded_herdr:
  "herdr_loaders dc cli m session sha env n = Some (Some b) \<longleftrightarrow>
     n = HERDR \<and> b = herdr_backend dc cli m session sha env"
  by (auto simp: herdr_loaders_def)

lemma fewer_agents: "agents w' \<subseteq> agents w \<Longrightarrow> shrinks serves w w'"
  by (rule serving_shrinks)

end

text \<open>What the surface hides is the exception only.\<close>

lemma surface_state: "surface x = (r, w) \<Longrightarrow> \<exists>y. x = (y, w)"
  by (auto simp: surface_def split: prod.splits sum.splits raised.splits)

lemma surface_value: "surface x = (Inr v, w) \<longleftrightarrow> x = (Inr v, w)"
  by (auto simp: surface_def split: prod.splits sum.splits raised.splits)

lemma surface_error: "surface x = (Inl e, w) \<Longrightarrow> \<exists>e'. x = (Inl e', w)"
  by (auto simp: surface_def split: prod.splits sum.splits raised.splits)

text \<open>The laws of the contract hold of this backend.\<close>

sublocale herdr_host \<subseteq> waking_world "herdr_loaders dc cli m session sha env" serves known m
proof
  let ?L = "herdr_loaders dc cli m session sha env"
  fix n b h w w' r1 r2 r3 cue d t
  assume "?L n = Some (Some b)"
  then have n: "n = HERDR" and b: "b = herdr_backend dc cli m session sha env"
    by (simp_all add: loaded_herdr)
  show "bk_name b = n" by (simp add: n b herdr_backend_def)
  { assume "bk_await_settled b h t w = (r1, w')"
    then have "surface (herdr_await dc cli session h t w) = (r1, w')"
      by (simp add: b herdr_backend_def)
    from surface_state [OF this] obtain x where "herdr_await dc cli session h t w = (x, w')" ..
    from await_facts [OF this]
    show "shrinks serves w w'" "mc_now m w \<le> mc_now m w'" by (simp_all add: fewer_agents) }
  { assume "bk_wake b h cue w = (r2, w')"
    then have "surface (herdr_wake dc cli session h cue w) = (r2, w')"
      by (simp add: b herdr_backend_def)
    from surface_state [OF this] obtain x where "herdr_wake dc cli session h cue w = (x, w')" ..
    from wake_facts [OF this]
    show "shrinks serves w w'" "mc_now m w \<le> mc_now m w'" by (simp_all add: fewer_agents) }
  { assume "bk_read_recent_output b h w = (r3, w')"
    then have "surface (herdr_read dc cli session h w) = (r3, w')"
      by (simp add: b herdr_backend_def)
    from surface_state [OF this] obtain x where "herdr_read dc cli session h w = (x, w')" ..
    from read_facts [OF this]
    show "shrinks serves w w'" "mc_now m w \<le> mc_now m w'" by (simp_all add: fewer_agents) }
  { assume "bk_inspect b h w = (r1, w')"
    then have "surface (herdr_inspect dc cli session h w) = (r1, w')"
      by (simp add: b herdr_backend_def)
    from surface_state [OF this] obtain x where "herdr_inspect dc cli session h w = (x, w')" ..
    from inspect_state(1) [OF this] show "shrinks serves w w'" by (simp add: fewer_agents) }
  { assume "bk_terminate b h w = (r2, w')"
    then have "surface (herdr_terminate dc cli session h w) = (r2, w')"
      by (simp add: b herdr_backend_def)
    from surface_state [OF this] obtain x where "herdr_terminate dc cli session h w = (x, w')" ..
    from terminate_facts(1) [OF this] show "shrinks serves w w'" by (simp add: fewer_agents) }
next
  let ?L = "herdr_loaders dc cli m session sha env"
  fix n b h w w' r obs u
  assume "?L n = Some (Some b)"
  then have n: "n = HERDR" and b: "b = herdr_backend dc cli m session sha env"
    by (simp_all add: loaded_herdr)
  { fix r :: "error_class + backend_status" assume "bk_detect b w = (r, w')"
    then have "surface (herdr_detect dc cli session w) = (r, w')"
      by (simp add: b herdr_backend_def)
    from surface_state [OF this] obtain x where "herdr_detect dc cli session w = (x, w')" ..
    from detect_facts [OF this] show "shrinks serves w w'" by (rule fewer_agents) }
  { assume "bk_inspect b h w = (Inr obs, w')" and gone: "ro_presence obs \<noteq> Present"
    then have "herdr_inspect dc cli session h w = (Inr obs, w')"
      by (simp add: b herdr_backend_def surface_value)
    from inspect_state(3) [OF this refl gone] show "serves w' (n, rh_token h) = None"
      by (rule serving_dead) }
  { assume "bk_terminate b h w = (Inr u, w')"
    then have "herdr_terminate dc cli session h w = (Inr u, w')"
      by (simp add: b herdr_backend_def surface_value)
    from terminate_facts(2) [OF this refl] show "serves w' (n, rh_token h) = None"
      by (rule serving_dead) }
next
  let ?L = "herdr_loaders dc cli m session sha env"
  fix n b w w' h e x and spec :: launch_spec
  assume "?L n = Some (Some b)"
  then have n: "n = HERDR" and b: "b = herdr_backend dc cli m session sha env"
    by (simp_all add: loaded_herdr)
  let ?token = "token_for sha (ls_work_ref spec)"
  obtain r v where l: "herdr_launch dc cli m session sha env spec w = Some (r, v)"
    and most: "agents v \<subseteq> insert ?token (agents w)"
    and facts: "case r of Inl e \<Rightarrow> e \<noteq> Classified Launch_timeout \<longrightarrow> agents v \<subseteq> agents w
     | Inr h \<Rightarrow> rh_backend h = HERDR \<and> rh_token h = ?token"
    using launch_facts by blast
  have own: "work_of ?token = Some (ls_work_ref spec)" if "ls_work_ref spec \<in> known"
    using tokens_name_work that .
  { assume known: "ls_work_ref spec \<in> known" and "bk_launch b spec w = (Inr h, w')"
    then have "r = Inr h" "v = w'" using l by (simp_all add: b herdr_backend_def surface_value)
    with facts most have h: "rh_backend h = HERDR" "rh_token h = ?token"
      "agents w' \<subseteq> insert (rh_token h) (agents w)" by auto
    have "work_of (rh_token h) = Some (ls_work_ref spec)" by (simp add: h(2) own known)
    with h(1,3) show "rh_backend h = n \<and> (\<forall>x. serves w' x = serves w x \<or> serves w' x = None \<or>
        x = (n, rh_token h) \<and> serves w' x = Some (ls_work_ref spec))"
      by (auto simp: n serving_def) }
  { assume "bk_launch b spec w = (Inl e, w')" and "e \<noteq> Launch_timeout"
    then have sf: "surface (r, v) = (Inl e, w')" and late: "e \<noteq> Launch_timeout"
      using l by (simp_all add: b herdr_backend_def)
    from surface_error [OF sf] obtain e' where e': "r = Inl e'" "v = w'" by blast
    have "e' \<noteq> Classified Launch_timeout" using sf late by (auto simp: e' surface_def)
    with e' facts show "shrinks serves w w'" by (simp add: fewer_agents) }
  { assume known: "ls_work_ref spec \<in> known" and "bk_launch b spec w = (Inl Launch_timeout, w')"
    then have "v = w'"
      using l surface_state [of "(r, v)" "Inl Launch_timeout" w'] by (auto simp: b herdr_backend_def)
    with most own [OF known]
    show "serves w' x = serves w x \<or> serves w' x = None \<or> serves w' x = Some (ls_work_ref spec)"
      by (cases x) (auto simp: serving_def) }
next
  fix w d
  show "shrinks serves w (mc_sleep m d w)" by (rule fewer_agents [OF sleep_starts_none])
  show "mc_now m w + d \<le> mc_now m (mc_sleep m d w)" by (rule sleep_takes_time)
qed

text \<open>On such a host nothing but the closed vocabulary leaves the boundary, when the names can be passed.\<close>

context herdr_host
begin

lemma launch_recorded:
  assumes "registered serves h w" and "ls_work_ref spec \<in> known"
  shows "\<exists>r h' w'. launch (herdr_loaders dc cli m session sha env)
      (herdr_backend dc cli m session sha env) m d spec force started_at (h, w) = Some (r, h', w') \<and>
    (registered serves h' w' \<or>
     r = Inl (Failed HERDR Launch_timeout) \<and> recorded_but serves (ls_work_ref spec) h' w')"
  by (rule launch_registered [OF _ assms]) (simp add: loaded_herdr)

lemma no_fault: "\<not> p \<Longrightarrow> faults p (too_deep dc cli session args t w) = {}"
  "\<not> p \<Longrightarrow> faults p (deep_told dc cli) = {}"
  using too_deep_told [of dc cli session args t w] answers_shallow by (auto simp: faults_def)

lemma nothing_unhashable: "\<not> unhashable_told dc cli session h w"
  using status_told by (fastforce simp: unhashable_told_def unhashable_def)

lemma answers_classified:
  assumes "passable [session, rh_token h, cue]"
  shows "escaping (herdr_wake dc cli session h cue w) = {}"
    and "escaping (herdr_inspect dc cli session h w) = {}"
    and "escaping (herdr_await dc cli session h t w) = {}"
    and "escaping (herdr_terminate dc cli session h w) = {}"
    and "escaping (herdr_detect dc cli session w) = {}"
proof -
  have can: "\<not> unpassable cli session [rh_token h, cue]" "\<not> unpassable cli session [rh_token h]"
    "\<not> unpassable cli session []"
    using assms by (simp_all add: unpassable_def passable_def)
  have panes: "\<not> unpassable cli session [pane]"
    if "told_pane dc cli session (get_args token) ''agent'' w pane" for token w pane
    using panes_passable [OF that] assms by (simp add: unpassable_def passable_def)
  show "escaping (herdr_wake dc cli session h cue w) = {}"
    by (simp add: wake_escaping unpassable_args can no_fault)
  show "escaping (herdr_inspect dc cli session h w) = {}"
    by (simp add: inspect_escaping unpassable_args can no_fault nothing_unhashable)
  show "escaping (herdr_await dc cli session h t w) = {}"
    using await_escaping(1) [of dc cli session h t w] by (simp add: can no_fault nothing_unhashable)
  show "escaping (herdr_terminate dc cli session h w) = {}"
  proof -
    have "\<not> (unpassable cli session [rh_token h] \<or> (\<exists>pane.
        told_pane dc cli session (get_args (rh_token h)) ''agent'' w pane \<and> unpassable cli session [pane]))"
      using can panes by blast
    from terminate_escaping(1) [of dc cli session h w, unfolded no_fault(2) [OF this]] show ?thesis by simp
  qed
  show "escaping (herdr_detect dc cli session w) = {}"
    using detect_escaping [of dc cli session w] by (simp add: can no_fault)
qed

lemma launch_classified:
  assumes "passable (session # ls_agent_kind spec # create_args sha env spec)"
  shows "\<exists>r. herdr_launch dc cli m session sha env spec w = Some r \<and> escaping r = {}"
proof -
  have "\<not> launch_refused dc cli session sha env spec w"
    using root_panes_passable [of spec w] assms
    by (auto simp: launch_refused_def unpassable_def passable_def) (simp add: create_args_def)
  moreover obtain r v where l: "herdr_launch dc cli m session sha env spec w = Some (r, v)"
    using launch_facts [of spec w] by blast
  ultimately have "escaping (r, v) \<subseteq> {}"
    using launch_escaping [of dc cli session sha env spec w m] by (simp add: no_fault)
  with l show ?thesis by blast
qed

end

end
