(* ===== verification/Herdr_Server.thy ===== *)
theory Herdr_Server
  imports Tmux_Server Herdr_Backend
begin

text \<open>
  A herdr server that meets what \<open>herdr_host\<close> relies on, with one workspace and one pane: the agents
  that run in it, what its screen shows, and the clock.  Its texts are JSON, and what the adapter
  reads from them is computed by the decoder.
\<close>

section \<open>The server\<close>

record herdr_server =
  hv_agents :: "string list"
  hv_screen :: string
  hv_clock :: rat

definition pane_info :: json where
  "pane_info = JObj [(''agent_status'', JStr ''idle''), (''pane_id'', JStr ''p1'')]"

definition told :: "(string \<times> json) list" where
  "told = [(''agent'', pane_info), (''root_pane'', pane_info)]"

definition told_answer :: cli_outcome where
  "told_answer = Returned \<lparr>rs_code = 0, rs_out = canonical_json (JObj [(''result'', JObj told)]), rs_err = []\<rparr>"

definition not_found_answer :: cli_outcome where
  "not_found_answer = Returned \<lparr>rs_code = 1, rs_out = [],
     rs_err = canonical_json (JObj [(''error'', JObj [(''code'', JStr ''agent_not_found'')])])\<rparr>"

definition herdr_serve :: "string list \<Rightarrow> rat \<Rightarrow> herdr_server \<Rightarrow> cli_outcome \<times> herdr_server" where
  "herdr_serve args t s =
     (let command = take 2 (drop 2 args); name = args ! 4 in
      if length args < 4 then (Returned \<lparr>rs_code = 0, rs_out = ''herdr 0.8.1'', rs_err = []\<rparr>, s)
      else if command = [''agent'', ''start''] then (told_answer, s\<lparr>hv_agents := name # hv_agents s\<rparr>)
      else if command = [''pane'', ''close''] then (told_answer, s\<lparr>hv_agents := []\<rparr>)
      else if hd command \<noteq> ''agent'' then (told_answer, s)
      else if name \<notin> set (hv_agents s) then (not_found_answer, s)
      else if command = [''agent'', ''prompt''] then (told_answer, s\<lparr>hv_screen := hv_screen s @ args ! 5\<rparr>)
      else if command = [''agent'', ''read''] then
        (Returned \<lparr>rs_code = 0, rs_out = hv_screen s, rs_err = []\<rparr>, s)
      else (told_answer, s))"

definition herdr_server_cli :: "herdr_server herdr_cli" where
  "herdr_server_cli = \<lparr>hr_binary = True, hr_run = herdr_serve\<rparr>"

definition herdr_machine :: "herdr_server machine" where
  "herdr_machine = \<lparr>mc_now = hv_clock, mc_sleep = (\<lambda>d s. s\<lparr>hv_clock := hv_clock s + d\<rparr>)\<rparr>"

text \<open>The texts of its floats are kept, and the stack of the reader holds what it writes.\<close>

definition ex_decoder :: decoder where
  "ex_decoder = \<lparr>dc_fr = (\<lambda>t. t), dc_deep = (\<lambda>_. False)\<rparr>"

section \<open>It is one\<close>

lemma told_read:
  "read_response ex_decoder \<lparr>rs_code = 0,
     rs_out = canonical_json (JObj [(''result'', JObj told)]), rs_err = []\<rparr> = Inr told"
proof -
  have "loads (\<lambda>t. t) (canonical_json (JObj [(''result'', JObj told)])) = Some (JObj [(''result'', JObj told)])"
    by (subst loads_canonical) (simp_all add: told_def pane_info_def)
  then show ?thesis
    by (simp add: read_response_def read_result_def decode_def ex_decoder_def told_def pane_info_def)
qed

lemma not_found_read:
  "read_response ex_decoder \<lparr>rs_code = 1, rs_out = [],
     rs_err = canonical_json (JObj [(''error'', JObj [(''code'', JStr ''agent_not_found'')])])\<rparr>
     = Inl Agent_absent"
proof -
  have "loads (\<lambda>t. t) (canonical_json (JObj [(''error'', JObj [(''code'', JStr ''agent_not_found'')])]))
      = Some (JObj [(''error'', JObj [(''code'', JStr ''agent_not_found'')])])"
    by (subst loads_canonical) simp_all
  then show ?thesis
    by (simp add: read_response_def classify_def decode_def ex_decoder_def classify_payload_def
        error_code_def Let_def)
qed

lemma get_served:
  "run_json ex_decoder herdr_server_cli session (get_args token) t s =
     (if \<not> passable [session, token] then (Inl Value_error, s)
      else if token \<in> set (hv_agents s) then (Inr told, s) else (Inl Agent_absent, s))"
  by (simp add: run_json_def herdr_run_def herdr_server_cli_def herdr_serve_def get_args_def passable_def
      told_answer_def not_found_answer_def told_read not_found_read Let_def)

lemma created_served:
  assumes "run_json ex_decoder herdr_server_cli session (create_args sha env spec) t s = (Inr result, s')"
  shows "result = told"
  using assms
  by (auto simp: run_json_def herdr_run_def herdr_server_cli_def herdr_serve_def create_args_def
      told_answer_def told_read Let_def split: if_splits)

lemma told_panes: "pane_id (map_of told key) c = Inr pane \<Longrightarrow> passable [pane]"
  by (auto simp: told_def pane_info_def pane_id_def passable_def split: if_splits)

lemma start_served:
  "hr_run herdr_server_cli ([''--session'', session] @ start_args token k pane) t s =
     (told_answer, s\<lparr>hv_agents := token # hv_agents s\<rparr>)"
  by (simp add: herdr_server_cli_def herdr_serve_def start_args_def Let_def)

lemma never_deep: "\<not> deep_told ex_decoder cli"
  by (simp add: deep_told_def ex_decoder_def)

lemma serve_fewer:
  "herdr_serve args t s = (r, s') \<Longrightarrow> take 2 (drop 2 args) \<noteq> [''agent'', ''start''] \<Longrightarrow>
     set (hv_agents s') \<subseteq> set (hv_agents s)"
  by (auto simp: herdr_serve_def Let_def split: if_splits)

lemma serve_clock: "herdr_serve args t s = (r, s') \<Longrightarrow> hv_clock s' = hv_clock s"
  by (auto simp: herdr_serve_def Let_def split: if_splits)

interpretation herdr: herdr_host ex_decoder herdr_server_cli herdr_machine "''kawa''" short_digest
    "[(''HOME'', ''/home/k'')]" "\<lambda>s. set (hv_agents s)" "tokens_of short_digest node_works"
    "set node_works"
proof
  fix args t w r w' token k pane result e agent work d x and spec :: launch_spec
  let ?start = "[''--session'', ''kawa''] @ start_args token k pane"
  show "set (hv_agents w') \<subseteq> set (hv_agents w)"
    if "hr_run herdr_server_cli args t w = (r, w')" "take 2 (drop 2 args) \<noteq> [''agent'', ''start'']"
    using serve_fewer that by (simp add: herdr_server_cli_def)
  show "set (hv_agents w') \<subseteq> insert token (set (hv_agents w))"
    if "hr_run herdr_server_cli ?start t w = (r, w')"
    using that unfolding start_served by auto
  show "set (hv_agents w') \<subseteq> set (hv_agents w)"
    if "hr_run herdr_server_cli ?start t w = (Returned x, w')" "rs_code x \<noteq> 0"
    using that unfolding start_served by (auto simp: told_answer_def)
  show "set (hv_agents w') \<subseteq> set (hv_agents w)"
    if "hr_run herdr_server_cli ?start t w = (Os_error, w')"
    using that unfolding start_served by (simp add: told_answer_def)
  show "\<exists>result. read_response ex_decoder x = Inr result"
    if "hr_run herdr_server_cli ?start t w = (Returned x, w')"
    using that unfolding start_served by (auto simp: told_answer_def told_read)
  show "token \<notin> set (hv_agents w')"
    if "run_json ex_decoder herdr_server_cli ''kawa'' (get_args token) t w = (Inl Agent_absent, w')"
    using that by (auto simp: get_served split: if_splits)
  show "\<exists>s. map_of agent ''agent_status'' = Some (JStr s)"
    if "run_json ex_decoder herdr_server_cli ''kawa'' (get_args token) t w = (Inr result, w')"
      "map_of result ''agent'' = Some (JObj agent)"
    using that by (auto simp: get_served told_def pane_info_def split: if_splits)
  show "\<not> deep_told ex_decoder herdr_server_cli" by (rule never_deep)
  show "passable [pane]"
    if "told_pane ex_decoder herdr_server_cli ''kawa'' (get_args token) ''agent'' w pane"
    using that told_panes by (auto simp: told_pane_def get_served split: if_splits)
  show "passable [pane]"
    if "told_pane ex_decoder herdr_server_cli ''kawa''
      (create_args short_digest [(''HOME'', ''/home/k'')] spec) ''root_pane'' w pane"
    using that told_panes created_served unfolding told_pane_def by blast
  show "tokens_of short_digest node_works (token_for short_digest work) = Some work"
    if "work \<in> set node_works"
    using server.tokens_name_work that .
  show "mc_now herdr_machine w \<le> mc_now herdr_machine w'" if "hr_run herdr_server_cli args t w = (r, w')"
    using serve_clock that by (simp add: herdr_server_cli_def herdr_machine_def)
  show "set (hv_agents (mc_sleep herdr_machine d w)) \<subseteq> set (hv_agents w)"
    "mc_now herdr_machine w + d \<le> mc_now herdr_machine (mc_sleep herdr_machine d w)"
    by (simp_all add: herdr_machine_def)
qed

section \<open>A run\<close>

definition ex_herdr :: "herdr_server backend" where
  "ex_herdr = herdr_backend ex_decoder herdr_server_cli herdr_machine ''kawa'' short_digest
     [(''HOME'', ''/home/k'')]"

definition ex_quiet :: herdr_server where
  "ex_quiet = \<lparr>hv_agents = [], hv_screen = [], hv_clock = 0\<rparr>"

lemma ex_herdr_unregistered_none:
  "registered (serving HERDR (\<lambda>s. set (hv_agents s)) (tokens_of short_digest node_works)) Unreadable ex_quiet"
  by (simp add: registered_def serving_def ex_quiet_def)

section \<open>A server whose pane has no name a process can be given\<close>

text \<open>It tells of an agent in a pane whose name has a zero byte, which JSON writes as an escape.\<close>

definition zero_pane :: string where
  "zero_pane = ''p'' @ [CHR 0x00]"

definition zero_cli :: "unit herdr_cli" where
  "zero_cli = \<lparr>hr_binary = True, hr_run = (\<lambda>args t w. (Returned \<lparr>rs_code = 0, rs_out = canonical_json
     (JObj [(''result'', JObj [(''agent'', JObj [(''pane_id'', JStr zero_pane)])])]), rs_err = []\<rparr>, w))\<rparr>"

lemma zero_told:
  "run_json ex_decoder zero_cli ''kawa'' (get_args ''kawa-1'') TIMEOUT_S w =
     (Inr [(''agent'', JObj [(''pane_id'', JStr zero_pane)])], w)"
proof -
  let ?v = "JObj [(''result'', JObj [(''agent'', JObj [(''pane_id'', JStr zero_pane)])])]"
  have "loads (\<lambda>t. t) (canonical_json ?v) = Some ?v"
    by (subst loads_canonical) (simp_all add: zero_pane_def)
  then show ?thesis
    by (simp add: run_json_def herdr_run_def zero_cli_def get_args_def passable_def read_response_def
        read_result_def decode_def ex_decoder_def)
qed

lemma zero_pane_escapes:
  "escaping (herdr_terminate ex_decoder zero_cli ''kawa'' \<lparr>rh_backend = HERDR, rh_token = ''kawa-1''\<rparr> w) =
     {Value_error}"
proof -
  have "told_pane ex_decoder zero_cli ''kawa'' (get_args ''kawa-1'') ''agent'' w zero_pane"
    by (simp add: told_pane_def zero_told pane_id_def zero_pane_def)
  moreover have "unpassable zero_cli ''kawa'' [zero_pane]"
    by (simp add: unpassable_def passable_def zero_cli_def zero_pane_def)
  ultimately have "Value_error \<in> escaping (herdr_terminate ex_decoder zero_cli ''kawa''
      \<lparr>rh_backend = HERDR, rh_token = ''kawa-1''\<rparr> w)"
    unfolding terminate_escaping(2) by auto
  then show ?thesis by (auto simp: escaping_def)
qed

end
