(* ===== verification/Retrieval_Plan.thy ===== *)
theory Retrieval_Plan
  imports Ids
begin

text \<open>
  The planner of \<^verbatim>\<open>kawa/retrieval.py\<close>: the intent of a caller, the compilation of a bound intent into
  query classes with budgets (\<open>compile_plan\<close>), and the choice of the pairs of scopes that a viewer
  may walk (\<open>scope_pairs\<close>).  A dictionary of budgets is the list of its entries in insertion order;
  a frozen set of scopes is a list of its elements.

  Shown: the ceiling of the intent holds for every intent and the planner never raises, every
  planned class has its floor, no class is planned while one of a higher tier is not, what is not
  planned is reported; the pairs are the square of the scopes consulted, and the number of pairs
  dropped is that of the pairs of the viewer not among them.
\<close>

section \<open>Intents and plans\<close>

record intent =
  in_about :: "string option"
  in_text_terms :: "string option"
  in_relation_depth :: int
  in_limit :: int
  in_fallback_policy :: "int option"

datatype anchor_kind = Claim_anchor | Event_anchor | Plan_anchor | Work_anchor

record bound_intent =
  bi_intent :: intent
  bi_anchor_kind :: "anchor_kind option"
  bi_anchor_ref :: "string option"
  bi_unbound_text :: "string option"

datatype purpose =
    Q_anchor_lookup | Q_standing | Q_evidence | Q_neighborhood | Q_lexical | Q_vector
  | Q_repository_normative | Q_precedent

fun purpose_text :: "purpose \<Rightarrow> string" where
  "purpose_text Q_anchor_lookup = ''anchor_lookup''"
| "purpose_text Q_standing = ''standing''"
| "purpose_text Q_evidence = ''evidence''"
| "purpose_text Q_neighborhood = ''neighborhood''"
| "purpose_text Q_lexical = ''lexical''"
| "purpose_text Q_vector = ''vector''"
| "purpose_text Q_repository_normative = ''repository_normative''"
| "purpose_text Q_precedent = ''precedent''"

datatype backend_kind = Typed_sql | Traversal | Fts | Vector_index | Repository

datatype fts_reason = Textual | Structured_underflow

record query_class =
  qc_class_id :: string
  qc_purpose :: purpose
  qc_backend :: backend_kind
  qc_budget :: int
  qc_fts_reason :: "fts_reason option"

datatype skip_reason =
    Tier_budget_exhausted | Budget_exhausted | Structured_underflow_met | No_model

record skipped_class =
  sk_class_id :: string
  sk_purpose :: purpose
  sk_reason :: skip_reason
  sk_detail :: string

record retrieval_plan =
  pn_bound :: bound_intent
  pn_query_classes :: "query_class list"
  pn_result_limit :: int
  pn_skipped :: "skipped_class list"

section \<open>The tables of the planner\<close>

fun dispatch :: "anchor_kind \<Rightarrow> purpose list" where
  "dispatch Claim_anchor = [Q_anchor_lookup, Q_standing, Q_evidence, Q_neighborhood]"
| "dispatch Event_anchor = [Q_anchor_lookup, Q_neighborhood]"
| "dispatch Plan_anchor = [Q_anchor_lookup, Q_neighborhood]"
| "dispatch Work_anchor = [Q_anchor_lookup, Q_neighborhood]"

fun backend_of :: "purpose \<Rightarrow> backend_kind" where
  "backend_of Q_neighborhood = Traversal"
| "backend_of Q_lexical = Fts"
| "backend_of Q_vector = Vector_index"
| "backend_of Q_repository_normative = Repository"
| "backend_of _ = Typed_sql"

fun tier :: "purpose \<Rightarrow> nat" where
  "tier Q_anchor_lookup = 1"
| "tier Q_standing = 1"
| "tier Q_repository_normative = 1"
| "tier Q_evidence = 2"
| "tier _ = 3"

definition WITHIN_TIER :: "purpose list" where
  "WITHIN_TIER = [Q_anchor_lookup, Q_standing, Q_repository_normative, Q_evidence, Q_neighborhood,
     Q_precedent, Q_lexical, Q_vector]"

fun index_of :: "'a list \<Rightarrow> 'a \<Rightarrow> nat" where
  "index_of [] x = 0"
| "index_of (y # ys) x = (if y = x then 0 else Suc (index_of ys x))"

definition floor_of :: "purpose \<Rightarrow> int" where
  "floor_of p = (if p = Q_evidence then 2 else 1)"

fun sideband :: "anchor_kind \<Rightarrow> int \<times> int" where
  "sideband Claim_anchor = (6, 3)"
| "sideband _ = (4, 2)"

section \<open>Compiling\<close>

type_synonym planned = "purpose \<times> fts_reason option"

type_synonym budgets = "(purpose \<times> int) list"

definition purposes_of :: "bound_intent \<Rightarrow> planned list" where
  "purposes_of b =
     (let structural = (case bi_anchor_kind b of Some k \<Rightarrow> map (\<lambda>p. (p, None)) (dispatch k) | None \<Rightarrow> []);
          textual = (case bi_unbound_text b of
              Some (c # t) \<Rightarrow>
                [(Q_lexical, Some (if in_fallback_policy (bi_intent b) = None then Textual
                                   else Structured_underflow))]
            | _ \<Rightarrow> []);
          first = structural @ textual;
          reach = (if first = [] then [] else [(Q_vector, None)]);
          orientation = (if bi_anchor_kind b = None then []
                         else [(Q_repository_normative, None), (Q_precedent, None)])
      in first @ reach @ orientation)"

definition wants :: "bound_intent \<Rightarrow> purpose \<Rightarrow> int option" where
  "wants b p =
     (let rows = (case bi_anchor_kind b of Some k \<Rightarrow> sideband k | None \<Rightarrow> (0, 0)) in
      if p = Q_repository_normative then Some (fst rows)
      else if p = Q_precedent then Some (snd rows) else None)"

definition tier_ordered :: "planned list \<Rightarrow> planned list" where
  "tier_ordered ps = sort_key (\<lambda>(p, _). (tier p, index_of WITHIN_TIER p)) ps"

text \<open>The waterfall within one tier: the floors that fit, and what is left.\<close>

fun floor_tier :: "planned list \<Rightarrow> int \<Rightarrow> budgets \<times> int" where
  "floor_tier [] left = ([], left)"
| "floor_tier ((p, r) # ps) left =
     (if left < floor_of p then ([], left)
      else (case floor_tier ps (left - floor_of p) of (b, rest) \<Rightarrow> ((p, floor_of p) # b, rest)))"

text \<open>A tier that cannot be floored ends the admission.\<close>

fun admit_tiers :: "nat list \<Rightarrow> planned list \<Rightarrow> int \<Rightarrow> budgets \<times> int" where
  "admit_tiers [] ordered remaining = ([], remaining)"
| "admit_tiers (t # ts) ordered remaining =
     (let in_tier = filter (\<lambda>(p, _). tier p = t) ordered in
      case floor_tier in_tier remaining of
        (b, left) \<Rightarrow>
          if length b < length in_tier then (b, left)
          else (case admit_tiers ts ordered left of (b', left') \<Rightarrow> (b @ b', left')))"

text \<open>The sideband classes are capped at what they want.\<close>

fun top_up :: "(purpose \<Rightarrow> int option) \<Rightarrow> budgets \<Rightarrow> int \<Rightarrow> budgets \<times> int" where
  "top_up want [] remaining = ([], remaining)"
| "top_up want ((p, n) # b) remaining =
     (let extra = (case want p of
            Some k \<Rightarrow> if 0 < remaining then max 0 (min (k - n) remaining) else 0
          | None \<Rightarrow> 0)
      in case top_up want b (remaining - extra) of (b', left) \<Rightarrow> ((p, n + extra) # b', left))"

definition add_budget :: "purpose \<Rightarrow> int \<Rightarrow> budgets \<Rightarrow> budgets" where
  "add_budget p n b = map (\<lambda>(q, m). if q = p then (q, m + n) else (q, m)) b"

text \<open>The others share what is left evenly, the earlier ones first.\<close>

fun share_out :: "int \<Rightarrow> int \<Rightarrow> purpose list \<Rightarrow> budgets \<Rightarrow> budgets" where
  "share_out base rem [] b = b"
| "share_out base rem (p # ps) b =
     share_out base (rem - 1) ps (add_budget p (base + (if 0 < rem then 1 else 0)) b)"

definition apportion :: "(purpose \<Rightarrow> int option) \<Rightarrow> planned list \<Rightarrow> int \<Rightarrow> budgets" where
  "apportion want ordered lim =
     (case admit_tiers (sort (remdups (map (tier \<circ> fst) ordered))) ordered lim of
        (b, remaining) \<Rightarrow>
          (case top_up want b remaining of
             (b', left) \<Rightarrow>
               (let shares = map fst (filter (\<lambda>(p, _). p \<in> fst ` set b' \<and> want p = None) ordered)
                in if shares \<noteq> [] \<and> 0 < left
                   then share_out (left div int (length shares)) (left mod int (length shares)) shares b'
                   else b')))"

definition class_id :: "planned list \<Rightarrow> purpose \<Rightarrow> string" where
  "class_id ordered p = ''q'' @ nat_str (index_of (map fst ordered) p) @ ''-'' @ purpose_text p"

definition compile_plan :: "bound_intent \<Rightarrow> retrieval_plan result" where
  "compile_plan b =
     (let purposes = purposes_of b in
      if purposes = [] then
        Inr \<lparr>pn_bound = b, pn_query_classes = [], pn_result_limit = in_limit (bi_intent b), pn_skipped = []\<rparr>
      else
        (let lim = max 0 (in_limit (bi_intent b));
             ordered = tier_ordered purposes;
             budgets = apportion (wants b) ordered lim;
             skipped = map (\<lambda>(p, _). \<lparr>sk_class_id = class_id ordered p, sk_purpose = p,
                   sk_reason = Tier_budget_exhausted,
                   sk_detail = ''limit '' @ int_str lim @ '' was exhausted before tier '' @ nat_str (tier p)\<rparr>)
                 (filter (\<lambda>(p, _). map_of budgets p = None) ordered);
             classes = List.map_filter (\<lambda>(p, r). map_option (\<lambda>n.
                   \<lparr>qc_class_id = class_id ordered p, qc_purpose = p, qc_backend = backend_of p,
                    qc_budget = n, qc_fts_reason = r\<rparr>) (map_of budgets p)) ordered
         in if lim < sum_list (map qc_budget classes)
            then Inl (RuntimeError ''apportionment exceeded the ceiling'')
            else Inr \<lparr>pn_bound = b, pn_query_classes = classes, pn_result_limit = lim,
                      pn_skipped = skipped\<rparr>))"

section \<open>The pairs of scopes\<close>

definition MAX_VIEWER_SCOPES :: nat where "MAX_VIEWER_SCOPES = 8"

definition LEAF_BUDGET :: nat where "LEAF_BUDGET = 128"

definition CANDIDATE_PER_NODE :: nat where "CANDIDATE_PER_NODE = 20"

definition pairs_of :: "string list \<Rightarrow> (string \<times> string) list" where
  "pairs_of scopes =
     map (\<lambda>s. (s, s)) scopes @
     concat (map (\<lambda>a. map (Pair a) (filter (\<lambda>b. a \<noteq> b) scopes)) scopes)"

definition every_scope :: "string list \<Rightarrow> string list" where
  "every_scope viewer_scopes = sort (remdups (PUBLIC_SCOPE # viewer_scopes))"

definition scope_pairs :: "string list \<Rightarrow> (string \<times> string) list \<times> nat" where
  "scope_pairs viewer_scopes =
     (let every = every_scope viewer_scopes;
          kept = take (LEAF_BUDGET div 2) (pairs_of (take MAX_VIEWER_SCOPES every))
      in (kept, length (pairs_of every) - length kept))"

section \<open>The ceiling\<close>

abbreviation total :: "budgets \<Rightarrow> int" where "total b \<equiv> sum_list (map snd b)"

lemma floor_positive: "0 < floor_of p"
  by (simp add: floor_of_def)

lemma floor_tier_facts:
  assumes "floor_tier ps left = (b, rest)" "0 \<le> left"
  shows "0 \<le> rest \<and> total b + rest = left \<and>
    b = map (\<lambda>x. (fst x, floor_of (fst x))) (take (length b) ps)"
  using assms
proof (induction ps left arbitrary: b rest rule: floor_tier.induct)
  case (2 p r ps left)
  show ?case
  proof (cases "left < floor_of p")
    case False
    obtain b' rest' where rec: "floor_tier ps (left - floor_of p) = (b', rest')" by fastforce
    with False 2 have "0 \<le> rest' \<and> total b' + rest' = left - floor_of p \<and>
        b' = map (\<lambda>x. (fst x, floor_of (fst x))) (take (length b') ps)" by simp
    with False 2(2) rec show ?thesis by auto
  qed (use 2 in simp)
qed simp

lemma floor_tier_keys:
  assumes "floor_tier ps left = (b, rest)" "0 \<le> left"
  shows "map fst b = take (length b) (map fst ps)" and "(p, n) \<in> set b \<Longrightarrow> n = floor_of p"
    and "length b \<le> length ps"
proof -
  from floor_tier_facts [OF assms]
  have eq: "b = map (\<lambda>x. (fst x, floor_of (fst x))) (take (length b) ps)" by blast
  have "map fst (map (\<lambda>x. (fst x, floor_of (fst x))) (take (length b) ps)) = take (length b) (map fst ps)"
    by (simp add: take_map comp_def)
  with eq show "map fst b = take (length b) (map fst ps)" by simp
  have "(p, n) \<in> set (map (\<lambda>x. (fst x, floor_of (fst x))) (take (length b) ps)) \<Longrightarrow> n = floor_of p" by auto
  with eq show "(p, n) \<in> set b \<Longrightarrow> n = floor_of p" by metis
  from eq have "length b = length (map (\<lambda>x. (fst x, floor_of (fst x))) (take (length b) ps))" by metis
  then show "length b \<le> length ps" by simp
qed

text \<open>What the admission of the tiers \<open>ts\<close> leaves: floors only, and no tier after an incomplete one.\<close>

definition tier_closed :: "planned list \<Rightarrow> purpose set \<Rightarrow> bool" where
  "tier_closed ordered planned \<longleftrightarrow>
     (\<forall>p \<in> planned. \<forall>q \<in> fst ` set ordered. tier q < tier p \<longrightarrow> q \<in> planned)"

lemma admit_tiers_facts:
  assumes "admit_tiers ts ordered remaining = (b, left)" "0 \<le> remaining"
    and "sorted_wrt (<) ts" "distinct (map fst ordered)"
  shows "0 \<le> left \<and> total b + left = remaining \<and> (\<forall>(p, n) \<in> set b. n = floor_of p) \<and>
    distinct (map fst b) \<and> fst ` set b \<subseteq> {p \<in> fst ` set ordered. tier p \<in> set ts} \<and>
    (\<forall>p \<in> fst ` set b. \<forall>q \<in> fst ` set ordered. tier q \<in> set ts \<longrightarrow> tier q < tier p \<longrightarrow> q \<in> fst ` set b)"
  using assms
proof (induction ts ordered remaining arbitrary: b left rule: admit_tiers.induct)
  case (2 t ts ordered remaining)
  let ?in = "filter (\<lambda>(p, _). tier p = t) ordered"
  obtain b1 left1 where f: "floor_tier ?in remaining = (b1, left1)" by fastforce
  note facts = floor_tier_facts [OF f \<open>0 \<le> remaining\<close>] floor_tier_keys [OF f \<open>0 \<le> remaining\<close>]
  have in_keys: "fst ` set ?in = {p \<in> fst ` set ordered. tier p = t}" by force
  have keys1: "fst ` set b1 \<subseteq> fst ` set ?in"
    using facts(2) set_take_subset [of "length b1" "map fst ?in"] by (metis list.set_map)
  have dist_in: "distinct (map fst ?in)" using "2.prems"(4)
    by (metis (no_types, lifting) distinct_map distinct_filter filter_is_subset inj_on_subset)
  have dist1: "distinct (map fst b1)" using facts(2) dist_in by (metis distinct_take)
  show ?case
  proof (cases "length b1 < length ?in")
    case True
    with "2.prems"(1) f have r: "b = b1" "left = left1" by (auto simp: Let_def)
    have here: "fst ` set b \<subseteq> {p \<in> fst ` set ordered. tier p = t}" using keys1 in_keys r by simp
    have least: "t \<le> tier q" if "tier q \<in> set (t # ts)" for q using "2.prems"(3) that by auto
    have "\<forall>p \<in> fst ` set b. \<forall>q \<in> fst ` set ordered.
        tier q \<in> set (t # ts) \<longrightarrow> tier q < tier p \<longrightarrow> q \<in> fst ` set b"
      using here least by (blast dest: leD)
    moreover have "fst ` set b \<subseteq> {p \<in> fst ` set ordered. tier p \<in> set (t # ts)}" using here by auto
    moreover have "\<forall>(p, n) \<in> set b. n = floor_of p" using r facts(3) by auto
    ultimately show ?thesis using r facts(1) dist1 by simp
  next
    case False
    then have whole: "map fst b1 = map fst ?in" using facts(2,4) by simp
    obtain b2 left2 where rec: "admit_tiers ts ordered left1 = (b2, left2)" by fastforce
    with "2.prems"(1) f False have r: "b = b1 @ b2" "left = left2" by (auto simp: Let_def)
    have "0 \<le> left1" using facts(1) by blast
    moreover have "sorted_wrt (<) ts" using "2.prems"(3) by simp
    ultimately have "0 \<le> left2 \<and> total b2 + left2 = left1 \<and> (\<forall>(p, n) \<in> set b2. n = floor_of p) \<and>
      distinct (map fst b2) \<and> fst ` set b2 \<subseteq> {p \<in> fst ` set ordered. tier p \<in> set ts} \<and>
      (\<forall>p \<in> fst ` set b2. \<forall>q \<in> fst ` set ordered. tier q \<in> set ts \<longrightarrow> tier q < tier p \<longrightarrow> q \<in> fst ` set b2)"
      by (rule "2.IH" [OF refl f [symmetric] False rec _ _ "2.prems"(4)])
    then have IH: "0 \<le> left2" "total b2 + left2 = left1" "\<forall>(p, n) \<in> set b2. n = floor_of p"
      "distinct (map fst b2)" "fst ` set b2 \<subseteq> {p \<in> fst ` set ordered. tier p \<in> set ts}"
      "\<forall>p \<in> fst ` set b2. \<forall>q \<in> fst ` set ordered. tier q \<in> set ts \<longrightarrow> tier q < tier p \<longrightarrow> q \<in> fst ` set b2"
      by blast+
    have k1: "fst ` set b1 = {p \<in> fst ` set ordered. tier p = t}"
      using whole in_keys by (metis list.set_map)
    have later: "t < u" if "u \<in> set ts" for u using "2.prems"(3) that by simp
    have disj: "fst ` set b1 \<inter> fst ` set b2 = {}"
    proof (intro equals0I, elim IntE)
      fix p assume "p \<in> fst ` set b1" "p \<in> fst ` set b2"
      then have "tier p = t" "tier p \<in> set ts" using k1 IH(5) by auto
      with later show False by blast
    qed
    have "\<forall>p \<in> fst ` set b. \<forall>q \<in> fst ` set ordered.
        tier q \<in> set (t # ts) \<longrightarrow> tier q < tier p \<longrightarrow> q \<in> fst ` set b"
    proof (intro ballI impI)
      fix p q assume p: "p \<in> fst ` set b" and q: "q \<in> fst ` set ordered" "tier q \<in> set (t # ts)" "tier q < tier p"
      show "q \<in> fst ` set b"
      proof (cases "tier q = t")
        case True
        with q(1) k1 have "q \<in> fst ` set b1" by simp
        then show ?thesis by (simp add: r image_Un)
      next
        case False
        with q(2) have "tier q \<in> set ts" by simp
        moreover from this later q(3) have "t < tier p" by (meson less_trans)
        with p k1 have "p \<in> fst ` set b2" by (auto simp: r image_Un)
        ultimately have "q \<in> fst ` set b2" using IH(6) q(1,3) by blast
        then show ?thesis by (simp add: r image_Un)
      qed
    qed
    moreover have "fst ` set b \<subseteq> {p \<in> fst ` set ordered. tier p \<in> set (t # ts)}"
      unfolding r set_append image_Un k1 using IH(5) by auto
    moreover have "distinct (map fst b)" using r dist1 IH(4) disj by simp
    moreover have "\<forall>(p, n) \<in> set b. n = floor_of p" using r facts(3) IH(3) by auto
    ultimately show ?thesis using r facts(1) IH(1,2) by simp
  qed
qed simp

lemma top_up_facts:
  assumes "top_up want b remaining = (b', left)" "0 \<le> remaining"
  shows "0 \<le> left \<and> total b' + left = total b + remaining \<and> map fst b' = map fst b \<and>
    list_all2 (\<lambda>(p, n) (q, m). n \<le> m \<and> (\<forall>k. want p = Some k \<longrightarrow> m \<le> max n k)) b b'"
  using assms
proof (induction want b remaining arbitrary: b' left rule: top_up.induct)
  case (2 want p n b remaining)
  define extra where "extra = (case want p of
      Some k \<Rightarrow> if 0 < remaining then max 0 (min (k - n) remaining) else 0 | None \<Rightarrow> 0)"
  obtain b1 left1 where rec: "top_up want b (remaining - extra) = (b1, left1)" by fastforce
  have e: "0 \<le> extra" "extra \<le> remaining" "\<And>k. want p = Some k \<Longrightarrow> n + extra \<le> max n k"
    using "2.prems"(2) by (auto simp: extra_def split: option.split)
  have r: "b' = (p, n + extra) # b1" "left = left1"
    using "2.prems"(1) rec by (auto simp: Let_def extra_def)
  from "2.IH" [OF extra_def rec] e r show ?case by auto
qed simp

lemma add_budget_facts:
  assumes "distinct (map fst b)" "p \<in> fst ` set b"
  shows "total (add_budget p n b) = total b + n"
  using assms
proof (induction b)
  case (Cons x b)
  obtain q m where x: "x = (q, m)" by fastforce
  show ?case
  proof (cases "q = p")
    case True
    have "add_budget p n b = b"
      using Cons.prems(1) x True unfolding add_budget_def by (intro map_idI) force
    with True x show ?thesis by (simp add: add_budget_def)
  qed (use Cons x in \<open>auto simp: add_budget_def\<close>)
qed simp

lemma add_budget_keys [simp]: "map fst (add_budget p n b) = map fst b"
  by (simp add: add_budget_def comp_def split_def if_distrib [of fst])

lemma add_budget_at: "distinct (map fst b) \<Longrightarrow> map_of (add_budget p n b) q =
    (if q = p then map_option (\<lambda>m. m + n) (map_of b q) else map_of b q)"
  by (induction b) (auto simp: add_budget_def)

lemma share_out_facts:
  assumes "distinct ps" "distinct (map fst b)" "set ps \<subseteq> fst ` set b" "0 \<le> base"
  shows "map fst (share_out base rem ps b) = map fst b \<and>
    total (share_out base rem ps b) = total b + base * int (length ps) + max 0 (min rem (int (length ps))) \<and>
    (\<forall>p n. map_of b p = Some n \<longrightarrow>
       (\<exists>m. map_of (share_out base rem ps b) p = Some m \<and> n \<le> m \<and> (p \<notin> set ps \<longrightarrow> m = n)))"
  using assms
proof (induction base rem ps b rule: share_out.induct)
  case (2 base rem p ps b)
  let ?x = "base + (if 0 < rem then 1 else 0)"
  have keys: "fst ` set (add_budget p ?x b) = fst ` set b" using add_budget_keys by (metis list.set_map)
  have step: "share_out base rem (p # ps) b = share_out base (rem - 1) ps (add_budget p ?x b)"
    by (rule share_out.simps)
  have "distinct ps" "distinct (map fst (add_budget p ?x b))" "set ps \<subseteq> fst ` set (add_budget p ?x b)"
    using "2.prems" keys by auto
  note IH = "2.IH" [OF this \<open>0 \<le> base\<close>, folded step, unfolded add_budget_keys]
  note keys' = conjunct1 [OF IH] and sum' = conjunct1 [OF conjunct2 [OF IH]]
    and rows' = conjunct2 [OF conjunct2 [OF IH]]
  have one: "total (add_budget p ?x b) = total b + ?x" using add_budget_facts "2.prems" by simp
  have shift: "(if 0 < rem then 1 else 0) + max 0 (min (rem - 1) k) = max 0 (min rem (1 + k))"
    if "0 \<le> k" for k :: int using that by (simp add: min_def max_def)
  have "total (share_out base rem (p # ps) b) =
      total b + base * int (length (p # ps)) + max 0 (min rem (int (length (p # ps))))"
    using sum' one shift [of "int (length ps)"] by (simp add: distrib_left)
  moreover have "\<exists>m. map_of (share_out base rem (p # ps) b) q = Some m \<and> n \<le> m \<and>
      (q \<notin> set (p # ps) \<longrightarrow> m = n)" if q: "map_of b q = Some n" for q n
  proof -
    define n' where "n' = (if q = p then n + ?x else n)"
    have "map_of (add_budget p ?x b) q = Some n'"
      using q by (cases "q = p") (simp_all add: add_budget_at [OF "2.prems"(2)] n'_def)
    then obtain m where "map_of (share_out base rem (p # ps) b) q = Some m" "n' \<le> m"
      "q \<notin> set ps \<longrightarrow> m = n'" using rows' by blast
    moreover have "n \<le> n'" "q \<noteq> p \<Longrightarrow> n' = n" using "2.prems"(4) by (simp_all add: n'_def)
    ultimately show ?thesis by auto
  qed
  ultimately show ?case using keys' by blast
qed simp

text \<open>The budgets of the planned classes, for any list of distinct purposes and any ceiling.\<close>

lemma apportion_facts:
  fixes want :: "purpose \<Rightarrow> int option"
  assumes "distinct (map fst ordered)" "0 \<le> lim"
  defines "b \<equiv> apportion want ordered lim"
  shows "distinct (map fst b)" and "total b \<le> lim" and "fst ` set b \<subseteq> fst ` set ordered"
    and "tier_closed ordered (fst ` set b)"
    and "\<forall>(p, n) \<in> set b. floor_of p \<le> n \<and> (\<forall>k. want p = Some k \<longrightarrow> n \<le> max (floor_of p) k)"
    and "total b = lim \<or> (\<forall>p \<in> fst ` set b. want p \<noteq> None)"
proof -
  let ?ts = "sort (remdups (map (tier \<circ> fst) ordered))"
  obtain b1 left1 where a: "admit_tiers ?ts ordered lim = (b1, left1)" by fastforce
  obtain b2 left2 where t: "top_up want b1 left1 = (b2, left2)" by fastforce
  have ts: "sorted_wrt (<) ?ts" by (simp add: strict_sorted_iff)
  have all_tiers: "tier q \<in> set ?ts" if "q \<in> fst ` set ordered" for q using that by force
  note A = admit_tiers_facts [OF a assms(2) ts assms(1)]
  then have A1: "0 \<le> left1" "total b1 + left1 = lim" "\<forall>(p, n) \<in> set b1. n = floor_of p"
    "distinct (map fst b1)" "fst ` set b1 \<subseteq> fst ` set ordered" by blast+
  have A2: "tier_closed ordered (fst ` set b1)" using A all_tiers unfolding tier_closed_def by blast
  note T = top_up_facts [OF t A1(1)]
  have keys2: "map fst b2 = map fst b1" using T by blast
  then have set2: "fst ` set b2 = fst ` set b1" by (metis list.set_map)
  have caps: "floor_of p \<le> n \<and> (\<forall>k. want p = Some k \<longrightarrow> n \<le> max (floor_of p) k)"
    if "(p, n) \<in> set b2" for p n
  proof -
    from that obtain i where i: "i < length b2" "b2 ! i = (p, n)" by (metis in_set_conv_nth)
    have "length b1 = length b2" using keys2 by (metis length_map)
    moreover from this i have "fst (b1 ! i) = p" using keys2 by (metis fst_conv nth_map)
    moreover have "list_all2 (\<lambda>(p, n) (q, m). n \<le> m \<and> (\<forall>k. want p = Some k \<longrightarrow> m \<le> max n k)) b1 b2"
      using T by blast
    ultimately obtain m where "b1 ! i = (p, m)" "m \<le> n" "\<forall>k. want p = Some k \<longrightarrow> n \<le> max m k"
      using i list_all2_nthD [of _ b1 b2 i] by (cases "b1 ! i") fastforce
    moreover have "m = floor_of p"
      using A1(3) calculation(1) i \<open>length b1 = length b2\<close> by (metis (mono_tags, lifting) case_prodD nth_mem)
    ultimately show ?thesis by blast
  qed
  define shares where "shares = map fst (filter (\<lambda>(p, _). p \<in> fst ` set b2 \<and> want p = None) ordered)"
  have b: "b = (if shares \<noteq> [] \<and> 0 < left2
      then share_out (left2 div int (length shares)) (left2 mod int (length shares)) shares b2 else b2)"
    unfolding b_def apportion_def by (simp add: a t Let_def shares_def)
  have shares_set: "set shares = {p \<in> fst ` set b2. want p = None}"
  proof (intro set_eqI iffI)
    fix p assume "p \<in> {p \<in> fst ` set b2. want p = None}"
    then have p: "p \<in> fst ` set b2" "want p = None" by auto
    then obtain r where "(p, r) \<in> set ordered" using set2 A1(5) by auto
    with p show "p \<in> set shares" unfolding shares_def by force
  qed (force simp: shares_def)
  have "distinct (map fst b) \<and> total b \<le> lim \<and> fst ` set b = fst ` set b1 \<and>
    (\<forall>(p, n) \<in> set b. floor_of p \<le> n \<and> (\<forall>k. want p = Some k \<longrightarrow> n \<le> max (floor_of p) k)) \<and>
    (total b = lim \<or> (\<forall>p \<in> fst ` set b. want p \<noteq> None))"
  proof (cases "shares \<noteq> [] \<and> 0 < left2")
    case False
    then have "b = b2" using b by auto
    moreover have "total b2 + left2 = lim" "0 \<le> left2" using T A1(2) by auto
    moreover have "left2 = 0 \<or> (\<forall>p \<in> fst ` set b2. want p \<noteq> None)"
      using False shares_set calculation(3) by (metis (mono_tags, lifting) empty_iff empty_set le_less mem_Collect_eq)
    ultimately show ?thesis using keys2 A1(4) set2 caps by auto
  next
    case True
    let ?l = "int (length shares)"
    have bs: "b = share_out (left2 div ?l) (left2 mod ?l) shares b2" using b True by auto
    have l: "0 < ?l" using True by (cases shares) auto
    have dist: "distinct shares" unfolding shares_def
      using assms(1) by (metis (no_types, lifting) distinct_map distinct_filter filter_is_subset inj_on_subset)
    have d2: "distinct (map fst b2)" using keys2 A1(4) by simp
    have "set shares \<subseteq> fst ` set b2" "0 \<le> left2 div ?l"
      using shares_set True l by (auto simp: pos_imp_zdiv_nonneg_iff)
    note S = share_out_facts [OF dist d2 this, of "left2 mod ?l", folded bs]
    have kb: "map fst b = map fst b2" using S by blast
    have "max 0 (min (left2 mod ?l) ?l) = left2 mod ?l"
      using l pos_mod_bound [OF l, of left2] pos_mod_sign [OF l, of left2] by simp
    with S have "total b = total b2 + left2 div ?l * ?l + left2 mod ?l" by simp
    also have "\<dots> = lim" using T A1(2) div_mult_mod_eq [of left2 ?l] by linarith
    finally have sum: "total b = lim" .
    have "floor_of p \<le> n \<and> (\<forall>k. want p = Some k \<longrightarrow> n \<le> max (floor_of p) k)" if p: "(p, n) \<in> set b" for p n
    proof -
      have "p \<in> fst ` set b2" using p kb by (metis fst_conv image_eqI list.set_map)
      then obtain m where m: "(p, m) \<in> set b2" by force
      then have "map_of b2 p = Some m" using d2 by simp
      then obtain n' where "map_of b p = Some n'" "m \<le> n'" "p \<notin> set shares \<longrightarrow> n' = m" using S by blast
      moreover have "map_of b p = Some n" using p d2 kb by simp
      moreover have "want p = Some k \<Longrightarrow> p \<notin> set shares" for k using shares_set by simp
      ultimately show ?thesis using caps [OF m] by fastforce
    qed
    moreover have "fst ` set b = fst ` set b1" using kb set2 by (metis list.set_map)
    ultimately show ?thesis using sum kb d2 by auto
  qed
  then have R: "distinct (map fst b)" "total b \<le> lim" "fst ` set b = fst ` set b1"
    "\<forall>(p, n) \<in> set b. floor_of p \<le> n \<and> (\<forall>k. want p = Some k \<longrightarrow> n \<le> max (floor_of p) k)"
    "total b = lim \<or> (\<forall>p \<in> fst ` set b. want p \<noteq> None)"
    by - (elim conjE, assumption)+
  show "fst ` set b \<subseteq> fst ` set ordered" unfolding R(3) by (rule A1(5))
  show "tier_closed ordered (fst ` set b)" unfolding R(3) by (rule A2)
  show "distinct (map fst b)" "total b \<le> lim"
    "\<forall>(p, n) \<in> set b. floor_of p \<le> n \<and> (\<forall>k. want p = Some k \<longrightarrow> n \<le> max (floor_of p) k)"
    "total b = lim \<or> (\<forall>p \<in> fst ` set b. want p \<noteq> None)"
    by (fact R)+
qed

text \<open>The purposes of an intent are distinct, and ordering by tier keeps them.\<close>

lemma purposes_distinct: "distinct (map fst (purposes_of b))"
proof (cases "bi_anchor_kind b")
  case None
  then show ?thesis by (simp add: purposes_of_def Let_def split: option.split list.split)
next
  case (Some k)
  then show ?thesis by (cases k) (simp_all add: purposes_of_def Let_def split: option.split list.split)
qed

lemma tier_ordered_keys [simp]:
  "set (tier_ordered ps) = set ps" "distinct (map fst (tier_ordered ps)) = distinct (map fst ps)"
by (simp_all add: tier_ordered_def distinct_map)

lemma planned_total:
  assumes "distinct (map fst ordered)" "distinct (map fst b)" "fst ` set b \<subseteq> fst ` set ordered"
  shows "sum_list (List.map_filter (\<lambda>(p, r). map_of b p) ordered) = total b"
proof -
  have drop: "List.map_filter (\<lambda>(p, r). map_of b p) ordered =
      map (\<lambda>p. the (map_of b p)) (filter (\<lambda>p. map_of b p \<noteq> None) (map fst ordered))"
    by (induction ordered) (auto simp: List.map_filter_simps split: option.splits)
  have "set (filter (\<lambda>p. map_of b p \<noteq> None) (map fst ordered)) = set (map fst b)"
    using assms(3) by (auto simp: map_of_eq_None_iff)
  moreover have "distinct (filter (\<lambda>p. map_of b p \<noteq> None) (map fst ordered))" using assms(1) by simp
  ultimately have "sum_list (List.map_filter (\<lambda>(p, r). map_of b p) ordered) =
      sum_list (map (\<lambda>p. the (map_of b p)) (map fst b))"
    unfolding drop using assms(2) by (metis sum_list_distinct_conv_sum_set)
  also have "map (\<lambda>p. the (map_of b p)) (map fst b) = map snd b" using assms(2) by (auto simp: comp_def)
  finally show ?thesis .
qed

definition plan_of :: "bound_intent \<Rightarrow> budgets" where
  "plan_of b = apportion (wants b) (tier_ordered (purposes_of b)) (max 0 (in_limit (bi_intent b)))"

lemma compiled:
  assumes "purposes_of b \<noteq> []"
  obtains p where "compile_plan b = Inr p"
    and "List.map_filter (\<lambda>(p, r). map_of (plan_of b) p) (tier_ordered (purposes_of b)) =
           map qc_budget (pn_query_classes p)"
    and "\<And>q n. (q, n) \<in> (\<lambda>c. (qc_purpose c, qc_budget c)) ` set (pn_query_classes p) \<longleftrightarrow> (q, n) \<in> set (plan_of b)"
    and "sk_purpose ` set (pn_skipped p) = fst ` set (purposes_of b) - fst ` set (plan_of b)"
proof -
  let ?o = "tier_ordered (purposes_of b)" and ?lim = "max 0 (in_limit (bi_intent b))"
  have dist: "distinct (map fst ?o)" by (simp add: purposes_distinct)
  note A = apportion_facts [OF dist max.cobounded1 [of 0 "in_limit (bi_intent b)"], of "wants b", folded plan_of_def]
  let ?f = "\<lambda>(p, r). map_option (\<lambda>n. \<lparr>qc_class_id = class_id ?o p, qc_purpose = p,
      qc_backend = backend_of p, qc_budget = n, qc_fts_reason = r\<rparr>) (map_of (plan_of b) p)"
  let ?classes = "List.map_filter ?f ?o"
  have "map qc_budget (List.map_filter ?f xs) = List.map_filter (\<lambda>(p, r). map_of (plan_of b) p) xs" for xs
    by (induction xs) (auto simp: List.map_filter_simps split: option.splits)
  then have budgets: "map qc_budget ?classes = List.map_filter (\<lambda>(p, r). map_of (plan_of b) p) ?o" .
  have "sum_list (map qc_budget ?classes) \<le> ?lim"
    unfolding budgets using planned_total [OF dist A(1,3)] A(2) by simp
  moreover define p where "p = \<lparr>pn_bound = b, pn_query_classes = ?classes, pn_result_limit = ?lim,
      pn_skipped = map (\<lambda>(p, _). \<lparr>sk_class_id = class_id ?o p, sk_purpose = p,
                   sk_reason = Tier_budget_exhausted,
                   sk_detail = ''limit '' @ int_str ?lim @ '' was exhausted before tier '' @ nat_str (tier p)\<rparr>)
                 (filter (\<lambda>(p, _). map_of (plan_of b) p = None) ?o)\<rparr>"
  ultimately have c: "compile_plan b = Inr p"
    unfolding compile_plan_def Let_def plan_of_def [symmetric] if_not_P [OF assms] p_def
    by (intro if_not_P) (simp only: not_less)
  have classes: "(q, n) \<in> (\<lambda>c. (qc_purpose c, qc_budget c)) ` set ?classes \<longleftrightarrow> (q, n) \<in> set (plan_of b)" for q n
  proof -
    have "(q, n) \<in> (\<lambda>c. (qc_purpose c, qc_budget c)) ` set ?classes \<longleftrightarrow>
        q \<in> fst ` set ?o \<and> map_of (plan_of b) q = Some n"
      by (force simp: List.map_filter_def)
    then show ?thesis using A(1,3) by force
  qed
  have skipped: "sk_purpose ` set (pn_skipped p) = fst ` set (purposes_of b) - fst ` set (plan_of b)"
    by (force simp: p_def map_of_eq_None_iff)
  show ?thesis
    by (rule that [OF c]) (use budgets classes skipped in \<open>simp_all add: p_def\<close>)
qed

text \<open>
  The planner returns for every intent; the budgets stay below the ceiling, each is at least the
  floor of its class, every purpose of the intent is planned or reported as skipped, and nothing is
  planned of a tier below one that is incomplete.
\<close>

lemma plan_facts:
  "\<exists>p. compile_plan b = Inr p \<and>
     sum_list (map qc_budget (pn_query_classes p)) \<le> max 0 (in_limit (bi_intent b)) \<and>
     (\<forall>c \<in> set (pn_query_classes p). floor_of (qc_purpose c) \<le> qc_budget c) \<and>
     qc_purpose ` set (pn_query_classes p) \<union> sk_purpose ` set (pn_skipped p) = fst ` set (purposes_of b) \<and>
     (\<forall>c \<in> set (pn_query_classes p). \<forall>s \<in> set (pn_skipped p). tier (qc_purpose c) \<le> tier (sk_purpose s))"
proof (cases "purposes_of b = []")
  case True
  then show ?thesis by (simp add: compile_plan_def)
next
  case False
  let ?o = "tier_ordered (purposes_of b)"
  have dist: "distinct (map fst ?o)" by (simp add: purposes_distinct)
  note A = apportion_facts [OF dist max.cobounded1 [of 0 "in_limit (bi_intent b)"], of "wants b", folded plan_of_def]
  from False obtain p where p: "compile_plan b = Inr p"
    and budgets: "List.map_filter (\<lambda>(p, r). map_of (plan_of b) p) ?o = map qc_budget (pn_query_classes p)"
    and classes: "\<And>q n. (q, n) \<in> (\<lambda>c. (qc_purpose c, qc_budget c)) ` set (pn_query_classes p) \<longleftrightarrow>
      (q, n) \<in> set (plan_of b)"
    and skipped: "sk_purpose ` set (pn_skipped p) = fst ` set (purposes_of b) - fst ` set (plan_of b)"
    by (rule compiled) blast
  have sum: "sum_list (map qc_budget (pn_query_classes p)) \<le> max 0 (in_limit (bi_intent b))"
    using planned_total [OF dist A(1,3)] A(2) budgets by simp
  have planned: "qc_purpose ` set (pn_query_classes p) = fst ` set (plan_of b)"
  proof -
    have "(\<lambda>c. (qc_purpose c, qc_budget c)) ` set (pn_query_classes p) = set (plan_of b)"
      using classes by auto
    then show ?thesis by (metis (no_types, lifting) fst_conv image_cong image_image)
  qed
  have floors: "floor_of (qc_purpose c) \<le> qc_budget c" if "c \<in> set (pn_query_classes p)" for c
    using A(5) classes [of "qc_purpose c" "qc_budget c"] that by auto
  have tiers: "tier (qc_purpose c) \<le> tier (sk_purpose s)"
    if "c \<in> set (pn_query_classes p)" "s \<in> set (pn_skipped p)" for c s
  proof (rule ccontr)
    assume "\<not> tier (qc_purpose c) \<le> tier (sk_purpose s)"
    moreover have "sk_purpose s \<in> fst ` set (purposes_of b) - fst ` set (plan_of b)" using that(2) skipped by blast
    moreover have "qc_purpose c \<in> fst ` set (plan_of b)" using that(1) planned by blast
    ultimately show False using A(4) unfolding tier_closed_def tier_ordered_keys by (meson DiffD1 DiffD2 not_le)
  qed
  have "fst ` set (plan_of b) \<subseteq> fst ` set (purposes_of b)" using A(3) by simp
  then have union: "qc_purpose ` set (pn_query_classes p) \<union> sk_purpose ` set (pn_skipped p) =
      fst ` set (purposes_of b)" unfolding planned skipped by blast
  show ?thesis
    by (intro exI [of _ p] conjI ballI p sum floors tiers union)
qed

section \<open>The pairs a viewer walks\<close>

lemma pairs_of_facts:
  assumes "distinct scopes"
  shows "set (pairs_of scopes) = set scopes \<times> set scopes" and "distinct (pairs_of scopes)"
    and "length (pairs_of scopes) = length scopes * length scopes"
proof -
  show set: "set (pairs_of scopes) = set scopes \<times> set scopes" by (auto simp: pairs_of_def)
  have "distinct (concat (map (\<lambda>a. map (Pair a) (filter (\<lambda>b. a \<noteq> b) scopes)) xs))"
    if "distinct xs" for xs
    using that assms by (induction xs) (auto simp: distinct_map inj_on_def)
  then show dist: "distinct (pairs_of scopes)"
    using assms by (auto simp: pairs_of_def distinct_map inj_on_def)
  show "length (pairs_of scopes) = length scopes * length scopes"
    using distinct_card [OF dist] distinct_card [OF assms] set by (simp add: card_cartesian_product)
qed

lemma every_scope_facts: "set (every_scope v) = insert PUBLIC_SCOPE (set v)" "distinct (every_scope v)"
  by (auto simp: every_scope_def)

text \<open>The budget of leaves never bites: the pairs are those of the scopes consulted, all of them.\<close>

lemma scope_pairs_facts:
  assumes "scope_pairs v = (pairs, dropped)"
  shows "set pairs = set (take MAX_VIEWER_SCOPES (every_scope v)) \<times> set (take MAX_VIEWER_SCOPES (every_scope v))"
    and "distinct pairs" and "length pairs \<le> LEAF_BUDGET div 2"
    and "dropped = card ((insert PUBLIC_SCOPE (set v) \<times> insert PUBLIC_SCOPE (set v)) - set pairs)"
proof -
  let ?e = "every_scope v"
  let ?c = "take MAX_VIEWER_SCOPES ?e"
  have dc: "distinct ?c" by (simp add: every_scope_facts)
  have "length ?c \<le> 8" by (simp add: MAX_VIEWER_SCOPES_def)
  then have "length ?c * length ?c \<le> 8 * 8" by (intro mult_le_mono)
  then have whole: "take (LEAF_BUDGET div 2) (pairs_of ?c) = pairs_of ?c"
    using pairs_of_facts(3) [OF dc] by (simp add: LEAF_BUDGET_def)
  have r: "pairs = pairs_of ?c" "dropped = length (pairs_of ?e) - length pairs"
    using assms whole by (auto simp: scope_pairs_def Let_def)
  show set: "set pairs = set ?c \<times> set ?c" "distinct pairs" using pairs_of_facts [OF dc] r by auto
  show "length pairs \<le> LEAF_BUDGET div 2"
    using whole r by (metis length_take min.cobounded2 min.commute)
  have "set pairs \<subseteq> set (pairs_of ?e)"
    using set(1) pairs_of_facts(1) [of ?e] set_take_subset [of MAX_VIEWER_SCOPES ?e] by (auto simp: every_scope_facts(2))
  then have "card (set (pairs_of ?e) - set pairs) = card (set (pairs_of ?e)) - card (set pairs)"
    by (simp add: card_Diff_subset)
  also have "\<dots> = length (pairs_of ?e) - length pairs"
    using set(2) pairs_of_facts(2) [of ?e] by (simp add: distinct_card every_scope_facts(2))
  finally show "dropped = card ((insert PUBLIC_SCOPE (set v) \<times> insert PUBLIC_SCOPE (set v)) - set pairs)"
    using r pairs_of_facts(1) [of ?e] by (simp add: every_scope_facts)
qed

end
