(* ===== verification/Retrieval_Edges.thy ===== *)
theory Retrieval_Edges
  imports Reducers Retrieval_Plan
begin

text \<open>
  The bounded expansion of one node in \<^verbatim>\<open>kawa/retrieval.py\<close>: the seeks over \<open>event_links\<close>, one for
  each direction and pair of scopes (\<open>seek\<close>, \<open>leaves\<close>), and the candidates with the top-up of the
  relations that share a budget (\<open>candidate_edges\<close>).  The generated column \<open>relation_rank\<close> is that of
  \<^verbatim>\<open>sql/0028_relation_rank.sql\<close>; a NULL sorts first where the order is descending, as PostgreSQL has
  it.  The union of the seeks is the concatenation of their rows: what is computed from it does not
  depend on their order.

  Shown: the candidates depend on the visible rows only, each is one of them; where no seek is
  saturated they are all there; a saturated seek drops only rows ranked behind those it returns; and
  no cap hides one of the two relations that share a budget.
\<close>

section \<open>One seek\<close>

datatype direction = Out_edge | In_edge

record candidate =
  cn_relation :: relation
  cn_other :: string
  cn_dir :: direction
  cn_leaf :: nat
  cn_parts :: "(int \<times> int) option"
  cn_origin :: "string option"

fun relation_rank :: "relation \<Rightarrow> nat" where
  "relation_rank Supersedes = 0"
| "relation_rank Contradicts = 1"
| "relation_rank Supports = 2"
| "relation_rank Reason_for = 3"
| "relation_rank Based_on = 4"
| "relation_rank Addresses = 5"
| "relation_rank Caused_by = 6"
| "relation_rank Corrects = 7"
| "relation_rank Resolves = 8"
| "relation_rank Reviews = 9"
| "relation_rank Satisfies = 10"

text \<open>The columns that a direction names: the node, the endpoint stepped to, and its scope.\<close>

fun link_key :: "direction \<Rightarrow> link_row \<Rightarrow> string" where
  "link_key Out_edge l = lr_source_ref l"
| "link_key In_edge l = lr_target_ref l"

fun link_other :: "direction \<Rightarrow> link_row \<Rightarrow> string" where
  "link_other Out_edge l = lr_target_ref l"
| "link_other In_edge l = lr_source_ref l"

fun other_scope :: "direction \<Rightarrow> link_row \<Rightarrow> string option" where
  "other_scope Out_edge l = lr_target_scope l"
| "other_scope In_edge l = lr_source_scope l"

fun other_parts :: "direction \<Rightarrow> link_row \<Rightarrow> (int \<times> int) option" where
  "other_parts Out_edge l = lr_target_hlc l"
| "other_parts In_edge l = lr_source_hlc l"

fun other_origin :: "direction \<Rightarrow> link_row \<Rightarrow> string option" where
  "other_origin Out_edge l = lr_target_origin l"
| "other_origin In_edge l = lr_source_origin l"

definition link_candidate :: "direction \<Rightarrow> nat \<Rightarrow> link_row \<Rightarrow> candidate" where
  "link_candidate dir leaf l =
     \<lparr>cn_relation = lr_relation l, cn_other = link_other dir l, cn_dir = dir, cn_leaf = leaf,
      cn_parts = other_parts dir l, cn_origin = other_origin dir l\<rparr>"

text \<open>A nullable column as a sort key in which NULL is the greatest value.\<close>

definition null_last :: "'a option \<Rightarrow> 'a \<Rightarrow> bool \<times> 'a" where
  "null_last x dflt = (case x of None \<Rightarrow> (True, dflt) | Some v \<Rightarrow> (False, v))"

text \<open>\<open>ORDER BY relation_rank\<close>, then clock, origin and reference, all descending.\<close>

definition ranked :: "direction \<Rightarrow> link_row list \<Rightarrow> link_row list" where
  "ranked dir ls =
     sort_key (relation_rank \<circ> lr_relation)
       (rev (sort_key (\<lambda>l. (null_last (other_parts dir l) (0, 0), null_last (other_origin dir l) [],
                            link_other dir l)) ls))"

definition pair_visible :: "string \<Rightarrow> direction \<Rightarrow> string \<times> string \<Rightarrow> link_row \<Rightarrow> bool" where
  "pair_visible node dir pr l \<longleftrightarrow>
     link_key dir l = node \<and> lr_resolved l \<and> other_scope dir l = Some (fst pr) \<and>
     lr_asserter_scope l = snd pr"

definition seek ::
    "db \<Rightarrow> string \<Rightarrow> nat \<Rightarrow> relation option \<Rightarrow> nat \<Rightarrow> direction \<times> string \<times> string \<Rightarrow> candidate list" where
  "seek d node per_node rel leaf dp =
     (case dp of (dir, pr) \<Rightarrow>
        map (link_candidate dir leaf)
          (take per_node (ranked dir
             (filter (\<lambda>l. pair_visible node dir pr l \<and> (case rel of Some r \<Rightarrow> lr_relation l = r | None \<Rightarrow> True))
               (event_links d)))))"

section \<open>The candidates of a node\<close>

definition leaf_plan :: "(string \<times> string) list \<Rightarrow> (direction \<times> string \<times> string) list" where
  "leaf_plan pairs = map (Pair Out_edge) pairs @ map (Pair In_edge) pairs"

definition leaves ::
    "db \<Rightarrow> string \<Rightarrow> nat \<Rightarrow> relation option \<Rightarrow> (direction \<times> string \<times> string) list \<Rightarrow> candidate list" where
  "leaves d node per_node rel plan =
     concat (map (\<lambda>(leaf, dp). seek d node per_node rel leaf dp) (enumerate 0 plan))"

definition saturated_leaves :: "nat \<Rightarrow> nat \<Rightarrow> candidate list \<Rightarrow> nat list" where
  "saturated_leaves per_node n rows =
     filter (\<lambda>leaf. let count = length (filter (\<lambda>c. cn_leaf c = leaf) rows) in 0 < count \<and> per_node \<le> count)
       [0..<n]"

definition starved :: "candidate list \<Rightarrow> nat list \<Rightarrow> relation \<Rightarrow> nat list" where
  "starved rows saturated r =
     filter (\<lambda>leaf. \<not> list_ex (\<lambda>c. cn_leaf c = leaf \<and> cn_relation c = r) rows) saturated"

definition candidate_edges ::
    "db \<Rightarrow> string \<Rightarrow> (string \<times> string) list \<Rightarrow> nat \<Rightarrow> candidate list \<times> nat" where
  "candidate_edges d node pairs per_node =
     (let plan = leaf_plan pairs;
          rows = leaves d node per_node None plan;
          saturated = saturated_leaves per_node (length plan) rows;
          refill = (\<lambda>r. leaves d node per_node (Some r) (map (\<lambda>leaf. plan ! leaf) (starved rows saturated r)))
      in (rows @ refill Contradicts @ refill Supports, length saturated))"

section \<open>What a seek returns\<close>

lemma ranked_set [simp]: "set (ranked dir ls) = set ls" "length (ranked dir ls) = length ls"
  by (simp_all add: ranked_def)

lemma ranked_sorted: "sorted (map (relation_rank \<circ> lr_relation) (ranked dir ls))"
  by (simp add: ranked_def)

lemma link_candidate_simps [simp]:
  "cn_relation (link_candidate dir leaf l) = lr_relation l" "cn_other (link_candidate dir leaf l) = link_other dir l"
  "cn_dir (link_candidate dir leaf l) = dir" "cn_leaf (link_candidate dir leaf l) = leaf"
  "cn_parts (link_candidate dir leaf l) = other_parts dir l"
  "cn_origin (link_candidate dir leaf l) = other_origin dir l"
  by (simp_all add: link_candidate_def)

definition in_leaf :: "db \<Rightarrow> string \<Rightarrow> relation option \<Rightarrow> direction \<times> string \<times> string \<Rightarrow> link_row list" where
  "in_leaf d node rel dp =
     filter (\<lambda>l. pair_visible node (fst dp) (snd dp) l \<and> (case rel of Some r \<Rightarrow> lr_relation l = r | None \<Rightarrow> True))
       (event_links d)"

lemma seek_rows:
  "seek d node n rel leaf dp = map (link_candidate (fst dp) leaf) (take n (ranked (fst dp) (in_leaf d node rel dp)))"
  by (simp add: seek_def in_leaf_def split: prod.split)

lemma seek_leaf: "c \<in> set (seek d node n rel leaf dp) \<Longrightarrow> cn_leaf c = leaf"
  by (auto simp: seek_rows)

lemma seek_sound:
  assumes "c \<in> set (seek d node n rel leaf dp)"
  shows "\<exists>l \<in> set (event_links d). pair_visible node (fst dp) (snd dp) l \<and> c = link_candidate (fst dp) leaf l"
  using assms set_take_subset by (fastforce simp: seek_rows in_leaf_def)

lemma seek_length: "length (seek d node n rel leaf dp) = min n (length (in_leaf d node rel dp))"
  by (simp add: seek_rows)

text \<open>A seek below its limit returns everything.\<close>

lemma seek_complete:
  assumes "l \<in> set (in_leaf d node rel dp)" "length (seek d node n rel leaf dp) < n"
  shows "link_candidate (fst dp) leaf l \<in> set (seek d node n rel leaf dp)"
proof -
  have "length (in_leaf d node rel dp) \<le> n" using assms(2) by (simp add: seek_length)
  then have "take n (ranked (fst dp) (in_leaf d node rel dp)) = ranked (fst dp) (in_leaf d node rel dp)" by simp
  with assms(1) show ?thesis by (simp add: seek_rows)
qed

text \<open>A seek at its limit drops only rows of a rank that is not before any it returns.\<close>

lemma seek_drops_last:
  assumes "l \<in> set (in_leaf d node rel dp)" "link_candidate (fst dp) leaf l \<notin> set (seek d node n rel leaf dp)"
    and "c \<in> set (seek d node n rel leaf dp)"
  shows "relation_rank (cn_relation c) \<le> relation_rank (lr_relation l)"
proof -
  let ?rs = "ranked (fst dp) (in_leaf d node rel dp)"
  from assms(2) have "l \<notin> set (take n ?rs)" by (auto simp: seek_rows)
  moreover have "l \<in> set ?rs" using assms(1) by simp
  then have "l \<in> set (take n ?rs) \<union> set (drop n ?rs)" by (metis append_take_drop_id set_append)
  ultimately have later: "l \<in> set (drop n ?rs)" by blast
  from assms(3) obtain l' where l': "l' \<in> set (take n ?rs)" "c = link_candidate (fst dp) leaf l'"
    by (auto simp: seek_rows)
  have "sorted (map (relation_rank \<circ> lr_relation) (take n ?rs @ drop n ?rs))" by (simp add: ranked_sorted)
  then have "\<forall>x \<in> set (take n ?rs). \<forall>y \<in> set (drop n ?rs).
      relation_rank (lr_relation x) \<le> relation_rank (lr_relation y)"
    by (simp only: map_append sorted_append) auto
  with later l' show ?thesis by simp
qed

text \<open>The rows of a leaf are those of its seek.\<close>

lemma leaves_at_offset:
  "filter (\<lambda>c. cn_leaf c = i) (concat (map (\<lambda>(leaf, dp). seek d node n rel leaf dp) (enumerate k plan))) =
     (if k \<le> i \<and> i < k + length plan then seek d node n rel i (plan ! (i - k)) else [])"
proof (induction plan arbitrary: k)
  case (Cons dp plan)
  have "filter (\<lambda>c. cn_leaf c = i) (seek d node n rel k dp) = (if i = k then seek d node n rel k dp else [])"
    using seek_leaf [of _ d node n rel k dp] by (auto simp: filter_empty_conv filter_id_conv)
  with Cons.IH [of "Suc k"] show ?case
    by (auto simp: nth_Cons' Suc_le_eq)
qed auto

lemma leaves_at:
  "i < length plan \<Longrightarrow> filter (\<lambda>c. cn_leaf c = i) (leaves d node n rel plan) = seek d node n rel i (plan ! i)"
  using leaves_at_offset [of i d node n rel 0 plan] by (simp add: leaves_def)

lemma leaves_mem:
  "c \<in> set (leaves d node n rel plan) \<longleftrightarrow> (\<exists>i < length plan. c \<in> set (seek d node n rel i (plan ! i)))"
proof -
  have "set (enumerate 0 plan) = (\<lambda>i. (i, plan ! i)) ` {..<length plan}"
    by (force simp: enumerate_eq_zip set_zip)
  then show ?thesis by (auto simp: leaves_def split_def)
qed

section \<open>What is visible\<close>

definition edge_visible :: "(string \<times> string) list \<Rightarrow> link_row \<Rightarrow> bool" where
  "edge_visible pairs l \<longleftrightarrow>
     lr_resolved l \<and>
     (\<exists>dir \<in> {Out_edge, In_edge}. \<exists>s. other_scope dir l = Some s \<and> (s, lr_asserter_scope l) \<in> set pairs)"

lemma pair_visible_edge: "pair_visible node dir pr l \<Longrightarrow> pr \<in> set pairs \<Longrightarrow> edge_visible pairs l"
  by (cases pr; cases dir) (auto simp: pair_visible_def edge_visible_def)

lemma leaf_plan_mem: "dp \<in> set (leaf_plan pairs) \<longleftrightarrow> snd dp \<in> set pairs"
  by (cases dp; cases "fst dp") (auto simp: leaf_plan_def)

text \<open>Rows that the viewer may not see have no part in the candidates.\<close>

lemma seek_visible_only:
  assumes "filter (edge_visible pairs) (event_links d) = filter (edge_visible pairs) (event_links d')"
    and "snd dp \<in> set pairs"
  shows "seek d node n rel leaf dp = seek d' node n rel leaf dp"
proof -
  define P where "P l \<longleftrightarrow> pair_visible node (fst dp) (snd dp) l \<and>
      (case rel of Some r \<Rightarrow> lr_relation l = r | None \<Rightarrow> True)" for l
  have visible: "P l \<Longrightarrow> edge_visible pairs l" for l
    unfolding P_def by (elim conjE) (rule pair_visible_edge [OF _ assms(2)])
  have "filter P ls = filter P (filter (edge_visible pairs) ls)" for ls
    unfolding filter_filter by (rule filter_cong [OF refl]) (use visible in blast)
  then have "filter P (event_links d) = filter P (event_links d')" using assms(1) by metis
  then have "in_leaf d node rel dp = in_leaf d' node rel dp" by (simp add: in_leaf_def P_def [abs_def])
  then show ?thesis by (simp add: seek_rows)
qed

lemma leaves_visible_only:
  assumes "filter (edge_visible pairs) (event_links d) = filter (edge_visible pairs) (event_links d')"
    and "set plan \<subseteq> set (leaf_plan pairs)"
  shows "leaves d node n rel plan = leaves d' node n rel plan"
proof -
  have "seek d node n rel leaf dp = seek d' node n rel leaf dp" if "(leaf, dp) \<in> set (enumerate 0 plan)" for leaf dp
  proof (rule seek_visible_only [OF assms(1)])
    from that have "dp \<in> set plan" by (auto simp: in_set_enumerate_eq)
    with assms(2) show "snd dp \<in> set pairs" using leaf_plan_mem by blast
  qed
  then show ?thesis unfolding leaves_def by (intro arg_cong [where f = concat] map_cong) auto
qed

lemma starved_leaves:
  "set (map (\<lambda>leaf. plan ! leaf) (starved rows (saturated_leaves n (length plan) rows) r)) \<subseteq> set plan"
  by (auto simp: starved_def saturated_leaves_def)

lemma candidates_visible_only:
  assumes "filter (edge_visible pairs) (event_links d) = filter (edge_visible pairs) (event_links d')"
  shows "candidate_edges d node pairs n = candidate_edges d' node pairs n"
  unfolding candidate_edges_def Let_def
  using leaves_visible_only [OF assms order_refl] leaves_visible_only [OF assms starved_leaves]
  by simp

text \<open>Every candidate is a visible row at the node.\<close>

lemma candidates_sound:
  assumes "c \<in> set (fst (candidate_edges d node pairs n))"
  shows "\<exists>l \<in> set (event_links d). \<exists>pr \<in> set pairs. pair_visible node (cn_dir c) pr l \<and>
    c = link_candidate (cn_dir c) (cn_leaf c) l"
proof -
  let ?p = "leaf_plan pairs"
  let ?refill = "\<lambda>r. map (\<lambda>leaf. ?p ! leaf)
      (starved (leaves d node n None ?p) (saturated_leaves n (length ?p) (leaves d node n None ?p)) r)"
  from assms consider "c \<in> set (leaves d node n None ?p)"
    | r where "c \<in> set (leaves d node n (Some r) (?refill r))"
    by (auto simp: candidate_edges_def Let_def)
  then obtain rel plan where plan: "set plan \<subseteq> set ?p" and c: "c \<in> set (leaves d node n rel plan)"
  proof cases
    case 1
    then show ?thesis by (rule that [OF order_refl])
  next
    case 2
    then show ?thesis by (rule that [OF starved_leaves])
  qed
  from c obtain i where "i < length plan" "c \<in> set (seek d node n rel i (plan ! i))" by (auto simp: leaves_mem)
  then obtain l where l: "l \<in> set (event_links d)" "pair_visible node (fst (plan ! i)) (snd (plan ! i)) l"
    "c = link_candidate (fst (plan ! i)) i l" and i: "i < length plan" using seek_sound by blast
  have "snd (plan ! i) \<in> set pairs" using plan i nth_mem leaf_plan_mem by blast
  with l show ?thesis by auto
qed

text \<open>A leaf that is not saturated is complete.\<close>

lemma leaf_index:
  assumes "pr \<in> set pairs"
  obtains i where "i < length (leaf_plan pairs)" "leaf_plan pairs ! i = (dir, pr)"
  using assms leaf_plan_mem [of "(dir, pr)" pairs] by (auto simp: in_set_conv_nth)

lemma saturated_iff:
  "i \<in> set (saturated_leaves n (length plan) (leaves d node n None plan)) \<longleftrightarrow>
     i < length plan \<and> 0 < length (seek d node n None i (plan ! i)) \<and> n \<le> length (seek d node n None i (plan ! i))"
  by (cases "i < length plan") (simp_all add: saturated_leaves_def leaves_at Let_def)

lemma leaf_complete:
  assumes "0 < n" "i < length plan" "l \<in> set (event_links d)" "pair_visible node (fst (plan ! i)) (snd (plan ! i)) l"
    and "i \<notin> set (saturated_leaves n (length plan) (leaves d node n None plan))"
  shows "link_candidate (fst (plan ! i)) i l \<in> set (leaves d node n None plan)"
proof -
  have l: "l \<in> set (in_leaf d node None (plan ! i))" using assms(3,4) by (simp add: in_leaf_def)
  have "length (seek d node n None i (plan ! i)) < n" using assms(1,2,5) by (auto simp: saturated_iff)
  from seek_complete [OF l this] assms(2) show ?thesis by (auto simp: leaves_mem)
qed

lemma candidates_rows: "set (leaves d node n None (leaf_plan pairs)) \<subseteq> set (fst (candidate_edges d node pairs n))"
  by (simp add: candidate_edges_def Let_def)

lemma candidates_complete:
  assumes "snd (candidate_edges d node pairs n) = 0" "0 < n" "l \<in> set (event_links d)" "pr \<in> set pairs"
    and "pair_visible node dir pr l"
  shows "\<exists>leaf. link_candidate dir leaf l \<in> set (fst (candidate_edges d node pairs n))"
proof -
  obtain i where i: "i < length (leaf_plan pairs)" "leaf_plan pairs ! i = (dir, pr)" by (rule leaf_index [OF assms(4)])
  have "saturated_leaves n (length (leaf_plan pairs)) (leaves d node n None (leaf_plan pairs)) = []"
    using assms(1) by (simp add: candidate_edges_def Let_def)
  with leaf_complete [OF assms(2) i(1) assms(3)] i(2) assms(5)
  have "link_candidate dir i l \<in> set (leaves d node n None (leaf_plan pairs))" by simp
  then show ?thesis using candidates_rows by blast
qed

text \<open>
  Fair share: where a pair of scopes has a visible row of one of the two relations, the candidates
  have one too, whatever the cap dropped.
\<close>

lemma fair_share:
  assumes "r = Supports \<or> r = Contradicts" "0 < n" "l \<in> set (event_links d)" "pr \<in> set pairs"
    and "pair_visible node dir pr l" "lr_relation l = r"
  shows "\<exists>leaf. \<exists>l' \<in> set (event_links d). pair_visible node dir pr l' \<and> lr_relation l' = r \<and>
    link_candidate dir leaf l' \<in> set (fst (candidate_edges d node pairs n))"
proof -
  let ?p = "leaf_plan pairs"
  let ?rows = "leaves d node n None ?p"
  let ?sat = "saturated_leaves n (length ?p) ?rows"
  obtain i where i: "i < length ?p" "?p ! i = (dir, pr)" by (rule leaf_index [OF assms(4)])
  show ?thesis
  proof (cases "\<exists>c \<in> set ?rows. cn_leaf c = i \<and> cn_relation c = r")
    case True
    then obtain c where c: "c \<in> set ?rows" "cn_leaf c = i" "cn_relation c = r" by blast
    then have "c \<in> set (filter (\<lambda>c. cn_leaf c = i) ?rows)" by simp
    then have "c \<in> set (seek d node n None i (dir, pr))" using leaves_at [OF i(1)] i(2) by metis
    from seek_sound [OF this] obtain l' where "l' \<in> set (event_links d)" "pair_visible node dir pr l'"
      "c = link_candidate dir i l'" by auto
    moreover have "c \<in> set (fst (candidate_edges d node pairs n))" using c(1) candidates_rows by blast
    ultimately show ?thesis using c(3) by auto
  next
    case False
    have "i \<in> set ?sat"
    proof (rule ccontr)
      assume "i \<notin> set ?sat"
      from leaf_complete [OF assms(2) i(1) assms(3) _ this] i(2) assms(5) have "link_candidate dir i l \<in> set ?rows" by simp
      with False assms(6) show False by auto
    qed
    with False have "i \<in> set (starved ?rows ?sat r)" by (auto simp: starved_def list_ex_iff)
    then obtain j where j: "j < length (starved ?rows ?sat r)" "starved ?rows ?sat r ! j = i"
      by (auto simp: in_set_conv_nth)
    let ?q = "map (\<lambda>leaf. ?p ! leaf) (starved ?rows ?sat r)"
    have q: "j < length ?q" "?q ! j = (dir, pr)" using i j by simp_all
    have "l \<in> set (in_leaf d node (Some r) (dir, pr))" using assms(3,5,6) by (simp add: in_leaf_def)
    then have "0 < length (seek d node n (Some r) j (dir, pr))" using assms(2) by (auto simp: seek_length)
    then obtain c where "c \<in> set (seek d node n (Some r) j (dir, pr))" by (metis length_pos_if_in_set list.set_sel(1) length_0_conv neq0_conv)
    moreover then obtain l' where "l' \<in> set (in_leaf d node (Some r) (dir, pr))" "c = link_candidate dir j l'"
      using set_take_subset by (fastforce simp: seek_rows)
    moreover have "set (leaves d node n (Some r) ?q) \<subseteq> set (fst (candidate_edges d node pairs n))"
      using assms(1) by (auto simp: candidate_edges_def Let_def)
    ultimately show ?thesis using q leaves_mem [of c d node n "Some r" ?q] by (fastforce simp: in_leaf_def)
  qed
qed

end
