(* ===== verification/Retrieval_Walk.thy ===== *)
theory Retrieval_Walk
  imports Retrieval_Edges
begin

text \<open>
  The neighbourhood class of \<^verbatim>\<open>kawa/retrieval.py\<close>: what a record says of an event (\<open>summary_of\<close>), the
  order of expansion, the breadth-first walk with its stated frontiers, the count of what is
  withheld and the report of truncation (\<open>exec_neighborhood\<close>).  The walk is written over the function
  that gives the candidates of a node, so what it depends on is visible in its type.  PostgreSQL's
  text of a double is the parameter \<open>nt\<close>.  References are ASCII, so a slice of characters is one of
  bytes; the ellipsis is its UTF-8 encoding.

  Shown: the walk ends, keeps its budget and depth and returns each reference once, over visible
  edges only; rows that the viewer may not see change nothing but the count withheld; and an answer
  that states no cut is the whole visible component of the root.
\<close>

section \<open>Records\<close>

record retrieved =
  rc_ref :: string
  rc_kind :: string
  rc_summary :: string
  rc_backend :: backend_kind
  rc_class_id :: string
  rc_path :: string
  rc_path_truncated :: bool
  rc_standing :: "string option"

definition ellipsis :: string where "ellipsis = [CHR 0xE2, CHR 0x80, CHR 0xA6]"

definition observed_value :: "(string \<Rightarrow> string) \<Rightarrow> observation_recorded \<Rightarrow> string" where
  "observed_value nt x =
     (case ob_value_text x of Some t \<Rightarrow> t
      | None \<Rightarrow> (case ob_value_number x of Some n \<Rightarrow> nt n
         | None \<Rightarrow> (case ob_value_bool x of Some b \<Rightarrow> if b then ''true'' else ''false''
            | None \<Rightarrow> (case ob_value_time x of Some t \<Rightarrow> t | None \<Rightarrow> ''None''))))"

definition plan_summary :: "plan_fact \<Rightarrow> string" where
  "plan_summary x = ep_plan_ref x @ '': '' @
     (case ep_objective x of Some t \<Rightarrow> t
      | None \<Rightarrow> (case ep_lifecycle x of Some l \<Rightarrow> lifecycle_text l | None \<Rightarrow> ''None''))"

text \<open>A stub has a row in \<open>events\<close> and none in the table of its kind: reading it raises.\<close>

definition summary_of :: "(string \<Rightarrow> string) \<Rightarrow> db \<Rightarrow> string \<Rightarrow> (string \<times> string) result" where
  "summary_of nt d eid =
     (case find_event d eid of
        None \<Rightarrow> Inr (''unknown'', [])
      | Some r \<Rightarrow>
          (case kind r of
                CLAIM_RECORDED \<Rightarrow>
                  bind_result (fetchone (event_claim d) eid) (\<lambda>x. Inr (kind_value (kind r), cl_proposition x))
              | OBSERVATION_RECORDED \<Rightarrow>
                  bind_result (fetchone (event_observation d) eid) (\<lambda>x.
                    Inr (kind_value (kind r), ob_predicate x @ '' = '' @ observed_value nt x))
              | LINK_ASSERTED \<Rightarrow>
                  bind_result (fetchone (event_link d) eid) (\<lambda>x.
                    Inr (kind_value (kind r), take 20 (la_source_ref x) @ ellipsis @ '' --'' @
                      relation_text (la_relation x) @ ''--> '' @ take 20 (la_target_ref x) @ ellipsis))
              | PLAN_CREATED \<Rightarrow>
                  bind_result (fetchone (event_plan d) eid) (\<lambda>x. Inr (kind_value (kind r), plan_summary x))
              | PLAN_LIFECYCLE_CHANGED \<Rightarrow>
                  bind_result (fetchone (event_plan d) eid) (\<lambda>x. Inr (kind_value (kind r), plan_summary x))
              | WORK_DERIVED \<Rightarrow>
                  bind_result (fetchone (event_work d) eid) (\<lambda>x.
                    Inr (kind_value (kind r), wd_work_ref x @ '' ('' @ wd_plan_ref x @ '')''))
              | RESULT_RECORDED \<Rightarrow>
                  bind_result (fetchone (event_result d) eid) (\<lambda>x.
                    Inr (kind_value (kind r), rr_work_ref x @ '': '' @ outcome_text (rr_outcome x)))
              | _ \<Rightarrow> Inr (kind_value (kind r), [])))"

fun claim_standing_text :: "claim_standing \<Rightarrow> string" where
  "claim_standing_text Grounded_supported = ''grounded_supported''"
| "claim_standing_text Contradicted = ''contradicted''"
| "claim_standing_text Contested = ''contested''"
| "claim_standing_text Superseded_claim = ''superseded''"
| "claim_standing_text Unevaluated = ''unevaluated''"

definition told_standing :: "db \<Rightarrow> string \<Rightarrow> string option" where
  "told_standing d eid = map_option (claim_standing_text \<circ> fst) (current_claim_standing d eid)"

section \<open>The order of expansion\<close>

fun direction_text :: "direction \<Rightarrow> string" where
  "direction_text Out_edge = ''out''"
| "direction_text In_edge = ''in''"

text \<open>The groups of relations; supports and contradicts are one.\<close>

fun group_of :: "relation \<Rightarrow> nat" where
  "group_of Supersedes = 0"
| "group_of Supports = 1"
| "group_of Contradicts = 1"
| "group_of Reason_for = 2"
| "group_of Based_on = 3"
| "group_of _ = 4"

fun interleave :: "'a list \<Rightarrow> 'a list \<Rightarrow> 'a list" where
  "interleave [] ys = ys"
| "interleave xs [] = xs"
| "interleave (x # xs) (y # ys) = x # y # interleave xs ys"

definition drop_leaf :: "candidate \<Rightarrow> candidate" where
  "drop_leaf c = c\<lparr>cn_leaf := 0\<rparr>"

text \<open>\<open>sort(reverse=True)\<close> keeps the order of equal elements.\<close>

definition sort_desc :: "('a \<Rightarrow> 'k::linorder) \<Rightarrow> 'a list \<Rightarrow> 'a list" where
  "sort_desc k xs = rev (sort_key k (rev xs))"

definition expansion_order :: "candidate list \<Rightarrow> candidate list" where
  "expansion_order cs =
     (let edges = sort_key (\<lambda>c. (relation_text (cn_relation c), cn_other c, direction_text (cn_dir c)))
                    (remdups (map drop_leaf cs));
          causal = sort_desc (\<lambda>c. hlc_parts_sort_key (cn_parts c)
                      (case cn_origin c of Some n \<Rightarrow> n | None \<Rightarrow> []) [cn_other c, direction_text (cn_dir c)]) edges;
          grouped = sort_key (\<lambda>c. (group_of (cn_relation c), relation_text (cn_relation c))) causal
      in filter (\<lambda>c. group_of (cn_relation c) < 1) grouped @
         interleave (filter (\<lambda>c. cn_relation c = Supports) grouped)
                    (filter (\<lambda>c. cn_relation c = Contradicts) grouped) @
         filter (\<lambda>c. 1 < group_of (cn_relation c)) grouped)"

section \<open>The walk\<close>

datatype stop_reason = Cycle | Depth_limit | Row_cap | Unresolved

record frontier_entry =
  fe_source_node :: string
  fe_relation :: relation
  fe_next_ref :: string
  fe_stop :: stop_reason

record walk_state =
  ws_out :: "retrieved list"
  ws_visited :: "string list"
  ws_queue :: "(string \<times> int \<times> string) list"
  ws_frontier :: "frontier_entry list"
  ws_withheld :: nat
  ws_saturating :: "(nat \<times> string) list"

definition PATH_EDGE_BUDGET :: nat where "PATH_EDGE_BUDGET = 8"

definition arrow :: "candidate \<Rightarrow> string" where
  "arrow c =
     (case cn_dir c of
        Out_edge \<Rightarrow> ''-'' @ relation_text (cn_relation c) @ ''->''
      | In_edge \<Rightarrow> ''<-'' @ relation_text (cn_relation c) @ ''-'')"

definition extended_path :: "string \<Rightarrow> candidate \<Rightarrow> string" where
  "extended_path path c = path @ '' '' @ arrow c @ '' '' @ take 16 (cn_other c) @ ellipsis"

definition path_too_long :: "string \<Rightarrow> bool" where
  "path_too_long path \<longleftrightarrow> PATH_EDGE_BUDGET < length (filter (\<lambda>c. c = CHR ''-'') path) div 2"

text \<open>The arguments that do not change during a walk.\<close>

record walk_env =
  we_root :: string
  we_depth_cap :: int
  we_row_cap :: int
  we_class_id :: string
  we_summary :: "string \<Rightarrow> (string \<times> string) result"
  we_standing :: "string \<Rightarrow> string option"

definition stop_at :: "string \<Rightarrow> candidate \<Rightarrow> stop_reason \<Rightarrow> walk_state \<Rightarrow> walk_state" where
  "stop_at node c reason s =
     s\<lparr>ws_frontier := ws_frontier s @
        [\<lparr>fe_source_node = node, fe_relation = cn_relation c, fe_next_ref = cn_other c, fe_stop = reason\<rparr>]\<rparr>"

definition take_edge ::
    "walk_env \<Rightarrow> string \<Rightarrow> int \<Rightarrow> string \<Rightarrow> candidate \<Rightarrow> walk_state \<Rightarrow> walk_state result" where
  "take_edge v node depth path c s =
     (if cn_other c \<in> set (ws_visited s) then Inr (stop_at node c Cycle s)
      else if we_depth_cap v < depth + 1 then Inr (stop_at node c Depth_limit s)
      else if we_row_cap v \<le> int (length (ws_out s)) then Inr (stop_at node c Row_cap s)
      else
        (let new_path = extended_path path c; long = path_too_long new_path in
         bind_result (we_summary v (cn_other c)) (\<lambda>(k, summary).
           Inr (s\<lparr>ws_visited := ws_visited s @ [cn_other c],
                  ws_out := ws_out s @
                    [\<lparr>rc_ref = cn_other c, rc_kind = k, rc_summary = summary, rc_backend = Traversal,
                      rc_class_id = we_class_id v,
                      rc_path = (if long then we_root v @ '' '' @ ellipsis @ ''(+'' @ int_str (depth + 1) @
                                   '' edges) '' @ take 16 (cn_other c) @ ellipsis
                                 else new_path),
                      rc_path_truncated = long, rc_standing = we_standing v (cn_other c)\<rparr>],
                  ws_queue := ws_queue s @ [(cn_other c, depth + 1, new_path)]\<rparr>))))"

fun take_edges ::
    "walk_env \<Rightarrow> string \<Rightarrow> int \<Rightarrow> string \<Rightarrow> candidate list \<Rightarrow> walk_state \<Rightarrow> walk_state result" where
  "take_edges v node depth path [] s = Inr s"
| "take_edges v node depth path (c # cs) s =
     bind_result (take_edge v node depth path c s) (take_edges v node depth path cs)"

definition expand_node ::
    "walk_env \<Rightarrow> (string \<Rightarrow> candidate list \<times> nat) \<Rightarrow> (string \<Rightarrow> nat) \<Rightarrow> string \<Rightarrow> int \<Rightarrow> string \<Rightarrow>
     walk_state \<Rightarrow> walk_state result" where
  "expand_node v edges hidden node depth path s =
     (case edges node of (cs, saturated) \<Rightarrow>
        take_edges v node depth path (expansion_order cs)
          (s\<lparr>ws_saturating := ws_saturating s @ (if 0 < saturated then [(saturated, node)] else []),
             ws_withheld := ws_withheld s + hidden node\<rparr>))"

text \<open>Every reference added to the queue is one more record, and the records are bounded.\<close>

definition work_left :: "walk_env \<Rightarrow> walk_state \<Rightarrow> nat" where
  "work_left v s = length (ws_queue s) + nat (we_row_cap v - int (length (ws_out s)))"

lemma take_edges_work: "take_edges v node depth path cs s = Inr s' \<Longrightarrow> work_left v s' = work_left v s"
proof (induction cs arbitrary: s)
  case (Cons c cs)
  from Cons.prems obtain s1 where one: "take_edge v node depth path c s = Inr s1"
    and rest: "take_edges v node depth path cs s1 = Inr s'" by (auto simp: bind_result_def split: sum.splits)
  from one have "work_left v s1 = work_left v s"
    by (auto simp: take_edge_def stop_at_def work_left_def Let_def bind_result_def split: if_splits sum.splits)
  with Cons.IH [OF rest] show ?case by simp
qed simp

lemma expand_node_work: "expand_node v edges hidden node depth path s = Inr s' \<Longrightarrow> work_left v s' = work_left v s"
  using take_edges_work by (force simp: expand_node_def work_left_def split: prod.splits)

function walk_queue ::
    "walk_env \<Rightarrow> (string \<Rightarrow> candidate list \<times> nat) \<Rightarrow> (string \<Rightarrow> nat) \<Rightarrow> walk_state \<Rightarrow> walk_state result" where
  "walk_queue v edges hidden s =
     (case ws_queue s of
        [] \<Rightarrow> Inr s
      | (node, depth, path) # rest \<Rightarrow>
          (case expand_node v edges hidden node depth path (s\<lparr>ws_queue := rest\<rparr>) of
             Inl e \<Rightarrow> Inl e
           | Inr s' \<Rightarrow> walk_queue v edges hidden s'))"
  by pat_completeness auto

termination
  by (relation "measure (\<lambda>(v, edges, hidden, s). work_left v s)")
    (auto simp: work_left_def dest!: expand_node_work)

declare walk_queue.simps [simp del]

definition walk_from :: "string \<Rightarrow> walk_state" where
  "walk_from root =
     \<lparr>ws_out = [], ws_visited = [root], ws_queue = [(root, 0, root)], ws_frontier = [], ws_withheld = 0,
      ws_saturating = []\<rparr>"

section \<open>The class\<close>

definition in_scope :: "string list \<Rightarrow> event_row \<Rightarrow> bool" where
  "in_scope scopes r \<longleftrightarrow> (case scope_ref r of None \<Rightarrow> True | Some s \<Rightarrow> s \<in> set scopes)"

text \<open>\<open>x = ANY(scopes)\<close> in three values.\<close>

definition any_of :: "string option \<Rightarrow> string list \<Rightarrow> bool option" where
  "any_of x scopes =
     (if scopes = [] then Some False else case x of None \<Rightarrow> None | Some s \<Rightarrow> Some (s \<in> set scopes))"

text \<open>\<open>NOT (a AND b)\<close> is true.\<close>

definition not_both :: "bool option \<Rightarrow> bool option \<Rightarrow> bool" where
  "not_both a b \<longleftrightarrow> a = Some False \<or> b = Some False"

definition withheld_at :: "db \<Rightarrow> string list \<Rightarrow> string \<Rightarrow> nat" where
  "withheld_at d scopes node =
     length (filter (\<lambda>l. lr_resolved l \<and> (lr_source_ref l = node \<or> lr_target_ref l = node) \<and>
         not_both (any_of (if lr_source_ref l = node then lr_target_scope l else lr_source_scope l) scopes)
                  (any_of (Some (lr_asserter_scope l)) scopes))
       (event_links d))"

definition unresolved_entries :: "db \<Rightarrow> string list \<Rightarrow> string \<Rightarrow> frontier_entry list" where
  "unresolved_entries d scopes root =
     map (\<lambda>l. \<lparr>fe_source_node = lr_source_ref l, fe_relation = lr_relation l,
               fe_next_ref = lr_target_ref l, fe_stop = Unresolved\<rparr>)
       (filter (\<lambda>l. \<not> lr_resolved l \<and> (lr_source_ref l = root \<or> lr_target_ref l = root) \<and>
          (case find_event d (lr_asserted_by l) of Some r \<Rightarrow> in_scope scopes r | None \<Rightarrow> False))
         (event_links d))"

record truncation =
  tr_nodes :: nat
  tr_worst_node :: string
  tr_worst_leaves :: nat
  tr_per_node :: nat
  tr_scope_pairs_dropped :: nat

definition worst :: "(nat \<times> string) list \<Rightarrow> nat \<times> string" where
  "worst saturating =
     (let most = Max (set (map fst saturating))
      in (most, Min (set (map snd (filter (\<lambda>(n, _). n = most) saturating)))))"

definition truncation_report :: "(nat \<times> string) list \<Rightarrow> nat \<Rightarrow> truncation option" where
  "truncation_report saturating dropped =
     (if saturating = [] \<and> dropped = 0 then None
      else (case (if saturating = [] then (0, []) else worst saturating) of
              (n, node) \<Rightarrow>
                Some \<lparr>tr_nodes = length saturating, tr_worst_node = node, tr_worst_leaves = n,
                      tr_per_node = CANDIDATE_PER_NODE, tr_scope_pairs_dropped = dropped\<rparr>))"

record neighborhood =
  nb_records :: "retrieved list"
  nb_frontier :: "frontier_entry list"
  nb_unresolved :: "frontier_entry list"
  nb_withheld :: nat
  nb_truncation :: "truncation option"

definition exec_neighborhood ::
    "(string \<Rightarrow> string) \<Rightarrow> db \<Rightarrow> string \<Rightarrow> int \<Rightarrow> query_class \<Rightarrow> string list \<Rightarrow> neighborhood result" where
  "exec_neighborhood nt d root depth_cap qc scopes =
     (case scope_pairs scopes of (pairs, dropped) \<Rightarrow>
        bind_result
          (walk_queue
             \<lparr>we_root = root, we_depth_cap = depth_cap, we_row_cap = qc_budget qc,
              we_class_id = qc_class_id qc, we_summary = summary_of nt d,
              we_standing = told_standing d\<rparr>
             (\<lambda>node. candidate_edges d node pairs CANDIDATE_PER_NODE) (withheld_at d scopes) (walk_from root))
          (\<lambda>s. Inr \<lparr>nb_records = ws_out s, nb_frontier = ws_frontier s,
                    nb_unresolved = unresolved_entries d scopes root, nb_withheld = ws_withheld s,
                    nb_truncation = truncation_report (ws_saturating s) dropped\<rparr>))"

section \<open>What the order keeps\<close>

lemma interleave_set [simp]: "set (interleave xs ys) = set xs \<union> set ys"
  by (induction xs ys rule: interleave.induct) auto

lemma sort_desc_set [simp]: "set (sort_desc k xs) = set xs"
  by (simp add: sort_desc_def)

lemma group_one: "group_of r = 1 \<longleftrightarrow> r = Supports \<or> r = Contradicts"
  by (cases r) simp_all

lemma expansion_order_set [simp]: "set (expansion_order cs) = drop_leaf ` set cs"
proof -
  have "group_of r < 1 \<or> r = Supports \<or> r = Contradicts \<or> 1 < group_of r" for r
    using group_one [of r] by linarith
  then have every: "group_of (cn_relation c) < 1 \<or> cn_relation c = Supports \<or> cn_relation c = Contradicts \<or>
      1 < group_of (cn_relation c)" for c :: candidate .
  have "{c \<in> S. group_of (cn_relation c) < 1} \<union> ({c \<in> S. cn_relation c = Supports} \<union>
      {c \<in> S. cn_relation c = Contradicts}) \<union> {c \<in> S. 1 < group_of (cn_relation c)} = S" for S :: "candidate set"
  proof (intro set_eqI)
    fix c show "c \<in> {c \<in> S. group_of (cn_relation c) < 1} \<union> ({c \<in> S. cn_relation c = Supports} \<union>
      {c \<in> S. cn_relation c = Contradicts}) \<union> {c \<in> S. 1 < group_of (cn_relation c)} \<longleftrightarrow> c \<in> S"
      using every [of c] by blast
  qed
  from this [of "drop_leaf ` set cs"] show ?thesis by (simp add: expansion_order_def Let_def Un_assoc)
qed

lemma drop_leaf_simps [simp]:
  "cn_other (drop_leaf c) = cn_other c" "cn_relation (drop_leaf c) = cn_relation c" "cn_dir (drop_leaf c) = cn_dir c"
  by (simp_all add: drop_leaf_def)

section \<open>Where the walk goes\<close>

text \<open>The nodes that \<open>k\<close> candidate edges lead to.\<close>

inductive within_steps :: "(string \<Rightarrow> candidate list \<times> nat) \<Rightarrow> string \<Rightarrow> nat \<Rightarrow> string \<Rightarrow> bool"
  for edges :: "string \<Rightarrow> candidate list \<times> nat" and root :: string where
  start: "within_steps edges root 0 root"
| step: "within_steps edges root k n \<Longrightarrow> c \<in> set (fst (edges n)) \<Longrightarrow> within_steps edges root (Suc k) (cn_other c)"

text \<open>Something was cut: a stop other than a cycle is stated, or a node had more candidates than read.\<close>

definition cut :: "walk_state \<Rightarrow> bool" where
  "cut s \<longleftrightarrow> (\<exists>f \<in> set (ws_frontier s). fe_stop f \<noteq> Cycle) \<or> ws_saturating s \<noteq> []"

definition settled :: "(string \<Rightarrow> candidate list \<times> nat) \<Rightarrow> string \<Rightarrow> walk_state \<Rightarrow> bool" where
  "settled edges n s \<longleftrightarrow>
     cut s \<or> snd (edges n) = 0 \<and> (\<forall>c \<in> set (fst (edges n)). cn_other c \<in> set (ws_visited s))"

definition walk_ok :: "walk_env \<Rightarrow> (string \<Rightarrow> candidate list \<times> nat) \<Rightarrow> walk_state \<Rightarrow> bool" where
  "walk_ok v edges s \<longleftrightarrow>
     ws_visited s = we_root v # map rc_ref (ws_out s) \<and> distinct (ws_visited s) \<and>
     int (length (ws_out s)) \<le> max 0 (we_row_cap v) \<and>
     (\<forall>(n, depth, path) \<in> set (ws_queue s). n \<in> set (ws_visited s) \<and>
        (\<exists>k. depth = int k \<and> within_steps edges (we_root v) k n)) \<and>
     (\<forall>r \<in> set (ws_out s). \<exists>k. 0 < k \<and> int k \<le> we_depth_cap v \<and> within_steps edges (we_root v) k (rc_ref r))"

lemma ball_subset: "\<forall>x \<in> A. P x \<Longrightarrow> B \<subseteq> A \<Longrightarrow> \<forall>x \<in> B. P x"
  by blast

lemma walk_ok_frame:
  assumes "walk_ok v edges s" "ws_visited s' = ws_visited s" "ws_out s' = ws_out s"
    and "set (ws_queue s') \<subseteq> set (ws_queue s)"
  shows "walk_ok v edges s'"
proof -
  note ok = assms(1) [unfolded walk_ok_def]
  from ok obtain "ws_visited s = we_root v # map rc_ref (ws_out s)" "distinct (ws_visited s)"
    "int (length (ws_out s)) \<le> max 0 (we_row_cap v)"
    and queue: "\<forall>(n, depth, path) \<in> set (ws_queue s). n \<in> set (ws_visited s) \<and>
        (\<exists>k. depth = int k \<and> within_steps edges (we_root v) k n)"
    and "\<forall>r \<in> set (ws_out s). \<exists>k. 0 < k \<and> int k \<le> we_depth_cap v \<and> within_steps edges (we_root v) k (rc_ref r)"
    by (elim conjE) (rule that)
  with ball_subset [OF queue assms(4)] show ?thesis unfolding walk_ok_def assms(2,3) by (intro conjI)
qed

lemma take_edge_grows:
  assumes "take_edge v node depth path c s = Inr s'"
  shows "set (ws_visited s) \<subseteq> set (ws_visited s')" and "set (ws_queue s) \<subseteq> set (ws_queue s')"
    and "ws_saturating s' = ws_saturating s" and "cut s \<Longrightarrow> cut s'"
    and "cut s' \<or> cn_other c \<in> set (ws_visited s')"
    and "set (ws_visited s') \<subseteq> set (ws_visited s) \<union> fst ` set (ws_queue s')"
  using assms
  by (auto simp: take_edge_def stop_at_def cut_def Let_def bind_result_def split: if_splits sum.splits)

lemma take_edges_grow:
  assumes "take_edges v node depth path cs s = Inr s'"
  shows "set (ws_visited s) \<subseteq> set (ws_visited s') \<and> set (ws_queue s) \<subseteq> set (ws_queue s') \<and>
    ws_saturating s' = ws_saturating s \<and> (cut s \<longrightarrow> cut s') \<and>
    (cut s' \<or> cn_other ` set cs \<subseteq> set (ws_visited s')) \<and>
    set (ws_visited s') \<subseteq> set (ws_visited s) \<union> fst ` set (ws_queue s')"
  using assms
proof (induction cs arbitrary: s)
  case (Cons c cs)
  from Cons.prems obtain s1 where one: "take_edge v node depth path c s = Inr s1"
    and rest: "take_edges v node depth path cs s1 = Inr s'" by (auto simp: bind_result_def split: sum.splits)
  note A = take_edge_grows [OF one]
  from Cons.IH [OF rest] have B: "set (ws_visited s1) \<subseteq> set (ws_visited s')"
    "set (ws_queue s1) \<subseteq> set (ws_queue s')" "ws_saturating s' = ws_saturating s1" "cut s1 \<Longrightarrow> cut s'"
    "cut s' \<or> cn_other ` set cs \<subseteq> set (ws_visited s')"
    "set (ws_visited s') \<subseteq> set (ws_visited s1) \<union> fst ` set (ws_queue s')" by (elim conjE, simp)+
  have "fst ` set (ws_queue s1) \<subseteq> fst ` set (ws_queue s')" using B(2) by (rule image_mono)
  then have "set (ws_visited s') \<subseteq> set (ws_visited s) \<union> fst ` set (ws_queue s')" using A(6) B(6) by blast
  moreover have "cut s' \<or> cn_other ` set (c # cs) \<subseteq> set (ws_visited s')"
    using A(5) B(1,4,5) by auto
  moreover have "set (ws_visited s) \<subseteq> set (ws_visited s')" "set (ws_queue s) \<subseteq> set (ws_queue s')"
    using A(1,2) B(1,2) by (blast dest: subsetD)+
  ultimately show ?case using A(3,4) B(3,4) by simp
qed simp

lemma take_edge_ok:
  assumes "walk_ok v edges s" "take_edge v node (int k) path c s = Inr s'"
    and "within_steps edges (we_root v) k node" "c' \<in> set (fst (edges node))" "cn_other c' = cn_other c"
  shows "walk_ok v edges s'"
proof -
  have there: "within_steps edges (we_root v) (Suc k) (cn_other c)"
    using within_steps.step [OF assms(3,4)] assms(5) by simp
  show ?thesis
  proof (cases "cn_other c \<in> set (ws_visited s) \<or> we_depth_cap v < int k + 1 \<or> we_row_cap v \<le> int (length (ws_out s))")
    case True
    then obtain reason where "s' = stop_at node c reason s"
      using assms(2) by (auto simp: take_edge_def split: if_splits)
    then show ?thesis using walk_ok_frame [OF assms(1), of s'] by (simp add: stop_at_def)
  next
    case False
    with assms(2) obtain r path' where s': "ws_visited s' = ws_visited s @ [cn_other c]"
      "ws_out s' = ws_out s @ [r]" "rc_ref r = cn_other c"
      "ws_queue s' = ws_queue s @ [(cn_other c, int k + 1, path')]"
      by (auto simp: take_edge_def Let_def bind_result_def split: sum.splits)
    have "\<exists>j. 0 < j \<and> int j \<le> we_depth_cap v \<and> within_steps edges (we_root v) j (rc_ref r)"
      using there False s'(3) by (intro exI [of _ "Suc k"]) auto
    moreover have "\<exists>j. int k + 1 = int j \<and> within_steps edges (we_root v) j (cn_other c)"
      using there by (intro exI [of _ "Suc k"]) auto
    ultimately show ?thesis using assms(1) False s' unfolding walk_ok_def by auto
  qed
qed

lemma take_edges_ok:
  assumes "walk_ok v edges s" "take_edges v node (int k) path cs s = Inr s'"
    and "within_steps edges (we_root v) k node" "cn_other ` set cs \<subseteq> cn_other ` set (fst (edges node))"
  shows "walk_ok v edges s'"
  using assms
proof (induction cs arbitrary: s)
  case (Cons c cs)
  from Cons.prems(2) obtain s1 where one: "take_edge v node (int k) path c s = Inr s1"
    and rest: "take_edges v node (int k) path cs s1 = Inr s'" by (auto simp: bind_result_def split: sum.splits)
  from Cons.prems(4) obtain c' where "c' \<in> set (fst (edges node))" "cn_other c' = cn_other c" by auto
  from take_edge_ok [OF Cons.prems(1) one Cons.prems(3) this] rest Cons.prems(3,4) Cons.IH show ?case by simp
qed simp

text \<open>One expansion keeps both, and settles its node.\<close>

lemma expand_node_ok:
  assumes "walk_ok v edges s" "ws_queue s = (node, depth, path) # rest"
    and "expand_node v edges hidden node depth path (s\<lparr>ws_queue := rest\<rparr>) = Inr s'"
    and "\<forall>n \<in> set (ws_visited s). n \<in> fst ` set (ws_queue s) \<or> settled edges n s"
  shows "walk_ok v edges s'"
    and "\<forall>n \<in> set (ws_visited s'). n \<in> fst ` set (ws_queue s') \<or> settled edges n s'"
proof -
  obtain cs saturated where e: "edges node = (cs, saturated)" by fastforce
  define s0 where "s0 = s\<lparr>ws_queue := rest,
      ws_saturating := ws_saturating s @ (if 0 < saturated then [(saturated, node)] else []),
      ws_withheld := ws_withheld s + hidden node\<rparr>"
  have run: "take_edges v node depth path (expansion_order cs) s0 = Inr s'"
    using assms(3) by (simp add: expand_node_def e s0_def)
  from assms(1,2) obtain k where k: "depth = int k" "within_steps edges (we_root v) k node"
    by (auto simp: walk_ok_def)
  have start: "walk_ok v edges s0" by (rule walk_ok_frame [OF assms(1)]) (use assms(2) in \<open>auto simp: s0_def\<close>)
  have others: "cn_other ` set (expansion_order cs) \<subseteq> cn_other ` set (fst (edges node))" by (simp add: e image_image)
  show "walk_ok v edges s'" by (rule take_edges_ok [OF start run [unfolded k(1)] k(2) others])
  from take_edges_grow [OF run] have G: "set (ws_visited s) \<subseteq> set (ws_visited s')"
    "set rest \<subseteq> set (ws_queue s')" "cut s0 \<Longrightarrow> cut s'"
    "cut s' \<or> cn_other ` set (expansion_order cs) \<subseteq> set (ws_visited s')"
    "set (ws_visited s') \<subseteq> set (ws_visited s) \<union> fst ` set (ws_queue s')"
    "ws_saturating s' = ws_saturating s0"
    by (elim conjE, simp add: s0_def)+
  show "\<forall>n \<in> set (ws_visited s'). n \<in> fst ` set (ws_queue s') \<or> settled edges n s'"
  proof
    fix n assume n: "n \<in> set (ws_visited s')"
    have "cn_other ` set (expansion_order cs) = cn_other ` set cs" by (simp add: image_image)
    with G(4) have here: "cut s' \<or> (\<forall>c \<in> set cs. cn_other c \<in> set (ws_visited s'))" by auto
    have sat: "0 < saturated \<Longrightarrow> cut s'" using G(6) by (auto simp: s0_def cut_def)
    show "n \<in> fst ` set (ws_queue s') \<or> settled edges n s'"
    proof (cases "n = node")
      case True
      with here sat show ?thesis by (auto simp: settled_def e)
    next
      case False
      show ?thesis
      proof (cases "n \<in> set (ws_visited s)")
        case True
        with assms(2,4) False consider "n \<in> fst ` set rest" | "settled edges n s" by auto
        then show ?thesis
        proof cases
          case 1
          then show ?thesis using image_mono [OF G(2), of fst] by blast
        next
          case 2
          moreover have "cut s \<Longrightarrow> cut s'" by (rule G(3)) (auto simp: s0_def cut_def)
          moreover note G(1)
          ultimately have "settled edges n s'" by (auto simp: settled_def)
          then show ?thesis ..
        qed
      next
        case False
        with G(5) n have "n \<in> fst ` set (ws_queue s')" by blast
        then show ?thesis ..
      qed
    qed
  qed
qed

lemma walk_queue_ok:
  assumes "walk_queue v edges hidden s = Inr s'" "walk_ok v edges s"
    and "\<forall>n \<in> set (ws_visited s). n \<in> fst ` set (ws_queue s) \<or> settled edges n s"
  shows "walk_ok v edges s' \<and> (\<forall>n \<in> set (ws_visited s'). settled edges n s')"
  using assms
proof (induction v edges hidden s rule: walk_queue.induct)
  case (1 v edges hidden s)
  show ?case
  proof (cases "ws_queue s")
    case Nil
    with 1(2-) show ?thesis by (auto simp: walk_queue.simps)
  next
    case (Cons x rest)
    obtain node depth path where x: "x = (node, depth, path)" by (cases x)
    from 1(2) Cons x obtain s1 where e: "expand_node v edges hidden node depth path (s\<lparr>ws_queue := rest\<rparr>) = Inr s1"
      and run: "walk_queue v edges hidden s1 = Inr s'"
      by (auto simp: walk_queue.simps [of v edges hidden s] split: sum.splits)
    note ok = expand_node_ok [OF 1(3) Cons [unfolded x] e 1(4)]
    from 1(1) [OF Cons x [symmetric] refl e run ok] show ?thesis .
  qed
qed

lemma walk_from_ok:
  "walk_ok v edges (walk_from (we_root v)) \<and>
   (\<forall>n \<in> set (ws_visited (walk_from (we_root v))).
      n \<in> fst ` set (ws_queue (walk_from (we_root v))) \<or> settled edges n (walk_from (we_root v)))"
proof
  have "\<exists>k. (0::int) = int k \<and> within_steps edges (we_root v) k (we_root v)"
    using within_steps.start by (intro exI [of _ "0::nat"]) simp
  then show "walk_ok v edges (walk_from (we_root v))" by (simp add: walk_ok_def walk_from_def)
qed (simp add: walk_from_def)

section \<open>The visible component\<close>

text \<open>What a viewer of \<open>scopes\<close> holds, and the steps along rows with both scopes in it.\<close>

abbreviation held_scopes :: "string list \<Rightarrow> string set" where
  "held_scopes scopes \<equiv> insert PUBLIC_SCOPE (set scopes)"

definition visible_step :: "db \<Rightarrow> string list \<Rightarrow> string \<Rightarrow> string \<Rightarrow> bool" where
  "visible_step d scopes n m \<longleftrightarrow>
     (\<exists>l \<in> set (event_links d). lr_resolved l \<and> lr_asserter_scope l \<in> held_scopes scopes \<and>
        (lr_source_ref l = n \<and> lr_target_ref l = m \<and> lr_target_scope l \<in> Some ` held_scopes scopes \<or>
         lr_target_ref l = n \<and> lr_source_ref l = m \<and> lr_source_scope l \<in> Some ` held_scopes scopes))"

definition viewer_sees :: "string list \<Rightarrow> link_row \<Rightarrow> bool" where
  "viewer_sees scopes l \<longleftrightarrow>
     lr_resolved l \<and> lr_asserter_scope l \<in> held_scopes scopes \<and>
     (lr_target_scope l \<in> Some ` held_scopes scopes \<or> lr_source_scope l \<in> Some ` held_scopes scopes)"

lemma pairs_held:
  assumes "scope_pairs scopes = (pairs, dropped)" "(s, a) \<in> set pairs"
  shows "s \<in> held_scopes scopes" "a \<in> held_scopes scopes"
  using assms(2) set_take_subset [of MAX_VIEWER_SCOPES "every_scope scopes"]
  unfolding scope_pairs_facts(1) [OF assms(1)] every_scope_facts(1) by auto

lemma pairs_all:
  assumes "scope_pairs scopes = (pairs, 0)" "s \<in> held_scopes scopes" "a \<in> held_scopes scopes"
  shows "(s, a) \<in> set pairs"
proof -
  have "card ((held_scopes scopes \<times> held_scopes scopes) - set pairs) = 0"
    using scope_pairs_facts(4) [OF assms(1)] by simp
  then have "held_scopes scopes \<times> held_scopes scopes \<subseteq> set pairs" by (simp add: card_eq_0_iff)
  with assms(2,3) show ?thesis by blast
qed

lemma pair_visible_step:
  assumes "scope_pairs scopes = (pairs, dropped)" "l \<in> set (event_links d)" "pr \<in> set pairs"
    and "pair_visible n dir pr l"
  shows "visible_step d scopes n (link_other dir l)"
proof -
  obtain s a where pr: "pr = (s, a)" by fastforce
  from pairs_held [OF assms(1) assms(3) [unfolded pr]] have "s \<in> held_scopes scopes" "a \<in> held_scopes scopes" .
  with assms(2,4) pr show ?thesis by (cases dir) (auto simp: visible_step_def pair_visible_def)
qed

lemma visible_step_pair:
  assumes "scope_pairs scopes = (pairs, 0)" "visible_step d scopes n m"
  obtains l dir pr where "l \<in> set (event_links d)" "pr \<in> set pairs" "pair_visible n dir pr l" "m = link_other dir l"
proof -
  from assms(2) obtain l where l: "l \<in> set (event_links d)" "lr_resolved l" "lr_asserter_scope l \<in> held_scopes scopes"
    "lr_source_ref l = n \<and> lr_target_ref l = m \<and> lr_target_scope l \<in> Some ` held_scopes scopes \<or>
     lr_target_ref l = n \<and> lr_source_ref l = m \<and> lr_source_scope l \<in> Some ` held_scopes scopes"
    by (auto simp: visible_step_def)
  define dir where "dir = (if lr_source_ref l = n \<and> lr_target_ref l = m \<and>
      lr_target_scope l \<in> Some ` held_scopes scopes then Out_edge else In_edge)"
  from l(4) have at: "link_key dir l = n" "link_other dir l = m" "other_scope dir l \<in> Some ` held_scopes scopes"
    by (simp_all add: dir_def split: if_split) blast+
  then obtain s where s: "other_scope dir l = Some s" "s \<in> held_scopes scopes" by blast
  from pairs_all [OF assms(1) s(2) l(3)] have "(s, lr_asserter_scope l) \<in> set pairs" .
  moreover have "pair_visible n dir (s, lr_asserter_scope l) l" using l(2) at(1) s(1) by (simp add: pair_visible_def)
  ultimately show thesis using that l(1) at(2) by blast
qed

lemma edge_visible_sees:
  assumes "scope_pairs scopes = (pairs, dropped)" "edge_visible pairs l"
  shows "viewer_sees scopes l"
proof -
  from assms(2) obtain dir s where "lr_resolved l" "other_scope dir l = Some s" "(s, lr_asserter_scope l) \<in> set pairs"
    unfolding edge_visible_def by blast
  moreover from pairs_held [OF assms(1) this(3)] have "s \<in> held_scopes scopes" "lr_asserter_scope l \<in> held_scopes scopes" .
  ultimately show ?thesis by (cases dir) (auto simp: viewer_sees_def)
qed

lemma walk_steps:
  assumes "within_steps (\<lambda>node. candidate_edges d node pairs n) root k m" "scope_pairs scopes = (pairs, dropped)"
  shows "(visible_step d scopes ^^ k) root m"
  using assms(1)
proof induction
  case (step k node c)
  from candidates_sound [OF step.hyps(2)] obtain l pr where
    l: "l \<in> set (event_links d)" "pr \<in> set pairs" "pair_visible node (cn_dir c) pr l"
    and c: "c = link_candidate (cn_dir c) (cn_leaf c) l" by blast
  from c have "cn_other c = link_other (cn_dir c) l" by (metis link_candidate_simps(2))
  with pair_visible_step [OF assms(2) l] have "visible_step d scopes node (cn_other c)" by simp
  with step.IH show ?case by auto
qed simp

section \<open>The neighbourhood\<close>

lemma neighborhood_walk:
  assumes "exec_neighborhood nt d root depth_cap qc scopes = Inr nb" "scope_pairs scopes = (pairs, dropped)"
  obtains s v where "we_root v = root" "we_depth_cap v = depth_cap" "we_row_cap v = qc_budget qc"
    "walk_ok v (\<lambda>node. candidate_edges d node pairs CANDIDATE_PER_NODE) s"
    "\<forall>n \<in> set (ws_visited s). settled (\<lambda>node. candidate_edges d node pairs CANDIDATE_PER_NODE) n s"
    "nb_records nb = ws_out s" "nb_frontier nb = ws_frontier s"
    "nb_truncation nb = truncation_report (ws_saturating s) dropped"
proof -
  define v where "v = \<lparr>we_root = root, we_depth_cap = depth_cap, we_row_cap = qc_budget qc,
      we_class_id = qc_class_id qc, we_summary = summary_of nt d, we_standing = told_standing d\<rparr>"
  have root: "we_root v = root" by (simp add: v_def)
  from assms obtain s where run: "walk_queue v (\<lambda>node. candidate_edges d node pairs CANDIDATE_PER_NODE)
      (withheld_at d scopes) (walk_from (we_root v)) = Inr s"
    and nb: "nb = \<lparr>nb_records = ws_out s, nb_frontier = ws_frontier s,
        nb_unresolved = unresolved_entries d scopes root, nb_withheld = ws_withheld s,
        nb_truncation = truncation_report (ws_saturating s) dropped\<rparr>"
    by (auto simp: exec_neighborhood_def v_def bind_result_def split: sum.splits)
  note ok = walk_queue_ok [OF run conjunct1 [OF walk_from_ok] conjunct2 [OF walk_from_ok]]
  show thesis
    by (rule that [of v s]) (use ok nb in \<open>simp_all add: v_def\<close>)
qed

lemma neighborhood_bounded:
  assumes "exec_neighborhood nt d root depth_cap qc scopes = Inr nb"
  shows "distinct (root # map rc_ref (nb_records nb))"
    and "int (length (nb_records nb)) \<le> max 0 (qc_budget qc)"
    and "r \<in> set (nb_records nb) \<Longrightarrow>
      \<exists>k. 0 < k \<and> int k \<le> depth_cap \<and> (visible_step d scopes ^^ k) root (rc_ref r)"
proof -
  obtain pairs dropped where p: "scope_pairs scopes = (pairs, dropped)" by fastforce
  obtain s v where v: "we_root v = root" "we_depth_cap v = depth_cap" "we_row_cap v = qc_budget qc"
    and ok: "walk_ok v (\<lambda>node. candidate_edges d node pairs CANDIDATE_PER_NODE) s" and nb: "nb_records nb = ws_out s"
    using neighborhood_walk [OF assms p] by metis
  from ok have "ws_visited s = root # map rc_ref (ws_out s)" "distinct (ws_visited s)"
    unfolding walk_ok_def v by blast+
  then show "distinct (root # map rc_ref (nb_records nb))" unfolding nb by metis
  show "int (length (nb_records nb)) \<le> max 0 (qc_budget qc)" using ok unfolding walk_ok_def v nb by blast
  show "r \<in> set (nb_records nb) \<Longrightarrow>
      \<exists>k. 0 < k \<and> int k \<le> depth_cap \<and> (visible_step d scopes ^^ k) root (rc_ref r)"
    using ok walk_steps [OF _ p] unfolding walk_ok_def v nb by blast
qed

lemma truncation_none: "truncation_report saturating dropped = None \<longleftrightarrow> saturating = [] \<and> dropped = 0"
  by (auto simp: truncation_report_def split: prod.split if_splits)

text \<open>An answer that states no cut is the whole visible component.\<close>

lemma neighborhood_complete:
  assumes "exec_neighborhood nt d root depth_cap qc scopes = Inr nb" "nb_truncation nb = None"
    and "\<forall>f \<in> set (nb_frontier nb). fe_stop f = Cycle"
  shows "rc_ref ` set (nb_records nb) = {m. (visible_step d scopes)\<^sup>*\<^sup>* root m} - {root}"
proof -
  obtain pairs dropped where p: "scope_pairs scopes = (pairs, dropped)" by fastforce
  let ?edges = "\<lambda>node. candidate_edges d node pairs CANDIDATE_PER_NODE"
  obtain s v where v: "we_root v = root" and ok: "walk_ok v ?edges s"
    and set: "\<forall>n \<in> set (ws_visited s). settled ?edges n s"
    and nb: "nb_records nb = ws_out s" "nb_frontier nb = ws_frontier s"
      "nb_truncation nb = truncation_report (ws_saturating s) dropped"
    using neighborhood_walk [OF assms(1) p] by metis
  from assms(2) nb(3) have none: "ws_saturating s = []" "dropped = 0" by (simp_all add: truncation_none)
  then have uncut: "\<not> cut s" using assms(3) nb(2) by (simp add: cut_def)
  have visited: "set (ws_visited s) = insert root (rc_ref ` set (nb_records nb))"
    and distinct: "root \<notin> rc_ref ` set (nb_records nb)"
    using ok v nb(1) by (auto simp: walk_ok_def)
  have closed: "m \<in> set (ws_visited s)" if n: "n \<in> set (ws_visited s)" and step: "visible_step d scopes n m" for n m
  proof -
    from set n uncut have s: "snd (?edges n) = 0" "\<forall>c \<in> set (fst (?edges n)). cn_other c \<in> set (ws_visited s)"
      by (auto simp: settled_def)
    obtain l dir pr where l: "l \<in> set (event_links d)" "pr \<in> set pairs" "pair_visible n dir pr l" "m = link_other dir l"
      by (rule visible_step_pair [OF p [unfolded none(2)] step])
    have "0 < CANDIDATE_PER_NODE" by (simp add: CANDIDATE_PER_NODE_def)
    from candidates_complete [OF s(1) this l(1-3)] s(2) l(4) show ?thesis by auto
  qed
  have "m \<in> set (ws_visited s)" if "(visible_step d scopes)\<^sup>*\<^sup>* root m" for m
    using that
  proof induction
    case base
    show ?case by (simp add: visited)
  qed (rule closed)
  moreover have "(visible_step d scopes)\<^sup>*\<^sup>* root (rc_ref r)" if "r \<in> set (nb_records nb)" for r
    using neighborhood_bounded(3) [OF assms(1) that] by (blast intro: relpowp_imp_rtranclp)
  ultimately show ?thesis using visited distinct by auto
qed

section \<open>What is not seen has no part\<close>

abbreviation no_count :: "walk_state \<Rightarrow> walk_state" where
  "no_count s \<equiv> s\<lparr>ws_withheld := 0\<rparr>"

definition same_told :: "walk_env \<Rightarrow> walk_env \<Rightarrow> string \<Rightarrow> bool" where
  "same_told v v' m \<longleftrightarrow> we_summary v m = we_summary v' m \<and> we_standing v m = we_standing v' m"

definition same_caps :: "walk_env \<Rightarrow> walk_env \<Rightarrow> bool" where
  "same_caps v v' \<longleftrightarrow> we_root v = we_root v' \<and> we_depth_cap v = we_depth_cap v' \<and>
     we_row_cap v = we_row_cap v' \<and> we_class_id v = we_class_id v'"

lemma take_edge_count:
  assumes "same_caps v v'" "same_told v v' (cn_other c)" "no_count s = no_count s'"
  shows "map_sum id no_count (take_edge v node depth path c s) = map_sum id no_count (take_edge v' node depth path c s')"
proof -
  have s': "s' = s\<lparr>ws_withheld := ws_withheld s'\<rparr>"
    using assms(3) by (cases s; cases s') simp
  have "map_sum id no_count (take_edge v node depth path c s) =
      map_sum id no_count (take_edge v' node depth path c (s\<lparr>ws_withheld := w\<rparr>))" for w
    using assms(1,2)
    by (auto simp: take_edge_def stop_at_def same_caps_def same_told_def Let_def bind_result_def split: sum.split)
  with s' show ?thesis by metis
qed

lemma take_edges_count:
  assumes "same_caps v v'" "\<forall>c \<in> set cs. same_told v v' (cn_other c)" "no_count s = no_count s'"
  shows "map_sum id no_count (take_edges v node depth path cs s) = map_sum id no_count (take_edges v' node depth path cs s')"
  using assms(2,3)
proof (induction cs arbitrary: s s')
  case (Cons c cs)
  have one: "map_sum id no_count (take_edge v node depth path c s) = map_sum id no_count (take_edge v' node depth path c s')"
    using take_edge_count [OF assms(1)] Cons.prems by simp
  show ?case
  proof (cases "take_edge v node depth path c s")
    case (Inl e)
    with one have "take_edge v' node depth path c s' = Inl e" by (cases "take_edge v' node depth path c s'") auto
    with Inl show ?thesis by (simp add: bind_result_def)
  next
    case (Inr t)
    with one obtain t' where t': "take_edge v' node depth path c s' = Inr t'" "no_count t = no_count t'"
      by (cases "take_edge v' node depth path c s'") auto
    have "\<forall>c \<in> set cs. same_told v v' (cn_other c)" using Cons.prems(1) by simp
    from Cons.IH [OF this t'(2)] Inr t'(1) show ?thesis by (simp add: bind_result_def)
  qed
qed simp

lemma walk_count:
  assumes "same_caps v v'" "\<forall>node. \<forall>c \<in> set (fst (edges node)). same_told v v' (cn_other c)"
    and "no_count s = no_count s'"
  shows "map_sum id no_count (walk_queue v edges hidden s) = map_sum id no_count (walk_queue v' edges hidden' s')"
  using assms
proof (induction v edges hidden s arbitrary: s' rule: walk_queue.induct)
  case (1 v edges hidden s)
  have q: "ws_queue s' = ws_queue s" using 1(4) by (cases s; cases s') simp
  show ?case
  proof (cases "ws_queue s")
    case Nil
    with q 1(4) show ?thesis by (simp add: walk_queue.simps)
  next
    case (Cons x rest)
    obtain node depth path where x: "x = (node, depth, path)" by (cases x)
    obtain cs saturated where e: "edges node = (cs, saturated)" by fastforce
    have told: "\<forall>c \<in> set (expansion_order cs). same_told v v' (cn_other c)"
      using 1(3) [rule_format, of _ node] e by auto
    let ?sat = "if 0 < saturated then [(saturated, node)] else []"
    have "no_count (s\<lparr>ws_queue := rest, ws_saturating := ws_saturating s @ ?sat, ws_withheld := ws_withheld s + hidden node\<rparr>) =
        no_count (s'\<lparr>ws_queue := rest, ws_saturating := ws_saturating s' @ ?sat, ws_withheld := ws_withheld s' + hidden' node\<rparr>)"
      using 1(4) by (cases s; cases s') simp
    from take_edges_count [OF 1(2) told this]
    have one: "map_sum id no_count (expand_node v edges hidden node depth path (s\<lparr>ws_queue := rest\<rparr>)) =
        map_sum id no_count (expand_node v' edges hidden' node depth path (s'\<lparr>ws_queue := rest\<rparr>))"
      by (simp add: expand_node_def e)
    show ?thesis
    proof (cases "expand_node v edges hidden node depth path (s\<lparr>ws_queue := rest\<rparr>)")
      case (Inl err)
      with one have "expand_node v' edges hidden' node depth path (s'\<lparr>ws_queue := rest\<rparr>) = Inl err"
        by (cases "expand_node v' edges hidden' node depth path (s'\<lparr>ws_queue := rest\<rparr>)") auto
      with Inl Cons x q show ?thesis by (simp add: walk_queue.simps)
    next
      case (Inr t)
      with one obtain t' where t': "expand_node v' edges hidden' node depth path (s'\<lparr>ws_queue := rest\<rparr>) = Inr t'"
        "no_count t = no_count t'"
        by (cases "expand_node v' edges hidden' node depth path (s'\<lparr>ws_queue := rest\<rparr>)") auto
      from 1(1) [OF Cons x [symmetric] refl Inr 1(2,3) t'(2)] Inr t'(1) Cons x q show ?thesis
        by (simp add: walk_queue.simps [of v _ hidden] walk_queue.simps [of v' _ hidden'])
    qed
  qed
qed

text \<open>
  Two stores that hold the same rows visible to the viewer, and say the same of their endpoints, give
  the same answer: invisible rows move the count withheld and nothing else.
\<close>

lemma neighborhood_blind:
  assumes rows: "filter (viewer_sees scopes) (event_links d) = filter (viewer_sees scopes) (event_links d')"
    and "unresolved_entries d scopes root = unresolved_entries d' scopes root"
    and told: "\<forall>l \<in> set (event_links d). viewer_sees scopes l \<longrightarrow> (\<forall>m \<in> {lr_source_ref l, lr_target_ref l}.
      summary_of nt d m = summary_of nt d' m \<and> told_standing d m = told_standing d' m)"
  shows "map_sum id (\<lambda>nb. nb\<lparr>nb_withheld := 0\<rparr>) (exec_neighborhood nt d root depth_cap qc scopes) =
    map_sum id (\<lambda>nb. nb\<lparr>nb_withheld := 0\<rparr>) (exec_neighborhood nt d' root depth_cap qc scopes)"
proof -
  obtain pairs dropped where p: "scope_pairs scopes = (pairs, dropped)" by fastforce
  define env where "env d = \<lparr>we_root = root, we_depth_cap = depth_cap, we_row_cap = qc_budget qc,
      we_class_id = qc_class_id qc, we_summary = summary_of nt d, we_standing = told_standing d\<rparr>" for d
  let ?edges = "\<lambda>d node. candidate_edges d node pairs CANDIDATE_PER_NODE"
  have "filter (edge_visible pairs) ls = filter (edge_visible pairs) (filter (viewer_sees scopes) ls)" for ls
    unfolding filter_filter by (rule filter_cong [OF refl]) (use edge_visible_sees [OF p] in blast)
  with rows have "filter (edge_visible pairs) (event_links d) = filter (edge_visible pairs) (event_links d')" by metis
  from candidates_visible_only [OF this] have edges: "?edges d' = ?edges d" by auto
  have "same_told (env d) (env d') (cn_other c)" if c: "c \<in> set (fst (?edges d node))" for c node
  proof -
    from candidates_sound [OF c] obtain l pr where l: "l \<in> set (event_links d)" "pr \<in> set pairs"
      "pair_visible node (cn_dir c) pr l" and lc: "c = link_candidate (cn_dir c) (cn_leaf c) l" by blast
    have sees: "viewer_sees scopes l" using edge_visible_sees [OF p pair_visible_edge [OF l(3,2)]] .
    from lc have "cn_other c = link_other (cn_dir c) l" by (metis link_candidate_simps(2))
    then have "cn_other c \<in> {lr_source_ref l, lr_target_ref l}" by (cases "cn_dir c") simp_all
    with told l(1) sees show ?thesis by (auto simp: same_told_def env_def)
  qed
  moreover have "same_caps (env d) (env d')" by (simp add: same_caps_def env_def)
  ultimately have walks: "map_sum id no_count (walk_queue (env d) (?edges d) (withheld_at d scopes) (walk_from root)) =
      map_sum id no_count (walk_queue (env d') (?edges d') (withheld_at d' scopes) (walk_from root))"
    unfolding edges by (intro walk_count) auto
  have exec: "exec_neighborhood nt e root depth_cap qc scopes =
      bind_result (walk_queue (env e) (?edges e) (withheld_at e scopes) (walk_from root))
        (\<lambda>s. Inr \<lparr>nb_records = ws_out s, nb_frontier = ws_frontier s,
                    nb_unresolved = unresolved_entries e scopes root, nb_withheld = ws_withheld s,
                    nb_truncation = truncation_report (ws_saturating s) dropped\<rparr>)" for e
    by (simp add: exec_neighborhood_def p env_def)
  show ?thesis
  proof (cases "walk_queue (env d) (?edges d) (withheld_at d scopes) (walk_from root)")
    case (Inl err)
    with walks have "walk_queue (env d') (?edges d') (withheld_at d' scopes) (walk_from root) = Inl err"
      by (cases "walk_queue (env d') (?edges d') (withheld_at d' scopes) (walk_from root)") auto
    with Inl show ?thesis unfolding exec by (simp add: bind_result_def)
  next
    case (Inr s)
    with walks obtain t where t: "walk_queue (env d') (?edges d') (withheld_at d' scopes) (walk_from root) = Inr t"
      and same: "no_count s = no_count t"
      by (cases "walk_queue (env d') (?edges d') (withheld_at d' scopes) (walk_from root)") auto
    from same have "ws_out s = ws_out t" "ws_frontier s = ws_frontier t" "ws_saturating s = ws_saturating t"
      by (cases s; cases t; simp)+
    with Inr t assms(2) show ?thesis unfolding exec by (simp add: bind_result_def)
  qed
qed

end
