(* ===== verification/Retrieval.thy ===== *)
theory Retrieval
  imports Retrieval_Walk
begin

text \<open>
  \<^verbatim>\<open>kawa/retrieval.py\<close>: the binding of an intent to an anchor, the classes that read the anchor, its
  standing, its evidence and its precedents, and the domains of an anchor.  Texts are compared byte by
  byte.

  Shown: binding and the classes read in-scope events only; evidence keeps its budget and gives each
  side its share of it.
\<close>

section \<open>Binding\<close>

definition event_in_scope :: "db \<Rightarrow> string list \<Rightarrow> string \<Rightarrow> bool" where
  "event_in_scope d scopes eid = (case find_event d eid of Some r \<Rightarrow> in_scope scopes r | None \<Rightarrow> False)"

definition bind_anchor :: "db \<Rightarrow> string list \<Rightarrow> string \<Rightarrow> anchor_kind option" where
  "bind_anchor d scopes about =
     (if about \<in> fst ` set (event_claim d) \<and> event_in_scope d scopes about then Some Claim_anchor
      else if event_in_scope d scopes about then Some Event_anchor
      else if current_plans d about \<noteq> None \<and>
        list_ex (\<lambda>(eid, x). ep_plan_ref x = about \<and> event_in_scope d scopes eid) (event_plan d)
      then Some Plan_anchor
      else if current_work d about \<noteq> None \<and>
        list_ex (\<lambda>(eid, x). wd_work_ref x = about \<and> event_in_scope d scopes eid) (event_work d)
      then Some Work_anchor
      else None)"

definition resolve_bindings :: "db \<Rightarrow> intent \<Rightarrow> string list \<Rightarrow> bound_intent" where
  "resolve_bindings d i scopes =
     (let about = (case in_about i of Some (c # t) \<Rightarrow> Some (c # t) | _ \<Rightarrow> None);
          bound = Option.bind about (bind_anchor d scopes)
      in \<lparr>bi_intent = i, bi_anchor_kind = bound, bi_anchor_ref = (if bound = None then None else about),
          bi_unbound_text = (case in_text_terms i of Some (c # t) \<Rightarrow> Some (c # t) | _ \<Rightarrow> None)\<rparr>)"

section \<open>The anchor\<close>

text \<open>\<open>ORDER BY e.origin_node, e.origin_seq DESC\<close> over the rows whose event is in scope.\<close>

definition scoped_rows :: "db \<Rightarrow> string list \<Rightarrow> (string \<times> 'a) list \<Rightarrow> ('a \<Rightarrow> bool) \<Rightarrow> (event_row \<times> 'a) list" where
  "scoped_rows d scopes t cond =
     sort_key (\<lambda>(r, _). (origin_node r, - origin_seq r)) (joined d t (\<lambda>r x. in_scope scopes r \<and> cond x))"

definition first_row :: "(event_row \<times> 'a) list \<Rightarrow> 'a option" where
  "first_row rows = (case rows of [] \<Rightarrow> None | (r, x) # _ \<Rightarrow> Some x)"

fun execution_text :: "execution \<Rightarrow> string" where
  "execution_text Ex_ready = ''ready''"
| "execution_text Ex_blocked = ''blocked''"
| "execution_text Ex_finished = ''finished''"
| "execution_text Ex_retryable = ''retryable''"
| "execution_text Ex_result_recorded = ''result_recorded''"
| "execution_text Ex_unknown = ''unknown''"
| "execution_text Ex_retired = ''retired''"

definition anchor_record :: "query_class \<Rightarrow> string \<Rightarrow> string \<Rightarrow> string \<Rightarrow> string option \<Rightarrow> retrieved" where
  "anchor_record qc ref k summary standing =
     \<lparr>rc_ref = ref, rc_kind = k, rc_summary = summary, rc_backend = qc_backend qc, rc_class_id = qc_class_id qc,
      rc_path = ref, rc_path_truncated = False, rc_standing = standing\<rparr>"

definition exec_anchor ::
    "(string \<Rightarrow> string) \<Rightarrow> db \<Rightarrow> anchor_kind \<Rightarrow> string \<Rightarrow> query_class \<Rightarrow> string list \<Rightarrow> retrieved list result" where
  "exec_anchor nt d k ref qc scopes =
     (case k of
        Plan_anchor \<Rightarrow>
          (case current_plans d ref of
             None \<Rightarrow> Inl (TypeError ''NoneType is not subscriptable'')
           | Some row \<Rightarrow>
               (let objective = (case first_row (scoped_rows d scopes (event_plan d)
                       (\<lambda>x. ep_plan_ref x = ref \<and> ep_objective x \<noteq> None)) of
                     Some x \<Rightarrow> (case ep_objective x of Some t \<Rightarrow> t | None \<Rightarrow> []) | None \<Rightarrow> [])
                in Inr [anchor_record qc ref ''plan''
                          (''['' @ lifecycle_text (cp_lifecycle row) @ ''] '' @ objective) None]))
      | Work_anchor \<Rightarrow>
          (case current_work d ref of
             None \<Rightarrow> Inl (TypeError ''NoneType is not subscriptable'')
           | Some row \<Rightarrow>
               (let (pr, wk) = (case first_row (scoped_rows d scopes (event_work d) (\<lambda>x. wd_work_ref x = ref)) of
                     Some x \<Rightarrow> (wd_plan_ref x, wd_work_kind x) | None \<Rightarrow> ([], []))
                in Inr [anchor_record qc ref ''work''
                          (''['' @ execution_text (cw_execution row) @ ''] '' @ wk @ '' of '' @ pr) None]))
      | _ \<Rightarrow>
          bind_result (summary_of nt d ref) (\<lambda>(kd, summary).
            Inr [anchor_record qc ref kd summary (told_standing d ref)]))"

definition exec_standing :: "db \<Rightarrow> string \<Rightarrow> query_class \<Rightarrow> retrieved list" where
  "exec_standing d anchor qc =
     (case told_standing d anchor of
        None \<Rightarrow> []
      | Some standing \<Rightarrow> [anchor_record qc anchor ''claim_standing'' standing (Some standing)])"

section \<open>Evidence\<close>

text \<open>The links of one side of the evidence, with both events held.\<close>

definition evidence_links :: "db \<Rightarrow> relation \<Rightarrow> string \<Rightarrow> link_row list" where
  "evidence_links d r anchor =
     filter (\<lambda>l. lr_resolved l \<and> lr_relation l = r \<and> lr_target_ref l = anchor \<and>
         find_event d (lr_source_ref l) \<noteq> None \<and> find_event d (lr_asserted_by l) \<noteq> None) (event_links d)"

definition edge_in :: "db \<Rightarrow> string list \<Rightarrow> link_row \<Rightarrow> bool" where
  "edge_in d scopes l \<longleftrightarrow> event_in_scope d scopes (lr_source_ref l) \<and> event_in_scope d scopes (lr_asserted_by l)"

definition evidence_side :: "db \<Rightarrow> string list \<Rightarrow> string \<Rightarrow> relation \<Rightarrow> string list" where
  "evidence_side d scopes anchor r = sort (map lr_source_ref (filter (edge_in d scopes) (evidence_links d r anchor)))"

definition evidence_withheld :: "db \<Rightarrow> string list \<Rightarrow> string \<Rightarrow> nat" where
  "evidence_withheld d scopes anchor =
     length (filter (\<lambda>l. \<not> edge_in d scopes l) (evidence_links d Supports anchor)) +
     length (filter (\<lambda>l. \<not> edge_in d scopes l) (evidence_links d Contradicts anchor))"

definition interleaved_evidence :: "db \<Rightarrow> string list \<Rightarrow> string \<Rightarrow> nat \<Rightarrow> (relation \<times> string) list" where
  "interleaved_evidence d scopes anchor budget =
     take budget
       (interleave (map (Pair Supports) (take budget (evidence_side d scopes anchor Supports)))
                   (map (Pair Contradicts) (take budget (evidence_side d scopes anchor Contradicts))))"

fun map_result :: "('a \<Rightarrow> 'b result) \<Rightarrow> 'a list \<Rightarrow> 'b list result" where
  "map_result f [] = Inr []"
| "map_result f (x # xs) = bind_result (f x) (\<lambda>y. bind_result (map_result f xs) (\<lambda>ys. Inr (y # ys)))"

definition exec_evidence ::
    "(string \<Rightarrow> string) \<Rightarrow> db \<Rightarrow> string \<Rightarrow> query_class \<Rightarrow> string list \<Rightarrow> (retrieved list \<times> nat) result" where
  "exec_evidence nt d anchor qc scopes =
     bind_result
       (map_result (\<lambda>(r, src). bind_result (summary_of nt d src) (\<lambda>(k, summary).
            Inr \<lparr>rc_ref = src, rc_kind = k, rc_summary = summary, rc_backend = qc_backend qc,
                 rc_class_id = qc_class_id qc, rc_path = anchor @ '' <-'' @ relation_text r @ ''- '' @ src,
                 rc_path_truncated = False, rc_standing = told_standing d src\<rparr>))
          (interleaved_evidence d scopes anchor (nat (qc_budget qc))))
       (\<lambda>rs. Inr (rs, evidence_withheld d scopes anchor))"

section \<open>Precedents and domains\<close>

fun precedents :: "db \<Rightarrow> string list \<Rightarrow> string \<Rightarrow> query_class \<Rightarrow> string list \<Rightarrow> retrieved list \<Rightarrow> retrieved list" where
  "precedents d scopes anchor qc [] out = out"
| "precedents d scopes anchor qc (wr # wrs) out =
     (if qc_budget qc \<le> int (length out) then out
      else precedents d scopes anchor qc wrs
        (out @ map (\<lambda>(r, x). \<lparr>rc_ref = event_id r, rc_kind = ''precedent'',
              rc_summary = wr @ '': '' @ outcome_text (rr_outcome x), rc_backend = qc_backend qc,
              rc_class_id = qc_class_id qc, rc_path = anchor @ '' ~precedent~ '' @ wr,
              rc_path_truncated = False, rc_standing = None\<rparr>)
           (take (nat (qc_budget qc) - length out)
              (scoped_rows d scopes (event_result d) (\<lambda>x. rr_work_ref x = wr)))))"

definition exec_precedent :: "db \<Rightarrow> anchor_kind \<Rightarrow> string \<Rightarrow> query_class \<Rightarrow> string list \<Rightarrow> retrieved list" where
  "exec_precedent d k anchor qc scopes =
     precedents d scopes anchor qc
       (case k of
          Work_anchor \<Rightarrow> [anchor]
        | Plan_anchor \<Rightarrow> sort (remdups (map (wd_work_ref \<circ> snd) (filter (\<lambda>(_, x). wd_plan_ref x = anchor) (event_work d))))
        | _ \<Rightarrow> []) []"

definition plan_domain :: "db \<Rightarrow> string list \<Rightarrow> string \<Rightarrow> string option" where
  "plan_domain d scopes pr =
     Option.bind (first_row (scoped_rows d scopes (event_plan d) (\<lambda>x. ep_plan_ref x = pr \<and> ep_domain x \<noteq> None))) ep_domain"

text \<open>A token that is not empty.\<close>

definition token :: "string option \<Rightarrow> string option" where
  "token t = (case t of Some (c # u) \<Rightarrow> Some (c # u) | _ \<Rightarrow> None)"

definition derive_domains :: "db \<Rightarrow> anchor_kind option \<Rightarrow> string \<Rightarrow> string list \<Rightarrow> string list \<times> string" where
  "derive_domains d k ref scopes =
     (let unmapped = ([], ''UNMAPPED'') in
      case k of
        Some Work_anchor \<Rightarrow>
          (case first_row (scoped_rows d scopes (event_work d) (\<lambda>x. wd_work_ref x = ref)) of
             None \<Rightarrow> unmapped
           | Some x \<Rightarrow>
               (case token (wd_domain x) of
                  Some own \<Rightarrow> ([own], ''work.domain'')
                | None \<Rightarrow> (case token (plan_domain d scopes (wd_plan_ref x)) of
                    Some pd \<Rightarrow> ([pd], ''plan.domain (lineage)'') | None \<Rightarrow> unmapped)))
      | Some Plan_anchor \<Rightarrow>
          (case token (plan_domain d scopes ref) of
             Some pd \<Rightarrow> ([pd], ''plan.domain'')
           | None \<Rightarrow>
               (let ds = sort (remdups (List.map_filter (wd_domain \<circ> snd)
                        (scoped_rows d scopes (event_work d) (\<lambda>x. wd_plan_ref x = ref \<and> wd_domain x \<noteq> None))))
                in if ds = [] then unmapped else (ds, ''works.domain (lineage)'')))
      | Some _ \<Rightarrow>
          (let targets = map lr_target_ref (filter (\<lambda>l. lr_resolved l \<and> lr_relation l = Based_on \<and>
                 lr_source_ref l = ref) (event_links d));
               ds = sort (remdups (concat (map (\<lambda>t.
                      List.map_filter wd_domain (map snd (filter (\<lambda>(r, _). event_id r = t)
                        (scoped_rows d scopes (event_work d) (\<lambda>x. wd_domain x \<noteq> None)))) @
                      List.map_filter ep_domain (map snd (filter (\<lambda>(r, _). event_id r = t)
                        (scoped_rows d scopes (event_plan d) (\<lambda>x. ep_domain x \<noteq> None))))) targets)))
           in if ds = [] then unmapped else (ds, ''based_on lineage''))
      | None \<Rightarrow> unmapped)"

section \<open>What binding and evidence keep\<close>

text \<open>An anchor is bound only through an event in scope.\<close>

lemma bound_in_scope:
  assumes "bi_anchor_ref (resolve_bindings d i scopes) = Some ref"
  shows "event_in_scope d scopes ref \<or>
    (\<exists>(eid, x) \<in> set (event_plan d). ep_plan_ref x = ref \<and> event_in_scope d scopes eid) \<or>
    (\<exists>(eid, x) \<in> set (event_work d). wd_work_ref x = ref \<and> event_in_scope d scopes eid)"
proof -
  have "in_about i = Some ref \<and> bind_anchor d scopes ref \<noteq> None"
    using assms by (auto simp: resolve_bindings_def Let_def split: option.splits list.splits if_splits)
  then show ?thesis
    by (auto simp: bind_anchor_def list_ex_iff split: if_splits)
qed

text \<open>The first \<open>n\<close> of two interleaved lists hold half of \<open>n\<close> of each, or all of it.\<close>

lemma interleave_length [simp]: "length (interleave xs ys) = length xs + length ys"
  by (induction xs ys rule: interleave.induct) auto

lemma interleave_shares:
  assumes "\<forall>x \<in> set xs. P x" "\<forall>y \<in> set ys. \<not> P y"
  shows "min (length xs) (n div 2) \<le> length (filter P (take n (interleave xs ys)))"
    and "min (length ys) (n div 2) \<le> length (filter (\<lambda>x. \<not> P x) (take n (interleave xs ys)))"
proof -
  have "min (length xs) (n div 2) \<le> length (filter P (take n (interleave xs ys))) \<and>
    min (length ys) (n div 2) \<le> length (filter (\<lambda>x. \<not> P x) (take n (interleave xs ys)))"
    using assms
  proof (induction xs ys arbitrary: n rule: interleave.induct)
    case (1 ys)
    have "filter (\<lambda>x. \<not> P x) (take n ys) = take n ys"
      using 1(2) by (intro filter_True) (auto dest: in_set_takeD)
    then show ?case by simp
  next
    case (2 x xs)
    have "filter P (take n (x # xs)) = take n (x # xs)"
      using 2(1) by (intro filter_True ballI) (blast dest: in_set_takeD)
    then show ?case by simp
  next
    case (3 x xs y ys)
    show ?case
    proof (cases "n < 2")
      case True
      then show ?thesis by simp
    next
      case False
      have n: "n = Suc (Suc (n - 2))" using False by simp
      have rest: "\<forall>x \<in> set xs. P x" "\<forall>y \<in> set ys. \<not> P y" and here: "P x" "\<not> P y" using 3(2,3) by simp_all
      obtain m where m: "n = Suc (Suc m)" using n by blast
      from 3(1) [OF rest, of m] here show ?thesis unfolding m by simp
    qed
  qed
  then show "min (length xs) (n div 2) \<le> length (filter P (take n (interleave xs ys)))"
    "min (length ys) (n div 2) \<le> length (filter (\<lambda>x. \<not> P x) (take n (interleave xs ys)))" by blast+
qed

lemma map_result_length: "map_result f xs = Inr ys \<Longrightarrow> length ys = length xs"
  by (induction xs arbitrary: ys) (auto simp: bind_result_def split: sum.splits)

lemma evidence_shares:
  assumes "r = Supports \<or> r = Contradicts"
  shows "min (length (evidence_side d scopes anchor r)) (budget div 2) \<le>
    length (filter (\<lambda>(r', _). r' = r) (interleaved_evidence d scopes anchor budget))"
proof -
  let ?s = "map (Pair Supports) (take budget (evidence_side d scopes anchor Supports))"
    and ?c = "map (Pair Contradicts) (take budget (evidence_side d scopes anchor Contradicts))"
  note I = interleave_shares [of ?s "\<lambda>(r, _). r = Supports" ?c budget]
  have sup: "min (length ?s) (budget div 2) \<le>
      length (filter (\<lambda>(r', _). r' = Supports) (interleaved_evidence d scopes anchor budget))"
    unfolding interleaved_evidence_def by (rule I(1)) auto
  have "min (length ?c) (budget div 2) \<le>
      length (filter (\<lambda>x. \<not> (case x of (r, _) \<Rightarrow> r = Supports)) (interleaved_evidence d scopes anchor budget))"
    unfolding interleaved_evidence_def by (rule I(2)) auto
  also have "filter (\<lambda>x. \<not> (case x of (r, _) \<Rightarrow> r = Supports)) (interleaved_evidence d scopes anchor budget)
      = filter (\<lambda>(r', _). r' = Contradicts) (interleaved_evidence d scopes anchor budget)"
    by (rule filter_cong [OF refl]) (auto simp: interleaved_evidence_def dest!: in_set_takeD)
  finally have con: "min (length ?c) (budget div 2) \<le>
      length (filter (\<lambda>(r', _). r' = Contradicts) (interleaved_evidence d scopes anchor budget))" .
  have "min (length (take budget xs)) (budget div 2) = min (length xs) (budget div 2)" for xs :: "string list"
    by simp
  with sup con assms show ?thesis by auto
qed

lemma evidence_budget:
  assumes "exec_evidence nt d anchor qc scopes = Inr (rs, n)"
  shows "int (length rs) \<le> max 0 (qc_budget qc)"
proof -
  have "length rs = length (interleaved_evidence d scopes anchor (nat (qc_budget qc)))"
    using assms by (auto simp: exec_evidence_def bind_result_def dest: map_result_length split: sum.splits)
  also have "\<dots> \<le> nat (qc_budget qc)" unfolding interleaved_evidence_def length_take by (rule min.cobounded2)
  finally show ?thesis by linarith
qed

text \<open>What the path of a record of evidence says of its side.\<close>

definition evidence_path :: "string \<Rightarrow> relation \<Rightarrow> string \<Rightarrow> string" where
  "evidence_path anchor r src = anchor @ '' <-'' @ relation_text r @ ''- '' @ src"

lemma map_result_filter:
  assumes "map_result f xs = Inr ys" "\<And>x y. x \<in> set xs \<Longrightarrow> f x = Inr y \<Longrightarrow> P x \<Longrightarrow> Q y"
  shows "length (filter P xs) \<le> length (filter Q ys)"
  using assms
proof (induction xs arbitrary: ys)
  case (Cons x xs)
  from Cons.prems(1) obtain y ys' where y: "f x = Inr y" "map_result f xs = Inr ys'" "ys = y # ys'"
    by (auto simp: bind_result_def split: sum.splits)
  have "length (filter P xs) \<le> length (filter Q ys')"
    by (rule Cons.IH [OF y(2)]) (use Cons.prems(2) in auto)
  moreover have "P x \<Longrightarrow> Q y" by (rule Cons.prems(2) [OF _ y(1)]) simp_all
  ultimately show ?case by (simp add: y(3))
qed simp

text \<open>Each side of the evidence has half of the budget, or is told whole.\<close>

lemma evidence_told:
  assumes "exec_evidence nt d anchor qc scopes = Inr (rs, n)" "r = Supports \<or> r = Contradicts"
  shows "min (length (evidence_side d scopes anchor r)) (nat (qc_budget qc) div 2) \<le>
    length (filter (\<lambda>x. rc_path x = evidence_path anchor r (rc_ref x)) rs)"
proof -
  let ?f = "\<lambda>(r, src). bind_result (summary_of nt d src) (\<lambda>(k, summary).
            Inr \<lparr>rc_ref = src, rc_kind = k, rc_summary = summary, rc_backend = qc_backend qc,
                 rc_class_id = qc_class_id qc, rc_path = anchor @ '' <-'' @ relation_text r @ ''- '' @ src,
                 rc_path_truncated = False, rc_standing = told_standing d src\<rparr>)"
  have m: "map_result ?f (interleaved_evidence d scopes anchor (nat (qc_budget qc))) = Inr rs"
    using assms(1) by (auto simp: exec_evidence_def bind_result_def split: sum.splits)
  have "length (filter (\<lambda>(r', _). r' = r) (interleaved_evidence d scopes anchor (nat (qc_budget qc)))) \<le>
      length (filter (\<lambda>x. rc_path x = evidence_path anchor r (rc_ref x)) rs)"
    by (rule map_result_filter [OF m])
      (auto simp: evidence_path_def bind_result_def split: sum.splits)
  with evidence_shares [OF assms(2), of d scopes anchor "nat (qc_budget qc)"] show ?thesis by linarith
qed

lemma precedents_budget:
  "int (length out) \<le> max 0 (qc_budget qc) \<Longrightarrow>
     int (length (precedents d scopes anchor qc wrs out)) \<le> max 0 (qc_budget qc)"
  by (induction d scopes anchor qc wrs out rule: precedents.induct) auto

end
