(* ===== verification/Retrieval_Runs.thy ===== *)
theory Retrieval_Runs
  imports Retrieval Runs Replica_Safety
begin

text \<open>
  Concrete inputs of the witnesses about retrieval: an intent, the neighbourhood of a claim, and a store
  in which a link was asserted while its endpoint was a stub.  A link keeps the scope its endpoint had
  when it was written: \<open>opening_keeps_row\<close>, and what follows for a viewer of the opened store.
\<close>

section \<open>Plans\<close>

definition ask :: "anchor_kind option \<Rightarrow> int \<Rightarrow> bound_intent" where
  "ask k n =
     \<lparr>bi_intent = \<lparr>in_about = Some ''e'', in_text_terms = None, in_relation_depth = 2, in_limit = n,
        in_fallback_policy = None\<rparr>,
      bi_anchor_kind = k, bi_anchor_ref = Some ''e'', bi_unbound_text = None\<rparr>"

text \<open>A ceiling of four does not reach the evidence, and the plan stops there.\<close>

lemma small_plan:
  "map_sum id (\<lambda>p. (map qc_purpose (pn_query_classes p), map sk_purpose (pn_skipped p))) (compile_plan (ask (Some Claim_anchor) 4))
     = Inr ([Q_anchor_lookup, Q_standing, Q_repository_normative],
            [Q_evidence, Q_neighborhood, Q_precedent, Q_vector])"
  by code_simp

section \<open>A neighbourhood\<close>

definition near :: query_class where
  "near = \<lparr>qc_class_id = ''q3-neighborhood'', qc_purpose = Q_neighborhood, qc_backend = Traversal,
     qc_budget = 5, qc_fts_reason = None\<rparr>"

definition claim_neighbors :: "neighborhood result" where
  "claim_neighbors = exec_neighborhood id claim_db ''sha256:5.0'' 2 near []"

text \<open>The one neighbour is seen by a viewer without scopes, and yet counted as withheld at both ends of its edge.\<close>

lemma claim_neighbors_told:
  "map_sum id (\<lambda>nb. (map rc_ref (nb_records nb), map fe_stop (nb_frontier nb), nb_withheld nb, nb_truncation nb))
     claim_neighbors = Inr ([''sha256:5.1''], [Cycle], 2, None)"
  by code_simp

lemma claim_neighbors_seen:
  obtains nb where "claim_neighbors = Inr nb" "map rc_ref (nb_records nb) = [''sha256:5.1'']"
    "\<forall>f \<in> set (nb_frontier nb). fe_stop f = Cycle" "nb_withheld nb = 2" "nb_truncation nb = None"
proof (cases claim_neighbors)
  case (Inl a)
  from claim_neighbors_told [unfolded Inl] show thesis by simp
next
  case (Inr nb)
  from claim_neighbors_told [unfolded Inr] have told: "map rc_ref (nb_records nb) = [''sha256:5.1'']"
    "map fe_stop (nb_frontier nb) = [Cycle]" "nb_withheld nb = 2" "nb_truncation nb = None" by simp_all
  from told(2) have "\<forall>f \<in> set (nb_frontier nb). fe_stop f = Cycle" by (auto simp: map_eq_Cons_conv)
  from that [OF Inr told(1) this told(3,4)] show thesis .
qed

text \<open>The same store with a link that the viewer may not see: a restricted author attacks the claim.\<close>

definition hidden_row :: link_row where
  "hidden_row = (hd (event_links claim_db))\<lparr>lr_relation := Contradicts, lr_asserter_scope := ''board''\<rparr>"

definition shadowed_db :: db where
  "shadowed_db = claim_db\<lparr>event_links := event_links claim_db @ [hidden_row]\<rparr>"

lemma hidden_row_facts: "lr_resolved hidden_row" "\<not> viewer_sees [] hidden_row"
proof -
  have "lr_resolved hidden_row \<and> lr_asserter_scope hidden_row \<noteq> PUBLIC_SCOPE" by code_simp
  then show "lr_resolved hidden_row" "\<not> viewer_sees [] hidden_row" by (simp_all add: viewer_sees_def)
qed

lemma shadowed_same:
  "filter (viewer_sees []) (event_links claim_db) = filter (viewer_sees []) (event_links shadowed_db)"
  "unresolved_entries claim_db [] n = unresolved_entries shadowed_db [] n"
  "summary_of nt claim_db m = summary_of nt shadowed_db m"
  "told_standing claim_db m = told_standing shadowed_db m"
  using hidden_row_facts
  by (simp_all add: shadowed_db_def unresolved_entries_def summary_of_def told_standing_def find_event_def
      cong del: option.case_cong_weak event_kind.case_cong_weak)

section \<open>Evidence\<close>

text \<open>With a budget of two the one support of the claim is told.\<close>

lemma claim_evidence:
  obtains rs n where "exec_evidence id claim_db ''sha256:5.0'' (near\<lparr>qc_budget := 2\<rparr>) [] = Inr (rs, n)"
proof -
  have "\<not> isl (exec_evidence id claim_db ''sha256:5.0'' (near\<lparr>qc_budget := 2\<rparr>) [])" by code_simp
  then show thesis using that
    by (cases "exec_evidence id claim_db ''sha256:5.0'' (near\<lparr>qc_budget := 2\<rparr>) []") auto
qed

lemma claim_side: "evidence_side claim_db [] ''sha256:5.0'' Supports = [''sha256:5.1'']"
  by code_simp

section \<open>A stub\<close>

definition secret_claim :: event where
  "secret_claim = (run_event ''6.0'' 1 None ''s'' (ClaimRecorded \<lparr>cl_proposition = ''merger'', cl_basis_note = None\<rparr>))
     \<lparr>origin_node := ''n2'', hlc := ''6.0.n2'', envelope_version := 2, scope_ref := Some ''board'',
      scope_digest := Some ''sha256:''\<rparr>"

definition public_observation :: event where
  "public_observation = run_event ''5.1'' 1 None ''b'' (ObservationRecorded \<lparr>ob_predicate = ''status'',
     ob_value_text = Some ''200'', ob_value_number = None, ob_value_bool = None, ob_value_time = None,
     ob_method = Http_probe, ob_occurred_at = None, ob_source_ref = None, ob_source_revision = None,
     ob_content_digest = None, ob_fetched_at = None\<rparr>)"

definition public_link :: event where
  "public_link = run_event ''5.3'' 2 (Some ''5.1'') ''d''
     (LinkAsserted \<lparr>la_source_ref = ''sha256:5.1'', la_relation = Supports, la_target_ref = ''sha256:6.0''\<rparr>)"

definition stubbed_db :: db where
  "stubbed_db =
     projr (bind_result (record_event Some 9 public_observation empty_db) (\<lambda>d.
       bind_result (insert_event Some (withhold secret_claim) d) (record_event Some 9 public_link)))"

definition opened_db :: db where
  "opened_db = projr (upgrade_stub run_crypto Some 9 secret_claim stubbed_db)"

lemma stub_opens: "upgrade_stub run_crypto Some 9 secret_claim stubbed_db = Inr opened_db"
  unfolding opened_db_def by (rule sum.collapse(2) [symmetric], code_simp)

text \<open>While the claim is a stub, a walk that meets it raises.\<close>

lemma stub_raises:
  "exec_neighborhood id stubbed_db ''sha256:5.1'' 1 near [] = Inl (TypeError ''cannot unpack NoneType'')"
  by code_simp

text \<open>Once it is open, its text is told to a viewer who does not hold its scope.\<close>

lemma opened_told:
  "\<not> event_in_scope opened_db [] ''sha256:6.0''"
  "map_sum id (\<lambda>nb. map (\<lambda>r. (rc_ref r, rc_summary r)) (nb_records nb))
     (exec_neighborhood id opened_db ''sha256:5.1'' 1 near [])
     = Inr [(''sha256:6.0'', ''merger'')]"
  by code_simp+

definition stub_row :: link_row where
  "stub_row = last (event_links stubbed_db)"

lemma stub_row_facts:
  "list_ex (\<lambda>l. l = stub_row) (event_links stubbed_db)" "lr_resolved stub_row"
  "lr_target_ref stub_row = ''sha256:6.0''" "lr_target_scope stub_row = Some PUBLIC_SCOPE"
  "lr_source_scope stub_row \<noteq> None"
  by code_simp+

section \<open>Opening a stub\<close>

lemma fill_keeps_row:
  assumes "l \<in> set (event_links d)" "lr_resolved l" "lr_source_scope l \<noteq> None"
  shows "l \<in> set (event_links (fst (fill_target e pts d)))" "l \<in> set (event_links (fst (fill_source e pts d)))"
  using assms by (force simp: fill_target_def fill_source_def Let_def split: option.split)+

lemma opening_keeps_row:
  assumes "upgrade_stub cr uc now e d = Inr d'" "l \<in> set (event_links d)"
    and "lr_resolved l" "lr_source_scope l \<noteq> None"
  shows "l \<in> set (event_links d')"
proof -
  obtain d1 d2 where i: "materialize_row e d = Inr d1" "insert_payload uc e d1 = Inr d2" "reduce now e d2 = Inr d'"
    using assms(1) by (auto simp: upgrade_stub_def)
  have "event_links d1 = event_links d" using i(1) by (auto simp: materialize_row_def split: if_splits)
  moreover have "event_links d2 = event_links d1"
    using i(2) by (cases "payload e"; cases "the (payload e)") (auto simp: insert_payload.simps split: if_splits)
  ultimately have l: "l \<in> set (event_links d2)" using assms(2) by simp
  from reduce_Inr [OF i(3)] obtain pts e1 t1 e2 t2 p e3 t3 where
    1: "fill_target e pts d2 = (e1, t1)" and 2: "fill_source e pts e1 = (e2, t2)" and p: "payload e = Some p"
    and 3: "reduce_payload now e p e2 = Inr (e3, t3)"
    and 4: "d' = (if t1 \<or> t2 \<or> t3 then recompute_standing (event_id e) e3 else e3)" by metis
  have "l \<in> set (event_links e1)" using fill_keeps_row(1) [OF l assms(3,4), of e pts] 1 by simp
  then have l2: "l \<in> set (event_links e2)" using fill_keeps_row(2) [OF _ assms(3,4), of e1 e pts] 2 by simp
  have "l \<in> set (event_links e3)"
  proof (cases "evidence p")
    case False
    with reduce_payload_no_evidence [OF 3] l2 show ?thesis by simp
  next
    case True
    with 3 l2 show ?thesis by (cases p) (auto simp: insert_link_def Let_def)
  qed
  with 4 show ?thesis by (simp add: standing_frame)
qed

end
