(* ===== verification/Spec2Isabelle.thy ===== *)
theory Spec2Isabelle
  imports Authority_Gate Security_Store Services Authority_Checks Wire_Runs Gate_Runs Discovery_Runs
    Console_Runs Herdr_Server Retrieval_Runs
begin

text \<open>
  Kawa is a replicated, event-sourced work ledger: every node appends signed events to its own
  chain, replicas pull each other's chains, and the current state is a set of projections that can be
  dropped and replayed.  This development models its core: the content addressing and the log, the
  projections, anti-entropy replication, the authority plane, the credentials, the service
  surface, the reads of the lineage, the console and the bounded retrieval, and the launcher of agents
  with its adapters; and the checker that accompanies the authority contract.

  \<^bold>\<open>Parts and theories.\<close>  Each theory names the Python file it models in its opening text.
  \<^item> \<^verbatim>\<open>Prelude\<close>: results (a sum whose left side is the exception), digits and text, the
    maximum of a query with an order, and the two contracts the stateful parts share
    (\<open>guarded_ops\<close>: every successful call keeps an invariant; \<open>forward_ops\<close>: it also only moves
    forward), with histories of calls, \<open>exec_ops\<close>.
  \<^item> \<^verbatim>\<open>Canonical_Json\<close>, \<^verbatim>\<open>Json_Loads\<close>, \<^verbatim>\<open>Json_Access\<close>: the JSON values of Python, the printer with
    sorted keys, the decoder, and the dictionary accesses of the code.
  \<^item> \<^verbatim>\<open>Ids\<close> (\<^verbatim>\<open>kawa/domain/ids.py\<close>): UUIDv7, digests and event hashes, the hybrid logical clock.
    \<^verbatim>\<open>Events\<close> (\<^verbatim>\<open>events.py\<close>): the eleven payloads, their validators and dumps, the envelope.
  \<^item> \<^verbatim>\<open>Credential\<close>, \<^verbatim>\<open>Trust\<close>, \<^verbatim>\<open>Authority\<close>, \<^verbatim>\<open>Workload\<close>, \<^verbatim>\<open>Participant\<close>, \<^verbatim>\<open>Coordination\<close>
    (\<^verbatim>\<open>credential.py\<close>, \<^verbatim>\<open>identity.py\<close>, \<^verbatim>\<open>occurrence.py\<close>, \<^verbatim>\<open>trust.py\<close>, \<^verbatim>\<open>authority.py\<close>,
    \<^verbatim>\<open>workload.py\<close>, \<^verbatim>\<open>participant.py\<close>, \<^verbatim>\<open>coordination.py\<close>): one theory per domain module.
  \<^item> \<^verbatim>\<open>Store\<close>, \<^verbatim>\<open>Emit\<close> (\<^verbatim>\<open>kawa/storage/emit.py\<close> and the payload loader of
    \<^verbatim>\<open>kawa/projections/reducers.py\<close>): the tables as one record \<open>db\<close>, the write path, reading back.
  \<^item> \<^verbatim>\<open>Reducers\<close> (\<^verbatim>\<open>reducers.py\<close>): the reducer and the rebuild.  \<^verbatim>\<open>Convergence\<close>, \<^verbatim>\<open>Rebuild\<close>,
    \<^verbatim>\<open>Standing\<close>: the reference definitions of the projections and the proofs that the incremental
    reducer implements them.
  \<^item> \<^verbatim>\<open>Replication\<close> (\<^verbatim>\<open>replication.py\<close>), with its proofs in \<^verbatim>\<open>Replica_Projection\<close> and
    \<^verbatim>\<open>Replica_Safety\<close>; \<^verbatim>\<open>Wire\<close> (\<^verbatim>\<open>wire.py\<close>), \<^verbatim>\<open>Archive\<close> (\<^verbatim>\<open>archive.py\<close>).
  \<^item> \<^verbatim>\<open>Authority_Gate\<close> (\<^verbatim>\<open>authority_gate.py\<close>), \<^verbatim>\<open>Security_Store\<close> (\<^verbatim>\<open>security_store.py\<close>).
  \<^item> \<^verbatim>\<open>Services\<close>, \<^verbatim>\<open>Discovery\<close> (\<^verbatim>\<open>kawa/application/services.py\<close>, \<^verbatim>\<open>jit.py\<close>): the writes and the
    reads of the service object.
  \<^item> \<^verbatim>\<open>Relations\<close> (\<^verbatim>\<open>kawa/relations.py\<close>): the bounded walk over the lineage.  \<^verbatim>\<open>Console_Rollup\<close>
    (\<^verbatim>\<open>kawa/projections/console_rollup.py\<close>): the tables of the console, and \<open>rebuild\<close> to its commit.
  \<^item> \<^verbatim>\<open>Retrieval_Plan\<close>, \<^verbatim>\<open>Retrieval_Edges\<close>, \<^verbatim>\<open>Retrieval_Walk\<close>, \<^verbatim>\<open>Retrieval\<close> (\<^verbatim>\<open>kawa/retrieval.py\<close>):
    the planner and the pairs of scopes, the bounded expansion of a node, the neighbourhood of an
    anchor, and binding with the classes that read the anchor, its evidence and its precedents.
  \<^item> \<^verbatim>\<open>Runtime\<close>, \<^verbatim>\<open>Tmux_Backend\<close>, \<^verbatim>\<open>Herdr_Backend\<close> (\<^verbatim>\<open>kawa/runtime/\<close>), \<^verbatim>\<open>Launcher\<close>
    (\<^verbatim>\<open>scripts/runtime_launch.py\<close>): the contract of a backend as the locales \<open>runtime_world\<close> and
    \<open>waking_world\<close>, the launcher proved over them, and each adapter as an instance of them;
    \<^verbatim>\<open>Tmux_Server\<close>, \<^verbatim>\<open>Herdr_Server\<close>: servers that interpret what the adapters rely on, and on which
    they run.
  \<^item> \<^verbatim>\<open>Model_Search\<close>, \<^verbatim>\<open>Authority_Model\<close>, \<^verbatim>\<open>Authority_Checks\<close> (\<^verbatim>\<open>formal/check_authority.py\<close>): the
    search of a state space as the locale \<open>search_space\<close>, the machine of the authority contract that
    interprets it, and the focused checks up to \<open>main\<close>.
  \<^item> \<^verbatim>\<open>Examples\<close>, \<^verbatim>\<open>Runs\<close>, \<^verbatim>\<open>Wire_Runs\<close>, \<^verbatim>\<open>Gate_Runs\<close>, \<^verbatim>\<open>Discovery_Runs\<close>, \<^verbatim>\<open>Console_Runs\<close>,
    \<^verbatim>\<open>Retrieval_Runs\<close>: concrete inputs on which the witnesses evaluate the model.

  \<^bold>\<open>State.\<close>  A table is a list of rows in insertion order (a keyed projection a map), a transaction is
  a function from \<open>db\<close> to a result, and a failing transaction leaves the tables as they were.  What
  survives a rollback (the clock of an emitter, the clock of a puller, a trust registry) is returned
  beside the result.  Where a query has no \<open>ORDER BY\<close> the model takes insertion order; the statements
  about projections do not depend on that choice.  Integers of the program are Python's and are
  \<open>int\<close>; the bound of PostgreSQL's bigint and the longest text that \<open>int()\<close> converts are written out
  in \<open>parse_hlc\<close> (the second in the adapter of herdr too, but not in the decoder of the wire).  Loops terminate by measures:
  the walk to the root of a lineage and to its head by the digests not yet seen, the search for
  ground by the live claims not yet seen.  The JSON decoder runs with fuel, twice the length of its
  input plus two, and \<open>loads_canonical\<close> shows that this is enough for every canonical text.  The
  searches of the checker and the polling loops of the launcher and its adapters are functions into an
  option whose \<open>None\<close> is a loop that does not end; that they do end is proved, the searches because
  the states are finitely many, the polls because each round moves the clock towards a deadline.

  \<^bold>\<open>Parameters.\<close>  SHA-256, Ed25519, the decoding of PEM keys and the \<open>repr\<close> of floats are fields of
  \<open>crypto\<close>; the normal form of a uuid column, the casts of the database driver, pydantic's coercions,
  ISO timestamps and the wall clock are arguments.  So are the programs tmux and herdr, and the texts too deep for the
  stack of the decoder: what one invocation answers is a function, and the locales \<open>tmux_host\<close> and \<open>herdr_host\<close> say what is relied
  on.  What is relied on is stated where it is used: \<open>no_collision\<close> for two named inputs, \<open>credential_registered\<close>, \<open>pydantic_ok\<close>.

  \<^bold>\<open>What the lemmas show.\<close>  The log is append-only and every origin is a contiguous linked chain,
  through emission, replication and archive import.  The projections are a function of the recorded
  facts, so a rebuild reproduces them and replicas converge in any order of arrival.  Admission
  authenticates every row it adds, never touches a frozen origin, accounts for every event and opens
  no payload beyond the granted scopes.  Forks are released, and policies changed, only by receipts
  with a quorum of active members, and revocation is final.  Canonical texts, stamps, payload rows,
  wire dictionaries and archives read back.  Discovery offers only authorized, unclaimed work.  A
  traversal is complete unless it says otherwise or reached its cap; a retrieval keeps the ceiling of
  its caller, tells only what visible links reach, all of it when it states no cut, and nothing that
  depends on links the viewer may not see; the console's tables meet their constraints.  A launch or a
  teardown that runs alone leaves no runtime without a record, but for a launch that was not answered
  in time, and what happens when two interleave is run.  Exactly which exceptions leave the adapter of
  herdr is stated.  The checker's verdict is the truth about its machine.

  \<^bold>\<open>Not modelled.\<close>  SQL as a language, the connection, locks and concurrent transactions (each call runs
  alone, but for the sections of the launcher); the rendering of the console and its server; the
  table \<^verbatim>\<open>runtime_work_occupancy\<close> that \<open>rebuild\<close> truncates; the lexical, vector and repository classes
  of retrieval, which rest on the indexes of PostgreSQL, a model and git, and the loop of
  \<^verbatim>\<open>retrieve\<close> over all classes; the session reads, which summarise git and status
  files; the collectors and the HTTP adapters; key generation and the files of the registries; the
  status file and the command line of the launcher; the migrations and the other scripts.
\<close>

section \<open>Content addressing\<close>

text \<open>The canonical text of a JSON value determines the value up to the order of members: two
  well-formed values with the same canonical text are the same value once the members of every
  object are sorted.\<close>

theorem canonical_text_determines_value:
  assumes "wf_json a" "wf_json b" "canonical_json a = canonical_json b"
  shows "sort_keys a = sort_keys b"
  using assms by (rule canonical_json_inj)

theorem canonical_text_determines_value_witness:
  "sort_keys (JObj [(''b'', JInt 2), (''a'', JNull)]) = sort_keys (JObj [(''a'', JNull), (''b'', JInt 2)])"
  by (rule canonical_text_determines_value) (simp_all add: canonical_json_def)



text \<open>C12: tamper evidence of the envelope: when SHA-256 does not collide on the two preimages, two
  envelopes with the same event hash agree on every field that their envelope version commits to
  (version 2 includes the scope digest, version 1 does not), and the versions agree too.\<close>

theorem event_hash_binds_envelope:
  assumes "event_hash sha i = Inr h" "event_hash sha j = Inr h"
    and "\<And>p q. event_preimage i = Some p \<Longrightarrow> event_preimage j = Some q \<Longrightarrow> no_collision sha p q"
  shows "committed i = committed j"
  using assms by (rule event_hash_commits)

definition ex_hash_input :: hash_input where
  "ex_hash_input =
     \<lparr>hi_origin_node = ''n1'', hi_origin_seq = 1, hi_hlc = ''1.0.n1'', hi_kind = ''claim.recorded'',
      hi_subject_ref = None, hi_actor_ref = ''a'', hi_policy_digest = None, hi_payload_digest = ''p'',
      hi_prev_hash = None, hi_envelope_version = 1, hi_scope_digest = None\<rparr>"

theorem event_hash_binds_envelope_witness:
  "committed ex_hash_input = committed (ex_hash_input\<lparr>hi_scope_digest := Some ''s''\<rparr>)"
proof (rule event_hash_binds_envelope)
  show "event_hash (\<lambda>s. s) ex_hash_input = Inr (digest (\<lambda>s. s) (JObj (preimage_v1 ex_hash_input)))"
    by (simp add: event_hash_def event_preimage_def ex_hash_input_def)
  show "event_hash (\<lambda>s. s) (ex_hash_input\<lparr>hi_scope_digest := Some ''s''\<rparr>)
      = Inr (digest (\<lambda>s. s) (JObj (preimage_v1 ex_hash_input)))"
    by (simp add: event_hash_def event_preimage_def ex_hash_input_def preimage_v1_def)
qed simp

section \<open>The projections\<close>

text \<open>C13: recorded history is projected: after any sequence of well-kinded events recorded from an
  empty store, every projection holds what its reference definition computes from the facts - the
  work, plan and dependency rows are up to date, every work, plan and edge has a row, every occurrence
  has its one winner and its losers quarantined.\<close>

theorem recorded_history_projected:
  assumes "\<forall>(now, e) \<in> set es. well_kinded e" "record_events uc es empty_db = Inr d"
  shows "projected d"
  by (rule record_events_projected [OF projected_empty assms])

theorem recorded_history_projected_witness: "projected run_db"
  by (rule recorded_history_projected [OF _ run_records(1)]) simp





text \<open>C15: the stored standing of every held claim is, after any recorded history, the one that the
  claim has in the log.\<close>

theorem standings_up_to_date:
  assumes "record_events uc es empty_db = Inr d" "c \<in> set (claim_ids d)"
  shows "\<exists>eid. current_claim_standing d c = Some (standing_of d c, eid)"
proof -
  have "fresh_standing empty_db" by (simp add: fresh_standing_def claim_ids_def empty_db_def)
  from record_events_standing [OF this assms(1)] assms(2) show ?thesis by (simp add: fresh_standing_def)
qed

theorem standings_up_to_date_witness:
  "\<exists>eid. current_claim_standing claim_db ''sha256:5.0'' = Some (standing_of claim_db ''sha256:5.0'', eid)"
  by (rule standings_up_to_date [OF claim_recorded]) (simp add: claim_ids_of_db)

text \<open>C22: the search of \<open>_grounded\<close> refines its specification: a claim is grounded exactly when an
  observation reaches it along resolved supports links through claims that are not superseded.\<close>

theorem grounded_is_supported:
  "grounded d c \<longleftrightarrow> supported (supports_into d) (\<lambda>s. s \<in> set (observation_ids d)) (live_claims d) c"
  by (rule grounded_supported)

section \<open>Replication\<close>

text \<open>C4: admission keeps the log: a batch that is admitted leaves every held row in place up to
  opening its stub, keeps the per-origin chains contiguous and linked, and every row that is not
  one of the held ones carries a signature that the gate authenticates.\<close>

theorem admission_keeps_log:
  assumes "log_ok (events d)" "admit_batch cr uc g now batch clock d = (c, Inr (rep, d'))"
  shows "log_ok (events d')
    \<and> (\<forall>r \<in> set (events d). \<exists>r' \<in> set (events d'). same_envelope r r')
    \<and> (\<forall>r' \<in> set (events d'). (\<exists>r \<in> set (events d). same_envelope r r')
          \<or> authenticated cr g r' (Some (origin_seq r')))"
proof -
  obtain s where s: "batch_inv cr g d s" "ad_db s = d'" using admit_batch_inv [OF assms] by blast
  note i = batch_invD [OF s(1), unfolded s(2)]
  have "log_ok (events d')" using i(1) s(2) by (simp add: admission_log_def)
  with i(3,4) show ?thesis by blast
qed

theorem admission_keeps_log_witness: "log_ok (events run_replica)"
  by (rule conjunct1 [OF admission_keeps_log [OF _ run_admitted]]) (simp add: log_ok_def empty_db_def)

text \<open>C6: a frozen origin does not move: while fork evidence freezes a node, no batch adds, opens or
  changes any of its rows.\<close>

theorem frozen_origin_unmoved:
  assumes "log_ok (events d)" "n \<in> frozen_origins d"
    and "admit_batch cr uc g now batch clock d = (c, Inr (rep, d'))"
  shows "filter (\<lambda>r. origin_node r = n) (events d') = filter (\<lambda>r. origin_node r = n) (events d)"
proof -
  obtain s where "batch_inv cr g d s" "ad_db s = d'" using admit_batch_inv [OF assms(1,3)] by blast
  with batch_invD(5) [OF this(1) assms(2)] show ?thesis by simp
qed

theorem frozen_origin_unmoved_witness:
  "\<exists>rep d. admit_batch run_crypto Some run_gate 5 [run_e2] None run_frozen = (None, Inr (rep, d))
     \<and> filter (\<lambda>r. origin_node r = ''n1'') (events d) = filter (\<lambda>r. origin_node r = ''n1'') (events run_frozen)"
proof -
  obtain rep d where b: "admit_batch run_crypto Some run_gate 5 [run_e2] None run_frozen = (None, Inr (rep, d))"
    using run_frozen_batch by blast
  have "''n1'' \<in> frozen_origins run_frozen" by (simp add: frozen_origins_def run_frozen_def frozen_row_def)
  from frozen_origin_unmoved [OF run_frozen_log this b] b show ?thesis by blast
qed

text \<open>C7: nothing is dropped in silence: every event of a batch is admitted, reported as rejected
  with its coordinates, or already held at its position.\<close>

theorem admission_accounts:
  assumes "admit_batch cr uc g now batch clock d = (c, Inr (rep, d'))" "e \<in> set batch"
  shows "event_id e \<in> set (pr_admitted rep)
    \<or> (\<exists>rj \<in> set (pr_rejected rep). rj_event_id rj = event_id e \<and> rj_origin_node rj = origin_node e
         \<and> rj_origin_seq rj = origin_seq e)
    \<or> (\<exists>r \<in> set (events d'). event_id r = event_id e \<and> origin_node r = origin_node e
         \<and> origin_seq r = origin_seq e)"
proof -
  obtain s where s: "admit_loop cr uc g now batch (admission_start clock d) = (c, Inr s)"
    "rep = \<lparr>pr_admitted = ad_admitted s, pr_rejected = ad_rejected s\<rparr>" "ad_db s = d'"
    using assms(1) by (auto simp: admit_batch_def split: prod.splits sum.splits)
  from admit_loop_accounted [OF s(1)] assms(2) have "accounted e s" by blast
  then show ?thesis by (simp add: accounted_def s(2,3))
qed

theorem admission_accounts_witness:
  "event_id run_e2 \<in> {event_id run_e1, event_id run_e2}
     \<or> (\<exists>r \<in> set (events run_replica). event_id r = event_id run_e2)"
  using admission_accounts [OF run_admitted, of run_e2] by auto

text \<open>C5: a pull confines payloads: a row that a pull opens in the receiver either was open there
  before, is of the unscoped first envelope version, or has a scope that the source granted to the
  puller and the receiver named.  The envelope version of an identity is the same on both sides.\<close>

theorem pull_confines:
  assumes "pull cr uc keys trust st pn scopes sk now clock dest source = (c, Inr (rep, dest'))"
    and "\<forall>r \<in> set (events dest) \<union> set (events source). \<forall>q \<in> set (events dest) \<union> set (events source).
       event_id r = event_id q \<longrightarrow> envelope_version r = envelope_version q"
    and "r \<in> set (events dest')" "materialized r"
  shows "r \<in> set (events dest) \<or> scope_in (offered st pn scopes) (envelope_version r) (scope_ref r)"
proof -
  let ?rows = "set (events dest) \<union> set (events source)"
  define vr where "vr i = envelope_version (SOME q. q \<in> ?rows \<and> event_id q = i)" for i
  have vr: "envelope_version q = vr (event_id q)" if q: "q \<in> ?rows" for q
    unfolding vr_def
  proof (rule someI2 [of _ q])
    fix x assume "x \<in> ?rows \<and> event_id x = event_id q"
    then show "envelope_version q = envelope_version x" using assms(2) q by metis
  qed (use q in simp)
  obtain stream where s: "\<forall>e \<in> set stream. \<exists>r \<in> set (events source). event_id e = event_id r
       \<and> envelope_version e = envelope_version r \<and> kind e = kind r"
    and b: "admit_batch cr uc \<lparr>g_keys = keys, g_trust = trust, g_requested = map_option set scopes,
       g_max_skew = sk, g_now_ms = now\<rparr> now (serve_batch stream (Some (offered st pn scopes))) clock dest
     = (c, Inr (rep, dest'))"
    using pull_batch [OF assms(1)] by metis
  show ?thesis
  proof (rule open_batch [OF _ _ _ b assms(3,4), where vr = vr])
    show "\<forall>r \<in> set (events dest). envelope_version r = vr (event_id r)" using vr by blast
    show "\<forall>e \<in> set (serve_batch stream (Some (offered st pn scopes))). envelope_version e = vr (event_id e)"
      using served_version s vr by (metis UnI2)
  qed (use served_ok in blast)
qed

theorem pull_confines_witness:
  "\<exists>rep d r. scoped_pull = (None, Inr (rep, d)) \<and> r \<in> set (events d)
     \<and> scope_in {''fleet''} (envelope_version r) (scope_ref r)"
proof -
  obtain rep d r where p: "scoped_pull = (None, Inr (rep, d))" "r \<in> set (events d)" "materialized r"
    using scoped_pull_opens by blast
  have none: "events empty_db = []" by (simp add: empty_db_def)
  have "\<forall>r \<in> set (events empty_db) \<union> set (events scoped_source). \<forall>q \<in> set (events empty_db) \<union> set (events scoped_source).
      event_id r = event_id q \<longrightarrow> envelope_version r = envelope_version q"
    unfolding none using scoped_source_versions by simp
  from pull_confines [OF p(1) [unfolded scoped_pull_def] this p(2,3)]
  have "scope_in (offered (Some granted_trust) (Some ''n2'') (Some [''fleet'']))
      (envelope_version r) (scope_ref r)" unfolding none by simp
  moreover have "offered (Some granted_trust) (Some ''n2'') (Some [''fleet'']) = {''fleet''}" by code_simp
  ultimately show ?thesis using p by auto
qed



text \<open>The condition on kinds is needed: an event that names another kind than its payload has is verified
  and admitted, and no rebuild succeeds after it.\<close>

definition ex_miskinded :: event where
  "ex_miskinded = run_e1\<lparr>kind := WORK_DERIVED\<rparr>"

theorem miskinded_event_admitted:
  "case snd (admit_batch run_crypto Some run_gate 5 [ex_miskinded] None empty_db) of
     Inr (rep, d) \<Rightarrow> pr_admitted rep = [event_id ex_miskinded] \<and> isl (rebuild run_crypto 9 d)
   | Inl _ \<Rightarrow> False"
  by code_simp

text \<open>A stamp with a part too long for \<open>int()\<close>, on the next envelope of an origin that is not frozen,
  aborts the whole batch before anything of it is authenticated.\<close>

theorem overlong_stamp_aborts_batch:
  assumes "origin_node e \<notin> frozen_origins d"
    and "gate_raises (map_option (\<lambda>r. (origin_seq r, self_hash r)) (origin_head d (origin_node e))) e"
  shows "admit_batch cr uc g now (e # es) clock d = (clock, Inl (ValueError ''int''))"
proof -
  let ?s = "admission_start clock d"
  have later: "\<not> origin_seq e \<le> (case ad_heads ?s (origin_node e) of Some (q, _) \<Rightarrow> q | None \<Rightarrow> 0)"
    using assms(2) by (auto simp: gate_raises_def admission_start_def split: option.splits)
  have "admit_one cr uc g now e ?s = Inl (ValueError ''int'')"
    unfolding admit_one_def if_not_P [OF later]
    using assms overlong_stamp_raises [of ?s e cr uc g now] by (simp add: admission_start_def)
  then show ?thesis by (simp add: admit_batch_def) (simp add: admission_start_def)
qed

theorem overlong_stamp_aborts_batch_witness:
  "admit_batch run_crypto Some run_gate 5
     [run_e1\<lparr>hlc := replicate 4301 CHR ''9'' @ ''.0.n1'', signature := None\<rparr>, run_e1] None empty_db
     = (None, Inl (ValueError ''int''))"
proof (rule overlong_stamp_aborts_batch)
  let ?h = "replicate 4301 CHR ''9'' @ ''.0.n1''"
  have "split_dot 2 ?h = [replicate 4301 CHR ''9'', ''0'', ''n1'']"
    using split_dot_piece [of "replicate 4301 CHR ''9''" 1 "''0.n1''"] split_dot_piece [of "''0''" 0 "''n1''"]
    by (simp add: numeral_2_eq_2)
  then have "hlc_raises ?h"
    by (simp add: hlc_raises_def ascii_digits_def is_digit_def MAX_INT_DIGITS_def list_all_iff)
  then show "gate_raises (map_option (\<lambda>r. (origin_seq r, self_hash r))
      (origin_head empty_db (origin_node (run_e1\<lparr>hlc := ?h, signature := None\<rparr>)))) (run_e1\<lparr>hlc := ?h, signature := None\<rparr>)"
    by (simp add: gate_raises_def origin_head_def empty_db_def run_e1_def run_event_def)
qed (simp add: frozen_origins_def empty_db_def)

section \<open>Authority\<close>

text \<open>C8: a fork is released only under authority: when \<open>resolve_fork\<close> succeeds, a held receipt for the
  fork-resolution key is valid under the current registry and policy and is signed over exactly this
  origin, position and chosen head; the chosen head is the held event; afterwards no evidence at the
  position is frozen, and evidence elsewhere, the log and the policies are as before.\<close>

theorem fork_release_receipted:
  assumes "resolve_fork cr keys node seq chosen rid why d t = (t', Inr d')"
  shows "(\<exists>receipt s. load_receipt cr d rid = Inr (Some receipt)
        \<and> rc_authority_key receipt = FORK_RESOLUTION_KEY \<and> load_proof_store cr d = Inr s
        \<and> verify_receipt cr keys (Some t) s receipt = VALID
        \<and> current_policy_digest d = Inr (rc_policy_digest receipt)
        \<and> rc_operation_digest receipt = fork_resolution_operation_digest cr node seq chosen
            (rc_configuration_digest receipt) (rc_policy_digest receipt))
    \<and> (\<forall>f \<in> set (fork_rows d). fork_at node seq f \<longrightarrow> fe_frozen f \<longrightarrow> chosen = fe_held_event_id f)
    \<and> (\<forall>f \<in> set (fork_rows d'). fork_at node seq f \<longrightarrow> \<not> fe_frozen f \<and> fe_chosen_head f = Some chosen)
    \<and> filter (\<lambda>f. \<not> fork_at node seq f) (fork_rows d') = filter (\<lambda>f. \<not> fork_at node seq f) (fork_rows d)
    \<and> events d' = events d \<and> policy_lineage d' = policy_lineage d"
proof (intro conjI)
  obtain receipt where r: "load_receipt cr d rid = Inr (Some receipt)"
    "rc_authority_key receipt = FORK_RESOLUTION_KEY"
    "current_policy_digest d = Inr (rc_policy_digest receipt)"
    "rc_operation_digest receipt = fork_resolution_operation_digest cr node seq chosen
       (rc_configuration_digest receipt) (rc_policy_digest receipt)"
    "\<exists>s. load_proof_store cr d = Inr s \<and> verify_receipt cr keys (Some t) s receipt = VALID"
    and rows: "\<forall>f \<in> set (fork_rows d). fork_at node seq f \<longrightarrow>
       (if fe_frozen f then chosen = fe_held_event_id f
        else fe_chosen_head f = Some chosen \<and> fe_resolved_by f = Some rid)"
    by (rule resolve_fork_Inr [OF assms])
  from r show "\<exists>receipt s. load_receipt cr d rid = Inr (Some receipt)
        \<and> rc_authority_key receipt = FORK_RESOLUTION_KEY \<and> load_proof_store cr d = Inr s
        \<and> verify_receipt cr keys (Some t) s receipt = VALID
        \<and> current_policy_digest d = Inr (rc_policy_digest receipt)
        \<and> rc_operation_digest receipt = fork_resolution_operation_digest cr node seq chosen
            (rc_configuration_digest receipt) (rc_policy_digest receipt)" by blast
  from rows show "\<forall>f \<in> set (fork_rows d). fork_at node seq f \<longrightarrow> fe_frozen f \<longrightarrow> chosen = fe_held_event_id f"
    by metis
qed (use resolve_fork_rows [OF assms] in blast)+

theorem fork_release_receipted_witness:
  "fe_frozen frozen_row \<and> \<not> fe_frozen released_row
     \<and> (\<exists>s receipt. verify_receipt ex_crypto ex_keys (Some ex_trust) s receipt = VALID
          \<and> rc_authority_key receipt = FORK_RESOLUTION_KEY)"
proof -
  have rows: "fork_rows (fork_db released_row) = [released_row]" "fork_at ''n1'' 1 released_row" "fe_frozen frozen_row"
    by (simp_all add: fork_db_def released_row_def frozen_row_def fork_at_def)
  with fork_release_receipted [OF fork_released(1)] show ?thesis by auto
qed

text \<open>C23: a fork is decided once: after a successful resolution, a further successful call for the same
  position, under any keys and registry, names the same head and the same receipt and changes neither
  the store nor the trust registry.\<close>

theorem fork_decided_once:
  assumes "resolve_fork cr keys node seq chosen rid why d t = (t1, Inr d1)"
    and "resolve_fork cr keys' node seq chosen' rid' why' d1 t2 = (t3, Inr d2)"
  shows "d2 = d1 \<and> t3 = t2 \<and> chosen' = chosen \<and> rid' = rid"
  using assms by (rule resolve_fork_again)

theorem fork_decided_once_witness:
  "\<exists>d1 t1. resolve_fork ex_crypto ex_keys ''n1'' 1 ''sha256:5.0'' ''rcpt'' ''why'' (fork_db frozen_row) ex_trust
       = (t1, Inr d1)
     \<and> resolve_fork ex_crypto ex_keys ''n1'' 1 ''sha256:5.0'' ''rcpt'' ''again'' d1 ex_trust = (ex_trust, Inr d1)"
proof -
  have "fork_db released_row = fork_db released_row \<and> ex_trust = ex_trust
     \<and> ''sha256:5.0'' = ''sha256:5.0'' \<and> ''rcpt'' = ''rcpt''"
    by (rule fork_decided_once [OF fork_released])
  with fork_released show ?thesis by blast
qed

text \<open>C30: a policy establishment supersedes the head: on a lineage with at most one head, when the
  receipt covers establishing a policy other than the current one, the call succeeds, every row that
  was a head now names the new policy as its successor and no other row changes, the new row, naming
  its prior, its bundle and its receipt, is appended unless the digest is in the lineage already, and
  afterwards there is at most one head: the new policy, or none when it was in the lineage already.
  Nothing but the lineage changes.  And the head is checked where it is written: a commit against a
  prior that another session has superseded since it was read succeeds on no store.\<close>

theorem policy_supersedes_head:
  assumes "one_head d" "current_policy_digest d = Inr prior"
    and "prior \<noteq> Some new" "new = digest (sha256 cr) (JStr bundle)"
    and "load_receipt cr d rid = Inr (Some receipt)"
    and "exercise cr keys trust d receipt POLICY_KEY (policy_operation_digest cr
         (if prior = None then PolicyEstablish else PolicySupersede) new prior (rc_configuration_digest receipt))
         = Inr receipt"
  shows "(\<exists>d'. establish_policy cr keys trust bundle rid d = Inr (new, d')
      \<and> policy_lineage d' = map (retire_head new) (policy_lineage d)
          @ (if new \<in> py_policy_digest ` set (policy_lineage d) then []
             else [\<lparr>py_policy_digest = new, py_canonical_bundle = bundle, py_established_receipt = rid,
                    py_prior = prior, py_superseded_by = None\<rparr>])
      \<and> d' = d\<lparr>policy_lineage := policy_lineage d'\<rparr> \<and> one_head d'
      \<and> current_policy_digest d' = Inr (if new \<in> py_policy_digest ` set (policy_lineage d) then None else Some new))
    \<and> (\<forall>p row d2 d3. one_head d2 \<longrightarrow> commit_policy (Some p) row d2 = Inr d3 \<longrightarrow>
         current_policy_digest d2 = Inr (Some p))"
proof
  note e = establish_policy_exact [OF assms(2-6)]
  have "current_policy_digest d \<noteq> Inr (Some new)" using assms(2,3) by simp
  with establish_policy_heads [OF e] establish_policy_one_head [OF assms(1) e] e
  show "\<exists>d'. establish_policy cr keys trust bundle rid d = Inr (new, d')
      \<and> policy_lineage d' = map (retire_head new) (policy_lineage d)
          @ (if new \<in> py_policy_digest ` set (policy_lineage d) then []
             else [\<lparr>py_policy_digest = new, py_canonical_bundle = bundle, py_established_receipt = rid,
                    py_prior = prior, py_superseded_by = None\<rparr>])
      \<and> d' = d\<lparr>policy_lineage := policy_lineage d'\<rparr> \<and> one_head d'
      \<and> current_policy_digest d' = Inr (if new \<in> py_policy_digest ` set (policy_lineage d) then None else Some new)"
    by simp
qed (use commit_policy_current in blast)

theorem policy_supersedes_head_witness:
  "\<exists>d'. establish_policy ex_crypto ex_keys ex_trust ''b'' ''rcpt''
      (policy_db ''b'' (Some (policy_name ''a'')) one_policy) = Inr (policy_name ''b'', d')
    \<and> policy_lineage d' = [lineage_row ''a'' None (Some (policy_name ''b'')),
        lineage_row ''b'' (Some (policy_name ''a'')) None]
    \<and> current_policy_digest d' = Inr (Some (policy_name ''b''))"
proof -
  let ?d = "policy_db ''b'' (Some (policy_name ''a'')) one_policy"
  have one: "one_head ?d" by (simp add: one_head_def policy_heads_def policy_db_def gate_db_def one_policy_def lineage_row_def)
  have "current_policy_digest (empty_db\<lparr>policy_lineage := one_policy\<rparr>) = Inr (Some (policy_name ''a''))"
    by (simp add: current_policy_digest_def policy_heads_def one_policy_def lineage_row_def)
  from policy_accepted [OF this, of "''b''"] obtain receipt where
    r: "load_receipt ex_crypto ?d ''rcpt'' = Inr (Some receipt)"
      "exercise ex_crypto ex_keys ex_trust ?d receipt POLICY_KEY (policy_operation_digest ex_crypto
         (if Some (policy_name ''a'') = None then PolicyEstablish else PolicySupersede) (policy_name ''b'')
         (Some (policy_name ''a'')) (rc_configuration_digest receipt)) = Inr receipt" by blast
  have name: "policy_name ''b'' = digest (sha256 ex_crypto) (JStr ''b'')" by (simp add: policy_name_def)
  have fresh: "policy_name ''b'' \<notin> py_policy_digest ` set (policy_lineage ?d)"
    by (simp add: policy_db_def gate_db_def one_policy_def lineage_row_def)
  show ?thesis
    using conjunct1 [OF policy_supersedes_head [OF one one_policy_current _ name r]] fresh
    by (auto simp: policy_db_def gate_db_def one_policy_def lineage_row_def retire_head_def)
qed



text \<open>The head after an establishment: it is the new policy when that policy was the head already or
  never occurred in the lineage; a policy that was superseded earlier does not become the head again,
  and the lineage is then left without one.\<close>

theorem policy_head_after:
  assumes "establish_policy cr keys trust bundle rid d = Inr (new, d')"
  shows "current_policy_digest d' = Inr (if current_policy_digest d = Inr (Some new)
      \<or> new \<notin> py_policy_digest ` set (policy_lineage d) then Some new else None)"
  using assms by (rule establish_policy_heads)

theorem policy_head_after_witness:
  "\<exists>d'. establish_policy ex_crypto ex_keys ex_trust ''a'' ''rcpt''
      (policy_db ''a'' (Some (policy_name ''b'')) two_policies) = Inr (policy_name ''a'', d')
    \<and> current_policy_digest d' = Inr None"
proof -
  let ?d = "policy_db ''a'' (Some (policy_name ''b'')) two_policies"
  obtain d' where e: "establish_policy ex_crypto ex_keys ex_trust ''a'' ''rcpt'' ?d = Inr (policy_name ''a'', d')"
    using policy_return by blast
  have "current_policy_digest ?d = Inr (Some (policy_name ''b''))"
    by (simp add: current_policy_digest_def policy_heads_def policy_db_def two_policies_def lineage_row_def)
  moreover have "policy_name ''a'' \<in> py_policy_digest ` set (policy_lineage ?d)"
    by (simp add: policy_db_def two_policies_def lineage_row_def)
  ultimately have "current_policy_digest d' = Inr None"
    using policy_head_after [OF e] by simp
  with e show ?thesis by blast
qed

text \<open>C9: a valid receipt is a quorum: the configuration it names is the current one of its key and
  verifies back to its genesis, and at least a quorum of distinct members, each with an active key,
  signed the operation digest.\<close>

theorem receipt_valid_means_quorum:
  assumes "store_ok s" "verify_receipt cr keys (Some t) s r = VALID"
  shows "\<exists>c S. current_configuration cr keys s (rc_authority_key r) = (VALID, Some c)
    \<and> cfg_configuration_digest c = rc_configuration_digest r
    \<and> verify_configuration cr keys s (rc_configuration_digest r) = VALID
    \<and> S \<subseteq> set (cfg_members c) \<and> 1 \<le> cfg_quorum c \<and> cfg_quorum c \<le> int (card S)
    \<and> (\<forall>k \<in> S. standing t k None = Active
         \<and> (\<exists>sig. resolve_and_verify_provenance cr (rc_operation_digest r) sig k ''ed25519'' keys))"
  using verify_receipt_valid [OF assms] unfolding option.case by blast

theorem receipt_valid_means_quorum_witness:
  "\<exists>c S. current_configuration ex_crypto ex_keys (ex_store POLICY_KEY) POLICY_KEY = (VALID, Some c)
    \<and> S \<subseteq> set (cfg_members c) \<and> cfg_quorum c \<le> int (card S)"
  using receipt_valid_means_quorum [OF ex_store_ok ex_receipt_valid, of POLICY_KEY "''op''" None] by auto

text \<open>The verdict on a receipt does not depend on the order in which the configurations arrived:
  proof stores with the same entries judge every receipt alike.\<close>

theorem receipt_verdict_order_free:
  assumes "store_ok s" "store_ok t" "set s = set t"
  shows "verify_receipt cr keys trust s r = verify_receipt cr keys trust t r"
  using assms by (intro verify_receipt_same) (simp add: same_store_def)

theorem receipt_verdict_order_free_witness:
  "verify_receipt ex_crypto ex_keys None (ex_store ''a'' @ ex_store ''b'') (ex_receipt ''a'' ''op'' None)
     = verify_receipt ex_crypto ex_keys None (ex_store ''b'' @ ex_store ''a'') (ex_receipt ''a'' ''op'' None)"
proof (rule receipt_verdict_order_free)
  have "ex_cfg_digest ''a'' \<noteq> ex_cfg_digest ''b''" by code_simp
  then show "store_ok (ex_store ''a'' @ ex_store ''b'')" "store_ok (ex_store ''b'' @ ex_store ''a'')"
    by (auto simp: store_ok_def ex_store_def)
qed auto

section \<open>Trust\<close>

text \<open>C31: revocation is permanent: after a total revocation no sequence of enrolments, grants,
  successions, rotations and revocations makes the key anything but revoked, at any position.\<close>

theorem revocation_permanent:
  assumes "trust_ok r" "tr_m r k = Some e"
  shows "standing (exec_ops trust_step cs (revoke k None r)) k s = Revoked"
  using assms by (rule revoked_forever)

theorem revocation_permanent_witness:
  "standing (exec_ops trust_step [Enroll ''n1'' ''k1'' None [], Rotate ''n1'' ''k1'' ''k3''] (revoke ''k1'' None ex_trust))
     ''k1'' (Some 1) = Revoked"
  by (rule revocation_permanent [OF ex_trust_ok(1), where e = "fresh_entry ''n1'' (genesis_incarnation ''n1'')"])
    (simp add: ex_trust_def)

text \<open>Attribution is stable: a key that is bound to a node stays bound to it through every sequence
  of registry operations, refused ones included, and, when no caller claims the reserved name of a
  genesis incarnation, it always speaks for an incarnation of its own node.\<close>

theorem key_attribution_stable:
  assumes "trust_ok r" "lineage_ok r" "list_all op_names_ok cs" "node_ref r k = Some n"
  shows "node_ref (exec_ops trust_step cs r) k = Some n
    \<and> (\<exists>i e. incarnation_ref (exec_ops trust_step cs r) k = Some i
         \<and> tr_inc (exec_ops trust_step cs r) i = Some e \<and> ie_node_ref e = n)"
proof -
  note n = key_binding_permanent [OF assms(1,4), of cs]
  with lineage_ok_exec [OF assms(3,2)] show ?thesis
    by (fastforce simp: lineage_ok_def node_ref_def incarnation_ref_def)
qed

theorem key_attribution_stable_witness:
  "node_ref (exec_ops trust_step [Rotate ''n1'' ''k1'' ''k3'', Enroll ''n2'' ''k1'' None []] ex_trust) ''k1'' = Some ''n1''"
  by (rule key_attribution_stable [OF ex_trust_ok, THEN conjunct1])
    (auto simp: node_ref_def ex_trust_def fresh_entry_def)

text \<open>No two founding lines: in a proof store, two chains of configurations of one authority key
  that verify from their roots agree on their common length; one extends the other.\<close>

theorem one_line_per_authority:
  assumes "store_ok s" "sound_line cr keys s ds" "sound_line cr keys s es"
    and "map_of s (hd ds) = Some a" "map_of s (hd es) = Some b" "cfg_authority_key a = cfg_authority_key b"
  shows "ds = take (length ds) es \<or> es = take (length es) ds"
  using assms by (rule sound_lines_prefix)

theorem one_line_per_authority_witness:
  "[ex_cfg_digest ''a''] = take 1 [ex_cfg_digest ''a''] \<or> [ex_cfg_digest ''a''] = take 1 [ex_cfg_digest ''a'']"
proof -
  have "sound_line ex_crypto ex_keys (ex_store ''a'') [ex_cfg_digest ''a'']"
    by (simp add: sound_line_def rooted_def link_sound_def genesis_of_def ex_store_def)
  from one_line_per_authority [OF ex_store_ok this this] show ?thesis by (simp add: ex_store_def)
qed

section \<open>Clocks, identifiers and payloads\<close>

text \<open>Equal payload digests mean equal payloads, when the hash does not collide on the two dumps.\<close>

theorem payload_digest_names_payload:
  assumes "digest sha (model_dump p) = digest sha (model_dump q)"
    and "no_collision sha (model_dump p) (model_dump q)" "payload_wf p" "payload_wf q"
  shows "p = q"
  using assms by (rule payload_digest_names)

theorem payload_digest_names_payload_witness:
  "digest (\<lambda>s. s) (model_dump run_plan) \<noteq> digest (\<lambda>s. s) (model_dump run_work)"
proof
  assume "digest (\<lambda>s. s) (model_dump run_plan) = digest (\<lambda>s. s) (model_dump run_work)"
  from payload_digest_names_payload [OF this] have "run_plan = run_work" by (simp add: run_plan_def run_work_def)
  then show False by (simp add: run_plan_def run_work_def)
qed

text \<open>A stamp reads back: parsing the stamp of a clock within PostgreSQL's bigint range gives its
  physical and logical parts and its node, points in the node's name included.\<close>

theorem stamp_reads_back:
  assumes "clock_ok c" "physical_ms c \<le> MAX_BIGINT" "logical c \<le> MAX_BIGINT"
  shows "parse_hlc (stamp c) = Some (physical_ms c, logical c, clock_node c)"
  using assms by (rule parse_stamp)

theorem stamp_reads_back_witness:
  "parse_hlc (stamp \<lparr>clock_node = ''a.b'', physical_ms = 7, logical = 0\<rparr>) = Some (7, 0, ''a.b'')"
  using stamp_reads_back [of "\<lparr>clock_node = ''a.b'', physical_ms = 7, logical = 0\<rparr>"]
  by (simp add: clock_ok_def MAX_BIGINT_def)

text \<open>C0: the clock moves forward: a local tick reads later than before, and receiving a parseable stamp
  makes the clock read later than both its old reading and the stamp, so effects are stamped after
  their causes; each answers with the stamp of the clock it leaves.\<close>

theorem clock_moves_forward:
  assumes "parse_hlc h = Some (p, l, n)"
  shows "reading c < reading (fst (tick now c)) \<and> snd (tick now c) = stamp (fst (tick now c))
    \<and> (\<exists>c' s. Ids.hlc_update h now c = Inr (c', s)
         \<and> reading c < reading c' \<and> (p, l) < reading c' \<and> s = stamp c')"
proof -
  obtain c' s where "Ids.hlc_update h now c = Inr (c', s)" using hlc_update_parsed [OF assms] by blast
  with update_forward [OF assms] have "\<exists>c' s. Ids.hlc_update h now c = Inr (c', s)
      \<and> reading c < reading c' \<and> (p, l) < reading c' \<and> s = stamp c'" by blast
  with tick_forward [of now c "fst (tick now c)" "snd (tick now c)"] show ?thesis by simp
qed

theorem clock_moves_forward_witness:
  "\<exists>c' s. Ids.hlc_update ''9.4.b'' 3 \<lparr>clock_node = ''a'', physical_ms = 7, logical = 0\<rparr> = Inr (c', s)
     \<and> (9, 4) < reading c'"
proof -
  have "parse_hlc ''9.4.b'' = Some (9, 4, ''b'')" by code_simp
  from clock_moves_forward [OF this] show ?thesis by blast
qed

text \<open>a UUIDv7 has the layout of RFC 9562 for every clock reading and all random bits: it fits 128
  bits, starts with the 48 low bits of the milliseconds, and carries version 7 and variant 2.\<close>

theorem uuid7_layout:
  "0 \<le> uuid7 n r2 r8 \<and> uuid7 n r2 r8 < 2 ^ 128 \<and> uuid7 n r2 r8 div 2 ^ 80 = n mod 2 ^ 48
     \<and> uuid7 n r2 r8 div 2 ^ 76 mod 16 = 7 \<and> uuid7 n r2 r8 div 2 ^ 62 mod 4 = 2"
  using uuid7_layout_bounds by blast

section \<open>Storage and interchange\<close>



text \<open>C33: the wire is lossless: decoding the wire form of a verified event gives the event back, and
  its confined form gives the event without payload and scope.\<close>

theorem wire_reads_back:
  assumes "pydantic_ok px P" "event_verify (sha256 cr) e"
    and "\<And>p. payload e = Some p \<Longrightarrow> p \<in> P \<and> payload_valid p \<and> loadable (float_repr cr) (model_dump p)"
  shows "from_wire cr px (to_wire e as_stub)
    = Inr (if as_stub \<or> is_stub e then e\<lparr>payload := None, scope_ref := None\<rparr> else e)"
  using wire_roundtrip [OF assms] by (simp add: wired_def)

theorem wire_reads_back_witness:
  "from_wire run_crypto run_px (to_wire run_e1 False) = Inr run_e1
     \<and> from_wire run_crypto run_px (to_wire run_e1 True) = Inr (run_e1\<lparr>payload := None, scope_ref := None\<rparr>)"
proof -
  have "is_stub run_e1 = False" by (simp add: is_stub_def)
  with wire_reads_back [OF run_px_ok run_verify(1), of False]
    wire_reads_back [OF run_px_ok run_verify(1), of True] show ?thesis
    by (simp add: run_loadable)
qed



section \<open>The service API\<close>

text \<open>C3: a session keeps every invariant: after any sequence of API writes from an empty store, refused
  and failing calls included, the log is a set of contiguous linked chains, the projections are the
  reference ones, and every claim's stored standing is the one it has in the log.\<close>

theorem session_keeps_invariants:
  "log_ok (events (snd (exec_ops session_step cs (k, empty_db))))
     \<and> projected (snd (exec_ops session_step cs (k, empty_db)))
     \<and> fresh_standing (snd (exec_ops session_step cs (k, empty_db)))"
  using session_history [of cs k] by (simp add: session_ok_def)

text \<open>C36: when an emission is refused: exactly when a version 1 envelope would carry a scope, the version
  is unknown, the scope is in the reserved namespace, or the target demands attestation and the
  emitter has no credential; the self-check of a built envelope never fails otherwise.\<close>

theorem emission_refused_exactly:
  "(\<exists>err. emit_event cr dsn st p subj pol scope version em head = Inl err) \<longleftrightarrow>
     (let ver = (case version of Some v \<Rightarrow> v | None \<Rightarrow> if scope \<noteq> None then 2 else 1)
      in ver = 1 \<and> scope \<noteq> None \<or> ver \<notin> {1, 2}
         \<or> (\<exists>s. scope = Some s \<and> startswith s RESERVED_SCOPE_PREFIX)
         \<or> dsn \<and> ic_credential (em_identity em) = None)"
proof -
  have refused: "(\<exists>err. emit_event cr dsn st p subj pol scope version em head = Inl err)
      \<longleftrightarrow> \<not> (\<exists>e. emit_event cr dsn st p subj pol scope version em head = Inr e)"
    by (cases "emit_event cr dsn st p subj pol scope version em head") auto
  show ?thesis unfolding refused emit_event_iff Let_def by (cases scope) auto
qed

theorem emission_refused_exactly_witness:
  "\<exists>err. emit_event run_crypto True ''1.0.n1'' run_plan None None (Some ''fleet'') None
     (emitter_init \<lparr>ic_node_ref = ''n1'', ic_actor_ref = ''a'', ic_assurance = Unattested, ic_credential = None\<rparr>) None
     = Inl err"
  by (subst emission_refused_exactly) (simp add: emitter_init_def)

section \<open>Coordination and discovery\<close>

text \<open>C37: a lease excludes: after a session claims a work, and until its lease expires, the session is
  the holder whatever calls other sessions make in between.\<close>

theorem lease_is_exclusive:
  assumes "distinct (map fst r)" "fst (claim w s now ttl r)"
    and "list_all (foreign s (now + ttl)) ops" "u < now + ttl"
  shows "fst (holder w u (foldl claim_step (snd (claim w s now ttl r)) ops)) = Some s"
  using assms by (rule lease_excludes)

theorem lease_is_exclusive_witness:
  "fst (holder ''w'' 20 (foldl claim_step (snd (claim ''w'' ''a'' 0 30 []))
     [OpClaim ''w'' ''b'' 10 30, OpRelease ''w'' ''b'', OpReleaseSession ''b''])) = Some ''a''"
  by (rule lease_is_exclusive) (simp_all add: claim_def holder_def)

text \<open>C38: discovery is bounded by authority: a participant is offered only work that is ready and has a
  contract, whose role it is authorized for, and that no other session holds.\<close>

theorem offer_within_authority:
  assumes "work_next_for_participant d registry sid claims now = (Offered c, claims')"
  shows "\<exists>s role. lookup_session registry sid = Some s \<and> role_prefix @ role \<in> ps_authorized s
    \<and> ct_role_requirement c = Some role \<and> work_contract_of d (ct_work_ref c) = Some c
    \<and> free_for sid now claims (ct_work_ref c)"
  using participant_offer [OF assms] by metis

theorem offer_within_authority_witness:
  "\<exists>c claims. work_next_for_participant run_db run_participants ''s1'' None None = (Offered c, claims)
     \<and> ct_role_requirement c = Some ''dev''"
proof -
  have "\<exists>c claims. work_next_for_participant run_db run_participants ''s1'' None None = (Offered c, claims)"
    using run_offered by (cases "work_next_for_participant run_db run_participants ''s1'' None None"; cases
        "fst (work_next_for_participant run_db run_participants ''s1'' None None)") auto
  then obtain c claims where o: "work_next_for_participant run_db run_participants ''s1'' None None = (Offered c, claims)"
    by blast
  from offer_within_authority [OF this] obtain role where "role_prefix @ role \<in> {''role:dev''}"
    "ct_role_requirement c = Some role" by auto
  with o show ?thesis by (auto simp: role_prefix_def)
qed

text \<open>C39: no work is withheld: when a projected store whose ready works all have their plan answers that
  there is no ready work, every ready work of an authorized role is held by another session.\<close>

theorem no_work_withheld:
  assumes "projected d" "plans_held d" "finite (ps_authorized s)"
    and "work_next_for_participant d registry sid claims now = (No_ready_work, claims')"
    and "lookup_session registry sid = Some s"
    and "role_prefix @ role \<in> ps_authorized s" "has_role d (Some role) w"
  shows "\<not> free_for sid now claims w"
  using assms by (rule participant_nothing)

theorem no_work_withheld_witness: "\<not> free_for ''s1'' (Some 5) (Some run_claims) ''w1''"
proof -
  obtain claims where "work_next_for_participant run_db run_participants ''s1'' (Some run_claims) (Some 5)
      = (No_ready_work, claims)" using run_withheld by (metis prod.collapse)
  from no_work_withheld [OF run_projected run_plans_held _ this, where role = "''dev''"] show ?thesis
    using run_ready by (simp add: role_prefix_def)
qed

section \<open>Credentials\<close>

text \<open>A proof of possession is accepted once: over any sequence of capability calls, the accepted
  nonces are pairwise distinct and none was seen before.\<close>

theorem nonces_accepted_once:
  "set (accepted cr isof cs seen) \<inter> seen = {} \<and> distinct (accepted cr isof cs seen)"
  by (rule accepted_fresh)

text \<open>C40: a revoked credential stays refused: once its identifier is revoked, no later issuance,
  attestation or revocation makes its verification against the table succeed.\<close>

theorem revoked_credential_stays_refused:
  assumes "keyed d" "revoke_ref j knd why d = Inr d'" "map_of (cred_payload cred) ''jti'' = Some (JStr j)"
  shows "verify_credential cr cred pem iss aud now (Some (revoked_set (exec_ops (security_step tx) cs d'))) \<noteq> Inr True"
proof (rule revoked_credential_refused [OF assms(3)])
  have "keyed d'" using security.step_inv [OF assms(1), of tx "Revoke_ref j knd why"] assms(2) by simp
  moreover have "j \<in> revoked_set d'" by (simp add: revoke_ref_revokes [OF assms(2)])
  ultimately show "j \<in> revoked_set (exec_ops (security_step tx) cs d')" by (rule revoked_stays)
qed

theorem revoked_credential_stays_refused_witness:
  "verify_credential ex_crypto \<lparr>cred_payload = [(''jti'', JStr ''j'')], cred_signature = ex_sig\<rparr> ''pem1'' ''i'' ''a'' ''now''
     (Some (revoked_set (exec_ops (security_step (\<lambda>_. Inr None)) [Revoke_ref ''x'' ''key'' None]
        (projr (revoke_ref ''j'' ''credential'' None empty_security))))) \<noteq> Inr True"
proof (rule revoked_credential_stays_refused)
  show "keyed empty_security" by (simp add: keyed_def empty_security_def)
  show "revoke_ref ''j'' ''credential'' None empty_security
      = Inr (projr (revoke_ref ''j'' ''credential'' None empty_security))"
    by (simp add: revoke_ref_def)
qed simp

section \<open>Reading the plan lineage and the console\<close>

text \<open>C16: a traversal that does not say it is truncated is complete: when the answer is not marked
  truncated and holds fewer edges than the total cap, its edges are exactly the relations with an end
  within reach of the subject at the depth asked for (clamped to 1 to 3).\<close>

theorem traversal_complete:
  assumes "\<not> tv_is_truncated (traverse d subject depth)"
    and "tv_total_edges_discovered (traverse d subject depth) < MAX_TOTAL"
  shows "set (tv_edges (traverse d subject depth)) =
    neighbourhood (current_relations d) subject (clamp_depth depth - 1)"
  using assms by (rule traverse_whole)

theorem traversal_complete_witness:
  "neighbourhood (current_relations run_db) (''plan'', ''p1'') 0 =
     set (tv_edges (traverse run_db (''plan'', ''p1'') 1))"
  using traversal_complete [of run_db "(''plan'', ''p1'')" 1] run_traversal
  by (simp add: MAX_TOTAL_def clamp_depth_def)



section \<open>Retrieval\<close>

text \<open>C19: the planner keeps the ceiling of the caller: it returns for every bound intent, the budgets
  sum to at most the limit (to nothing when it is negative), every planned class has its floor, every
  purpose of the intent is planned or reported as skipped, and nothing is planned of a tier below one
  that was cut.\<close>

theorem plan_within_limit:
  "\<exists>p. compile_plan b = Inr p \<and>
     sum_list (map qc_budget (pn_query_classes p)) \<le> max 0 (in_limit (bi_intent b)) \<and>
     (\<forall>c \<in> set (pn_query_classes p). floor_of (qc_purpose c) \<le> qc_budget c) \<and>
     qc_purpose ` set (pn_query_classes p) \<union> sk_purpose ` set (pn_skipped p) = fst ` set (purposes_of b) \<and>
     (\<forall>c \<in> set (pn_query_classes p). \<forall>s \<in> set (pn_skipped p). tier (qc_purpose c) \<le> tier (sk_purpose s))"
  by (rule plan_facts)

theorem plan_within_limit_witness:
  "\<exists>p. compile_plan (ask (Some Claim_anchor) 4) = Inr p \<and>
     map qc_purpose (pn_query_classes p) = [Q_anchor_lookup, Q_standing, Q_repository_normative] \<and>
     sum_list (map qc_budget (pn_query_classes p)) \<le> 4"
proof -
  obtain p where p: "compile_plan (ask (Some Claim_anchor) 4) = Inr p"
    "sum_list (map qc_budget (pn_query_classes p)) \<le> max 0 (in_limit (bi_intent (ask (Some Claim_anchor) 4)))"
    using plan_within_limit [of "ask (Some Claim_anchor) 4"] by blast
  moreover from p(1) small_plan
  have "map qc_purpose (pn_query_classes p) = [Q_anchor_lookup, Q_standing, Q_repository_normative]" by simp
  ultimately show ?thesis by (simp add: ask_def)
qed



text \<open>C18: an answer that states no cut is whole: when a neighbourhood reports no truncation and every
  entry of its frontier is a cycle, its references are exactly those that visible links connect with
  the anchor, in any number of steps.\<close>

theorem neighborhood_honest:
  assumes "exec_neighborhood nt d a depth qc scopes = Inr nb" "nb_truncation nb = None"
    and "\<forall>f \<in> set (nb_frontier nb). fe_stop f = Cycle"
  shows "rc_ref ` set (nb_records nb) = {m. (visible_step d scopes)\<^sup>*\<^sup>* a m} - {a}"
  using assms by (rule neighborhood_complete)

theorem neighborhood_honest_witness:
  "{m. (visible_step claim_db [])\<^sup>*\<^sup>* ''sha256:5.0'' m} - {''sha256:5.0''} = {''sha256:5.1''}"
proof -
  obtain nb where nb: "claim_neighbors = Inr nb" "map rc_ref (nb_records nb) = [''sha256:5.1'']"
    "\<forall>f \<in> set (nb_frontier nb). fe_stop f = Cycle" "nb_truncation nb = None"
    by (rule claim_neighbors_seen)
  have "rc_ref ` set (nb_records nb) = {''sha256:5.1''}" using nb(2) by (metis list.set(1,2) list.set_map)
  with neighborhood_honest [OF nb(1) [unfolded claim_neighbors_def] nb(4,3)] show ?thesis by simp
qed

text \<open>C17: what a viewer may not see has no part in the answer: two stores with the same links visible to
  the viewer, in the same order, the same unresolved ones in scope and the same texts and standings at
  the ends of the visible links give the same records, frontiers, truncation or error; only the count of
  what is withheld may differ.  So links from a scope that the viewer does not hold cannot crowd out
  visible ones.\<close>

theorem invisible_rows_inert:
  assumes "filter (viewer_sees scopes) (event_links d) = filter (viewer_sees scopes) (event_links d')"
    and "unresolved_entries d scopes a = unresolved_entries d' scopes a"
    and "\<forall>l \<in> set (event_links d). viewer_sees scopes l \<longrightarrow> (\<forall>m \<in> {lr_source_ref l, lr_target_ref l}.
      summary_of nt d m = summary_of nt d' m \<and> told_standing d m = told_standing d' m)"
  shows "map_sum id (\<lambda>nb. nb\<lparr>nb_withheld := 0\<rparr>) (exec_neighborhood nt d a depth qc scopes) =
    map_sum id (\<lambda>nb. nb\<lparr>nb_withheld := 0\<rparr>) (exec_neighborhood nt d' a depth qc scopes)"
  using assms by (rule neighborhood_blind)

theorem invisible_rows_inert_witness:
  "event_links shadowed_db \<noteq> event_links claim_db \<and>
   map_sum id (\<lambda>nb. nb\<lparr>nb_withheld := 0\<rparr>) claim_neighbors =
     map_sum id (\<lambda>nb. nb\<lparr>nb_withheld := 0\<rparr>) (exec_neighborhood id shadowed_db ''sha256:5.0'' 2 near [])"
proof
  show "event_links shadowed_db \<noteq> event_links claim_db" by (simp add: shadowed_db_def)
  show "map_sum id (\<lambda>nb. nb\<lparr>nb_withheld := 0\<rparr>) claim_neighbors =
      map_sum id (\<lambda>nb. nb\<lparr>nb_withheld := 0\<rparr>) (exec_neighborhood id shadowed_db ''sha256:5.0'' 2 near [])"
    unfolding claim_neighbors_def
    by (rule invisible_rows_inert [OF shadowed_same(1,2)]) (simp add: shadowed_same(3,4))
qed

text \<open>C20: evidence is balanced under any budget: the class returns at most its budget, and of the
  supporting and of the contradicting links in scope it tells half of the budget each, or all there
  are.\<close>

theorem evidence_balanced:
  assumes "exec_evidence nt d a qc scopes = Inr (rs, n)" "r = Supports \<or> r = Contradicts"
  shows "int (length rs) \<le> max 0 (qc_budget qc) \<and>
    min (length (evidence_side d scopes a r)) (nat (qc_budget qc) div 2) \<le>
      length (filter (\<lambda>x. rc_path x = evidence_path a r (rc_ref x)) rs)"
  using evidence_budget [OF assms(1)] evidence_told [OF assms] ..

theorem evidence_balanced_witness:
  "\<exists>rs n. exec_evidence id claim_db ''sha256:5.0'' (near\<lparr>qc_budget := 2\<rparr>) [] = Inr (rs, n) \<and> length rs \<le> 2 \<and>
     (\<exists>x \<in> set rs. rc_path x = evidence_path ''sha256:5.0'' Supports (rc_ref x))"
proof -
  obtain rs n where e: "exec_evidence id claim_db ''sha256:5.0'' (near\<lparr>qc_budget := 2\<rparr>) [] = Inr (rs, n)"
    by (rule claim_evidence)
  from evidence_balanced [OF e, of Supports]
  have "length rs \<le> 2" "1 \<le> length (filter (\<lambda>x. rc_path x = evidence_path ''sha256:5.0'' Supports (rc_ref x)) rs)"
    by (simp_all add: claim_side)
  moreover from this(2) have "\<exists>x \<in> set rs. rc_path x = evidence_path ''sha256:5.0'' Supports (rc_ref x)"
    by (cases "filter (\<lambda>x. rc_path x = evidence_path ''sha256:5.0'' Supports (rc_ref x)) rs")
      (auto dest: Cons_eq_filterD simp: filter_eq_Cons_iff)
  ultimately show ?thesis using e by blast
qed



section \<open>Runtimes\<close>



text \<open>C24: a teardown tells the truth: run alone it keeps every live runtime recorded, and an answer
  other than \<open>cleanup_incomplete\<close> means that no runtime of the Work is alive.\<close>

theorem teardown_answers_true:
  assumes "tmux_host cli m session sha env wins work_of known"
    and "registered (serving TMUX wins work_of) h w"
    and "terminate (tmux_loaders cli m session sha env) work (h, w) = (answer, h', w')"
  shows "registered (serving TMUX wins work_of) h' w' \<and>
    (answer = Cleanup_incomplete \<or> (\<forall>x. serving TMUX wins work_of w' x \<noteq> Some work))"
  using tmux_host.terminate_true [OF assms] .

theorem teardown_answers_true_witness:
  "registered (serving TMUX server_windows (tokens_of short_digest node_works)) (Entries [])
     \<lparr>tv_windows = [], tv_clock = 3\<rparr>"
  using teardown_answers_true [OF server.tmux_host_axioms ex_window_registered
      ex_teardown [unfolded ex_loaders_def]] by blast

text \<open>C25: waking ends, and ends well only on evidence: \<open>deliver_wake\<close> returns on every such host, and
  it returns normally only after the pane of the runtime itself showed the cue.\<close>

theorem wake_delivery_ends:
  assumes "tmux_host cli m session sha env wins work_of known"
  shows "\<exists>r w'. deliver_wake (tmux_backend cli m session sha env) m h w = Some (r, w') \<and>
    (isl r \<or> (\<exists>out v. tmux_read cli session h v = (Inr out, w') \<and>
       contains wake_marker (flatten out)))"
  using tmux_host.wake_delivered [OF assms, of h w] by (metis (full_types) old.unit.exhaust sum.collapse(2))

theorem wake_delivery_ends_witness:
  "\<exists>r w'. deliver_wake ex_backend server_machine (handle_of ex_entry) ex_running = Some (r, w')"
  using wake_delivery_ends [OF server.tmux_host_axioms] unfolding ex_backend_def by metis


text \<open>The exceptions do leave: herdr tells of an agent in a pane whose name has a zero byte.\<close>

theorem herdr_terminate_escapes:
  "escaping (herdr_terminate ex_decoder zero_cli ''kawa'' \<lparr>rh_backend = HERDR, rh_token = ''kawa-1''\<rparr> w) =
     {Value_error}"
  by (rule zero_pane_escapes)

text \<open>The launcher loses no runtime on a host whose herdr answers as \<open>herdr_host\<close> states, but for the
  case of C10, and the launch returns.\<close>

theorem herdr_launch_keeps_recorded:
  assumes "herdr_host dc cli m session sha env agents work_of known"
    and "registered (serving HERDR agents work_of) h w" "ls_work_ref spec \<in> known"
  shows "\<exists>r h' w'. launch (herdr_loaders dc cli m session sha env)
      (herdr_backend dc cli m session sha env) m d spec force started_at (h, w) = Some (r, h', w') \<and>
    (registered (serving HERDR agents work_of) h' w' \<or>
     r = Inl (Failed HERDR Launch_timeout) \<and>
     recorded_but (serving HERDR agents work_of) (ls_work_ref spec) h' w')"
  using herdr_host.launch_recorded [OF assms] .

theorem herdr_launch_keeps_recorded_witness:
  "\<exists>r h' w'. launch (herdr_loaders ex_decoder herdr_server_cli herdr_machine ''kawa'' short_digest
      [(''HOME'', ''/home/k'')]) ex_herdr herdr_machine run_db ex_spec False ''t0'' (Unreadable, ex_quiet)
      = Some (r, h', w')"
  using herdr_launch_keeps_recorded [OF herdr.herdr_host_axioms ex_herdr_unregistered_none, of ex_spec]
  unfolding ex_herdr_def by (simp add: ex_spec_def node_works_def) metis

text \<open>The comparison of tokens in \<open>terminate\<close> does not tell a runtime from its successor: after
  another invocation has launched the same Work again and recorded it, the second locked section of
  the teardown finds its own token there and drops the new runtime's entry.\<close>

theorem retire_forgets_successor:
  assumes "tmux_launch cli session sha env spec w = (Inr handle, w')"
    and "he_token entry = token_for sha (ls_work_ref spec)"
  shows "cache_get (retire_entry (ls_work_ref spec) entry
      (cache_put (ls_work_ref spec) (rh_backend handle) (rh_token handle) started_at h))
      (ls_work_ref spec) = None"
  using assms by (rule retire_forgets)

theorem retire_forgets_successor_witness:
  "cache_get (retire_entry ''w1'' ex_entry (cache_put ''w1'' TMUX ''kawa-1'' ''t1'' (Entries []))) ''w1'' = None"
  using retire_forgets_successor [OF ex_window, of ex_entry]
  by (simp add: ex_spec_def ex_entry_def token_for_def short_digest_def)

section \<open>The checker of the authority contract\<close>

text \<open>C11: \<open>check\<close> ends for every setting of the two rules, and its verdict is the truth about the
  machine: it reports no counterexample exactly when no reachable state has a violation.\<close>

theorem authority_check_decides:
  "\<exists>n r. check es en = Some (n, r) \<and>
     (r = None \<longleftrightarrow> (\<forall>s. contract_reaches es en s \<longrightarrow> violations s = []))"
  by (rule check_decides)

theorem authority_check_decides_witness: "\<exists>n. check True True = Some (n, None)"
  using authority_check_decides [of True True] both_rules_safe by blast

text \<open>C27: the checker accepts the contract: \<open>main\<close> explores the machine with both rules on and finds
  nothing, finds a split brain without the succession rule and an equivocation without the voting
  rule, all its focused checks pass, and it exits with 0.\<close>

theorem checker_accepts_contract: "main = Some (Exit 0)"
proof -
  obtain n where "check True True = Some (n, None)" using check_both_rules by blast
  then show ?thesis
    by (simp add: main_def first_control second_control focused_checks_pass structural_notes_hold)
qed

text \<open>A conflict names its culprits: in every assignment of votes to the four nodes with any set of
  Byzantine members, if both operations gather a certificate then somebody signed both, and everybody
  who did is Byzantine.\<close>

theorem certificate_conflict_attributed:
  assumes "(byz, assign) \<in> set (fault_runs (assignments NODES) rs)" "both_certified OpA OpB assign"
  shows "cert_signers assign OpA \<inter> cert_signers assign OpB \<noteq> {}
    \<and> cert_signers assign OpA \<inter> cert_signers assign OpB \<subseteq> byz"
  using assms by (rule conflict_attributed)

theorem certificate_conflict_attributed_witness:
  "cert_signers [(0, {OpA, OpB}), (1, {OpA, OpB}), (2, {OpA}), (3, {OpB})] OpA
     \<inter> cert_signers [(0, {OpA, OpB}), (1, {OpA, OpB}), (2, {OpA}), (3, {OpB})] OpB \<subseteq> {0, 1}"
proof -
  have "({0, 1}, [(0, {OpA, OpB}), (1, {OpA, OpB}), (2, {OpA}), (3, {OpB})])
      \<in> set (fault_runs (assignments NODES) [2])"
    using equivocating_run [of "[2]" OpA OpB]
    by (simp add: assignments_NODES HONEST_VOTES_def BYZ_VOTES_def OPS_def)
  from certificate_conflict_attributed [OF this equivocators_certify_both] show ?thesis by simp
qed

end
